(* ===== verification/Prelude.thy ===== *)
theory Prelude
  imports Main "HOL-Library.Word" "HOL-Library.Finite_Map" "HOL-Library.Char_ord"
    "HOL-Library.List_Lexorder" "HOL-Library.Sublist"
begin

text \<open>
  Shared ground of the development: machine integers at the widths the Rust code uses, the
  parts of the Rust standard library several components call (decimal formatting and parsing of
  integers, ASCII case folding, map iteration), and the collections of simplification rules.

  Conventions. A Rust \<^verbatim>\<open>String\<close> is its UTF-8 byte sequence, one \<^typ>\<open>char\<close> per byte, so
  \<^verbatim>\<open>len()\<close> is \<^const>\<open>length\<close> and the order of \<^verbatim>\<open>str\<close> is the
  lexicographic order on \<^typ>\<open>string\<close>. A \<^verbatim>\<open>Vec\<close> is a list, a
  \<^verbatim>\<open>HashMap\<close> or \<^verbatim>\<open>BTreeMap\<close> a finite map; a \<^verbatim>\<open>BTreeMap\<close> is
  traversed by \<open>btree_iter\<close>, in key order, and a \<^verbatim>\<open>HashMap\<close> by a
  function passed as a parameter, since the order of its traversal is not specified
  (\<open>hash_iter\<close> is all that is known of it). \<^verbatim>\<open>Result<T, E>\<close> is the sum type
  \<open>'e + 't\<close>. Unsigned integers are words; arithmetic wraps, as in a release build.
\<close>

type_synonym u8 = "8 word"
type_synonym u16 = "16 word"
type_synonym u32 = "32 word"
type_synonym u64 = "64 word"

named_theorems std_simps \<open>evaluation rules of the standard-library functions\<close>
named_theorems op_defs \<open>definitions of the operations of the components\<close>

section \<open>Standard library\<close>

subsection \<open>Maps\<close>

text \<open>The entries of a \<^verbatim>\<open>BTreeMap\<close> in ascending key order.\<close>

definition btree_iter :: "('k::linorder, 'v) fmap \<Rightarrow> ('k \<times> 'v) list" where
  "btree_iter m = map (\<lambda>k. (k, the (fmlookup m k))) (sorted_list_of_fset (fmdom m))"

text \<open>
  What is known of the traversal of a \<^verbatim>\<open>HashMap\<close>: it yields every entry exactly once.
\<close>

definition hash_iter :: "(('k, 'v) fmap \<Rightarrow> ('k \<times> 'v) list) \<Rightarrow> bool" where
  "hash_iter it \<longleftrightarrow> (\<forall>m. distinct (map fst (it m)) \<and> map_of (it m) = fmlookup m)"

text \<open>\<^verbatim>\<open>map.get(k).copied().unwrap_or(d)\<close>.\<close>

definition fm_get_or :: "('k, 'v) fmap \<Rightarrow> 'k \<Rightarrow> 'v \<Rightarrow> 'v" where
  "fm_get_or m k d = (case fmlookup m k of None \<Rightarrow> d | Some v \<Rightarrow> v)"

text \<open>\<^verbatim>\<open>map.len()\<close>.\<close>

definition fm_len :: "('k, 'v) fmap \<Rightarrow> nat" where
  "fm_len m = fcard (fmdom m)"

subsection \<open>Decimal integers\<close>

definition digit_char :: "nat \<Rightarrow> char" where
  "digit_char d = char_of (48 + d)"

definition is_digit :: "char \<Rightarrow> bool" where
  "is_digit c \<longleftrightarrow> 48 \<le> (of_char c :: nat) \<and> (of_char c :: nat) \<le> 57"

definition digit_val :: "char \<Rightarrow> nat" where
  "digit_val c = of_char c - 48"

text \<open>\<^verbatim>\<open>n.to_string()\<close> of an unsigned integer.\<close>

fun dec :: "nat \<Rightarrow> string" where
  "dec n = (if n < 10 then [digit_char n] else dec (n div 10) @ [digit_char (n mod 10)])"

declare dec.simps [simp del]

definition dec_val :: "string \<Rightarrow> nat" where
  "dec_val = foldl (\<lambda>a c. a * 10 + digit_val c) 0"

text \<open>
  \<^verbatim>\<open>s.parse::<u64>()\<close>: an optional plus sign, then at least one digit, and a
  value that fits the width.
\<close>

definition strip_plus :: "string \<Rightarrow> string" where
  "strip_plus s = (case s of [] \<Rightarrow> [] | c # cs \<Rightarrow> if c = CHR ''+'' then cs else s)"

definition parse_uint :: "nat \<Rightarrow> string \<Rightarrow> nat option" where
  "parse_uint bits s =
     (let ds = strip_plus s in
      if ds \<noteq> [] \<and> list_all is_digit ds \<and> dec_val ds < 2 ^ bits then Some (dec_val ds) else None)"

definition parse_u64 :: "string \<Rightarrow> u64 option" where
  "parse_u64 s = map_option word_of_nat (parse_uint 64 s)"

subsection \<open>Strings\<close>

text \<open>
  \<^verbatim>\<open>s.to_lowercase()\<close> as far as a comparison of the result with an ASCII literal can
  tell: ASCII capitals are folded, and so is the Kelvin sign (bytes E2 84 AA), the only other
  character whose lower-case form is ASCII. All other bytes are kept.
\<close>

definition ascii_lower :: "char \<Rightarrow> char" where
  "ascii_lower c = (let n = (of_char c :: nat) in if 65 \<le> n \<and> n \<le> 90 then char_of (n + 32) else c)"

fun to_lowercase :: "string \<Rightarrow> string" where
  "to_lowercase (a # b # c # s) =
     (if a = CHR 0xE2 \<and> b = CHR 0x84 \<and> c = CHR 0xAA then CHR ''k'' # to_lowercase s
      else ascii_lower a # to_lowercase (b # c # s))"
| "to_lowercase s = map ascii_lower s"

text \<open>\<^verbatim>\<open>s.strip_prefix(p)\<close>.\<close>

definition strip_prefix :: "string \<Rightarrow> string \<Rightarrow> string option" where
  "strip_prefix p s = (if prefix p s then Some (drop (length p) s) else None)"

text \<open>\<^verbatim>\<open>s.contains(p)\<close>.\<close>

definition str_contains :: "string \<Rightarrow> string \<Rightarrow> bool" where
  "str_contains s p \<longleftrightarrow> sublist p s"

section \<open>Lemmas\<close>

subsection \<open>Maps\<close>

lemma map_fst_btree_iter: "map fst (btree_iter m) = sorted_list_of_fset (fmdom m)"
  by (simp add: btree_iter_def o_def)

lemma distinct_btree_iter [simp]: "distinct (map fst (btree_iter m))"
  by (simp add: map_fst_btree_iter sorted_list_of_fset.rep_eq)

lemma sorted_btree_iter [simp]: "sorted (map fst (btree_iter m))"
  by (simp add: map_fst_btree_iter sorted_list_of_fset.rep_eq)

lemma set_btree_iter: "set (btree_iter m) = {(k, v). fmlookup m k = Some v}"
proof -
  have "set (btree_iter m) = (\<lambda>k. (k, the (fmlookup m k))) ` fmdom' m"
    by (simp add: btree_iter_def sorted_list_of_fset.rep_eq fmdom'_alt_def)
  also have "\<dots> = {(k, v). fmlookup m k = Some v}"
    by (force simp: fmlookup_dom'_iff)
  finally show ?thesis .
qed

lemma map_of_btree_iter [simp]: "map_of (btree_iter m) = fmlookup m"
proof
  fix k
  show "map_of (btree_iter m) k = fmlookup m k"
  proof (cases "fmlookup m k")
    case None
    then have "k \<notin> fst ` set (btree_iter m)" by (auto simp: set_btree_iter)
    with None show ?thesis by (simp add: map_of_eq_None_iff)
  next
    case (Some v)
    then have "(k, v) \<in> set (btree_iter m)" by (simp add: set_btree_iter)
    with Some show ?thesis by (simp add: map_of_is_SomeI)
  qed
qed

lemma hash_iter_btree_iter: "hash_iter btree_iter"
  by (simp add: hash_iter_def)

lemma hash_iterD:
  assumes "hash_iter it"
  shows "distinct (map fst (it m))" and "map_of (it m) = fmlookup m"
  using assms by (simp_all add: hash_iter_def)

lemma hash_iter_set:
  assumes "hash_iter it"
  shows "set (it m) = {(k, v). fmlookup m k = Some v}"
  using hash_iterD [OF assms, of m] by (auto simp flip: map_of_eq_Some_iff)

lemma hash_iter_length:
  assumes "hash_iter it"
  shows "length (it m) = fm_len m"
proof -
  have "fst ` set (it m) = fmdom' m"
    using hash_iter_set [OF assms, of m] by (force simp: fmlookup_dom'_iff)
  then have "card (set (map fst (it m))) = fcard (fmdom m)"
    by (simp add: fcard.rep_eq fmdom'_alt_def)
  then show ?thesis
    using distinct_card [OF hash_iterD(1) [OF assms, of m]] by (simp add: fm_len_def)
qed

lemma fm_get_or_upd [simp]: "fm_get_or (fmupd k v m) k' d = (if k = k' then v else fm_get_or m k' d)"
  by (simp add: fm_get_or_def)

lemma fm_get_or_empty [simp]: "fm_get_or fmempty k d = d"
  by (simp add: fm_get_or_def)

text \<open>
  A loop over the entries of a map that updates, for each entry, the same key of an accumulator
  map acts key by key.
\<close>

lemma fold_fmupd_lookup:
  assumes "distinct (map fst xs)"
  shows "fmlookup (fold (\<lambda>(k, v) m. fmupd k (f v (fmlookup m k)) m) xs m) k =
    (case map_of xs k of None \<Rightarrow> fmlookup m k | Some v \<Rightarrow> Some (f v (fmlookup m k)))"
  using assms
proof (induction xs arbitrary: m)
  case Nil
  then show ?case by simp
next
  case (Cons x xs)
  obtain k' v where x: "x = (k', v)" by (cases x)
  with Cons.prems have "map_of xs k' = None" by (simp add: map_of_eq_None_iff image_iff)
  with x Cons.IH [of "fmupd k' (f v (fmlookup m k')) m"] Cons.prems show ?case
    by (auto split: option.splits)
qed

subsection \<open>Folds\<close>

lemma fold_fmdrop_lookup:
  "fmlookup (fold (\<lambda>n m. fmdrop (f n) m) ns m) p = (if p \<in> f ` set ns then None else fmlookup m p)"
  by (induction ns arbitrary: m) auto

lemma fold_fmdrop_keys: "fmlookup (fold fmdrop ks m) k = (if k \<in> set ks then None else fmlookup m k)"
  using fold_fmdrop_lookup [of "\<lambda>k. k" ks m k] by simp

lemma fold_max_Max:
  "fold (\<lambda>x m. max m (f x)) xs (m :: 'b::linorder) = Max (insert m (f ` set xs))"
proof (induction xs arbitrary: m)
  case (Cons x xs)
  have "Max (insert (max m (f x)) A) = Max (insert m (insert (f x) A))" if "finite A" for A
    using that by (cases "A = {}") (simp_all add: max.assoc)
  then show ?case by (simp add: Cons.IH)
qed simp

subsection \<open>Words\<close>

lemma unat_of_nat_small: "n < 2 ^ LENGTH('a) \<Longrightarrow> unat (word_of_nat n :: 'a::len word) = n"
  by (simp add: unsigned_of_nat take_bit_nat_eq_self)

lemma unat_less: "unat (w :: 'a::len word) < 2 ^ LENGTH('a)"
  by (rule unsigned_less)

lemma unat_add_small:
  "unat a + unat b < 2 ^ LENGTH('a) \<Longrightarrow> unat (a + b :: 'a::len word) = unat a + unat b"
  by (simp add: unat_word_ariths)

lemma unat_plus_1_less:
  assumes "(a :: 'a::len word) < b"
  shows "unat (a + 1) = Suc (unat a)"
proof -
  have "unat b < 2 ^ LENGTH('a)" by (rule unat_less)
  moreover have "unat a < unat b" using assms by (simp add: word_less_nat_alt)
  ultimately have "unat a + unat (1 :: 'a word) < 2 ^ LENGTH('a)" unfolding unat_1 by linarith
  then show ?thesis by (simp add: unat_add_small)
qed

subsection \<open>Decimal integers\<close>

lemma of_char_digit_char [simp]: "d < 10 \<Longrightarrow> (of_char (digit_char d) :: nat) = 48 + d"
  by (simp add: digit_char_def)

lemma is_digit_digit_char [simp]: "d < 10 \<Longrightarrow> is_digit (digit_char d)"
  by (simp add: is_digit_def)

lemma digit_val_digit_char [simp]: "d < 10 \<Longrightarrow> digit_val (digit_char d) = d"
  by (simp add: digit_val_def)

lemma dec_nonempty [simp]: "dec n \<noteq> []"
  by (subst dec.simps) simp

lemma list_all_is_digit_dec [simp]: "list_all is_digit (dec n)"
proof (induction n rule: dec.induct)
  case (1 n)
  then show ?case by (cases "n < 10") (simp_all add: dec.simps [of n])
qed

lemma dec_val_snoc: "dec_val (s @ [c]) = dec_val s * 10 + digit_val c"
  by (simp add: dec_val_def)

lemma dec_val_dec [simp]: "dec_val (dec n) = n"
proof (induction n rule: dec.induct)
  case (1 n)
  show ?case
  proof (cases "n < 10")
    case True
    then show ?thesis by (simp add: dec.simps [of n] dec_val_def)
  next
    case False
    with 1 show ?thesis by (simp add: dec.simps [of n] dec_val_snoc)
  qed
qed

lemma dec_inject [simp]: "dec m = dec n \<longleftrightarrow> m = n"
  by (metis dec_val_dec)

lemma not_digit_notin_dec: "\<not> is_digit c \<Longrightarrow> c \<notin> set (dec n)"
  using list_all_is_digit_dec [of n] by (auto simp: list_all_iff)

lemma strip_plus_dec [simp]: "strip_plus (dec n) = dec n"
proof -
  have "\<not> is_digit (CHR ''+'')" by (simp add: is_digit_def)
  then have "CHR ''+'' \<notin> set (dec n)" by (rule not_digit_notin_dec)
  then show ?thesis by (auto simp: strip_plus_def split: list.splits)
qed

lemma parse_uint_dec: "n < 2 ^ bits \<Longrightarrow> parse_uint bits (dec n) = Some n"
  by (simp add: parse_uint_def)

lemma parse_u64_dec [simp]: "parse_u64 (dec (unat (w :: u64))) = Some w"
proof -
  have "unat w < 2 ^ 64" using unsigned_less [of w] by simp
  then show ?thesis by (simp add: parse_u64_def parse_uint_dec)
qed

subsection \<open>Strings\<close>

lemma strip_prefix_append [simp]: "strip_prefix p (p @ s) = Some s"
  by (simp add: strip_prefix_def)

lemma strip_prefix_eq_Some: "strip_prefix p s = Some r \<longleftrightarrow> s = p @ r"
  by (auto simp: strip_prefix_def prefix_def)

end
