(* ===== verification/Errors.thy ===== *)
theory Errors
  imports Prelude
begin

text \<open>
  The error values of all operations (\<^verbatim>\<open>crates/core/src/error.rs\<close>), the error
  body of the HTTP interface (\<^verbatim>\<open>crates/node/src/dto.rs\<close>) and the
  translation of one into the other (\<^verbatim>\<open>crates/node/src/errors.rs\<close>).
\<close>

section \<open>Error values\<close>

datatype db_error =
    NotFound string
  | StorageError string
  | IndexError string
  | NetworkError string
  | ConsensusError string
  | SerializationError string
  | InvalidInput string
  | ConsistencyError string
  | SchemaConflict (conflict_field: string) (conflict_existing: string) (conflict_incoming: string)
  | CollectionAlreadyExists string
  | AliasAlreadyExists string
  | AliasNotFound string
  | SnapshotError string

type_synonym 'a db_result = "db_error + 'a"

text \<open>\<^verbatim>\<open>'{}'\<close> in a format string: the argument between apostrophes.\<close>

definition quoted :: "string \<Rightarrow> string" where
  "quoted s = CHR 0x27 # s @ [CHR 0x27]"

text \<open>The \<^verbatim>\<open>Display\<close> implementation generated from the \<^verbatim>\<open>#[error(..)]\<close> attributes.\<close>

fun db_error_display :: "db_error \<Rightarrow> string" where
  "db_error_display (NotFound s) = ''not found: '' @ s"
| "db_error_display (StorageError s) = ''storage error: '' @ s"
| "db_error_display (IndexError s) = ''index error: '' @ s"
| "db_error_display (NetworkError s) = ''network error: '' @ s"
| "db_error_display (ConsensusError s) = ''consensus error: '' @ s"
| "db_error_display (SerializationError s) = ''serialization error: '' @ s"
| "db_error_display (InvalidInput s) = ''invalid input: '' @ s"
| "db_error_display (ConsistencyError s) = ''consistency error: '' @ s"
| "db_error_display (SchemaConflict f e i) =
     ''schema conflict on field '' @ quoted f @ '': existing type '' @ quoted e @
     '', incoming type '' @ quoted i"
| "db_error_display (CollectionAlreadyExists s) = ''collection already exists: '' @ s"
| "db_error_display (AliasAlreadyExists s) = ''alias already exists: '' @ s"
| "db_error_display (AliasNotFound s) = ''alias not found: '' @ s"
| "db_error_display (SnapshotError s) = ''snapshot error: '' @ s"

section \<open>Error responses\<close>

datatype status_code =
    OK | CREATED | TEMPORARY_REDIRECT | BAD_REQUEST | UNAUTHORIZED | FORBIDDEN | NOT_FOUND | CONFLICT
  | PAYLOAD_TOO_LARGE | TOO_MANY_REQUESTS | INTERNAL_SERVER_ERROR | BAD_GATEWAY | SERVICE_UNAVAILABLE

fun as_u16 :: "status_code \<Rightarrow> u16" where
  "as_u16 OK = 200"
| "as_u16 CREATED = 201"
| "as_u16 TEMPORARY_REDIRECT = 307"
| "as_u16 BAD_REQUEST = 400"
| "as_u16 UNAUTHORIZED = 401"
| "as_u16 FORBIDDEN = 403"
| "as_u16 NOT_FOUND = 404"
| "as_u16 CONFLICT = 409"
| "as_u16 PAYLOAD_TOO_LARGE = 413"
| "as_u16 TOO_MANY_REQUESTS = 429"
| "as_u16 INTERNAL_SERVER_ERROR = 500"
| "as_u16 BAD_GATEWAY = 502"
| "as_u16 SERVICE_UNAVAILABLE = 503"

record error_detail =
  error_type :: string
  reason :: string

record error_response =
  er_error :: error_detail
  er_status :: u16

definition er_new :: "u16 \<Rightarrow> string \<Rightarrow> string \<Rightarrow> error_response" where
  "er_new st ty re = \<lparr>er_error = \<lparr>error_type = ty, reason = re\<rparr>, er_status = st\<rparr>"

definition er_not_found :: "string \<Rightarrow> error_response" where
  "er_not_found = er_new 404 ''not_found''"

definition er_bad_request :: "string \<Rightarrow> error_response" where
  "er_bad_request = er_new 400 ''invalid_input''"

definition er_internal :: "string \<Rightarrow> error_response" where
  "er_internal = er_new 500 ''internal_error''"

definition er_service_unavailable :: "string \<Rightarrow> error_response" where
  "er_service_unavailable = er_new 503 ''service_unavailable''"

definition er_unauthorized :: "string \<Rightarrow> error_response" where
  "er_unauthorized = er_new 401 ''unauthorized''"

definition er_redirect :: "string \<Rightarrow> error_response" where
  "er_redirect = er_new 307 ''redirect''"

lemmas er_defs = er_new_def er_not_found_def er_bad_request_def er_internal_def
  er_service_unavailable_def er_unauthorized_def er_redirect_def

section \<open>From errors to responses\<close>

fun db_error_to_response :: "db_error \<Rightarrow> status_code \<times> error_response" where
  "db_error_to_response (NotFound msg) = (NOT_FOUND, er_not_found msg)"
| "db_error_to_response (InvalidInput msg) = (BAD_REQUEST, er_bad_request msg)"
| "db_error_to_response (SerializationError msg) = (BAD_REQUEST, er_bad_request msg)"
| "db_error_to_response (SchemaConflict f e i) =
     (CONFLICT, er_new 409 ''schema_conflict''
        (''field '' @ quoted f @ '' has type '' @ quoted e @ '', cannot change to '' @ quoted i))"
| "db_error_to_response (CollectionAlreadyExists name) =
     (CONFLICT, er_new 409 ''resource_already_exists''
        (''collection '' @ quoted name @ '' already exists''))"
| "db_error_to_response (AliasAlreadyExists name) =
     (CONFLICT, er_new 409 ''resource_already_exists'' (''alias '' @ quoted name @ '' already exists''))"
| "db_error_to_response (AliasNotFound name) =
     (NOT_FOUND, er_not_found (''alias '' @ quoted name @ '' not found''))"
| "db_error_to_response (ConsensusError msg) =
     (if str_contains msg ''not leader'' \<or> str_contains msg ''forward''
      then (TEMPORARY_REDIRECT, er_redirect msg)
      else (SERVICE_UNAVAILABLE, er_service_unavailable msg))"
| "db_error_to_response (ConsistencyError msg) = (SERVICE_UNAVAILABLE, er_service_unavailable msg)"
| "db_error_to_response (NetworkError msg) = (BAD_GATEWAY, er_new 502 ''network_error'' msg)"
| "db_error_to_response (StorageError msg) = (INTERNAL_SERVER_ERROR, er_internal msg)"
| "db_error_to_response (IndexError msg) = (INTERNAL_SERVER_ERROR, er_internal msg)"
| "db_error_to_response e = (INTERNAL_SERVER_ERROR, er_internal (db_error_display e))"

section \<open>Properties\<close>

lemma response_status: "er_status (snd (db_error_to_response e)) = as_u16 (fst (db_error_to_response e))"
  by (cases e) (simp_all add: er_defs)

text \<open>The status tells the kinds of error apart.\<close>

lemma response_redirect_iff:
  "fst (db_error_to_response e) = TEMPORARY_REDIRECT \<longleftrightarrow>
     (\<exists>msg. e = ConsensusError msg \<and> (str_contains msg ''not leader'' \<or> str_contains msg ''forward''))"
  by (cases e) simp_all

lemma response_not_found_iff:
  "fst (db_error_to_response e) = NOT_FOUND \<longleftrightarrow> (\<exists>m. e = NotFound m \<or> e = AliasNotFound m)"
  by (cases e) simp_all

lemma response_conflict_iff:
  "fst (db_error_to_response e) = CONFLICT \<longleftrightarrow>
     (\<exists>f a b. e = SchemaConflict f a b) \<or> (\<exists>n. e = CollectionAlreadyExists n \<or> e = AliasAlreadyExists n)"
  by (cases e) simp_all

text \<open>
  Every error response carries the status code of its HTTP status line in the body, never a
  success code; and a client is redirected (307) exactly for consensus errors that name a missing
  leadership or a forward.
\<close>

theorem error_response_consistent:
  "er_status (snd (db_error_to_response e)) = as_u16 (fst (db_error_to_response e)) \<and>
   fst (db_error_to_response e) \<notin> {OK, CREATED} \<and>
   (fst (db_error_to_response e) = TEMPORARY_REDIRECT \<longleftrightarrow>
     (\<exists>msg. e = ConsensusError msg \<and> (str_contains msg ''not leader'' \<or> str_contains msg ''forward'')))"
proof (intro conjI)
  show "fst (db_error_to_response e) \<notin> {OK, CREATED}" by (cases e) simp_all
qed (rule response_status response_redirect_iff)+

end
