(* ===== verification/Cluster.thy ===== *)
theory Cluster
  imports Prelude
begin

text \<open>
  The cluster data types of \<^verbatim>\<open>crates/core/src/cluster.rs\<close>: node identifiers, their
  addresses and roles, and the list of members.
\<close>

datatype node_id = NodeId (as_u64: u64)

definition node_id_display :: "node_id \<Rightarrow> string" where
  "node_id_display n = ''node-'' @ dec (unat (as_u64 n))"

record node_address =
  host :: string
  port :: u16

definition node_address_display :: "node_address \<Rightarrow> string" where
  "node_address_display a = host a @ '':'' @ dec (unat (port a))"

datatype node_status = Leader | Follower | Candidate | Offline

fun node_status_display :: "node_status \<Rightarrow> string" where
  "node_status_display Leader = ''Leader''"
| "node_status_display Follower = ''Follower''"
| "node_status_display Candidate = ''Candidate''"
| "node_status_display Offline = ''Offline''"

record node_info =
  ni_id :: node_id
  ni_address :: node_address
  ni_status :: node_status

record cluster_state =
  cs_nodes :: "node_info list"
  cs_leader :: "node_id option"

definition cs_empty :: cluster_state where
  "cs_empty = \<lparr>cs_nodes = [], cs_leader = None\<rparr>"

definition cs_node_count :: "cluster_state \<Rightarrow> nat" where
  "cs_node_count c = length (cs_nodes c)"

definition cs_get_node :: "cluster_state \<Rightarrow> node_id \<Rightarrow> node_info option" where
  "cs_get_node c i = find (\<lambda>n. ni_id n = i) (cs_nodes c)"

text \<open>Node identifiers are ordered by their number, as the sorts of the code do it.\<close>

instantiation node_id :: linorder
begin

definition less_eq_node_id :: "node_id \<Rightarrow> node_id \<Rightarrow> bool" where
  "less_eq_node_id a b \<longleftrightarrow> as_u64 a \<le> as_u64 b"

definition less_node_id :: "node_id \<Rightarrow> node_id \<Rightarrow> bool" where
  "less_node_id a b \<longleftrightarrow> as_u64 a < as_u64 b"

instance
  by standard (auto simp: less_eq_node_id_def less_node_id_def intro: node_id.expand)

end

lemma node_id_display_inject [simp]: "node_id_display a = node_id_display b \<longleftrightarrow> a = b"
  by (auto simp: node_id_display_def word_unat_eq_iff intro: node_id.expand)

lemma cs_get_node_Some:
  "cs_get_node c i = Some n \<Longrightarrow> n \<in> set (cs_nodes c) \<and> ni_id n = i"
  by (auto simp: cs_get_node_def find_Some_iff)

end
