(* ===== verification/Vector_Clock.thy ===== *)
theory Vector_Clock
  imports Cluster
begin

text \<open>
  Vector clocks, \<^verbatim>\<open>crates/core/src/vector_clock.rs\<close>. A clock maps node numbers to
  counters; an absent node counts as 0 (\<open>vc_at\<close>). The lemmas show that \<open>dominates\<close> is the strict
  pointwise order of the counters, a strict partial order, that \<open>merge\<close> is the least upper bound,
  and that the scalar \<open>total\<close> grows along the order as long as it does not overflow 64 bits.
\<close>

record vector_clock =
  clocks :: "(u64, u64) fmap"

definition vc_new :: vector_clock where
  "vc_new = \<lparr>clocks = fmempty\<rparr>"

definition increment :: "vector_clock \<Rightarrow> node_id \<Rightarrow> vector_clock \<times> u64" where
  "increment c n =
     (let v = fm_get_or (clocks c) (as_u64 n) 0 + 1
      in (c\<lparr>clocks := fmupd (as_u64 n) v (clocks c)\<rparr>, v))"

definition vc_get :: "vector_clock \<Rightarrow> node_id \<Rightarrow> u64" where
  "vc_get c n = fm_get_or (clocks c) (as_u64 n) 0"

text \<open>The body of the loop of \<^verbatim>\<open>merge\<close> and \<^verbatim>\<open>merge_in_place\<close>: \<^verbatim>\<open>entry(node).or_insert(0)\<close>, raised to \<^verbatim>\<open>count\<close> if that is larger.\<close>

definition merge_entry :: "u64 \<Rightarrow> u64 option \<Rightarrow> u64" where
  "merge_entry cnt old = (let e = (case old of None \<Rightarrow> 0 | Some e \<Rightarrow> e) in if cnt > e then cnt else e)"

definition merge :: "vector_clock \<Rightarrow> vector_clock \<Rightarrow> vector_clock" where
  "merge c d = \<lparr>clocks = fold (\<lambda>(node, cnt) m. fmupd node (merge_entry cnt (fmlookup m node)) m)
     (btree_iter (clocks d)) (clocks c)\<rparr>"

definition merge_in_place :: "vector_clock \<Rightarrow> vector_clock \<Rightarrow> vector_clock" where
  "merge_in_place c d = c\<lparr>clocks := fold (\<lambda>(node, cnt) m. fmupd node (merge_entry cnt (fmlookup m node)) m)
     (btree_iter (clocks d)) (clocks c)\<rparr>"

text \<open>
  The first loop of \<^verbatim>\<open>dominates\<close>: \<^const>\<open>None\<close> when it breaks because a counter of \<open>self\<close> is
  smaller, else the value of the flag \<^verbatim>\<open>dominated\<close> after it.
\<close>

fun dominates_loop :: "(u64, u64) fmap \<Rightarrow> (u64 \<times> u64) list \<Rightarrow> bool \<Rightarrow> bool option" where
  "dominates_loop self [] dominated = Some dominated"
| "dominates_loop self ((node, cnt) # es) dominated =
     (let self_count = fm_get_or self node 0 in
      if self_count < cnt then None
      else dominates_loop self es (if self_count > cnt then True else dominated))"

definition dominates :: "vector_clock \<Rightarrow> vector_clock \<Rightarrow> bool" where
  "dominates c d =
     (case dominates_loop (clocks c) (btree_iter (clocks d)) False of
        None \<Rightarrow> False
      | Some dominated \<Rightarrow>
          fold (\<lambda>(node, cnt) dom. if cnt > 0 \<and> fmlookup (clocks d) node = None then True else dom)
            (btree_iter (clocks c)) dominated)"

definition is_concurrent_with :: "vector_clock \<Rightarrow> vector_clock \<Rightarrow> bool" where
  "is_concurrent_with c d \<longleftrightarrow> \<not> dominates c d \<and> \<not> dominates d c \<and> c \<noteq> d"

definition vc_is_empty :: "vector_clock \<Rightarrow> bool" where
  "vc_is_empty c \<longleftrightarrow> list_all (\<lambda>(node, v). v = 0) (btree_iter (clocks c))"

definition vc_len :: "vector_clock \<Rightarrow> nat" where
  "vc_len c = fm_len (clocks c)"

definition total :: "vector_clock \<Rightarrow> u64" where
  "total c = foldl (+) 0 (map snd (btree_iter (clocks c)))"

fun vc_display_entries :: "nat \<Rightarrow> (u64 \<times> u64) list \<Rightarrow> string" where
  "vc_display_entries i [] = []"
| "vc_display_entries i ((node, cnt) # es) =
     (if i > 0 then '', '' else []) @ ''node-'' @ dec (unat node) @ '':'' @ dec (unat cnt) @
     vc_display_entries (Suc i) es"

definition vc_display :: "vector_clock \<Rightarrow> string" where
  "vc_display c = ''VC{'' @ vc_display_entries 0 (btree_iter (clocks c)) @ ''}''"

section \<open>The counters of a clock\<close>

definition vc_at :: "vector_clock \<Rightarrow> u64 \<Rightarrow> u64" where
  "vc_at c k = fm_get_or (clocks c) k 0"

text \<open>Clocks that are built by the operations never hold an explicit zero.\<close>

definition vc_nonzero :: "vector_clock \<Rightarrow> bool" where
  "vc_nonzero c \<longleftrightarrow> fmpred (\<lambda>_ v. v \<noteq> 0) (clocks c)"

text \<open>The exact sum of the counters, which \<open>total\<close> is as long as it fits 64 bits.\<close>

definition vc_sum :: "vector_clock \<Rightarrow> nat" where
  "vc_sum c = (\<Sum>k\<in>UNIV. unat (vc_at c k))"

lemma vc_get_at: "vc_get c n = vc_at c (as_u64 n)"
  by (simp add: vc_get_def vc_at_def)

lemma vc_at_new [simp]: "vc_at vc_new k = 0"
  by (simp add: vc_at_def vc_new_def)

lemma vc_at_increment:
  "vc_at (fst (increment c n)) k = (if k = as_u64 n then vc_at c k + 1 else vc_at c k)"
  by (auto simp: vc_at_def increment_def Let_def)

lemma vc_at_lookup: "fmlookup (clocks c) k = Some v \<Longrightarrow> vc_at c k = v"
  by (simp add: vc_at_def fm_get_or_def)

lemma vc_at_lookup_None: "fmlookup (clocks c) k = None \<Longrightarrow> vc_at c k = 0"
  by (simp add: vc_at_def fm_get_or_def)

lemma clocks_merge_lookup:
  "fmlookup (clocks (merge c d)) k =
     (case fmlookup (clocks d) k of None \<Rightarrow> fmlookup (clocks c) k
      | Some v \<Rightarrow> Some (merge_entry v (fmlookup (clocks c) k)))"
  by (simp add: merge_def fold_fmupd_lookup)

lemma merge_in_place_eq [simp]: "merge_in_place c d = merge c d"
  by (simp add: merge_in_place_def merge_def)

lemma vc_at_merge: "vc_at (merge c d) k = max (vc_at c k) (vc_at d k)"
  by (auto simp: vc_at_def fm_get_or_def clocks_merge_lookup merge_entry_def Let_def max_def word_gt_0
      split: option.splits)

lemma vc_nonzero_eqI:
  assumes "vc_nonzero c" "vc_nonzero d" "\<And>k. vc_at c k = vc_at d k"
  shows "c = d"
proof -
  have "fmlookup (clocks c) k = fmlookup (clocks d) k" for k
    using assms(1,2) assms(3) [of k]
    by (cases "fmlookup (clocks c) k"; cases "fmlookup (clocks d) k")
      (auto simp: vc_nonzero_def fmpred_iff vc_at_def fm_get_or_def)
  then have "clocks c = clocks d" by (rule fmap_ext)
  then show ?thesis by simp
qed

lemma vc_nonzero_new [simp]: "vc_nonzero vc_new"
  by (simp add: vc_nonzero_def vc_new_def)

lemma vc_nonzero_merge:
  assumes "vc_nonzero c" "vc_nonzero d"
  shows "vc_nonzero (merge c d)"
  using assms
  by (auto simp: vc_nonzero_def fmpred_iff clocks_merge_lookup merge_entry_def Let_def word_gt_0
      split: option.splits if_splits)

lemma vc_nonzero_increment:
  assumes "vc_nonzero c" "vc_get c n \<noteq> - 1"
  shows "vc_nonzero (fst (increment c n))"
  using assms by (auto simp: vc_nonzero_def fmpred_iff increment_def vc_get_def Let_def eq_neg_iff_add_eq_0
      split: if_splits)

section \<open>Domination\<close>

lemma dominates_loop_eq:
  "dominates_loop self es b =
     (if \<exists>(k, v)\<in>set es. fm_get_or self k 0 < v then None
      else Some (b \<or> (\<exists>(k, v)\<in>set es. v < fm_get_or self k 0)))"
  by (induction self es b rule: dominates_loop.induct) (auto simp: Let_def)

lemma fold_flag: "fold (\<lambda>(k, v) b. if P k v then True else b) es b \<longleftrightarrow> b \<or> (\<exists>(k, v)\<in>set es. P k v)"
  by (induction es arbitrary: b) auto

lemma dominates_iff:
  "dominates c d \<longleftrightarrow> (\<forall>k. vc_at d k \<le> vc_at c k) \<and> (\<exists>k. vc_at d k < vc_at c k)"
proof -
  have ge: "(\<exists>(k, v)\<in>set (btree_iter (clocks d)). fm_get_or (clocks c) k 0 < v) \<longleftrightarrow>
      \<not> (\<forall>k. vc_at d k \<le> vc_at c k)"
    by (auto simp: set_btree_iter vc_at_def fm_get_or_def not_le split: option.splits)
      (metis option.distinct(1) option.inject word_not_simps(1))+
  have gt: "(\<exists>(k, v)\<in>set (btree_iter (clocks d)). v < fm_get_or (clocks c) k 0) \<or>
      (\<exists>(k, v)\<in>set (btree_iter (clocks c)). v > 0 \<and> fmlookup (clocks d) k = None) \<longleftrightarrow>
      (\<exists>k. vc_at d k < vc_at c k)" (is "?l \<longleftrightarrow> ?r")
  proof
    assume ?l
    then show ?r by (auto simp: set_btree_iter vc_at_def fm_get_or_def)
      (metis option.simps(4) option.simps(5))+
  next
    assume ?r
    then obtain k where k: "vc_at d k < vc_at c k" ..
    show ?l
    proof (cases "fmlookup (clocks d) k")
      case None
      with k obtain v where "fmlookup (clocks c) k = Some v" "v > 0"
        by (auto simp: vc_at_def fm_get_or_def split: option.splits)
      with None show ?thesis by (auto simp: set_btree_iter)
    next
      case (Some v)
      with k have "v < fm_get_or (clocks c) k 0" by (simp add: vc_at_def fm_get_or_def)
      with Some show ?thesis by (auto simp: set_btree_iter)
    qed
  qed
  show ?thesis
    unfolding dominates_def dominates_loop_eq ge fold_flag using gt by simp
qed

lemma dominates_irrefl [simp]: "\<not> dominates c c"
  by (simp add: dominates_iff)

lemma dominates_trans: "dominates a b \<Longrightarrow> dominates b c \<Longrightarrow> dominates a c"
  unfolding dominates_iff by (meson order_trans order_less_le_trans)

lemma dominates_asym: "dominates a b \<Longrightarrow> \<not> dominates b a"
  by (meson dominates_irrefl dominates_trans)

section \<open>The total\<close>

lemma foldl_add_word: "foldl (+) (a :: 'a::len word) xs = a + word_of_nat (sum_list (map unat xs))"
  by (induction xs arbitrary: a) (simp_all add: add.assoc)

lemma sum_list_btree: "sum_list (map (unat \<circ> snd) (btree_iter (clocks c))) = vc_sum c"
proof -
  let ?K = "fmdom' (clocks c)"
  have "map (unat \<circ> snd) (btree_iter (clocks c)) = map (\<lambda>k. unat (vc_at c k)) (sorted_list_of_fset (fmdom (clocks c)))"
    by (auto simp: btree_iter_def vc_at_def fm_get_or_def sorted_list_of_fset.rep_eq fmlookup_dom_iff)
  then have "sum_list (map (unat \<circ> snd) (btree_iter (clocks c))) = (\<Sum>k\<in>?K. unat (vc_at c k))"
    by (simp add: sum_list_distinct_conv_sum_set sorted_list_of_fset.rep_eq fmdom'_alt_def)
  also have "\<dots> = vc_sum c"
    unfolding vc_sum_def
    by (rule sum.mono_neutral_left) (auto simp: fmlookup_dom'_iff vc_at_def fm_get_or_def split: option.splits)
  finally show ?thesis .
qed

lemma total_eq: "total c = word_of_nat (vc_sum c)"
  by (simp add: total_def foldl_add_word sum_list_btree)

lemma unat_total: "vc_sum c < 2 ^ 64 \<Longrightarrow> unat (total c) = vc_sum c"
  by (simp add: total_eq unat_of_nat_small)

lemma vc_sum_strict_mono:
  assumes "dominates c d"
  shows "vc_sum d < vc_sum c"
  using assms unfolding dominates_iff vc_sum_def
  by (intro sum_strict_mono_ex1) (auto simp: word_le_nat_alt word_less_nat_alt)

section \<open>Properties\<close>

lemma vc_pointwise:
  "(\<forall>n. vc_get c n \<le> vc_get d n) \<longleftrightarrow> (\<forall>k. vc_at c k \<le> vc_at d k)"
  "(\<exists>n. vc_get c n < vc_get d n) \<longleftrightarrow> (\<exists>k. vc_at c k < vc_at d k)"
  by (metis node_id.sel vc_get_at)+

lemma increment_at: "vc_get c n \<noteq> - 1 \<Longrightarrow> vc_at c (as_u64 n) < vc_at (fst (increment c n)) (as_u64 n)"
  using unatSuc [of "vc_at c (as_u64 n)"]
  by (auto simp: vc_at_increment vc_get_at word_less_nat_alt add.commute eq_neg_iff_add_eq_0)

lemma increment_ge: "vc_get c n \<noteq> - 1 \<Longrightarrow> vc_at c k \<le> vc_at (fst (increment c n)) k"
  using increment_at [of c n] by (cases "k = as_u64 n") (auto simp: vc_at_increment)

lemma increment_above_dominates:
  assumes "vc_get c n \<noteq> - 1" "\<And>k. vc_at d k \<le> vc_at c k"
  shows "dominates (fst (increment c n)) d"
  unfolding dominates_iff
  using increment_at [OF assms(1)] increment_ge [OF assms(1)] assms(2)
  by (meson order_trans order_le_less_trans)

lemma merge_upper: "vc_at c k \<le> vc_at (merge c d) k" "vc_at d k \<le> vc_at (merge c d) k"
  by (simp_all add: vc_at_merge)

text \<open>
  \<open>dominates\<close> is the causal order: one clock dominates another exactly when none of its
  counters is smaller and one is larger; so it is irreflexive and transitive.
\<close>

theorem dominates_causal_order:
  "(dominates c d \<longleftrightarrow> (\<forall>n. vc_get d n \<le> vc_get c n) \<and> (\<exists>n. vc_get d n < vc_get c n)) \<and>
   irreflp dominates \<and> transp dominates"
  by (auto simp: vc_pointwise irreflp_def intro: transpI dominates_trans)
    (auto simp: dominates_iff)

text \<open>
  \<open>merge\<close> is the least upper bound of two clocks: every counter is the larger of the two, and
  a clock covers the merge exactly when it covers both.
\<close>

theorem merge_least_upper_bound:
  "vc_get (merge c d) n = max (vc_get c n) (vc_get d n) \<and>
   ((\<forall>k. vc_get (merge c d) k \<le> vc_get u k) \<longleftrightarrow>
     (\<forall>k. vc_get c k \<le> vc_get u k) \<and> (\<forall>k. vc_get d k \<le> vc_get u k))"
  by (auto simp: vc_pointwise vc_get_at vc_at_merge)

text \<open>
  A node that merges a received clock and then counts its own event is causally after both
  histories, as long as its counter has not reached the top of its 64 bits.
\<close>

theorem receive_event_dominates:
  assumes "vc_get (merge c d) n \<noteq> - 1"
  shows "dominates (fst (increment (merge c d) n)) c \<and> dominates (fst (increment (merge c d) n)) d \<and>
    snd (increment (merge c d) n) = vc_get (merge c d) n + 1"
  using increment_above_dominates [OF assms] merge_upper
  by (auto simp: increment_def vc_get_def Let_def)

theorem receive_event_dominates_witness:
  "dominates (fst (increment (merge (fst (increment vc_new (NodeId 1))) (fst (increment vc_new (NodeId 2)))) (NodeId 1)))
     (fst (increment vc_new (NodeId 2)))"
  using receive_event_dominates
    [of "fst (increment vc_new (NodeId 1))" "fst (increment vc_new (NodeId 2))" "NodeId 1"]
  by (simp add: vc_get_at vc_at_merge vc_at_increment)

text \<open>
  Two clocks without explicit zeroes, as the operations build them, are concurrent exactly when
  each has seen an event the other has not.
\<close>

theorem concurrent_iff_incomparable:
  assumes "vc_nonzero c" and "vc_nonzero d"
  shows "is_concurrent_with c d \<longleftrightarrow>
    (\<exists>n. vc_get c n < vc_get d n) \<and> (\<exists>n. vc_get d n < vc_get c n)"
proof -
  have "c = d \<longleftrightarrow> (\<forall>k. vc_at c k \<le> vc_at d k) \<and> (\<forall>k. vc_at d k \<le> vc_at c k)"
    using vc_nonzero_eqI [OF assms] by (auto intro: order_antisym)
  then show ?thesis
    unfolding vc_pointwise is_concurrent_with_def dominates_iff by (metis not_le)
qed

theorem concurrent_iff_incomparable_witness:
  "is_concurrent_with (fst (increment vc_new (NodeId 1))) (fst (increment vc_new (NodeId 2)))"
proof -
  let ?c = "fst (increment vc_new (NodeId 1))" and ?d = "fst (increment vc_new (NodeId 2))"
  have "vc_nonzero ?c" "vc_nonzero ?d"
    by (simp_all add: vc_nonzero_increment vc_get_at)
  moreover have "vc_get ?c (NodeId 2) < vc_get ?d (NodeId 2)" "vc_get ?d (NodeId 1) < vc_get ?c (NodeId 1)"
    by (simp_all add: vc_get_at vc_at_increment)
  ultimately show ?thesis using concurrent_iff_incomparable [of ?c ?d] by blast
qed

end
