(* ===== verification/Consistency.thy ===== *)
theory Consistency
  imports Prelude Errors
begin

text \<open>
  Read consistency levels (\<^verbatim>\<open>crates/core/src/consistency.rs\<close>) and the write
  quorum of the consensus layer (\<^verbatim>\<open>crates/consensus/src/quorum.rs\<close>). The locale
  \<open>quorum_pair\<close> states what makes a read level and a write quorum work together; it is interpreted
  on the sizes the code computes.
\<close>

section \<open>Consistency levels\<close>

datatype consistency_level = One | Quorum | All

definition from_str_param :: "string \<Rightarrow> consistency_level" where
  "from_str_param s =
     (let l = to_lowercase s in
      if l = ''one'' then One else if l = ''quorum'' then Quorum else if l = ''all'' then All else Quorum)"

fun required_responses :: "consistency_level \<Rightarrow> u8 \<Rightarrow> nat" where
  "required_responses One rf = 1"
| "required_responses Quorum rf = unat rf div 2 + 1"
| "required_responses All rf = unat rf"

fun consistency_level_display :: "consistency_level \<Rightarrow> string" where
  "consistency_level_display One = ''ONE''"
| "consistency_level_display Quorum = ''QUORUM''"
| "consistency_level_display All = ''ALL''"

section \<open>Quorum tracking\<close>

definition quorum_size :: "u8 \<Rightarrow> u8" where
  "quorum_size rf = rf div 2 + 1"

definition is_committed :: "u8 \<Rightarrow> u8 \<Rightarrow> bool" where
  "is_committed rf acks = (if rf = 0 then False else acks \<ge> quorum_size rf)"

record node_liveness =
  nl_node_id :: u64
  nl_online :: bool

record cluster_health_checker =
  chc_replication_factor :: u8
  chc_nodes :: "node_liveness list"

definition chc_new :: "u8 \<Rightarrow> cluster_health_checker" where
  "chc_new rf = \<lparr>chc_replication_factor = rf, chc_nodes = []\<rparr>"

text \<open>\<^verbatim>\<open>iter_mut().find(..)\<close> and assignment: the first entry of the node is changed.\<close>

fun set_first :: "u64 \<Rightarrow> bool \<Rightarrow> node_liveness list \<Rightarrow> node_liveness list option" where
  "set_first i b [] = None"
| "set_first i b (n # ns) =
     (if nl_node_id n = i then Some (n\<lparr>nl_online := b\<rparr> # ns)
      else map_option ((#) n) (set_first i b ns))"

definition set_online :: "cluster_health_checker \<Rightarrow> u64 \<Rightarrow> bool \<Rightarrow> cluster_health_checker" where
  "set_online c i b =
     (case set_first i b (chc_nodes c) of
        Some ns \<Rightarrow> c\<lparr>chc_nodes := ns\<rparr>
      | None \<Rightarrow> c\<lparr>chc_nodes := chc_nodes c @ [\<lparr>nl_node_id = i, nl_online = b\<rparr>]\<rparr>)"

text \<open>The number of online nodes is cut to eight bits (\<^verbatim>\<open>as u8\<close>).\<close>

definition count_online_nodes :: "cluster_health_checker \<Rightarrow> u8" where
  "count_online_nodes c = word_of_nat (length (filter nl_online (chc_nodes c)))"

definition can_write :: "cluster_health_checker \<Rightarrow> bool" where
  "can_write c = is_committed (chc_replication_factor c) (count_online_nodes c)"

definition can_read :: "cluster_health_checker \<Rightarrow> bool" where
  "can_read c \<longleftrightarrow> count_online_nodes c \<ge> 1"

section \<open>Quorum intersection\<close>

text \<open>
  A number of readers and a number of writers that any two groups of replicas of those sizes share
  a replica.
\<close>

locale quorum_pair =
  fixes replicas readers writers :: nat
  assumes overlap: "replicas < readers + writers"
begin

lemma quorums_meet:
  assumes "finite G" "card G = replicas" "R \<subseteq> G" "W \<subseteq> G" "readers \<le> card R" "writers \<le> card W"
  shows "R \<inter> W \<noteq> {}"
proof
  assume "R \<inter> W = {}"
  moreover have "finite R" "finite W" using assms finite_subset by auto
  ultimately have "card (R \<union> W) = card R + card W" by (simp add: card_Un_disjoint)
  moreover have "card (R \<union> W) \<le> card G" using assms by (intro card_mono) auto
  ultimately show False using assms overlap by simp
qed

end

section \<open>Lemmas\<close>

lemma unat_div2_u8: "unat ((rf :: u8) div 2) = unat rf div 2"
  by (simp add: unat_div)

lemma unat_quorum_size: "unat (quorum_size rf) = unat rf div 2 + 1"
proof -
  have "unat rf < 256" using unat_less [of rf] by simp
  then show ?thesis
    by (subst quorum_size_def, subst unat_add_small) (simp_all add: unat_div2_u8)
qed

lemma required_quorum: "required_responses Quorum rf = unat (quorum_size rf)"
  by (simp add: unat_quorum_size)

lemma is_committed_iff: "is_committed rf acks \<longleftrightarrow> rf \<noteq> 0 \<and> unat rf < 2 * unat acks"
  by (auto simp: is_committed_def word_le_nat_alt unat_quorum_size)

interpretation majority: quorum_pair "unat rf" "required_responses Quorum rf" "unat (quorum_size rf)"
  for rf :: u8
  by unfold_locales (auto simp: unat_quorum_size)

interpretation read_all: quorum_pair "unat rf" "required_responses All rf" "1"
  for rf :: u8
  by unfold_locales auto

lemma set_first_ids: "set_first i b ns = Some ns' \<Longrightarrow> map nl_node_id ns' = map nl_node_id ns"
  by (induction ns arbitrary: ns') (auto split: if_splits)

lemma set_first_None: "set_first i b ns = None \<longleftrightarrow> i \<notin> set (map nl_node_id ns)"
  by (induction ns) auto

lemma set_first_map_of:
  "set_first i b ns = Some ns' \<Longrightarrow>
     map_of (map (\<lambda>n. (nl_node_id n, nl_online n)) ns') =
     (map_of (map (\<lambda>n. (nl_node_id n, nl_online n)) ns))(i \<mapsto> b)"
  by (induction ns arbitrary: ns') (auto split: if_splits)

text \<open>The recorded status of a node, and that every node is recorded once.\<close>

definition chc_status :: "cluster_health_checker \<Rightarrow> u64 \<Rightarrow> bool option" where
  "chc_status c = map_of (map (\<lambda>n. (nl_node_id n, nl_online n)) (chc_nodes c))"

definition chc_inv :: "cluster_health_checker \<Rightarrow> bool" where
  "chc_inv c \<longleftrightarrow> distinct (map nl_node_id (chc_nodes c))"

lemma chc_inv_new [simp]: "chc_inv (chc_new rf)"
  by (simp add: chc_inv_def chc_new_def)

lemma chc_status_new: "chc_status (chc_new rf) i = None"
  by (simp add: chc_status_def chc_new_def)

lemma chc_inv_set_online: "chc_inv c \<Longrightarrow> chc_inv (set_online c i b)"
  by (auto simp: chc_inv_def set_online_def set_first_None dest: set_first_ids split: option.splits)

lemma chc_status_set_online: "chc_status (set_online c i b) = (chc_status c)(i \<mapsto> b)"
proof (cases "set_first i b (chc_nodes c)")
  case None
  then have "map_of (map (\<lambda>n. (nl_node_id n, nl_online n)) (chc_nodes c)) i = None"
    by (auto simp: set_first_None map_of_eq_None_iff)
  with None show ?thesis by (auto simp: chc_status_def set_online_def fun_eq_iff map_add_def split: option.splits)
next
  case (Some ns)
  then show ?thesis by (simp add: chc_status_def set_online_def set_first_map_of)
qed

lemma online_count:
  assumes "chc_inv c"
  shows "length (filter nl_online (chc_nodes c)) = card {i. chc_status c i = Some True}"
proof -
  let ?xs = "map nl_node_id (filter nl_online (chc_nodes c))"
  let ?ps = "map (\<lambda>n. (nl_node_id n, nl_online n)) (chc_nodes c)"
  have d: "distinct (map fst ?ps)" using assms by (simp add: chc_inv_def o_def)
  have "{i. chc_status c i = Some True} = set ?xs"
    using map_of_eq_Some_iff [OF d] by (auto simp: chc_status_def image_iff)
  moreover have "distinct ?xs" using assms by (simp add: chc_inv_def distinct_map_filter)
  ultimately show ?thesis by (metis distinct_card length_map)
qed

lemma committed_card:
  assumes "finite G" "card G = unat rf" "W \<subseteq> G" "is_committed rf (word_of_nat (card W))"
  shows "unat (quorum_size rf) \<le> card W"
proof -
  have "card W \<le> unat rf" using assms by (metis card_mono)
  then have "card W < 256" using unat_less [of rf] by simp
  then show ?thesis
    using assms(4) by (auto simp: is_committed_iff unat_quorum_size unat_of_nat_small)
qed

lemma read_write_quorums_meet:
  assumes "finite G" "card G = unat rf" "R \<subseteq> G" "W \<subseteq> G" "level \<noteq> One"
    "required_responses level rf \<le> card R" "is_committed rf (word_of_nat (card W))"
  shows "R \<inter> W \<noteq> {}"
proof (cases level)
  case Quorum
  then show ?thesis
    using majority.quorums_meet [OF assms(1-4)] committed_card [OF assms(1,2,4,7)] assms(6) by simp
next
  case All
  then show ?thesis
    using read_all.quorums_meet [OF assms(1-4)] committed_card [OF assms(1,2,4,7)] assms(6)
    by (simp add: unat_quorum_size)
qed (use assms in simp)

section \<open>Properties\<close>

text \<open>
  A quorum read sees every quorum write: any set of replicas that satisfies the read level
  \<^const>\<open>Quorum\<close> (or \<^const>\<open>All\<close>) shares a replica with any set whose acknowledgements
  the consensus layer counts as committed.
\<close>

theorem read_write_quorums_intersect:
  assumes "finite G" and "card G = unat rf" and "R \<subseteq> G" and "W \<subseteq> G"
    and "level \<noteq> One" and "required_responses level rf \<le> card R"
    and "is_committed rf (word_of_nat (card W))"
  shows "R \<inter> W \<noteq> {}"
  using assms by (rule read_write_quorums_meet)

theorem read_write_quorums_intersect_witness:
  "{0, 1 :: nat} \<inter> {1, 2} \<noteq> {} \<and> required_responses Quorum 3 \<le> card {0, 1 :: nat} \<and>
   is_committed 3 (word_of_nat (card {1, 2 :: nat}))"
proof -
  have c: "required_responses Quorum 3 \<le> card {0, 1 :: nat}" "is_committed 3 (word_of_nat (card {1, 2 :: nat}))"
    by (simp_all add: is_committed_iff)
  show ?thesis
    using read_write_quorums_intersect [of "{0, 1, 2}" 3 "{0, 1}" "{1, 2}" Quorum] c by simp
qed

text \<open>
  With fewer than 256 nodes recorded, the health checker admits writes exactly when a strict
  majority of the replication factor is online, and reads exactly when some node is.
\<close>

theorem health_checker_exact:
  assumes "chc_inv c" and "length (chc_nodes c) < 256"
  shows "(can_write c \<longleftrightarrow> chc_replication_factor c \<noteq> 0 \<and>
      unat (chc_replication_factor c) < 2 * card {i. chc_status c i = Some True}) \<and>
    (can_read c \<longleftrightarrow> {i. chc_status c i = Some True} \<noteq> {})"
proof -
  let ?n = "length (filter nl_online (chc_nodes c))"
  have "?n < 2 ^ 8" using assms(2) le_less_trans [OF length_filter_le [of nl_online "chc_nodes c"]] by simp
  then have u: "unat (count_online_nodes c) = ?n" by (simp add: count_online_nodes_def unat_of_nat_small)
  then have w: "can_write c \<longleftrightarrow> chc_replication_factor c \<noteq> 0 \<and>
      unat (chc_replication_factor c) < 2 * card {i. chc_status c i = Some True}"
    by (simp add: can_write_def is_committed_iff online_count [OF assms(1)])
  have "finite {i. chc_status c i = Some True}" by simp
  then have "can_read c \<longleftrightarrow> {i. chc_status c i = Some True} \<noteq> {}"
    using u by (auto simp: can_read_def word_le_nat_alt online_count [OF assms(1)] Suc_le_eq card_gt_0_iff)
  with w show ?thesis by blast
qed

theorem health_checker_exact_witness:
  "can_write (set_online (set_online (chc_new 3) 1 True) 2 True) \<and>
   \<not> can_write (set_online (set_online (chc_new 3) 1 True) 2 False)"
proof -
  let ?c = "set_online (chc_new 3) 1 True"
  have i: "chc_inv (set_online ?c 2 b)" for b by (simp add: chc_inv_set_online)
  have l: "length (chc_nodes (set_online ?c 2 b)) < 256" for b
    by (simp add: set_online_def chc_new_def)
  have s: "{i. chc_status (set_online ?c 2 True) i = Some True} = {1, 2}"
    "{i. chc_status (set_online ?c 2 False) i = Some True} = {1}"
    by (auto simp: chc_status_set_online chc_status_new split: if_splits)
  have rf: "chc_replication_factor (set_online ?c 2 b) = 3" for b
    by (simp add: set_online_def chc_new_def)
  show ?thesis
    using health_checker_exact [OF i [of True] l] health_checker_exact [OF i [of False] l]
    by (simp add: s rf)
qed

text \<open>
  The count of online nodes is taken modulo 256: with exactly 256 nodes online the checker
  refuses both reads and writes.
\<close>

theorem online_count_wraps:
  assumes "chc_inv c" and "card {i. chc_status c i = Some True} = 256"
  shows "\<not> can_read c \<and> \<not> can_write c"
proof -
  have "count_online_nodes c = 0"
    using assms(2) by (simp add: count_online_nodes_def online_count [OF assms(1)] word_unat_eq_iff unsigned_of_nat)
  then show ?thesis by (simp add: can_read_def can_write_def is_committed_iff)
qed

theorem online_count_wraps_witness:
  "\<not> can_read (fold (\<lambda>i c. set_online c (word_of_nat i) True) [0..<256] (chc_new 3))"
proof -
  let ?f = "\<lambda>n. fold (\<lambda>i c. set_online c (word_of_nat i) True) [0..<n] (chc_new 3)"
  have "chc_inv (?f n) \<and> {i. chc_status (?f n) i = Some True} = word_of_nat ` {0..<n}" for n
    by (induction n) (auto simp: chc_inv_set_online chc_status_set_online chc_status_new
        atLeast0_lessThan_Suc split: if_splits)
  moreover have "inj_on (word_of_nat :: nat \<Rightarrow> u64) {0..<256}"
    by (rule inj_onI) (simp add: word_unat_eq_iff unsigned_of_nat take_bit_nat_eq_self)
  ultimately show ?thesis
    using online_count_wraps [of "?f 256"] by (metis card_atLeastLessThan card_image diff_zero)
qed

end
