(* ===== verification/Documents.thy ===== *)
theory Documents
  imports Vector_Clock Errors
begin

text \<open>
  Documents, \<^verbatim>\<open>crates/core/src/document.rs\<close>: typed field values, documents and the
  operations on their fields. A \<^verbatim>\<open>f64\<close> is its 64-bit pattern.
\<close>

type_synonym f64 = "64 word"

datatype document_id = DocumentId (as_str: string)

datatype field_value =
    Text string
  | Number f64
  | Boolean bool
  | Array "field_value list"

record document =
  doc_id :: document_id
  doc_fields :: "(string, field_value) fmap"
  doc_version :: vector_clock

definition doc_new :: "document_id \<Rightarrow> document" where
  "doc_new i = \<lparr>doc_id = i, doc_fields = fmempty, doc_version = vc_new\<rparr>"

definition with_field :: "document \<Rightarrow> string \<Rightarrow> field_value \<Rightarrow> document" where
  "with_field d n v = d\<lparr>doc_fields := fmupd n v (doc_fields d)\<rparr>"

definition set_field :: "document \<Rightarrow> string \<Rightarrow> field_value \<Rightarrow> document \<times> field_value option" where
  "set_field d n v = (d\<lparr>doc_fields := fmupd n v (doc_fields d)\<rparr>, fmlookup (doc_fields d) n)"

definition get_field :: "document \<Rightarrow> string \<Rightarrow> field_value option" where
  "get_field d n = fmlookup (doc_fields d) n"

definition document_display :: "document \<Rightarrow> string" where
  "document_display d = ''Document('' @ as_str (doc_id d) @ '')''"

lemma get_field_with_field [simp]:
  "get_field (with_field d n v) m = (if m = n then Some v else get_field d m)"
  by (auto simp: get_field_def with_field_def)

lemma get_field_new [simp]: "get_field (doc_new i) n = None"
  by (simp add: get_field_def doc_new_def)

lemma set_field_eq: "set_field d n v = (with_field d n v, get_field d n)"
  by (simp add: set_field_def with_field_def get_field_def)

lemma doc_id_with_field [simp]: "doc_id (with_field d n v) = doc_id d"
  by (simp add: with_field_def)

lemma doc_version_with_field [simp]: "doc_version (with_field d n v) = doc_version d"
  by (simp add: with_field_def)

end
