(* ===== verification/Read_Coordinator.thy ===== *)
theory Read_Coordinator
  imports Documents Consistency
begin

text \<open>
  Resolution of the answers of several replicas to one read,
  \<^verbatim>\<open>crates/core/src/read_coordinator.rs\<close>. The locale \<open>scored_order\<close> states what
  the choice of a winner needs of the clocks: that the scalar score grows along the causal order.
\<close>

section \<open>Model\<close>

record replica_response =
  rr_node_id :: node_id
  rr_document :: document
  rr_version :: vector_clock

record read_resolution =
  res_document :: document
  res_version :: vector_clock
  res_stale_nodes :: "node_id list"
  res_response_count :: nat

record read_coordinator =
  rc_replication_factor :: u8

definition validate_response_count ::
    "read_coordinator \<Rightarrow> consistency_level \<Rightarrow> nat \<Rightarrow> unit db_result" where
  "validate_response_count rc level n =
     (let required = required_responses level (rc_replication_factor rc) in
      if n \<ge> required then Inr ()
      else Inl (ConsistencyError
        (''consistency level '' @ consistency_level_display level @ '' requires '' @ dec required @
         '' responses but only '' @ dec n @ '' received (replication_factor='' @
         dec (unat (rc_replication_factor rc)) @ '')'')))"

definition pick_winner_step :: "replica_response list \<Rightarrow> nat \<Rightarrow> nat \<Rightarrow> nat" where
  "pick_winner_step rs i best =
     (let current_best = rr_version (rs ! best); candidate = rr_version (rs ! i) in
      if dominates candidate current_best then i
      else if dominates current_best candidate then best
      else if total candidate > total current_best then i
      else best)"

definition pick_winner :: "replica_response list \<Rightarrow> nat" where
  "pick_winner rs = fold (pick_winner_step rs) [1..<length rs] 0"

definition resolve ::
    "read_coordinator \<Rightarrow> replica_response list \<Rightarrow> consistency_level \<Rightarrow> read_resolution db_result" where
  "resolve rc rs level =
     (if rs = [] then Inl (NotFound ''no replica responses received'')
      else case validate_response_count rc level (length rs) of
        Inl e \<Rightarrow> Inl e
      | Inr _ \<Rightarrow>
          (let winner = rs ! pick_winner rs;
               merged_clock = fold (\<lambda>r c. merge_in_place c (rr_version r)) rs (rr_version winner);
               stale_nodes = map rr_node_id
                 (filter (\<lambda>r. rr_node_id r \<noteq> rr_node_id winner \<and>
                              dominates (rr_version winner) (rr_version r)) rs)
           in Inr \<lparr>res_document = rr_document winner, res_version = merged_clock,
                   res_stale_nodes = stale_nodes, res_response_count = length rs\<rparr>))"

section \<open>Choosing the winner\<close>

locale scored_order =
  fixes dom :: "'c \<Rightarrow> 'c \<Rightarrow> bool" and score :: "'c \<Rightarrow> 's::linorder" and valid :: "'c \<Rightarrow> bool"
  assumes score_mono: "valid a \<Longrightarrow> valid b \<Longrightarrow> dom a b \<Longrightarrow> score b < score a"
begin

text \<open>On valid clocks the three-way comparison is a comparison of scores.\<close>

lemma choice_by_score:
  assumes "valid a" "valid b"
  shows "(if dom a b then x else if dom b a then y else if score a > score b then x else y) =
    (if score b < score a then x else y)"
  using score_mono [OF assms] score_mono [OF assms(2,1)] by auto

lemma maximal_undominated:
  assumes "valid a" "valid b" "score b \<le> score a"
  shows "\<not> dom b a"
  using score_mono [OF assms(2,1)] assms(3) by auto

end

interpretation clock_order: scored_order dominates total "\<lambda>c. vc_sum c < 2 ^ 64"
  by unfold_locales (simp add: word_less_nat_alt unat_total vc_sum_strict_mono)

text \<open>A scan for the first largest element.\<close>

lemma scan_first_max:
  fixes f :: "nat \<Rightarrow> 's::linorder"
  assumes "0 < n"
  shows "let w = fold (\<lambda>i b. if f b < f i then i else b) [1..<n] 0
    in w < n \<and> (\<forall>j<n. f j \<le> f w) \<and> (\<forall>j<w. f j < f w)"
  using assms
proof (induction n)
  case (Suc n)
  show ?case
  proof (cases "n = 0")
    case False
    let ?w = "fold (\<lambda>i b. if f b < f i then i else b) [1..<n] 0"
    have IH: "?w < n" "\<forall>j<n. f j \<le> f ?w" "\<forall>j<?w. f j < f ?w"
      using Suc.IH False by (simp_all add: Let_def)
    have step: "fold (\<lambda>i b. if f b < f i then i else b) [1..<Suc n] 0 =
        (if f ?w < f n then n else ?w)"
      using False by simp
    show ?thesis
      unfolding step Let_def using IH by (auto simp: less_Suc_eq not_less intro: le_less_trans)
  qed simp
qed simp

lemma fold_pick_winner_step:
  assumes "\<forall>r\<in>set rs. vc_sum (rr_version r) < 2 ^ 64" "set is \<subseteq> {..<length rs}" "b < length rs"
  shows "fold (pick_winner_step rs) is b =
    fold (\<lambda>i b. if total (rr_version (rs ! b)) < total (rr_version (rs ! i)) then i else b) is b"
  using assms(2,3)
proof (induction "is" arbitrary: b)
  case (Cons i "is")
  have v: "vc_sum (rr_version (rs ! j)) < 2 ^ 64" if "j < length rs" for j
    using assms(1) that by (simp add: nth_mem)
  have "pick_winner_step rs i b =
      (if total (rr_version (rs ! b)) < total (rr_version (rs ! i)) then i else b)"
    unfolding pick_winner_step_def Let_def
    using Cons.prems by (intro clock_order.choice_by_score v) auto
  with Cons show ?case by simp
qed simp

lemma pick_winner_first_max:
  assumes "rs \<noteq> []" "\<forall>r\<in>set rs. vc_sum (rr_version r) < 2 ^ 64"
  shows "pick_winner rs < length rs"
    and "j < length rs \<Longrightarrow> total (rr_version (rs ! j)) \<le> total (rr_version (rs ! pick_winner rs))"
    and "j < pick_winner rs \<Longrightarrow> total (rr_version (rs ! j)) < total (rr_version (rs ! pick_winner rs))"
proof -
  have "pick_winner rs =
      fold (\<lambda>i b. if total (rr_version (rs ! b)) < total (rr_version (rs ! i)) then i else b) [1..<length rs] 0"
    unfolding pick_winner_def using assms by (intro fold_pick_winner_step) auto
  then show "pick_winner rs < length rs"
    and "j < length rs \<Longrightarrow> total (rr_version (rs ! j)) \<le> total (rr_version (rs ! pick_winner rs))"
    and "j < pick_winner rs \<Longrightarrow> total (rr_version (rs ! j)) < total (rr_version (rs ! pick_winner rs))"
    using scan_first_max [of "length rs" "\<lambda>j. total (rr_version (rs ! j))"] assms(1)
    by (simp_all add: Let_def)
qed

lemma pick_winner_bound: "rs \<noteq> [] \<Longrightarrow> pick_winner rs < length rs"
proof -
  assume "rs \<noteq> []"
  have "fold (pick_winner_step rs) is b < length rs" if "set is \<subseteq> {..<length rs}" "b < length rs" for "is" b
    using that by (induction "is" arbitrary: b) (auto simp: pick_winner_step_def Let_def)
  with \<open>rs \<noteq> []\<close> show ?thesis by (simp add: pick_winner_def subset_eq)
qed

lemma pick_winner_undominated:
  assumes "rs \<noteq> []" "\<forall>r\<in>set rs. vc_sum (rr_version r) < 2 ^ 64" "r \<in> set rs"
  shows "\<not> dominates (rr_version r) (rr_version (rs ! pick_winner rs))"
proof -
  obtain j where j: "j < length rs" "rs ! j = r" using assms(3) by (auto simp: in_set_conv_nth)
  show ?thesis
    using clock_order.maximal_undominated assms(2,3) nth_mem [OF pick_winner_first_max(1) [OF assms(1,2)]]
      pick_winner_first_max(2) [OF assms(1,2) j(1)] j(2) by blast
qed

section \<open>The merged clock\<close>

lemma vc_at_fold_merge:
  "vc_at (fold (\<lambda>r c. merge c (rr_version r)) rs c) k = fold (\<lambda>r m. max m (vc_at (rr_version r) k)) rs (vc_at c k)"
  by (induction rs arbitrary: c) (simp_all add: vc_at_merge)

lemma fold_max_ge: "(m :: 'a::linorder) \<le> fold (\<lambda>r m. max m (f r)) rs m"
  by (induction rs arbitrary: m) (auto intro: order_trans [OF max.cobounded1])

lemma fold_max_upper: "r \<in> set rs \<Longrightarrow> (f r :: 'a::linorder) \<le> fold (\<lambda>r m. max m (f r)) rs m"
  by (induction rs arbitrary: m) (auto intro: order_trans [OF max.cobounded2 fold_max_ge])

lemma fold_max_attained: "fold (\<lambda>r m. max m (f r)) rs (m :: 'a::linorder) \<in> insert m (f ` set rs)"
  by (induction rs arbitrary: m) (auto simp: max_def split: if_splits)

lemma resolve_Inr:
  "resolve rc rs level = Inr res \<longleftrightarrow>
     rs \<noteq> [] \<and> required_responses level (rc_replication_factor rc) \<le> length rs \<and>
     res = \<lparr>res_document = rr_document (rs ! pick_winner rs),
            res_version = fold (\<lambda>r c. merge c (rr_version r)) rs (rr_version (rs ! pick_winner rs)),
            res_stale_nodes = map rr_node_id (filter (\<lambda>r. rr_node_id r \<noteq> rr_node_id (rs ! pick_winner rs) \<and>
              dominates (rr_version (rs ! pick_winner rs)) (rr_version r)) rs),
            res_response_count = length rs\<rparr>"
  by (auto simp: resolve_def validate_response_count_def Let_def)

lemma resolve_version_at:
  assumes "resolve rc rs level = Inr res"
  shows "vc_at (res_version res) k = Max ((\<lambda>r. vc_at (rr_version r) k) ` set rs)"
proof -
  let ?f = "\<lambda>r. vc_at (rr_version r) k" and ?w = "rs ! pick_winner rs"
  have ne: "rs \<noteq> []" and w: "?w \<in> set rs"
    using assms pick_winner_bound by (auto simp: resolve_Inr)
  have eq: "vc_at (res_version res) k = fold (\<lambda>r m. max m (?f r)) rs (?f ?w)"
    using assms by (simp add: resolve_Inr vc_at_fold_merge)
  have "fold (\<lambda>r m. max m (?f r)) rs (?f ?w) \<in> ?f ` set rs"
    using fold_max_attained [of ?f rs "?f ?w"] w by auto
  then show ?thesis
    unfolding eq by (intro Max_eqI [symmetric]) (auto intro: fold_max_upper)
qed

section \<open>Properties\<close>

lemma resolve_error_iff:
  "(\<exists>e. resolve rc rs level = Inl e) \<longleftrightarrow>
     length rs < max 1 (required_responses level (rc_replication_factor rc))"
  by (auto simp: resolve_def validate_response_count_def Let_def less_max_iff_disj Suc_le_eq)

text \<open>A version that covers another has seen all of its events.\<close>

definition covers :: "vector_clock \<Rightarrow> vector_clock \<Rightarrow> bool" where
  "covers c d \<longleftrightarrow> (\<forall>n. vc_get d n \<le> vc_get c n)"

lemma covers_at: "covers c d \<longleftrightarrow> (\<forall>k. vc_at d k \<le> vc_at c k)"
  by (simp add: covers_def vc_pointwise)

lemma covers_trans: "covers a b \<Longrightarrow> covers b c \<Longrightarrow> covers a c"
  unfolding covers_at by (meson order_trans)

lemma dominates_covers: "dominates a b \<Longrightarrow> covers a b"
  by (simp add: dominates_iff covers_at)

lemma resolve_version_covers:
  "resolve rc rs level = Inr res \<Longrightarrow> r \<in> set rs \<Longrightarrow> covers (res_version res) (rr_version r)"
  by (auto simp: covers_at resolve_version_at intro!: Max_ge)

text \<open>
  A read is resolved exactly when at least one replica, and as many as the level requires,
  answered: with none it is \<^const>\<open>NotFound\<close>, with too few a \<^const>\<open>ConsistencyError\<close>.
\<close>

theorem resolve_branches:
  "if rs = [] then resolve rc rs level = Inl (NotFound ''no replica responses received'')
   else if length rs < required_responses level (rc_replication_factor rc)
     then \<exists>msg. resolve rc rs level = Inl (ConsistencyError msg)
   else \<exists>res. resolve rc rs level = Inr res \<and> res_response_count res = length rs"
  by (auto simp: resolve_def validate_response_count_def Let_def)

text \<open>
  C10. The document a read returns is that of the first replica with the largest clock total; no
  replica that answered has a version causally after it; the reported version is the join of all
  versions, and the nodes reported for repair are exactly the other nodes whose version the
  winner's dominates.
\<close>

theorem resolve_correct:
  assumes "resolve rc rs level = Inr res"
    and "\<forall>r\<in>set rs. vc_sum (rr_version r) < 2 ^ 64"
  shows "\<exists>w < length rs. res_document res = rr_document (rs ! w) \<and>
     (\<forall>r\<in>set rs. \<not> dominates (rr_version r) (rr_version (rs ! w)) \<and>
                total (rr_version r) \<le> total (rr_version (rs ! w))) \<and>
     (\<forall>j<w. total (rr_version (rs ! j)) < total (rr_version (rs ! w))) \<and>
     (\<forall>n. vc_get (res_version res) n = Max ((\<lambda>r. vc_get (rr_version r) n) ` set rs)) \<and>
     set (res_stale_nodes res) =
       {rr_node_id r | r. r \<in> set rs \<and> rr_node_id r \<noteq> rr_node_id (rs ! w) \<and>
          dominates (rr_version (rs ! w)) (rr_version r)}"
proof -
  have ne: "rs \<noteq> []" using assms(1) by (simp add: resolve_Inr)
  note max = pick_winner_first_max [OF ne assms(2)]
  have "\<forall>r\<in>set rs. total (rr_version r) \<le> total (rr_version (rs ! pick_winner rs))"
    using max(2) by (auto simp: in_set_conv_nth)
  moreover have "\<forall>r\<in>set rs. \<not> dominates (rr_version r) (rr_version (rs ! pick_winner rs))"
    using pick_winner_undominated [OF ne assms(2)] by blast
  ultimately show ?thesis
    using assms(1) max(1,3) resolve_version_at [OF assms(1)]
    by (intro exI [of _ "pick_winner rs"]) (auto simp: resolve_Inr vc_get_at)
qed

definition example_response :: "u64 \<Rightarrow> vector_clock \<Rightarrow> replica_response" where
  "example_response n c = \<lparr>rr_node_id = NodeId n, rr_document = doc_new (DocumentId (dec (unat n))), rr_version = c\<rparr>"

definition example_clock :: vector_clock where
  "example_clock = fst (increment vc_new (NodeId 1))"

lemma example_clock_facts:
  "vc_sum vc_new = 0" "vc_sum example_clock = 1" "dominates example_clock vc_new"
proof -
  have at: "vc_at example_clock k = (if k = 1 then 1 else 0)" for k
    by (simp add: example_clock_def vc_at_increment)
  show "vc_sum vc_new = 0" by (simp add: vc_sum_def)
  show "vc_sum example_clock = 1" unfolding vc_sum_def at by (simp add: if_distrib [of unat] cong: if_cong)
  show "dominates example_clock vc_new" unfolding dominates_iff at by auto
qed

definition example_responses :: "replica_response list" where
  "example_responses = [example_response 1 vc_new, example_response 2 example_clock]"

lemma example_resolves: "\<exists>res. resolve \<lparr>rc_replication_factor = 3\<rparr> example_responses Quorum = Inr res"
  by (simp add: resolve_Inr example_responses_def)

theorem resolve_correct_witness:
  "\<exists>res w. resolve \<lparr>rc_replication_factor = 3\<rparr> example_responses Quorum = Inr res \<and>
     w < 2 \<and> res_document res = rr_document (example_responses ! w) \<and>
     \<not> dominates example_clock (rr_version (example_responses ! w))"
proof -
  obtain res where res: "resolve \<lparr>rc_replication_factor = 3\<rparr> example_responses Quorum = Inr res"
    using example_resolves ..
  have "\<forall>r\<in>set example_responses. vc_sum (rr_version r) < 2 ^ 64"
    by (simp add: example_responses_def example_response_def example_clock_facts)
  from resolve_correct [OF res this] obtain w where w: "w < length example_responses"
    "res_document res = rr_document (example_responses ! w)"
    "\<forall>r\<in>set example_responses. \<not> dominates (rr_version r) (rr_version (example_responses ! w))"
    by (elim exE conjE, intro that) (assumption, assumption, simp)
  moreover have "example_response 2 example_clock \<in> set example_responses" "length example_responses = 2"
    by (simp_all add: example_responses_def)
  moreover have "rr_version (example_response 2 example_clock) = example_clock"
    by (simp add: example_response_def)
  ultimately show ?thesis using res by metis
qed

text \<open>
  C11. Strong consistency: if the replicas whose acknowledgements committed a write all cover its
  version, then a quorum (or all) read of the same replica group reports a version that covers the
  write; and if no two answers are concurrent, the document returned itself is at least as new as
  the write.
\<close>

theorem quorum_read_sees_committed_write:
  assumes "resolve rc rs level = Inr res" and "level \<noteq> One"
    and "finite G" and "card G = unat (rc_replication_factor rc)"
    and "distinct (map rr_node_id rs)" and "rr_node_id ` set rs \<subseteq> G"
    and "W \<subseteq> G" and "is_committed (rc_replication_factor rc) (word_of_nat (card W))"
    and "\<forall>r\<in>set rs. rr_node_id r \<in> W \<longrightarrow> covers (rr_version r) v"
  shows "covers (res_version res) v \<and>
    ((\<forall>r\<in>set rs. vc_sum (rr_version r) < 2 ^ 64) \<and>
     (\<forall>r\<in>set rs. \<forall>s\<in>set rs. \<not> is_concurrent_with (rr_version r) (rr_version s)) \<longrightarrow>
       (\<exists>w\<in>set rs. res_document res = rr_document w \<and> covers (rr_version w) v))"
proof -
  have rs: "rs \<noteq> []" "required_responses level (rc_replication_factor rc) \<le> length rs"
    using assms(1) by (simp_all add: resolve_Inr)
  have "card (rr_node_id ` set rs) = length rs" using distinct_card [OF assms(5)] by simp
  then obtain r where r: "r \<in> set rs" "rr_node_id r \<in> W"
    using read_write_quorums_meet [OF assms(3,4,6,7,2) _ assms(8)] rs(2) by auto
  then have v: "covers (rr_version r) v" using assms(9) by blast
  have "covers (res_version res) v"
    using covers_trans [OF resolve_version_covers [OF assms(1) r(1)] v] .
  moreover have "\<exists>w\<in>set rs. res_document res = rr_document w \<and> covers (rr_version w) v"
    if sums: "\<forall>r\<in>set rs. vc_sum (rr_version r) < 2 ^ 64"
      and conc: "\<forall>r\<in>set rs. \<forall>s\<in>set rs. \<not> is_concurrent_with (rr_version r) (rr_version s)"
  proof -
    let ?w = "rs ! pick_winner rs"
    have w: "?w \<in> set rs" using pick_winner_bound [OF rs(1)] by simp
    have "dominates (rr_version ?w) (rr_version r) \<or> rr_version ?w = rr_version r"
      using conc w r(1) pick_winner_undominated [OF rs(1) sums r(1)] by (auto simp: is_concurrent_with_def)
    then have "covers (rr_version ?w) v" using v by (auto intro: covers_trans dominates_covers)
    then show ?thesis using assms(1) w by (auto simp: resolve_Inr)
  qed
  ultimately show ?thesis by blast
qed

theorem quorum_read_sees_committed_write_witness:
  "\<exists>res. resolve \<lparr>rc_replication_factor = 3\<rparr> example_responses Quorum = Inr res \<and>
     covers (res_version res) example_clock"
proof -
  obtain res where res: "resolve \<lparr>rc_replication_factor = 3\<rparr> example_responses Quorum = Inr res"
    using example_resolves ..
  have "covers (res_version res) example_clock"
    using quorum_read_sees_committed_write
      [OF res, of "{NodeId 1, NodeId 2, NodeId 3}" "{NodeId 2, NodeId 3}" example_clock]
    by (simp add: example_responses_def example_response_def is_committed_iff covers_def)
  with res show ?thesis by blast
qed

end
