(* ===== verification/Hash_Ring.thy ===== *)
theory Hash_Ring
  imports Prelude
begin

text \<open>
  The consistent-hash ring, \<^verbatim>\<open>crates/core/src/consistent_hash.rs\<close>. SHA-256 comes from
  the \<^verbatim>\<open>sha2\<close> crate and is the parameter \<open>h\<close>, a function from a key to its digest;
  no law of it is assumed except where a lemma says that no two virtual nodes collide
  (\<open>collision_free\<close>).
\<close>

section \<open>Model\<close>

definition VIRTUAL_NODES :: nat where
  "VIRTUAL_NODES = 150"

record 'a hash_ring =
  ring :: "(u64, 'a) fmap"
  ring_nodes :: "(string, 'a) fmap"

definition ring_new :: "'a hash_ring" where
  "ring_new = \<lparr>ring = fmempty, ring_nodes = fmempty\<rparr>"

text \<open>\<^verbatim>\<open>u64::from_be_bytes\<close> of the first eight bytes of the digest.\<close>

definition from_be_bytes :: "u8 list \<Rightarrow> u64" where
  "from_be_bytes bs = foldl (\<lambda>a b. a * 256 + ucast b) 0 bs"

definition hash_to_position :: "(string \<Rightarrow> u8 list) \<Rightarrow> string \<Rightarrow> u64" where
  "hash_to_position h key = from_be_bytes (take 8 (h key))"

definition vnode_key :: "string \<Rightarrow> nat \<Rightarrow> string" where
  "vnode_key i n = i @ ''#vnode'' @ dec n"

definition ring_remove_node :: "(string \<Rightarrow> u8 list) \<Rightarrow> string \<Rightarrow> 'a hash_ring \<Rightarrow> 'a hash_ring" where
  "ring_remove_node h i r =
     (case fmlookup (ring_nodes r) i of
        None \<Rightarrow> r
      | Some _ \<Rightarrow>
          \<lparr>ring = fold (\<lambda>n m. fmdrop (hash_to_position h (vnode_key i n)) m) [0..<VIRTUAL_NODES] (ring r),
           ring_nodes = fmdrop i (ring_nodes r)\<rparr>)"

definition ring_add_node :: "(string \<Rightarrow> u8 list) \<Rightarrow> string \<Rightarrow> 'a \<Rightarrow> 'a hash_ring \<Rightarrow> 'a hash_ring" where
  "ring_add_node h i v r0 =
     (let r = ring_remove_node h i r0 in
      \<lparr>ring = fold (\<lambda>n m. fmupd (hash_to_position h (vnode_key i n)) v m) [0..<VIRTUAL_NODES] (ring r),
       ring_nodes = fmupd i v (ring_nodes r)\<rparr>)"

text \<open>The loop over the clockwise entries, with its break.\<close>

fun collect_nodes :: "nat \<Rightarrow> 'a list \<Rightarrow> (u64 \<times> 'a) list \<Rightarrow> 'a list" where
  "collect_nodes max_distinct result [] = result"
| "collect_nodes max_distinct result ((pos, node) # es) =
     (if length result \<ge> max_distinct then result
      else collect_nodes max_distinct (if node \<in> set result then result else result @ [node]) es)"

text \<open>\<^verbatim>\<open>range(position..)\<close> chained with \<^verbatim>\<open>range(..position)\<close>.\<close>

definition clockwise :: "(u64, 'a) fmap \<Rightarrow> u64 \<Rightarrow> (u64 \<times> 'a) list" where
  "clockwise m position =
     filter (\<lambda>(p, _). position \<le> p) (btree_iter m) @ filter (\<lambda>(p, _). p < position) (btree_iter m)"

definition get_nodes :: "(string \<Rightarrow> u8 list) \<Rightarrow> 'a hash_ring \<Rightarrow> string \<Rightarrow> nat \<Rightarrow> 'a list" where
  "get_nodes h r key cnt =
     (if ring r = fmempty then []
      else collect_nodes (min (fm_len (ring_nodes r)) cnt) [] (clockwise (ring r) (hash_to_position h key)))"

definition get_primary :: "(string \<Rightarrow> u8 list) \<Rightarrow> 'a hash_ring \<Rightarrow> string \<Rightarrow> 'a option" where
  "get_primary h r key = (case get_nodes h r key 1 of [] \<Rightarrow> None | n # _ \<Rightarrow> Some n)"

definition ring_node_count :: "'a hash_ring \<Rightarrow> nat" where
  "ring_node_count r = fm_len (ring_nodes r)"

definition vnode_count :: "'a hash_ring \<Rightarrow> nat" where
  "vnode_count r = fm_len (ring r)"

definition ring_is_empty :: "'a hash_ring \<Rightarrow> bool" where
  "ring_is_empty r \<longleftrightarrow> ring r = fmempty"

section \<open>Virtual node keys\<close>

lemma vnode_key_inject [simp]: "vnode_key i m = vnode_key j n \<longleftrightarrow> i = j \<and> m = n"
proof
  assume eq: "vnode_key i m = vnode_key j n"
  have split: "takeWhile is_digit (rev (vnode_key a k)) = rev (dec k)"
    "dropWhile is_digit (rev (vnode_key a k)) = rev (a @ ''#vnode'')" for a k
    using list_all_is_digit_dec [of k]
    by (simp_all add: vnode_key_def takeWhile_append dropWhile_append list_all_iff is_digit_def)
  have "rev (dec m) = rev (dec n)" "rev (i @ ''#vnode'') = rev (j @ ''#vnode'')"
    using split(1) [of i m] split(1) [of j n] split(2) [of i m] split(2) [of j n] eq by simp_all
  then show "i = j \<and> m = n" by (simp add: rev_swap)
qed simp

definition positions :: "(string \<Rightarrow> u8 list) \<Rightarrow> string \<Rightarrow> u64 set" where
  "positions h i = (\<lambda>n. hash_to_position h (vnode_key i n)) ` {..<VIRTUAL_NODES}"

lemma positions_nonempty [simp]: "positions h i \<noteq> {}"
  by (simp add: positions_def VIRTUAL_NODES_def lessThan_empty_iff)

section \<open>Lookup after an update\<close>

lemma fold_fmupd_const_lookup:
  "fmlookup (fold (\<lambda>n m. fmupd (f n) v m) ns m) p = (if p \<in> f ` set ns then Some v else fmlookup m p)"
  by (induction ns arbitrary: m) auto

lemma positions_list: "(\<lambda>n. hash_to_position h (vnode_key i n)) ` set [0..<VIRTUAL_NODES] = positions h i"
  by (simp add: positions_def atLeast0LessThan)

lemma ring_remove_lookup:
  "fmlookup (ring (ring_remove_node h i r)) p =
     (if fmlookup (ring_nodes r) i \<noteq> None \<and> p \<in> positions h i then None else fmlookup (ring r) p)"
  by (simp add: ring_remove_node_def fold_fmdrop_lookup positions_list [symmetric] split: option.splits)

lemma nodes_remove_lookup:
  "fmlookup (ring_nodes (ring_remove_node h i r)) j = (if j = i then None else fmlookup (ring_nodes r) j)"
  by (auto simp: ring_remove_node_def split: option.splits)

lemma ring_add_lookup:
  "fmlookup (ring (ring_add_node h i v r)) p = (if p \<in> positions h i then Some v else fmlookup (ring r) p)"
  by (auto simp: ring_add_node_def Let_def fold_fmupd_const_lookup positions_list [symmetric] ring_remove_lookup)

lemma nodes_add_lookup:
  "fmlookup (ring_nodes (ring_add_node h i v r)) j = (if j = i then Some v else fmlookup (ring_nodes r) j)"
  by (simp add: ring_add_node_def Let_def nodes_remove_lookup)

lemmas ring_lookups = ring_remove_lookup nodes_remove_lookup ring_add_lookup nodes_add_lookup

lemma hash_ring_eqI:
  assumes "\<And>p. fmlookup (ring r) p = fmlookup (ring s) p" "\<And>j. fmlookup (ring_nodes r) j = fmlookup (ring_nodes s) j"
  shows "(r :: 'a hash_ring) = s"
proof -
  have "ring r = ring s" "ring_nodes r = ring_nodes s" using assms by (auto intro: fmap_ext)
  then show ?thesis by simp
qed

section \<open>Walking the ring\<close>

text \<open>The first occurrence of every element of a list, in order.\<close>

fun nub :: "'a list \<Rightarrow> 'a list" where
  "nub [] = []"
| "nub (x # xs) = x # filter (\<lambda>y. y \<noteq> x) (nub xs)"

lemma set_nub [simp]: "set (nub xs) = set xs"
  by (induction xs) auto

lemma distinct_nub [simp]: "distinct (nub xs)"
  by (induction xs) auto

lemma filter_nub: "filter P (nub xs) = nub (filter P xs)"
proof (induction xs)
  case (Cons x xs)
  have "filter P (filter (\<lambda>y. y \<noteq> x) (nub xs)) = filter (\<lambda>y. y \<noteq> x) (filter P (nub xs))"
    by (simp add: conj_commute)
  moreover have "\<not> P x \<Longrightarrow> filter (\<lambda>y. y \<noteq> x) (filter P (nub xs)) = filter P (nub xs)"
    by (auto intro: filter_cong)
  ultimately show ?case using Cons.IH by auto
qed simp

lemma length_nub: "length (nub xs) = card (set xs)"
  by (metis distinct_card distinct_nub set_nub)

lemma nub_append: "nub (xs @ ys) = nub xs @ filter (\<lambda>y. y \<notin> set xs) (nub ys)"
  by (induction xs) (auto simp: filter_filter intro: filter_cong)

lemma collect_nodes_eq:
  assumes "distinct res" "length res \<le> k"
  shows "collect_nodes k res es = take k (res @ filter (\<lambda>y. y \<notin> set res) (nub (map snd es)))"
  using assms
proof (induction k res es rule: collect_nodes.induct)
  case (2 k res pos node es)
  let ?N = "nub (map snd es)"
  show ?case
  proof (cases "length res \<ge> k")
    case True
    then show ?thesis using 2(3) by simp
  next
    case False
    have "filter (\<lambda>y. y \<notin> set res) (filter (\<lambda>y. y \<noteq> node) ?N) =
        filter (\<lambda>y. y \<notin> set (res @ [node])) ?N"
      by (auto simp: filter_filter intro: filter_cong)
    moreover have "node \<in> set res \<Longrightarrow> filter (\<lambda>y. y \<notin> set (res @ [node])) ?N = filter (\<lambda>y. y \<notin> set res) ?N"
      by (auto intro: filter_cong)
    ultimately show ?thesis
      using False 2 by (auto simp: not_le Suc_le_eq take_Cons' simp del: set_append)
  qed
qed (simp_all)

lemma get_nodes_eq:
  "get_nodes h r key c =
     take (min (fm_len (ring_nodes r)) c) (nub (map snd (clockwise (ring r) (hash_to_position h key))))"
proof (cases "ring r = fmempty")
  case True
  then show ?thesis by (simp add: get_nodes_def clockwise_def btree_iter_def sorted_list_of_fset.rep_eq)
next
  case False
  then show ?thesis by (simp add: get_nodes_def collect_nodes_eq)
qed

lemma set_clockwise: "set (clockwise m p) = {(k, v). fmlookup m k = Some v}"
  by (auto simp: clockwise_def set_btree_iter not_less)

lemma snd_clockwise: "snd ` set (clockwise m p) = fmran' m"
  by (force simp: set_clockwise fmran'_def ran_def)

lemma set_get_nodes: "set (get_nodes h r key c) \<subseteq> fmran' (ring r)"
  using set_take_subset [of _ "nub (map snd (clockwise (ring r) (hash_to_position h key)))"]
  by (auto simp: get_nodes_eq snd_clockwise)

lemma length_get_nodes:
  "length (get_nodes h r key c) = min (min (fm_len (ring_nodes r)) c) (card (fmran' (ring r)))"
  by (simp add: get_nodes_eq length_nub snd_clockwise min.commute)

lemma distinct_get_nodes: "distinct (get_nodes h r key c)"
  by (simp add: get_nodes_eq)

text \<open>The walk over the part of the ring that a predicate on positions selects.\<close>

lemma btree_iter_filter: "btree_iter (fmfilter P m) = filter (\<lambda>(k, _). P k) (btree_iter m)"
proof -
  have "sorted_list_of_set {x \<in> fset (fmdom m). P x} = filter P (sorted_list_of_set (fset (fmdom m)))"
    by (rule sorted_distinct_set_unique) (auto simp: sorted_filter [where f = id, simplified])
  moreover have "fset (fmdom (fmfilter P m)) = {x \<in> fset (fmdom m). P x}" by auto
  ultimately have "sorted_list_of_fset (fmdom (fmfilter P m)) = filter P (sorted_list_of_fset (fmdom m))"
    by (simp only: sorted_list_of_fset.rep_eq)
  then show ?thesis by (simp add: btree_iter_def filter_map o_def)
qed

lemma clockwise_filter: "clockwise (fmfilter P m) p = filter (\<lambda>(k, _). P k) (clockwise m p)"
  by (simp add: clockwise_def btree_iter_filter conj_commute case_prod_beta)

text \<open>Taking a value out of the ring takes it out of every walk, and changes nothing else.\<close>

lemma nub_clockwise_without:
  assumes "m = fmfilter (\<lambda>p. fmlookup m' p \<noteq> Some v) m'"
  shows "nub (map snd (clockwise m p)) = filter (\<lambda>x. x \<noteq> v) (nub (map snd (clockwise m' p)))"
proof -
  have "filter (\<lambda>(k, _). fmlookup m' k \<noteq> Some v) (clockwise m' p) = filter (\<lambda>e. snd e \<noteq> v) (clockwise m' p)"
    by (rule filter_cong) (auto simp: set_clockwise)
  moreover have "clockwise m p = filter (\<lambda>(k, _). fmlookup m' k \<noteq> Some v) (clockwise m' p)"
    by (subst assms) (rule clockwise_filter)
  ultimately have "map snd (clockwise m p) = filter (\<lambda>x. x \<noteq> v) (map snd (clockwise m' p))"
    by (simp add: filter_map o_def)
  then show ?thesis by (simp add: filter_nub)
qed

lemma fmlookup_eq_fmfilter:
  "fmlookup m = (\<lambda>p. if fmlookup m' p = Some v then None else fmlookup m' p) \<Longrightarrow>
     m = fmfilter (\<lambda>p. fmlookup m' p \<noteq> Some v) m'"
  by (rule fmap_ext) auto

section \<open>Invariants\<close>

text \<open>
  Every entry of the ring is a virtual node of a member (\<open>ring_wf\<close>); every virtual node of a member
  is on the ring (\<open>ring_full\<close>); members have different values (\<open>nodes_inj\<close>). Two members may collide
  only if SHA-256 prefixes of different keys do (\<open>collision_free\<close>).
\<close>

definition ring_wf :: "(string \<Rightarrow> u8 list) \<Rightarrow> 'a hash_ring \<Rightarrow> bool" where
  "ring_wf h r \<longleftrightarrow> (\<forall>p v. fmlookup (ring r) p = Some v \<longrightarrow>
     (\<exists>i. fmlookup (ring_nodes r) i = Some v \<and> p \<in> positions h i))"

definition ring_full :: "(string \<Rightarrow> u8 list) \<Rightarrow> 'a hash_ring \<Rightarrow> bool" where
  "ring_full h r \<longleftrightarrow> (\<forall>i v. fmlookup (ring_nodes r) i = Some v \<longrightarrow>
     (\<forall>p\<in>positions h i. fmlookup (ring r) p = Some v))"

definition nodes_inj :: "'a hash_ring \<Rightarrow> bool" where
  "nodes_inj r \<longleftrightarrow> (\<forall>i j v. fmlookup (ring_nodes r) i = Some v \<longrightarrow> fmlookup (ring_nodes r) j = Some v \<longrightarrow> i = j)"

definition collision_free :: "(string \<Rightarrow> u8 list) \<Rightarrow> string set \<Rightarrow> bool" where
  "collision_free h S \<longleftrightarrow> (\<forall>i\<in>S. \<forall>j\<in>S. i \<noteq> j \<longrightarrow> positions h i \<inter> positions h j = {})"

lemma collision_freeD:
  "collision_free h S \<Longrightarrow> i \<in> S \<Longrightarrow> j \<in> S \<Longrightarrow> i \<noteq> j \<Longrightarrow> positions h i \<inter> positions h j = {}"
  by (simp add: collision_free_def)

lemmas ring_invs = ring_wf_def ring_full_def nodes_inj_def

lemma ring_wf_new [simp]: "ring_wf h ring_new"
  by (simp add: ring_wf_def ring_new_def)

lemma ring_full_new [simp]: "ring_full h ring_new"
  by (simp add: ring_full_def ring_new_def)

lemma nodes_inj_new [simp]: "nodes_inj ring_new"
  by (simp add: nodes_inj_def ring_new_def)

lemma ring_wf_remove: "ring_wf h r \<Longrightarrow> ring_wf h (ring_remove_node h i r)"
  unfolding ring_wf_def ring_lookups by (metis option.distinct(1))

lemma ring_wf_add: "ring_wf h r \<Longrightarrow> ring_wf h (ring_add_node h i v r)"
  unfolding ring_wf_def ring_lookups by (metis option.inject)

lemma ring_full_add:
  assumes "ring_full h r" "collision_free h (insert i (fmdom' (ring_nodes r)))"
  shows "ring_full h (ring_add_node h i v r)"
  unfolding ring_full_def ring_lookups
proof (intro allI impI ballI)
  fix j w p
  assume j: "(if j = i then Some v else fmlookup (ring_nodes r) j) = Some w" and p: "p \<in> positions h j"
  show "(if p \<in> positions h i then Some v else fmlookup (ring r) p) = Some w"
  proof (cases "j = i")
    case False
    with j have "fmlookup (ring_nodes r) j = Some w" by simp
    moreover from this False have "positions h j \<inter> positions h i = {}"
      using assms(2) by (auto simp: collision_free_def fmlookup_dom'_iff)
    ultimately show ?thesis using assms(1) p by (auto simp: ring_full_def)
  qed (use j p in simp)
qed

lemma ring_full_remove:
  assumes "ring_full h r" "collision_free h (fmdom' (ring_nodes r))"
  shows "ring_full h (ring_remove_node h i r)"
  unfolding ring_full_def ring_lookups
proof (intro allI impI ballI)
  fix j w p
  assume j: "(if j = i then None else fmlookup (ring_nodes r) j) = Some w" and p: "p \<in> positions h j"
  then have j': "j \<noteq> i" "fmlookup (ring_nodes r) j = Some w" by (simp_all split: if_splits)
  have "positions h j \<inter> positions h i = {}" if "fmlookup (ring_nodes r) i \<noteq> None"
    using assms(2) j' that by (auto simp: collision_free_def fmlookup_dom'_iff)
  then show "(if fmlookup (ring_nodes r) i \<noteq> None \<and> p \<in> positions h i then None else fmlookup (ring r) p) = Some w"
    using assms(1) j' p by (auto simp: ring_full_def)
qed

lemma ran_ring:
  assumes "ring_wf h r" "ring_full h r"
  shows "fmran' (ring r) = fmran' (ring_nodes r)"
proof
  show "fmran' (ring r) \<subseteq> fmran' (ring_nodes r)"
    using assms(1) unfolding ring_wf_def fmlookup_ran'_iff subset_iff by blast
  show "fmran' (ring_nodes r) \<subseteq> fmran' (ring r)"
  proof
    fix v assume "v \<in> fmran' (ring_nodes r)"
    then obtain i where i: "fmlookup (ring_nodes r) i = Some v" by (auto simp: fmran'_def ran_def)
    obtain p where "p \<in> positions h i" using positions_nonempty [of h i] by blast
    then show "v \<in> fmran' (ring r)" using assms(2) i by (force simp: ring_full_def fmran'_def ran_def)
  qed
qed

lemma card_fmran'_le: "card (fmran' m) \<le> fm_len m"
proof -
  have "fmran' m = (\<lambda>k. the (fmlookup m k)) ` fset (fmdom m)"
    by (force simp: fmran'_def ran_def fmlookup_dom_iff)
  then show ?thesis by (simp add: fm_len_def fcard.rep_eq card_image_le)
qed

lemma card_ran_nodes:
  assumes "nodes_inj r"
  shows "card (fmran' (ring_nodes r)) = fm_len (ring_nodes r)"
proof -
  have "fmran' (ring_nodes r) = (\<lambda>k. the (fmlookup (ring_nodes r) k)) ` fset (fmdom (ring_nodes r))"
    by (force simp: fmran'_def ran_def fmlookup_dom_iff)
  moreover have "inj_on (\<lambda>k. the (fmlookup (ring_nodes r) k)) (fset (fmdom (ring_nodes r)))"
    using assms by (auto simp: inj_on_def nodes_inj_def fmlookup_dom_iff)
  ultimately show ?thesis by (simp add: fm_len_def fcard.rep_eq card_image)
qed

lemma ran_ring_subset: "ring_wf h r \<Longrightarrow> fmran' (ring r) \<subseteq> fmran' (ring_nodes r)"
  unfolding ring_wf_def fmlookup_ran'_iff subset_iff by blast

lemma card_ran_ring_le: "ring_wf h r \<Longrightarrow> card (fmran' (ring r)) \<le> fm_len (ring_nodes r)"
  using card_mono [OF _ ran_ring_subset, of r h] card_fmran'_le [of "ring_nodes r"]
  by (simp add: fmran'_alt_def)

section \<open>Replica placement\<close>

text \<open>
  What a client of the ring relies on: the replicas of a key are distinct members, as many as asked
  for or as there are.
\<close>

locale placement =
  fixes good :: "'r \<Rightarrow> bool" and members :: "'r \<Rightarrow> 'n set" and place :: "'r \<Rightarrow> string \<Rightarrow> nat \<Rightarrow> 'n list"
  assumes place_distinct: "good r \<Longrightarrow> distinct (place r key c)"
    and place_members: "good r \<Longrightarrow> set (place r key c) \<subseteq> members r"
    and place_length: "good r \<Longrightarrow> length (place r key c) = min (card (members r)) c"
    and finite_members: "good r \<Longrightarrow> finite (members r)"
begin

lemma place_card: "good r \<Longrightarrow> card (set (place r key c)) = min (card (members r)) c"
  using place_distinct place_length distinct_card by metis

lemma place_all:
  assumes "good r" "card (members r) \<le> c"
  shows "set (place r key c) = members r"
  using assms place_card [OF assms(1)] place_members [OF assms(1)] finite_members [OF assms(1)]
  by (metis card_subset_eq min_absorb1)

lemma place_empty_iff: "good r \<Longrightarrow> place r key c = [] \<longleftrightarrow> members r = {} \<or> c = 0"
  using place_length [of r key c] finite_members [of r] by (auto simp: min_def split: if_splits)

end

definition ring_good :: "(string \<Rightarrow> u8 list) \<Rightarrow> 'a hash_ring \<Rightarrow> bool" where
  "ring_good h r \<longleftrightarrow> ring_wf h r \<and> ring_full h r \<and> nodes_inj r"

interpretation ring_placement: placement "ring_good h" "\<lambda>r. fmran' (ring_nodes r)" "get_nodes h"
  for h :: "string \<Rightarrow> u8 list"
proof unfold_locales
  fix r :: "'a hash_ring" and key c
  assume "ring_good h r"
  then have r: "fmran' (ring r) = fmran' (ring_nodes r)" "card (fmran' (ring_nodes r)) = fm_len (ring_nodes r)"
    by (auto simp: ring_good_def ran_ring [of h] card_ran_nodes)
  show "distinct (get_nodes h r key c)" by (rule distinct_get_nodes)
  show "set (get_nodes h r key c) \<subseteq> fmran' (ring_nodes r)" using set_get_nodes r(1) by metis
  show "length (get_nodes h r key c) = min (card (fmran' (ring_nodes r))) c"
    using r by (simp add: length_get_nodes)
  show "finite (fmran' (ring_nodes r))" by (simp add: fmran'_alt_def)
qed

lemma ring_good_new [simp]: "ring_good h ring_new"
  by (simp add: ring_good_def)

lemma nodes_inj_add:
  "nodes_inj r \<Longrightarrow> \<forall>j. j \<noteq> i \<longrightarrow> fmlookup (ring_nodes r) j \<noteq> Some v \<Longrightarrow> nodes_inj (ring_add_node h i v r)"
  by (auto simp: nodes_inj_def ring_lookups)

lemma nodes_inj_remove: "nodes_inj r \<Longrightarrow> nodes_inj (ring_remove_node h i r)"
  by (auto simp: nodes_inj_def ring_lookups split: if_splits)

lemma ring_good_add:
  "ring_good h r \<Longrightarrow> collision_free h (insert i (fmdom' (ring_nodes r))) \<Longrightarrow>
     \<forall>j. j \<noteq> i \<longrightarrow> fmlookup (ring_nodes r) j \<noteq> Some v \<Longrightarrow> ring_good h (ring_add_node h i v r)"
  by (simp add: ring_good_def ring_wf_add ring_full_add nodes_inj_add)

lemma ring_good_remove:
  "ring_good h r \<Longrightarrow> collision_free h (fmdom' (ring_nodes r)) \<Longrightarrow> ring_good h (ring_remove_node h i r)"
  by (simp add: ring_good_def ring_wf_remove ring_full_remove nodes_inj_remove)

section \<open>Minimal disruption\<close>

lemma get_nodes_without:
  assumes "ring r = fmfilter (\<lambda>p. fmlookup (ring r') p \<noteq> Some v) (ring r')" "ring_wf h r"
  shows "prefix (filter (\<lambda>x. x \<noteq> v) (get_nodes h r' key c)) (get_nodes h r key c)"
proof -
  let ?N' = "nub (map snd (clockwise (ring r') (hash_to_position h key)))"
  let ?N = "nub (map snd (clockwise (ring r) (hash_to_position h key)))"
  let ?L = "filter (\<lambda>x. x \<noteq> v) (get_nodes h r' key c)"
  have N: "?N = filter (\<lambda>x. x \<noteq> v) ?N'" by (rule nub_clockwise_without [OF assms(1)])
  have "prefix (get_nodes h r' key c) ?N'" unfolding get_nodes_eq by (rule take_is_prefix)
  then have pre: "prefix ?L ?N" unfolding N by (auto simp: prefix_def)
  have "length ?N \<le> fm_len (ring_nodes r)"
    using card_ran_ring_le [OF assms(2)] by (simp add: length_nub snd_clockwise)
  moreover have "length ?L \<le> c"
    by (rule le_trans [OF length_filter_le]) (simp add: length_get_nodes)
  ultimately have len: "length ?L \<le> min (fm_len (ring_nodes r)) c"
    using prefix_length_le [OF pre] by simp
  from pre obtain zs where zs: "?N = ?L @ zs" by (auto simp: prefix_def)
  have "get_nodes h r key c = ?L @ take (min (fm_len (ring_nodes r)) c - length ?L) zs"
    unfolding get_nodes_eq [of h r] zs using len by simp
  then show ?thesis by (rule prefixI)
qed

lemma without_lookup:
  assumes "ring_wf h r" "fmlookup (ring_nodes r) i = None" "\<forall>j. fmlookup (ring_nodes r) j \<noteq> Some v"
    and "collision_free h (insert i (fmdom' (ring_nodes r)))"
  shows "ring r = fmfilter (\<lambda>p. fmlookup (ring (ring_add_node h i v r)) p \<noteq> Some v) (ring (ring_add_node h i v r))"
proof (rule fmlookup_eq_fmfilter, rule ext)
  fix p
  show "fmlookup (ring r) p = (if fmlookup (ring (ring_add_node h i v r)) p = Some v then None
      else fmlookup (ring (ring_add_node h i v r)) p)"
  proof (cases "fmlookup (ring r) p")
    case (Some w)
    then obtain j where j: "fmlookup (ring_nodes r) j = Some w" "p \<in> positions h j"
      using assms(1) by (auto simp: ring_wf_def)
    then have "positions h j \<inter> positions h i = {}"
      using assms(2) by (intro collision_freeD [OF assms(4)]) (auto simp: fmdom'I)
    moreover have "w \<noteq> v" using assms(3) j(1) by blast
    ultimately show ?thesis using Some j(2) by (auto simp: ring_lookups)
  qed (auto simp: ring_lookups)
qed

lemma removed_lookup:
  assumes "ring_good h r" "fmlookup (ring_nodes r) i = Some v"
  shows "ring (ring_remove_node h i r) = fmfilter (\<lambda>p. fmlookup (ring r) p \<noteq> Some v) (ring r)"
proof (rule fmlookup_eq_fmfilter, rule ext)
  fix p
  have "fmlookup (ring r) p = Some v \<longleftrightarrow> p \<in> positions h i"
    using assms unfolding ring_good_def ring_invs by metis
  then show "fmlookup (ring (ring_remove_node h i r)) p =
      (if fmlookup (ring r) p = Some v then None else fmlookup (ring r) p)"
    using assms(2) by (simp add: ring_lookups)
qed

lemma prefix_hd_cases:
  assumes "prefix (filter (\<lambda>x. x \<noteq> v) xs) ys" "xs \<noteq> []"
  shows "hd xs = v \<or> (ys \<noteq> [] \<and> hd xs = hd ys)"
  using assms by (cases xs; cases ys) (auto split: if_splits)

lemma replicas_after_add:
  assumes "ring_good h r" "fmlookup (ring_nodes r) i = None" "v \<notin> fmran' (ring_nodes r)"
    "collision_free h (insert i (fmdom' (ring_nodes r)))"
  shows "prefix (filter (\<lambda>x. x \<noteq> v) (get_nodes h (ring_add_node h i v r) key c)) (get_nodes h r key c)"
proof -
  have "\<forall>j. fmlookup (ring_nodes r) j \<noteq> Some v" using assms(3) by (auto simp: fmlookup_ran'_iff)
  moreover have "ring_wf h r" using assms(1) by (simp add: ring_good_def)
  ultimately show ?thesis using get_nodes_without [OF without_lookup] assms(2,4) by metis
qed

lemma primary_after_add:
  assumes "ring_good h r" "fmlookup (ring_nodes r) i = None" "v \<notin> fmran' (ring_nodes r)"
    "collision_free h (insert i (fmdom' (ring_nodes r)))"
  shows "get_primary h (ring_add_node h i v r) key = Some v \<or>
     get_primary h (ring_add_node h i v r) key = get_primary h r key"
proof -
  have "ring_good h (ring_add_node h i v r)"
    using ring_good_add [OF assms(1,4)] assms(3) by (auto simp: fmlookup_ran'_iff)
  moreover have "v \<in> fmran' (ring_nodes (ring_add_node h i v r))"
    by (auto simp: fmlookup_ran'_iff ring_lookups)
  ultimately have ne: "get_nodes h (ring_add_node h i v r) key 1 \<noteq> []"
    by (subst ring_placement.place_empty_iff) auto
  from prefix_hd_cases [OF replicas_after_add [OF assms] ne] show ?thesis
    using ne by (auto simp: get_primary_def split: list.splits)
qed

section \<open>Properties\<close>

text \<open>
  Adding a node is idempotent: adding it again, with a new value, leaves exactly the ring that
  a single addition of the new value would have given, whatever the ring and the hash function.
\<close>

theorem ring_add_node_idempotent:
  "ring_add_node h i v (ring_add_node h i w r) = ring_add_node h i v r"
  by (rule hash_ring_eqI) (simp_all add: ring_lookups)

text \<open>
  On a well-formed ring the replicas of a key are distinct members; there are as many as
  requested, or all members if there are fewer.
\<close>

theorem get_nodes_replica_set:
  assumes "ring_good h r"
  shows "distinct (get_nodes h r key c) \<and> set (get_nodes h r key c) \<subseteq> fmran' (ring_nodes r) \<and>
    length (get_nodes h r key c) = min (ring_node_count r) c"
  using ring_placement.place_distinct [OF assms] ring_placement.place_members [OF assms]
    ring_placement.place_length [OF assms] assms
  by (auto simp: ring_node_count_def card_ran_nodes ring_good_def)

text \<open>
  C14. Adding a node disturbs placement minimally: of the new replicas of any key, those that are
  not the new node are an initial segment of the old replicas, in the same order; so its primary is
  the old one or the new node.
\<close>

theorem ring_add_node_minimal_disruption:
  assumes "ring_good h r" and "fmlookup (ring_nodes r) i = None" and "v \<notin> fmran' (ring_nodes r)"
    and "collision_free h (insert i (fmdom' (ring_nodes r)))"
  shows "prefix (filter (\<lambda>x. x \<noteq> v) (get_nodes h (ring_add_node h i v r) key c)) (get_nodes h r key c) \<and>
    (get_primary h (ring_add_node h i v r) key = Some v \<or>
     get_primary h (ring_add_node h i v r) key = get_primary h r key)"
  using replicas_after_add [OF assms] primary_after_add [OF assms] by blast

text \<open>
  After a node is removed no key is placed on it, and the remaining replicas of a key keep
  their order and precede any replica that takes over.
\<close>

theorem ring_remove_node_correct:
  assumes "ring_good h r" and "fmlookup (ring_nodes r) i = Some v"
    and "collision_free h (fmdom' (ring_nodes r))"
  shows "v \<notin> set (get_nodes h (ring_remove_node h i r) key c) \<and>
    prefix (filter (\<lambda>x. x \<noteq> v) (get_nodes h r key c)) (get_nodes h (ring_remove_node h i r) key c)"
proof -
  have good: "ring_good h (ring_remove_node h i r)" by (rule ring_good_remove [OF assms(1,3)])
  have "v \<notin> fmran' (ring (ring_remove_node h i r))"
    by (auto simp: removed_lookup [OF assms(1,2)] fmlookup_ran'_iff split: if_splits)
  then show ?thesis
    using set_get_nodes [of h "ring_remove_node h i r" key c] get_nodes_without [OF removed_lookup [OF assms(1,2)]] good
    by (auto simp: ring_good_def)
qed

section \<open>A concrete hash\<close>

text \<open>A stand-in digest under which the virtual nodes of the members \<open>a\<close> and \<open>b\<close> do not collide.\<close>

definition sample_hash :: "string \<Rightarrow> u8 list" where
  "sample_hash s = (case s of [] \<Rightarrow> replicate 32 0 | c # cs \<Rightarrow> [0, 0, 0, 0, 0, 0, 0, word_of_nat (of_char c)] @ replicate 24 0)"

lemma sample_positions: "positions sample_hash (c # cs) = {word_of_nat (of_char c)}"
proof -
  have "hash_to_position sample_hash (vnode_key (c # cs) n) = word_of_nat (of_char c)" for n
    by (simp add: hash_to_position_def sample_hash_def vnode_key_def from_be_bytes_def
        take_Cons' unsigned_of_nat take_bit_nat_eq_self)
  then show ?thesis
    using positions_nonempty [of sample_hash "c # cs"] by (auto simp: positions_def)
qed

definition sample_ring :: "nat hash_ring" where
  "sample_ring = ring_add_node sample_hash ''a'' 1 ring_new"

lemma sample_collision_free: "collision_free sample_hash {''b'', ''a''}"
  by (simp add: collision_free_def sample_positions)

lemma sample_nodes: "fmlookup (ring_nodes sample_ring) j = (if j = ''a'' then Some 1 else None)"
  by (simp add: sample_ring_def ring_lookups ring_new_def)

lemma sample_dom: "fmdom' (ring_nodes sample_ring) = {''a''}" "fmran' (ring_nodes sample_ring) = {1}"
  by (auto simp: fmlookup_dom'_iff fmlookup_ran'_iff sample_nodes split: if_splits)

lemma sample_good: "ring_good sample_hash sample_ring"
  unfolding sample_ring_def
  by (rule ring_good_add [OF ring_good_new]) (simp_all add: collision_free_def ring_new_def)

theorem get_nodes_replica_set_witness:
  "length (get_nodes sample_hash sample_ring ''doc'' 3) = min (ring_node_count sample_ring) 3"
  using get_nodes_replica_set [OF sample_good, of "''doc''" 3] by blast

theorem ring_add_node_minimal_disruption_witness:
  "get_primary sample_hash (ring_add_node sample_hash ''b'' 2 sample_ring) ''doc'' \<in>
     {Some 2, get_primary sample_hash sample_ring ''doc''}"
  using ring_add_node_minimal_disruption [OF sample_good, of "''b''" 2 "''doc''" 1]
  by (simp add: sample_nodes sample_dom sample_collision_free)

theorem ring_remove_node_correct_witness:
  "1 \<notin> set (get_nodes sample_hash (ring_remove_node sample_hash ''a'' sample_ring) ''doc'' 3)"
  using ring_remove_node_correct [OF sample_good, of "''a''" 1 "''doc''" 3]
  by (simp add: sample_nodes sample_dom collision_free_def)

end
