(* ===== verification/Query.thy ===== *)
theory Query
  imports Documents
begin

text \<open>
  The query language, sort clauses, aggregation requests and results,
  \<^verbatim>\<open>crates/core/src/query.rs\<close> (types). A \<^verbatim>\<open>BoolQuery\<close> is folded into its
  constructor, since it and \<^verbatim>\<open>Query\<close> contain each other.
\<close>

datatype operator = And | Or

record full_text_query =
  ft_field :: string
  ft_query :: string
  ft_operator :: operator

record term_query =
  tq_field :: string
  tq_value :: string

record range_query =
  rq_field :: string
  rq_gte :: "f64 option"
  rq_lte :: "f64 option"

datatype query =
    FullText full_text_query
  | Term term_query
  | Range range_query
  | Bool (must: "query list") (should: "query list") (must_not: "query list")

datatype sort_order = Asc | Desc

record sort_clause =
  sc_field :: string
  sc_order :: sort_order

datatype sort_value = SortNumber f64 | SortText string

record collapse_options =
  co_field :: string

end
