(* ===== verification/Cluster_Router.thy ===== *)
theory Cluster_Router
  imports Hash_Ring Cluster Query
begin

text \<open>
  Routing of documents and queries to nodes (\<^verbatim>\<open>crates/core/src/cluster_router.rs\<close>) and
  the plan of data moves when a node joins (\<^verbatim>\<open>crates/core/src/rebalancer.rs\<close>). The
  digest \<open>h\<close> and the traversal \<open>it\<close> of the node table are parameters.
\<close>

section \<open>Rebalance plans\<close>

record data_move =
  dm_document_id :: document_id
  dm_from_node :: node_id
  dm_to_node :: node_id

record rebalance_plan =
  moves :: "data_move list"

definition plan_empty :: rebalance_plan where
  "plan_empty = \<lparr>moves = []\<rparr>"

definition move_count :: "rebalance_plan \<Rightarrow> nat" where
  "move_count p = length (moves p)"

definition plan_is_empty :: "rebalance_plan \<Rightarrow> bool" where
  "plan_is_empty p \<longleftrightarrow> moves p = []"

definition source_nodes :: "rebalance_plan \<Rightarrow> node_id list" where
  "source_nodes p = remdups_adj (sort_key as_u64 (map dm_from_node (moves p)))"

definition destination_nodes :: "rebalance_plan \<Rightarrow> node_id list" where
  "destination_nodes p = remdups_adj (sort_key as_u64 (map dm_to_node (moves p)))"

datatype rebalance_status = Pending | InProgress | Completed | Failed

section \<open>The router\<close>

record cluster_router =
  cr_ring :: "node_id hash_ring"
  cr_nodes :: "(node_id, node_info) fmap"
  cr_replication_factor :: u8

definition id_str :: "node_id \<Rightarrow> string" where
  "id_str n = dec (unat (as_u64 n))"

definition router_add_node :: "(string \<Rightarrow> u8 list) \<Rightarrow> node_info \<Rightarrow> cluster_router \<Rightarrow> cluster_router" where
  "router_add_node h node r =
     r\<lparr>cr_ring := ring_add_node h (id_str (ni_id node)) (ni_id node) (cr_ring r),
       cr_nodes := fmupd (ni_id node) node (cr_nodes r)\<rparr>"

definition router_new :: "(string \<Rightarrow> u8 list) \<Rightarrow> node_info list \<Rightarrow> u8 \<Rightarrow> cluster_router" where
  "router_new h ns rf =
     (let (ring, node_map) =
        fold (\<lambda>node (ring, node_map).
            (ring_add_node h (id_str (ni_id node)) (ni_id node) ring, fmupd (ni_id node) node node_map))
          ns (ring_new, fmempty)
      in \<lparr>cr_ring = ring, cr_nodes = node_map, cr_replication_factor = rf\<rparr>)"

definition route_document :: "(string \<Rightarrow> u8 list) \<Rightarrow> cluster_router \<Rightarrow> document_id \<Rightarrow> node_id list" where
  "route_document h r d = get_nodes h (cr_ring r) (as_str d) (unat (cr_replication_factor r))"

definition healthy_nodes ::
    "((node_id, node_info) fmap \<Rightarrow> (node_id \<times> node_info) list) \<Rightarrow> cluster_router \<Rightarrow> node_info list" where
  "healthy_nodes it r = filter (\<lambda>n. ni_status n \<noteq> Offline) (map snd (it (cr_nodes r)))"

definition route_query ::
    "(string \<Rightarrow> u8 list) \<Rightarrow> ((node_id, node_info) fmap \<Rightarrow> (node_id \<times> node_info) list) \<Rightarrow>
     cluster_router \<Rightarrow> query \<Rightarrow> node_id list" where
  "route_query h it r q =
     (case q of
        Term t \<Rightarrow>
          if tq_field t = ''_id'' then get_nodes h (cr_ring r) (tq_value t) (unat (cr_replication_factor r))
          else map ni_id (healthy_nodes it r)
      | _ \<Rightarrow> map ni_id (healthy_nodes it r))"

definition router_remove_node :: "(string \<Rightarrow> u8 list) \<Rightarrow> node_id \<Rightarrow> cluster_router \<Rightarrow> cluster_router" where
  "router_remove_node h n r =
     r\<lparr>cr_ring := ring_remove_node h (id_str n) (cr_ring r),
       cr_nodes := (case fmlookup (cr_nodes r) n of
           None \<Rightarrow> cr_nodes r
         | Some info \<Rightarrow> fmupd n (info\<lparr>ni_status := Offline\<rparr>) (cr_nodes r))\<rparr>"

definition probe_key :: "nat \<Rightarrow> string" where
  "probe_key i = ''__rebalance_probe_'' @ dec i"

definition plan_probe ::
    "(string \<Rightarrow> u8 list) \<Rightarrow> node_id hash_ring \<Rightarrow> node_id hash_ring \<Rightarrow> node_id \<Rightarrow> nat \<Rightarrow> data_move list" where
  "plan_probe h old future new i =
     (case (get_primary h old (probe_key i), get_primary h future (probe_key i)) of
        (Some old_id, Some new_id) \<Rightarrow>
          if old_id \<noteq> new_id \<and> new_id = new
          then [\<lparr>dm_document_id = DocumentId (probe_key i), dm_from_node = old_id, dm_to_node = new_id\<rparr>] else []
      | _ \<Rightarrow> [])"

definition rebalance_plan :: "(string \<Rightarrow> u8 list) \<Rightarrow> cluster_router \<Rightarrow> node_info \<Rightarrow> rebalance_plan" where
  "rebalance_plan h r new_node =
     (let future_ring = ring_add_node h (id_str (ni_id new_node)) (ni_id new_node) (cr_ring r)
      in \<lparr>moves = concat (map (plan_probe h (cr_ring r) future_ring (ni_id new_node)) [0..<10000])\<rparr>)"

definition can_satisfy_quorum ::
    "((node_id, node_info) fmap \<Rightarrow> (node_id \<times> node_info) list) \<Rightarrow> cluster_router \<Rightarrow> bool" where
  "can_satisfy_quorum it r \<longleftrightarrow> length (healthy_nodes it r) \<ge> unat (cr_replication_factor r) div 2 + 1"

definition router_node_count :: "cluster_router \<Rightarrow> nat" where
  "router_node_count r = fm_len (cr_nodes r)"

definition router_get_node :: "cluster_router \<Rightarrow> node_id \<Rightarrow> node_info option" where
  "router_get_node r n = fmlookup (cr_nodes r) n"

section \<open>Invariant\<close>

lemma id_str_inject [simp]: "id_str a = id_str b \<longleftrightarrow> a = b"
  by (auto simp: id_str_def word_unat_eq_iff intro: node_id.expand)

text \<open>
  The ring holds known nodes under their own number, the table holds nodes under their own
  identifier, and every node that is not offline is on the ring.
\<close>

definition router_inv :: "(string \<Rightarrow> u8 list) \<Rightarrow> cluster_router \<Rightarrow> bool" where
  "router_inv h r \<longleftrightarrow> ring_good h (cr_ring r) \<and>
     (\<forall>i n. fmlookup (ring_nodes (cr_ring r)) i = Some n \<longrightarrow> i = id_str n \<and> fmlookup (cr_nodes r) n \<noteq> None) \<and>
     (\<forall>n info. fmlookup (cr_nodes r) n = Some info \<longrightarrow> ni_id info = n \<and>
        (ni_status info \<noteq> Offline \<longrightarrow> fmlookup (ring_nodes (cr_ring r)) (id_str n) = Some n))"

text \<open>The nodes a router has been told about stay within a set whose virtual nodes do not collide.\<close>

definition router_within :: "node_id set \<Rightarrow> cluster_router \<Rightarrow> bool" where
  "router_within S r \<longleftrightarrow> (\<forall>i n. fmlookup (ring_nodes (cr_ring r)) i = Some n \<longrightarrow> i \<in> id_str ` S)"

text \<open>The states a router can be in: built from a list of nodes, then changed by joins and removals.\<close>

inductive router_reachable :: "(string \<Rightarrow> u8 list) \<Rightarrow> node_id set \<Rightarrow> cluster_router \<Rightarrow> bool"
  for h S where
  init: "router_reachable h S \<lparr>cr_ring = ring_new, cr_nodes = fmempty, cr_replication_factor = rf\<rparr>"
| add: "router_reachable h S r \<Longrightarrow> ni_id node \<in> S \<Longrightarrow> router_reachable h S (router_add_node h node r)"
| remove: "router_reachable h S r \<Longrightarrow> router_reachable h S (router_remove_node h n r)"

lemma router_new_fold:
  "router_new h ns rf =
     fold (router_add_node h) ns \<lparr>cr_ring = ring_new, cr_nodes = fmempty, cr_replication_factor = rf\<rparr>"
proof -
  have "(let (ring, node_map) =
        fold (\<lambda>node (ring, node_map).
            (ring_add_node h (id_str (ni_id node)) (ni_id node) ring, fmupd (ni_id node) node node_map))
          ns (rg, nm)
      in \<lparr>cr_ring = ring, cr_nodes = node_map, cr_replication_factor = rf\<rparr>) =
    fold (router_add_node h) ns \<lparr>cr_ring = rg, cr_nodes = nm, cr_replication_factor = rf\<rparr>" for rg nm
    by (induction ns arbitrary: rg nm) (simp_all add: router_add_node_def)
  then show ?thesis by (simp add: router_new_def)
qed

lemma router_new_reachable:
  assumes "ni_id ` set ns \<subseteq> S"
  shows "router_reachable h S (router_new h ns rf)"
proof -
  have "router_reachable h S r \<Longrightarrow> router_reachable h S (fold (router_add_node h) ns r)" for r
    using assms by (induction ns arbitrary: r) (auto intro: add)
  then show ?thesis by (simp add: router_new_fold init)
qed

lemma collision_free_subset: "collision_free h S \<Longrightarrow> T \<subseteq> S \<Longrightarrow> collision_free h T"
  unfolding collision_free_def by blast

lemma within_dom: "router_within S r \<Longrightarrow> fmdom' (ring_nodes (cr_ring r)) \<subseteq> id_str ` S"
  by (auto simp: router_within_def fmlookup_dom'_iff)

lemma router_inv_add:
  assumes "router_inv h r" "router_within S r" "collision_free h (id_str ` S)" "ni_id node \<in> S"
  shows "router_inv h (router_add_node h node r) \<and> router_within S (router_add_node h node r)"
proof -
  let ?i = "id_str (ni_id node)"
  have "ring_good h (ring_add_node h ?i (ni_id node) (cr_ring r))"
  proof (rule ring_good_add)
    show "ring_good h (cr_ring r)" using assms(1) by (simp add: router_inv_def)
    show "collision_free h (insert ?i (fmdom' (ring_nodes (cr_ring r))))"
      by (rule collision_free_subset [OF assms(3)]) (use within_dom [OF assms(2)] assms(4) in auto)
    show "\<forall>j. j \<noteq> ?i \<longrightarrow> fmlookup (ring_nodes (cr_ring r)) j \<noteq> Some (ni_id node)"
      using assms(1) by (auto simp: router_inv_def)
  qed
  then show ?thesis
    using assms by (auto simp: router_inv_def router_within_def router_add_node_def ring_lookups split: if_splits)
qed

lemma router_inv_remove:
  assumes "router_inv h r" "router_within S r" "collision_free h (id_str ` S)"
  shows "router_inv h (router_remove_node h n r) \<and> router_within S (router_remove_node h n r)"
proof -
  have "ring_good h (ring_remove_node h (id_str n) (cr_ring r))"
    using assms(1) collision_free_subset [OF assms(3) within_dom [OF assms(2)]]
    by (simp add: router_inv_def ring_good_remove)
  then show ?thesis
    using assms
    by (auto simp: router_inv_def router_within_def router_remove_node_def ring_lookups split: if_splits option.splits)
qed

lemma router_reachable_inv:
  assumes "router_reachable h S r" "collision_free h (id_str ` S)"
  shows "router_inv h r \<and> router_within S r"
  using assms
proof induction
  case (init rf)
  show ?case by (simp add: router_inv_def router_within_def) (simp add: ring_new_def)
qed (use router_inv_add router_inv_remove in blast)+

lemma healthy_set:
  assumes "hash_iter it"
  shows "set (healthy_nodes it r) = {info. \<exists>n. fmlookup (cr_nodes r) n = Some info \<and> ni_status info \<noteq> Offline}"
  using hash_iter_set [OF assms, of "cr_nodes r"] by (force simp: healthy_nodes_def)

lemma healthy_distinct:
  assumes "hash_iter it" "router_inv h r"
  shows "distinct (map ni_id (healthy_nodes it r))"
proof -
  have "map ni_id (map snd (it (cr_nodes r))) = map fst (it (cr_nodes r))"
    using hash_iter_set [OF assms(1), of "cr_nodes r"] assms(2) by (auto simp: router_inv_def)
  then have "distinct (map ni_id (map snd (it (cr_nodes r))))"
    using hash_iterD(1) [OF assms(1)] by metis
  then show ?thesis by (simp add: healthy_nodes_def distinct_map_filter)
qed

lemma healthy_ids:
  assumes "hash_iter it" "router_inv h r"
  shows "set (map ni_id (healthy_nodes it r)) =
    {n. \<exists>info. fmlookup (cr_nodes r) n = Some info \<and> ni_status info \<noteq> Offline}"
  using assms(2) by (auto simp: healthy_set [OF assms(1)] router_inv_def image_iff) blast

section \<open>Properties\<close>

text \<open>
  C16. Whatever joins and removals happened, as long as the virtual nodes of the cluster do not
  collide: the replica set of a document consists of distinct nodes the router knows, its size is
  the replication factor or the number of nodes on the ring, and with at most that many nodes every
  node that is not offline is a replica.
\<close>

theorem route_document_replicas:
  assumes "router_reachable h S r" and "collision_free h (id_str ` S)"
  shows "distinct (route_document h r d) \<and>
    (\<forall>n\<in>set (route_document h r d). router_get_node r n \<noteq> None) \<and>
    length (route_document h r d) = min (ring_node_count (cr_ring r)) (unat (cr_replication_factor r)) \<and>
    (ring_node_count (cr_ring r) \<le> unat (cr_replication_factor r) \<longrightarrow>
      (\<forall>n info. router_get_node r n = Some info \<and> ni_status info \<noteq> Offline \<longrightarrow> n \<in> set (route_document h r d)))"
proof -
  have inv: "router_inv h r" using router_reachable_inv [OF assms] by blast
  then have good: "ring_good h (cr_ring r)" by (simp add: router_inv_def)
  then have card: "card (fmran' (ring_nodes (cr_ring r))) = ring_node_count (cr_ring r)"
    by (simp add: ring_good_def card_ran_nodes ring_node_count_def)
  have mem: "n \<in> fmran' (ring_nodes (cr_ring r)) \<Longrightarrow> router_get_node r n \<noteq> None" for n
    using inv by (force simp: router_inv_def fmlookup_ran'_iff router_get_node_def)
  have all: "ring_node_count (cr_ring r) \<le> unat (cr_replication_factor r) \<Longrightarrow>
      set (route_document h r d) = fmran' (ring_nodes (cr_ring r))"
    unfolding route_document_def using ring_placement.place_all [OF good] card by simp
  have "router_get_node r n = Some info \<Longrightarrow> ni_status info \<noteq> Offline \<Longrightarrow> n \<in> fmran' (ring_nodes (cr_ring r))" for n info
    using inv unfolding router_inv_def router_get_node_def fmlookup_ran'_iff by blast
  moreover have "distinct (route_document h r d)" "set (route_document h r d) \<subseteq> fmran' (ring_nodes (cr_ring r))"
    "length (route_document h r d) = min (ring_node_count (cr_ring r)) (unat (cr_replication_factor r))"
    unfolding route_document_def
    using ring_placement.place_distinct [OF good] ring_placement.place_members [OF good]
      ring_placement.place_length [OF good] card by simp_all
  ultimately show ?thesis using mem all by blast
qed

text \<open>
  The rebalance plan for a joining node lists exactly the sampled keys whose primary changes,
  each from its old primary to the new node, in order and once each.
\<close>

theorem rebalance_plan_exact:
  assumes "router_reachable h S r" and "collision_free h (id_str ` S)"
    and "ni_id new \<in> S" and "fmlookup (ring_nodes (cr_ring r)) (id_str (ni_id new)) = None"
  shows "map dm_document_id (moves (rebalance_plan h r new)) =
      map (\<lambda>i. DocumentId (probe_key i))
        (filter (\<lambda>i. get_primary h (cr_ring r) (probe_key i) \<noteq> None \<and>
           get_primary h (cr_ring (router_add_node h new r)) (probe_key i) \<noteq> get_primary h (cr_ring r) (probe_key i))
          [0..<10000]) \<and>
    (\<forall>m\<in>set (moves (rebalance_plan h r new)). dm_to_node m = ni_id new \<and>
       get_primary h (cr_ring r) (as_str (dm_document_id m)) = Some (dm_from_node m) \<and>
       get_primary h (cr_ring (router_add_node h new r)) (as_str (dm_document_id m)) = Some (ni_id new))"
proof -
  let ?F = "ring_add_node h (id_str (ni_id new)) (ni_id new) (cr_ring r)"
  have inv: "router_inv h r" and within: "router_within S r" using router_reachable_inv [OF assms(1,2)] by auto
  have F: "cr_ring (router_add_node h new r) = ?F" by (simp add: router_add_node_def)
  have new: "ni_id new \<notin> fmran' (ring_nodes (cr_ring r))"
    using inv assms(4) by (auto simp: router_inv_def fmlookup_ran'_iff)
  have cf: "collision_free h (insert (id_str (ni_id new)) (fmdom' (ring_nodes (cr_ring r))))"
    using within_dom [OF within] assms(3) by (intro collision_free_subset [OF assms(2)]) auto
  have prim: "get_primary h ?F k = Some (ni_id new) \<or> get_primary h ?F k = get_primary h (cr_ring r) k" for k
    using primary_after_add [OF _ assms(4) new cf] inv by (simp add: router_inv_def)
  have not_new: "get_primary h (cr_ring r) k \<noteq> Some (ni_id new)" for k
    using new set_get_nodes [of h "cr_ring r" k 1] ran_ring_subset [of h "cr_ring r"] inv
    by (auto simp: get_primary_def router_inv_def ring_good_def split: list.splits)
  have probe: "plan_probe h (cr_ring r) ?F (ni_id new) i =
      (if get_primary h (cr_ring r) (probe_key i) \<noteq> None \<and> get_primary h ?F (probe_key i) \<noteq> get_primary h (cr_ring r) (probe_key i)
       then [\<lparr>dm_document_id = DocumentId (probe_key i),
              dm_from_node = the (get_primary h (cr_ring r) (probe_key i)), dm_to_node = ni_id new\<rparr>] else [])" for i
    using prim [of "probe_key i"] not_new [of "probe_key i"]
    by (auto simp: plan_probe_def split: option.splits)
  have "map dm_document_id (concat (map (plan_probe h (cr_ring r) ?F (ni_id new)) is)) =
      map (\<lambda>i. DocumentId (probe_key i)) (filter (\<lambda>i. get_primary h (cr_ring r) (probe_key i) \<noteq> None \<and>
        get_primary h ?F (probe_key i) \<noteq> get_primary h (cr_ring r) (probe_key i)) is)" for "is"
    by (induction "is") (simp_all add: probe)
  moreover have "\<forall>m\<in>set (concat (map (plan_probe h (cr_ring r) ?F (ni_id new)) is)). dm_to_node m = ni_id new \<and>
       get_primary h (cr_ring r) (as_str (dm_document_id m)) = Some (dm_from_node m) \<and>
       get_primary h ?F (as_str (dm_document_id m)) = Some (ni_id new)" for "is"
    using prim by (auto simp: probe split: if_splits)
  ultimately show ?thesis by (simp add: rebalance_plan_def F del: set_concat)
qed

text \<open>
  A term query on the document id goes to the replicas of that document; every other query
  goes, once each, to exactly the known nodes that are not offline.
\<close>

theorem route_query_targets:
  assumes "router_reachable h S r" and "collision_free h (id_str ` S)" and "hash_iter it"
  shows "route_query h it r (Term \<lparr>tq_field = ''_id'', tq_value = v\<rparr>) = route_document h r (DocumentId v) \<and>
    ((\<nexists>v. q = Term \<lparr>tq_field = ''_id'', tq_value = v\<rparr>) \<longrightarrow>
      distinct (route_query h it r q) \<and>
      set (route_query h it r q) =
        {n. \<exists>info. router_get_node r n = Some info \<and> ni_status info \<noteq> Offline})"
proof -
  have inv: "router_inv h r" using router_reachable_inv [OF assms(1,2)] by blast
  have "route_query h it r q = map ni_id (healthy_nodes it r)" if "\<nexists>v. q = Term \<lparr>tq_field = ''_id'', tq_value = v\<rparr>"
  proof (cases q)
    case (Term t)
    with that show ?thesis by (cases t) (simp add: route_query_def)
  qed (simp_all add: route_query_def)
  then show ?thesis
    using healthy_distinct [OF assms(3) inv] healthy_ids [OF assms(3) inv]
    by (simp add: route_query_def route_document_def router_get_node_def)
qed

section \<open>A concrete cluster\<close>

definition sample_node :: "u64 \<Rightarrow> node_info" where
  "sample_node n = \<lparr>ni_id = NodeId n, ni_address = \<lparr>host = ''localhost'', port = 9300\<rparr>, ni_status = Follower\<rparr>"

definition sample_router :: cluster_router where
  "sample_router = router_new sample_hash [sample_node 1, sample_node 2] 2"

lemma sample_router_facts:
  "router_reachable sample_hash {NodeId 1, NodeId 2, NodeId 3} sample_router"
  "collision_free sample_hash (id_str ` {NodeId 1, NodeId 2, NodeId 3})"
proof -
  show "router_reachable sample_hash {NodeId 1, NodeId 2, NodeId 3} sample_router"
    unfolding sample_router_def by (rule router_new_reachable) (simp add: sample_node_def)
  have "id_str (NodeId 1) = ''1''" "id_str (NodeId 2) = ''2''" "id_str (NodeId 3) = ''3''"
    by (simp_all add: id_str_def) code_simp+
  then show "collision_free sample_hash (id_str ` {NodeId 1, NodeId 2, NodeId 3})"
    by (simp add: collision_free_def sample_positions)
qed

lemma sample_router_ring:
  "fmlookup (ring_nodes (cr_ring sample_router)) i =
     (if i = id_str (NodeId 1) then Some (NodeId 1) else if i = id_str (NodeId 2) then Some (NodeId 2) else None)"
  by (auto simp: sample_router_def router_new_fold router_add_node_def ring_lookups sample_node_def ring_new_def)

theorem route_document_replicas_witness:
  "length (route_document sample_hash sample_router (DocumentId ''doc'')) =
     min (ring_node_count (cr_ring sample_router)) (unat (cr_replication_factor sample_router))"
  using route_document_replicas [OF sample_router_facts, of "DocumentId ''doc''"] by blast

theorem rebalance_plan_exact_witness:
  "list_all (\<lambda>m. dm_to_node m = NodeId 3) (moves (rebalance_plan sample_hash sample_router (sample_node 3)))"
  using rebalance_plan_exact [OF sample_router_facts, of "sample_node 3"]
  by (simp add: sample_router_ring sample_node_def list_all_iff)

theorem route_query_targets_witness:
  "distinct (route_query sample_hash btree_iter sample_router (Range \<lparr>rq_field = ''f'', rq_gte = None, rq_lte = None\<rparr>))"
  using route_query_targets [OF sample_router_facts hash_iter_btree_iter]
  by blast

end
