(* ===== verification/Collections.thy ===== *)
theory Collections
  imports Documents
begin

text \<open>
  Collections, their field mappings, settings and aliases
  (\<^verbatim>\<open>crates/core/src/collection.rs\<close>), and the check of a document against the mapping
  (\<^verbatim>\<open>crates/node/src/handlers/documents.rs\<close>). The traversals of the hash maps are the
  parameter \<open>it\<close>; the results do not depend on it.
\<close>

section \<open>Field mappings\<close>

datatype mapped_field_type = MappedText | MappedNumber | MappedBoolean | MappedArray

fun mapped_field_type_display :: "mapped_field_type \<Rightarrow> string" where
  "mapped_field_type_display MappedText = ''text''"
| "mapped_field_type_display MappedNumber = ''number''"
| "mapped_field_type_display MappedBoolean = ''boolean''"
| "mapped_field_type_display MappedArray = ''array''"

record field_mapping =
  fm_fields :: "(string, mapped_field_type) fmap"

definition field_mapping_new :: field_mapping where
  "field_mapping_new = \<lparr>fm_fields = fmempty\<rparr>"

text \<open>The new mapping and \<^verbatim>\<open>Ok(true)\<close> for a new field, \<^verbatim>\<open>Ok(false)\<close> for a known one.\<close>

definition register_field ::
    "field_mapping \<Rightarrow> string \<Rightarrow> mapped_field_type \<Rightarrow> field_mapping \<times> bool db_result" where
  "register_field m name ft =
     (case fmlookup (fm_fields m) name of
        Some existing \<Rightarrow>
          if existing = ft then (m, Inr False)
          else (m, Inl (SchemaConflict name (mapped_field_type_display existing) (mapped_field_type_display ft)))
      | None \<Rightarrow> (m\<lparr>fm_fields := fmupd name ft (fm_fields m)\<rparr>, Inr True))"

definition get_field_type :: "field_mapping \<Rightarrow> string \<Rightarrow> mapped_field_type option" where
  "get_field_type m name = fmlookup (fm_fields m) name"

definition field_count :: "field_mapping \<Rightarrow> nat" where
  "field_count m = fm_len (fm_fields m)"

text \<open>The loop of \<^verbatim>\<open>merge\<close>: fields registered before a conflict stay registered.\<close>

fun mapping_merge_loop ::
    "(string \<times> mapped_field_type) list \<Rightarrow> field_mapping \<Rightarrow> string list \<Rightarrow> field_mapping \<times> string list db_result" where
  "mapping_merge_loop [] m added = (m, Inr added)"
| "mapping_merge_loop ((name, ft) # es) m added =
     (case register_field m name ft of
        (m', Inl e) \<Rightarrow> (m', Inl e)
      | (m', Inr new) \<Rightarrow> mapping_merge_loop es m' (if new then added @ [name] else added))"

definition mapping_merge ::
    "((string, mapped_field_type) fmap \<Rightarrow> (string \<times> mapped_field_type) list) \<Rightarrow>
     field_mapping \<Rightarrow> field_mapping \<Rightarrow> field_mapping \<times> string list db_result" where
  "mapping_merge it m other = mapping_merge_loop (it (fm_fields other)) m []"

section \<open>Checking a document against a mapping\<close>

fun field_value_to_mapped_type :: "field_value \<Rightarrow> mapped_field_type" where
  "field_value_to_mapped_type (Text _) = MappedText"
| "field_value_to_mapped_type (Number _) = MappedNumber"
| "field_value_to_mapped_type (Boolean _) = MappedBoolean"
| "field_value_to_mapped_type (Array _) = MappedArray"

fun validate_loop :: "(string \<times> field_value) list \<Rightarrow> field_mapping \<Rightarrow> field_mapping db_result" where
  "validate_loop [] updated = Inr updated"
| "validate_loop ((name, value) # es) updated =
     (case register_field updated name (field_value_to_mapped_type value) of
        (_, Inl e) \<Rightarrow> Inl e
      | (updated', Inr _) \<Rightarrow> validate_loop es updated')"

definition validate_and_update_mapping ::
    "((string, field_value) fmap \<Rightarrow> (string \<times> field_value) list) \<Rightarrow>
     document \<Rightarrow> field_mapping \<Rightarrow> field_mapping db_result" where
  "validate_and_update_mapping it doc mapping = validate_loop (it (doc_fields doc)) mapping"

section \<open>Collections\<close>

record collection_settings =
  number_of_shards :: u32
  cset_replication_factor :: u32
  default_analyzer :: string
  field_analyzers :: "(string, string) fmap"
  enable_body_field :: bool

definition collection_settings_default :: collection_settings where
  "collection_settings_default =
     \<lparr>number_of_shards = 1, cset_replication_factor = 1, default_analyzer = ''standard'',
      field_analyzers = fmempty, enable_body_field = True\<rparr>"

record collection =
  col_name :: string
  col_mapping :: field_mapping
  col_settings :: collection_settings
  col_doc_count :: u64
  col_created_at :: u64

text \<open>The current time in seconds is an argument.\<close>

definition collection_new :: "u64 \<Rightarrow> string \<Rightarrow> collection" where
  "collection_new now name =
     \<lparr>col_name = name, col_mapping = field_mapping_new, col_settings = collection_settings_default,
      col_doc_count = 0, col_created_at = now\<rparr>"

definition with_mapping :: "collection \<Rightarrow> field_mapping \<Rightarrow> collection" where
  "with_mapping c m = c\<lparr>col_mapping := m\<rparr>"

definition with_settings :: "collection \<Rightarrow> collection_settings \<Rightarrow> collection" where
  "with_settings c s = c\<lparr>col_settings := s\<rparr>"

definition increment_doc_count :: "collection \<Rightarrow> u64 \<Rightarrow> collection" where
  "increment_doc_count c n = c\<lparr>col_doc_count := col_doc_count c + n\<rparr>"

definition decrement_doc_count :: "collection \<Rightarrow> u64 \<Rightarrow> collection" where
  "decrement_doc_count c n =
     c\<lparr>col_doc_count := (if n \<le> col_doc_count c then col_doc_count c - n else 0)\<rparr>"

definition set_doc_count :: "collection \<Rightarrow> u64 \<Rightarrow> collection" where
  "set_doc_count c n = c\<lparr>col_doc_count := n\<rparr>"

section \<open>Aliases\<close>

record collection_alias =
  alias_name :: string
  alias_collections :: "string list"

definition alias_new :: "string \<Rightarrow> string \<Rightarrow> collection_alias" where
  "alias_new name c = \<lparr>alias_name = name, alias_collections = [c]\<rparr>"

definition alias_new_multi :: "string \<Rightarrow> string list \<Rightarrow> collection_alias" where
  "alias_new_multi name cs = \<lparr>alias_name = name, alias_collections = cs\<rparr>"

definition write_target :: "collection_alias \<Rightarrow> string option" where
  "write_target a = (case alias_collections a of [] \<Rightarrow> None | c # _ \<Rightarrow> Some c)"

definition add_collection :: "collection_alias \<Rightarrow> string \<Rightarrow> collection_alias" where
  "add_collection a c =
     (if c \<in> set (alias_collections a) then a
      else a\<lparr>alias_collections := alias_collections a @ [c]\<rparr>)"

definition remove_collection :: "collection_alias \<Rightarrow> string \<Rightarrow> collection_alias" where
  "remove_collection a c = a\<lparr>alias_collections := filter (\<lambda>d. d \<noteq> c) (alias_collections a)\<rparr>"

definition set_collections :: "collection_alias \<Rightarrow> string list \<Rightarrow> collection_alias" where
  "set_collections a cs = a\<lparr>alias_collections := cs\<rparr>"

definition collection_count :: "collection_alias \<Rightarrow> nat" where
  "collection_count a = length (alias_collections a)"

section \<open>Schema evolution\<close>

text \<open>A mapping that keeps every type another one has recorded.\<close>

definition mapping_extends :: "field_mapping \<Rightarrow> field_mapping \<Rightarrow> bool" where
  "mapping_extends m' m \<longleftrightarrow> (\<forall>n t. get_field_type m n = Some t \<longrightarrow> get_field_type m' n = Some t)"

text \<open>No recorded type differs from an incoming one.\<close>

definition compatible :: "(string \<rightharpoonup> mapped_field_type) \<Rightarrow> field_mapping \<Rightarrow> bool" where
  "compatible new m \<longleftrightarrow> (\<forall>n s t. new n = Some s \<longrightarrow> get_field_type m n = Some t \<longrightarrow> s = t)"

lemma mapping_extends_refl [simp]: "mapping_extends m m"
  by (simp add: mapping_extends_def)

lemma mapping_extends_trans: "mapping_extends a b \<Longrightarrow> mapping_extends b c \<Longrightarrow> mapping_extends a c"
  by (simp add: mapping_extends_def)

lemma register_field_Inr:
  "register_field m n t = (m', Inr new) \<longleftrightarrow>
     (if get_field_type m n = None then new \<and> m' = m\<lparr>fm_fields := fmupd n t (fm_fields m)\<rparr>
      else \<not> new \<and> m' = m \<and> get_field_type m n = Some t)"
  by (auto simp: register_field_def get_field_type_def split: option.splits)

lemma register_field_Inl:
  "register_field m n t = (m', Inl e) \<longleftrightarrow>
     (\<exists>s. get_field_type m n = Some s \<and> s \<noteq> t \<and> m' = m \<and>
        e = SchemaConflict n (mapped_field_type_display s) (mapped_field_type_display t))"
  by (auto simp: register_field_def get_field_type_def split: option.splits)

lemma register_field_extends: "mapping_extends (fst (register_field m n t)) m"
  by (auto simp: register_field_def mapping_extends_def get_field_type_def split: option.splits)

lemma get_field_type_upd [simp]:
  "get_field_type (m\<lparr>fm_fields := fmupd n t (fm_fields m)\<rparr>) k = (if k = n then Some t else get_field_type m k)"
  by (simp add: get_field_type_def)

lemma field_mapping_eqI: "(\<And>n. get_field_type m n = get_field_type m' n) \<Longrightarrow> (m :: field_mapping) = m'"
  by (cases m; cases m') (auto simp: get_field_type_def intro: fmap_ext)

text \<open>Both loops register the entries of a list of typed names with distinct names.\<close>

lemma mapping_merge_loop_Inr:
  assumes "distinct (map fst es)" "compatible (map_of es) m"
  shows "\<exists>m'. mapping_merge_loop es m added =
      (m', Inr (added @ map fst (filter (\<lambda>(n, t). get_field_type m n = None) es))) \<and>
    get_field_type m' = get_field_type m ++ map_of es"
  using assms
proof (induction es arbitrary: m added)
  case (Cons e es)
  obtain n t where e: "e = (n, t)" by (cases e)
  have new: "map_of es n = None" using Cons.prems(1) e by (simp add: map_of_eq_None_iff)
  let ?a = "if get_field_type m n = None then added @ [n] else added"
  obtain m1 where reg: "register_field m n t = (m1, Inr (get_field_type m n = None))"
    and get: "get_field_type m1 = (get_field_type m)(n \<mapsto> t)"
  proof (cases "get_field_type m n")
    case None
    then show ?thesis
      by (intro that [of "m\<lparr>fm_fields := fmupd n t (fm_fields m)\<rparr>"]) (auto simp: register_field_Inr fun_eq_iff)
  next
    case (Some s)
    then have "s = t" using Cons.prems(2) [unfolded compatible_def, rule_format, of n t s] e by simp
    with Some show ?thesis by (intro that [of m]) (auto simp: register_field_Inr fun_eq_iff)
  qed
  have "compatible (map_of es) m1"
    using Cons.prems(2) new e by (auto simp: get compatible_def split: if_splits)
  with Cons.IH [of m1 ?a] Cons.prems(1) e obtain m' where m':
    "mapping_merge_loop es m1 ?a = (m', Inr (?a @ map fst (filter (\<lambda>(n, t). get_field_type m1 n = None) es)))"
    "get_field_type m' = get_field_type m1 ++ map_of es" by auto
  have "filter (\<lambda>(k, _). get_field_type m1 k = None) es = filter (\<lambda>(k, _). get_field_type m k = None) es"
    using Cons.prems(1) e by (intro filter_cong) (auto simp: get image_iff)
  moreover have "get_field_type m1 ++ map_of es = get_field_type m ++ map_of (e # es)"
    using new e by (auto simp: get fun_eq_iff map_add_def split: option.splits)
  moreover have "mapping_merge_loop (e # es) m added = mapping_merge_loop es m1 ?a" using e reg by simp
  ultimately show ?case using m' e by (intro exI [of _ m'] conjI) (simp_all only:, simp)
qed simp

lemma mapping_merge_loop_Inl:
  assumes "distinct (map fst es)" "\<not> compatible (map_of es) m"
  shows "\<exists>m' n s t. mapping_merge_loop es m added =
      (m', Inl (SchemaConflict n (mapped_field_type_display s) (mapped_field_type_display t))) \<and>
    get_field_type m n = Some s \<and> map_of es n = Some t \<and> s \<noteq> t \<and> mapping_extends m' m"
  using assms
proof (induction es arbitrary: m added)
  case (Cons e es)
  obtain n t where e: "e = (n, t)" by (cases e)
  have new: "map_of es n = None" using Cons.prems(1) e by (simp add: map_of_eq_None_iff)
  obtain m1 res where reg: "register_field m n t = (m1, res)" by fastforce
  show ?case
  proof (cases res)
    case (Inl err)
    with reg obtain s where "get_field_type m n = Some s" "s \<noteq> t" "register_field m n t =
        (m, Inl (SchemaConflict n (mapped_field_type_display s) (mapped_field_type_display t)))"
      by (auto simp: register_field_Inl)
    then show ?thesis
      using e by (intro exI [of _ m] exI [of _ n] exI [of _ s] exI [of _ t]) simp
  next
    case (Inr b)
    let ?a = "if b then added @ [n] else added"
    have get: "get_field_type m1 = (get_field_type m)(n \<mapsto> t)"
      using reg Inr by (auto simp: register_field_Inr fun_eq_iff split: if_splits)
    have "\<not> compatible (map_of es) m1"
      using Cons.prems(2) new e reg Inr by (auto simp: get compatible_def register_field_Inr split: if_splits)
    from Cons.IH [OF _ this, of ?a] Cons.prems(1) e obtain m' k s u where
      IH: "mapping_merge_loop es m1 ?a =
          (m', Inl (SchemaConflict k (mapped_field_type_display s) (mapped_field_type_display u)))"
        "get_field_type m1 k = Some s" "map_of es k = Some u" "s \<noteq> u" "mapping_extends m' m1" by auto
    have "mapping_extends m' m"
      using IH(5) mapping_extends_trans register_field_extends [of m n t] reg by auto
    moreover have "k \<noteq> n" using new IH(3) by auto
    moreover have "mapping_merge_loop (e # es) m added = mapping_merge_loop es m1 ?a" using e reg Inr by simp
    ultimately show ?thesis
      using IH e by (intro exI [of _ m'] exI [of _ k] exI [of _ s] exI [of _ u]) (simp add: get)
  qed
qed (simp add: compatible_def)

lemma validate_loop_merge:
  "validate_loop es m =
     (case mapping_merge_loop (map (\<lambda>(n, v). (n, field_value_to_mapped_type v)) es) m added of
        (m', Inl e) \<Rightarrow> Inl e | (m', Inr _) \<Rightarrow> Inr m')"
proof (induction es arbitrary: m added)
  case (Cons e es)
  obtain n v where e: "e = (n, v)" by (cases e)
  obtain m' res where r: "register_field m n (field_value_to_mapped_type v) = (m', res)" by fastforce
  show ?case
  proof (cases res)
    case (Inr b)
    then show ?thesis using Cons.IH [of m' "if b then added @ [n] else added"] e r by simp
  qed (use e r in simp)
qed simp

text \<open>The types a document asks for.\<close>

definition doc_types :: "document \<Rightarrow> string \<rightharpoonup> mapped_field_type" where
  "doc_types d n = map_option field_value_to_mapped_type (get_field d n)"

lemma doc_types_entries:
  assumes "hash_iter it"
  shows "map_of (map (\<lambda>(n, v). (n, field_value_to_mapped_type v)) (it (doc_fields d))) = doc_types d"
    and "distinct (map fst (map (\<lambda>(n, v). (n, field_value_to_mapped_type v)) (it (doc_fields d))))"
proof -
  show "map_of (map (\<lambda>(n, v). (n, field_value_to_mapped_type v)) (it (doc_fields d))) = doc_types d"
    using hash_iterD(2) [OF assms] by (simp add: map_of_map doc_types_def get_field_def fun_eq_iff)
  show "distinct (map fst (map (\<lambda>(n, v). (n, field_value_to_mapped_type v)) (it (doc_fields d))))"
    using hash_iterD(1) [OF assms, of "doc_fields d"] by (simp add: o_def case_prod_unfold)
qed

section \<open>Properties\<close>

text \<open>
  C38. A document is accepted exactly when none of its fields has a type other than the recorded
  one, whatever the traversal order of its fields; the new mapping then adds precisely the types of
  the document's fields and changes no recorded type. Otherwise the error names a field of the
  document with its recorded and its incoming type.
\<close>

theorem validate_and_update_mapping_exact:
  assumes "hash_iter it"
  shows "if compatible (doc_types d) m
    then \<exists>m'. validate_and_update_mapping it d m = Inr m' \<and>
           get_field_type m' = get_field_type m ++ doc_types d \<and> mapping_extends m' m
    else \<exists>n s t. validate_and_update_mapping it d m =
             Inl (SchemaConflict n (mapped_field_type_display s) (mapped_field_type_display t)) \<and>
           get_field_type m n = Some s \<and> doc_types d n = Some t \<and> s \<noteq> t"
proof -
  let ?es = "map (\<lambda>(n, v). (n, field_value_to_mapped_type v)) (it (doc_fields d))"
  note es = doc_types_entries [OF assms, of d]
  note step = validate_loop_merge [of "it (doc_fields d)" m "[]"]
  show ?thesis
  proof (cases "compatible (doc_types d) m")
    case True
    then obtain m' xs where m': "mapping_merge_loop ?es m [] = (m', Inr xs)"
      "get_field_type m' = get_field_type m ++ doc_types d"
      using mapping_merge_loop_Inr [OF es(2), of m "[]"] es(1) by auto
    have "mapping_extends m' m"
      using True by (auto simp: m'(2) mapping_extends_def compatible_def map_add_def split: option.splits)
    with True m' step show ?thesis by (simp add: validate_and_update_mapping_def)
  next
    case False
    then obtain m' n s t where "mapping_merge_loop ?es m [] =
        (m', Inl (SchemaConflict n (mapped_field_type_display s) (mapped_field_type_display t)))"
      "get_field_type m n = Some s" "doc_types d n = Some t" "s \<noteq> t"
      using mapping_merge_loop_Inl [OF es(2), of m "[]"] es(1) by auto
    with False step show ?thesis by (auto simp: validate_and_update_mapping_def)
  qed
qed

theorem validate_and_update_mapping_exact_witness:
  "\<exists>m'. validate_and_update_mapping btree_iter (with_field (doc_new (DocumentId ''d'')) ''title'' (Text ''x''))
      field_mapping_new = Inr m' \<and> get_field_type m' ''title'' = Some MappedText"
proof -
  let ?d = "with_field (doc_new (DocumentId ''d'')) ''title'' (Text ''x'')"
  have "compatible (doc_types ?d) field_mapping_new"
    by (simp add: compatible_def field_mapping_new_def get_field_type_def)
  moreover have "doc_types ?d ''title'' = Some MappedText" by (simp add: doc_types_def)
  ultimately show ?thesis
    using validate_and_update_mapping_exact [OF hash_iter_btree_iter, of ?d field_mapping_new] by auto
qed

text \<open>
  Merging two mappings succeeds exactly when they agree on their common fields; then the result
  has the fields of both and the returned names are exactly the added ones. A failed merge keeps
  every recorded type but may have added fields.
\<close>

theorem mapping_merge_exact:
  assumes "hash_iter it"
  shows "if compatible (get_field_type other) m
    then \<exists>m' added. mapping_merge it m other = (m', Inr added) \<and>
           get_field_type m' = get_field_type m ++ get_field_type other \<and> distinct added \<and>
           set added = {n. get_field_type m n = None \<and> get_field_type other n \<noteq> None}
    else \<exists>m' n s t. mapping_merge it m other =
             (m', Inl (SchemaConflict n (mapped_field_type_display s) (mapped_field_type_display t))) \<and>
           get_field_type m n = Some s \<and> get_field_type other n = Some t \<and> s \<noteq> t \<and> mapping_extends m' m"
proof -
  let ?es = "it (fm_fields other)"
  have es: "map_of ?es = get_field_type other" "distinct (map fst ?es)"
    using hash_iterD [OF assms] by (auto simp: get_field_type_def fun_eq_iff)
  have "set (map fst (filter (\<lambda>(n, t). get_field_type m n = None) ?es)) =
      {n. get_field_type m n = None \<and> get_field_type other n \<noteq> None}"
    using hash_iter_set [OF assms, of "fm_fields other"] by (force simp: get_field_type_def)
  moreover have "distinct (map fst (filter (\<lambda>(n, t). get_field_type m n = None) ?es))"
    using es(2) by (simp add: distinct_map_filter)
  ultimately show ?thesis
    using mapping_merge_loop_Inr [OF es(2), of m "[]"] mapping_merge_loop_Inl [OF es(2), of m "[]"]
    by (auto simp: es(1) mapping_merge_def)
qed

theorem mapping_merge_exact_witness:
  "\<exists>m' added. mapping_merge btree_iter field_mapping_new \<lparr>fm_fields = fmupd ''n'' MappedNumber fmempty\<rparr> = (m', Inr added) \<and>
     set added = {''n''}"
proof -
  let ?o = "\<lparr>fm_fields = fmupd ''n'' MappedNumber fmempty\<rparr>"
  have "compatible (get_field_type ?o) field_mapping_new"
    by (simp add: compatible_def field_mapping_new_def get_field_type_def)
  moreover have "{n. get_field_type field_mapping_new n = None \<and> get_field_type ?o n \<noteq> None} = {''n''}"
    by (auto simp: get_field_type_def field_mapping_new_def split: if_splits)
  ultimately show ?thesis
    using mapping_merge_exact [OF hash_iter_btree_iter, of ?o field_mapping_new] by auto
qed

end
