(* ===== verification/Session.thy ===== *)
theory Session
  imports Errors
begin

text \<open>
  Read-your-writes sessions, \<^verbatim>\<open>crates/node/src/session.rs\<close>: the session token and its
  text form, the applied index of the node, and the wait of a reader for it. The atomic counter is
  read by a waiting task while other tasks advance it, so the values the wait loop loads and the
  times it sees are functions of the number of the iteration.
\<close>

section \<open>Tokens\<close>

record session_token =
  committed_index :: u64

definition token_new :: "u64 \<Rightarrow> session_token" where
  "token_new i = \<lparr>committed_index = i\<rparr>"

definition token_encode :: "session_token \<Rightarrow> string" where
  "token_encode t = ''msearchdb:'' @ dec (unat (committed_index t))"

definition token_decode :: "string \<Rightarrow> session_token option" where
  "token_decode s =
     (case strip_prefix ''msearchdb:'' s of
        None \<Rightarrow> None
      | Some rest \<Rightarrow> (case parse_u64 rest of None \<Rightarrow> None | Some i \<Rightarrow> Some \<lparr>committed_index = i\<rparr>))"

section \<open>The session manager\<close>

record session_manager =
  applied_index :: u64

definition session_manager_new :: session_manager where
  "session_manager_new = \<lparr>applied_index = 0\<rparr>"

definition advance_applied_index :: "session_manager \<Rightarrow> u64 \<Rightarrow> session_manager" where
  "advance_applied_index m i = m\<lparr>applied_index := max (applied_index m) i\<rparr>"

definition current_applied_index :: "session_manager \<Rightarrow> u64" where
  "current_applied_index m = applied_index m"

definition token_for_write :: "session_manager \<Rightarrow> u64 \<Rightarrow> session_manager \<times> session_token" where
  "token_for_write m i = (advance_applied_index m i, token_new i)"

text \<open>\<^verbatim>\<open>MAX_WAIT\<close> in milliseconds.\<close>

definition MAX_WAIT :: nat where
  "MAX_WAIT = 5000"

text \<open>
  The poll loop from iteration \<open>n\<close> on: \<open>load\<close> and \<open>load_msg\<close> are the values of the counter at the
  test and, for the message, after the timeout; \<open>clock\<close> is the time at the deadline test.
\<close>

partial_function (option) wait_loop ::
    "(nat \<Rightarrow> u64) \<Rightarrow> (nat \<Rightarrow> u64) \<Rightarrow> (nat \<Rightarrow> nat) \<Rightarrow> nat \<Rightarrow> u64 \<Rightarrow> nat \<Rightarrow> unit db_result option" where
  "wait_loop load load_msg clock deadline target n =
     (if load n \<ge> target then Some (Inr ())
      else if clock n \<ge> deadline then
        Some (Inl (ConsistencyError (''timed out waiting for applied index '' @ dec (unat target) @
          '' (current: '' @ dec (unat (load_msg n)) @ '')'')))
      else wait_loop load load_msg clock deadline target (Suc n))"

text \<open>The fast path loads the counter at time \<open>start\<close>.\<close>

definition wait_for_index ::
    "u64 \<Rightarrow> nat \<Rightarrow> (nat \<Rightarrow> u64) \<Rightarrow> (nat \<Rightarrow> u64) \<Rightarrow> (nat \<Rightarrow> nat) \<Rightarrow> u64 \<Rightarrow> unit db_result option" where
  "wait_for_index first start load load_msg clock target =
     (if first \<ge> target then Some (Inr ())
      else wait_loop load load_msg clock (start + MAX_WAIT) target 0)"

section \<open>Lemmas\<close>

lemma max_applied_index_fold:
  "applied_index (fold (\<lambda>i m. advance_applied_index m i) is m) = fold (\<lambda>i a. max a i) is (applied_index m)"
  by (induction "is" arbitrary: m) (simp_all add: advance_applied_index_def)

lemma fold_max_mono: "(a :: 'a::linorder) \<le> fold (\<lambda>i a. max a i) is a"
  by (induction "is" arbitrary: a) (auto intro: order_trans [OF max.cobounded1])

lemma fold_max_mem: "i \<in> set is \<Longrightarrow> (i :: 'a::linorder) \<le> fold (\<lambda>i a. max a i) is a"
  by (induction "is" arbitrary: a) (auto intro: order_trans [OF max.cobounded2 fold_max_mono])

text \<open>The loop stops at the first iteration that sees the target or the deadline.\<close>

lemma wait_loop_at:
  assumes "n \<le> k" "load k \<ge> target \<or> clock k \<ge> deadline"
    and "\<And>j. n \<le> j \<Longrightarrow> j < k \<Longrightarrow> load j < target \<and> clock j < deadline"
  shows "\<exists>r. wait_loop load load_msg clock deadline target n = Some r \<and> (r = Inr () \<longleftrightarrow> load k \<ge> target)"
  using assms
proof (induction "k - n" arbitrary: n)
  case 0
  then show ?case by (subst wait_loop.simps) auto
next
  case (Suc x)
  from Suc.hyps(2) have "n < k" by simp
  then have "load n < target" "clock n < deadline" using Suc.prems(3) [of n] by auto
  moreover have "\<exists>r. wait_loop load load_msg clock deadline target (Suc n) = Some r \<and> (r = Inr () \<longleftrightarrow> load k \<ge> target)"
    using Suc.hyps \<open>n < k\<close> Suc.prems(2,3) by (intro Suc.hyps(1)) auto
  ultimately show ?case by (subst wait_loop.simps) (auto simp: not_le)
qed

section \<open>Properties\<close>

text \<open>
  A session token survives its text form: decoding an encoded token gives it back, and a string
  that decodes starts with the prefix of the encoding.
\<close>

theorem session_token_roundtrip:
  "token_decode (token_encode t) = Some t \<and>
   (token_decode s = Some u \<longrightarrow> (\<exists>ds. s = ''msearchdb:'' @ ds \<and> parse_u64 ds = Some (committed_index u)))"
proof
  show "token_decode (token_encode t) = Some t"
    by (simp add: token_decode_def token_encode_def strip_prefix_def) 
  show "token_decode s = Some u \<longrightarrow> (\<exists>ds. s = ''msearchdb:'' @ ds \<and> parse_u64 ds = Some (committed_index u))"
    by (auto simp: token_decode_def strip_prefix_eq_Some split: option.splits)
qed

theorem session_token_roundtrip_witness:
  "token_decode (token_encode (token_new 42)) = Some (token_new 42)"
  using session_token_roundtrip [of "token_new 42"] by blast

text \<open>
  C40. The wait always ends once the clock has passed the five-second deadline, and it succeeds
  exactly when the counter was seen at the target before the first sight of the deadline.
\<close>

theorem wait_for_index_terminates:
  assumes "clock d \<ge> start + MAX_WAIT"
  shows "\<exists>r. wait_for_index first start load load_msg clock target = Some r \<and>
    (r = Inr () \<longleftrightarrow> first \<ge> target \<or>
       (\<exists>k. load k \<ge> target \<and> (\<forall>j<k. clock j < start + MAX_WAIT)))"
proof (cases "first \<ge> target")
  case False
  let ?stop = "\<lambda>k. load k \<ge> target \<or> clock k \<ge> start + MAX_WAIT"
  define k where "k = (LEAST k. ?stop k)"
  have k1: "?stop k" unfolding k_def by (rule LeastI [of ?stop d]) (use assms in simp)
  have k2: "\<not> ?stop j" if "j < k" for j using that not_less_Least [of j ?stop] unfolding k_def by blast
  note k = k1 k2
  obtain r where r: "wait_loop load load_msg clock (start + MAX_WAIT) target 0 = Some r"
    "r = Inr () \<longleftrightarrow> load k \<ge> target"
    using wait_loop_at [where n = 0 and k = k and load = load and target = target and clock = clock
        and deadline = "start + MAX_WAIT" and load_msg = load_msg] k by (auto simp: not_le)
  have "load k \<ge> target \<longleftrightarrow> (\<exists>k. load k \<ge> target \<and> (\<forall>j<k. clock j < start + MAX_WAIT))"
    using k by (metis linorder_neqE_nat not_le)
  then show ?thesis using r False by (auto simp: wait_for_index_def)
qed (simp add: wait_for_index_def)

theorem wait_for_index_terminates_witness:
  "\<exists>r. wait_for_index 0 0 (\<lambda>n. word_of_nat n) (\<lambda>n. 0) (\<lambda>n. n) 3 = Some r \<and> r = Inr ()"
proof -
  have "\<exists>k. 3 \<le> (word_of_nat k :: u64) \<and> (\<forall>j<k. j < 0 + MAX_WAIT)"
    by (rule exI [of _ 3]) (simp add: MAX_WAIT_def)
  moreover obtain r where "wait_for_index 0 0 (\<lambda>n. word_of_nat n) (\<lambda>n. 0) (\<lambda>n. n) 3 = Some r"
    "r = Inr () \<longleftrightarrow> (3 :: u64) \<le> 0 \<or> (\<exists>k. 3 \<le> (word_of_nat k :: u64) \<and> (\<forall>j<k. j < 0 + MAX_WAIT))"
    using wait_for_index_terminates [where start = 0 and clock = "\<lambda>n. n" and d = MAX_WAIT and
        first = 0 and load = "\<lambda>n. word_of_nat n" and load_msg = "\<lambda>n. 0" and target = 3] by auto
  ultimately show ?thesis by blast
qed

text \<open>
  The applied index never goes back and is at least every index it was advanced to, whatever
  the order of the writers; so a token handed out for a write is already covered.
\<close>

theorem applied_index_monotone:
  "applied_index m \<le> applied_index (fold (\<lambda>i m. advance_applied_index m i) is m) \<and>
   set is \<subseteq> {i. i \<le> applied_index (fold (\<lambda>i m. advance_applied_index m i) is m)} \<and>
   committed_index (snd (token_for_write m i)) \<le> current_applied_index (fst (token_for_write m i))"
proof (intro conjI subsetI CollectI)
  show "committed_index (snd (token_for_write m i)) \<le> current_applied_index (fst (token_for_write m i))"
    by (simp add: token_for_write_def advance_applied_index_def current_applied_index_def token_new_def)
qed (simp_all add: max_applied_index_fold fold_max_mono fold_max_mem)

end
