(* ===== verification/Connection_Pool.thy ===== *)
theory Connection_Pool
  imports Cluster Errors
begin

text \<open>
  The per-node circuit breaker and the pool of connections,
  \<^verbatim>\<open>crates/network/src/connection_pool.rs\<close>. Times and durations are milliseconds of the
  monotonic clock; the current time is an argument. Opening a connection
  (\<^verbatim>\<open>NodeClient::connect\<close>, gRPC) is the parameter \<open>connect\<close>.
\<close>

section \<open>Circuit breaker\<close>

datatype circuit_state = Closed | Open | HalfOpen

record circuit_breaker =
  cb_state :: circuit_state
  consecutive_failures :: u32
  failure_threshold :: u32
  last_failure_time :: "nat option"
  open_duration :: nat

definition breaker_new :: "u32 \<Rightarrow> nat \<Rightarrow> circuit_breaker" where
  "breaker_new threshold duration =
     \<lparr>cb_state = Closed, consecutive_failures = 0, failure_threshold = threshold,
      last_failure_time = None, open_duration = duration\<rparr>"

definition default_breaker :: circuit_breaker where
  "default_breaker = breaker_new 3 30000"

definition breaker_state :: "circuit_breaker \<Rightarrow> nat \<Rightarrow> circuit_state" where
  "breaker_state b now =
     (case cb_state b of
        Open \<Rightarrow>
          (case last_failure_time b of
             Some lst \<Rightarrow> if now - lst \<ge> open_duration b then HalfOpen else Open
           | None \<Rightarrow> Open)
      | other \<Rightarrow> other)"

definition allow_request :: "circuit_breaker \<Rightarrow> nat \<Rightarrow> bool" where
  "allow_request b now =
     (case breaker_state b now of Closed \<Rightarrow> True | HalfOpen \<Rightarrow> True | Open \<Rightarrow> False)"

definition breaker_record_success :: "circuit_breaker \<Rightarrow> circuit_breaker" where
  "breaker_record_success b =
     b\<lparr>consecutive_failures := 0, cb_state := Closed, last_failure_time := None\<rparr>"

definition breaker_record_failure :: "circuit_breaker \<Rightarrow> nat \<Rightarrow> circuit_breaker" where
  "breaker_record_failure b now =
     (let b1 = b\<lparr>consecutive_failures := consecutive_failures b + 1, last_failure_time := Some now\<rparr> in
      if consecutive_failures b1 \<ge> failure_threshold b1 then b1\<lparr>cb_state := Open\<rparr> else b1)"

section \<open>Pool\<close>

record 'c pool_entry =
  pe_client :: 'c
  pe_breaker :: circuit_breaker

record pool_config =
  max_connections_per_node :: nat
  pc_failure_threshold :: u32
  pc_open_duration :: nat

definition pool_config_default :: pool_config where
  "pool_config_default =
     \<lparr>max_connections_per_node = 10, pc_failure_threshold = 3, pc_open_duration = 30000\<rparr>"

record 'c connection_pool =
  entries :: "(u64, 'c pool_entry) fmap"
  pool_config :: pool_config

definition pool_with_config :: "pool_config \<Rightarrow> 'c connection_pool" where
  "pool_with_config c = \<lparr>entries = fmempty, pool_config = c\<rparr>"

definition pool_new :: "'c connection_pool" where
  "pool_new = pool_with_config pool_config_default"

definition pool_insert :: "'c connection_pool \<Rightarrow> node_id \<Rightarrow> 'c \<Rightarrow> 'c connection_pool" where
  "pool_insert p n client =
     (let breaker = breaker_new (pc_failure_threshold (pool_config p)) (pc_open_duration (pool_config p))
      in p\<lparr>entries := fmupd (as_u64 n) \<lparr>pe_client = client, pe_breaker = breaker\<rparr> (entries p)\<rparr>)"

definition pool_get ::
    "(node_address \<Rightarrow> 'c db_result) \<Rightarrow> 'c connection_pool \<Rightarrow> nat \<Rightarrow> node_id \<Rightarrow> node_address \<Rightarrow>
     'c connection_pool \<times> 'c db_result" where
  "pool_get connect p now n addr =
     (case fmlookup (entries p) (as_u64 n) of
        Some entry \<Rightarrow>
          if allow_request (pe_breaker entry) now then (p, Inr (pe_client entry))
          else (p, Inl (NetworkError (''circuit breaker open for node '' @ node_id_display n)))
      | None \<Rightarrow>
          (case connect addr of
             Inl e \<Rightarrow> (p, Inl e)
           | Inr client \<Rightarrow>
               (let breaker = breaker_new (pc_failure_threshold (pool_config p)) (pc_open_duration (pool_config p))
                in (p\<lparr>entries := fmupd (as_u64 n) \<lparr>pe_client = client, pe_breaker = breaker\<rparr> (entries p)\<rparr>,
                    Inr client))))"

definition pool_record_success :: "'c connection_pool \<Rightarrow> node_id \<Rightarrow> 'c connection_pool" where
  "pool_record_success p n =
     (case fmlookup (entries p) (as_u64 n) of
        None \<Rightarrow> p
      | Some e \<Rightarrow> p\<lparr>entries := fmupd (as_u64 n) (e\<lparr>pe_breaker := breaker_record_success (pe_breaker e)\<rparr>) (entries p)\<rparr>)"

definition pool_record_failure :: "'c connection_pool \<Rightarrow> nat \<Rightarrow> node_id \<Rightarrow> 'c connection_pool" where
  "pool_record_failure p now n =
     (case fmlookup (entries p) (as_u64 n) of
        None \<Rightarrow> p
      | Some e \<Rightarrow> p\<lparr>entries := fmupd (as_u64 n) (e\<lparr>pe_breaker := breaker_record_failure (pe_breaker e) now\<rparr>) (entries p)\<rparr>)"

definition pool_remove :: "'c connection_pool \<Rightarrow> node_id \<Rightarrow> 'c connection_pool" where
  "pool_remove p n = p\<lparr>entries := fmdrop (as_u64 n) (entries p)\<rparr>"

definition pool_circuit_state :: "'c connection_pool \<Rightarrow> nat \<Rightarrow> node_id \<Rightarrow> circuit_state option" where
  "pool_circuit_state p now n =
     map_option (\<lambda>e. breaker_state (pe_breaker e) now) (fmlookup (entries p) (as_u64 n))"

definition pool_len :: "'c connection_pool \<Rightarrow> nat" where
  "pool_len p = fm_len (entries p)"

section \<open>Histories of one connection\<close>

text \<open>The outcomes recorded for a node since its connection was opened.\<close>

datatype rpc_outcome = RpcOk | RpcFailed nat

fun breaker_step :: "rpc_outcome \<Rightarrow> circuit_breaker \<Rightarrow> circuit_breaker" where
  "breaker_step RpcOk b = breaker_record_success b"
| "breaker_step (RpcFailed t) b = breaker_record_failure b t"

text \<open>The times of the failures since the last success, the latest first.\<close>

fun trailing_failures :: "rpc_outcome list \<Rightarrow> nat list \<Rightarrow> nat list" where
  "trailing_failures [] acc = acc"
| "trailing_failures (RpcOk # es) acc = trailing_failures es []"
| "trailing_failures (RpcFailed t # es) acc = trailing_failures es (t # acc)"

text \<open>What a breaker with a positive threshold looks like after a run of failures.\<close>

definition breaker_after :: "u32 \<Rightarrow> nat \<Rightarrow> nat list \<Rightarrow> circuit_breaker" where
  "breaker_after threshold duration ts =
     \<lparr>cb_state = (if unat threshold \<le> length ts then Open else Closed),
      consecutive_failures = word_of_nat (length ts), failure_threshold = threshold,
      last_failure_time = (case ts of [] \<Rightarrow> None | t # _ \<Rightarrow> Some t), open_duration = duration\<rparr>"

lemma breaker_new_after: "0 < threshold \<Longrightarrow> breaker_new threshold duration = breaker_after threshold duration []"
  by (simp add: breaker_new_def breaker_after_def word_less_nat_alt)

lemma record_success_after:
  "0 < threshold \<Longrightarrow> breaker_record_success (breaker_after threshold duration ts) = breaker_after threshold duration []"
  by (simp add: breaker_record_success_def breaker_after_def word_less_nat_alt)

lemma record_failure_after:
  assumes "length ts + 1 < 2 ^ 32"
  shows "breaker_record_failure (breaker_after threshold duration ts) t = breaker_after threshold duration (t # ts)"
proof -
  have "unat (word_of_nat (length ts) + 1 :: u32) = length ts + 1"
    using assms by (subst unat_add_small) (simp_all add: unat_of_nat_small)
  then show ?thesis
    by (auto simp: breaker_record_failure_def breaker_after_def word_le_nat_alt add.commute)
qed

lemma trailing_mono: "length (trailing_failures es acc) \<le> length es + length acc"
  by (induction es acc rule: trailing_failures.induct) auto

lemma breaker_run_after:
  assumes "0 < threshold" "length es + length ts < 2 ^ 32"
  shows "fold breaker_step es (breaker_after threshold duration ts) =
    breaker_after threshold duration (trailing_failures es ts)"
  using assms(2)
  by (induction es ts rule: trailing_failures.induct)
    (simp_all add: record_success_after [OF assms(1)] record_failure_after)

lemma breaker_state_after:
  "0 < threshold \<Longrightarrow> breaker_state (breaker_after threshold duration ts) now =
     (if length ts < unat threshold then Closed
      else if now - hd ts \<ge> duration then HalfOpen else Open)"
  by (cases ts) (auto simp: breaker_state_def breaker_after_def word_less_nat_alt)

section \<open>Properties\<close>

text \<open>
  C26. After any recorded history of a connection (of fewer than \<open>2 ^ 32\<close> outcomes) the breaker is
  closed exactly while fewer failures than the threshold followed the last success; otherwise it
  refuses requests exactly for the open duration after the last failure, and then lets every request
  through until an outcome is recorded.
\<close>

theorem circuit_breaker_trace:
  assumes "0 < threshold" and "length es < 2 ^ 32"
  shows "breaker_state (fold breaker_step es (breaker_new threshold duration)) now =
      (let ts = trailing_failures es [] in
       if length ts < unat threshold then Closed else if now - hd ts \<ge> duration then HalfOpen else Open) \<and>
    (allow_request (fold breaker_step es (breaker_new threshold duration)) now \<longleftrightarrow>
      length (trailing_failures es []) < unat threshold \<or> now - hd (trailing_failures es []) \<ge> duration)"
  using assms
  by (simp add: breaker_new_after breaker_run_after breaker_state_after allow_request_def Let_def)

theorem circuit_breaker_trace_witness:
  "\<not> allow_request (fold breaker_step [RpcFailed 1, RpcOk, RpcFailed 2, RpcFailed 3, RpcFailed 4] (breaker_new 3 30000)) 100 \<and>
   allow_request (fold breaker_step [RpcFailed 1, RpcOk, RpcFailed 2, RpcFailed 3, RpcFailed 4] (breaker_new 3 30000)) 30004"
  using circuit_breaker_trace [of 3 "[RpcFailed 1, RpcOk, RpcFailed 2, RpcFailed 3, RpcFailed 4]" 30000 100]
    circuit_breaker_trace [of 3 "[RpcFailed 1, RpcOk, RpcFailed 2, RpcFailed 3, RpcFailed 4]" 30000 30004]
  by simp

text \<open>
  The pool hands out a pooled client exactly when its breaker allows it and otherwise fails
  without connecting; a node without an entry is connected and stored with a fresh breaker; the
  entries of all other nodes are untouched, and outcomes are recorded on the named node only.
\<close>

theorem pool_get_branches:
  "(case fmlookup (entries p) (as_u64 n) of
      Some e \<Rightarrow> pool_get connect p now n addr =
        (p, if allow_request (pe_breaker e) now then Inr (pe_client e)
            else Inl (NetworkError (''circuit breaker open for node '' @ node_id_display n)))
    | None \<Rightarrow> (case connect addr of
        Inl err \<Rightarrow> pool_get connect p now n addr = (p, Inl err)
      | Inr c \<Rightarrow> pool_get connect p now n addr = (pool_insert p n c, Inr c) \<and>
          pool_circuit_state (pool_insert p n c) now n = Some Closed)) \<and>
   (k \<noteq> as_u64 n \<longrightarrow>
      fmlookup (entries (fst (pool_get connect p now n addr))) k = fmlookup (entries p) k \<and>
      fmlookup (entries (pool_record_success p n)) k = fmlookup (entries p) k \<and>
      fmlookup (entries (pool_record_failure p now n)) k = fmlookup (entries p) k)"
  by (auto simp: pool_get_def pool_insert_def pool_circuit_state_def pool_record_success_def
      pool_record_failure_def breaker_new_def breaker_state_def Let_def split: option.splits sum.splits)

theorem pool_get_branches_witness:
  "fst (pool_get (\<lambda>a. Inr (host a)) pool_new 5 (NodeId 1) \<lparr>host = ''h'', port = 1\<rparr>) = pool_insert pool_new (NodeId 1) ''h'' \<and>
   fmlookup (entries (fst (pool_get (\<lambda>a. Inr (host a)) pool_new 5 (NodeId 1) \<lparr>host = ''h'', port = 1\<rparr>))) 2 = None"
  using pool_get_branches [where p = pool_new and n = "NodeId 1" and connect = "\<lambda>a. Inr (host a)" and now = 5
      and addr = "\<lparr>host = ''h'', port = 1\<rparr>" and k = 2]
  by (simp add: pool_new_def pool_with_config_def pool_insert_def Let_def)

end
