(* ===== verification/Gossip.thy ===== *)
theory Gossip
  imports Cluster
begin

text \<open>
  Dissemination of the cluster view, \<^verbatim>\<open>GossipManager\<close> of
  \<^verbatim>\<open>crates/node/src/cluster_manager.rs\<close>. A view records for every node a status and the
  time stamp of the observation; a message carries a whole view. The locale \<open>lww_view\<close> states what a
  last-writer-wins merge promises and derives convergence from it.
\<close>

section \<open>Model\<close>

record gossip_entry =
  ge_node_id :: node_id
  ge_status :: node_status
  ge_timestamp :: u64

record gossip_message =
  gm_from :: node_id
  cluster_view :: "gossip_entry list"

record gossip_manager =
  gossip_state :: "(node_id, node_status \<times> u64) fmap"
  local_node_id :: node_id

definition gossip_new :: "node_id \<Rightarrow> gossip_manager" where
  "gossip_new n = \<lparr>gossip_state = fmempty, local_node_id = n\<rparr>"

definition update_local :: "gossip_manager \<Rightarrow> node_id \<Rightarrow> node_status \<Rightarrow> u64 \<Rightarrow> gossip_manager" where
  "update_local g n st ts =
     (let entry = fm_get_or (gossip_state g) n (st, 0) in
      g\<lparr>gossip_state := fmupd n (if ts \<ge> snd entry then (st, ts) else entry) (gossip_state g)\<rparr>)"

text \<open>The body of the loop of \<^verbatim>\<open>merge\<close>, on the state and the list of changed nodes.\<close>

definition gossip_merge_entry ::
    "gossip_entry \<Rightarrow> (node_id, node_status \<times> u64) fmap \<times> node_id list \<Rightarrow>
     (node_id, node_status \<times> u64) fmap \<times> node_id list" where
  "gossip_merge_entry e s =
     (let (st, changed) = s; current = fmlookup st (ge_node_id e);
          should_update = (case current of Some (_, ts) \<Rightarrow> ge_timestamp e > ts | None \<Rightarrow> True)
      in if should_update then
           (fmupd (ge_node_id e) (ge_status e, ge_timestamp e) st,
            if map_option fst current \<noteq> Some (ge_status e) then changed @ [ge_node_id e] else changed)
         else (st, changed))"

definition gossip_merge :: "gossip_manager \<Rightarrow> gossip_message \<Rightarrow> gossip_manager \<times> node_id list" where
  "gossip_merge g msg =
     (let (st, changed) = fold gossip_merge_entry (cluster_view msg) (gossip_state g, [])
      in (g\<lparr>gossip_state := st\<rparr>, changed))"

definition build_message ::
    "((node_id, node_status \<times> u64) fmap \<Rightarrow> (node_id \<times> node_status \<times> u64) list) \<Rightarrow>
     gossip_manager \<Rightarrow> gossip_message" where
  "build_message it g =
     \<lparr>gm_from = local_node_id g,
      cluster_view = map (\<lambda>(n, st, ts). \<lparr>ge_node_id = n, ge_status = st, ge_timestamp = ts\<rparr>) (it (gossip_state g))\<rparr>"

definition select_gossip_targets ::
    "((node_id, node_status \<times> u64) fmap \<Rightarrow> (node_id \<times> node_status \<times> u64) list) \<Rightarrow>
     gossip_manager \<Rightarrow> nat \<Rightarrow> node_id list" where
  "select_gossip_targets it g fanout =
     take fanout (map fst (filter (\<lambda>(n, st, _). n \<noteq> local_node_id g \<and> st \<noteq> Offline) (it (gossip_state g))))"

section \<open>Last writer wins\<close>

text \<open>The newer of two observations of a node; the local one on equal time stamps.\<close>

fun newer :: "('s \<times> u64) option \<Rightarrow> ('s \<times> u64) option \<Rightarrow> ('s \<times> u64) option" where
  "newer None y = y"
| "newer x None = x"
| "newer (Some (s, t)) (Some (s', t')) = (if t' > t then Some (s', t') else Some (s, t))"

lemma newer_None2 [simp]: "newer x None = x"
  by (cases x) auto

lemma newer_idem [simp]: "newer x x = x"
  by (cases x) auto

lemma newer_absorb [simp]: "newer (newer x y) y = newer x y"
  by (cases x; cases y) auto

lemma newer_assoc: "newer (newer x y) z = newer x (newer y z)"
  by (cases x; cases y; cases z) auto

lemma newer_comm:
  assumes "\<And>s s' t. x = Some (s, t) \<Longrightarrow> y = Some (s', t) \<Longrightarrow> s = s'"
  shows "newer x y = newer y x"
  using assms by (cases x; cases y) auto

text \<open>
  A store of observations with a merge that keeps the newer observation of every node. Exchanging
  views brings two stores into agreement, and repeating a merge has no effect.
\<close>

locale lww_view =
  fixes view :: "'g \<Rightarrow> 'n \<Rightarrow> ('s \<times> u64) option" and absorb :: "'g \<Rightarrow> 'g \<Rightarrow> 'g"
  assumes view_absorb: "view (absorb a b) n = newer (view a n) (view b n)"
begin

lemma absorb_idem: "view (absorb (absorb a b) b) n = view (absorb a b) n"
  by (simp add: view_absorb)

lemma absorb_assoc: "view (absorb (absorb a b) c) n = view (absorb a (absorb b c)) n"
  by (simp add: view_absorb newer_assoc)

lemma exchange_agrees:
  assumes "\<And>s s' t. view a n = Some (s, t) \<Longrightarrow> view b n = Some (s', t) \<Longrightarrow> s = s'"
  shows "view (absorb a b) n = view (absorb b a) n"
  using newer_comm [of "view a n" "view b n"] assms by (simp add: view_absorb)

lemma absorb_covers:
  "view b n = Some (s, t) \<Longrightarrow> \<exists>s' t'. view (absorb a b) n = Some (s', t') \<and> t \<le> t'"
  by (cases "view a n") (auto simp: view_absorb not_less)

end

section \<open>Merging a message\<close>

definition gossip_view :: "gossip_manager \<Rightarrow> node_id \<Rightarrow> (node_status \<times> u64) option" where
  "gossip_view g n = fmlookup (gossip_state g) n"

lemma fst_merge_entry:
  "fmlookup (fst (gossip_merge_entry e s)) n =
     (if n = ge_node_id e then newer (fmlookup (fst s) n) (Some (ge_status e, ge_timestamp e)) else fmlookup (fst s) n)"
  by (cases s; cases "fmlookup (fst s) (ge_node_id e)")
    (auto simp: gossip_merge_entry_def Let_def split: prod.splits)

definition entries_for :: "node_id \<Rightarrow> gossip_entry list \<Rightarrow> (node_status \<times> u64) option" where
  "entries_for n es = fold (\<lambda>e x. newer x (if ge_node_id e = n then Some (ge_status e, ge_timestamp e) else None)) es None"

lemma fold_newer:
  "fold (\<lambda>e x. newer x (f e)) es x = newer x (fold (\<lambda>e x. newer x (f e)) es None)"
proof (induction es arbitrary: x)
  case (Cons e es)
  have "fold (\<lambda>e x. newer x (f e)) (e # es) x = newer (newer x (f e)) (fold (\<lambda>e x. newer x (f e)) es None)"
    using Cons.IH [of "newer x (f e)"] by simp
  also have "\<dots> = newer x (newer (f e) (fold (\<lambda>e x. newer x (f e)) es None))" by (rule newer_assoc)
  also have "newer (f e) (fold (\<lambda>e x. newer x (f e)) es None) = fold (\<lambda>e x. newer x (f e)) (e # es) None"
    using Cons.IH [of "f e"] by simp
  finally show ?case .
qed simp

lemma fst_fold_merge:
  "fmlookup (fst (fold gossip_merge_entry es s)) n =
     fold (\<lambda>e x. newer x (if ge_node_id e = n then Some (ge_status e, ge_timestamp e) else None)) es (fmlookup (fst s) n)"
  by (induction es arbitrary: s) (simp_all add: fst_merge_entry)

lemma gossip_view_merge:
  "gossip_view (fst (gossip_merge g msg)) n = newer (gossip_view g n) (entries_for n (cluster_view msg))"
  using fst_fold_merge [of "cluster_view msg" "(gossip_state g, [])" n]
  by (simp add: gossip_view_def gossip_merge_def entries_for_def fold_newer [of _ _ "fmlookup (gossip_state g) n"]
      case_prod_beta)

lemma entries_for_distinct:
  assumes "distinct (map fst xs)"
  shows "entries_for n (map (\<lambda>(n, st, ts). \<lparr>ge_node_id = n, ge_status = st, ge_timestamp = ts\<rparr>) xs) = map_of xs n"
  using assms
proof (induction xs)
  case Nil
  then show ?case by (simp add: entries_for_def)
next
  case (Cons x xs)
  obtain k st ts where x: "x = (k, st, ts)" by (cases x)
  let ?f = "\<lambda>e. if ge_node_id e = n then Some (ge_status e, ge_timestamp e) else None"
  have "map_of xs n = None" if "k = n" using Cons.prems x that by (simp add: map_of_eq_None_iff)
  moreover have "entries_for n (map (\<lambda>(n, st, ts). \<lparr>ge_node_id = n, ge_status = st, ge_timestamp = ts\<rparr>) (x # xs)) =
      newer (if k = n then Some (st, ts) else None) (map_of xs n)"
    using Cons x by (simp add: entries_for_def fold_newer [of ?f _ "Some (st, ts)"])
  ultimately show ?case using x by auto
qed

lemma entries_for_build:
  assumes "hash_iter it"
  shows "entries_for n (cluster_view (build_message it g)) = gossip_view g n"
  using hash_iterD [OF assms] by (simp add: build_message_def entries_for_distinct gossip_view_def)

text \<open>Receiving the message another manager builds from its view.\<close>

definition absorb_gossip ::
    "((node_id, node_status \<times> u64) fmap \<Rightarrow> (node_id \<times> node_status \<times> u64) list) \<Rightarrow>
     gossip_manager \<Rightarrow> gossip_manager \<Rightarrow> gossip_manager" where
  "absorb_gossip it a b = fst (gossip_merge a (build_message it b))"

lemma view_absorb_gossip:
  "hash_iter it \<Longrightarrow> gossip_view (absorb_gossip it a b) n = newer (gossip_view a n) (gossip_view b n)"
  by (simp add: absorb_gossip_def gossip_view_merge entries_for_build)

interpretation gossip_lww: lww_view gossip_view "absorb_gossip btree_iter"
  by unfold_locales (rule view_absorb_gossip [OF hash_iter_btree_iter])

lemma lww_view_gossip: "hash_iter it \<Longrightarrow> lww_view gossip_view (absorb_gossip it)"
  by unfold_locales (rule view_absorb_gossip)

lemma gossip_state_eqI: "(\<And>n. gossip_view a n = gossip_view b n) \<Longrightarrow> gossip_state a = gossip_state b"
  by (rule fmap_ext) (simp add: gossip_view_def)

text \<open>Nodes reported as changed, for a message that names each node once.\<close>

lemma merge_entry_changed:
  "snd (gossip_merge_entry e s) =
     (if map_option fst (fmlookup (fst (gossip_merge_entry e s)) (ge_node_id e)) \<noteq> map_option fst (fmlookup (fst s) (ge_node_id e))
      then snd s @ [ge_node_id e] else snd s)"
  by (cases s; cases "fmlookup (fst s) (ge_node_id e)") (auto simp: gossip_merge_entry_def Let_def)

lemma fold_merge_changed:
  assumes "distinct (map ge_node_id es)"
  shows "snd (fold gossip_merge_entry es s) = snd s @
    filter (\<lambda>n. map_option fst (fmlookup (fst (fold gossip_merge_entry es s)) n) \<noteq> map_option fst (fmlookup (fst s) n))
      (map ge_node_id es)"
  using assms
proof (induction es arbitrary: s)
  case (Cons e es)
  let ?s = "gossip_merge_entry e s" and ?r = "\<lambda>s. fold gossip_merge_entry es s"
  have keep: "fmlookup (fst (?r s')) n = fmlookup (fst s') n" if "n \<notin> set (map ge_node_id es)" for s' n
    using that by (induction es arbitrary: s') (auto simp: fst_merge_entry)
  have ne: "n \<noteq> ge_node_id e" if "n \<in> set (map ge_node_id es)" for n
    using Cons.prems that by (metis distinct.simps(2) list.simps(9))
  have "fmlookup (fst (?r ?s)) (ge_node_id e) = fmlookup (fst ?s) (ge_node_id e)"
    using Cons.prems by (intro keep) auto
  moreover have "filter (\<lambda>n. map_option fst (fmlookup (fst (?r ?s)) n) \<noteq> map_option fst (fmlookup (fst ?s) n)) (map ge_node_id es) =
      filter (\<lambda>n. map_option fst (fmlookup (fst (?r ?s)) n) \<noteq> map_option fst (fmlookup (fst s) n)) (map ge_node_id es)"
    by (intro filter_cong) (simp_all add: fst_merge_entry ne del: set_map)
  ultimately show ?case
    using Cons.IH [of ?s] Cons.prems merge_entry_changed [of e s] by auto
qed simp

lemma newer_newest:
  "newer x y \<in> {x, y}" "x = Some (s, t) \<or> y = Some (s, t) \<Longrightarrow> \<exists>s' t'. newer x y = Some (s', t') \<and> t \<le> t'"
  by (cases x; cases y; auto)+

section \<open>Properties\<close>

text \<open>
  C23. Two nodes that exchange their views reach the same view, provided no node was observed with
  two statuses at the same time stamp: what it holds of a node is what one of the two held, and no
  older than what either held. Absorbing the same view again changes nothing.
\<close>

theorem gossip_exchange_converges:
  assumes "hash_iter it"
    and "\<forall>n s s' t. gossip_view a n = Some (s, t) \<longrightarrow> gossip_view b n = Some (s', t) \<longrightarrow> s = s'"
  shows "gossip_state (fst (gossip_merge a (build_message it b))) =
      gossip_state (fst (gossip_merge b (build_message it a))) \<and>
    (let after = gossip_view (fst (gossip_merge a (build_message it b))) in
     after n \<in> {gossip_view a n, gossip_view b n} \<and>
     (gossip_view a n = Some (s, t) \<or> gossip_view b n = Some (s, t) \<longrightarrow> (\<exists>s' t'. after n = Some (s', t') \<and> t \<le> t'))) \<and>
    gossip_state (fst (gossip_merge (fst (gossip_merge a (build_message it b))) (build_message it b))) =
      gossip_state (fst (gossip_merge a (build_message it b)))"
proof -
  note lww = lww_view_gossip [OF assms(1)]
  have "gossip_state (absorb_gossip it a b) = gossip_state (absorb_gossip it b a)"
    using lww_view.exchange_agrees [OF lww, of a _ b] assms(2) by (intro gossip_state_eqI) blast
  moreover have "gossip_state (absorb_gossip it (absorb_gossip it a b) b) = gossip_state (absorb_gossip it a b)"
    using lww_view.absorb_idem [OF lww, of a b] by (intro gossip_state_eqI) blast
  ultimately show ?thesis
    using newer_newest [where x = "gossip_view a n" and y = "gossip_view b n"] view_absorb_gossip [OF assms(1), of a b n]
    unfolding absorb_gossip_def Let_def by simp
qed

theorem gossip_exchange_converges_witness:
  "(let a = update_local (gossip_new (NodeId 1)) (NodeId 3) Offline 5; b = update_local (gossip_new (NodeId 2)) (NodeId 3) Follower 7 in
    gossip_state (fst (gossip_merge a (build_message btree_iter b))) = gossip_state (fst (gossip_merge b (build_message btree_iter a))) \<and>
    gossip_view (fst (gossip_merge a (build_message btree_iter b))) (NodeId 3) = Some (Follower, 7))"
proof -
  let ?a = "update_local (gossip_new (NodeId 1)) (NodeId 3) Offline 5" and ?b = "update_local (gossip_new (NodeId 2)) (NodeId 3) Follower 7"
  have v: "gossip_view ?a n = (if n = NodeId 3 then Some (Offline, 5) else None)"
    "gossip_view ?b n = (if n = NodeId 3 then Some (Follower, 7) else None)" for n
    by (simp_all add: gossip_view_def update_local_def gossip_new_def Let_def fm_get_or_def)
  then have "\<forall>n s s' t. gossip_view ?a n = Some (s, t) \<longrightarrow> gossip_view ?b n = Some (s', t) \<longrightarrow> s = s'" by simp
  from gossip_exchange_converges [OF hash_iter_btree_iter this, of "NodeId 3" Follower 7] show ?thesis
    by (simp add: v Let_def) auto
qed

text \<open>
  The list \<open>gossip_merge\<close> returns names exactly the nodes of the message whose recorded status
  changed, in the order of the message; time stamps in the view never decrease.
\<close>

theorem gossip_merge_reports_changes:
  assumes "distinct (map ge_node_id (cluster_view msg))"
  shows "snd (gossip_merge g msg) =
      filter (\<lambda>n. map_option fst (gossip_view (fst (gossip_merge g msg)) n) \<noteq> map_option fst (gossip_view g n))
        (map ge_node_id (cluster_view msg)) \<and>
    (gossip_view g n = Some (s, t) \<longrightarrow>
      (\<exists>s' t'. gossip_view (fst (gossip_merge g msg)) n = Some (s', t') \<and> t \<le> t'))"
proof
  show "snd (gossip_merge g msg) =
      filter (\<lambda>n. map_option fst (gossip_view (fst (gossip_merge g msg)) n) \<noteq> map_option fst (gossip_view g n))
        (map ge_node_id (cluster_view msg))"
    using fold_merge_changed [OF assms, of "(gossip_state g, [])"]
    by (simp add: gossip_merge_def gossip_view_def case_prod_beta)
  show "gossip_view g n = Some (s, t) \<longrightarrow>
      (\<exists>s' t'. gossip_view (fst (gossip_merge g msg)) n = Some (s', t') \<and> t \<le> t')"
    by (cases "entries_for n (cluster_view msg)") (auto simp: gossip_view_merge)
qed

theorem gossip_merge_reports_changes_witness:
  "snd (gossip_merge (gossip_new (NodeId 1)) (build_message btree_iter (update_local (gossip_new (NodeId 2)) (NodeId 3) Follower 7))) = [NodeId 3]"
proof -
  let ?b = "update_local (gossip_new (NodeId 2)) (NodeId 3) Follower 7"
  have view: "cluster_view (build_message btree_iter ?b) = [\<lparr>ge_node_id = NodeId 3, ge_status = Follower, ge_timestamp = 7\<rparr>]"
    by (simp add: build_message_def update_local_def gossip_new_def btree_iter_def sorted_list_of_fset.rep_eq)
  show ?thesis
    using gossip_merge_reports_changes [of "build_message btree_iter ?b" "gossip_new (NodeId 1)"]
    by (simp add: view gossip_view_merge) (simp add: gossip_view_def gossip_new_def entries_for_def)
qed

end
