(* ===== verification/Cluster_Manager.thy ===== *)
theory Cluster_Manager
  imports Cluster_Router Connection_Pool Gossip
begin

text \<open>
  Health tracking, heartbeat windows, read repair and membership,
  \<^verbatim>\<open>crates/node/src/cluster_manager.rs\<close>. The state behind the locks is one record; one
  iteration of a background loop for one node is one step. The gRPC calls (\<open>connect\<close>, \<open>rpc\<close>), the
  digest \<open>h\<close> and the storage are parameters; times are milliseconds.
\<close>

section \<open>Node health\<close>

definition FAILURE_THRESHOLD :: u8 where
  "FAILURE_THRESHOLD = 3"

record node_health =
  nh_node_id :: node_id
  last_seen :: nat
  nh_consecutive_failures :: u8
  nh_status :: node_status
  latency_ms :: "u64 option"

definition health_new :: "nat \<Rightarrow> node_id \<Rightarrow> node_health" where
  "health_new now n =
     \<lparr>nh_node_id = n, last_seen = now, nh_consecutive_failures = 0, nh_status = Follower, latency_ms = None\<rparr>"

definition health_record_success :: "nat \<Rightarrow> u64 \<Rightarrow> node_health \<Rightarrow> node_health \<times> bool" where
  "health_record_success now latency s =
     (let was_offline = (nh_status s = Offline);
          s1 = s\<lparr>last_seen := now, nh_consecutive_failures := 0, latency_ms := Some latency\<rparr>
      in (if was_offline then s1\<lparr>nh_status := Follower\<rparr> else s1, was_offline))"

definition saturating_add_u8 :: "u8 \<Rightarrow> u8 \<Rightarrow> u8" where
  "saturating_add_u8 a b = (if unat a + unat b < 256 then a + b else 255)"

definition health_record_failure :: "node_health \<Rightarrow> node_health \<times> bool" where
  "health_record_failure s =
     (let s1 = s\<lparr>nh_consecutive_failures := saturating_add_u8 (nh_consecutive_failures s) 1, latency_ms := None\<rparr>
      in if nh_consecutive_failures s1 \<ge> FAILURE_THRESHOLD \<and> nh_status s1 \<noteq> Offline
         then (s1\<lparr>nh_status := Offline\<rparr>, True) else (s1, False))"

definition is_online :: "node_health \<Rightarrow> bool" where
  "is_online s \<longleftrightarrow> nh_status s \<noteq> Offline"

section \<open>Heartbeat windows\<close>

text \<open>
  The intervals between heartbeats in whole milliseconds (\<^verbatim>\<open>as_millis() as f64\<close>); the phi
  value computed from them is in \<open>Failure_Detector\<close>.
\<close>

definition MAX_HEARTBEAT_SAMPLES :: nat where
  "MAX_HEARTBEAT_SAMPLES = 100"

record heartbeat_history =
  intervals :: "nat list"
  last_heartbeat :: nat

type_synonym failure_detector = "(node_id, heartbeat_history) fmap"

definition report_heartbeat_at :: "failure_detector \<Rightarrow> node_id \<Rightarrow> nat \<Rightarrow> failure_detector" where
  "report_heartbeat_at d n at =
     (let hist = fm_get_or d n \<lparr>intervals = [], last_heartbeat = at\<rparr>;
          interval = at - last_heartbeat hist;
          hist1 = hist\<lparr>last_heartbeat := at\<rparr>;
          hist2 = (if interval > 0 then
              hist1\<lparr>intervals :=
                (if length (intervals hist1) \<ge> MAX_HEARTBEAT_SAMPLES then drop 1 (intervals hist1) else intervals hist1) @ [interval]\<rparr>
            else hist1)
      in fmupd n hist2 d)"

definition report_heartbeat :: "failure_detector \<Rightarrow> node_id \<Rightarrow> nat \<Rightarrow> failure_detector" where
  "report_heartbeat d n now = report_heartbeat_at d n now"

definition detector_remove_node :: "failure_detector \<Rightarrow> node_id \<Rightarrow> failure_detector" where
  "detector_remove_node d n = fmdrop n d"

section \<open>Read repair\<close>

record replica_comparison =
  latest :: document
  latest_version :: u64
  rep_stale_nodes :: "node_id list"

definition compare_replicas :: "(node_id \<times> document \<times> u64) list \<Rightarrow> replica_comparison option" where
  "compare_replicas replicas =
     (if replicas = [] then None
      else let max_version = fold (\<lambda>(_, _, v) m. max m v) replicas 0;
               stale = map fst (filter (\<lambda>(_, _, v). v < max_version) replicas)
           in if stale = [] then None
              else (case find (\<lambda>(_, _, v). v = max_version) replicas of
                  Some (_, doc, _) \<Rightarrow> Some \<lparr>latest = doc, latest_version = max_version, rep_stale_nodes = stale\<rparr>
                | None \<Rightarrow> None))"

text \<open>The loop over the stale nodes: only the local node is written.\<close>

fun repair_loop ::
    "(document \<Rightarrow> 's \<Rightarrow> 's \<times> unit db_result) \<Rightarrow> node_id \<Rightarrow> document \<Rightarrow> node_id list \<Rightarrow> 's \<Rightarrow> 's \<times> unit db_result" where
  "repair_loop put loc doc [] s = (s, Inr ())"
| "repair_loop put loc doc (n # ns) s =
     (if n = loc then
        (case put doc s of
           (s', Inl e) \<Rightarrow> (s', Inl e)
         | (s', Inr _) \<Rightarrow> repair_loop put loc doc ns s')
      else repair_loop put loc doc ns s)"

definition read_repair ::
    "(document \<Rightarrow> 's \<Rightarrow> 's \<times> unit db_result) \<Rightarrow> node_id \<Rightarrow> document_id \<Rightarrow>
     (node_id \<times> document \<times> u64) list \<Rightarrow> 's \<Rightarrow> 's \<times> document db_result" where
  "read_repair put loc did replicas s =
     (case compare_replicas replicas of
        Some cmp \<Rightarrow>
          (case repair_loop put loc (latest cmp) (rep_stale_nodes cmp) s of
             (s', Inl e) \<Rightarrow> (s', Inl e)
           | (s', Inr _) \<Rightarrow> (s', Inr (latest cmp)))
      | None \<Rightarrow>
          (case replicas of
             (_, doc, _) # _ \<Rightarrow> (s, Inr doc)
           | [] \<Rightarrow> (s, Inl (NotFound (''no replicas for document '' @ quoted (as_str did))))))"

section \<open>The manager\<close>

record 'c cluster_manager =
  cm_router :: cluster_router
  cm_pool :: "'c connection_pool"
  cm_local_node :: node_info
  cm_health_state :: "(node_id, node_health) fmap"
  cm_failure_detector :: failure_detector
  cm_gossip :: gossip_manager

definition manager_new :: "nat \<Rightarrow> node_info \<Rightarrow> cluster_router \<Rightarrow> 'c connection_pool \<Rightarrow> 'c cluster_manager" where
  "manager_new now local_node router pool =
     \<lparr>cm_router = router, cm_pool = pool, cm_local_node = local_node,
      cm_health_state = fmupd (ni_id local_node) (health_new now (ni_id local_node)) fmempty,
      cm_failure_detector = fmempty, cm_gossip = gossip_new (ni_id local_node)\<rparr>"

text \<open>\<^verbatim>\<open>ping_node\<close>: the address from the router, a client from the pool, then the health RPC.\<close>

definition ping_node ::
    "(node_address \<Rightarrow> 'c db_result) \<Rightarrow> ('c \<Rightarrow> unit db_result) \<Rightarrow> nat \<Rightarrow> node_id \<Rightarrow> 'c cluster_manager \<Rightarrow>
     'c cluster_manager \<times> unit db_result" where
  "ping_node connect rpc now n m =
     (case router_get_node (cm_router m) n of
        None \<Rightarrow> (m, Inl (NetworkError (''unknown node '' @ node_id_display n @ '' in router'')))
      | Some info \<Rightarrow>
          (case pool_get connect (cm_pool m) now n (ni_address info) of
             (pool, Inl e) \<Rightarrow> (m\<lparr>cm_pool := pool\<rparr>, Inl e)
           | (pool, Inr client) \<Rightarrow>
               (case rpc client of
                  Inr _ \<Rightarrow> (m\<lparr>cm_pool := pool_record_success pool n\<rparr>, Inr ())
                | Inl e \<Rightarrow> (m\<lparr>cm_pool := pool_record_failure pool now n\<rparr>, Inl e))))"

text \<open>The body of the loop of \<^verbatim>\<open>run_health_checks\<close> for one node.\<close>

definition health_check_node ::
    "(string \<Rightarrow> u8 list) \<Rightarrow> (node_address \<Rightarrow> 'c db_result) \<Rightarrow> ('c \<Rightarrow> unit db_result) \<Rightarrow> nat \<Rightarrow> u64 \<Rightarrow> node_id \<Rightarrow>
     'c cluster_manager \<Rightarrow> 'c cluster_manager" where
  "health_check_node h connect rpc now latency n m0 =
     (case ping_node connect rpc now n m0 of
        (m, Inr _) \<Rightarrow>
          (let m1 = (case fmlookup (cm_health_state m) n of
                Some hl \<Rightarrow> m\<lparr>cm_health_state := fmupd n (fst (health_record_success now latency hl)) (cm_health_state m)\<rparr>
              | None \<Rightarrow> m)
           in m1\<lparr>cm_failure_detector := report_heartbeat (cm_failure_detector m1) n now\<rparr>)
      | (m, Inl _) \<Rightarrow>
          (case fmlookup (cm_health_state m) n of
             Some hl \<Rightarrow>
               (let (hl', went_offline) = health_record_failure hl;
                    m1 = m\<lparr>cm_health_state := fmupd n hl' (cm_health_state m)\<rparr>
                in if went_offline then m1\<lparr>cm_router := router_remove_node h n (cm_router m1)\<rparr> else m1)
           | None \<Rightarrow> m))"

definition handle_gossip :: "gossip_message \<Rightarrow> 'c cluster_manager \<Rightarrow> 'c cluster_manager" where
  "handle_gossip msg m = m\<lparr>cm_gossip := fst (gossip_merge (cm_gossip m) msg)\<rparr>"

definition leave_cluster :: "'c cluster_manager \<Rightarrow> 'c cluster_manager" where
  "leave_cluster m =
     (let n = ni_id (cm_local_node m);
          m1 = (case fmlookup (cm_health_state m) n of
              Some hl \<Rightarrow> m\<lparr>cm_health_state := fmupd n (hl\<lparr>nh_status := Offline\<rparr>) (cm_health_state m)\<rparr>
            | None \<Rightarrow> m)
      in m1\<lparr>cm_pool := pool_remove (cm_pool m1) n\<rparr>)"

definition register_node :: "(string \<Rightarrow> u8 list) \<Rightarrow> nat \<Rightarrow> node_info \<Rightarrow> 'c cluster_manager \<Rightarrow> 'c cluster_manager" where
  "register_node h now node m =
     m\<lparr>cm_health_state := fmupd (ni_id node) (health_new now (ni_id node)) (cm_health_state m),
       cm_router := router_add_node h node (cm_router m)\<rparr>"

definition deregister_node :: "(string \<Rightarrow> u8 list) \<Rightarrow> node_id \<Rightarrow> 'c cluster_manager \<Rightarrow> 'c cluster_manager" where
  "deregister_node h n m =
     m\<lparr>cm_health_state := fmdrop n (cm_health_state m),
       cm_router := router_remove_node h n (cm_router m),
       cm_failure_detector := detector_remove_node (cm_failure_detector m) n,
       cm_pool := pool_remove (cm_pool m) n\<rparr>"

definition tracked_node_count :: "'c cluster_manager \<Rightarrow> nat" where
  "tracked_node_count m = fm_len (cm_health_state m)"

section \<open>Health histories\<close>

text \<open>One outcome of a health check: success at a time with a latency, or failure.\<close>

datatype check_outcome = CheckOk nat u64 | CheckFailed

fun health_step :: "check_outcome \<Rightarrow> node_health \<Rightarrow> node_health" where
  "health_step (CheckOk now lat) s = fst (health_record_success now lat s)"
| "health_step CheckFailed s = fst (health_record_failure s)"

text \<open>The number of failures since the last success.\<close>

fun failures_since :: "check_outcome list \<Rightarrow> nat \<Rightarrow> nat" where
  "failures_since [] k = k"
| "failures_since (CheckOk _ _ # es) k = failures_since es 0"
| "failures_since (CheckFailed # es) k = failures_since es (Suc k)"

definition health_matches :: "nat \<Rightarrow> node_health \<Rightarrow> bool" where
  "health_matches k s \<longleftrightarrow> unat (nh_consecutive_failures s) = min 255 k \<and>
     nh_status s = (if k \<ge> 3 then Offline else Follower)"

lemma health_matches_new: "health_matches 0 (health_new now n)"
  by (simp add: health_matches_def health_new_def)

lemma saturating_add_u8_1: "unat (saturating_add_u8 a 1) = min 255 (unat a + 1)"
  using unat_less [of a] by (auto simp: saturating_add_u8_def unat_add_small)

lemma health_matches_success: "health_matches k s \<Longrightarrow> health_matches 0 (fst (health_record_success now lat s))"
  by (auto simp: health_matches_def health_record_success_def Let_def split: if_splits)

lemma health_matches_failure:
  "health_matches k s \<Longrightarrow> health_matches (Suc k) (fst (health_record_failure s)) \<and>
     (snd (health_record_failure s) \<longleftrightarrow> k = 2)"
  by (auto simp: health_matches_def health_record_failure_def Let_def word_le_nat_alt saturating_add_u8_1
      FAILURE_THRESHOLD_def split: if_splits)

lemma health_matches_run:
  "health_matches k s \<Longrightarrow> health_matches (failures_since es k) (fold health_step es s)"
  by (induction es k arbitrary: s rule: failures_since.induct)
    (simp_all add: health_matches_success health_matches_failure)

section \<open>Heartbeat windows\<close>

definition history_ok :: "heartbeat_history \<Rightarrow> bool" where
  "history_ok hist \<longleftrightarrow> length (intervals hist) \<le> MAX_HEARTBEAT_SAMPLES \<and> list_all (\<lambda>i. i > 0) (intervals hist)"

definition window_ok :: "failure_detector \<Rightarrow> bool" where
  "window_ok d \<longleftrightarrow> fmpred (\<lambda>_. history_ok) d"

lemma window_ok_report:
  assumes "window_ok d"
  shows "window_ok (report_heartbeat d n at)"
proof -
  let ?hist = "fm_get_or d n \<lparr>intervals = [], last_heartbeat = at\<rparr>"
  have "history_ok ?hist"
    using assms by (auto simp: window_ok_def fm_get_or_def history_ok_def fmpred_iff split: option.splits)
  then show ?thesis
    using assms
    by (auto simp: window_ok_def report_heartbeat_def report_heartbeat_at_def Let_def history_ok_def fmpred_iff
        MAX_HEARTBEAT_SAMPLES_def list_all_iff dest: in_set_dropD split: if_splits)
qed

section \<open>Read repair\<close>

definition max_version :: "(node_id \<times> document \<times> u64) list \<Rightarrow> u64" where
  "max_version rs = Max ((snd \<circ> snd) ` set rs)"

lemma fold_max_version_0: "rs \<noteq> [] \<Longrightarrow> fold (\<lambda>(_, _, v) m. max m v) rs 0 = max_version rs"
  using fold_max_Max [of "snd \<circ> snd" rs 0] by (simp add: max_version_def case_prod_unfold)

lemma max_version_attained:
  assumes "rs \<noteq> []"
  shows "\<exists>n d. (n, d, max_version rs) \<in> set rs"
proof -
  have "max_version rs \<in> (snd \<circ> snd) ` set rs"
    unfolding max_version_def using assms by (intro Max_in) auto
  then obtain x where "x \<in> set rs" "max_version rs = snd (snd x)" by auto
  then have "(fst x, fst (snd x), max_version rs) \<in> set rs" by simp
  then show ?thesis by blast
qed

lemma max_version_ge: "(n, d, v) \<in> set rs \<Longrightarrow> v \<le> max_version rs"
  unfolding max_version_def by (rule Max_ge) force+

lemma compare_replicas_cases:
  assumes "rs \<noteq> []"
  shows "if (\<forall>(_, _, v)\<in>set rs. v = max_version rs) then compare_replicas rs = None
    else \<exists>cmp. compare_replicas rs = Some cmp \<and> latest_version cmp = max_version rs \<and>
      (\<exists>n. (n, latest cmp, max_version rs) \<in> set rs) \<and>
      rep_stale_nodes cmp = map fst (filter (\<lambda>(_, _, v). v < max_version rs) rs)"
proof -
  obtain n d where nd: "(n, d, max_version rs) \<in> set rs" using max_version_attained [OF assms] by blast
  then obtain x where x: "find (\<lambda>(_, _, v). v = max_version rs) rs = Some x"
    using find_None_iff [of "\<lambda>(_, _, v). v = max_version rs" rs] by fastforce
  then have mem: "x \<in> set rs" "snd (snd x) = max_version rs"
    by (auto simp: find_Some_iff case_prod_beta)
  have stale: "filter (\<lambda>(_, _, v). v < max_version rs) rs = [] \<longleftrightarrow> (\<forall>(_, _, v)\<in>set rs. v = max_version rs)"
    using max_version_ge [of _ _ _ rs] by (force simp: filter_empty_conv less_le)
  show ?thesis
    using x mem stale assms
    by (cases x) (auto simp: compare_replicas_def fold_max_version_0 Let_def)
qed

lemma repair_loop_ok:
  assumes "\<And>s. snd (put doc s) = Inr ()"
  shows "repair_loop put loc doc ns s =
    (((\<lambda>s. fst (put doc s)) ^^ count_list ns loc) s, Inr ())"
proof (induction ns arbitrary: s)
  case (Cons n ns)
  obtain s' where "put doc s = (s', Inr ())" using assms [of s] by (cases "put doc s") auto
  then show ?case using Cons by (auto simp: funpow_Suc_right simp del: funpow.simps)
qed simp

section \<open>Membership\<close>

lemma ping_node_keeps [simp]:
  "cm_router (fst (ping_node connect rpc now n m)) = cm_router m"
  "cm_health_state (fst (ping_node connect rpc now n m)) = cm_health_state m"
  by (auto simp: ping_node_def split: option.splits sum.splits prod.splits)

lemma health_check_router:
  "cm_router (health_check_node h connect rpc now lat n m) = cm_router m \<or>
   cm_router (health_check_node h connect rpc now lat n m) = router_remove_node h n (cm_router m)"
  using ping_node_keeps [of connect rpc now n m]
  by (cases "ping_node connect rpc now n m")
    (auto simp: health_check_node_def Let_def split: option.splits sum.splits prod.splits)

text \<open>A health check as data, so that a history is a list.\<close>

record 'c health_check =
  hc_connect :: "node_address \<Rightarrow> 'c db_result"
  hc_rpc :: "'c \<Rightarrow> unit db_result"
  hc_now :: nat
  hc_latency :: u64
  hc_node :: node_id

definition run_check :: "(string \<Rightarrow> u8 list) \<Rightarrow> 'c health_check \<Rightarrow> 'c cluster_manager \<Rightarrow> 'c cluster_manager" where
  "run_check h c m = health_check_node h (hc_connect c) (hc_rpc c) (hc_now c) (hc_latency c) (hc_node c) m"

lemma run_checks_ring:
  assumes "fmlookup (ring_nodes (cr_ring (cm_router m))) i = None"
  shows "fmlookup (ring_nodes (cr_ring (cm_router (fold (run_check h) cs m)))) i = None"
  using assms
proof (induction cs arbitrary: m)
  case (Cons c cs)
  have "fmlookup (ring_nodes (cr_ring (cm_router (run_check h c m)))) i = None"
    using health_check_router [of h "hc_connect c" "hc_rpc c" "hc_now c" "hc_latency c" "hc_node c" m] Cons.prems
    by (auto simp: run_check_def router_remove_node_def ring_lookups)
  with Cons.IH show ?case by simp
qed simp

lemma run_checks_inv:
  assumes "router_reachable h S (cm_router m)"
  shows "router_reachable h S (cm_router (fold (run_check h) cs m))"
  using assms
proof (induction cs arbitrary: m)
  case (Cons c cs)
  have "router_reachable h S (cm_router (run_check h c m))"
    using health_check_router [of h "hc_connect c" "hc_rpc c" "hc_now c" "hc_latency c" "hc_node c" m] Cons.prems
    by (auto simp: run_check_def intro: router_reachable.remove)
  with Cons.IH show ?case by simp
qed simp

lemma failed_check:
  assumes "snd (ping_node connect rpc now n m) = Inl e" "fmlookup (cm_health_state m) n = Some hl"
  shows "cm_router (health_check_node h connect rpc now lat n m) =
      (if snd (health_record_failure hl) then router_remove_node h n (cm_router m) else cm_router m)"
  using assms ping_node_keeps [of connect rpc now n m]
  by (cases "ping_node connect rpc now n m") (auto simp: health_check_node_def Let_def case_prod_beta)

lemma passed_check:
  assumes "snd (ping_node connect rpc now n m) = Inr ()" "fmlookup (cm_health_state m) n = Some hl"
  shows "fmlookup (cm_health_state (health_check_node h connect rpc now lat n m)) n =
      Some (fst (health_record_success now lat hl))"
  using assms ping_node_keeps [of connect rpc now n m]
  by (cases "ping_node connect rpc now n m") (auto simp: health_check_node_def Let_def)

lemma run_check_health:
  "fmlookup (cm_health_state m) n \<noteq> None \<Longrightarrow> fmlookup (cm_health_state (run_check h c m)) n \<noteq> None"
  using ping_node_keeps [of "hc_connect c" "hc_rpc c" "hc_now c" "hc_node c" m]
  by (cases "ping_node (hc_connect c) (hc_rpc c) (hc_now c) (hc_node c) m")
    (auto simp: run_check_def health_check_node_def Let_def split: option.splits sum.splits prod.splits)

lemma run_checks_health:
  "fmlookup (cm_health_state m) n \<noteq> None \<Longrightarrow> fmlookup (cm_health_state (fold (run_check h) cs m)) n \<noteq> None"
proof (induction cs arbitrary: m)
  case (Cons c cs)
  show ?case using Cons.IH [OF run_check_health [OF Cons.prems]] by simp
qed simp

lemma unrouted:
  assumes "router_reachable h S r" "collision_free h (id_str ` S)"
    "fmlookup (ring_nodes (cr_ring r)) (id_str n) = None"
  shows "n \<notin> set (route_document h r d)"
proof -
  have "router_inv h r" using router_reachable_inv [OF assms(1,2)] by blast
  then have "n \<notin> fmran' (ring_nodes (cr_ring r))" "ring_good h (cr_ring r)"
    using assms(3) by (auto simp: router_inv_def fmlookup_ran'_iff)
  then show ?thesis
    using ring_placement.place_members unfolding route_document_def by blast
qed

section \<open>Properties\<close>

text \<open>
  A node is reported offline exactly when its last three health checks or more failed; the
  counter saturates instead of wrapping; and a failure reports the transition exactly when it is
  the third in a row.
\<close>

theorem node_health_trace:
  "(is_online (fold health_step es (health_new now n)) \<longleftrightarrow> failures_since es 0 < 3) \<and>
   unat (nh_consecutive_failures (fold health_step es (health_new now n))) = min 255 (failures_since es 0) \<and>
   (snd (health_record_failure (fold health_step es (health_new now n))) \<longleftrightarrow> failures_since es 0 = 2)"
  using health_matches_run [OF health_matches_new, of es now n]
    health_matches_failure [OF health_matches_run [OF health_matches_new, of es now n]]
  by (auto simp: health_matches_def is_online_def split: if_splits)

text \<open>
  A node whose third health check in a row fails is taken off the ring, and no later sequence
  of health checks puts it back: even after a check of the node succeeded, and its health record
  says it is online again, no document is routed to it.
\<close>

theorem recovered_node_stays_unrouted:
  assumes "router_reachable h S (cm_router m)" and "collision_free h (id_str ` S)"
    and "fmlookup (cm_health_state m) n = Some hl" and "nh_consecutive_failures hl = 2" and "is_online hl"
    and "hc_node c0 = n" and "snd (ping_node (hc_connect c0) (hc_rpc c0) (hc_now c0) n m) = Inl e"
    and "M = fold (run_check h) cs (run_check h c0 m)"
    and "hc_node c = n" and "snd (ping_node (hc_connect c) (hc_rpc c) (hc_now c) n M) = Inr ()"
  shows "(\<exists>hl'. fmlookup (cm_health_state (run_check h c M)) n = Some hl' \<and> is_online hl') \<and>
    n \<notin> set (route_document h (cm_router (run_check h c M)) d)"
proof -
  have "snd (health_record_failure hl)"
    using assms(4,5) by (simp add: health_record_failure_def is_online_def saturating_add_u8_def FAILURE_THRESHOLD_def)
  then have "cm_router (run_check h c0 m) = router_remove_node h n (cm_router m)"
    using failed_check [of "hc_connect c0" "hc_rpc c0" "hc_now c0" n m e hl h "hc_latency c0"] assms(3,6,7)
    by (simp add: run_check_def)
  then have out: "fmlookup (ring_nodes (cr_ring (cm_router (run_check h c0 m)))) (id_str n) = None"
    by (simp add: router_remove_node_def ring_lookups)
  have M: "run_check h c M = fold (run_check h) (cs @ [c]) (run_check h c0 m)" by (simp add: assms(8))
  have reach: "router_reachable h S (cm_router (run_check h c M))"
    using run_checks_inv [OF assms(1), of "c0 # cs @ [c]"] by (simp add: assms(8))
  have "fmlookup (cm_health_state M) n \<noteq> None"
    using run_checks_health [of m n h "c0 # cs"] assms(3,8) by auto
  then obtain hl1 where "fmlookup (cm_health_state M) n = Some hl1" by auto
  then have "fmlookup (cm_health_state (run_check h c M)) n = Some (fst (health_record_success (hc_now c) (hc_latency c) hl1))"
    using passed_check [OF assms(10), of hl1 h "hc_latency c"] assms(9) by (simp add: run_check_def)
  moreover have "is_online (fst (health_record_success (hc_now c) (hc_latency c) hl1))"
    by (simp add: is_online_def health_record_success_def Let_def)
  moreover have "n \<notin> set (route_document h (cm_router (run_check h c M)) d)"
    using unrouted [OF reach assms(2)] run_checks_ring [OF out] M by metis
  ultimately show ?thesis by blast
qed

text \<open>
  C24. Read repair, when no write fails: it returns a document of the largest version among the
  replicas, and writes it to the local storage when the local node is among those with a smaller
  version (once for each time it is listed). Nothing else is written: the other replicas that it finds
  stale stay so.
\<close>

theorem read_repair_local:
  assumes "rs \<noteq> []" and "\<forall>d s. snd (put d s) = Inr ()"
  shows "\<exists>d n. snd (read_repair put loc did rs s) = Inr d \<and> (n, d, max_version rs) \<in> set rs \<and>
    fst (read_repair put loc did rs s) =
      ((\<lambda>s. fst (put d s)) ^^ count_list (map fst (filter (\<lambda>(_, _, v). v < max_version rs) rs)) loc) s"
proof (cases "\<forall>(_, _, v)\<in>set rs. v = max_version rs")
  case True
  then have none: "compare_replicas rs = None" using compare_replicas_cases [OF assms(1)] by simp
  obtain n d v rest where rs: "rs = (n, d, v) # rest" using assms(1) by (metis list.exhaust prod_cases3)
  moreover have "filter (\<lambda>(_, _, v). v < max_version rs) rs = []" using True by (auto simp: filter_empty_conv)
  ultimately show ?thesis using none True by (auto simp: read_repair_def)
next
  case False
  then obtain cmp where cmp: "compare_replicas rs = Some cmp" "\<exists>n. (n, latest cmp, max_version rs) \<in> set rs"
    "rep_stale_nodes cmp = map fst (filter (\<lambda>(_, _, v). v < max_version rs) rs)"
    using compare_replicas_cases [OF assms(1)] unfolding if_not_P [OF False] by blast
  then show ?thesis
    using repair_loop_ok [of put "latest cmp" loc "rep_stale_nodes cmp" s] assms(2)
    by (auto simp: read_repair_def)
qed

section \<open>Witnesses\<close>

definition sample_health :: node_health where
  "sample_health = (health_new 0 (NodeId 2))\<lparr>nh_consecutive_failures := 2\<rparr>"

definition sample_manager :: "nat cluster_manager" where
  "sample_manager =
     (let m = manager_new 0 (sample_node 1) sample_router pool_new
      in m\<lparr>cm_health_state := fmupd (NodeId 2) sample_health (cm_health_state m)\<rparr>)"

definition sample_check :: "nat db_result \<Rightarrow> nat health_check" where
  "sample_check r = \<lparr>hc_connect = \<lambda>a. r, hc_rpc = \<lambda>c. Inr (), hc_now = 10, hc_latency = 1, hc_node = NodeId 2\<rparr>"

lemma sample_manager_router: "cm_router sample_manager = sample_router"
  by (simp add: sample_manager_def manager_new_def Let_def)

lemma sample_router_node2: "router_get_node sample_router (NodeId 2) = Some (sample_node 2)"
  by (simp add: router_get_node_def sample_router_def router_new_fold router_add_node_def sample_node_def)

lemma sample_manager_pool: "cm_pool sample_manager = pool_new"
  by (simp add: sample_manager_def manager_new_def Let_def)

lemma sample_ping1: "ping_node (\<lambda>a. Inl err) (\<lambda>c. Inr ()) 10 (NodeId 2) sample_manager = (sample_manager, Inl err)"
  by (simp add: ping_node_def sample_manager_router sample_router_node2 sample_manager_pool pool_get_def)
    (simp add: pool_new_def pool_with_config_def sample_manager_def manager_new_def Let_def)

theorem recovered_node_stays_unrouted_witness:
  "NodeId 2 \<notin> set (route_document sample_hash
     (cm_router (run_check sample_hash (sample_check (Inr 0))
        (run_check sample_hash (sample_check (Inl (NetworkError ''down''))) sample_manager)))
     (DocumentId ''doc''))"
proof -
  let ?M = "run_check sample_hash (sample_check (Inl (NetworkError ''down''))) sample_manager"
  have hl: "fmlookup (cm_health_state sample_manager) (NodeId 2) = Some sample_health"
    by (simp add: sample_manager_def Let_def)
  have M: "?M = sample_manager\<lparr>cm_health_state := fmupd (NodeId 2) (fst (health_record_failure sample_health)) (cm_health_state sample_manager),
      cm_router := router_remove_node sample_hash (NodeId 2) sample_router\<rparr>"
    by (simp add: run_check_def sample_check_def health_check_node_def sample_ping1 hl sample_manager_router Let_def
        health_record_failure_def sample_health_def health_new_def saturating_add_u8_def FAILURE_THRESHOLD_def)
  have "router_get_node (cm_router ?M) (NodeId 2) = Some ((sample_node 2)\<lparr>ni_status := Offline\<rparr>)"
    using sample_router_node2 by (simp add: M router_get_node_def router_remove_node_def)
  moreover have "cm_pool ?M = pool_new" by (simp add: M sample_manager_pool)
  ultimately have ping2: "snd (ping_node (\<lambda>a. Inr 0) (\<lambda>c. Inr ()) 10 (NodeId 2) ?M) = Inr ()"
    by (simp add: ping_node_def pool_get_def Let_def) (simp add: pool_new_def pool_with_config_def)
  show ?thesis
    using recovered_node_stays_unrouted [OF _ sample_router_facts(2) hl, where e = "NetworkError ''down''"
        and ?c0.0 = "sample_check (Inl (NetworkError ''down''))" and M = ?M and cs = "[]" and c = "sample_check (Inr 0)"]
      sample_router_facts(1) sample_ping1 ping2
    by (simp add: sample_manager_router sample_check_def sample_health_def health_new_def is_online_def)
qed

theorem read_repair_local_witness:
  "read_repair (\<lambda>d s. (d # s, Inr ())) (NodeId 1) (DocumentId ''x'')
      [(NodeId 1, doc_new (DocumentId ''a''), 1), (NodeId 2, doc_new (DocumentId ''b''), 2), (NodeId 3, doc_new (DocumentId ''a''), 1)] [] =
    ([doc_new (DocumentId ''b'')], Inr (doc_new (DocumentId ''b'')))"
proof -
  let ?rs = "[(NodeId 1, doc_new (DocumentId ''a''), 1), (NodeId 2, doc_new (DocumentId ''b''), 2), (NodeId 3, doc_new (DocumentId ''a''), 1)]"
  let ?put = "\<lambda>d s. (d # s, Inr ())"
  have m: "max_version ?rs = 2" by (simp add: max_version_def)
  obtain d n where r: "snd (read_repair ?put (NodeId 1) (DocumentId ''x'') ?rs []) = Inr d" "(n, d, max_version ?rs) \<in> set ?rs"
    "fst (read_repair ?put (NodeId 1) (DocumentId ''x'') ?rs []) =
      ((\<lambda>s. fst (?put d s)) ^^ count_list (map fst (filter (\<lambda>(_, _, v). v < max_version ?rs) ?rs)) (NodeId 1)) []"
    using read_repair_local [of ?rs ?put "NodeId 1" "DocumentId ''x''" "[]"] by auto
  then have "d = doc_new (DocumentId ''b'')" by (auto simp: m)
  with r(1,3) show ?thesis by (simp add: m prod_eq_iff)
qed

end
