(* ===== verification/Security.thy ===== *)
theory Security
  imports Query Errors
begin

text \<open>
  Security primitives, \<^verbatim>\<open>crates/core/src/security.rs\<close>: TLS settings, roles and API
  keys, token buckets, request validation and the connection counter. The atomic counters are
  updated by compare-and-exchange; the counter of connections is a step relation over any number of
  tasks, the token bucket a sequence of its atomic updates. Tokens and audit
  records are in theory \<open>Access_Tokens\<close>, certificates in theory \<open>Transport_Tls\<close>.
\<close>

section \<open>TLS settings\<close>

record tls_config =
  tls_enabled :: bool
  cert_path :: "string option"
  key_path :: "string option"
  ca_cert_path :: "string option"
  mtls_enabled :: bool

definition tls_validate :: "tls_config \<Rightarrow> unit db_result" where
  "tls_validate c =
     (if tls_enabled c \<and> (cert_path c = None \<or> key_path c = None) then
        Inl (InvalidInput ''TLS enabled but cert_path or key_path is missing'')
      else if mtls_enabled c \<and> \<not> tls_enabled c then Inl (InvalidInput ''mTLS requires TLS to be enabled'')
      else if mtls_enabled c \<and> ca_cert_path c = None then
        Inl (InvalidInput ''mTLS enabled but ca_cert_path is missing'')
      else Inr ())"

section \<open>Roles and API keys\<close>

datatype role = Admin | Writer | Reader

fun role_level :: "role \<Rightarrow> u8" where
  "role_level Admin = 3"
| "role_level Writer = 2"
| "role_level Reader = 1"

fun role_display :: "role \<Rightarrow> string" where
  "role_display Admin = ''admin''"
| "role_display Writer = ''writer''"
| "role_display Reader = ''reader''"

definition role_from_str :: "string \<Rightarrow> role db_result" where
  "role_from_str s =
     (let l = to_lowercase s in
      if l = ''admin'' then Inr Admin else if l = ''writer'' then Inr Writer
      else if l = ''reader'' then Inr Reader
      else Inl (InvalidInput (''unknown role: '' @ quoted s)))"

record api_key_entry =
  ak_key :: string
  ak_role :: role
  ak_description :: string

definition api_key_new :: "string \<Rightarrow> role \<Rightarrow> api_key_entry" where
  "api_key_new k r = \<lparr>ak_key = k, ak_role = r, ak_description = []\<rparr>"

definition has_permission :: "api_key_entry \<Rightarrow> role \<Rightarrow> bool" where
  "has_permission e required \<longleftrightarrow> role_level (ak_role e) \<ge> role_level required"

type_synonym api_key_registry = "(string, api_key_entry) fmap"

definition registry_register :: "api_key_registry \<Rightarrow> api_key_entry \<Rightarrow> api_key_registry" where
  "registry_register r e = fmupd (ak_key e) e r"

definition registry_get :: "api_key_registry \<Rightarrow> string \<Rightarrow> api_key_entry option" where
  "registry_get r k = fmlookup r k"

definition registry_is_empty :: "api_key_registry \<Rightarrow> bool" where
  "registry_is_empty r \<longleftrightarrow> r = fmempty"

lemma role_level_inject: "role_level a = role_level b \<longleftrightarrow> a = b"
  by (cases a; cases b) simp_all

text \<open>Roles are ordered by what they may do.\<close>

instantiation role :: linorder
begin

definition less_eq_role :: "role \<Rightarrow> role \<Rightarrow> bool" where
  "less_eq_role a b \<longleftrightarrow> role_level a \<le> role_level b"

definition less_role :: "role \<Rightarrow> role \<Rightarrow> bool" where
  "less_role a b \<longleftrightarrow> role_level a < role_level b"

instance
  by standard (auto simp: less_eq_role_def less_role_def role_level_inject less_le)

end

section \<open>Token buckets\<close>

text \<open>
  Tokens are counted in thousandths. The amount a refill adds,
  \<^verbatim>\<open>(elapsed * refill_rate * 1000.0) as u64\<close>, is computed in floating point and is the
  argument \<open>new_tokens\<close>.
\<close>

record token_bucket =
  capacity :: u64
  tokens :: u64

definition bucket_new :: "u64 \<Rightarrow> token_bucket" where
  "bucket_new c = \<lparr>capacity = c, tokens = c * 1000\<rparr>"

definition bucket_refill :: "u64 \<Rightarrow> token_bucket \<Rightarrow> token_bucket" where
  "bucket_refill new_tokens b =
     (if new_tokens > 0 then b\<lparr>tokens := min (tokens b + new_tokens) (capacity b * 1000)\<rparr> else b)"

definition bucket_take :: "token_bucket \<Rightarrow> token_bucket \<times> bool" where
  "bucket_take b = (if tokens b < 1000 then (b, False) else (b\<lparr>tokens := tokens b - 1000\<rparr>, True))"

definition bucket_try_acquire :: "u64 \<Rightarrow> token_bucket \<Rightarrow> token_bucket \<times> bool" where
  "bucket_try_acquire new_tokens b = bucket_take (bucket_refill new_tokens b)"

definition bucket_available :: "u64 \<Rightarrow> token_bucket \<Rightarrow> token_bucket \<times> u64" where
  "bucket_available new_tokens b = (let b1 = bucket_refill new_tokens b in (b1, tokens b1 div 1000))"

record rate_limiter =
  buckets :: "(string, token_bucket) fmap"
  default_capacity :: u64

definition limiter_try_acquire :: "u64 \<Rightarrow> string \<Rightarrow> rate_limiter \<Rightarrow> rate_limiter \<times> bool" where
  "limiter_try_acquire new_tokens key r =
     (let b = fm_get_or (buckets r) key (bucket_new (default_capacity r));
          (b1, ok) = bucket_try_acquire new_tokens b
      in (r\<lparr>buckets := fmupd key b1 (buckets r)\<rparr>, ok))"

section \<open>Request validation\<close>

record validation_config =
  max_document_size_bytes :: nat
  max_query_depth :: nat
  max_bulk_size_bytes :: nat
  query_timeout_secs :: u64

definition validation_config_default :: validation_config where
  "validation_config_default =
     \<lparr>max_document_size_bytes = 10 * 1024 * 1024, max_query_depth = 5,
      max_bulk_size_bytes = 10 * 1024 * 1024, query_timeout_secs = 30\<rparr>"

text \<open>A slice \<^verbatim>\<open>&s[..n]\<close> panics unless \<open>n\<close> is the start of a character.\<close>

definition is_char_boundary :: "string \<Rightarrow> nat \<Rightarrow> bool" where
  "is_char_boundary s n \<longleftrightarrow>
     n = length s \<or> (n < length s \<and> \<not> (128 \<le> (of_char (s ! n) :: nat) \<and> (of_char (s ! n) :: nat) < 192))"

text \<open>\<^const>\<open>None\<close> is a panic.\<close>

definition validate_field_name :: "string \<Rightarrow> unit db_result option" where
  "validate_field_name name =
     (if prefix ''_'' name then
        Some (Inl (InvalidInput (''field name '' @ quoted name @
          '' must not start with '' @ quoted ''_'' @ '' (reserved for system fields)'')))
      else if name = [] then Some (Inl (InvalidInput ''field name must not be empty''))
      else if length name > 256 then
        (if is_char_boundary name 32 then
           Some (Inl (InvalidInput (''field name '' @ quoted (take 32 name @ ''...'') @ '' exceeds 256 character limit'')))
         else None)
      else Some (Inr ()))"

definition validate_document_size :: "nat \<Rightarrow> validation_config \<Rightarrow> unit db_result" where
  "validate_document_size n c =
     (if n > max_document_size_bytes c then
        Inl (InvalidInput (''document size '' @ dec n @ '' bytes exceeds limit of '' @
          dec (max_document_size_bytes c) @ '' bytes''))
      else Inr ())"

definition validate_bulk_size :: "nat \<Rightarrow> validation_config \<Rightarrow> unit db_result" where
  "validate_bulk_size n c =
     (if n > max_bulk_size_bytes c then
        Inl (InvalidInput (''bulk request size '' @ dec n @ '' bytes exceeds limit of '' @
          dec (max_bulk_size_bytes c) @ '' bytes''))
      else Inr ())"

fun measure_query_depth :: "query \<Rightarrow> nat" where
  "measure_query_depth (Bool mu sh mn) =
     1 + fold (\<lambda>d m. max m d) (map measure_query_depth mu @ map measure_query_depth sh @ map measure_query_depth mn) 0"
| "measure_query_depth q = 1"

definition validate_query_depth :: "query \<Rightarrow> validation_config \<Rightarrow> unit db_result" where
  "validate_query_depth q c =
     (let depth = measure_query_depth q in
      if depth > max_query_depth c then
        Inl (InvalidInput (''query nesting depth '' @ dec depth @ '' exceeds limit of '' @ dec (max_query_depth c)))
      else Inr ())"

section \<open>Connection counter\<close>

record connection_counter =
  cc_current :: u64
  cc_max :: u64

definition counter_new :: "u64 \<Rightarrow> connection_counter" where
  "counter_new m = \<lparr>cc_current = 0, cc_max = m\<rparr>"

text \<open>
  A task that calls \<^verbatim>\<open>try_acquire\<close> is between its load and its compare-exchange
  (\<open>Loaded\<close>), or has been granted a connection (\<open>Holding\<close>), or neither. The relaxed load may return
  an outdated value: the relation lets it return any value.
\<close>

datatype task_state = Idle | Loaded u64 | Holding

inductive counter_step ::
    "connection_counter \<times> ('t \<Rightarrow> task_state) \<Rightarrow> connection_counter \<times> ('t \<Rightarrow> task_state) \<Rightarrow> bool" where
  load: "ts t = Idle \<Longrightarrow> v < cc_max c \<Longrightarrow> counter_step (c, ts) (c, ts(t := Loaded v))"
| refuse: "ts t = Idle \<Longrightarrow> v \<ge> cc_max c \<Longrightarrow> counter_step (c, ts) (c, ts)"
| cas_ok: "ts t = Loaded v \<Longrightarrow> cc_current c = v \<Longrightarrow>
     counter_step (c, ts) (c\<lparr>cc_current := v + 1\<rparr>, ts(t := Holding))"
| cas_fail: "ts t = Loaded v \<Longrightarrow> cc_current c \<noteq> v \<Longrightarrow> counter_step (c, ts) (c, ts(t := Idle))"
| release: "ts t = Holding \<Longrightarrow> counter_step (c, ts) (c\<lparr>cc_current := cc_current c - 1\<rparr>, ts(t := Idle))"

inductive_cases counter_stepE: "counter_step s s'"

text \<open>A call that is not disturbed by other tasks.\<close>

definition counter_try_acquire :: "connection_counter \<Rightarrow> connection_counter \<times> bool" where
  "counter_try_acquire c =
     (if cc_current c \<ge> cc_max c then (c, False) else (c\<lparr>cc_current := cc_current c + 1\<rparr>, True))"

definition counter_release :: "connection_counter \<Rightarrow> connection_counter" where
  "counter_release c = c\<lparr>cc_current := cc_current c - 1\<rparr>"

section \<open>Lemmas\<close>

lemma has_permission_iff: "has_permission e r \<longleftrightarrow> r \<le> ak_role e"
  by (simp add: has_permission_def less_eq_role_def)

lemma to_lowercase_role [simp]: "to_lowercase (role_display r) = role_display r"
  by (cases r) (simp_all add: ascii_lower_def)

lemma role_from_str_display: "role_from_str (role_display r) = Inr r"
  by (simp add: role_from_str_def) (cases r; simp)

subsection \<open>Buckets\<close>

definition bucket_inv :: "token_bucket \<Rightarrow> bool" where
  "bucket_inv b \<longleftrightarrow> tokens b \<le> capacity b * 1000"

text \<open>A sequence of attempts, each with the amount its refill adds; the number of grants.\<close>

fun bucket_run :: "u64 list \<Rightarrow> token_bucket \<Rightarrow> token_bucket \<times> nat" where
  "bucket_run [] b = (b, 0)"
| "bucket_run (n # ns) b =
     (let (b1, ok) = bucket_try_acquire n b; (b2, k) = bucket_run ns b1
      in (b2, if ok then Suc k else k))"

lemma unat_add_le: "unat (a + b :: 'a::len word) \<le> unat a + unat b"
  by (simp add: unat_word_ariths)

lemma unat_mult_le: "unat (a * b :: 'a::len word) \<le> unat a * unat b"
  by (simp add: unat_word_ariths)

lemma bucket_inv_new [simp]: "bucket_inv (bucket_new c)"
  by (simp add: bucket_inv_def bucket_new_def)

lemma bucket_take_tokens:
  "unat (tokens (fst (bucket_take b))) + (if snd (bucket_take b) then 1000 else 0) = unat (tokens b)"
  by (auto simp: bucket_take_def unat_sub word_less_nat_alt word_le_nat_alt not_less)

lemma bucket_refill_tokens: "unat (tokens (bucket_refill n b)) \<le> unat (tokens b) + unat n"
  using unat_add_le [of "tokens b" n]
  by (auto simp: bucket_refill_def min_def word_le_nat_alt split: if_splits)

lemma bucket_inv_try_acquire: "bucket_inv b \<Longrightarrow> bucket_inv (fst (bucket_try_acquire n b))"
  by (auto simp: bucket_inv_def bucket_try_acquire_def bucket_take_def bucket_refill_def not_less
      intro: order_trans [OF word_sub_le])

lemma bucket_run_inv: "bucket_inv b \<Longrightarrow> bucket_inv (fst (bucket_run ns b))"
proof (induction ns arbitrary: b)
  case (Cons n ns)
  from Cons.IH [OF bucket_inv_try_acquire [OF Cons.prems]] show ?case by (simp add: Let_def case_prod_beta)
qed simp

lemma bucket_run_bound:
  "1000 * snd (bucket_run ns b) + unat (tokens (fst (bucket_run ns b))) \<le> unat (tokens b) + sum_list (map unat ns)"
proof (induction ns arbitrary: b)
  case (Cons n ns)
  let ?b = "bucket_refill n b" and ?t = "bucket_try_acquire n b"
  have "unat (tokens (fst ?t)) + (if snd ?t then 1000 else 0) \<le> unat (tokens b) + unat n"
    using bucket_take_tokens [of ?b] bucket_refill_tokens [of n b] by (simp add: bucket_try_acquire_def)
  then show ?case using Cons.IH [of "fst ?t"] by (cases "snd ?t") (simp_all add: Let_def case_prod_beta)
qed simp

subsection \<open>Query depth\<close>

text \<open>A query that contains a chain of \<open>k\<close> nested queries, itself included.\<close>

inductive nested :: "nat \<Rightarrow> query \<Rightarrow> bool" where
  here: "nested (Suc 0) q"
| inside: "nested k q \<Longrightarrow> q \<in> set mu \<union> set sh \<union> set mn \<Longrightarrow> nested (Suc k) (Bool mu sh mn)"

lemma depth_Bool:
  "measure_query_depth (Bool mu sh mn) = Suc (Max (insert 0 (measure_query_depth ` (set mu \<union> set sh \<union> set mn))))"
proof -
  let ?xs = "map measure_query_depth mu @ map measure_query_depth sh @ map measure_query_depth mn"
  have "fold (\<lambda>d m. max m d) ?xs 0 = Max (insert 0 (set ?xs))"
    using fold_max_Max [of "\<lambda>d. d" ?xs 0] by simp
  then show ?thesis by (simp add: image_Un Un_assoc)
qed

lemma depth_pos: "1 \<le> measure_query_depth q"
  by (cases q) (simp_all add: depth_Bool del: measure_query_depth.simps(1))

lemma nested_depth: "nested k q \<Longrightarrow> 1 \<le> k \<and> k \<le> measure_query_depth q"
proof (induction rule: nested.induct)
  case (inside k q mu sh mn)
  have "measure_query_depth q \<le> Max (insert 0 (measure_query_depth ` (set mu \<union> set sh \<union> set mn)))"
    using inside.hyps by (intro Max_ge) auto
  with inside.IH have "k \<le> Max (insert 0 (measure_query_depth ` (set mu \<union> set sh \<union> set mn)))" by linarith
  then show ?case by (simp add: depth_Bool del: measure_query_depth.simps(1))
next
  case (here q)
  show ?case using depth_pos [of q] by simp
qed

lemma depth_nested: "1 \<le> k \<Longrightarrow> k \<le> measure_query_depth q \<Longrightarrow> nested k q"
proof (induction q arbitrary: k rule: measure_query_depth.induct)
  case (1 mu sh mn)
  show ?case
  proof (cases "k = 1")
    case False
    then obtain j where j: "k = Suc j" "1 \<le> j" using 1(4) by (intro that [of "k - 1"]) auto
    let ?D = "measure_query_depth ` (set mu \<union> set sh \<union> set mn)"
    have le: "j \<le> Max (insert 0 ?D)" using 1(5) j(1) by (simp add: depth_Bool del: measure_query_depth.simps(1))
    moreover have "Max (insert 0 ?D) \<in> insert 0 ?D" by (rule Max_in) auto
    moreover have "Max (insert 0 ?D) \<noteq> 0" using le j(2) by linarith
    ultimately have "Max (insert 0 ?D) \<in> ?D" by blast
    then obtain q where q: "q \<in> set mu \<union> set sh \<union> set mn" "j \<le> measure_query_depth q"
      using le by (metis imageE)
    then have "nested j q" using 1(1-3) j(2) by blast
    then show ?thesis using q(1) j(1) inside by blast
  qed (simp add: nested.here)
qed (simp_all add: nested.here le_antisym)

subsection \<open>Connections\<close>

definition counter_inv :: "u64 \<Rightarrow> connection_counter \<times> ('t \<Rightarrow> task_state) \<Rightarrow> bool" where
  "counter_inv m s \<longleftrightarrow> (case s of (c, ts) \<Rightarrow>
     cc_max c = m \<and> finite {t. ts t = Holding} \<and> card {t. ts t = Holding} = unat (cc_current c) \<and>
     cc_current c \<le> m \<and> (\<forall>t v. ts t = Loaded v \<longrightarrow> v < m))"

lemma holding_upd:
  "{t'. (ts(t := Holding)) t' = Holding} = insert t {t'. ts t' = Holding}"
  "x \<noteq> Holding \<Longrightarrow> {t'. (ts(t := x)) t' = Holding} = {t'. ts t' = Holding} - {t}"
  "{ta. ta \<noteq> t \<longrightarrow> ts ta = Holding} = insert t {ta. ts ta = Holding}"
  "{ta. ta \<noteq> t \<and> (ta \<noteq> t \<longrightarrow> ts ta = Holding)} = {ta. ts ta = Holding} - {t}"
  by auto

lemma counter_inv_step:
  assumes "counter_step s s'" "counter_inv m s"
  shows "counter_inv m s'"
  using assms
proof cases
  case (cas_ok ts t v c)
  then have lt: "cc_current c < m" using assms(2) by (auto simp: counter_inv_def)
  then have "unat (cc_current c + 1) = Suc (unat (cc_current c))"
    by (rule unat_plus_1_less)
  then show ?thesis
    using cas_ok assms(2) lt by (auto simp: counter_inv_def holding_upd inc_le)
next
  case (release ts t c)
  have "finite {t. ts t = Holding}" and card: "card {t. ts t = Holding} = unat (cc_current c)"
    using release assms(2) by (simp_all add: counter_inv_def)
  moreover have "t \<in> {t. ts t = Holding}" using release by simp
  ultimately have "card {t. ts t = Holding} > 0" unfolding card_gt_0_iff by blast
  with card have "unat (cc_current c) > 0" by simp
  then have "cc_current c \<ge> 1" by (simp add: word_le_nat_alt)
  then have "unat (cc_current c - 1) = unat (cc_current c) - 1" by (simp add: unat_sub)
  then show ?thesis
    using release assms(2) by (auto simp: counter_inv_def holding_upd word_le_nat_alt)
qed (auto simp: counter_inv_def holding_upd)

lemma counter_inv_reachable:
  assumes "counter_step\<^sup>*\<^sup>* (counter_new m, \<lambda>_. Idle) s"
  shows "counter_inv m s"
  using assms
proof (induction rule: rtranclp_induct)
  case base
  show ?case by (simp add: counter_inv_def counter_new_def)
next
  case (step s s')
  then show ?case by (blast intro: counter_inv_step)
qed

section \<open>Properties\<close>

text \<open>
  C22. However the tasks interleave, and whatever outdated values their relaxed loads return, the
  counter is the number of tasks that hold a connection and never exceeds the limit.
\<close>

theorem connection_counter_exact:
  assumes "counter_step\<^sup>*\<^sup>* (counter_new m, \<lambda>_ :: 't. Idle) (c, ts)"
  shows "finite {t. ts t = Holding} \<and> card {t. ts t = Holding} = unat (cc_current c) \<and>
    card {t. ts t = Holding} \<le> unat m"
  using counter_inv_reachable [OF assms] by (auto simp: counter_inv_def word_le_nat_alt)

theorem connection_counter_exact_witness:
  "card {t. ((\<lambda>_ :: nat. Idle)(0 := Holding)) t = Holding} = unat (cc_current \<lparr>cc_current = 1, cc_max = 2\<rparr>)"
proof -
  let ?s0 = "(counter_new 2, \<lambda>_ :: nat. Idle)" and ?c = "\<lparr>cc_current = 1, cc_max = 2\<rparr> :: connection_counter"
  have "counter_step ?s0 (counter_new 2, (\<lambda>_. Idle)(0 := Loaded 0))"
    by (rule counter_step.load) (simp_all add: counter_new_def)
  moreover have "counter_step (counter_new 2, (\<lambda>_ :: nat. Idle)(0 := Loaded 0)) (?c, (\<lambda>_. Idle)(0 := Holding))"
    using counter_step.cas_ok [of "(\<lambda>_ :: nat. Idle)(0 := Loaded 0)" 0 0 "counter_new 2"]
    by (simp add: counter_new_def)
  ultimately have "counter_step\<^sup>*\<^sup>* ?s0 (?c, (\<lambda>_. Idle)(0 := Holding))" by (meson r_into_rtranclp rtranclp_trans)
  then show ?thesis using connection_counter_exact [of 2 ?c "(\<lambda>_ :: nat. Idle)(0 := Holding)"] by blast
qed

text \<open>
  A token bucket bounds the rate: over any sequence of attempts the grants cost no more than
  the capacity plus what the refills added, even if an addition overflows; the store of tokens never
  exceeds the capacity.
\<close>

theorem token_bucket_rate_bound:
  "1000 * snd (bucket_run ns (bucket_new c)) \<le> 1000 * unat c + sum_list (map unat ns) \<and>
   tokens (fst (bucket_run ns (bucket_new c))) \<le> capacity (fst (bucket_run ns (bucket_new c))) * 1000"
proof
  show "1000 * snd (bucket_run ns (bucket_new c)) \<le> 1000 * unat c + sum_list (map unat ns)"
    using bucket_run_bound [of ns "bucket_new c"] unat_mult_le [of c 1000] by (simp add: bucket_new_def)
  show "tokens (fst (bucket_run ns (bucket_new c))) \<le> capacity (fst (bucket_run ns (bucket_new c))) * 1000"
    using bucket_run_inv [OF bucket_inv_new] by (simp add: bucket_inv_def)
qed

text \<open>
  A query is rejected for its depth exactly when it contains a chain of more nested queries
  than the limit.
\<close>

theorem validate_query_depth_exact:
  "validate_query_depth q c = Inr () \<longleftrightarrow> \<not> nested (Suc (max_query_depth c)) q"
  using nested_depth [of "Suc (max_query_depth c)" q] depth_nested [of "Suc (max_query_depth c)" q]
  by (auto simp: validate_query_depth_def Let_def not_less)

text \<open>
  Field names are accepted exactly when they are non-empty, at most 256 bytes long and do not
  start with an underscore; a longer name is rejected with an error, unless a character crosses its
  32nd byte, in which case building the error message panics.
\<close>

theorem validate_field_name_branches:
  "(validate_field_name name = Some (Inr ()) \<longleftrightarrow> name \<noteq> [] \<and> length name \<le> 256 \<and> hd name \<noteq> CHR ''_'') \<and>
   (validate_field_name name = None \<longleftrightarrow>
      hd name \<noteq> CHR ''_'' \<and> length name > 256 \<and> 128 \<le> (of_char (name ! 32) :: nat) \<and> (of_char (name ! 32) :: nat) < 192)"
  by (cases name) (auto simp: validate_field_name_def is_char_boundary_def)

end
