(* ===== verification/Middleware.thy ===== *)
theory Middleware
  imports Security
begin

text \<open>
  The request middleware, \<^verbatim>\<open>crates/node/src/middleware.rs\<close>: the role a request needs,
  authentication and authorisation, rate limiting, and the path labels of the metrics. The handler
  that runs next is not called here: a middleware either lets the request through or answers it.
  Verification of a JWT (\<^verbatim>\<open>jsonwebtoken\<close>) is the parameter \<open>verify\<close>.
\<close>

section \<open>Paths\<close>

text \<open>\<^verbatim>\<open>path.split('/')\<close> and \<^verbatim>\<open>join("/")\<close>.\<close>

fun split_on :: "char \<Rightarrow> string \<Rightarrow> string list" where
  "split_on c [] = [[]]"
| "split_on c (x # xs) =
     (if x = c then [] # split_on c xs
      else (case split_on c xs of [] \<Rightarrow> [[x]] | s # ss \<Rightarrow> (x # s) # ss))"

fun join_with :: "char \<Rightarrow> string list \<Rightarrow> string" where
  "join_with c [] = []"
| "join_with c [s] = s"
| "join_with c (s # ss) = s @ c # join_with c ss"

fun normalize_segments :: "string list \<Rightarrow> string list" where
  "normalize_segments [] = []"
| "normalize_segments (seg # segs) =
     (if seg = ''collections'' \<or> seg = ''_aliases'' then
        seg # (case segs of [] \<Rightarrow> [] | _ # rest \<Rightarrow> '':name'' # normalize_segments rest)
      else if seg = ''docs'' \<or> seg = ''_snapshot'' then
        seg # (case segs of [] \<Rightarrow> []
          | n # rest \<Rightarrow> if prefix ''_'' n then normalize_segments segs else '':id'' # normalize_segments rest)
      else if seg = ''_nodes'' then
        seg # (case segs of [] \<Rightarrow> [] | _ # rest \<Rightarrow> '':id'' # normalize_segments rest)
      else seg # normalize_segments segs)"

definition normalize_path :: "string \<Rightarrow> string" where
  "normalize_path p = join_with (CHR ''/'') (normalize_segments (split_on (CHR ''/'') p))"

section \<open>Authorisation\<close>

datatype http_method = GET | HEAD | OPTIONS | POST | PUT | DELETE | PATCH

definition required_role :: "http_method \<Rightarrow> string \<Rightarrow> role" where
  "required_role meth path =
     (if prefix ''/_nodes/'' path \<and> suffix ''/_join'' path then Admin
      else if path = ''/_restore'' then Admin
      else if path = ''/_snapshot'' \<and> meth = POST then Admin
      else if prefix ''/collections/'' path \<and> \<not> str_contains path ''/docs'' \<and>
          \<not> str_contains path ''/_search'' \<and> \<not> str_contains path ''/_refresh'' \<and>
          (meth = PUT \<or> meth = DELETE) then Admin
      else if meth = POST \<or> meth = PUT \<or> meth = DELETE then
        (if str_contains path ''/_search'' then Reader else Writer)
      else Reader)"

record jwt_claims =
  sub :: string
  claim_role :: string
  exp :: u64
  iat :: u64

text \<open>The authentication settings of the node and the credentials of a request.\<close>

record auth_state =
  as_registry :: api_key_registry
  as_has_jwt :: bool
  as_api_key :: "string option"

record request =
  rq_method :: http_method
  rq_path :: string
  x_api_key :: "string option"
  authorization :: "string option"

datatype middleware_result = Next | Respond status_code string string

definition auth_middleware ::
    "(string \<Rightarrow> jwt_claims db_result) \<Rightarrow> auth_state \<Rightarrow> request \<Rightarrow> middleware_result" where
  "auth_middleware verify st rq =
     (let role_needed = required_role (rq_method rq) (rq_path rq);
          api_key = x_api_key rq;
          bearer_token = (case authorization rq of None \<Rightarrow> None | Some s \<Rightarrow> strip_prefix ''Bearer '' s);
          legacy = (case (as_api_key st, api_key) of
              (Some expected, Some provided) \<Rightarrow>
                if provided = expected then Next
                else Respond UNAUTHORIZED ''unauthorized'' ''invalid or missing API key''
            | _ \<Rightarrow> Respond UNAUTHORIZED ''unauthorized'' ''invalid or missing API key'');
          jwt = (case bearer_token of
              Some token \<Rightarrow>
                if as_has_jwt st then
                  (case verify token of
                     Inr claims \<Rightarrow>
                       (case role_from_str (claim_role claims) of
                          Inr r \<Rightarrow> if role_level r \<ge> role_level role_needed then Next
                                 else Respond FORBIDDEN ''forbidden'' ''insufficient permissions''
                        | Inl _ \<Rightarrow> Respond UNAUTHORIZED ''unauthorized'' ''invalid role in JWT'')
                   | Inl _ \<Rightarrow> Respond UNAUTHORIZED ''unauthorized'' ''invalid or expired JWT token'')
                else legacy
            | None \<Rightarrow> legacy)
      in if registry_is_empty (as_registry st) \<and> \<not> as_has_jwt st \<and> as_api_key st = None then Next
         else (case api_key of
             Some key \<Rightarrow>
               (case registry_get (as_registry st) key of
                  Some entry \<Rightarrow>
                    if has_permission entry role_needed then Next
                    else Respond FORBIDDEN ''forbidden'' ''insufficient permissions''
                | None \<Rightarrow> jwt)
           | None \<Rightarrow> jwt))"

definition rate_limit_middleware :: "u64 \<Rightarrow> rate_limiter \<Rightarrow> request \<Rightarrow> rate_limiter \<times> middleware_result" where
  "rate_limit_middleware new_tokens r rq =
     (let key = (case x_api_key rq of None \<Rightarrow> ''anonymous'' | Some k \<Rightarrow> k);
          (r1, ok) = limiter_try_acquire new_tokens key r
      in (r1, if ok then Next else
            Respond TOO_MANY_REQUESTS ''rate_limited'' (''rate limit exceeded '' @ [CHR 0xE2, CHR 0x80, CHR 0x94] @ '' try again later'')))"

text \<open>The connection limit around a handler that runs to its end.\<close>

definition connection_limit_middleware ::
    "connection_counter \<Rightarrow> (connection_counter \<Rightarrow> connection_counter \<times> 'r) \<Rightarrow> connection_counter \<times> (middleware_result + 'r)" where
  "connection_limit_middleware c next =
     (case counter_try_acquire c of
        (c1, False) \<Rightarrow> (c1, Inl (Respond SERVICE_UNAVAILABLE ''connection_limit'' ''maximum connection limit reached''))
      | (c1, True) \<Rightarrow> (case next c1 of (c2, resp) \<Rightarrow> (counter_release c2, Inr resp)))"

section \<open>Lemmas\<close>

lemma split_on_nonempty [simp]: "split_on c s \<noteq> []"
  by (induction s) (auto split: list.splits)

lemma split_on_no_sep: "seg \<in> set (split_on c s) \<Longrightarrow> c \<notin> set seg"
  by (induction s arbitrary: seg) (auto split: list.splits if_splits)

lemma join_split [simp]: "join_with c (split_on c s) = s"
proof (induction s)
  case (Cons x s)
  obtain y ys where "split_on c s = y # ys" using split_on_nonempty [of c s] by (cases "split_on c s") auto
  with Cons show ?case by (cases ys) auto
qed simp

lemma split_join:
  "ss \<noteq> [] \<Longrightarrow> (\<forall>s\<in>set ss. c \<notin> set s) \<Longrightarrow> split_on c (join_with c ss) = ss"
proof (induction c ss rule: join_with.induct)
  case (2 c s)
  then show ?case by (induction s) auto
next
  case (3 c s t ss)
  then have "split_on c (join_with c (t # ss)) = t # ss" by simp
  then have "c \<notin> set s \<Longrightarrow> split_on c (s @ c # join_with c (t # ss)) = s # t # ss"
    by (induction s) (auto simp del: join_with.simps)
  then show ?case using 3 by simp
qed simp

lemma length_normalize [simp]: "length (normalize_segments ss) = length ss"
  by (induction ss rule: normalize_segments.induct) (auto split: list.splits)

lemma normalize_Cons:
  "seg = ''collections'' \<or> seg = ''_aliases'' \<Longrightarrow>
     normalize_segments (seg # n # rest) = seg # '':name'' # normalize_segments rest"
  "seg = ''docs'' \<or> seg = ''_snapshot'' \<Longrightarrow> \<not> prefix ''_'' n \<Longrightarrow>
     normalize_segments (seg # n # rest) = seg # '':id'' # normalize_segments rest"
  "seg = ''docs'' \<or> seg = ''_snapshot'' \<Longrightarrow> prefix ''_'' n \<Longrightarrow>
     normalize_segments (seg # n # rest) = seg # normalize_segments (n # rest)"
  "seg = ''_nodes'' \<Longrightarrow> normalize_segments (seg # n # rest) = seg # '':id'' # normalize_segments rest"
  "seg \<notin> {''collections'', ''_aliases'', ''docs'', ''_snapshot'', ''_nodes''} \<Longrightarrow>
     normalize_segments (seg # segs) = seg # normalize_segments segs"
  "normalize_segments [seg] = [seg]"
  by auto

lemma normalize_hd: "\<exists>r. normalize_segments (n # rest) = n # r"
  by auto

declare normalize_segments.simps [simp del]

lemma normalize_cases:
  obtains "seg = ''collections'' \<or> seg = ''_aliases''" | "seg = ''docs'' \<or> seg = ''_snapshot''" "\<not> prefix ''_'' n"
    | "seg = ''docs'' \<or> seg = ''_snapshot''" "prefix ''_'' n" | "seg = ''_nodes''"
    | "seg \<notin> {''collections'', ''_aliases'', ''docs'', ''_snapshot'', ''_nodes''}"
  unfolding insert_iff empty_iff by argo

lemma normalize_shape:
  "normalize_segments (seg # n # rest) \<in>
     {seg # '':name'' # normalize_segments rest, seg # '':id'' # normalize_segments rest,
      seg # normalize_segments (n # rest)}"
  by (cases rule: normalize_cases [where seg = seg and n = n])
    (simp_all only: normalize_Cons insert_iff simp_thms)

lemma normalize_idem: "normalize_segments (normalize_segments ss) = normalize_segments ss"
proof (induction "length ss" arbitrary: ss rule: less_induct)
  case less
  consider "ss = []" | seg where "ss = [seg]"
    | seg n rest where "ss = seg # n # rest" by (metis neq_Nil_conv)
  then show ?case
  proof cases
    case (3 seg n rest)
    have IH: "normalize_segments (normalize_segments rest) = normalize_segments rest"
      "normalize_segments (normalize_segments (n # rest)) = normalize_segments (n # rest)"
      using less 3 by simp_all
    obtain r where r: "normalize_segments (n # rest) = n # r" using normalize_hd by blast
    have colon: "\<not> prefix ''_'' '':id''" by simp
    show ?thesis
    proof (cases rule: normalize_cases [where seg = seg and n = n])
      case 1
      then show ?thesis unfolding 3 by (simp only: normalize_Cons(1) IH)
    next
      case 2
      show ?thesis unfolding 3 normalize_Cons(2) [OF 2] normalize_Cons(2) [OF 2(1) colon] IH(1) ..
    next
      case a: 3
      have "normalize_segments (seg # normalize_segments (n # rest)) = seg # normalize_segments (n # rest)"
        unfolding r using normalize_Cons(3) [OF a, of r] IH(2) r by simp
      then show ?thesis unfolding 3 normalize_Cons(3) [OF a] .
    next
      case 4
      then show ?thesis unfolding 3 by (simp only: normalize_Cons(4) IH)
    next
      case 5
      show ?thesis unfolding 3 normalize_Cons(5) [OF 5] IH(2) ..
    qed
  qed (simp_all only: normalize_Cons(6) normalize_segments.simps(1))
qed

lemma set_normalize: "set (normalize_segments ss) \<subseteq> insert '':name'' (insert '':id'' (set ss))"
proof (induction "length ss" arbitrary: ss rule: less_induct)
  case less
  consider "ss = []" | seg where "ss = [seg]"
    | seg n rest where "ss = seg # n # rest" by (metis neq_Nil_conv)
  then show ?case
  proof cases
    case (3 seg n rest)
    have IH: "set (normalize_segments rest) \<subseteq> insert '':name'' (insert '':id'' (set rest))"
      "set (normalize_segments (n # rest)) \<subseteq> insert '':name'' (insert '':id'' (set (n # rest)))"
      using less 3 by (metis length_Cons lessI less_SucI)+
    have "normalize_segments ss \<in> {seg # '':name'' # normalize_segments rest, seg # '':id'' # normalize_segments rest,
        seg # normalize_segments (n # rest)}"
      unfolding 3 by (rule normalize_shape)
    then show ?thesis using IH unfolding 3 by (elim insertE emptyE) (simp_all only: list.set, blast+)
  qed (simp_all add: normalize_Cons(6) normalize_segments.simps(1))
qed

lemma normalize_no_slash:
  assumes "\<forall>s\<in>set ss. CHR ''/'' \<notin> set s" "t \<in> set (normalize_segments ss)"
  shows "CHR ''/'' \<notin> set t"
proof -
  have "t = '':name'' \<or> t = '':id'' \<or> t \<in> set ss" using assms(2) set_normalize by blast
  then show ?thesis using assms(1) by (elim disjE) simp_all
qed

lemma split_normalize:
  "split_on (CHR ''/'') (normalize_path p) = normalize_segments (split_on (CHR ''/'') p)"
proof -
  have "normalize_segments (split_on (CHR ''/'') p) \<noteq> []"
    using length_normalize [of "split_on (CHR ''/'') p"] by (metis length_0_conv split_on_nonempty)
  then show ?thesis
    unfolding normalize_path_def
    by (rule split_join) (meson normalize_no_slash split_on_no_sep)
qed

lemma sublist_slash_name:
  assumes "CHR ''/'' \<notin> set name" "\<not> prefix w ''collections/''" "\<not> prefix ''collections/'' w"
  shows "str_contains (''/collections/'' @ name) (CHR ''/'' # w) \<longleftrightarrow> prefix w name"
proof -
  have "\<not> sublist (CHR ''/'' # w) name" using assms(1) by (auto dest: set_mono_sublist)
  moreover have "\<not> prefix w (''collections/'' @ name)"
    using prefix_same_cases [of w "''collections/'' @ name" "''collections/''"] assms(2,3) by auto
  ultimately show ?thesis by (simp add: str_contains_def sublist_Cons_right)
qed

section \<open>Properties\<close>

text \<open>
  The role needed to create or delete a collection depends on its name: administrators only,
  except that a writer suffices for names that begin with \<^verbatim>\<open>docs\<close> or
  \<^verbatim>\<open>_refresh\<close>, and a reader for names that begin with \<^verbatim>\<open>_search\<close>.
\<close>

theorem collection_role_by_name:
  assumes "CHR ''/'' \<notin> set name" and "meth = PUT \<or> meth = DELETE"
  shows "required_role meth (''/collections/'' @ name) =
    (if prefix ''_search'' name then Reader
     else if prefix ''docs'' name \<or> prefix ''_refresh'' name then Writer else Admin)"
proof -
  have "str_contains (''/collections/'' @ name) ''/docs'' \<longleftrightarrow> prefix ''docs'' name"
    "str_contains (''/collections/'' @ name) ''/_search'' \<longleftrightarrow> prefix ''_search'' name"
    "str_contains (''/collections/'' @ name) ''/_refresh'' \<longleftrightarrow> prefix ''_refresh'' name"
    by (rule sublist_slash_name [OF assms(1)]; simp)+
  then show ?thesis
    using assms(2) unfolding required_role_def by auto
qed

theorem collection_role_by_name_witness:
  "required_role DELETE ''/collections/_search_logs'' = Reader \<and>
   required_role DELETE ''/collections/docs'' = Writer \<and> required_role DELETE ''/collections/products'' = Admin"
  using collection_role_by_name [of "''_search_logs''" DELETE] collection_role_by_name [of "''docs''" DELETE]
    collection_role_by_name [of "''products''" DELETE] by simp

text \<open>
  The metrics label of a path has as many segments as the path, and labels are fixed points:
  normalising a label again changes nothing.
\<close>

theorem normalize_path_idempotent:
  "normalize_path (normalize_path p) = normalize_path p \<and>
   length (split_on (CHR ''/'') (normalize_path p)) = length (split_on (CHR ''/'') p)"
proof
  show "normalize_path (normalize_path p) = normalize_path p"
    unfolding normalize_path_def [of "normalize_path p"] split_normalize normalize_idem
    by (simp add: normalize_path_def)
qed (simp add: split_normalize)

text \<open>
  A request is refused for its rate only if the bucket of its key is empty, and the buckets of
  all other keys are untouched.
\<close>

theorem rate_limit_isolated:
  "let key = (case x_api_key rq of None \<Rightarrow> ''anonymous'' | Some k \<Rightarrow> k);
       (r1, res) = rate_limit_middleware n r rq
   in (k \<noteq> key \<longrightarrow> fmlookup (buckets r1) k = fmlookup (buckets r) k) \<and>
      (res = Next \<longleftrightarrow> tokens (bucket_refill n (fm_get_or (buckets r) key (bucket_new (default_capacity r)))) \<ge> 1000)"
  by (auto simp: rate_limit_middleware_def limiter_try_acquire_def bucket_try_acquire_def bucket_take_def
      Let_def not_less split: option.splits)

theorem rate_limit_isolated_witness:
  "snd (rate_limit_middleware 0 \<lparr>buckets = fmempty, default_capacity = 1\<rparr>
     \<lparr>rq_method = GET, rq_path = ''/'', x_api_key = None, authorization = None\<rparr>) = Next"
  using rate_limit_isolated [of "\<lparr>rq_method = GET, rq_path = ''/'', x_api_key = None, authorization = None\<rparr>"
      0 "\<lparr>buckets = fmempty, default_capacity = 1\<rparr>" "''other''"]
  by (simp add: Let_def case_prod_beta bucket_refill_def bucket_new_def)

end
