(* ===== verification/Wal.thy ===== *)
theory Wal
  imports Errors
begin

text \<open>
  The write-ahead log, \<^verbatim>\<open>crates/storage/src/wal.rs\<close>, at the level of the bytes of its
  file. The MessagePack codec (\<^verbatim>\<open>rmp_serde\<close>) and the checksum
  (\<^verbatim>\<open>crc32fast\<close>) are parameters; all that is used of the codec is that it decodes what
  it encoded (\<open>wal_codec\<close>).
\<close>

section \<open>Model\<close>

type_synonym bytes = "u8 list"

datatype wal_operation =
    WalPut bytes bytes
  | WalDelete bytes
  | Checkpoint

record wal_entry =
  we_sequence :: u64
  we_operation :: wal_operation
  we_timestamp :: u64

definition entry_new :: "u64 \<Rightarrow> u64 \<Rightarrow> wal_operation \<Rightarrow> wal_entry" where
  "entry_new now sq op = \<lparr>we_sequence = sq, we_operation = op, we_timestamp = now\<rparr>"

text \<open>\<^verbatim>\<open>to_le_bytes\<close> and \<^verbatim>\<open>from_le_bytes\<close> of a \<^verbatim>\<open>u32\<close>.\<close>

definition to_le_bytes :: "u32 \<Rightarrow> bytes" where
  "to_le_bytes w = map (\<lambda>i. word_of_nat (unat w div 256 ^ i)) [0, 1, 2, 3]"

definition from_le_bytes :: "bytes \<Rightarrow> u32" where
  "from_le_bytes bs = word_of_nat (foldr (\<lambda>b a. unat b + 256 * a) bs 0)"

text \<open>\<^verbatim>\<open>{:#010x}\<close> of a \<^verbatim>\<open>u32\<close>.\<close>

definition hex_digit :: "nat \<Rightarrow> char" where
  "hex_digit d = (if d < 10 then char_of (48 + d) else char_of (87 + d))"

definition hex10 :: "u32 \<Rightarrow> string" where
  "hex10 w = ''0x'' @ map (\<lambda>i. hex_digit (unat w div 16 ^ i mod 16)) [7, 6, 5, 4, 3, 2, 1, 0]"

text \<open>The codec: an error message or the result, in both directions.\<close>

type_synonym wal_enc = "wal_entry \<Rightarrow> string + bytes"
type_synonym wal_dec = "bytes \<Rightarrow> string + wal_entry"

definition frame :: "(bytes \<Rightarrow> u32) \<Rightarrow> bytes \<Rightarrow> bytes" where
  "frame crc payload = to_le_bytes (word_of_nat (length payload)) @ to_le_bytes (crc payload) @ payload"

text \<open>
  The file as it is on disk and the bytes still in the \<^verbatim>\<open>BufWriter\<close>, which are written at the next
  synchronisation at the latest; a full buffer that is written earlier is not modelled.
\<close>

record wal_writer =
  ww_file :: bytes
  ww_buffer :: bytes
  next_sequence :: u64

definition write_entry :: "wal_enc \<Rightarrow> (bytes \<Rightarrow> u32) \<Rightarrow> wal_entry \<Rightarrow> wal_writer \<Rightarrow> wal_writer \<times> unit db_result" where
  "write_entry enc crc e w =
     (case enc e of
        Inl msg \<Rightarrow> (w, Inl (SerializationError msg))
      | Inr payload \<Rightarrow> (w\<lparr>ww_buffer := ww_buffer w @ frame crc payload\<rparr>, Inr ()))"

definition append_op :: "wal_enc \<Rightarrow> (bytes \<Rightarrow> u32) \<Rightarrow> u64 \<Rightarrow> wal_operation \<Rightarrow> wal_writer \<Rightarrow> wal_writer \<times> u64 db_result" where
  "append_op enc crc now op w =
     (let sq = next_sequence w; e = entry_new now sq op; w1 = w\<lparr>next_sequence := next_sequence w + 1\<rparr>
      in case write_entry enc crc e w1 of
           (w2, Inl err) \<Rightarrow> (w2, Inl err)
         | (w2, Inr _) \<Rightarrow> (w2, Inr sq))"

definition wal_sync :: "wal_writer \<Rightarrow> wal_writer" where
  "wal_sync w = w\<lparr>ww_file := ww_file w @ ww_buffer w, ww_buffer := []\<rparr>"

text \<open>
  The read loop. A length prefix cut short ends it; anything else cut short is an I/O error.
\<close>

definition eof_error :: db_error where
  "eof_error = StorageError ''failed to fill whole buffer''"

function read_loop :: "wal_dec \<Rightarrow> (bytes \<Rightarrow> u32) \<Rightarrow> bytes \<Rightarrow> wal_entry list \<Rightarrow> wal_entry list db_result" where
  "read_loop deco crc bs es =
     (if length bs < 4 then Inr es
      else let len = unat (from_le_bytes (take 4 bs)); bs1 = drop 4 bs in
        if length bs1 < 4 then Inl eof_error
        else let stored_crc = from_le_bytes (take 4 bs1); bs2 = drop 4 bs1 in
          if length bs2 < len then Inl eof_error
          else let payload = take len bs2; computed_crc = crc payload in
            if computed_crc \<noteq> stored_crc then
              Inl (StorageError (''WAL entry CRC mismatch: stored='' @ hex10 stored_crc @ '', computed='' @ hex10 computed_crc))
            else case deco payload of
                Inl msg \<Rightarrow> Inl (SerializationError msg)
              | Inr e \<Rightarrow> read_loop deco crc (drop len bs2) (es @ [e]))"
  by pat_completeness auto
termination
  by (relation "measure (\<lambda>(_, _, bs, _). length bs)") auto

declare read_loop.simps [simp del]

definition read_all :: "wal_dec \<Rightarrow> (bytes \<Rightarrow> u32) \<Rightarrow> bytes \<Rightarrow> wal_entry list db_result" where
  "read_all deco crc file = read_loop deco crc file []"

text \<open>Opening the log: an existing file is scanned for the next sequence number.\<close>

definition writer_new :: "wal_dec \<Rightarrow> (bytes \<Rightarrow> u32) \<Rightarrow> bytes option \<Rightarrow> wal_writer db_result" where
  "writer_new deco crc path =
     (case path of
        None \<Rightarrow> Inr \<lparr>ww_file = [], ww_buffer = [], next_sequence = 0\<rparr>
      | Some file \<Rightarrow>
          (case read_all deco crc file of
             Inl e \<Rightarrow> Inl e
           | Inr es \<Rightarrow> Inr \<lparr>ww_file = file, ww_buffer = [],
               next_sequence = (if es = [] then 0 else we_sequence (last es) + 1)\<rparr>))"

text \<open>\<^verbatim>\<open>entries[..=idx]\<close> for the last checkpoint, or all entries.\<close>

definition is_checkpoint :: "wal_entry \<Rightarrow> bool" where
  "is_checkpoint e \<longleftrightarrow> we_operation e = Checkpoint"

definition replay_entries :: "wal_entry list \<Rightarrow> wal_entry list" where
  "replay_entries es =
     (if list_ex is_checkpoint es then rev (dropWhile (\<lambda>e. \<not> is_checkpoint e) (rev es)) else es)"

fun replay_loop :: "wal_entry list \<Rightarrow> (bytes \<times> bytes) list \<times> bytes list \<Rightarrow> (bytes \<times> bytes) list \<times> bytes list" where
  "replay_loop [] acc = acc"
| "replay_loop (e # es) (puts, deletes) =
     replay_loop es (case we_operation e of
         WalPut k v \<Rightarrow> (puts @ [(k, v)], deletes)
       | WalDelete k \<Rightarrow> (puts, deletes @ [k])
       | Checkpoint \<Rightarrow> (puts, deletes))"

definition replay :: "wal_dec \<Rightarrow> (bytes \<Rightarrow> u32) \<Rightarrow> bytes \<Rightarrow> ((bytes \<times> bytes) list \<times> bytes list) db_result" where
  "replay deco crc file =
     (case read_all deco crc file of
        Inl e \<Rightarrow> Inl e
      | Inr es \<Rightarrow> Inr (replay_loop (replay_entries es) ([], [])))"

section \<open>Frames\<close>

lemma length_to_le_bytes [simp]: "length (to_le_bytes w) = 4"
  by (simp add: to_le_bytes_def)

lemma le_bytes_roundtrip [simp]: "from_le_bytes (to_le_bytes w) = w"
proof -
  let ?n = "unat w"
  have b: "?n div 65536 = ?n div 256 div 256" "?n div 16777216 = ?n div 256 div 256 div 256"
    by (simp_all flip: div_mult2_eq)
  have "?n < 4294967296" using unat_less [of w] by simp
  then have c: "?n div 256 div 256 div 256 mod 256 = ?n div 256 div 256 div 256" by simp
  have "foldr (\<lambda>b a. unat b + 256 * a) (to_le_bytes w) 0 =
      ?n mod 256 + 256 * (?n div 256 mod 256 + 256 * (?n div 65536 mod 256 + 256 * (?n div 16777216 mod 256)))"
    by (simp add: to_le_bytes_def unsigned_of_nat unsigned_ucast_eq take_bit_eq_mod)
  also have "\<dots> = ?n" unfolding b c by (simp only: mod_mult_div_eq)
  finally show ?thesis by (simp add: from_le_bytes_def)
qed

text \<open>What is used of the codec, and the bytes of a list of entries.\<close>

definition wal_codec :: "wal_enc \<Rightarrow> wal_dec \<Rightarrow> bool" where
  "wal_codec enc deco \<longleftrightarrow> (\<forall>e. \<exists>p. enc e = Inr p \<and> deco p = Inr e)"

definition payload_of :: "wal_enc \<Rightarrow> wal_entry \<Rightarrow> bytes" where
  "payload_of enc e = (case enc e of Inl _ \<Rightarrow> [] | Inr p \<Rightarrow> p)"

text \<open>The length of a payload is written in four bytes.\<close>

definition fits :: "wal_enc \<Rightarrow> wal_entry list \<Rightarrow> bool" where
  "fits enc es \<longleftrightarrow> list_all (\<lambda>e. length (payload_of enc e) < 2 ^ 32) es"

definition frames :: "wal_enc \<Rightarrow> (bytes \<Rightarrow> u32) \<Rightarrow> wal_entry list \<Rightarrow> bytes" where
  "frames enc crc es = concat (map (\<lambda>e. frame crc (payload_of enc e)) es)"

lemma wal_codecD:
  assumes "wal_codec enc deco"
  shows "enc e = Inr (payload_of enc e)" and "deco (payload_of enc e) = Inr e"
  using assms by (auto simp: wal_codec_def payload_of_def) (metis sum.simps(6))+

lemma read_loop_frame:
  assumes "wal_codec enc deco" "length (payload_of enc e) < 2 ^ 32"
  shows "read_loop deco crc (frame crc (payload_of enc e) @ bs) es = read_loop deco crc bs (es @ [e])"
proof -
  let ?p = "payload_of enc e"
  have len: "unat (word_of_nat (length ?p) :: u32) = length ?p"
    using assms(2) by (simp add: unat_of_nat_small)
  show ?thesis
    by (subst read_loop.simps) (simp add: frame_def Let_def len wal_codecD(2) [OF assms(1)])
qed

lemma read_loop_frames:
  assumes "wal_codec enc deco" "fits enc es"
  shows "read_loop deco crc (frames enc crc es @ bs) acc = read_loop deco crc bs (acc @ es)"
  using assms(2)
  by (induction es arbitrary: acc) (simp_all add: frames_def fits_def read_loop_frame [OF assms(1)])

lemma read_frames:
  assumes "wal_codec enc deco" "fits enc es"
  shows "read_all deco crc (frames enc crc es) = Inr es"
proof -
  have "read_loop deco crc [] es = Inr es" by (subst read_loop.simps) simp
  then show ?thesis using read_loop_frames [OF assms, where bs = "[]" and acc = "[]"] by (simp add: read_all_def)
qed

text \<open>A frame cut short.\<close>

lemma read_loop_torn:
  assumes "length (payload_of enc e) < 2 ^ 32" "k < length (frame crc (payload_of enc e))"
  shows "read_loop deco crc (take k (frame crc (payload_of enc e))) acc = (if k < 4 then Inr acc else Inl eof_error)"
proof -
  let ?p = "payload_of enc e"
  have len: "unat (word_of_nat (length ?p) :: u32) = length ?p"
    using assms(1) by (simp add: unat_of_nat_small)
  show ?thesis
    using assms(2) by (subst read_loop.simps) (auto simp: frame_def Let_def len take_Cons')
qed

section \<open>Appending\<close>

lemma append_op_ok:
  assumes "wal_codec enc deco"
  shows "append_op enc crc now op w =
    (w\<lparr>next_sequence := next_sequence w + 1,
       ww_buffer := ww_buffer w @ frames enc crc [entry_new now (next_sequence w) op]\<rparr>, Inr (next_sequence w))"
  using wal_codecD(1) [OF assms] by (simp add: append_op_def write_entry_def Let_def frames_def)

lemma frames_append [simp]: "frames enc crc (xs @ ys) = frames enc crc xs @ frames enc crc ys"
  by (simp add: frames_def)

lemma frames_Cons: "frames enc crc (e # es) = frame crc (payload_of enc e) @ frames enc crc es"
  by (simp add: frames_def)

lemma frames_Nil [simp]: "frames enc crc [] = []"
  by (simp add: frames_def)

text \<open>A sequence of timed operations appended to a log.\<close>

fun append_all :: "wal_enc \<Rightarrow> (bytes \<Rightarrow> u32) \<Rightarrow> (u64 \<times> wal_operation) list \<Rightarrow> wal_writer \<Rightarrow> wal_writer" where
  "append_all enc crc [] w = w"
| "append_all enc crc ((now, op) # ops) w = append_all enc crc ops (fst (append_op enc crc now op w))"

text \<open>The entries they become, numbered from \<open>sq\<close>.\<close>

fun number_entries :: "u64 \<Rightarrow> (u64 \<times> wal_operation) list \<Rightarrow> wal_entry list" where
  "number_entries sq [] = []"
| "number_entries sq ((now, op) # ops) = entry_new now sq op # number_entries (sq + 1) ops"

lemma length_number_entries [simp]: "length (number_entries sq ops) = length ops"
  by (induction sq ops rule: number_entries.induct) simp_all

lemma last_number_entries:
  "ops \<noteq> [] \<Longrightarrow> we_sequence (last (number_entries sq ops)) + 1 = sq + word_of_nat (length ops)"
proof (induction sq ops rule: number_entries.induct)
  case (2 sq now op ops)
  show ?case
  proof (cases "ops = []")
    case False
    then have "number_entries (sq + 1) ops \<noteq> []" by (metis length_0_conv length_number_entries)
    with 2 False show ?thesis by (simp add: add.assoc add.commute)
  qed (simp add: entry_new_def)
qed simp

lemma append_all_eq:
  assumes "wal_codec enc deco"
  shows "append_all enc crc ops w =
    w\<lparr>next_sequence := next_sequence w + word_of_nat (length ops),
      ww_buffer := ww_buffer w @ frames enc crc (number_entries (next_sequence w) ops)\<rparr>"
proof (induction ops arbitrary: w)
  case (Cons x ops)
  obtain now op where "x = (now, op)" by (cases x)
  then show ?case
    by (simp add: append_op_ok [OF assms] Cons.IH frames_def add.assoc add.left_commute)
qed simp

lemma length_frame: "length (frame crc p) = 8 + length p"
  by (simp add: frame_def)

text \<open>A cut of the bytes of some entries falls between two entries or inside one.\<close>

lemma cut_frames:
  assumes "k < length (frames enc crc es)"
  shows "\<exists>j c. j < length es \<and> c < length (frame crc (payload_of enc (es ! j))) \<and>
    take k (frames enc crc es) = frames enc crc (take j es) @ take c (frame crc (payload_of enc (es ! j))) \<and>
    k = length (frames enc crc (take j es)) + c"
  using assms
proof (induction es arbitrary: k)
  case (Cons e es)
  let ?f = "frame crc (payload_of enc e)"
  show ?case
  proof (cases "k < length ?f")
    case True
    then show ?thesis by (intro exI [of _ 0] exI [of _ k]) (simp add: frames_Cons)
  next
    case False
    then have "k - length ?f < length (frames enc crc es)" using Cons.prems by (simp add: frames_Cons)
    from Cons.IH [OF this] obtain j c where jc: "j < length es" "c < length (frame crc (payload_of enc (es ! j)))"
      "take (k - length ?f) (frames enc crc es) = frames enc crc (take j es) @ take c (frame crc (payload_of enc (es ! j)))"
      "k - length ?f = length (frames enc crc (take j es)) + c" by blast
    with False show ?thesis by (intro exI [of _ "Suc j"] exI [of _ c]) (simp add: frames_Cons)
  qed
qed simp

lemma read_cut:
  assumes "wal_codec enc deco" "fits enc es" "j < length es" "c < length (frame crc (payload_of enc (es ! j)))"
  shows "read_all deco crc (frames enc crc (take j es) @ take c (frame crc (payload_of enc (es ! j)))) =
    (if c < 4 then Inr (take j es) else Inl eof_error)"
proof -
  have "fits enc (take j es)" "length (payload_of enc (es ! j)) < 2 ^ 32"
    using assms(2,3) by (auto simp: fits_def list_all_iff dest: in_set_takeD)
  then show ?thesis
    using read_loop_frames [OF assms(1)] read_loop_torn assms(4) by (simp add: read_all_def)
qed

section \<open>Replay\<close>

definition op_puts :: "wal_entry list \<Rightarrow> (bytes \<times> bytes) list" where
  "op_puts es = concat (map (\<lambda>e. case we_operation e of WalPut k v \<Rightarrow> [(k, v)] | _ \<Rightarrow> []) es)"

definition op_deletes :: "wal_entry list \<Rightarrow> bytes list" where
  "op_deletes es = concat (map (\<lambda>e. case we_operation e of WalDelete k \<Rightarrow> [k] | _ \<Rightarrow> []) es)"

lemma replay_loop_eq: "replay_loop es (ps, ds) = (ps @ op_puts es, ds @ op_deletes es)"
  by (induction es arbitrary: ps ds)
    (auto simp: op_puts_def op_deletes_def split: wal_operation.splits)

text \<open>What the log means: the operations applied in order.\<close>

fun apply_op :: "wal_operation \<Rightarrow> (bytes \<rightharpoonup> bytes) \<Rightarrow> (bytes \<rightharpoonup> bytes)" where
  "apply_op (WalPut k v) m = m(k \<mapsto> v)"
| "apply_op (WalDelete k) m = m(k := None)"
| "apply_op Checkpoint m = m"

definition apply_entries :: "wal_entry list \<Rightarrow> (bytes \<rightharpoonup> bytes) \<Rightarrow> (bytes \<rightharpoonup> bytes)" where
  "apply_entries es m = fold (\<lambda>e. apply_op (we_operation e)) es m"

text \<open>The result of a replay applied the way its type suggests: all puts, then all deletes.\<close>

definition apply_replay :: "(bytes \<times> bytes) list \<times> bytes list \<Rightarrow> (bytes \<rightharpoonup> bytes) \<Rightarrow> (bytes \<rightharpoonup> bytes)" where
  "apply_replay r m = fold (\<lambda>k m. m(k := None)) (snd r) (fold (\<lambda>(k, v) m. m(k \<mapsto> v)) (fst r) m)"

lemma fold_deletes: "fold (\<lambda>k m. m(k := None)) ks m x = (if x \<in> set ks then None else m x)"
  by (induction ks arbitrary: m) auto

lemma apply_replay_eq:
  "apply_replay (ps, ds) m x = (if x \<in> set ds then None else fold (\<lambda>(k, v) m. m(k \<mapsto> v)) ps m x)"
  by (simp add: apply_replay_def fold_deletes)

text \<open>No key is put after it was deleted.\<close>

fun no_put_after_delete :: "wal_entry list \<Rightarrow> bool" where
  "no_put_after_delete [] = True"
| "no_put_after_delete (e # es) =
     ((case we_operation e of WalDelete k \<Rightarrow> k \<notin> fst ` set (op_puts es) | _ \<Rightarrow> True) \<and> no_put_after_delete es)"

lemma fold_puts_other:
  "x \<notin> fst ` set ps \<Longrightarrow> fold (\<lambda>(k, v) m. m(k \<mapsto> v)) ps m x = m x"
  by (induction ps arbitrary: m) auto

lemma fold_puts_cong:
  "m x = m' x \<Longrightarrow> fold (\<lambda>(k, v) m. m(k \<mapsto> v)) ps m x = fold (\<lambda>(k, v) m. m(k \<mapsto> v)) ps m' x"
proof (induction ps arbitrary: m m')
  case (Cons p ps)
  show ?case using Cons.IH [of "m(fst p \<mapsto> snd p)" "m'(fst p \<mapsto> snd p)"] Cons.prems by (cases p) simp
qed simp

lemma apply_entries_other:
  "x \<notin> fst ` set (op_puts es) \<Longrightarrow> m x = None \<Longrightarrow> apply_entries es m x = None"
proof (induction es arbitrary: m)
  case (Cons e es)
  then show ?case
    by (cases "we_operation e") (auto simp: apply_entries_def op_puts_def)
qed (simp add: apply_entries_def)

lemma apply_entries_replay:
  "no_put_after_delete es \<Longrightarrow> apply_entries es m x = apply_replay (op_puts es, op_deletes es) m x"
proof (induction es arbitrary: m)
  case (Cons e es)
  show ?case
  proof (cases "we_operation e")
    case (WalDelete k)
    have "apply_entries (e # es) m x = apply_entries es (m(k := None)) x"
      using WalDelete by (simp add: apply_entries_def)
    moreover have "op_puts (e # es) = op_puts es" "op_deletes (e # es) = k # op_deletes es"
      using WalDelete by (simp_all add: op_puts_def op_deletes_def)
    ultimately show ?thesis
      using Cons WalDelete apply_entries_other [of x es "m(k := None)"] fold_puts_cong [of "m(k := None)" x m "op_puts es"]
      by (cases "x = k") (auto simp: apply_replay_eq)
  qed (use Cons in \<open>auto simp: apply_entries_def op_puts_def op_deletes_def apply_replay_def\<close>)
qed (simp add: apply_entries_def apply_replay_def op_puts_def op_deletes_def)

section \<open>Properties\<close>

text \<open>
  C18. Everything appended and synced is read back, in order and consecutively numbered; a log
  opened on the file continues with the next number.
\<close>

theorem wal_roundtrip:
  assumes "wal_codec enc deco" and "fits enc (number_entries 0 ops)"
  shows "read_all deco crc (ww_file (wal_sync (append_all enc crc ops \<lparr>ww_file = [], ww_buffer = [], next_sequence = 0\<rparr>))) =
      Inr (number_entries 0 ops) \<and>
    writer_new deco crc (Some (ww_file (wal_sync (append_all enc crc ops \<lparr>ww_file = [], ww_buffer = [], next_sequence = 0\<rparr>)))) =
      Inr \<lparr>ww_file = frames enc crc (number_entries 0 ops), ww_buffer = [], next_sequence = word_of_nat (length ops)\<rparr>"
proof -
  have disk: "ww_file (wal_sync (append_all enc crc ops \<lparr>ww_file = [], ww_buffer = [], next_sequence = 0\<rparr>)) =
      frames enc crc (number_entries 0 ops)"
    by (simp add: append_all_eq [OF assms(1)] wal_sync_def)
  note read = read_frames [OF assms]
  have "number_entries 0 ops = [] \<longleftrightarrow> ops = []" by (metis length_0_conv length_number_entries)
  then show ?thesis
    using last_number_entries [of ops 0] unfolding disk by (simp add: read writer_new_def)
qed

text \<open>
  After a crash that leaves the synced entries and some of the bytes of later ones, reading the
  log returns the synced entries and every later entry that is complete if the cut falls on an entry
  boundary or into a length prefix; a cut anywhere else makes the whole log unreadable.
\<close>

theorem wal_torn_tail:
  assumes "wal_codec enc deco" and "fits enc (synced @ unsynced)" and "k < length (frames enc crc unsynced)"
  shows "\<exists>j c. j < length unsynced \<and> k = length (frames enc crc (take j unsynced)) + c \<and>
    c < length (frame crc (payload_of enc (unsynced ! j))) \<and>
    read_all deco crc (frames enc crc synced @ take k (frames enc crc unsynced)) =
      (if c < 4 then Inr (synced @ take j unsynced) else Inl eof_error)"
proof -
  obtain j c where jc: "j < length unsynced" "c < length (frame crc (payload_of enc (unsynced ! j)))"
    "take k (frames enc crc unsynced) = frames enc crc (take j unsynced) @ take c (frame crc (payload_of enc (unsynced ! j)))"
    "k = length (frames enc crc (take j unsynced)) + c"
    using cut_frames [OF assms(3)] by blast
  have "read_all deco crc (frames enc crc synced @ take k (frames enc crc unsynced)) =
      (if c < 4 then Inr (synced @ take j unsynced) else Inl eof_error)"
    using read_cut [OF assms(1,2), where j = "length synced + j" and c = c and crc = crc] jc
    by (simp add: nth_append)
  with jc show ?thesis by blast
qed

text \<open>
  A replay returns the puts and the deletes up to the last checkpoint. Applied puts first and
  deletes after, they give the state the log describes whenever no key was put after it was deleted.
\<close>

theorem replay_correct:
  assumes "read_all deco crc file = Inr es" and "no_put_after_delete (replay_entries es)"
  shows "\<exists>r. replay deco crc file = Inr r \<and> apply_replay r m = apply_entries (replay_entries es) m"
  using assms apply_entries_replay [OF assms(2), of m]
  by (auto simp: replay_def replay_loop_eq fun_eq_iff)

text \<open>
  A key that is deleted and put again is lost by a replay, and so is every entry after the
  last checkpoint.
\<close>

theorem replay_loses_reput:
  assumes "read_all deco crc file = Inr [entry_new 0 0 (WalPut k v), entry_new 0 1 (WalDelete k), entry_new 0 2 (WalPut k v'),
      entry_new 0 3 Checkpoint, entry_new 0 4 (WalPut k' v')]" and "k' \<noteq> k"
  shows "\<exists>r. replay deco crc file = Inr r \<and> apply_replay r Map.empty k = None \<and>
    apply_replay r Map.empty k' = None \<and>
    apply_entries [entry_new 0 0 (WalPut k v), entry_new 0 1 (WalDelete k), entry_new 0 2 (WalPut k v'),
      entry_new 0 3 Checkpoint, entry_new 0 4 (WalPut k' v')] Map.empty = [k \<mapsto> v', k' \<mapsto> v']"
  using assms
  by (auto simp: replay_def replay_entries_def is_checkpoint_def entry_new_def apply_replay_def apply_entries_def)

section \<open>A concrete codec\<close>

text \<open>
  Numbers in unary, byte strings with a marker before every byte: enough to see that the laws of the
  codec can hold.
\<close>

definition enc_nat :: "nat \<Rightarrow> bytes" where
  "enc_nat n = replicate n 1 @ [0]"

fun dec_nat :: "bytes \<Rightarrow> nat \<times> bytes" where
  "dec_nat [] = (0, [])"
| "dec_nat (b # bs) = (if b = 1 then (let (n, r) = dec_nat bs in (Suc n, r)) else (0, bs))"

fun enc_bytes :: "bytes \<Rightarrow> bytes" where
  "enc_bytes [] = [0]"
| "enc_bytes (b # bs) = 1 # b # enc_bytes bs"

fun dec_bytes :: "bytes \<Rightarrow> bytes \<times> bytes" where
  "dec_bytes (t # b # bs) = (if t = 1 then (let (x, r) = dec_bytes bs in (b # x, r)) else ([], b # bs))"
| "dec_bytes [t] = ([], [])"
| "dec_bytes [] = ([], [])"

lemma dec_enc_nat [simp]: "dec_nat (enc_nat n @ r) = (n, r)"
  by (induction n) (simp_all add: enc_nat_def)

lemma dec_enc_bytes [simp]: "dec_bytes (enc_bytes bs @ r) = (bs, r)"
proof (induction bs)
  case Nil
  then show ?case by (cases r) simp_all
qed simp

fun enc_op :: "wal_operation \<Rightarrow> bytes" where
  "enc_op (WalPut k v) = 0 # enc_bytes k @ enc_bytes v"
| "enc_op (WalDelete k) = 1 # enc_bytes k"
| "enc_op Checkpoint = [2]"

fun dec_op :: "bytes \<Rightarrow> wal_operation" where
  "dec_op (t # bs) =
     (if t = 0 then (let (k, r) = dec_bytes bs in WalPut k (fst (dec_bytes r)))
      else if t = 1 then WalDelete (fst (dec_bytes bs)) else Checkpoint)"
| "dec_op [] = Checkpoint"

lemma dec_enc_op [simp]: "dec_op (enc_op op) = op"
  using dec_enc_bytes [of _ "[]"] by (cases op) simp_all

definition sample_enc :: wal_enc where
  "sample_enc e = Inr (enc_nat (unat (we_sequence e)) @ enc_nat (unat (we_timestamp e)) @ enc_op (we_operation e))"

definition sample_dec :: wal_dec where
  "sample_dec bs =
     (let (s, r) = dec_nat bs; (t, r') = dec_nat r
      in Inr \<lparr>we_sequence = word_of_nat s, we_operation = dec_op r', we_timestamp = word_of_nat t\<rparr>)"

lemma sample_codec: "wal_codec sample_enc sample_dec"
  by (simp add: wal_codec_def sample_enc_def sample_dec_def Let_def)

lemma sample_payload: "payload_of sample_enc e =
    enc_nat (unat (we_sequence e)) @ enc_nat (unat (we_timestamp e)) @ enc_op (we_operation e)"
  by (simp add: payload_of_def sample_enc_def)

theorem wal_roundtrip_witness:
  "read_all sample_dec (\<lambda>_. 7) (ww_file (wal_sync (append_all sample_enc (\<lambda>_. 7) [(0, WalPut [1] [2]), (0, Checkpoint)]
     \<lparr>ww_file = [], ww_buffer = [], next_sequence = 0\<rparr>))) = Inr (number_entries 0 [(0, WalPut [1] [2]), (0, Checkpoint)])"
  using wal_roundtrip [OF sample_codec, of "[(0, WalPut [1] [2]), (0, Checkpoint)]" "\<lambda>_. 7"]
  by (simp add: fits_def sample_payload entry_new_def enc_nat_def)

theorem replay_correct_witness:
  "\<exists>r. replay sample_dec (\<lambda>_. 7) (frames sample_enc (\<lambda>_. 7) [entry_new 0 0 (WalPut [1] [2])]) = Inr r \<and>
     apply_replay r Map.empty = apply_entries (replay_entries [entry_new 0 0 (WalPut [1] [2])]) Map.empty"
proof -
  have "fits sample_enc [entry_new 0 0 (WalPut [1] [2])]"
    by (simp add: fits_def sample_payload entry_new_def enc_nat_def)
  note read = read_frames [OF sample_codec this, where crc = "\<lambda>_. 7"]
  show ?thesis
    by (rule replay_correct [OF read]) (simp add: replay_entries_def is_checkpoint_def entry_new_def)
qed

theorem replay_loses_reput_witness:
  "\<exists>r. replay sample_dec (\<lambda>_. 7) (frames sample_enc (\<lambda>_. 7)
      [entry_new 0 0 (WalPut [1] [5]), entry_new 0 1 (WalDelete [1]), entry_new 0 2 (WalPut [1] [6]),
       entry_new 0 3 Checkpoint, entry_new 0 4 (WalPut [2] [6])]) = Inr r \<and> apply_replay r Map.empty [1] = None"
proof -
  have "fits sample_enc [entry_new 0 0 (WalPut [1] [5]), entry_new 0 1 (WalDelete [1]), entry_new 0 2 (WalPut [1] [6]),
       entry_new 0 3 Checkpoint, entry_new 0 4 (WalPut [2] [6])]"
    by (simp add: fits_def sample_payload entry_new_def enc_nat_def)
  note read = read_frames [OF sample_codec this, where crc = "\<lambda>_. 7"]
  show ?thesis using replay_loses_reput [OF read] by auto
qed

theorem wal_torn_tail_witness:
  "\<exists>j (c :: nat). j < length [entry_new 0 0 Checkpoint] \<and>
     read_all sample_dec (\<lambda>_. 7) (frames sample_enc (\<lambda>_. 7) [] @ take 3 (frames sample_enc (\<lambda>_. 7) [entry_new 0 0 Checkpoint])) =
       (if c < 4 then Inr ([] @ take j [entry_new 0 0 Checkpoint]) else Inl eof_error)"
proof -
  have "fits sample_enc ([] @ [entry_new 0 0 Checkpoint])"
    by (simp add: fits_def sample_payload entry_new_def enc_nat_def)
  moreover have "3 < length (frames sample_enc (\<lambda>_. 7) [entry_new 0 0 Checkpoint])"
    by (simp add: frames_Cons length_frame)
  ultimately show ?thesis
    using wal_torn_tail [OF sample_codec, of "[]" "[entry_new 0 0 Checkpoint]" 3 "\<lambda>_. 7"] by blast
qed

end
