(* ===== verification/Storage.thy ===== *)
theory Storage
  imports Documents "HOL-Library.Countable"
begin

text \<open>
  The storage layer: the RocksDB backend (\<^verbatim>\<open>crates/storage/src/rocksdb_backend.rs\<close>),
  the in-memory backend used by single-process clusters
  (\<^verbatim>\<open>crates/consensus/src/raft_node.rs\<close>) and the contract of
  \<^verbatim>\<open>StorageBackend\<close> (\<^verbatim>\<open>crates/core/src/traits.rs\<close>).

  RocksDB itself is a parameter: a record \<open>rocks\<close> of its operations on a database state. What is
  documented of them is the predicate \<open>rocks_laws\<close>, stated with the contents of the column families
  (\<open>cf_view\<close>). The MessagePack codec of documents is a parameter too. Keys and values are byte
  strings. The keys the document operations write are document ids, hence valid UTF-8, on which
  \<^verbatim>\<open>from_utf8_lossy\<close> is the identity.
\<close>

section \<open>The engine and the codec\<close>

type_synonym blob = string

record 'db rocks =
  cf_view :: "'db \<Rightarrow> string \<Rightarrow> (blob, blob) fmap option"
  cf_handle :: "'db \<Rightarrow> string \<Rightarrow> bool"
  get_cf :: "'db \<Rightarrow> string \<Rightarrow> blob \<Rightarrow> string + blob option"
  write_batch :: "'db \<Rightarrow> (string \<times> blob \<times> blob) list \<Rightarrow> 'db \<times> (string + unit)"
  delete_cf :: "'db \<Rightarrow> string \<Rightarrow> blob \<Rightarrow> 'db \<times> (string + unit)"
  iterator_from :: "'db \<Rightarrow> string \<Rightarrow> blob \<Rightarrow> (string + blob \<times> blob) list"
  create_cf :: "'db \<Rightarrow> string \<Rightarrow> 'db \<times> (string + unit)"
  drop_cf :: "'db \<Rightarrow> string \<Rightarrow> 'db \<times> (string + unit)"
  open_cf :: "'db \<Rightarrow> string list \<Rightarrow> string + 'db"

record doc_codec =
  enc_doc :: "document \<Rightarrow> string + blob"
  dec_doc :: "blob \<Rightarrow> string + document"

section \<open>RocksDbStorage\<close>

definition CF_DOCUMENTS :: string where
  "CF_DOCUMENTS = ''documents''"

definition CF_METADATA :: string where
  "CF_METADATA = ''metadata''"

definition CF_SEQUENCE :: string where
  "CF_SEQUENCE = ''sequence''"

definition COLUMN_FAMILIES :: "string list" where
  "COLUMN_FAMILIES = [CF_DOCUMENTS, CF_METADATA, CF_SEQUENCE]"

record 'db rocksdb_storage =
  rs_db :: 'db
  rs_sequence :: u64

text \<open>\<^verbatim>\<open>u64::to_le_bytes\<close> and back, on byte strings.\<close>

definition seq_bytes :: "u64 \<Rightarrow> blob" where
  "seq_bytes w = map (\<lambda>i. char_of (unat w div 256 ^ i mod 256)) [0..<8]"

definition bytes_seq :: "blob \<Rightarrow> u64" where
  "bytes_seq bs = word_of_nat (foldr (\<lambda>c a. of_char c + 256 * a) bs 0)"

definition rs_new :: "'db rocks \<Rightarrow> 'db \<Rightarrow> 'db rocksdb_storage db_result" where
  "rs_new rk disk =
     (case open_cf rk disk COLUMN_FAMILIES of
        Inl e \<Rightarrow> Inl (StorageError e)
      | Inr db \<Rightarrow>
          if \<not> cf_handle rk db CF_SEQUENCE then Inl (StorageError ''missing sequence CF'')
          else case get_cf rk db CF_SEQUENCE ''current_seq'' of
              Inl e \<Rightarrow> Inl (StorageError e)
            | Inr None \<Rightarrow> Inr \<lparr>rs_db = db, rs_sequence = 0\<rparr>
            | Inr (Some bs) \<Rightarrow>
                if length bs = 8 then Inr \<lparr>rs_db = db, rs_sequence = bytes_seq bs\<rparr>
                else Inl (StorageError ''corrupt sequence value''))"

definition rs_put_cf :: "'db rocks \<Rightarrow> string \<Rightarrow> blob \<Rightarrow> blob \<Rightarrow> 'db rocksdb_storage \<Rightarrow> 'db rocksdb_storage \<times> unit db_result" where
  "rs_put_cf rk cf key v s =
     (let sq = rs_sequence s + 1; s1 = s\<lparr>rs_sequence := sq\<rparr> in
      if \<not> cf_handle rk (rs_db s1) cf then (s1, Inl (StorageError (''unknown CF: '' @ cf)))
      else if \<not> cf_handle rk (rs_db s1) CF_SEQUENCE then (s1, Inl (StorageError ''missing sequence CF''))
      else case write_batch rk (rs_db s1) [(cf, key, v), (CF_SEQUENCE, ''current_seq'', seq_bytes sq)] of
          (db, Inl e) \<Rightarrow> (s1\<lparr>rs_db := db\<rparr>, Inl (StorageError e))
        | (db, Inr _) \<Rightarrow> (s1\<lparr>rs_db := db\<rparr>, Inr ()))"

definition rs_get_cf :: "'db rocks \<Rightarrow> string \<Rightarrow> blob \<Rightarrow> 'db rocksdb_storage \<Rightarrow> blob option db_result" where
  "rs_get_cf rk cf key s =
     (if \<not> cf_handle rk (rs_db s) cf then Inl (StorageError (''unknown CF: '' @ cf))
      else case get_cf rk (rs_db s) cf key of Inl e \<Rightarrow> Inl (StorageError e) | Inr r \<Rightarrow> Inr r)"

definition rs_delete_cf :: "'db rocks \<Rightarrow> string \<Rightarrow> blob \<Rightarrow> 'db rocksdb_storage \<Rightarrow> 'db rocksdb_storage \<times> unit db_result" where
  "rs_delete_cf rk cf key s =
     (if \<not> cf_handle rk (rs_db s) cf then (s, Inl (StorageError (''unknown CF: '' @ cf)))
      else case delete_cf rk (rs_db s) cf key of
          (db, Inl e) \<Rightarrow> (s\<lparr>rs_db := db\<rparr>, Inl (StorageError e))
        | (db, Inr _) \<Rightarrow> (s\<lparr>rs_db := db\<rparr>, Inr ()))"

text \<open>The prefix scan: a limit of 0 still returns one entry, since it is tested after the push.\<close>

fun scan_loop :: "blob \<Rightarrow> nat \<Rightarrow> (string + blob \<times> blob) list \<Rightarrow> (blob \<times> blob) list \<Rightarrow> (blob \<times> blob) list db_result" where
  "scan_loop pre limit [] res = Inr res"
| "scan_loop pre limit (Inl e # items) res = Inl (StorageError e)"
| "scan_loop pre limit (Inr (k, v) # items) res =
     (if \<not> prefix pre k then Inr res
      else let res1 = res @ [(k, v)] in
        if length res1 \<ge> limit then Inr res1 else scan_loop pre limit items res1)"

definition rs_scan_cf :: "'db rocks \<Rightarrow> string \<Rightarrow> blob \<Rightarrow> nat \<Rightarrow> 'db rocksdb_storage \<Rightarrow> (blob \<times> blob) list db_result" where
  "rs_scan_cf rk cf pre limit s =
     (if \<not> cf_handle rk (rs_db s) cf then Inl (StorageError (''unknown CF: '' @ cf))
      else scan_loop pre limit (iterator_from rk (rs_db s) cf pre) [])"

text \<open>Documents under a column family: the default one or that of a collection.\<close>

definition put_doc_cf ::
    "'db rocks \<Rightarrow> doc_codec \<Rightarrow> string \<Rightarrow> document \<Rightarrow> 'db rocksdb_storage \<Rightarrow> 'db rocksdb_storage \<times> unit db_result" where
  "put_doc_cf rk cd cf doc s =
     (case enc_doc cd doc of
        Inl e \<Rightarrow> (s, Inl (SerializationError e))
      | Inr v \<Rightarrow> rs_put_cf rk cf (as_str (doc_id doc)) v s)"

definition get_doc_cf :: "'db rocks \<Rightarrow> doc_codec \<Rightarrow> string \<Rightarrow> document_id \<Rightarrow> 'db rocksdb_storage \<Rightarrow> document option db_result" where
  "get_doc_cf rk cd cf i s =
     (case rs_get_cf rk cf (as_str i) s of
        Inl e \<Rightarrow> Inl e
      | Inr None \<Rightarrow> Inr None
      | Inr (Some bs) \<Rightarrow> (case dec_doc cd bs of Inl e \<Rightarrow> Inl (SerializationError e) | Inr d \<Rightarrow> Inr (Some d)))"

definition put_document :: "'db rocks \<Rightarrow> doc_codec \<Rightarrow> document \<Rightarrow> 'db rocksdb_storage \<Rightarrow> 'db rocksdb_storage \<times> unit db_result" where
  "put_document rk cd doc s = put_doc_cf rk cd CF_DOCUMENTS doc s"

definition get_document :: "'db rocks \<Rightarrow> doc_codec \<Rightarrow> document_id \<Rightarrow> 'db rocksdb_storage \<Rightarrow> document option db_result" where
  "get_document rk cd i s = get_doc_cf rk cd CF_DOCUMENTS i s"

definition delete_document :: "'db rocks \<Rightarrow> document_id \<Rightarrow> 'db rocksdb_storage \<Rightarrow> 'db rocksdb_storage \<times> unit db_result" where
  "delete_document rk i s = rs_delete_cf rk CF_DOCUMENTS (as_str i) s"

fun list_loop :: "doc_codec \<Rightarrow> nat \<Rightarrow> nat \<Rightarrow> nat \<Rightarrow> (string + blob \<times> blob) list \<Rightarrow> document list \<Rightarrow> document list db_result" where
  "list_loop cd offset limit idx [] docs = Inr docs"
| "list_loop cd offset limit idx (Inl e # items) docs = Inl (StorageError e)"
| "list_loop cd offset limit idx (Inr (k, v) # items) docs =
     (if idx < offset then list_loop cd offset limit (Suc idx) items docs
      else if length docs \<ge> limit then Inr docs
      else case dec_doc cd v of
          Inl e \<Rightarrow> Inl (SerializationError e)
        | Inr d \<Rightarrow> list_loop cd offset limit (Suc idx) items (docs @ [d]))"

definition list_documents :: "'db rocks \<Rightarrow> doc_codec \<Rightarrow> nat \<Rightarrow> nat \<Rightarrow> 'db rocksdb_storage \<Rightarrow> document list db_result" where
  "list_documents rk cd offset limit s =
     (if \<not> cf_handle rk (rs_db s) CF_DOCUMENTS then Inl (StorageError ''missing documents CF'')
      else list_loop cd offset limit 0 (iterator_from rk (rs_db s) CF_DOCUMENTS []) [])"

definition collection_cf_name :: "string \<Rightarrow> string" where
  "collection_cf_name c = ''col_'' @ c"

definition create_collection_cf :: "'db rocks \<Rightarrow> string \<Rightarrow> 'db rocksdb_storage \<Rightarrow> 'db rocksdb_storage \<times> unit db_result" where
  "create_collection_cf rk c s =
     (let cf = collection_cf_name c in
      if cf_handle rk (rs_db s) cf then (s, Inr ())
      else case create_cf rk (rs_db s) cf of
          (db, Inl e) \<Rightarrow> (s\<lparr>rs_db := db\<rparr>, Inl (StorageError (''failed to create CF '' @ quoted cf @ '': '' @ e)))
        | (db, Inr _) \<Rightarrow> (s\<lparr>rs_db := db\<rparr>, Inr ()))"

definition drop_collection_cf :: "'db rocks \<Rightarrow> string \<Rightarrow> 'db rocksdb_storage \<Rightarrow> 'db rocksdb_storage \<times> unit db_result" where
  "drop_collection_cf rk c s =
     (let cf = collection_cf_name c in
      case drop_cf rk (rs_db s) cf of
          (db, Inl e) \<Rightarrow> (s\<lparr>rs_db := db\<rparr>, Inl (StorageError (''failed to drop CF '' @ quoted cf @ '': '' @ e)))
        | (db, Inr _) \<Rightarrow> (s\<lparr>rs_db := db\<rparr>, Inr ()))"

definition collection_cf_exists :: "'db rocks \<Rightarrow> string \<Rightarrow> 'db rocksdb_storage \<Rightarrow> bool" where
  "collection_cf_exists rk c s = cf_handle rk (rs_db s) (collection_cf_name c)"

text \<open>The \<^verbatim>\<open>StorageBackend\<close> implementation.\<close>

definition not_found_doc :: "document_id \<Rightarrow> db_error" where
  "not_found_doc i = NotFound (''document '' @ quoted (as_str i) @ '' not found'')"

definition not_found_in :: "string \<Rightarrow> document_id \<Rightarrow> db_error" where
  "not_found_in c i = NotFound (''document '' @ quoted (as_str i) @ '' not found in collection '' @ quoted c)"

definition sb_get :: "'db rocks \<Rightarrow> doc_codec \<Rightarrow> document_id \<Rightarrow> 'db rocksdb_storage \<Rightarrow> document db_result" where
  "sb_get rk cd i s =
     (case get_document rk cd i s of
        Inl e \<Rightarrow> Inl e | Inr None \<Rightarrow> Inl (not_found_doc i) | Inr (Some d) \<Rightarrow> Inr d)"

definition sb_put :: "'db rocks \<Rightarrow> doc_codec \<Rightarrow> document \<Rightarrow> 'db rocksdb_storage \<Rightarrow> 'db rocksdb_storage \<times> unit db_result" where
  "sb_put rk cd d s = put_document rk cd d s"

definition sb_delete :: "'db rocks \<Rightarrow> doc_codec \<Rightarrow> document_id \<Rightarrow> 'db rocksdb_storage \<Rightarrow> 'db rocksdb_storage \<times> unit db_result" where
  "sb_delete rk cd i s =
     (case get_document rk cd i s of
        Inl e \<Rightarrow> (s, Inl e)
      | Inr None \<Rightarrow> (s, Inl (not_found_doc i))
      | Inr (Some _) \<Rightarrow> delete_document rk i s)"

fun range_loop :: "doc_codec \<Rightarrow> string \<Rightarrow> nat \<Rightarrow> (string + blob \<times> blob) list \<Rightarrow> document list \<Rightarrow> document list db_result" where
  "range_loop cd hi limit [] docs = Inr docs"
| "range_loop cd hi limit (Inl e # items) docs = Inl (StorageError e)"
| "range_loop cd hi limit (Inr (k, v) # items) docs =
     (if k > hi then Inr docs
      else case dec_doc cd v of
          Inl e \<Rightarrow> Inl (SerializationError e)
        | Inr d \<Rightarrow> (let docs1 = docs @ [d] in
            if length docs1 \<ge> limit then Inr docs1 else range_loop cd hi limit items docs1))"

definition sb_scan :: "'db rocks \<Rightarrow> doc_codec \<Rightarrow> document_id \<Rightarrow> document_id \<Rightarrow> nat \<Rightarrow> 'db rocksdb_storage \<Rightarrow> document list db_result" where
  "sb_scan rk cd lo hi limit s =
     (if \<not> cf_handle rk (rs_db s) CF_DOCUMENTS then Inl (StorageError ''missing documents CF'')
      else range_loop cd (as_str hi) limit (iterator_from rk (rs_db s) CF_DOCUMENTS (as_str lo)) [])"

definition sb_get_from_collection :: "'db rocks \<Rightarrow> doc_codec \<Rightarrow> string \<Rightarrow> document_id \<Rightarrow> 'db rocksdb_storage \<Rightarrow> document db_result" where
  "sb_get_from_collection rk cd c i s =
     (case get_doc_cf rk cd (collection_cf_name c) i s of
        Inl e \<Rightarrow> Inl e | Inr None \<Rightarrow> Inl (not_found_in c i) | Inr (Some d) \<Rightarrow> Inr d)"

definition sb_put_in_collection :: "'db rocks \<Rightarrow> doc_codec \<Rightarrow> string \<Rightarrow> document \<Rightarrow> 'db rocksdb_storage \<Rightarrow> 'db rocksdb_storage \<times> unit db_result" where
  "sb_put_in_collection rk cd c d s = put_doc_cf rk cd (collection_cf_name c) d s"

definition sb_delete_from_collection :: "'db rocks \<Rightarrow> doc_codec \<Rightarrow> string \<Rightarrow> document_id \<Rightarrow> 'db rocksdb_storage \<Rightarrow> 'db rocksdb_storage \<times> unit db_result" where
  "sb_delete_from_collection rk cd c i s =
     (case get_doc_cf rk cd (collection_cf_name c) i s of
        Inl e \<Rightarrow> (s, Inl e)
      | Inr None \<Rightarrow> (s, Inl (not_found_in c i))
      | Inr (Some _) \<Rightarrow> rs_delete_cf rk (collection_cf_name c) (as_str i) s)"

definition sb_scan_collection :: "'db rocks \<Rightarrow> doc_codec \<Rightarrow> string \<Rightarrow> document_id \<Rightarrow> document_id \<Rightarrow> nat \<Rightarrow> 'db rocksdb_storage \<Rightarrow> document list db_result" where
  "sb_scan_collection rk cd c lo hi limit s =
     (let cf = collection_cf_name c in
      if \<not> cf_handle rk (rs_db s) cf then Inl (StorageError (''missing CF: '' @ cf))
      else range_loop cd (as_str hi) limit (iterator_from rk (rs_db s) cf (as_str lo)) [])"

section \<open>InMemoryStorage\<close>

record in_memory_storage =
  im_docs :: "(string, document) fmap"
  im_collection_docs :: "(string, document) fmap"

definition im_new :: in_memory_storage where
  "im_new = \<lparr>im_docs = fmempty, im_collection_docs = fmempty\<rparr>"

definition collection_key :: "string \<Rightarrow> string \<Rightarrow> string" where
  "collection_key c i = c @ '':'' @ i"

definition im_get :: "document_id \<Rightarrow> in_memory_storage \<Rightarrow> document db_result" where
  "im_get i s = (case fmlookup (im_docs s) (as_str i) of Some d \<Rightarrow> Inr d | None \<Rightarrow> Inl (NotFound (as_str i)))"

definition im_put :: "document \<Rightarrow> in_memory_storage \<Rightarrow> in_memory_storage \<times> unit db_result" where
  "im_put d s = (s\<lparr>im_docs := fmupd (as_str (doc_id d)) d (im_docs s)\<rparr>, Inr ())"

definition im_delete :: "document_id \<Rightarrow> in_memory_storage \<Rightarrow> in_memory_storage \<times> unit db_result" where
  "im_delete i s =
     (case fmlookup (im_docs s) (as_str i) of
        Some _ \<Rightarrow> (s\<lparr>im_docs := fmdrop (as_str i) (im_docs s)\<rparr>, Inr ())
      | None \<Rightarrow> (s, Inl (NotFound (as_str i))))"

definition im_scan ::
    "((string, document) fmap \<Rightarrow> (string \<times> document) list) \<Rightarrow> document_id \<Rightarrow> document_id \<Rightarrow> nat \<Rightarrow>
     in_memory_storage \<Rightarrow> document list db_result" where
  "im_scan it lo hi limit s = Inr (map snd (it (im_docs s)))"

definition im_put_in_collection :: "string \<Rightarrow> document \<Rightarrow> in_memory_storage \<Rightarrow> in_memory_storage \<times> unit db_result" where
  "im_put_in_collection c d s =
     (s\<lparr>im_docs := fmupd (as_str (doc_id d)) d (im_docs s),
        im_collection_docs := fmupd (collection_key c (as_str (doc_id d))) d (im_collection_docs s)\<rparr>, Inr ())"

definition im_get_from_collection :: "string \<Rightarrow> document_id \<Rightarrow> in_memory_storage \<Rightarrow> document db_result" where
  "im_get_from_collection c i s =
     (case fmlookup (im_collection_docs s) (collection_key c (as_str i)) of
        Some d \<Rightarrow> Inr d | None \<Rightarrow> Inl (NotFound (as_str i)))"

definition im_delete_from_collection :: "string \<Rightarrow> document_id \<Rightarrow> in_memory_storage \<Rightarrow> in_memory_storage \<times> unit db_result" where
  "im_delete_from_collection c i s =
     (let s1 = s\<lparr>im_docs := fmdrop (as_str i) (im_docs s)\<rparr>; k = collection_key c (as_str i) in
      case fmlookup (im_collection_docs s1) k of
        Some _ \<Rightarrow> (s1\<lparr>im_collection_docs := fmdrop k (im_collection_docs s1)\<rparr>, Inr ())
      | None \<Rightarrow> (s1, Inl (NotFound (as_str i))))"

section \<open>Documented behaviour of the engine\<close>

text \<open>
  RocksDB without I/O errors: reads return what the column family holds, a write batch applies all
  its puts in order, iterators run in key order from their start key, creating and dropping column
  families acts on the set of column families, and a database opens exactly when every existing
  column family (but \<open>default\<close>) is listed; missing ones are created.
\<close>

definition apply_put :: "string \<times> blob \<times> blob \<Rightarrow> (string \<Rightarrow> (blob, blob) fmap option) \<Rightarrow> string \<Rightarrow> (blob, blob) fmap option" where
  "apply_put w f = (case w of (cf, k, v) \<Rightarrow> f(cf := map_option (fmupd k v) (f cf)))"

definition rocks_laws :: "'db rocks \<Rightarrow> bool" where
  "rocks_laws rk \<longleftrightarrow>
     (\<forall>db cf. cf_handle rk db cf \<longleftrightarrow> cf_view rk db cf \<noteq> None) \<and>
     (\<forall>db cf m k. cf_view rk db cf = Some m \<longrightarrow> get_cf rk db cf k = Inr (fmlookup m k)) \<and>
     (\<forall>db ws. (\<forall>w \<in> set ws. cf_view rk db (fst w) \<noteq> None) \<longrightarrow>
        (\<exists>db'. write_batch rk db ws = (db', Inr ()) \<and> cf_view rk db' = fold apply_put ws (cf_view rk db))) \<and>
     (\<forall>db cf m k. cf_view rk db cf = Some m \<longrightarrow>
        (\<exists>db'. delete_cf rk db cf k = (db', Inr ()) \<and> cf_view rk db' = (cf_view rk db)(cf \<mapsto> fmdrop k m))) \<and>
     (\<forall>db cf m start. cf_view rk db cf = Some m \<longrightarrow>
        iterator_from rk db cf start = map Inr (filter (\<lambda>kv. start \<le> fst kv) (btree_iter m))) \<and>
     (\<forall>db cf. cf_view rk db cf = None \<longrightarrow>
        (\<exists>db'. create_cf rk db cf = (db', Inr ()) \<and> cf_view rk db' = (cf_view rk db)(cf \<mapsto> fmempty))) \<and>
     (\<forall>db cf. cf_view rk db cf \<noteq> None \<longrightarrow>
        (\<exists>db'. drop_cf rk db cf = (db', Inr ()) \<and> cf_view rk db' = (cf_view rk db)(cf := None))) \<and>
     (\<forall>db cf. cf_view rk db cf = None \<longrightarrow> (\<exists>e. drop_cf rk db cf = (db, Inl e))) \<and>
     (\<forall>disk cfs. (\<exists>cf. cf_view rk disk cf \<noteq> None \<and> cf \<notin> set cfs \<and> cf \<noteq> ''default'') \<longrightarrow>
        (\<exists>e. open_cf rk disk cfs = Inl e)) \<and>
     (\<forall>disk cfs. (\<forall>cf. cf_view rk disk cf \<noteq> None \<longrightarrow> cf \<in> set cfs \<or> cf = ''default'') \<longrightarrow>
        (\<exists>db. open_cf rk disk cfs = Inr db \<and>
           (\<forall>cf. cf_view rk db cf =
              (if cf_view rk disk cf = None \<and> (cf \<in> set cfs \<or> cf = ''default'') then Some fmempty else cf_view rk disk cf))))"

text \<open>Every document has an encoding, which decodes to it.\<close>

definition codec_laws :: "doc_codec \<Rightarrow> bool" where
  "codec_laws cd \<longleftrightarrow> (\<forall>d. \<exists>b. enc_doc cd d = Inr b \<and> dec_doc cd b = Inr d)"

lemma rocks_handle: "rocks_laws rk \<Longrightarrow> cf_handle rk db cf \<longleftrightarrow> cf_view rk db cf \<noteq> None"
  by (simp add: rocks_laws_def)

lemma rocks_get: "rocks_laws rk \<Longrightarrow> cf_view rk db cf = Some m \<Longrightarrow> get_cf rk db cf k = Inr (fmlookup m k)"
  by (simp add: rocks_laws_def)

lemma rocks_write:
  assumes "rocks_laws rk" "\<And>w. w \<in> set ws \<Longrightarrow> cf_view rk db (fst w) \<noteq> None"
  obtains db' where "write_batch rk db ws = (db', Inr ())" "cf_view rk db' = fold apply_put ws (cf_view rk db)"
  using assms unfolding rocks_laws_def by metis

lemma rocks_delete:
  assumes "rocks_laws rk" "cf_view rk db cf = Some m"
  obtains db' where "delete_cf rk db cf k = (db', Inr ())" "cf_view rk db' = (cf_view rk db)(cf \<mapsto> fmdrop k m)"
  using assms unfolding rocks_laws_def by metis

lemma rocks_iter:
  "rocks_laws rk \<Longrightarrow> cf_view rk db cf = Some m \<Longrightarrow>
    iterator_from rk db cf start = map Inr (filter (\<lambda>kv. start \<le> fst kv) (btree_iter m))"
  by (simp add: rocks_laws_def)

lemma rocks_create:
  assumes "rocks_laws rk" "cf_view rk db cf = None"
  obtains db' where "create_cf rk db cf = (db', Inr ())" "cf_view rk db' = (cf_view rk db)(cf \<mapsto> fmempty)"
  using assms unfolding rocks_laws_def by metis

lemma rocks_drop:
  assumes "rocks_laws rk" "cf_view rk db cf \<noteq> None"
  obtains db' where "drop_cf rk db cf = (db', Inr ())" "cf_view rk db' = (cf_view rk db)(cf := None)"
  using assms unfolding rocks_laws_def by metis

lemma rocks_drop_absent:
  assumes "rocks_laws rk" "cf_view rk db cf = None"
  obtains e where "drop_cf rk db cf = (db, Inl e)"
  using assms unfolding rocks_laws_def by metis

lemma rocks_open_fails:
  assumes "rocks_laws rk" "cf_view rk disk cf \<noteq> None" "cf \<notin> set cfs" "cf \<noteq> ''default''"
  obtains e where "open_cf rk disk cfs = Inl e"
  using assms unfolding rocks_laws_def by metis

lemma rocks_open:
  assumes "rocks_laws rk" "\<And>cf. cf_view rk disk cf \<noteq> None \<Longrightarrow> cf \<in> set cfs \<or> cf = ''default''"
  obtains db where "open_cf rk disk cfs = Inr db"
    "\<forall>cf. cf_view rk db cf =
       (if cf_view rk disk cf = None \<and> (cf \<in> set cfs \<or> cf = ''default'') then Some fmempty else cf_view rk disk cf)"
proof -
  have "\<forall>disk cfs. (\<forall>cf. cf_view rk disk cf \<noteq> None \<longrightarrow> cf \<in> set cfs \<or> cf = ''default'') \<longrightarrow>
        (\<exists>db. open_cf rk disk cfs = Inr db \<and>
           (\<forall>cf. cf_view rk db cf =
              (if cf_view rk disk cf = None \<and> (cf \<in> set cfs \<or> cf = ''default'') then Some fmempty else cf_view rk disk cf)))"
    using assms(1) unfolding rocks_laws_def by (elim conjE) assumption
  from this [rule_format, of disk cfs] assms(2) that show ?thesis by blast
qed

lemma codec_roundtrip:
  assumes "codec_laws cd"
  obtains b where "enc_doc cd d = Inr b" "dec_doc cd b = Inr d"
  using assms unfolding codec_laws_def by metis

section \<open>The contract of a document store\<close>

text \<open>
  What the clients of \<^verbatim>\<open>StorageBackend\<close> rely on, over an abstraction \<open>docs\<close> of the state
  to a map from document ids to documents.
\<close>

datatype store_cmd = CPut document | CDelete document_id

fun spec_cmd :: "store_cmd \<Rightarrow> (string \<Rightarrow> document option) \<Rightarrow> string \<Rightarrow> document option" where
  "spec_cmd (CPut d) m = m(as_str (doc_id d) \<mapsto> d)"
| "spec_cmd (CDelete i) m = m(as_str i := None)"

locale storage_backend =
  fixes inv :: "'s \<Rightarrow> bool"
    and docs :: "'s \<Rightarrow> string \<Rightarrow> document option"
    and get :: "document_id \<Rightarrow> 's \<Rightarrow> document db_result"
    and put :: "document \<Rightarrow> 's \<Rightarrow> 's \<times> unit db_result"
    and del :: "document_id \<Rightarrow> 's \<Rightarrow> 's \<times> unit db_result"
  assumes get_found: "inv s \<Longrightarrow> docs s (as_str i) = Some d \<Longrightarrow> get i s = Inr d"
    and get_absent: "inv s \<Longrightarrow> docs s (as_str i) = None \<Longrightarrow> \<exists>m. get i s = Inl (NotFound m)"
    and put_ok: "inv s \<Longrightarrow> \<exists>s'. put d s = (s', Inr ()) \<and> inv s' \<and> docs s' = (docs s)(as_str (doc_id d) \<mapsto> d)"
    and del_found: "inv s \<Longrightarrow> docs s (as_str i) = Some d \<Longrightarrow>
        \<exists>s'. del i s = (s', Inr ()) \<and> inv s' \<and> docs s' = (docs s)(as_str i := None)"
    and del_absent: "inv s \<Longrightarrow> docs s (as_str i) = None \<Longrightarrow>
        \<exists>s' m. del i s = (s', Inl (NotFound m)) \<and> inv s' \<and> docs s' = docs s"
begin

definition run_cmd :: "store_cmd \<Rightarrow> 's \<Rightarrow> 's" where
  "run_cmd c s = (case c of CPut d \<Rightarrow> fst (put d s) | CDelete i \<Rightarrow> fst (del i s))"

lemma run_cmd_refines:
  assumes "inv s"
  shows "inv (run_cmd c s) \<and> docs (run_cmd c s) = spec_cmd c (docs s)"
proof (cases c)
  case (CPut d)
  then show ?thesis using put_ok [OF assms, of d] by (auto simp: run_cmd_def)
next
  case (CDelete i)
  show ?thesis
  proof (cases "docs s (as_str i)")
    case None
    then show ?thesis using del_absent [OF assms None] CDelete by (auto simp: run_cmd_def)
  next
    case (Some d)
    then show ?thesis using del_found [OF assms Some] CDelete by (auto simp: run_cmd_def)
  qed
qed

lemma run_cmds_refine:
  "inv s \<Longrightarrow> inv (fold run_cmd cs s) \<and> docs (fold run_cmd cs s) = fold spec_cmd cs (docs s)"
  by (induction cs arbitrary: s) (simp_all add: run_cmd_refines)

lemma get_exact:
  assumes "inv s"
  shows "get i s = Inr d \<longleftrightarrow> docs s (as_str i) = Some d"
  using get_found [OF assms, of i] get_absent [OF assms, of i] by (cases "docs s (as_str i)") auto

lemma reads_see_last_write:
  assumes "inv s" "\<forall>c \<in> set cs. (case c of CPut d' \<Rightarrow> as_str (doc_id d') | CDelete i \<Rightarrow> as_str i) \<noteq> as_str (doc_id d)"
  shows "get (doc_id d) (fold run_cmd (CPut d # cs) s) = Inr d"
proof -
  have keep: "fold spec_cmd cs m (as_str (doc_id d)) = m (as_str (doc_id d))" for m
    using assms(2) by (induction cs arbitrary: m) (auto split: store_cmd.splits)
  have "inv (fold run_cmd (CPut d # cs) s)" and
    "docs (fold run_cmd (CPut d # cs) s) = fold spec_cmd (CPut d # cs) (docs s)"
    using run_cmds_refine [OF assms(1)] by blast+
  with keep [of "spec_cmd (CPut d) (docs s)"] show ?thesis by (simp add: get_exact)
qed

end

text \<open>The in-memory backend keeps the contract, for the global documents and for each collection.\<close>

interpretation im_global: storage_backend "\<lambda>_. True" "\<lambda>s. fmlookup (im_docs s)" im_get im_put im_delete
  by unfold_locales (auto simp: im_get_def im_put_def im_delete_def fun_eq_iff)

lemma collection_key_inj [simp]: "collection_key c i = collection_key c j \<longleftrightarrow> i = j"
  by (simp add: collection_key_def)

interpretation im_coll: storage_backend "\<lambda>_. True" "\<lambda>s i. fmlookup (im_collection_docs s) (collection_key c i)"
    "im_get_from_collection c" "im_put_in_collection c" "im_delete_from_collection c" for c
  by unfold_locales
    (auto simp: im_get_from_collection_def im_put_in_collection_def im_delete_from_collection_def fun_eq_iff Let_def)

section \<open>RocksDB implements a map of document maps\<close>

text \<open>
  A target is the default column family (\<open>None\<close>) or that of a collection. The abstract state maps
  each existing target to its documents.
\<close>

definition cf_of :: "string option \<Rightarrow> string" where
  "cf_of t = (case t of None \<Rightarrow> CF_DOCUMENTS | Some c \<Rightarrow> collection_cf_name c)"

definition docs_in :: "doc_codec \<Rightarrow> (blob, blob) fmap \<Rightarrow> string \<Rightarrow> document option" where
  "docs_in cd m k = (case fmlookup m k of None \<Rightarrow> None
     | Some b \<Rightarrow> (case dec_doc cd b of Inl _ \<Rightarrow> None | Inr d \<Rightarrow> Some d))"

definition rs_abs :: "'db rocks \<Rightarrow> doc_codec \<Rightarrow> 'db rocksdb_storage \<Rightarrow> string option \<Rightarrow> (string \<Rightarrow> document option) option" where
  "rs_abs rk cd s t = map_option (docs_in cd) (cf_view rk (rs_db s) (cf_of t))"

definition decodes :: "doc_codec \<Rightarrow> (blob, blob) fmap \<Rightarrow> bool" where
  "decodes cd m \<longleftrightarrow> (\<forall>k b. fmlookup m k = Some b \<longrightarrow> (\<exists>d. dec_doc cd b = Inr d))"

definition rs_inv :: "'db rocks \<Rightarrow> doc_codec \<Rightarrow> 'db rocksdb_storage \<Rightarrow> bool" where
  "rs_inv rk cd s \<longleftrightarrow> cf_view rk (rs_db s) CF_DOCUMENTS \<noteq> None \<and> cf_view rk (rs_db s) CF_SEQUENCE \<noteq> None \<and>
     (\<forall>t m. cf_view rk (rs_db s) (cf_of t) = Some m \<longrightarrow> decodes cd m) \<and>
     (\<forall>m b. cf_view rk (rs_db s) CF_SEQUENCE = Some m \<longrightarrow> fmlookup m ''current_seq'' = Some b \<longrightarrow> length b = 8) \<and>
     (\<forall>cf. cf_view rk (rs_db s) cf \<noteq> None \<longrightarrow> cf \<in> set COLUMN_FAMILIES \<or> cf = ''default'' \<or> (\<exists>c. cf = cf_of (Some c)))"

lemma cf_of_inj [simp]: "cf_of t = cf_of u \<longleftrightarrow> t = u"
  by (auto simp: cf_of_def CF_DOCUMENTS_def collection_cf_name_def split: option.splits)

lemma cf_of_not_sequence [simp]: "cf_of t \<noteq> CF_SEQUENCE" "CF_SEQUENCE \<noteq> cf_of t"
  by (auto simp: cf_of_def CF_DOCUMENTS_def CF_SEQUENCE_def collection_cf_name_def split: option.splits)

lemma CF_DOCUMENTS_cf_of: "CF_DOCUMENTS = cf_of None"
  by (simp add: cf_of_def)

lemma collection_cf_of: "collection_cf_name c = cf_of (Some c)"
  by (simp add: cf_of_def)

lemma docs_in_upd [simp]: "dec_doc cd b = Inr d \<Longrightarrow> docs_in cd (fmupd k b m) = (docs_in cd m)(k \<mapsto> d)"
  by (auto simp: docs_in_def fun_eq_iff)

lemma docs_in_drop [simp]: "docs_in cd (fmdrop k m) = (docs_in cd m)(k := None)"
  by (auto simp: docs_in_def fun_eq_iff)

lemma docs_in_empty [simp]: "docs_in cd fmempty = Map.empty"
  by (auto simp: docs_in_def fun_eq_iff)

lemma decodes_upd: "decodes cd m \<Longrightarrow> dec_doc cd b = Inr d \<Longrightarrow> decodes cd (fmupd k b m)"
  by (auto simp: decodes_def split: if_splits)

lemma decodes_drop: "decodes cd m \<Longrightarrow> decodes cd (fmdrop k m)"
  by (auto simp: decodes_def split: if_splits)

lemma get_doc_cf_exact:
  assumes "rocks_laws rk" "rs_inv rk cd s" "rs_abs rk cd s t = Some f"
  shows "get_doc_cf rk cd (cf_of t) i s = Inr (f (as_str i))"
proof -
  obtain m where m: "cf_view rk (rs_db s) (cf_of t) = Some m" and f: "f = docs_in cd m"
    using assms(3) by (auto simp: rs_abs_def)
  have "decodes cd m" using assms(2) m unfolding rs_inv_def by blast
  then show ?thesis
    using assms(1) m f
    by (fastforce simp: get_doc_cf_def rs_get_cf_def rocks_handle rocks_get docs_in_def decodes_def split: option.splits sum.splits)
qed

lemma get_doc_cf_absent:
  assumes "rocks_laws rk" "rs_abs rk cd s t = None"
  shows "get_doc_cf rk cd (cf_of t) i s = Inl (StorageError (''unknown CF: '' @ cf_of t))"
  using assms by (simp add: get_doc_cf_def rs_get_cf_def rocks_handle rs_abs_def)

lemma put_doc_cf_exact:
  assumes "rocks_laws rk" "codec_laws cd" "rs_inv rk cd s" "rs_abs rk cd s t = Some f"
  obtains s' where "put_doc_cf rk cd (cf_of t) d s = (s', Inr ())" "rs_inv rk cd s'"
    "rs_abs rk cd s' = (rs_abs rk cd s)(t \<mapsto> f(as_str (doc_id d) \<mapsto> d))"
proof -
  obtain b where b: "enc_doc cd d = Inr b" "dec_doc cd b = Inr d" by (rule codec_roundtrip [OF assms(2)])
  obtain m where m: "cf_view rk (rs_db s) (cf_of t) = Some m" and f: "f = docs_in cd m"
    using assms(4) by (auto simp: rs_abs_def)
  obtain ms where ms: "cf_view rk (rs_db s) CF_SEQUENCE = Some ms"
    using assms(3) by (auto simp: rs_inv_def)
  let ?k = "as_str (doc_id d)" and ?sq = "rs_sequence s + 1"
  let ?ws = "[(cf_of t, ?k, b), (CF_SEQUENCE, ''current_seq'', seq_bytes ?sq)]"
  obtain db where db: "write_batch rk (rs_db s) ?ws = (db, Inr ())"
      "cf_view rk db = fold apply_put ?ws (cf_view rk (rs_db s))"
    by (rule rocks_write [OF assms(1), of ?ws "rs_db s"]) (use m ms in auto)
  let ?s = "s\<lparr>rs_sequence := ?sq, rs_db := db\<rparr>"
  have view: "cf_view rk db (cf_of u) = (if u = t then Some (fmupd ?k b m) else cf_view rk (rs_db s) (cf_of u))" for u
    using m by (simp add: db(2) apply_put_def)
  have seqv: "cf_view rk db CF_SEQUENCE = Some (fmupd ''current_seq'' (seq_bytes ?sq) ms)"
    using ms by (simp add: db(2) apply_put_def)
  have cfs: "(\<exists>y. cf_view rk db cf = Some y) \<longleftrightarrow> (\<exists>y. cf_view rk (rs_db s) cf = Some y)" for cf
    using m ms by (auto simp: db(2) apply_put_def)
  have "put_doc_cf rk cd (cf_of t) d s = (?s, Inr ())"
    using b m ms db(1) by (simp add: put_doc_cf_def rs_put_cf_def Let_def rocks_handle [OF assms(1)])
  moreover have "rs_inv rk cd ?s"
    using assms(3) m decodes_upd [OF _ b(2)]
    by (simp add: rs_inv_def view seqv cfs CF_DOCUMENTS_cf_of seq_bytes_def)
  moreover have "rs_abs rk cd ?s = (rs_abs rk cd s)(t \<mapsto> f(?k \<mapsto> d))"
    using f b by (auto simp: rs_abs_def view fun_eq_iff)
  ultimately show ?thesis by (rule that)
qed

lemma put_doc_cf_absent:
  assumes "rocks_laws rk" "codec_laws cd" "rs_inv rk cd s" "rs_abs rk cd s t = None"
  obtains s' where "put_doc_cf rk cd (cf_of t) d s = (s', Inl (StorageError (''unknown CF: '' @ cf_of t)))" "rs_inv rk cd s'"
    "rs_abs rk cd s' = rs_abs rk cd s"
proof -
  obtain b where b: "enc_doc cd d = Inr b" by (rule codec_roundtrip [OF assms(2)])
  let ?s = "s\<lparr>rs_sequence := rs_sequence s + 1\<rparr>"
  have "put_doc_cf rk cd (cf_of t) d s = (?s, Inl (StorageError (''unknown CF: '' @ cf_of t)))"
    using b assms(4) by (simp add: put_doc_cf_def rs_put_cf_def Let_def rocks_handle [OF assms(1)] rs_abs_def)
  moreover have "rs_inv rk cd ?s" using assms(3) by (simp add: rs_inv_def)
  moreover have "rs_abs rk cd ?s = rs_abs rk cd s" by (simp add: rs_abs_def fun_eq_iff)
  ultimately show ?thesis by (rule that)
qed

lemma rs_delete_cf_exact:
  assumes "rocks_laws rk" "rs_inv rk cd s" "rs_abs rk cd s t = Some f"
  obtains s' where "rs_delete_cf rk (cf_of t) k s = (s', Inr ())" "rs_inv rk cd s'"
    "rs_abs rk cd s' = (rs_abs rk cd s)(t \<mapsto> f(k := None))"
proof -
  obtain m where m: "cf_view rk (rs_db s) (cf_of t) = Some m" and f: "f = docs_in cd m"
    using assms(3) by (auto simp: rs_abs_def)
  obtain db where db: "delete_cf rk (rs_db s) (cf_of t) k = (db, Inr ())"
      "cf_view rk db = (cf_view rk (rs_db s))(cf_of t \<mapsto> fmdrop k m)"
    by (rule rocks_delete [OF assms(1) m])
  let ?s = "s\<lparr>rs_db := db\<rparr>"
  have "rs_delete_cf rk (cf_of t) k s = (?s, Inr ())"
    using m db(1) by (simp add: rs_delete_cf_def rocks_handle [OF assms(1)])
  moreover have "rs_inv rk cd ?s"
    using assms(2) m decodes_drop by (auto simp: rs_inv_def db(2) CF_DOCUMENTS_cf_of)
  moreover have "rs_abs rk cd ?s = (rs_abs rk cd s)(t \<mapsto> f(k := None))"
    using f by (auto simp: rs_abs_def db(2) fun_eq_iff)
  ultimately show ?thesis by (rule that)
qed

text \<open>
  One operation of \<^verbatim>\<open>StorageBackend\<close> on the RocksDB store, and what it does to the
  abstract state: the new state and whether the operation succeeds.
\<close>

datatype store_op =
    OpCreate string
  | OpDrop string
  | OpPut "string option" document
  | OpDelete "string option" document_id

fun rs_step :: "'db rocks \<Rightarrow> doc_codec \<Rightarrow> store_op \<Rightarrow> 'db rocksdb_storage \<Rightarrow> 'db rocksdb_storage \<times> unit db_result" where
  "rs_step rk cd (OpCreate c) s = create_collection_cf rk c s"
| "rs_step rk cd (OpDrop c) s = drop_collection_cf rk c s"
| "rs_step rk cd (OpPut None d) s = sb_put rk cd d s"
| "rs_step rk cd (OpPut (Some c) d) s = sb_put_in_collection rk cd c d s"
| "rs_step rk cd (OpDelete None i) s = sb_delete rk cd i s"
| "rs_step rk cd (OpDelete (Some c) i) s = sb_delete_from_collection rk cd c i s"

definition rs_read :: "'db rocks \<Rightarrow> doc_codec \<Rightarrow> string option \<Rightarrow> document_id \<Rightarrow> 'db rocksdb_storage \<Rightarrow> document db_result" where
  "rs_read rk cd t i s = (case t of None \<Rightarrow> sb_get rk cd i s | Some c \<Rightarrow> sb_get_from_collection rk cd c i s)"

type_synonym store_spec = "string option \<Rightarrow> (string \<Rightarrow> document option) option"

fun spec_step :: "store_op \<Rightarrow> store_spec \<Rightarrow> store_spec \<times> bool" where
  "spec_step (OpCreate c) a = (if a (Some c) = None then a(Some c \<mapsto> Map.empty) else a, True)"
| "spec_step (OpDrop c) a = (a(Some c := None), a (Some c) \<noteq> None)"
| "spec_step (OpPut t d) a = (case a t of None \<Rightarrow> (a, False) | Some f \<Rightarrow> (a(t \<mapsto> f(as_str (doc_id d) \<mapsto> d)), True))"
| "spec_step (OpDelete t i) a = (case a t of None \<Rightarrow> (a, False)
     | Some f \<Rightarrow> (a(t \<mapsto> f(as_str i := None)), f (as_str i) \<noteq> None))"

definition spec_read :: "store_spec \<Rightarrow> string option \<Rightarrow> document_id \<Rightarrow> document option" where
  "spec_read a t i = (case a t of None \<Rightarrow> None | Some f \<Rightarrow> f (as_str i))"

primrec rs_run :: "'db rocks \<Rightarrow> doc_codec \<Rightarrow> store_op list \<Rightarrow> 'db rocksdb_storage \<Rightarrow> 'db rocksdb_storage \<times> unit db_result list" where
  "rs_run rk cd [] s = (s, [])"
| "rs_run rk cd (p # ps) s =
     (let (s1, r) = rs_step rk cd p s; (s2, rs) = rs_run rk cd ps s1 in (s2, r # rs))"

primrec spec_run :: "store_op list \<Rightarrow> store_spec \<Rightarrow> store_spec \<times> bool list" where
  "spec_run [] a = (a, [])"
| "spec_run (p # ps) a = (let (a1, b) = spec_step p a; (a2, bs) = spec_run ps a1 in (a2, b # bs))"

definition is_ok :: "'a + 'b \<Rightarrow> bool" where
  "is_ok r \<longleftrightarrow> (case r of Inl _ \<Rightarrow> False | Inr _ \<Rightarrow> True)"

lemma is_ok_simps [simp]: "is_ok (Inr x)" "\<not> is_ok (Inl e)"
  by (simp_all add: is_ok_def)

lemma create_collection_step:
  assumes "rocks_laws rk" "rs_inv rk cd s"
  shows "\<exists>s' r. rs_step rk cd (OpCreate c) s = (s', r) \<and> rs_inv rk cd s' \<and> (rs_abs rk cd s', is_ok r) = spec_step (OpCreate c) (rs_abs rk cd s)"
proof (cases "cf_view rk (rs_db s) (cf_of (Some c))")
  case None
  obtain db where db: "create_cf rk (rs_db s) (cf_of (Some c)) = (db, Inr ())"
      "cf_view rk db = (cf_view rk (rs_db s))(cf_of (Some c) \<mapsto> fmempty)"
    by (rule rocks_create [OF assms(1) None])
  let ?s = "s\<lparr>rs_db := db\<rparr>"
  have "rs_step rk cd (OpCreate c) s = (?s, Inr ())"
    using None db(1) by (simp add: create_collection_cf_def collection_cf_of Let_def rocks_handle [OF assms(1)])
  moreover have "rs_inv rk cd ?s"
    using assms(2) by (auto simp: rs_inv_def db(2) CF_DOCUMENTS_cf_of decodes_def)
  moreover have "rs_abs rk cd ?s = (rs_abs rk cd s)(Some c \<mapsto> Map.empty)"
    by (auto simp: rs_abs_def db(2) fun_eq_iff)
  moreover have "rs_abs rk cd s (Some c) = None" using None by (simp add: rs_abs_def)
  ultimately show ?thesis by simp
next
  case (Some m)
  then have "rs_step rk cd (OpCreate c) s = (s, Inr ())"
    by (simp add: create_collection_cf_def collection_cf_of Let_def rocks_handle [OF assms(1)])
  moreover have "rs_abs rk cd s (Some c) \<noteq> None" using Some by (simp add: rs_abs_def)
  ultimately show ?thesis using assms(2) by auto
qed

lemma drop_collection_step:
  assumes "rocks_laws rk" "rs_inv rk cd s"
  shows "\<exists>s' r. rs_step rk cd (OpDrop c) s = (s', r) \<and> rs_inv rk cd s' \<and> (rs_abs rk cd s', is_ok r) = spec_step (OpDrop c) (rs_abs rk cd s)"
proof (cases "cf_view rk (rs_db s) (cf_of (Some c))")
  case None
  obtain e where e: "drop_cf rk (rs_db s) (cf_of (Some c)) = (rs_db s, Inl e)"
    by (rule rocks_drop_absent [OF assms(1) None])
  have abs: "rs_abs rk cd s (Some c) = None" using None by (simp add: rs_abs_def)
  then have same: "(rs_abs rk cd s)(Some c := None) = rs_abs rk cd s" by (simp add: fun_upd_idem_iff)
  obtain e' where "rs_step rk cd (OpDrop c) s = (s, Inl e')"
    using e by (simp add: drop_collection_cf_def collection_cf_of Let_def)
  with assms(2) abs same show ?thesis by simp
next
  case (Some m)
  obtain db where db: "drop_cf rk (rs_db s) (cf_of (Some c)) = (db, Inr ())"
      "cf_view rk db = (cf_view rk (rs_db s))(cf_of (Some c) := None)"
    by (rule rocks_drop [OF assms(1), of "rs_db s" "cf_of (Some c)"]) (use Some in auto)
  let ?s = "s\<lparr>rs_db := db\<rparr>"
  have "rs_step rk cd (OpDrop c) s = (?s, Inr ())"
    using db(1) by (simp add: drop_collection_cf_def collection_cf_of Let_def)
  moreover have "rs_inv rk cd ?s"
    using assms(2) by (auto simp: rs_inv_def db(2) CF_DOCUMENTS_cf_of split: if_splits)
  moreover have "rs_abs rk cd ?s = (rs_abs rk cd s)(Some c := None)"
    by (auto simp: rs_abs_def db(2) fun_eq_iff)
  moreover have "rs_abs rk cd s (Some c) \<noteq> None" using Some by (simp add: rs_abs_def)
  ultimately show ?thesis by simp
qed

lemma rs_step_put: "rs_step rk cd (OpPut t d) s = put_doc_cf rk cd (cf_of t) d s"
  by (cases t) (simp_all add: sb_put_def put_document_def sb_put_in_collection_def CF_DOCUMENTS_cf_of collection_cf_of)

lemma put_step:
  assumes "rocks_laws rk" "codec_laws cd" "rs_inv rk cd s"
  shows "\<exists>s' r. rs_step rk cd (OpPut t d) s = (s', r) \<and> rs_inv rk cd s' \<and> (rs_abs rk cd s', is_ok r) = spec_step (OpPut t d) (rs_abs rk cd s)"
proof (cases "rs_abs rk cd s t")
  case None
  show ?thesis by (rule put_doc_cf_absent [OF assms None, of d]) (use None in \<open>simp add: rs_step_put\<close>)
next
  case (Some f)
  show ?thesis by (rule put_doc_cf_exact [OF assms Some, of d]) (use Some in \<open>simp add: rs_step_put\<close>)
qed

lemma delete_step_found:
  assumes "rocks_laws rk" "rs_inv rk cd s" "rs_abs rk cd s t = Some f" "f (as_str i) = Some d"
  shows "rs_step rk cd (OpDelete t i) s = rs_delete_cf rk (cf_of t) (as_str i) s"
  using get_doc_cf_exact [OF assms(1-3), of i] assms(4)
  by (cases t) (simp_all add: sb_delete_def get_document_def delete_document_def sb_delete_from_collection_def
    CF_DOCUMENTS_cf_of collection_cf_of)

lemma delete_step_missing:
  assumes "rocks_laws rk" "rs_inv rk cd s" "rs_abs rk cd s t = Some f" "f (as_str i) = None"
  shows "\<exists>m. rs_step rk cd (OpDelete t i) s = (s, Inl (NotFound m))"
  using get_doc_cf_exact [OF assms(1-3), of i] assms(4)
  by (cases t) (simp_all add: sb_delete_def get_document_def sb_delete_from_collection_def
    CF_DOCUMENTS_cf_of collection_cf_of not_found_doc_def not_found_in_def)

lemma delete_step_no_target:
  assumes "rocks_laws rk" "rs_abs rk cd s t = None"
  shows "\<exists>e. rs_step rk cd (OpDelete t i) s = (s, Inl (StorageError e))"
  using get_doc_cf_absent [OF assms, of i]
  by (cases t) (simp_all add: sb_delete_def get_document_def sb_delete_from_collection_def
    CF_DOCUMENTS_cf_of collection_cf_of)

lemma delete_step:
  assumes "rocks_laws rk" "rs_inv rk cd s"
  shows "\<exists>s' r. rs_step rk cd (OpDelete t i) s = (s', r) \<and> rs_inv rk cd s' \<and> (rs_abs rk cd s', is_ok r) = spec_step (OpDelete t i) (rs_abs rk cd s)"
proof (cases "rs_abs rk cd s t")
  case None
  then show ?thesis using delete_step_no_target [OF assms(1) None, of i] assms(2) by auto
next
  case (Some f)
  show ?thesis
  proof (cases "f (as_str i)")
    case None
    then have "(rs_abs rk cd s)(t \<mapsto> f(as_str i := None)) = rs_abs rk cd s"
      using Some by (auto simp: fun_eq_iff)
    then show ?thesis using delete_step_missing [OF assms Some None] assms(2) Some None by auto
  next
    case (Some d)
    note f = \<open>rs_abs rk cd s t = Some f\<close>
    show ?thesis
      by (rule rs_delete_cf_exact [OF assms f, of "as_str i"])
        (use Some f in \<open>simp add: delete_step_found [OF assms f Some]\<close>)
  qed
qed

lemma rs_step_refines:
  assumes "rocks_laws rk" "codec_laws cd" "rs_inv rk cd s"
  shows "\<exists>s' r. rs_step rk cd p s = (s', r) \<and> rs_inv rk cd s' \<and> (rs_abs rk cd s', is_ok r) = spec_step p (rs_abs rk cd s)"
proof (cases p)
  case (OpCreate c)
  show ?thesis unfolding OpCreate by (rule create_collection_step [OF assms(1,3)])
next
  case (OpDrop c)
  show ?thesis unfolding OpDrop by (rule drop_collection_step [OF assms(1,3)])
next
  case (OpPut t d)
  show ?thesis unfolding OpPut by (rule put_step [OF assms])
next
  case (OpDelete t i)
  show ?thesis unfolding OpDelete by (rule delete_step [OF assms(1,3)])
qed

lemma rs_run_refines:
  assumes "rocks_laws rk" "codec_laws cd"
  shows "rs_inv rk cd s \<Longrightarrow> \<exists>s' rs. rs_run rk cd ps s = (s', rs) \<and> rs_inv rk cd s' \<and>
    (rs_abs rk cd s', map is_ok rs) = spec_run ps (rs_abs rk cd s)"
proof (induction ps arbitrary: s)
  case (Cons p ps)
  obtain s1 r where 1: "rs_step rk cd p s = (s1, r)" "rs_inv rk cd s1"
      "(rs_abs rk cd s1, is_ok r) = spec_step p (rs_abs rk cd s)"
    using rs_step_refines [OF assms Cons.prems, of p] by blast
  obtain s2 rs where 2: "rs_run rk cd ps s1 = (s2, rs)" "rs_inv rk cd s2"
      "(rs_abs rk cd s2, map is_ok rs) = spec_run ps (rs_abs rk cd s1)"
    using Cons.IH [OF 1(2)] by blast
  have "spec_run (p # ps) (rs_abs rk cd s) = (rs_abs rk cd s2, is_ok r # map is_ok rs)"
    by (simp add: 1(3) [symmetric] 2(3) [symmetric])
  then show ?case using 1(1) 2(1,2) by simp
qed simp

lemma rs_read_exact:
  assumes "rocks_laws rk" "rs_inv rk cd s"
  shows "rs_read rk cd t i s = Inr d \<longleftrightarrow> spec_read (rs_abs rk cd s) t i = Some d"
proof (cases "rs_abs rk cd s t")
  case None
  then show ?thesis using get_doc_cf_absent [OF assms(1) None, of i]
    by (cases t) (simp_all add: rs_read_def spec_read_def sb_get_def get_document_def sb_get_from_collection_def
      CF_DOCUMENTS_cf_of collection_cf_of)
next
  case (Some f)
  then show ?thesis using get_doc_cf_exact [OF assms Some, of i]
    by (cases t) (auto simp: rs_read_def spec_read_def sb_get_def get_document_def sb_get_from_collection_def
      CF_DOCUMENTS_cf_of collection_cf_of split: option.splits)
qed

text \<open>The RocksDB store keeps the contract of a document store for its default column family.\<close>

lemma rs_default_target: "rs_inv rk cd s \<Longrightarrow> rs_abs rk cd s None \<noteq> None"
  by (auto simp: rs_inv_def rs_abs_def cf_of_def)

interpretation rs_default: storage_backend "\<lambda>s. rocks_laws rk \<and> codec_laws cd \<and> rs_inv rk cd s"
    "\<lambda>s. the (rs_abs rk cd s None)" "sb_get rk cd" "sb_put rk cd" "sb_delete rk cd" for rk cd
proof
  fix s i d
  assume a: "rocks_laws rk \<and> codec_laws cd \<and> rs_inv rk cd s"
  then have l: "rocks_laws rk" "codec_laws cd" "rs_inv rk cd s" by auto
  obtain f where f: "rs_abs rk cd s None = Some f" using rs_default_target [OF l(3)] by blast
  have get: "get_document rk cd i s = Inr (f (as_str i))"
    using get_doc_cf_exact [OF l(1,3) f, of i] by (simp add: get_document_def CF_DOCUMENTS_cf_of)
  show "the (rs_abs rk cd s None) (as_str i) = Some d \<Longrightarrow> sb_get rk cd i s = Inr d"
    using f get by (simp add: sb_get_def)
  show "the (rs_abs rk cd s None) (as_str i) = None \<Longrightarrow> \<exists>m. sb_get rk cd i s = Inl (NotFound m)"
    using f get by (simp add: sb_get_def not_found_doc_def)
  show "\<exists>s'. sb_put rk cd d s = (s', Inr ()) \<and> (rocks_laws rk \<and> codec_laws cd \<and> rs_inv rk cd s') \<and>
      the (rs_abs rk cd s' None) = (the (rs_abs rk cd s None))(as_str (doc_id d) \<mapsto> d)"
    by (rule put_doc_cf_exact [OF l f, of d])
      (use l f in \<open>auto simp: sb_put_def put_document_def CF_DOCUMENTS_cf_of\<close>)
  show "the (rs_abs rk cd s None) (as_str i) = Some d \<Longrightarrow>
      \<exists>s'. sb_delete rk cd i s = (s', Inr ()) \<and> (rocks_laws rk \<and> codec_laws cd \<and> rs_inv rk cd s') \<and>
      the (rs_abs rk cd s' None) = (the (rs_abs rk cd s None))(as_str i := None)"
    by (rule rs_delete_cf_exact [OF l(1,3) f, of "as_str i"])
      (use l f get in \<open>auto simp: sb_delete_def delete_document_def CF_DOCUMENTS_cf_of\<close>)
  show "the (rs_abs rk cd s None) (as_str i) = None \<Longrightarrow>
      \<exists>s' m. sb_delete rk cd i s = (s', Inl (NotFound m)) \<and> (rocks_laws rk \<and> codec_laws cd \<and> rs_inv rk cd s') \<and>
      the (rs_abs rk cd s' None) = the (rs_abs rk cd s None)"
    using f get l by (simp add: sb_delete_def not_found_doc_def)
qed

lemma rs_new_reads_disk:
  assumes "rocks_laws rk" "\<And>cf. cf_view rk disk cf \<noteq> None \<Longrightarrow> cf \<in> set COLUMN_FAMILIES \<or> cf = ''default''"
    "\<And>m b. cf_view rk disk CF_SEQUENCE = Some m \<Longrightarrow> fmlookup m ''current_seq'' = Some b \<Longrightarrow> length b = 8"
  obtains s where "rs_new rk disk = Inr s"
    "\<forall>cf. cf_view rk (rs_db s) cf = (if cf_view rk disk cf = None \<and> (cf \<in> set COLUMN_FAMILIES \<or> cf = ''default'')
       then Some fmempty else cf_view rk disk cf)"
proof -
  obtain db where db: "open_cf rk disk COLUMN_FAMILIES = Inr db"
    "\<forall>cf. cf_view rk db cf = (if cf_view rk disk cf = None \<and> (cf \<in> set COLUMN_FAMILIES \<or> cf = ''default'')
       then Some fmempty else cf_view rk disk cf)"
    by (rule rocks_open [OF assms(1,2)])
  have sq: "CF_SEQUENCE \<in> set COLUMN_FAMILIES" by (simp add: COLUMN_FAMILIES_def)
  obtain m where m: "cf_view rk db CF_SEQUENCE = Some m" using sq by (cases "cf_view rk disk CF_SEQUENCE") (simp_all add: db(2))
  have len: "length b = 8" if "fmlookup m ''current_seq'' = Some b" for b
    using m that assms(3) sq by (auto simp: db(2) split: if_splits)
  have h: "cf_handle rk db CF_SEQUENCE" using m by (simp add: rocks_handle [OF assms(1)])
  have "\<exists>w. rs_new rk disk = Inr \<lparr>rs_db = db, rs_sequence = w\<rparr>"
    using len by (cases "fmlookup m ''current_seq''") (simp_all add: rs_new_def db(1) h rocks_get [OF assms(1) m])
  then show ?thesis using that db(2) by fastforce
qed

definition fresh_store :: store_spec where
  "fresh_store = [None \<mapsto> Map.empty]"

lemma cf_of_fixed: "cf_of t \<in> set COLUMN_FAMILIES \<or> cf_of t = ''default'' \<longleftrightarrow> t = None"
  by (auto simp: COLUMN_FAMILIES_def cf_of_def CF_METADATA_def CF_SEQUENCE_def CF_DOCUMENTS_def collection_cf_name_def
    split: option.splits)

lemma rs_new_fresh:
  assumes "rocks_laws rk" "cf_view rk disk = (\<lambda>_. None)"
  obtains s where "rs_new rk disk = Inr s" "rs_inv rk cd s" "rs_abs rk cd s = fresh_store"
proof -
  obtain s where s: "rs_new rk disk = Inr s"
    "\<forall>cf. cf_view rk (rs_db s) cf = (if cf \<in> set COLUMN_FAMILIES \<or> cf = ''default'' then Some fmempty else None)"
    by (rule rs_new_reads_disk [OF assms(1), of disk]) (simp_all add: assms(2))
  have "rs_inv rk cd s"
    unfolding rs_inv_def using s(2) by (simp add: COLUMN_FAMILIES_def decodes_def)
  moreover have "rs_abs rk cd s = fresh_store"
    by (auto simp: rs_abs_def s(2) cf_of_fixed fresh_store_def fun_eq_iff)
  ultimately show ?thesis using s(1) that by blast
qed

lemma rs_new_reopen_fails:
  assumes "rocks_laws rk" "rs_abs rk cd s (Some c) \<noteq> None"
  shows "\<exists>e. rs_new rk (rs_db s) = Inl (StorageError e)"
proof -
  have "cf_view rk (rs_db s) (cf_of (Some c)) \<noteq> None" using assms(2) by (simp add: rs_abs_def)
  then obtain e where "open_cf rk (rs_db s) COLUMN_FAMILIES = Inl e"
    by (rule rocks_open_fails [OF assms(1)]) (use cf_of_fixed [of "Some c"] in auto)
  then show ?thesis by (simp add: rs_new_def)
qed

lemma rs_new_reopen:
  assumes "rocks_laws rk" "rs_inv rk cd s" "\<forall>c. rs_abs rk cd s (Some c) = None"
  shows "\<exists>s'. rs_new rk (rs_db s) = Inr s' \<and> rs_inv rk cd s' \<and> rs_abs rk cd s' = rs_abs rk cd s"
proof -
  have no: "cf_view rk (rs_db s) (cf_of (Some c)) = None" for c
    using assms(3) by (simp add: rs_abs_def)
  have cfs: "cf \<in> set COLUMN_FAMILIES \<or> cf = ''default''" if "cf_view rk (rs_db s) cf \<noteq> None" for cf
    using assms(2) that no unfolding rs_inv_def by metis
  have len: "length b = 8" if "cf_view rk (rs_db s) CF_SEQUENCE = Some m" "fmlookup m ''current_seq'' = Some b" for m b
    using assms(2) that unfolding rs_inv_def by blast
  obtain s' where s': "rs_new rk (rs_db s) = Inr s'"
    "\<forall>cf. cf_view rk (rs_db s') cf = (if cf_view rk (rs_db s) cf = None \<and> (cf \<in> set COLUMN_FAMILIES \<or> cf = ''default'')
       then Some fmempty else cf_view rk (rs_db s) cf)"
    by (rule rs_new_reads_disk [OF assms(1) cfs len])
  have dsq: "cf_view rk (rs_db s') CF_SEQUENCE = cf_view rk (rs_db s) CF_SEQUENCE"
    using assms(2) s'(2) by (simp add: rs_inv_def)
  have same: "cf_view rk (rs_db s') (cf_of t) = cf_view rk (rs_db s) (cf_of t)" for t
    using assms(2) s'(2) cf_of_fixed [of t] by (cases t) (auto simp: rs_inv_def cf_of_def)
  have "rs_inv rk cd s'"
    using assms(2) cfs s'(2) unfolding rs_inv_def dsq same CF_DOCUMENTS_cf_of by auto
  moreover have "rs_abs rk cd s' = rs_abs rk cd s" by (simp add: rs_abs_def same fun_eq_iff)
  ultimately show ?thesis using s'(1) by blast
qed

section \<open>A reference engine\<close>

text \<open>An engine that satisfies the laws: a finite map of column families, with a codec by listing.\<close>

definition mem_engine :: "(string, (blob, blob) fmap) fmap rocks" where
  "mem_engine = \<lparr>
     cf_view = fmlookup,
     cf_handle = (\<lambda>db cf. fmlookup db cf \<noteq> None),
     get_cf = (\<lambda>db cf k. case fmlookup db cf of None \<Rightarrow> Inl ''no such column family'' | Some m \<Rightarrow> Inr (fmlookup m k)),
     write_batch = (\<lambda>db ws. if list_all (\<lambda>w. fmlookup db (fst w) \<noteq> None) ws
       then (fold (\<lambda>(cf, k, v) d. fmupd cf (fmupd k v (the (fmlookup d cf))) d) ws db, Inr ())
       else (db, Inl ''no such column family'')),
     delete_cf = (\<lambda>db cf k. case fmlookup db cf of None \<Rightarrow> (db, Inl ''no such column family'')
       | Some m \<Rightarrow> (fmupd cf (fmdrop k m) db, Inr ())),
     iterator_from = (\<lambda>db cf start. case fmlookup db cf of None \<Rightarrow> []
       | Some m \<Rightarrow> map Inr (filter (\<lambda>kv. start \<le> fst kv) (btree_iter m))),
     create_cf = (\<lambda>db cf. if fmlookup db cf = None then (fmupd cf fmempty db, Inr ()) else (db, Inl ''exists'')),
     drop_cf = (\<lambda>db cf. if fmlookup db cf = None then (db, Inl ''no such column family'') else (fmdrop cf db, Inr ())),
     open_cf = (\<lambda>disk cfs.
       if fBall (fmdom disk) (\<lambda>cf. cf \<in> set cfs \<or> cf = ''default'')
       then Inr (fold (\<lambda>cf d. if fmlookup d cf = None then fmupd cf fmempty d else d) (''default'' # cfs) disk)
       else Inl ''column families not opened'')\<rparr>"

lemma mem_engine_write:
  "list_all (\<lambda>w. fmlookup db (fst w) \<noteq> None) ws \<Longrightarrow>
    fmlookup (fold (\<lambda>(cf, k, v) d. fmupd cf (fmupd k v (the (fmlookup d cf))) d) ws db) = fold apply_put ws (fmlookup db)"
proof (induction ws arbitrary: db)
  case (Cons w ws)
  obtain cf k v where w: "w = (cf, k, v)" by (cases w)
  obtain m where m: "fmlookup db cf = Some m" using Cons.prems w by auto
  have "fmlookup (fmupd cf (fmupd k v m) db) = apply_put (cf, k, v) (fmlookup db)"
    using m by (auto simp: apply_put_def fun_eq_iff)
  moreover have "list_all (\<lambda>w. fmlookup (fmupd cf (fmupd k v m) db) (fst w) \<noteq> None) ws"
    using Cons.prems by (auto simp: list_all_iff)
  ultimately show ?case using w m by (simp add: Cons.IH)
qed simp

lemma mem_engine_open:
  "fmlookup (fold (\<lambda>cf d. if fmlookup d cf = None then fmupd cf fmempty d else d) cfs disk) cf =
    (if fmlookup disk cf = None \<and> cf \<in> set cfs then Some fmempty else fmlookup disk cf)"
  by (induction cfs arbitrary: disk) auto

lemma mem_engine_laws: "rocks_laws mem_engine"
  unfolding rocks_laws_def
proof (intro conjI allI impI)
  fix db and ws :: "(string \<times> blob \<times> blob) list"
  assume "\<forall>w \<in> set ws. cf_view mem_engine db (fst w) \<noteq> None"
  then have "list_all (\<lambda>w. fmlookup db (fst w) \<noteq> None) ws" by (simp add: mem_engine_def list_all_iff)
  then show "\<exists>db'. write_batch mem_engine db ws = (db', Inr ()) \<and> cf_view mem_engine db' = fold apply_put ws (cf_view mem_engine db)"
    by (simp add: mem_engine_def mem_engine_write)
next
  fix disk cfs
  assume "\<exists>cf. cf_view mem_engine disk cf \<noteq> None \<and> cf \<notin> set cfs \<and> cf \<noteq> ''default''"
  then have "\<not> fBall (fmdom disk) (\<lambda>cf. cf \<in> set cfs \<or> cf = ''default'')"
    by (auto simp: mem_engine_def fmlookup_dom_iff)
  then show "\<exists>e. open_cf mem_engine disk cfs = Inl e" by (simp add: mem_engine_def)
next
  fix disk cfs
  assume a: "\<forall>cf. cf_view mem_engine disk cf \<noteq> None \<longrightarrow> cf \<in> set cfs \<or> cf = ''default''"
  then have "fBall (fmdom disk) (\<lambda>cf. cf \<in> set cfs \<or> cf = ''default'')"
    by (auto simp: mem_engine_def fmlookup_dom_iff)
  then show "\<exists>db. open_cf mem_engine disk cfs = Inr db \<and> (\<forall>cf. cf_view mem_engine db cf =
      (if cf_view mem_engine disk cf = None \<and> (cf \<in> set cfs \<or> cf = ''default'') then Some fmempty
       else cf_view mem_engine disk cf))"
    by (simp add: mem_engine_def mem_engine_open fmlookup_dom_iff del: fold.simps)
qed (auto simp: mem_engine_def fun_eq_iff)

instance field_value :: countable
  by countable_datatype

text \<open>A codec that satisfies the laws, by an enumeration of the documents.\<close>

definition doc_number :: "document \<Rightarrow> nat" where
  "doc_number d = to_nat (as_str (doc_id d), doc_fields d, clocks (doc_version d))"

definition number_doc :: "nat \<Rightarrow> document" where
  "number_doc n = (case from_nat n of (i, f, c) \<Rightarrow>
     \<lparr>doc_id = DocumentId i, doc_fields = f, doc_version = \<lparr>clocks = c\<rparr>\<rparr>)"

definition unary_codec :: doc_codec where
  "unary_codec = \<lparr>enc_doc = (\<lambda>d. Inr (replicate (doc_number d) CHR ''x'')), dec_doc = (\<lambda>b. Inr (number_doc (length b)))\<rparr>"

lemma number_doc_number [simp]: "number_doc (doc_number d) = d"
  by (simp add: number_doc_def doc_number_def)

lemma unary_codec_laws: "codec_laws unary_codec"
  by (simp add: codec_laws_def unary_codec_def)

section \<open>Scans\<close>

definition decoded :: "doc_codec \<Rightarrow> blob \<Rightarrow> document" where
  "decoded cd b = (case dec_doc cd b of Inr d \<Rightarrow> d)"

lemma range_loop_exact:
  assumes "\<forall>(k, b) \<in> set kvs. \<exists>d. dec_doc cd b = Inr d" "length docs < max 1 limit"
  shows "range_loop cd hi limit (map Inr kvs) docs =
    Inr (docs @ map (decoded cd \<circ> snd) (take (max 1 limit - length docs) (takeWhile (\<lambda>kv. fst kv \<le> hi) kvs)))"
  using assms
proof (induction kvs arbitrary: docs)
  case (Cons kv kvs)
  obtain k b where kv: "kv = (k, b)" by (cases kv)
  then obtain d where d: "dec_doc cd b = Inr d" using Cons.prems by auto
  have dd: "decoded cd b = d" by (simp add: decoded_def d)
  show ?case
  proof (cases "k \<le> hi \<and> Suc (length docs) < max 1 limit")
    case True
    then have "range_loop cd hi limit (map Inr kvs) (docs @ [d]) = Inr ((docs @ [d]) @ map (decoded cd \<circ> snd)
        (take (max 1 limit - length (docs @ [d])) (takeWhile (\<lambda>kv. fst kv \<le> hi) kvs)))"
      using Cons.prems by (intro Cons.IH) auto
    moreover have "max 1 limit - length docs = Suc (max 1 limit - length (docs @ [d]))" using True by (simp add: Suc_diff_Suc)
    moreover have "\<not> limit \<le> Suc (length docs)" "\<not> hi < k" using True by auto
    ultimately show ?thesis using True kv d dd by (simp add: Let_def o_def)
  next
    case False
    have "max 1 limit - length docs = 1" if "k \<le> hi" using False Cons.prems(2) that by linarith
    with False Cons.prems(2) kv d dd show ?thesis by (auto simp: Let_def)
  qed
qed simp

lemma takeWhile_sorted_filter:
  "sorted (map fst kvs) \<Longrightarrow> takeWhile (\<lambda>kv. fst kv \<le> (hi :: 'k :: linorder)) kvs = filter (\<lambda>kv. fst kv \<le> hi) kvs"
  by (induction kvs) (auto simp: filter_empty_conv intro!: filter_False [symmetric])

lemma range_scan_exact:
  assumes "rocks_laws rk" "rs_inv rk cd s" "rs_abs rk cd s t = Some f"
  shows "range_loop cd hi limit (iterator_from rk (rs_db s) (cf_of t) lo) [] =
    Inr (map (the \<circ> f) (take (max 1 limit) (sorted_list_of_set {k. f k \<noteq> None \<and> lo \<le> k \<and> k \<le> hi})))"
proof -
  obtain m where m: "cf_view rk (rs_db s) (cf_of t) = Some m" and f: "f = docs_in cd m"
    using assms(3) by (auto simp: rs_abs_def)
  have dc: "decodes cd m" using assms(2) m unfolding rs_inv_def by blast
  let ?all = "filter (\<lambda>kv. lo \<le> fst kv) (btree_iter m)"
  let ?sel = "filter (\<lambda>kv. fst kv \<le> hi) ?all"
  have val: "decoded cd b = the (f k) \<and> f k \<noteq> None" if "fmlookup m k = Some b" for k b
    using dc that by (fastforce simp: decoded_def f docs_in_def decodes_def)
  have dom: "(\<exists>d. f k = Some d) \<longleftrightarrow> (\<exists>b. fmlookup m k = Some b)" for k
    using val by (auto simp: f docs_in_def split: option.splits)
  have keys: "map fst ?sel = sorted_list_of_set {k. f k \<noteq> None \<and> lo \<le> k \<and> k \<le> hi}"
  proof (rule sorted_distinct_set_unique)
    have "finite {k. f k \<noteq> None \<and> lo \<le> k \<and> k \<le> hi}"
      by (rule finite_subset [of _ "fmdom' m"]) (use dom in \<open>auto simp: fmlookup_dom'_iff\<close>)
    then show "set (map fst ?sel) = set (sorted_list_of_set {k. f k \<noteq> None \<and> lo \<le> k \<and> k \<le> hi})"
      using dom by (simp add: set_btree_iter image_def)
  qed (simp_all add: sorted_filter distinct_map_filter)
  have tw: "takeWhile (\<lambda>kv. fst kv \<le> hi) ?all = ?sel"
    by (rule takeWhile_sorted_filter) (simp add: sorted_filter)
  have "range_loop cd hi limit (map Inr ?all) [] =
      Inr (map (decoded cd \<circ> snd) (take (max 1 limit) (takeWhile (\<lambda>kv. fst kv \<le> hi) ?all)))"
    by (subst range_loop_exact) (use dc in \<open>auto simp: set_btree_iter decodes_def\<close>)
  moreover have "map (decoded cd \<circ> snd) (take n ?sel) = map (the \<circ> f) (take n (map fst ?sel))" for n
  proof -
    have "decoded cd (snd kv) = the (f (fst kv))" if "kv \<in> set (take n ?sel)" for kv
      using in_set_takeD [OF that] val by (auto simp: set_btree_iter)
    then show ?thesis by (simp add: take_map)
  qed
  ultimately show ?thesis by (simp only: rocks_iter [OF assms(1) m] tw keys)
qed

section \<open>Properties\<close>

text \<open>
  C1. A RocksDB store opened on an empty directory implements a map of document maps. After any
  sequence of operations, exactly the operations that the specification accepts have returned Ok,
  and a read of a target returns a document exactly when the specification holds it there; so
  writes to one collection never show in another or in the default store.
\<close>

theorem rocksdb_store_refines_spec:
  assumes "rocks_laws rk" "codec_laws cd" "cf_view rk disk = (\<lambda>_. None)"
  shows "\<exists>s0 s rs. rs_new rk disk = Inr s0 \<and> rs_run rk cd ops s0 = (s, rs) \<and>
    map is_ok rs = snd (spec_run ops fresh_store) \<and>
    (\<forall>t i d. rs_read rk cd t i s = Inr d \<longleftrightarrow> spec_read (fst (spec_run ops fresh_store)) t i = Some d)"
proof -
  obtain s0 where s0: "rs_new rk disk = Inr s0" "rs_inv rk cd s0" "rs_abs rk cd s0 = fresh_store"
    by (rule rs_new_fresh [OF assms(1,3)])
  obtain s rs where s: "rs_run rk cd ops s0 = (s, rs)" "rs_inv rk cd s"
      "(rs_abs rk cd s, map is_ok rs) = spec_run ops fresh_store"
    using rs_run_refines [OF assms(1,2) s0(2), of ops] s0(3) by auto
  then show ?thesis using s0(1) rs_read_exact [OF assms(1) s(2)]
    by (simp add: s(3) [symmetric])
qed

definition sample_doc :: document where
  "sample_doc = with_field (doc_new (DocumentId ''1'')) ''title'' (Text ''a'')"

lemma sample_doc_id [simp]: "doc_id sample_doc = DocumentId ''1''"
  by (simp add: sample_doc_def doc_new_def with_field_def)

lemma mem_engine_empty: "cf_view mem_engine fmempty = (\<lambda>_. None)"
  by (simp add: mem_engine_def fun_eq_iff)

theorem rocksdb_store_refines_spec_witness:
  "\<exists>s0 s rs. rs_new mem_engine fmempty = Inr s0 \<and>
    rs_run mem_engine unary_codec [OpPut (Some ''b'') sample_doc, OpCreate ''a'', OpPut (Some ''a'') sample_doc] s0 = (s, rs) \<and>
    map is_ok rs = [False, True, True] \<and>
    rs_read mem_engine unary_codec (Some ''a'') (DocumentId ''1'') s = Inr sample_doc \<and>
    rs_read mem_engine unary_codec None (DocumentId ''1'') s \<noteq> Inr sample_doc"
proof -
  let ?ops = "[OpPut (Some ''b'') sample_doc, OpCreate ''a'', OpPut (Some ''a'') sample_doc]"
  have spec: "spec_run ?ops fresh_store = ([None \<mapsto> Map.empty, Some ''a'' \<mapsto> [''1'' \<mapsto> sample_doc]], [False, True, True])"
    by (simp add: fresh_store_def)
  obtain s0 s rs where new: "rs_new mem_engine fmempty = Inr s0" and run: "rs_run mem_engine unary_codec ?ops s0 = (s, rs)"
      and ok: "map is_ok rs = snd (spec_run ?ops fresh_store)"
      and rd: "\<And>t i d. rs_read mem_engine unary_codec t i s = Inr d \<longleftrightarrow> spec_read (fst (spec_run ?ops fresh_store)) t i = Some d"
    using rocksdb_store_refines_spec [OF mem_engine_laws unary_codec_laws mem_engine_empty, of ?ops] by blast
  have reads: "rs_read mem_engine unary_codec (Some ''a'') (DocumentId ''1'') s = Inr sample_doc"
    "rs_read mem_engine unary_codec None (DocumentId ''1'') s \<noteq> Inr sample_doc"
    unfolding rd spec by (simp_all add: spec_read_def)
  show ?thesis
    by (rule exI [of _ s0], rule exI [of _ s], rule exI [of _ rs])
      (intro conjI new run ok [unfolded spec snd_conv] reads)
qed

text \<open>
  Reopening a store after any sequence of operations gives back all documents when no collection
  exists, and fails when one does: only the three fixed column families are listed on opening.
\<close>

theorem rocksdb_reopen:
  assumes "rocks_laws rk" "codec_laws cd" "cf_view rk disk = (\<lambda>_. None)"
  shows "\<exists>s0 s rs. rs_new rk disk = Inr s0 \<and> rs_run rk cd ops s0 = (s, rs) \<and>
    (if \<exists>c. fst (spec_run ops fresh_store) (Some c) \<noteq> None
     then \<exists>e. rs_new rk (rs_db s) = Inl (StorageError e)
     else \<exists>s'. rs_new rk (rs_db s) = Inr s' \<and>
       (\<forall>i d. sb_get rk cd i s' = Inr d \<longleftrightarrow> spec_read (fst (spec_run ops fresh_store)) None i = Some d))"
proof -
  obtain s0 where s0: "rs_new rk disk = Inr s0" "rs_inv rk cd s0" "rs_abs rk cd s0 = fresh_store"
    by (rule rs_new_fresh [OF assms(1,3)])
  obtain s rs where s: "rs_run rk cd ops s0 = (s, rs)" "rs_inv rk cd s"
      "(rs_abs rk cd s, map is_ok rs) = spec_run ops fresh_store"
    using rs_run_refines [OF assms(1,2) s0(2), of ops] s0(3) by auto
  show ?thesis
  proof (cases "\<exists>c. rs_abs rk cd s (Some c) \<noteq> None")
    case True
    then have "\<exists>e. rs_new rk (rs_db s) = Inl (StorageError e)"
      using rs_new_reopen_fails [OF assms(1)] by blast
    with True s0(1) s(1) show ?thesis by (simp add: s(3) [symmetric])
  next
    case False
    then obtain s' where s': "rs_new rk (rs_db s) = Inr s'" "rs_inv rk cd s'" "rs_abs rk cd s' = rs_abs rk cd s"
      using rs_new_reopen [OF assms(1) s(2)] by blast
    from rs_read_exact [OF assms(1) s'(2), of None] False s0(1) s(1) s'(1,3) show ?thesis
      by (simp add: s(3) [symmetric] rs_read_def)
  qed
qed

theorem rocksdb_reopen_witness:
  "(\<exists>s0 s rs e. rs_new mem_engine fmempty = Inr s0 \<and> rs_run mem_engine unary_codec [OpCreate ''a''] s0 = (s, rs) \<and>
    rs_new mem_engine (rs_db s) = Inl (StorageError e)) \<and>
   (\<exists>s0 s rs s'. rs_new mem_engine fmempty = Inr s0 \<and> rs_run mem_engine unary_codec [OpPut None sample_doc] s0 = (s, rs) \<and>
    rs_new mem_engine (rs_db s) = Inr s' \<and> sb_get mem_engine unary_codec (DocumentId ''1'') s' = Inr sample_doc)"
proof
  let ?ops = "[OpCreate ''a'']"
  have spec: "fst (spec_run ?ops fresh_store) (Some ''a'') \<noteq> None" by (simp add: fresh_store_def)
  then show "\<exists>s0 s rs e. rs_new mem_engine fmempty = Inr s0 \<and> rs_run mem_engine unary_codec ?ops s0 = (s, rs) \<and>
    rs_new mem_engine (rs_db s) = Inl (StorageError e)"
    using rocksdb_reopen [OF mem_engine_laws unary_codec_laws mem_engine_empty, of ?ops] by (metis (lifting))
next
  let ?ops = "[OpPut None sample_doc]"
  have spec: "fst (spec_run ?ops fresh_store) = [None \<mapsto> [''1'' \<mapsto> sample_doc]]" by (simp add: fresh_store_def)
  then have "\<not> (\<exists>c. fst (spec_run ?ops fresh_store) (Some c) \<noteq> None)"
    and "spec_read (fst (spec_run ?ops fresh_store)) None (DocumentId ''1'') = Some sample_doc"
    by (simp_all add: spec_read_def)
  then show "\<exists>s0 s rs s'. rs_new mem_engine fmempty = Inr s0 \<and> rs_run mem_engine unary_codec ?ops s0 = (s, rs) \<and>
    rs_new mem_engine (rs_db s) = Inr s' \<and> sb_get mem_engine unary_codec (DocumentId ''1'') s' = Inr sample_doc"
    using rocksdb_reopen [OF mem_engine_laws unary_codec_laws mem_engine_empty, of ?ops] by (metis (lifting))
qed

text \<open>
  A range scan of a target returns its documents with ids in the range, in ascending order of the
  ids, the first \<open>limit\<close> of them; with a limit of 0 it still returns one.
\<close>

theorem scan_returns_range:
  assumes "rocks_laws rk" "rs_inv rk cd s" "rs_abs rk cd s t = Some f"
  shows "(case t of None \<Rightarrow> sb_scan rk cd lo hi limit s | Some c \<Rightarrow> sb_scan_collection rk cd c lo hi limit s) =
    Inr (map (the \<circ> f) (take (max 1 limit) (sorted_list_of_set {k. f k \<noteq> None \<and> as_str lo \<le> k \<and> k \<le> as_str hi})))"
proof -
  have "cf_view rk (rs_db s) (cf_of t) \<noteq> None" using assms(3) by (auto simp: rs_abs_def)
  then have "cf_handle rk (rs_db s) (cf_of t)" by (simp add: rocks_handle [OF assms(1)])
  then show ?thesis
    using range_scan_exact [OF assms, of "as_str hi" limit "as_str lo"]
    by (cases t) (simp_all add: sb_scan_def sb_scan_collection_def Let_def CF_DOCUMENTS_cf_of collection_cf_of)
qed

theorem scan_returns_range_witness:
  "\<exists>s. sb_scan mem_engine unary_codec (DocumentId ''0'') (DocumentId ''9'') 0 s = Inr [sample_doc]"
proof -
  obtain s0 where s0: "rs_inv mem_engine unary_codec s0" "rs_abs mem_engine unary_codec s0 = fresh_store"
    by (rule rs_new_fresh [OF mem_engine_laws mem_engine_empty])
  obtain s where s: "rs_inv mem_engine unary_codec s" "rs_abs mem_engine unary_codec s = (fresh_store)(None \<mapsto> [''1'' \<mapsto> sample_doc])"
    using put_step [OF mem_engine_laws unary_codec_laws s0(1), of None sample_doc] by (auto simp: s0(2) fresh_store_def)
  have "{k. [''1'' \<mapsto> sample_doc] k \<noteq> None \<and> ''0'' \<le> k \<and> k \<le> ''9''} = {''1''}"
    by (auto split: if_splits)
  then show ?thesis
    using scan_returns_range [OF mem_engine_laws s(1), of None "[''1'' \<mapsto> sample_doc]" "DocumentId ''0''" "DocumentId ''9''" 0]
    by (auto simp: s(2))
qed

end
