(* ===== verification/Memtable.thy ===== *)
theory Memtable
  imports Storage
begin

text \<open>
  The in-memory write buffer, \<^verbatim>\<open>crates/storage/src/memtable.rs\<close>: an ordered map with an
  approximate size in bytes (a 64-bit \<^verbatim>\<open>usize\<close> with the wrapping arithmetic of the atomic
  operations) and its flush into a column family of the RocksDB store. The flush awaits the store
  between its steps, so its three phases are separate definitions and other tasks may run between
  them.
\<close>

record mem_table =
  mt_map :: "(blob, blob) fmap"
  mt_size_bytes :: u64
  mt_capacity :: u64

definition mt_new :: "u64 \<Rightarrow> mem_table" where
  "mt_new cap = \<lparr>mt_map = fmempty, mt_size_bytes = 0, mt_capacity = cap\<rparr>"

definition mt_put :: "blob \<Rightarrow> blob \<Rightarrow> mem_table \<Rightarrow> mem_table" where
  "mt_put key v t =
     (let entry_size = word_of_nat (length key + length v) in
      t\<lparr>mt_map := fmupd key v (mt_map t), mt_size_bytes := mt_size_bytes t + entry_size\<rparr>)"

definition mt_get :: "blob \<Rightarrow> mem_table \<Rightarrow> blob option" where
  "mt_get key t = fmlookup (mt_map t) key"

definition mt_delete :: "blob \<Rightarrow> mem_table \<Rightarrow> mem_table \<times> bool" where
  "mt_delete key t =
     (case fmlookup (mt_map t) key of
        Some v \<Rightarrow>
          (let freed = word_of_nat (length key + length v) in
           (t\<lparr>mt_map := fmdrop key (mt_map t), mt_size_bytes := mt_size_bytes t - freed\<rparr>, True))
      | None \<Rightarrow> (t, False))"

definition mt_len :: "mem_table \<Rightarrow> nat" where
  "mt_len t = fm_len (mt_map t)"

definition should_flush :: "mem_table \<Rightarrow> bool" where
  "should_flush t \<longleftrightarrow> mt_size_bytes t \<ge> mt_capacity t"

definition mt_iter :: "mem_table \<Rightarrow> (blob \<times> blob) list" where
  "mt_iter t = btree_iter (mt_map t)"

definition mt_clear :: "mem_table \<Rightarrow> mem_table" where
  "mt_clear t = t\<lparr>mt_map := fmempty, mt_size_bytes := 0\<rparr>"

fun flush_writes :: "'db rocks \<Rightarrow> string \<Rightarrow> (blob \<times> blob) list \<Rightarrow> 'db rocksdb_storage \<Rightarrow> 'db rocksdb_storage \<times> unit db_result" where
  "flush_writes rk cf [] s = (s, Inr ())"
| "flush_writes rk cf ((k, v) # kvs) s =
     (case rs_put_cf rk cf k v s of
        (s1, Inl e) \<Rightarrow> (s1, Inl e)
      | (s1, Inr _) \<Rightarrow> flush_writes rk cf kvs s1)"

definition flush :: "'db rocks \<Rightarrow> string \<Rightarrow> mem_table \<Rightarrow> 'db rocksdb_storage \<Rightarrow> mem_table \<times> 'db rocksdb_storage \<times> unit db_result" where
  "flush rk cf t s =
     (let entries = mt_iter t in
      case flush_writes rk cf entries s of
        (s1, Inl e) \<Rightarrow> (t, s1, Inl e)
      | (s1, Inr _) \<Rightarrow> (mt_clear t, s1, Inr ()))"

text \<open>
  A flush while another task puts an entry after the entries were collected: the put runs between
  the writes and the clearing.
\<close>

definition flush_with_put ::
    "'db rocks \<Rightarrow> string \<Rightarrow> blob \<Rightarrow> blob \<Rightarrow> mem_table \<Rightarrow> 'db rocksdb_storage \<Rightarrow> mem_table \<times> 'db rocksdb_storage \<times> unit db_result" where
  "flush_with_put rk cf key v t s =
     (let entries = mt_iter t; t1 = mt_put key v t in
      case flush_writes rk cf entries s of
        (s1, Inl e) \<Rightarrow> (t1, s1, Inl e)
      | (s1, Inr _) \<Rightarrow> (mt_clear t1, s1, Inr ()))"

section \<open>The size counter\<close>

definition entry_bytes :: "(blob, blob) fmap \<Rightarrow> nat" where
  "entry_bytes m = (\<Sum>k \<in> fmdom' m. length k + length (the (fmlookup m k)))"

lemma fmdom'_finite [simp]: "finite (fmdom' m)"
  by (simp add: fmdom'_alt_def)

lemma entry_bytes_empty [simp]: "entry_bytes fmempty = 0"
  by (simp add: entry_bytes_def)

lemma entry_bytes_drop:
  assumes "fmlookup m k = Some v"
  shows "entry_bytes m = entry_bytes (fmdrop k m) + (length k + length v)"
proof -
  have "k \<in> fmdom' m" using assms by (simp add: fmlookup_dom'_iff)
  then have "entry_bytes m = (length k + length v) + (\<Sum>j \<in> fmdom' m - {k}. length j + length (the (fmlookup m j)))"
    using assms by (simp add: entry_bytes_def sum.remove)
  moreover have "(\<Sum>j \<in> fmdom' m - {k}. length j + length (the (fmlookup m j))) = entry_bytes (fmdrop k m)"
    unfolding entry_bytes_def by (rule sum.cong) auto
  ultimately show ?thesis by simp
qed

lemma entry_bytes_drop_le: "entry_bytes (fmdrop k m) \<le> entry_bytes m"
  unfolding entry_bytes_def by (rule order_trans [OF eq_refl sum_mono2 [where A = "fmdom' m - {k}"]]) (auto intro: sum.cong)

lemma entry_bytes_upd: "entry_bytes (fmupd k v m) = entry_bytes (fmdrop k m) + (length k + length v)"
proof -
  have "fmdrop k (fmupd k v m) = fmdrop k m" by (rule fmap_ext) simp
  then show ?thesis using entry_bytes_drop [of "fmupd k v m" k v] by simp
qed

datatype mt_op = MPut blob blob | MDelete blob

fun mt_step :: "mt_op \<Rightarrow> mem_table \<Rightarrow> mem_table" where
  "mt_step (MPut k v) t = mt_put k v t"
| "mt_step (MDelete k) t = fst (mt_delete k t)"

fun put_bytes :: "mt_op \<Rightarrow> nat" where
  "put_bytes (MPut k v) = length k + length v"
| "put_bytes (MDelete k) = 0"

lemma mt_step_size:
  assumes "entry_bytes (mt_map t) \<le> unat (mt_size_bytes t)" "unat (mt_size_bytes t) + put_bytes p < 2 ^ 64"
  shows "entry_bytes (mt_map (mt_step p t)) \<le> unat (mt_size_bytes (mt_step p t)) \<and>
    unat (mt_size_bytes (mt_step p t)) \<le> unat (mt_size_bytes t) + put_bytes p"
proof (cases p)
  case (MPut k v)
  have "unat (mt_size_bytes t + word_of_nat (length k + length v)) = unat (mt_size_bytes t) + (length k + length v)"
    using assms(2) MPut by (subst unat_add_small) (simp_all add: unat_of_nat_small del: of_nat_add)
  then show ?thesis
    using MPut assms(1) entry_bytes_drop_le [of k "mt_map t"]
    by (simp add: mt_put_def Let_def entry_bytes_upd del: of_nat_add)
next
  case (MDelete k)
  show ?thesis
  proof (cases "fmlookup (mt_map t) k")
    case None
    then show ?thesis using MDelete assms by (simp add: mt_delete_def)
  next
    case (Some v)
    let ?f = "word_of_nat (length k + length v) :: u64"
    have eb: "entry_bytes (mt_map t) = entry_bytes (fmdrop k (mt_map t)) + (length k + length v)"
      by (rule entry_bytes_drop [OF Some])
    then have uf: "unat ?f = length k + length v"
      using assms unat_less [of "mt_size_bytes t"] by (intro unat_of_nat_small) simp
    then have "?f \<le> mt_size_bytes t" using eb assms(1) by (simp add: word_le_nat_alt)
    then have "unat (mt_size_bytes t - ?f) = unat (mt_size_bytes t) - (length k + length v)"
      using uf by (simp add: unat_sub)
    then show ?thesis using MDelete Some eb assms(1) by (simp add: mt_delete_def Let_def del: of_nat_add)
  qed
qed

lemma mt_run_size:
  "entry_bytes (mt_map t) \<le> unat (mt_size_bytes t) \<Longrightarrow> unat (mt_size_bytes t) + sum_list (map put_bytes ps) < 2 ^ 64 \<Longrightarrow>
    entry_bytes (mt_map (fold mt_step ps t)) \<le> unat (mt_size_bytes (fold mt_step ps t)) \<and>
    unat (mt_size_bytes (fold mt_step ps t)) \<le> unat (mt_size_bytes t) + sum_list (map put_bytes ps)"
proof (induction ps arbitrary: t)
  case (Cons p ps)
  have 1: "entry_bytes (mt_map (mt_step p t)) \<le> unat (mt_size_bytes (mt_step p t)) \<and>
    unat (mt_size_bytes (mt_step p t)) \<le> unat (mt_size_bytes t) + put_bytes p"
    using Cons.prems by (intro mt_step_size) simp_all
  then have "unat (mt_size_bytes (mt_step p t)) + sum_list (map put_bytes ps) < 2 ^ 64"
    using Cons.prems(2) by simp
  from Cons.IH [OF conjunct1 [OF 1] this] 1 show ?case by simp
qed simp

section \<open>Flushing\<close>

lemma rs_put_cf_view:
  assumes "rocks_laws rk" "cf \<noteq> CF_SEQUENCE" "cf_view rk (rs_db s) cf = Some m" "cf_view rk (rs_db s) CF_SEQUENCE \<noteq> None"
  obtains s' where "rs_put_cf rk cf k v s = (s', Inr ())" "cf_view rk (rs_db s') cf = Some (fmupd k v m)"
    "cf_view rk (rs_db s') CF_SEQUENCE \<noteq> None"
proof -
  let ?sq = "rs_sequence s + 1"
  let ?ws = "[(cf, k, v), (CF_SEQUENCE, ''current_seq'', seq_bytes ?sq)]"
  obtain db where db: "write_batch rk (rs_db s) ?ws = (db, Inr ())"
      "cf_view rk db = fold apply_put ?ws (cf_view rk (rs_db s))"
    by (rule rocks_write [OF assms(1), of ?ws "rs_db s"]) (use assms in auto)
  have "rs_put_cf rk cf k v s = (s\<lparr>rs_sequence := ?sq, rs_db := db\<rparr>, Inr ())"
    using assms db(1) by (simp add: rs_put_cf_def Let_def rocks_handle [OF assms(1)])
  then show ?thesis
    by (rule that) (use assms(2-4) in \<open>auto simp: db(2) apply_put_def\<close>)
qed

lemma flush_writes_view:
  assumes "rocks_laws rk" "cf \<noteq> CF_SEQUENCE"
  shows "cf_view rk (rs_db s) cf = Some m \<Longrightarrow> cf_view rk (rs_db s) CF_SEQUENCE \<noteq> None \<Longrightarrow> distinct (map fst kvs) \<Longrightarrow>
    \<exists>s' m'. flush_writes rk cf kvs s = (s', Inr ()) \<and> cf_view rk (rs_db s') cf = Some m' \<and>
      (\<forall>k. fmlookup m' k = (case map_of kvs k of Some v \<Rightarrow> Some v | None \<Rightarrow> fmlookup m k))"
proof (induction kvs arbitrary: s m)
  case (Cons kv kvs)
  obtain k v where kv: "kv = (k, v)" by (cases kv)
  obtain s1 where s1: "rs_put_cf rk cf k v s = (s1, Inr ())" "cf_view rk (rs_db s1) cf = Some (fmupd k v m)"
    "cf_view rk (rs_db s1) CF_SEQUENCE \<noteq> None"
    by (rule rs_put_cf_view [OF assms Cons.prems(1,2)])
  have k: "map_of kvs k = None" using Cons.prems(3) kv by (simp add: map_of_eq_None_iff)
  from Cons.IH [OF s1(2,3)] Cons.prems(3)
  obtain s' m' where "flush_writes rk cf kvs s1 = (s', Inr ())" "cf_view rk (rs_db s') cf = Some m'"
    "\<forall>j. fmlookup m' j = (case map_of kvs j of Some v \<Rightarrow> Some v | None \<Rightarrow> fmlookup (fmupd k v m) j)"
    by auto
  with k kv s1(1) show ?case by (auto split: option.splits)
qed simp

lemma flush_writes_unknown_cf:
  assumes "rocks_laws rk" "cf_view rk (rs_db s) cf = None" "kvs \<noteq> []"
  shows "\<exists>s'. flush_writes rk cf kvs s = (s', Inl (StorageError (''unknown CF: '' @ cf)))"
proof -
  obtain k v rest where "kvs = (k, v) # rest" using assms(3) by (cases kvs) auto
  then show ?thesis using assms(2) by (simp add: rs_put_cf_def Let_def rocks_handle [OF assms(1)])
qed

section \<open>Properties\<close>

text \<open>
  The size counter of a memtable never under-counts: after any sequence of puts and deletes that
  put less than 2^64 bytes, it lies between the bytes of the live entries and the bytes put, so
  the subtraction in a delete never wraps and a table whose entries reach the capacity asks for a
  flush.
\<close>

theorem memtable_size_bounds:
  assumes "sum_list (map put_bytes ps) < 2 ^ 64"
  shows "entry_bytes (mt_map (fold mt_step ps (mt_new cap))) \<le> unat (mt_size_bytes (fold mt_step ps (mt_new cap))) \<and>
    unat (mt_size_bytes (fold mt_step ps (mt_new cap))) \<le> sum_list (map put_bytes ps) \<and>
    (unat cap \<le> entry_bytes (mt_map (fold mt_step ps (mt_new cap))) \<longrightarrow> should_flush (fold mt_step ps (mt_new cap)))"
proof -
  have cap: "mt_capacity (fold mt_step ps t) = mt_capacity t" for t
  proof (induction ps arbitrary: t)
    case (Cons p ps)
    have "mt_capacity (mt_step p t) = mt_capacity t"
      by (cases p) (simp_all add: mt_put_def mt_delete_def Let_def split: option.splits)
    with Cons show ?case by simp
  qed simp
  show ?thesis
    using mt_run_size [of "mt_new cap" ps] assms cap [of "mt_new cap"]
    by (auto simp: mt_new_def should_flush_def word_le_nat_alt)
qed

theorem memtable_size_bounds_witness:
  "should_flush (fold mt_step [MPut ''a'' ''xy'', MPut ''a'' ''z'', MDelete ''b''] (mt_new 2))"
proof -
  have "unat (2 :: u64) \<le> entry_bytes (mt_map (fold mt_step [MPut ''a'' ''xy'', MPut ''a'' ''z'', MDelete ''b''] (mt_new 2)))"
    by (simp add: mt_put_def mt_delete_def mt_new_def entry_bytes_upd Let_def)
  then show ?thesis
    using memtable_size_bounds [of "[MPut ''a'' ''xy'', MPut ''a'' ''z'', MDelete ''b'']" 2] by simp
qed

text \<open>
  A flush of a memtable into an existing column family succeeds, stores every entry and keeps the
  other keys of the column family, and leaves the memtable empty. Into an unknown column family it
  fails and keeps the entries.
\<close>

theorem flush_stores_entries:
  assumes "rocks_laws rk" "cf \<noteq> CF_SEQUENCE" "cf_view rk (rs_db s) CF_SEQUENCE \<noteq> None"
  shows "case cf_view rk (rs_db s) cf of
      Some _ \<Rightarrow> \<exists>s'. flush rk cf t s = (mt_clear t, s', Inr ()) \<and> mt_len (mt_clear t) = 0 \<and>
        (\<forall>k. rs_get_cf rk cf k s' = (case mt_get k t of Some v \<Rightarrow> Inr (Some v) | None \<Rightarrow> rs_get_cf rk cf k s))
    | None \<Rightarrow> mt_iter t \<noteq> [] \<longrightarrow> (\<exists>s'. flush rk cf t s = (t, s', Inl (StorageError (''unknown CF: '' @ cf))))"
proof (cases "cf_view rk (rs_db s) cf")
  case None
  then show ?thesis using flush_writes_unknown_cf [OF assms(1) None, of "mt_iter t"] by (auto simp: flush_def)
next
  case (Some m)
  obtain s' m' where s': "flush_writes rk cf (mt_iter t) s = (s', Inr ())" "cf_view rk (rs_db s') cf = Some m'"
    "\<forall>k. fmlookup m' k = (case fmlookup (mt_map t) k of Some v \<Rightarrow> Some v | None \<Rightarrow> fmlookup m k)"
    using flush_writes_view [OF assms(1,2) Some assms(3), of "mt_iter t"] by (auto simp: mt_iter_def)
  have "rs_get_cf rk cf k s' = (case mt_get k t of Some v \<Rightarrow> Inr (Some v) | None \<Rightarrow> rs_get_cf rk cf k s)" for k
    using s'(2,3) Some
    by (simp add: rs_get_cf_def rocks_handle [OF assms(1)] rocks_get [OF assms(1)] mt_get_def split: option.splits)
  with s'(1) Some show ?thesis by (auto simp: flush_def mt_len_def mt_clear_def fm_len_def)
qed

theorem flush_stores_entries_witness:
  "\<exists>s s'. flush mem_engine CF_DOCUMENTS (mt_put ''k'' ''v'' (mt_new 8)) s = (mt_clear (mt_put ''k'' ''v'' (mt_new 8)), s', Inr ()) \<and>
    rs_get_cf mem_engine CF_DOCUMENTS ''k'' s' = Inr (Some ''v'')"
proof -
  obtain s where s: "rs_inv mem_engine unary_codec s" "rs_new mem_engine fmempty = Inr s"
    by (rule rs_new_fresh [OF mem_engine_laws mem_engine_empty])
  then have c: "cf_view mem_engine (rs_db s) CF_SEQUENCE \<noteq> None" "cf_view mem_engine (rs_db s) CF_DOCUMENTS \<noteq> None"
    by (simp_all add: rs_inv_def)
  have "CF_DOCUMENTS \<noteq> CF_SEQUENCE" by (simp add: CF_DOCUMENTS_def CF_SEQUENCE_def)
  from flush_stores_entries [OF mem_engine_laws this c(1), of "mt_put ''k'' ''v'' (mt_new 8)"] c(2)
  obtain s' where "flush mem_engine CF_DOCUMENTS (mt_put ''k'' ''v'' (mt_new 8)) s = (mt_clear (mt_put ''k'' ''v'' (mt_new 8)), s', Inr ())"
    "\<forall>k. rs_get_cf mem_engine CF_DOCUMENTS k s' =
      (case mt_get k (mt_put ''k'' ''v'' (mt_new 8)) of Some v \<Rightarrow> Inr (Some v) | None \<Rightarrow> rs_get_cf mem_engine CF_DOCUMENTS k s)"
    by auto
  moreover from this(2) have "rs_get_cf mem_engine CF_DOCUMENTS ''k'' s' = Inr (Some ''v'')"
    by (simp add: mt_get_def mt_put_def Let_def)
  ultimately show ?thesis by blast
qed

text \<open>
  An entry that another task puts while a flush is writing is lost: the flush clears the whole
  table, and the entry is in neither the table nor the store.
\<close>

theorem flush_loses_concurrent_put:
  assumes "rocks_laws rk" "cf \<noteq> CF_SEQUENCE" "cf_view rk (rs_db s) CF_SEQUENCE \<noteq> None" "cf_view rk (rs_db s) cf = Some m"
    "mt_get key t = None"
  shows "\<exists>t' s'. flush_with_put rk cf key v t s = (t', s', Inr ()) \<and> mt_get key t' = None \<and>
    rs_get_cf rk cf key s' = rs_get_cf rk cf key s"
proof -
  obtain s' m' where s': "flush_writes rk cf (mt_iter t) s = (s', Inr ())" "cf_view rk (rs_db s') cf = Some m'"
    "\<forall>k. fmlookup m' k = (case fmlookup (mt_map t) k of Some v \<Rightarrow> Some v | None \<Rightarrow> fmlookup m k)"
    using flush_writes_view [OF assms(1,2,4,3), of "mt_iter t"] by (auto simp: mt_iter_def)
  then have "rs_get_cf rk cf key s' = rs_get_cf rk cf key s"
    using assms(4,5) by (simp add: rs_get_cf_def rocks_handle [OF assms(1)] rocks_get [OF assms(1)] mt_get_def)
  with s'(1) show ?thesis by (simp add: flush_with_put_def mt_clear_def mt_get_def)
qed

theorem flush_loses_concurrent_put_witness:
  "\<exists>s t' s'. flush_with_put mem_engine CF_DOCUMENTS ''k'' ''v'' (mt_new 8) s = (t', s', Inr ()) \<and> mt_get ''k'' t' = None \<and>
    rs_get_cf mem_engine CF_DOCUMENTS ''k'' s' = rs_get_cf mem_engine CF_DOCUMENTS ''k'' s"
proof -
  obtain s where "rs_inv mem_engine unary_codec s" "rs_new mem_engine fmempty = Inr s"
    by (rule rs_new_fresh [OF mem_engine_laws mem_engine_empty])
  then obtain m where c: "cf_view mem_engine (rs_db s) CF_SEQUENCE \<noteq> None" "cf_view mem_engine (rs_db s) CF_DOCUMENTS = Some m"
    by (auto simp: rs_inv_def)
  have "CF_DOCUMENTS \<noteq> CF_SEQUENCE" by (simp add: CF_DOCUMENTS_def CF_SEQUENCE_def)
  from flush_loses_concurrent_put [OF mem_engine_laws this c, of "''k''" "mt_new 8" "''v''"] show ?thesis
    by (auto simp: mt_get_def mt_new_def)
qed

end
