(* ===== verification/Raft_Log.thy ===== *)
theory Raft_Log
  imports Prelude
begin

text \<open>
  The two Raft log stores: in memory (\<^verbatim>\<open>crates/consensus/src/log_store.rs\<close>) and durable in
  a RocksDB instance of its own (\<^verbatim>\<open>crates/consensus/src/rocksdb_log_store.rs\<close>).

  Leader ids, entry payloads and votes are openraft types the stores only move around: type
  variables. The single-column-family database and the JSON codecs of entries, log ids and votes
  are parameters (\<open>raft_db\<close>, \<open>log_codec\<close>) with their documented behaviour as the predicates
  \<open>raft_db_laws\<close> and \<open>log_codec_laws\<close>. The message of a \<^verbatim>\<open>StorageError\<close> is a string. A panic
  of \<^verbatim>\<open>BTreeMap::range\<close> is the value \<open>None\<close>.
\<close>

section \<open>Log entries\<close>

record 'l log_id =
  log_leader :: 'l
  log_index :: u64

record ('l, 'p) raft_entry =
  entry_log_id :: "'l log_id"
  entry_payload :: 'p

datatype range_bound = Included u64 | Excluded u64 | Unbounded

record 'l log_state =
  last_purged_log_id :: "'l log_id option"
  last_log_id :: "'l log_id option"

section \<open>MemLogStore\<close>

record ('l, 'p, 'v) log_inner =
  li_log :: "(u64, ('l, 'p) raft_entry) fmap"
  li_last_purged :: "'l log_id option"
  li_vote :: "'v option"
  li_committed :: "'l log_id option"

definition log_inner_new :: "('l, 'p, 'v) log_inner" where
  "log_inner_new = \<lparr>li_log = fmempty, li_last_purged = None, li_vote = None, li_committed = None\<rparr>"

definition above :: "range_bound \<Rightarrow> u64 \<Rightarrow> bool" where
  "above b k = (case b of Included s \<Rightarrow> s \<le> k | Excluded s \<Rightarrow> s < k | Unbounded \<Rightarrow> True)"

definition below :: "range_bound \<Rightarrow> u64 \<Rightarrow> bool" where
  "below b k = (case b of Included e \<Rightarrow> k \<le> e | Excluded e \<Rightarrow> k < e | Unbounded \<Rightarrow> True)"

text \<open>\<^verbatim>\<open>BTreeMap::range\<close> panics on a start after the end and on two equal excluded bounds.\<close>

definition range_panics :: "range_bound \<Rightarrow> range_bound \<Rightarrow> bool" where
  "range_panics lo hi = (case (lo, hi) of
      (Excluded s, Excluded e) \<Rightarrow> s \<ge> e
    | (Included s, Included e) \<Rightarrow> s > e
    | (Included s, Excluded e) \<Rightarrow> s > e
    | (Excluded s, Included e) \<Rightarrow> s > e
    | _ \<Rightarrow> False)"

definition btree_range :: "(u64, 'a) fmap \<Rightarrow> range_bound \<Rightarrow> range_bound \<Rightarrow> (u64 \<times> 'a) list option" where
  "btree_range m lo hi =
     (if range_panics lo hi then None else Some (filter (\<lambda>(k, _). above lo k \<and> below hi k) (btree_iter m)))"

definition mem_try_get_log_entries :: "range_bound \<Rightarrow> range_bound \<Rightarrow> ('l, 'p, 'v) log_inner \<Rightarrow> ('l, 'p) raft_entry list option" where
  "mem_try_get_log_entries lo hi s = map_option (map snd) (btree_range (li_log s) lo hi)"

definition mem_get_log_state :: "('l, 'p, 'v) log_inner \<Rightarrow> 'l log_state" where
  "mem_get_log_state s =
     (let last_id = (case rev (btree_iter (li_log s)) of [] \<Rightarrow> None | (_, e) # _ \<Rightarrow> Some (entry_log_id e));
          l = (case last_id of None \<Rightarrow> li_last_purged s | Some i \<Rightarrow> Some i) in
      \<lparr>last_purged_log_id = li_last_purged s, last_log_id = l\<rparr>)"

definition mem_save_vote :: "'v \<Rightarrow> ('l, 'p, 'v) log_inner \<Rightarrow> ('l, 'p, 'v) log_inner" where
  "mem_save_vote v s = s\<lparr>li_vote := Some v\<rparr>"

definition mem_read_vote :: "('l, 'p, 'v) log_inner \<Rightarrow> 'v option" where
  "mem_read_vote s = li_vote s"

definition mem_append :: "('l, 'p) raft_entry list \<Rightarrow> ('l, 'p, 'v) log_inner \<Rightarrow> ('l, 'p, 'v) log_inner" where
  "mem_append es s =
     s\<lparr>li_log := fold (\<lambda>e m. fmupd (log_index (entry_log_id e)) e m) es (li_log s)\<rparr>"

definition mem_truncate :: "'l log_id \<Rightarrow> ('l, 'p, 'v) log_inner \<Rightarrow> ('l, 'p, 'v) log_inner" where
  "mem_truncate i s =
     (let keys_to_remove = map fst (filter (\<lambda>(k, _). log_index i \<le> k) (btree_iter (li_log s))) in
      s\<lparr>li_log := fold fmdrop keys_to_remove (li_log s)\<rparr>)"

definition mem_purge :: "'l log_id \<Rightarrow> ('l, 'p, 'v) log_inner \<Rightarrow> ('l, 'p, 'v) log_inner" where
  "mem_purge i s =
     (let keys_to_remove = map fst (filter (\<lambda>(k, _). k \<le> log_index i) (btree_iter (li_log s))) in
      s\<lparr>li_log := fold fmdrop keys_to_remove (li_log s), li_last_purged := Some i\<rparr>)"

definition mem_save_committed :: "'l log_id option \<Rightarrow> ('l, 'p, 'v) log_inner \<Rightarrow> ('l, 'p, 'v) log_inner" where
  "mem_save_committed c s = s\<lparr>li_committed := c\<rparr>"

definition mem_read_committed :: "('l, 'p, 'v) log_inner \<Rightarrow> 'l log_id option" where
  "mem_read_committed s = li_committed s"

section \<open>RocksDbLogStore\<close>

type_synonym bytes = string

datatype batch_op = BPut bytes bytes | BDelete bytes

record 'db raft_db =
  db_view :: "'db \<Rightarrow> (bytes, bytes) fmap"
  db_get :: "'db \<Rightarrow> bytes \<Rightarrow> string + bytes option"
  db_put :: "'db \<Rightarrow> bytes \<Rightarrow> bytes \<Rightarrow> 'db \<times> (string + unit)"
  db_delete :: "'db \<Rightarrow> bytes \<Rightarrow> 'db \<times> (string + unit)"
  db_write :: "'db \<Rightarrow> batch_op list \<Rightarrow> 'db \<times> (string + unit)"
  db_iter_from :: "'db \<Rightarrow> bytes \<Rightarrow> (string + bytes \<times> bytes) list"
  db_iter_end :: "'db \<Rightarrow> (string + bytes \<times> bytes) list"

record ('l, 'p, 'v) log_codec =
  enc_entry :: "('l, 'p) raft_entry \<Rightarrow> string + bytes"
  dec_entry :: "bytes \<Rightarrow> string + ('l, 'p) raft_entry"
  enc_log_id :: "'l log_id \<Rightarrow> string + bytes"
  dec_log_id :: "bytes \<Rightarrow> string + 'l log_id"
  enc_vote :: "'v \<Rightarrow> string + bytes"
  dec_vote :: "bytes \<Rightarrow> string + 'v"

definition VOTE_KEY :: bytes where
  "VOTE_KEY = ''__vote__''"

definition COMMITTED_KEY :: bytes where
  "COMMITTED_KEY = ''__committed__''"

definition LAST_PURGED_KEY :: bytes where
  "LAST_PURGED_KEY = ''__last_purged__''"

text \<open>\<^verbatim>\<open>format!("log:{:020}", index)\<close>.\<close>

definition zero_pad :: "nat \<Rightarrow> string \<Rightarrow> string" where
  "zero_pad n s = replicate (n - length s) (CHR ''0'') @ s"

definition log_key :: "u64 \<Rightarrow> bytes" where
  "log_key i = ''log:'' @ zero_pad 20 (dec (unat i))"

text \<open>A key that does not decode as UTF-8 does not parse; no digit string contains such bytes.\<close>

definition parse_log_key :: "bytes \<Rightarrow> u64 option" where
  "parse_log_key k = (case strip_prefix ''log:'' k of None \<Rightarrow> None | Some r \<Rightarrow> parse_u64 r)"

fun entries_loop ::
    "('l, 'p, 'v) log_codec \<Rightarrow> u64 \<Rightarrow> u64 option \<Rightarrow> (string + bytes \<times> bytes) list \<Rightarrow> ('l, 'p) raft_entry list \<Rightarrow>
     string + ('l, 'p) raft_entry list" where
  "entries_loop jc start end_idx [] acc = Inr acc"
| "entries_loop jc start end_idx (Inl e # items) acc = Inl (''RocksDB iterator error: '' @ e)"
| "entries_loop jc start end_idx (Inr (k, v) # items) acc =
     (case parse_log_key k of
        None \<Rightarrow> Inr acc
      | Some idx \<Rightarrow>
          if (case end_idx of None \<Rightarrow> False | Some e \<Rightarrow> idx \<ge> e) then Inr acc
          else if idx < start then entries_loop jc start end_idx items acc
          else case dec_entry jc v of
              Inl e \<Rightarrow> Inl (''failed to deserialize log entry '' @ dec (unat idx) @ '': '' @ e)
            | Inr entry \<Rightarrow> entries_loop jc start end_idx items (acc @ [entry]))"

definition rl_try_get_log_entries ::
    "'db raft_db \<Rightarrow> ('l, 'p, 'v) log_codec \<Rightarrow> range_bound \<Rightarrow> range_bound \<Rightarrow> 'db \<Rightarrow> string + ('l, 'p) raft_entry list" where
  "rl_try_get_log_entries rd jc lo hi db =
     (let start = (case lo of Included s \<Rightarrow> s | Excluded s \<Rightarrow> s + 1 | Unbounded \<Rightarrow> 0);
          end_idx = (case hi of Included e \<Rightarrow> Some (e + 1) | Excluded e \<Rightarrow> Some e | Unbounded \<Rightarrow> None) in
      entries_loop jc start end_idx (db_iter_from rd db (log_key start)) [])"

fun last_entry_loop :: "('l, 'p, 'v) log_codec \<Rightarrow> (string + bytes \<times> bytes) list \<Rightarrow> string + 'l log_id option" where
  "last_entry_loop jc [] = Inr None"
| "last_entry_loop jc (Inl e # items) = Inr None"
| "last_entry_loop jc (Inr (k, v) # items) =
     (case parse_log_key k of
        Some _ \<Rightarrow>
          (case dec_entry jc v of
             Inl e \<Rightarrow> Inl (''failed to deserialize last log entry: '' @ e)
           | Inr entry \<Rightarrow> Inr (Some (entry_log_id entry)))
      | None \<Rightarrow> last_entry_loop jc items)"

definition read_optional :: "'db raft_db \<Rightarrow> (bytes \<Rightarrow> string + 'a) \<Rightarrow> bytes \<Rightarrow> string \<Rightarrow> 'db \<Rightarrow> string + 'a option" where
  "read_optional rd dc key what db =
     (case db_get rd db key of
        Inl e \<Rightarrow> Inl (''failed to read '' @ what @ '': '' @ e)
      | Inr None \<Rightarrow> Inr None
      | Inr (Some v) \<Rightarrow> (case dc v of
            Inl e \<Rightarrow> Inl (''failed to deserialize '' @ what @ '': '' @ e)
          | Inr x \<Rightarrow> Inr (Some x)))"

definition rl_get_log_state :: "'db raft_db \<Rightarrow> ('l, 'p, 'v) log_codec \<Rightarrow> 'db \<Rightarrow> string + 'l log_state" where
  "rl_get_log_state rd jc db =
     (case read_optional rd (dec_log_id jc) LAST_PURGED_KEY ''last_purged'' db of
        Inl e \<Rightarrow> Inl e
      | Inr last_purged \<Rightarrow>
          (case last_entry_loop jc (db_iter_end rd db) of
             Inl e \<Rightarrow> Inl e
           | Inr last_id \<Rightarrow>
               Inr \<lparr>last_purged_log_id = last_purged,
                    last_log_id = (case last_id of None \<Rightarrow> last_purged | Some i \<Rightarrow> Some i)\<rparr>))"

definition rl_save_vote :: "'db raft_db \<Rightarrow> ('l, 'p, 'v) log_codec \<Rightarrow> 'v \<Rightarrow> 'db \<Rightarrow> 'db \<times> (string + unit)" where
  "rl_save_vote rd jc vote db =
     (case enc_vote jc vote of
        Inl e \<Rightarrow> (db, Inl (''failed to serialize vote: '' @ e))
      | Inr v \<Rightarrow> (case db_put rd db VOTE_KEY v of
            (db1, Inl e) \<Rightarrow> (db1, Inl (''failed to write vote: '' @ e))
          | (db1, Inr _) \<Rightarrow> (db1, Inr ())))"

definition rl_read_vote :: "'db raft_db \<Rightarrow> ('l, 'p, 'v) log_codec \<Rightarrow> 'db \<Rightarrow> string + 'v option" where
  "rl_read_vote rd jc db = read_optional rd (dec_vote jc) VOTE_KEY ''vote'' db"

fun append_batch :: "('l, 'p, 'v) log_codec \<Rightarrow> ('l, 'p) raft_entry list \<Rightarrow> batch_op list \<Rightarrow> string + batch_op list" where
  "append_batch jc [] batch = Inr batch"
| "append_batch jc (entry # es) batch =
     (case enc_entry jc entry of
        Inl e \<Rightarrow> Inl (''failed to serialize log entry: '' @ e)
      | Inr v \<Rightarrow> append_batch jc es (batch @ [BPut (log_key (log_index (entry_log_id entry))) v]))"

definition write_or :: "'db raft_db \<Rightarrow> string \<Rightarrow> 'db \<Rightarrow> batch_op list \<Rightarrow> 'db \<times> (string + unit)" where
  "write_or rd what db batch =
     (case db_write rd db batch of
        (db1, Inl e) \<Rightarrow> (db1, Inl (''failed to '' @ what @ '': '' @ e))
      | (db1, Inr _) \<Rightarrow> (db1, Inr ()))"

definition rl_append :: "'db raft_db \<Rightarrow> ('l, 'p, 'v) log_codec \<Rightarrow> ('l, 'p) raft_entry list \<Rightarrow> 'db \<Rightarrow> 'db \<times> (string + unit)" where
  "rl_append rd jc es db =
     (case append_batch jc es [] of
        Inl e \<Rightarrow> (db, Inl e)
      | Inr batch \<Rightarrow> write_or rd ''write log batch'' db batch)"

text \<open>The deletion loop of \<^verbatim>\<open>truncate\<close> and \<^verbatim>\<open>purge\<close>.\<close>

fun delete_batch :: "string \<Rightarrow> bytes \<Rightarrow> (string + bytes \<times> bytes) list \<Rightarrow> batch_op list \<Rightarrow> string + batch_op list" where
  "delete_batch what end_key [] batch = Inr batch"
| "delete_batch what end_key (Inl e # items) batch = Inl (''iterator error during '' @ what @ '': '' @ e)"
| "delete_batch what end_key (Inr (k, _) # items) batch =
     (if k > end_key then Inr batch
      else if parse_log_key k \<noteq> None then delete_batch what end_key items (batch @ [BDelete k])
      else Inr batch)"

definition rl_truncate :: "'db raft_db \<Rightarrow> 'l log_id \<Rightarrow> 'db \<Rightarrow> 'db \<times> (string + unit)" where
  "rl_truncate rd i db =
     (case delete_batch ''truncate'' (log_key (- 1)) (db_iter_from rd db (log_key (log_index i))) [] of
        Inl e \<Rightarrow> (db, Inl e)
      | Inr batch \<Rightarrow> write_or rd ''truncate logs'' db batch)"

definition rl_purge :: "'db raft_db \<Rightarrow> ('l, 'p, 'v) log_codec \<Rightarrow> 'l log_id \<Rightarrow> 'db \<Rightarrow> 'db \<times> (string + unit)" where
  "rl_purge rd jc i db =
     (case delete_batch ''purge'' (log_key (log_index i)) (db_iter_from rd db (log_key 0)) [] of
        Inl e \<Rightarrow> (db, Inl e)
      | Inr batch \<Rightarrow> (case enc_log_id jc i of
            Inl e \<Rightarrow> (db, Inl (''failed to serialize last_purged: '' @ e))
          | Inr v \<Rightarrow> write_or rd ''purge logs'' db (batch @ [BPut LAST_PURGED_KEY v])))"

definition rl_save_committed :: "'db raft_db \<Rightarrow> ('l, 'p, 'v) log_codec \<Rightarrow> 'l log_id option \<Rightarrow> 'db \<Rightarrow> 'db \<times> (string + unit)" where
  "rl_save_committed rd jc committed db =
     (case committed of
        Some i \<Rightarrow> (case enc_log_id jc i of
            Inl e \<Rightarrow> (db, Inl (''failed to serialize committed: '' @ e))
          | Inr v \<Rightarrow> (case db_put rd db COMMITTED_KEY v of
                (db1, Inl e) \<Rightarrow> (db1, Inl (''failed to write committed: '' @ e))
              | (db1, Inr _) \<Rightarrow> (db1, Inr ())))
      | None \<Rightarrow> (fst (db_delete rd db COMMITTED_KEY), Inr ()))"

definition rl_read_committed :: "'db raft_db \<Rightarrow> ('l, 'p, 'v) log_codec \<Rightarrow> 'db \<Rightarrow> string + 'l log_id option" where
  "rl_read_committed rd jc db = read_optional rd (dec_log_id jc) COMMITTED_KEY ''committed'' db"

section \<open>Documented behaviour of the database and the codecs\<close>

fun apply_op :: "batch_op \<Rightarrow> (bytes, bytes) fmap \<Rightarrow> (bytes, bytes) fmap" where
  "apply_op (BPut k v) m = fmupd k v m"
| "apply_op (BDelete k) m = fmdrop k m"

definition raft_db_laws :: "'db raft_db \<Rightarrow> bool" where
  "raft_db_laws rd \<longleftrightarrow>
     (\<forall>db k. db_get rd db k = Inr (fmlookup (db_view rd db) k)) \<and>
     (\<forall>db k v. \<exists>db'. db_put rd db k v = (db', Inr ()) \<and> db_view rd db' = fmupd k v (db_view rd db)) \<and>
     (\<forall>db k. \<exists>db'. db_delete rd db k = (db', Inr ()) \<and> db_view rd db' = fmdrop k (db_view rd db)) \<and>
     (\<forall>db ops. \<exists>db'. db_write rd db ops = (db', Inr ()) \<and> db_view rd db' = fold apply_op ops (db_view rd db)) \<and>
     (\<forall>db start. db_iter_from rd db start = map Inr (filter (\<lambda>kv. start \<le> fst kv) (btree_iter (db_view rd db)))) \<and>
     (\<forall>db. db_iter_end rd db = map Inr (rev (btree_iter (db_view rd db))))"

definition log_codec_laws :: "('l, 'p, 'v) log_codec \<Rightarrow> bool" where
  "log_codec_laws jc \<longleftrightarrow>
     (\<forall>x. \<exists>b. enc_entry jc x = Inr b \<and> dec_entry jc b = Inr x) \<and>
     (\<forall>x. \<exists>b. enc_log_id jc x = Inr b \<and> dec_log_id jc b = Inr x) \<and>
     (\<forall>x. \<exists>b. enc_vote jc x = Inr b \<and> dec_vote jc b = Inr x)"

definition encoded :: "('a \<Rightarrow> string + bytes) \<Rightarrow> 'a \<Rightarrow> bytes" where
  "encoded en x = (case en x of Inr b \<Rightarrow> b)"

lemma log_codec_encoded:
  assumes "log_codec_laws jc"
  shows "enc_entry jc x = Inr (encoded (enc_entry jc) x)" "dec_entry jc (encoded (enc_entry jc) x) = Inr x"
    "enc_log_id jc y = Inr (encoded (enc_log_id jc) y)" "dec_log_id jc (encoded (enc_log_id jc) y) = Inr y"
    "enc_vote jc z = Inr (encoded (enc_vote jc) z)" "dec_vote jc (encoded (enc_vote jc) z) = Inr z"
  using assms unfolding log_codec_laws_def encoded_def by (metis sum.simps(6))+

section \<open>Keys\<close>

lemma length_dec: "n < 10 ^ k \<Longrightarrow> 0 < k \<Longrightarrow> length (dec n) \<le> k"
proof (induction n arbitrary: k rule: dec.induct)
  case (1 n)
  show ?case
  proof (cases "n < 10")
    case True
    then show ?thesis using "1.prems" by (simp add: dec.simps [of n])
  next
    case False
    with "1.prems" obtain j where j: "k = Suc j" "0 < j" by (cases k; cases "k - 1") auto
    then have "n div 10 < 10 ^ j" using "1.prems" by (simp add: less_mult_imp_div_less)
    with "1.IH" [OF False this j(2)] j False show ?thesis by (simp add: dec.simps [of n])
  qed
qed

lemma dec_val_append: "dec_val (xs @ ys) = dec_val xs * 10 ^ length ys + dec_val ys"
  by (induction ys rule: rev_induct) (simp_all add: dec_val_snoc dec_val_def algebra_simps flip: append_assoc)

lemma dec_val_Cons: "dec_val (c # cs) = digit_val c * 10 ^ length cs + dec_val cs"
  using dec_val_append [of "[c]" cs] by (simp add: dec_val_def)

lemma dec_val_less: "list_all is_digit cs \<Longrightarrow> dec_val cs < 10 ^ length cs"
proof (induction cs)
  case Nil
  then show ?case by (simp add: dec_val_def)
next
  case (Cons c cs)
  then have "dec_val cs < 10 ^ length cs" and "digit_val c \<le> 9" by (auto simp: is_digit_def digit_val_def)
  moreover from this(2) have "digit_val c * 10 ^ length cs \<le> 9 * 10 ^ length cs" by (rule mult_le_mono1)
  ultimately have "dec_val (c # cs) < 10 ^ length cs + 9 * 10 ^ length cs" unfolding dec_val_Cons by linarith
  then show ?case by simp
qed

text \<open>Among digit strings of one length the byte order is the numeric order.\<close>

lemma digit_string_order:
  "length xs = length ys \<Longrightarrow> list_all is_digit xs \<Longrightarrow> list_all is_digit ys \<Longrightarrow> xs < ys \<longleftrightarrow> dec_val xs < dec_val ys"
proof (induction xs ys rule: list_induct2)
  case (Cons x xs y ys)
  have v: "dec_val xs < 10 ^ length ys" "dec_val ys < 10 ^ length ys"
    using dec_val_less [of xs] dec_val_less [of ys] Cons by auto
  have "(of_char x :: nat) = 48 + digit_val x" "(of_char y :: nat) = 48 + digit_val y"
    using Cons.prems by (simp_all add: digit_val_def is_digit_def)
  then have xy: "x < y \<longleftrightarrow> digit_val x < digit_val y" "x = y \<longleftrightarrow> digit_val x = digit_val y"
    using of_char_eq_iff [where ?'a = nat, of x y] by (simp_all add: less_char_def)
  have lt: "a * B + p < b * B + q" if "a < b" "p < B" for a b B p q :: nat
  proof -
    have "Suc a * B \<le> b * B" using that(1) by (intro mult_le_mono1) simp
    with that(2) show ?thesis by simp
  qed
  consider "digit_val x < digit_val y" | "digit_val y < digit_val x" | "digit_val x = digit_val y" by linarith
  then show ?case
  proof cases
    case 1
    then have "dec_val (x # xs) < dec_val (y # ys)" using lt [OF 1 v(1)] Cons.hyps by (simp add: dec_val_Cons)
    then show ?thesis using 1 xy by simp
  next
    case 2
    then have "dec_val (y # ys) < dec_val (x # xs)" using lt [OF 2 v(2)] Cons.hyps by (simp add: dec_val_Cons)
    then show ?thesis using 2 xy by simp
  next
    case 3
    then show ?thesis using xy Cons by (simp add: dec_val_Cons)
  qed
qed simp

lemma dec_val_zeros [simp]: "dec_val (replicate n (CHR ''0'') @ s) = dec_val s"
proof -
  have "dec_val (replicate n (CHR ''0'')) = 0"
    by (induction n) (simp_all add: dec_val_Cons dec_val_def digit_val_def)
  then show ?thesis by (simp add: dec_val_append)
qed

definition index_digits :: "u64 \<Rightarrow> string" where
  "index_digits i = zero_pad 20 (dec (unat i))"

lemma length_index_digits [simp]: "length (index_digits i) = 20"
proof -
  have "unat i < 10 ^ 20" using unat_less [of i] by simp
  then have "length (dec (unat i)) \<le> 20" by (rule length_dec) simp
  then show ?thesis by (simp add: index_digits_def zero_pad_def)
qed

lemma digits_index_digits [simp]: "list_all is_digit (index_digits i)"
  by (simp add: index_digits_def zero_pad_def list_all_iff is_digit_def)
    (use list_all_is_digit_dec [of "unat i"] in \<open>auto simp: list_all_iff is_digit_def\<close>)

lemma dec_val_index_digits [simp]: "dec_val (index_digits i) = unat i"
  by (simp add: index_digits_def zero_pad_def)

lemma log_key_alt: "log_key i = ''log:'' @ index_digits i"
  by (simp add: log_key_def index_digits_def)

lemma log_key_less_iff [simp]: "log_key i < log_key j \<longleftrightarrow> i < j"
  using digit_string_order [of "index_digits i" "index_digits j"] by (simp add: log_key_alt word_less_nat_alt)

lemma log_key_eq_iff [simp]: "log_key i = log_key j \<longleftrightarrow> i = j"
  using log_key_less_iff [of i j] log_key_less_iff [of j i] by (metis less_irrefl linorder_less_linear)

lemma log_key_le_iff [simp]: "log_key i \<le> log_key j \<longleftrightarrow> i \<le> j"
  by (simp add: linorder_not_less [symmetric])

lemma strip_plus_digits: "list_all is_digit s \<Longrightarrow> strip_plus s = s"
  by (auto simp: strip_plus_def is_digit_def split: list.splits)

lemma parse_log_key_log_key [simp]: "parse_log_key (log_key i) = Some i"
proof -
  have ne: "index_digits i \<noteq> []" by (metis length_0_conv length_index_digits zero_neq_numeral)
  have "unat i < 2 ^ 64" using unat_less [of i] by simp
  then have "parse_uint 64 (index_digits i) = Some (unat i)"
    using ne by (simp add: parse_uint_def strip_plus_digits Let_def)
  then show ?thesis unfolding parse_log_key_def log_key_alt strip_prefix_append by (simp add: parse_u64_def)
qed

text \<open>The three special keys sort before every log key and are no log keys.\<close>

lemma special_keys:
  "VOTE_KEY < log_key i" "COMMITTED_KEY < log_key i" "LAST_PURGED_KEY < log_key i"
  "parse_log_key VOTE_KEY = None" "parse_log_key COMMITTED_KEY = None" "parse_log_key LAST_PURGED_KEY = None"
  by (simp_all add: VOTE_KEY_def COMMITTED_KEY_def LAST_PURGED_KEY_def log_key_alt parse_log_key_def strip_prefix_def less_char_def)

section \<open>The durable store simulates the in-memory one\<close>

definition log_image :: "('l, 'p, 'v) log_codec \<Rightarrow> ('l, 'p, 'v) log_inner \<Rightarrow> bytes \<Rightarrow> bytes option" where
  "log_image jc s k =
     (if k = VOTE_KEY then map_option (encoded (enc_vote jc)) (li_vote s)
      else if k = COMMITTED_KEY then map_option (encoded (enc_log_id jc)) (li_committed s)
      else if k = LAST_PURGED_KEY then map_option (encoded (enc_log_id jc)) (li_last_purged s)
      else case parse_log_key k of
          None \<Rightarrow> None
        | Some i \<Rightarrow> if k = log_key i then map_option (encoded (enc_entry jc)) (fmlookup (li_log s) i) else None)"

definition log_rel :: "'db raft_db \<Rightarrow> ('l, 'p, 'v) log_codec \<Rightarrow> 'db \<Rightarrow> ('l, 'p, 'v) log_inner \<Rightarrow> bool" where
  "log_rel rd jc db s \<longleftrightarrow> fmlookup (db_view rd db) = log_image jc s"

lemma special_distinct [simp]:
  "VOTE_KEY \<noteq> COMMITTED_KEY" "COMMITTED_KEY \<noteq> VOTE_KEY" "VOTE_KEY \<noteq> LAST_PURGED_KEY" "LAST_PURGED_KEY \<noteq> VOTE_KEY"
  "COMMITTED_KEY \<noteq> LAST_PURGED_KEY" "LAST_PURGED_KEY \<noteq> COMMITTED_KEY"
  by (simp_all add: VOTE_KEY_def COMMITTED_KEY_def LAST_PURGED_KEY_def)

lemma log_key_not_special [simp]:
  "log_key i \<noteq> VOTE_KEY" "log_key i \<noteq> COMMITTED_KEY" "log_key i \<noteq> LAST_PURGED_KEY"
  "VOTE_KEY \<noteq> log_key i" "COMMITTED_KEY \<noteq> log_key i" "LAST_PURGED_KEY \<noteq> log_key i"
  using special_keys(1-3) [of i] by auto

lemma log_image_simps [simp]:
  "log_image jc s VOTE_KEY = map_option (encoded (enc_vote jc)) (li_vote s)"
  "log_image jc s COMMITTED_KEY = map_option (encoded (enc_log_id jc)) (li_committed s)"
  "log_image jc s LAST_PURGED_KEY = map_option (encoded (enc_log_id jc)) (li_last_purged s)"
  "log_image jc s (log_key i) = map_option (encoded (enc_entry jc)) (fmlookup (li_log s) i)"
  by (simp_all add: log_image_def)

lemma log_image_cases:
  assumes "log_image jc s k = Some b"
  shows "k \<in> {VOTE_KEY, COMMITTED_KEY, LAST_PURGED_KEY} \<or> (\<exists>i. k = log_key i)"
  using assms by (auto simp: log_image_def split: if_splits option.splits)

lemma log_image_eqI:
  assumes "f VOTE_KEY = log_image jc s VOTE_KEY" "f COMMITTED_KEY = log_image jc s COMMITTED_KEY"
    "f LAST_PURGED_KEY = log_image jc s LAST_PURGED_KEY" "\<And>i. f (log_key i) = log_image jc s (log_key i)"
    "\<And>k. k \<notin> {VOTE_KEY, COMMITTED_KEY, LAST_PURGED_KEY} \<Longrightarrow> \<forall>i. k \<noteq> log_key i \<Longrightarrow> f k = None"
  shows "f = log_image jc s"
proof
  fix k
  show "f k = log_image jc s k"
  proof (cases "k \<in> {VOTE_KEY, COMMITTED_KEY, LAST_PURGED_KEY} \<or> (\<exists>i. k = log_key i)")
    case True
    then show ?thesis using assms(1-4) by auto
  next
    case False
    then have "log_image jc s k = None" using log_image_cases [of jc s k] by (cases "log_image jc s k") blast+
    with False assms(5) [of k] show ?thesis by auto
  qed
qed

lemma log_image_other: "k \<notin> {VOTE_KEY, COMMITTED_KEY, LAST_PURGED_KEY} \<Longrightarrow> \<forall>i. k \<noteq> log_key i \<Longrightarrow> log_image jc s k = None"
  using log_image_cases [of jc s k] by (cases "log_image jc s k") auto

definition stored_entry :: "('l, 'p, 'v) log_codec \<Rightarrow> u64 \<times> ('l, 'p) raft_entry \<Rightarrow> bytes \<times> bytes" where
  "stored_entry jc ie = (log_key (fst ie), encoded (enc_entry jc) (snd ie))"

lemma sorted_entries_unique:
  "sorted (map fst xs) \<Longrightarrow> distinct (map fst xs) \<Longrightarrow> sorted (map fst ys) \<Longrightarrow> distinct (map fst ys) \<Longrightarrow>
    set xs = set ys \<Longrightarrow> xs = (ys :: ('k :: linorder \<times> 'v) list)"
  by (rule map_sorted_distinct_set_unique [of fst])
    (auto simp: distinct_map inj_on_def intro: prod_eqI dest: distinct_map [THEN iffD1])

lemma sorted_map_log_key: "sorted (map fst xs) \<Longrightarrow> sorted (map (log_key \<circ> fst) xs)"
  by (simp add: sorted_map)

lemma distinct_map_log_key: "distinct (map fst xs) \<Longrightarrow> distinct (map (log_key \<circ> fst) xs)"
  by (auto simp: distinct_map inj_on_def)

lemma fst_stored_entry: "map fst (map (stored_entry jc) xs) = map (log_key \<circ> fst) xs"
  by (simp add: stored_entry_def)

lemma mem_stored_entries:
  "(k, b) \<in> stored_entry jc ` A \<longleftrightarrow> (\<exists>j e. (j, e) \<in> A \<and> k = log_key j \<and> b = encoded (enc_entry jc) e)"
  by (force simp: stored_entry_def)

lemma iter_from_log_key:
  assumes "log_rel rd jc db s"
  shows "filter (\<lambda>kv. log_key i \<le> fst kv) (btree_iter (db_view rd db)) =
    map (stored_entry jc) (filter (\<lambda>kv. i \<le> fst kv) (btree_iter (li_log s)))"
proof (rule sorted_entries_unique)
  have img: "fmlookup (db_view rd db) = log_image jc s" using assms by (simp add: log_rel_def)
  have "(k, b) \<in> set (filter (\<lambda>kv. log_key i \<le> fst kv) (btree_iter (db_view rd db))) \<longleftrightarrow>
      (k, b) \<in> stored_entry jc ` set (filter (\<lambda>kv. i \<le> fst kv) (btree_iter (li_log s)))" for k b
  proof (cases "\<exists>j. k = log_key j")
    case True
    then show ?thesis unfolding mem_stored_entries by (auto simp: set_btree_iter img)
  next
    case False
    have "\<not> (log_image jc s k = Some b \<and> log_key i \<le> k)"
    proof
      assume a: "log_image jc s k = Some b \<and> log_key i \<le> k"
      then have "k \<in> {VOTE_KEY, COMMITTED_KEY, LAST_PURGED_KEY}" using log_image_cases [of jc s k b] False by blast
      with a special_keys(1-3) [of i] show False by auto
    qed
    with False show ?thesis unfolding mem_stored_entries by (auto simp: set_btree_iter img)
  qed
  then show "set (filter (\<lambda>kv. log_key i \<le> fst kv) (btree_iter (db_view rd db))) =
      set (map (stored_entry jc) (filter (\<lambda>kv. i \<le> fst kv) (btree_iter (li_log s))))"
    unfolding set_map by (intro set_eqI) (simp only: split_paired_all)
next
  show "sorted (map fst (map (stored_entry jc) (filter (\<lambda>kv. i \<le> fst kv) (btree_iter (li_log s)))))"
    unfolding fst_stored_entry by (rule sorted_map_log_key) (simp add: sorted_filter)
next
  show "distinct (map fst (map (stored_entry jc) (filter (\<lambda>kv. i \<le> fst kv) (btree_iter (li_log s)))))"
    unfolding fst_stored_entry by (rule distinct_map_log_key) (simp add: distinct_map_filter)
qed (simp_all add: sorted_filter distinct_map_filter)

text \<open>The whole iteration: the special keys, then the log.\<close>

lemma iter_split:
  assumes "log_rel rd jc db s"
  shows "btree_iter (db_view rd db) =
    filter (\<lambda>kv. \<not> log_key 0 \<le> fst kv) (btree_iter (db_view rd db)) @ map (stored_entry jc) (btree_iter (li_log s))"
proof -
  have split: "xs = filter (\<lambda>kv. \<not> a \<le> fst kv) xs @ filter (\<lambda>kv. a \<le> fst kv) xs"
    if "sorted (map fst xs)" for a :: bytes and xs :: "(bytes \<times> bytes) list"
    using that
  proof (induction xs)
    case (Cons x xs)
    show ?case
    proof (cases "a \<le> fst x")
      case True
      then have "\<forall>y \<in> set xs. a \<le> fst y" using Cons.prems by auto
      then show ?thesis using True by (simp add: filter_id_conv)
    next
      case False
      then show ?thesis using Cons by simp
    qed
  qed simp
  have "filter (\<lambda>kv. log_key 0 \<le> fst kv) (btree_iter (db_view rd db)) = map (stored_entry jc) (btree_iter (li_log s))"
    using iter_from_log_key [OF assms, of 0] by simp
  with split [of "btree_iter (db_view rd db)" "log_key 0"] show ?thesis by simp
qed

lemma before_logs_no_key:
  assumes "log_rel rd jc db s" "kv \<in> set (filter (\<lambda>kv. \<not> log_key 0 \<le> fst kv) (btree_iter (db_view rd db)))"
  shows "parse_log_key (fst kv) = None"
proof -
  obtain k b where kv: "kv = (k, b)" by (cases kv)
  then have "log_image jc s k = Some b" and less: "\<not> log_key 0 \<le> k"
    using assms by (auto simp: set_btree_iter log_rel_def)
  then have "k \<in> {VOTE_KEY, COMMITTED_KEY, LAST_PURGED_KEY}" using log_image_cases [of jc s k b] by auto
  then show ?thesis using kv special_keys(4-6) by auto
qed

lemma entries_loop_exact:
  assumes "log_codec_laws jc"
  shows "sorted (map fst kvs) \<Longrightarrow> \<forall>kv \<in> set kvs. start \<le> fst kv \<Longrightarrow>
    entries_loop jc start e (map Inr (map (stored_entry jc) kvs)) acc =
      Inr (acc @ map snd (filter (\<lambda>kv. case e of None \<Rightarrow> True | Some x \<Rightarrow> fst kv < x) kvs))"
proof (induction kvs arbitrary: acc)
  case (Cons kv kvs)
  show ?case
  proof (cases "case e of None \<Rightarrow> False | Some x \<Rightarrow> x \<le> fst kv")
    case True
    then obtain x where x: "e = Some x" "x \<le> fst kv" by (cases e) auto
    then have "filter (\<lambda>kv. fst kv < x) kvs = []"
      using Cons.prems(1) by (auto simp: filter_empty_conv not_less)
    with x show ?thesis by (simp add: stored_entry_def)
  next
    case False
    have "\<not> fst kv < start" using Cons.prems(2) by (simp add: not_less)
    with False Cons show ?thesis
      by (cases e) (simp_all add: stored_entry_def log_codec_encoded(2) [OF assms] not_le)
  qed
qed simp

lemma delete_batch_exact:
  "sorted (map fst kvs) \<Longrightarrow> delete_batch what (log_key e) (map Inr (map (stored_entry jc) kvs)) batch =
    Inr (batch @ map (BDelete \<circ> log_key \<circ> fst) (filter (\<lambda>kv. fst kv \<le> e) kvs))"
proof (induction kvs arbitrary: batch)
  case (Cons kv kvs)
  show ?case
  proof (cases "fst kv \<le> e")
    case True
    then show ?thesis using Cons by (simp add: stored_entry_def not_less)
  next
    case False
    then have "filter (\<lambda>kv. fst kv \<le> e) kvs = []"
      using Cons.prems by (force simp: filter_empty_conv)
    with False show ?thesis by (simp add: stored_entry_def not_le)
  qed
qed simp

text \<open>Single updates of the database image.\<close>

lemma image_put_entry:
  assumes "fmlookup m = log_image jc s"
  shows "fmlookup (fmupd (log_key i) (encoded (enc_entry jc) e) m) = log_image jc (s\<lparr>li_log := fmupd i e (li_log s)\<rparr>)"
  by (rule log_image_eqI) (auto simp: assms log_image_other)

lemma image_drop_entry:
  assumes "fmlookup m = log_image jc s"
  shows "fmlookup (fmdrop (log_key i) m) = log_image jc (s\<lparr>li_log := fmdrop i (li_log s)\<rparr>)"
  by (rule log_image_eqI) (auto simp: assms log_image_other)

lemma image_put_special:
  assumes "fmlookup m = log_image jc s"
  shows "fmlookup (fmupd VOTE_KEY (encoded (enc_vote jc) v) m) = log_image jc (s\<lparr>li_vote := Some v\<rparr>)"
    "fmlookup (fmupd COMMITTED_KEY (encoded (enc_log_id jc) l) m) = log_image jc (s\<lparr>li_committed := Some l\<rparr>)"
    "fmlookup (fmupd LAST_PURGED_KEY (encoded (enc_log_id jc) l) m) = log_image jc (s\<lparr>li_last_purged := Some l\<rparr>)"
    "fmlookup (fmdrop COMMITTED_KEY m) = log_image jc (s\<lparr>li_committed := None\<rparr>)"
  by (rule log_image_eqI; auto simp: assms log_image_other)+

lemma image_put_entries:
  "fmlookup m = log_image jc s \<Longrightarrow>
    fmlookup (fold apply_op (map (\<lambda>e. BPut (log_key (log_index (entry_log_id e))) (encoded (enc_entry jc) e)) es) m) =
      log_image jc (mem_append es s)"
proof (induction es arbitrary: m s)
  case (Cons e es)
  from Cons.IH [OF image_put_entry [OF Cons.prems]] show ?case by (simp add: mem_append_def)
qed (simp add: mem_append_def)

lemma image_drop_entries:
  "fmlookup m = log_image jc s \<Longrightarrow>
    fmlookup (fold apply_op (map (BDelete \<circ> log_key \<circ> fst) kvs) m) =
      log_image jc (s\<lparr>li_log := fold fmdrop (map fst kvs) (li_log s)\<rparr>)"
proof (induction kvs arbitrary: m s)
  case (Cons kv kvs)
  from Cons.IH [OF image_drop_entry [OF Cons.prems]] show ?case by simp
qed simp

lemma append_batch_exact:
  assumes "log_codec_laws jc"
  shows "append_batch jc es batch =
    Inr (batch @ map (\<lambda>e. BPut (log_key (log_index (entry_log_id e))) (encoded (enc_entry jc) e)) es)"
  by (induction es arbitrary: batch) (simp_all add: log_codec_encoded(1) [OF assms])

text \<open>The laws of the database, operation by operation.\<close>

lemma db_lawsD:
  assumes "raft_db_laws rd"
  shows "db_get rd db k = Inr (fmlookup (db_view rd db) k)"
    "\<exists>db'. db_put rd db k v = (db', Inr ()) \<and> db_view rd db' = fmupd k v (db_view rd db)"
    "\<exists>db'. db_delete rd db k = (db', Inr ()) \<and> db_view rd db' = fmdrop k (db_view rd db)"
    "\<exists>db'. db_write rd db ops = (db', Inr ()) \<and> db_view rd db' = fold apply_op ops (db_view rd db)"
    "db_iter_from rd db start = map Inr (filter (\<lambda>kv. start \<le> fst kv) (btree_iter (db_view rd db)))"
    "db_iter_end rd db = map Inr (rev (btree_iter (db_view rd db)))"
  using assms unfolding raft_db_laws_def by (elim conjE; simp)+

lemma write_or_exact:
  assumes "raft_db_laws rd"
  shows "\<exists>db'. write_or rd what db ops = (db', Inr ()) \<and> db_view rd db' = fold apply_op ops (db_view rd db)"
  using db_lawsD(4) [OF assms, of db ops] by (auto simp: write_or_def)

lemma append_sim:
  assumes "raft_db_laws rd" "log_codec_laws jc" "log_rel rd jc db s"
  shows "\<exists>db'. rl_append rd jc es db = (db', Inr ()) \<and> log_rel rd jc db' (mem_append es s)"
proof -
  let ?ops = "map (\<lambda>e. BPut (log_key (log_index (entry_log_id e))) (encoded (enc_entry jc) e)) es"
  obtain db' where "write_or rd ''write log batch'' db ?ops = (db', Inr ())" "db_view rd db' = fold apply_op ?ops (db_view rd db)"
    using write_or_exact [OF assms(1)] by blast
  then show ?thesis
    using image_put_entries [of "db_view rd db" jc s es] assms(3)
    by (simp add: rl_append_def append_batch_exact [OF assms(2)] log_rel_def)
qed

lemma truncate_sim:
  assumes "raft_db_laws rd" "log_rel rd jc db s"
  shows "\<exists>db'. rl_truncate rd i db = (db', Inr ()) \<and> log_rel rd jc db' (mem_truncate i s)"
proof -
  let ?kvs = "filter (\<lambda>kv. log_index i \<le> fst kv) (btree_iter (li_log s))"
  have "delete_batch ''truncate'' (log_key (- 1)) (db_iter_from rd db (log_key (log_index i))) [] =
      Inr (map (BDelete \<circ> log_key \<circ> fst) ?kvs)"
    by (simp only: db_lawsD(5) [OF assms(1)] iter_from_log_key [OF assms(2)] delete_batch_exact sorted_filter sorted_btree_iter)
      simp
  moreover obtain db' where "write_or rd ''truncate logs'' db (map (BDelete \<circ> log_key \<circ> fst) ?kvs) = (db', Inr ())"
      "db_view rd db' = fold apply_op (map (BDelete \<circ> log_key \<circ> fst) ?kvs) (db_view rd db)"
    using write_or_exact [OF assms(1)] by blast
  moreover have "fmlookup (fold apply_op (map (BDelete \<circ> log_key \<circ> fst) ?kvs) (db_view rd db)) = log_image jc (mem_truncate i s)"
    using image_drop_entries [of "db_view rd db" jc s ?kvs] assms(2)
    by (simp add: log_rel_def mem_truncate_def case_prod_unfold)
  ultimately show ?thesis by (simp add: rl_truncate_def log_rel_def)
qed

lemma purge_sim:
  assumes "raft_db_laws rd" "log_codec_laws jc" "log_rel rd jc db s"
  shows "\<exists>db'. rl_purge rd jc i db = (db', Inr ()) \<and> log_rel rd jc db' (mem_purge i s)"
proof -
  let ?kvs = "filter (\<lambda>kv. fst kv \<le> log_index i) (btree_iter (li_log s))"
  let ?ops = "map (BDelete \<circ> log_key \<circ> fst) ?kvs @ [BPut LAST_PURGED_KEY (encoded (enc_log_id jc) i)]"
  have "delete_batch ''purge'' (log_key (log_index i)) (db_iter_from rd db (log_key 0)) [] =
      Inr (map (BDelete \<circ> log_key \<circ> fst) ?kvs)"
    by (simp only: db_lawsD(5) [OF assms(1)] iter_from_log_key [OF assms(3)] delete_batch_exact sorted_filter sorted_btree_iter)
      simp
  moreover have "fmlookup (fold apply_op ?ops (db_view rd db)) = log_image jc (mem_purge i s)"
    using image_put_special(3) [OF image_drop_entries [of "db_view rd db" jc s ?kvs]] assms(3)
    by (simp add: log_rel_def mem_purge_def case_prod_unfold)
  ultimately show ?thesis
    using write_or_exact [OF assms(1), of "''purge logs''" db ?ops]
    by (auto simp: rl_purge_def log_codec_encoded(3) [OF assms(2)] log_rel_def)
qed

lemma save_vote_sim:
  assumes "raft_db_laws rd" "log_codec_laws jc" "log_rel rd jc db s"
  shows "\<exists>db'. rl_save_vote rd jc v db = (db', Inr ()) \<and> log_rel rd jc db' (mem_save_vote v s)"
  using db_lawsD(2) [OF assms(1), of db VOTE_KEY "encoded (enc_vote jc) v"] image_put_special(1) [of "db_view rd db" jc s v] assms(3)
  by (auto simp: rl_save_vote_def mem_save_vote_def log_rel_def log_codec_encoded(5) [OF assms(2)])

lemma save_committed_sim:
  assumes "raft_db_laws rd" "log_codec_laws jc" "log_rel rd jc db s"
  shows "\<exists>db'. rl_save_committed rd jc c db = (db', Inr ()) \<and> log_rel rd jc db' (mem_save_committed c s)"
proof (cases c)
  case None
  then show ?thesis
    using db_lawsD(3) [OF assms(1), of db COMMITTED_KEY] image_put_special(4) [of "db_view rd db" jc s] assms(3)
    by (auto simp: rl_save_committed_def mem_save_committed_def log_rel_def)
next
  case (Some l)
  then show ?thesis
    using db_lawsD(2) [OF assms(1), of db COMMITTED_KEY "encoded (enc_log_id jc) l"] image_put_special(2) [of "db_view rd db" jc s l] assms(3)
    by (auto simp: rl_save_committed_def mem_save_committed_def log_rel_def log_codec_encoded(3) [OF assms(2)])
qed

lemma read_optional_exact:
  assumes "raft_db_laws rd" "fmlookup (db_view rd db) key = map_option f x" "\<And>y. dc (f y) = Inr y"
  shows "read_optional rd dc key what db = Inr x"
  using assms by (cases x) (simp_all add: read_optional_def db_lawsD(1))

lemma reads_sim:
  assumes "raft_db_laws rd" "log_codec_laws jc" "log_rel rd jc db s"
  shows "rl_read_vote rd jc db = Inr (mem_read_vote s)" "rl_read_committed rd jc db = Inr (mem_read_committed s)"
    "read_optional rd (dec_log_id jc) LAST_PURGED_KEY what db = Inr (li_last_purged s)"
proof -
  have img: "fmlookup (db_view rd db) = log_image jc s" using assms(3) by (simp add: log_rel_def)
  show "rl_read_vote rd jc db = Inr (mem_read_vote s)" unfolding rl_read_vote_def mem_read_vote_def
    by (rule read_optional_exact [OF assms(1), where f = "encoded (enc_vote jc)"]) (simp_all add: img log_codec_encoded(6) [OF assms(2)])
  show "rl_read_committed rd jc db = Inr (mem_read_committed s)" unfolding rl_read_committed_def mem_read_committed_def
    by (rule read_optional_exact [OF assms(1), where f = "encoded (enc_log_id jc)"]) (simp_all add: img log_codec_encoded(4) [OF assms(2)])
  show "read_optional rd (dec_log_id jc) LAST_PURGED_KEY what db = Inr (li_last_purged s)"
    by (rule read_optional_exact [OF assms(1), where f = "encoded (enc_log_id jc)"]) (simp_all add: img log_codec_encoded(4) [OF assms(2)])
qed

lemma last_entry_loop_exact:
  assumes "log_codec_laws jc" "log_rel rd jc db s"
  shows "last_entry_loop jc (map Inr (rev (btree_iter (db_view rd db)))) =
    Inr (case rev (btree_iter (li_log s)) of [] \<Rightarrow> None | (_, e) # _ \<Rightarrow> Some (entry_log_id e))"
proof (cases "rev (btree_iter (li_log s))")
  case Nil
  then have "btree_iter (db_view rd db) = filter (\<lambda>kv. \<not> log_key 0 \<le> fst kv) (btree_iter (db_view rd db))"
    using iter_split [OF assms(2)] by simp
  then have none: "parse_log_key (fst kv) = None" if "kv \<in> set (btree_iter (db_view rd db))" for kv
    using before_logs_no_key [OF assms(2)] that by metis
  have "last_entry_loop jc (map Inr kvs) = Inr None" if "\<forall>kv \<in> set kvs. parse_log_key (fst kv) = None" for kvs
    using that by (induction kvs) auto
  with none show ?thesis by (simp add: Nil)
next
  case (Cons ie rest)
  have it: "rev (btree_iter (db_view rd db)) = map (stored_entry jc) (rev (btree_iter (li_log s))) @
      rev (filter (\<lambda>kv. \<not> log_key 0 \<le> fst kv) (btree_iter (db_view rd db)))"
    by (subst iter_split [OF assms(2)]) (simp add: rev_map)
  show ?thesis
    unfolding it by (simp add: Cons stored_entry_def log_codec_encoded(2) [OF assms(1)] case_prod_unfold)
qed

lemma get_log_state_sim:
  assumes "raft_db_laws rd" "log_codec_laws jc" "log_rel rd jc db s"
  shows "rl_get_log_state rd jc db = Inr (mem_get_log_state s)"
  by (simp add: rl_get_log_state_def reads_sim(3) [OF assms] db_lawsD(6) [OF assms(1)]
    last_entry_loop_exact [OF assms(2,3)] mem_get_log_state_def Let_def)

text \<open>
  A range whose bounds can be moved by one without overflow: openraft never asks for an entry
  after the last possible index.
\<close>

definition no_overflow :: "range_bound \<Rightarrow> range_bound \<Rightarrow> bool" where
  "no_overflow lo hi \<longleftrightarrow> lo \<noteq> Excluded (- 1) \<and> hi \<noteq> Included (- 1)"

lemma word_plus_1_le:
  assumes a: "(a :: u64) \<noteq> - 1"
  shows "a + 1 \<le> b \<longleftrightarrow> a < b"
proof -
  have max: "unat (- 1 :: u64) = 2 ^ 64 - 1" by (simp add: unsigned_minus_1_eq_mask mask_eq_exp_minus_1)
  have "unat a \<noteq> unat (- 1 :: u64)" using a word_unat_eq_iff by blast
  then have "unat a + unat (1 :: u64) < 2 ^ 64" using unat_less [of a] max by simp
  then have "unat (a + 1) = Suc (unat a)" by (subst unat_add_small) simp_all
  then show "a + 1 \<le> b \<longleftrightarrow> a < b" by (simp add: word_le_nat_alt word_less_nat_alt Suc_le_eq)
qed

lemma try_get_sim:
  assumes "raft_db_laws rd" "log_codec_laws jc" "log_rel rd jc db s" "no_overflow lo hi"
    "mem_try_get_log_entries lo hi s = Some es"
  shows "rl_try_get_log_entries rd jc lo hi db = Inr es"
proof -
  define start where "start = (case lo of Included s \<Rightarrow> s | Excluded s \<Rightarrow> s + 1 | Unbounded \<Rightarrow> 0)"
  define end_idx where "end_idx = (case hi of Included e \<Rightarrow> Some (e + 1) | Excluded e \<Rightarrow> Some e | Unbounded \<Rightarrow> None)"
  have lo: "above lo k \<longleftrightarrow> start \<le> k" for k
    using assms(4) by (auto simp: above_def start_def no_overflow_def word_plus_1_le split: range_bound.splits)
  have hi: "below hi k \<longleftrightarrow> (case end_idx of None \<Rightarrow> True | Some x \<Rightarrow> k < x)" for k
    using assms(4) word_plus_1_le
    by (auto simp: below_def end_idx_def no_overflow_def not_le [symmetric] split: range_bound.splits)
  have es: "es = map snd (filter (\<lambda>kv. above lo (fst kv) \<and> below hi (fst kv)) (btree_iter (li_log s)))"
    using assms(5) by (auto simp: mem_try_get_log_entries_def btree_range_def case_prod_unfold split: if_splits)
  have "rl_try_get_log_entries rd jc lo hi db = entries_loop jc start end_idx
      (map Inr (map (stored_entry jc) (filter (\<lambda>kv. start \<le> fst kv) (btree_iter (li_log s))))) []"
    by (simp only: rl_try_get_log_entries_def Let_def start_def [symmetric] end_idx_def [symmetric]
      db_lawsD(5) [OF assms(1)] iter_from_log_key [OF assms(3)])
  also have "\<dots> = Inr (map snd (filter (\<lambda>kv. case end_idx of None \<Rightarrow> True | Some x \<Rightarrow> fst kv < x)
      (filter (\<lambda>kv. start \<le> fst kv) (btree_iter (li_log s)))))"
    by (subst entries_loop_exact [OF assms(2)]) (auto simp: sorted_filter)
  also have "\<dots> = Inr es" by (simp add: es lo hi conj_commute)
  finally show ?thesis .
qed

section \<open>Contiguity of the log\<close>

text \<open>
  The contract of the three operations that change the log, over the entries a state holds. The
  lemmas follow the log through them as openraft calls them: appending behind the end, truncating
  and purging inside.
\<close>

locale log_contract =
  fixes entries :: "'s \<Rightarrow> u64 \<Rightarrow> ('l, 'p) raft_entry option"
    and append :: "('l, 'p) raft_entry list \<Rightarrow> 's \<Rightarrow> 's"
    and truncate :: "'l log_id \<Rightarrow> 's \<Rightarrow> 's"
    and purge :: "'l log_id \<Rightarrow> 's \<Rightarrow> 's"
  assumes entries_append: "entries (append es s) = fold (\<lambda>e f. f(log_index (entry_log_id e) \<mapsto> e)) es (entries s)"
    and entries_truncate: "entries (truncate i s) k = (if log_index i \<le> k then None else entries s k)"
    and entries_purge: "entries (purge i s) k = (if k \<le> log_index i then None else entries s k)"
begin

definition spans :: "'s \<Rightarrow> nat \<Rightarrow> nat \<Rightarrow> bool" where
  "spans s lo hi \<longleftrightarrow> (\<forall>k. entries s k \<noteq> None \<longleftrightarrow> lo \<le> unat k \<and> unat k < hi) \<and>
     (\<forall>k e. entries s k = Some e \<longrightarrow> log_index (entry_log_id e) = k)"

lemma fold_upd_spans:
  "\<forall>k. f k \<noteq> None \<longleftrightarrow> lo \<le> unat k \<and> unat k < hi \<Longrightarrow> \<forall>k e. f k = Some e \<longrightarrow> log_index (entry_log_id e) = k \<Longrightarrow> lo \<le> hi \<Longrightarrow>
   map (unat \<circ> log_index \<circ> entry_log_id) es = [hi..<hi + length es] \<Longrightarrow>
   (\<forall>k. fold (\<lambda>e f. f(log_index (entry_log_id e) \<mapsto> e)) es f k \<noteq> None \<longleftrightarrow> lo \<le> unat k \<and> unat k < hi + length es) \<and>
   (\<forall>k e. fold (\<lambda>e f. f(log_index (entry_log_id e) \<mapsto> e)) es f k = Some e \<longrightarrow> log_index (entry_log_id e) = k)"
proof (induction es arbitrary: f hi)
  case (Cons e es)
  let ?f = "f(log_index (entry_log_id e) \<mapsto> e)"
  have i: "unat (log_index (entry_log_id e)) = hi" and rest: "map (unat \<circ> log_index \<circ> entry_log_id) es = [Suc hi..<Suc hi + length es]"
    using Cons.prems(4) by (simp_all add: upt_conv_Cons o_def del: upt_Suc)
  have k: "k = log_index (entry_log_id e) \<longleftrightarrow> unat k = hi" for k using i word_unat_eq_iff by metis
  have a: "\<forall>k. ?f k \<noteq> None \<longleftrightarrow> lo \<le> unat k \<and> unat k < Suc hi"
  proof
    fix k
    show "?f k \<noteq> None \<longleftrightarrow> lo \<le> unat k \<and> unat k < Suc hi"
      using Cons.prems(1) [rule_format, of k] Cons.prems(3) k [of k] by (cases "unat k = hi") auto
  qed
  have b: "\<forall>k x. ?f k = Some x \<longrightarrow> log_index (entry_log_id x) = k" using Cons.prems(2) by simp
  have c: "lo \<le> Suc hi" using Cons.prems(3) by simp
  have len: "hi + length (e # es) = Suc hi + length es" by simp
  show ?case unfolding len fold_simps(2) by (rule Cons.IH [OF a b c rest])
qed simp

lemma spans_append:
  assumes "spans s lo hi" "lo \<le> hi" "map (unat \<circ> log_index \<circ> entry_log_id) es = [hi..<hi + length es]"
  shows "spans (append es s) lo (hi + length es)"
  using assms fold_upd_spans [of "entries s" lo hi es] unfolding spans_def entries_append by blast

lemma spans_truncate:
  assumes "spans s lo hi" "unat (log_index i) \<le> hi"
  shows "spans (truncate i s) lo (unat (log_index i))"
  using assms by (auto simp: spans_def entries_truncate word_le_nat_alt)

lemma spans_purge:
  assumes "spans s lo hi" "lo \<le> unat (log_index i)"
  shows "spans (purge i s) (Suc (unat (log_index i))) hi"
  using assms by (auto simp: spans_def entries_purge word_le_nat_alt)

end

lemma fold_fmupd_entries:
  "fmlookup (fold (\<lambda>e m. fmupd (log_index (entry_log_id e)) e m) es m) =
    fold (\<lambda>e f. f(log_index (entry_log_id e) \<mapsto> e)) es (fmlookup m)"
proof (induction es arbitrary: m)
  case (Cons e es)
  have "fmlookup (fmupd (log_index (entry_log_id e)) e m) = (fmlookup m)(log_index (entry_log_id e) \<mapsto> e)"
    by (auto simp: fun_eq_iff)
  then show ?case by (simp add: Cons.IH)
qed simp

interpretation mem_log: log_contract "\<lambda>s. fmlookup (li_log s)" mem_append mem_truncate mem_purge
proof
  fix i :: "'a log_id" and k and s :: "('a, 'b, 'c) log_inner"
  show "fmlookup (li_log (mem_truncate i s)) k = (if log_index i \<le> k then None else fmlookup (li_log s) k)"
    by (auto simp: mem_truncate_def fold_fmdrop_keys image_iff set_btree_iter case_prod_unfold)
  show "fmlookup (li_log (mem_purge i s)) k = (if k \<le> log_index i then None else fmlookup (li_log s) k)"
    by (auto simp: mem_purge_def fold_fmdrop_keys image_iff set_btree_iter case_prod_unfold)
qed (simp add: mem_append_def fold_fmupd_entries)

text \<open>The states of a log store that openraft drives, with the range of indexes they hold.\<close>

inductive log_reach :: "('l, 'p, 'v) log_inner \<Rightarrow> nat \<Rightarrow> nat \<Rightarrow> bool" where
  log_init: "log_reach log_inner_new 0 0"
| log_append: "log_reach s lo hi \<Longrightarrow> map (unat \<circ> log_index \<circ> entry_log_id) es = [hi..<hi + length es] \<Longrightarrow>
    log_reach (mem_append es s) lo (hi + length es)"
| log_truncate: "log_reach s lo hi \<Longrightarrow> lo \<le> unat (log_index i) \<Longrightarrow> unat (log_index i) \<le> hi \<Longrightarrow>
    log_reach (mem_truncate i s) lo (unat (log_index i))"
| log_purge: "log_reach s lo hi \<Longrightarrow> lo \<le> unat (log_index i) \<Longrightarrow> unat (log_index i) < hi \<Longrightarrow>
    log_reach (mem_purge i s) (Suc (unat (log_index i))) hi"
| log_vote: "log_reach s lo hi \<Longrightarrow> log_reach (mem_save_vote v s) lo hi"
| log_committed: "log_reach s lo hi \<Longrightarrow> log_reach (mem_save_committed c s) lo hi"

definition log_inv :: "('l, 'p, 'v) log_inner \<Rightarrow> nat \<Rightarrow> nat \<Rightarrow> bool" where
  "log_inv s lo hi \<longleftrightarrow> mem_log.spans s lo hi \<and> lo \<le> hi \<and> hi \<le> 2 ^ 64 \<and>
     (if lo = 0 then li_last_purged s = None
      else \<exists>i. li_last_purged s = Some i \<and> Suc (unat (log_index i)) = lo)"

lemma log_reach_inv: "log_reach s lo hi \<Longrightarrow> log_inv s lo hi"
proof (induction rule: log_reach.induct)
  case log_init
  then show ?case by (simp add: log_inv_def mem_log.spans_def log_inner_new_def)
next
  case (log_append s lo hi es)
  have "hi + length es \<le> 2 ^ 64"
  proof (cases "es = []")
    case False
    then have "hi + length es - 1 \<in> set (map (unat \<circ> log_index \<circ> entry_log_id) es)"
      unfolding log_append.hyps(2) by (cases es) auto
    then obtain e where "e \<in> set es" "hi + length es - 1 = (unat \<circ> log_index \<circ> entry_log_id) e" unfolding set_map by blast
    then show ?thesis using unat_less [of "log_index (entry_log_id e)"] False by simp
  qed (use log_append.IH in \<open>simp add: log_inv_def\<close>)
  moreover have "li_last_purged (mem_append es s) = li_last_purged s" by (simp add: mem_append_def)
  moreover have ih: "mem_log.spans s lo hi" "lo \<le> hi" "if lo = 0 then li_last_purged s = None
      else \<exists>i. li_last_purged s = Some i \<and> Suc (unat (log_index i)) = lo"
    using log_append.IH unfolding log_inv_def by blast+
  moreover note mem_log.spans_append [OF ih(1,2) log_append.hyps(2)]
  ultimately show ?case unfolding log_inv_def by (intro conjI) (simp_all only: trans_le_add1)
next
  case (log_truncate s lo hi i)
  have "li_last_purged (mem_truncate i s) = li_last_purged s" by (simp add: mem_truncate_def Let_def)
  with log_truncate mem_log.spans_truncate [of s lo hi i] show ?case by (simp add: log_inv_def)
next
  case (log_purge s lo hi i)
  have "li_last_purged (mem_purge i s) = Some i" by (simp add: mem_purge_def Let_def)
  with log_purge mem_log.spans_purge [of s lo hi i] show ?case by (simp add: log_inv_def)
qed (simp_all add: log_inv_def mem_log.spans_def mem_save_vote_def mem_save_committed_def)

lemma btree_iter_contiguous:
  assumes "log_inv s lo hi"
  shows "map (unat \<circ> log_index \<circ> entry_log_id \<circ> snd) (btree_iter (li_log s)) = [lo..<hi]"
proof -
  have sp: "\<forall>k. fmlookup (li_log s) k \<noteq> None \<longleftrightarrow> lo \<le> unat k \<and> unat k < hi"
      "\<forall>k e. fmlookup (li_log s) k = Some e \<longrightarrow> log_index (entry_log_id e) = k" and hi: "hi \<le> 2 ^ 64"
    using assms unfolding log_inv_def mem_log.spans_def by blast+
  have "map (unat \<circ> log_index \<circ> entry_log_id \<circ> snd) (btree_iter (li_log s)) = map (unat \<circ> fst) (btree_iter (li_log s))"
    using sp(2) by (auto simp: set_btree_iter)
  also have "\<dots> = [lo..<hi]"
  proof (rule sorted_distinct_set_unique)
    have "sorted (map unat (map fst (btree_iter (li_log s))))"
      by (rule sorted_map_mono [OF sorted_btree_iter]) (auto simp: mono_on_def word_le_nat_alt)
    then show "sorted (map (unat \<circ> fst) (btree_iter (li_log s)))" by (simp add: o_def)
    have "distinct (map unat (map fst (btree_iter (li_log s))))"
      by (subst distinct_map) (simp add: inj_on_def word_unat_eq_iff)
    then show "distinct (map (unat \<circ> fst) (btree_iter (li_log s)))" by (simp add: o_def)
    show "set (map (unat \<circ> fst) (btree_iter (li_log s))) = set [lo..<hi]"
    proof (intro set_eqI iffI)
      fix n
      assume "n \<in> set [lo..<hi]"
      then have n: "lo \<le> n" "n < hi" by auto
      then have "unat (word_of_nat n :: u64) = n" using hi by (intro unat_of_nat_small) simp
      moreover from this n obtain e where "fmlookup (li_log s) (word_of_nat n) = Some e"
        using sp(1) [rule_format, of "word_of_nat n"] by auto
      ultimately show "n \<in> set (map (unat \<circ> fst) (btree_iter (li_log s)))"
        by (force simp: set_btree_iter image_iff)
    next
      fix n
      assume "n \<in> set (map (unat \<circ> fst) (btree_iter (li_log s)))"
      then obtain k e where "fmlookup (li_log s) k = Some e" "n = unat k" by (auto simp: set_btree_iter)
      with sp(1) [rule_format, of k] show "n \<in> set [lo..<hi]" by simp
    qed
  qed (simp_all)
  finally show ?thesis .
qed

section \<open>Properties\<close>

text \<open>The calls of openraft that change a log store, on both stores.\<close>

datatype ('l, 'p, 'v) log_op =
    LAppend "('l, 'p) raft_entry list"
  | LTruncate "'l log_id"
  | LPurge "'l log_id"
  | LSaveVote 'v
  | LSaveCommitted "'l log_id option"

fun mem_step :: "('l, 'p, 'v) log_op \<Rightarrow> ('l, 'p, 'v) log_inner \<Rightarrow> ('l, 'p, 'v) log_inner" where
  "mem_step (LAppend es) s = mem_append es s"
| "mem_step (LTruncate i) s = mem_truncate i s"
| "mem_step (LPurge i) s = mem_purge i s"
| "mem_step (LSaveVote v) s = mem_save_vote v s"
| "mem_step (LSaveCommitted c) s = mem_save_committed c s"

fun rl_step :: "'db raft_db \<Rightarrow> ('l, 'p, 'v) log_codec \<Rightarrow> ('l, 'p, 'v) log_op \<Rightarrow> 'db \<Rightarrow> 'db \<times> (string + unit)" where
  "rl_step rd jc (LAppend es) db = rl_append rd jc es db"
| "rl_step rd jc (LTruncate i) db = rl_truncate rd i db"
| "rl_step rd jc (LPurge i) db = rl_purge rd jc i db"
| "rl_step rd jc (LSaveVote v) db = rl_save_vote rd jc v db"
| "rl_step rd jc (LSaveCommitted c) db = rl_save_committed rd jc c db"

primrec rl_run :: "'db raft_db \<Rightarrow> ('l, 'p, 'v) log_codec \<Rightarrow> ('l, 'p, 'v) log_op list \<Rightarrow> 'db \<Rightarrow> string + 'db" where
  "rl_run rd jc [] db = Inr db"
| "rl_run rd jc (p # ps) db = (case rl_step rd jc p db of (db1, Inl e) \<Rightarrow> Inl e | (db1, Inr _) \<Rightarrow> rl_run rd jc ps db1)"

lemma rl_step_sim:
  assumes "raft_db_laws rd" "log_codec_laws jc" "log_rel rd jc db s"
  shows "\<exists>db'. rl_step rd jc p db = (db', Inr ()) \<and> log_rel rd jc db' (mem_step p s)"
  by (cases p) (simp_all add: append_sim [OF assms] truncate_sim [OF assms(1,3)] purge_sim [OF assms]
    save_vote_sim [OF assms] save_committed_sim [OF assms])

lemma rl_run_sim:
  assumes "raft_db_laws rd" "log_codec_laws jc"
  shows "log_rel rd jc db s \<Longrightarrow> \<exists>db'. rl_run rd jc ps db = Inr db' \<and> log_rel rd jc db' (fold mem_step ps s)"
proof (induction ps arbitrary: db s)
  case (Cons p ps)
  obtain db1 where "rl_step rd jc p db = (db1, Inr ())" "log_rel rd jc db1 (mem_step p s)"
    using rl_step_sim [OF assms Cons.prems] by blast
  with Cons.IH show ?case by simp
qed simp

lemma log_rel_empty: "db_view rd db = fmempty \<Longrightarrow> log_rel rd jc db log_inner_new"
  by (simp add: log_rel_def log_image_def log_inner_new_def fun_eq_iff split: option.splits)

text \<open>
  C3. The durable log store answers like the in-memory one. After any sequence of calls on an empty
  database, all of which succeed, the vote, the committed id and the log state that are read are
  those of the in-memory store after the same calls, and so are the entries of every range the
  in-memory store answers (a range it panics on, and bounds that overflow by one, aside).
\<close>

theorem durable_log_refines_memory_log:
  assumes "raft_db_laws rd" "log_codec_laws jc" "db_view rd db0 = fmempty"
  shows "\<exists>db. rl_run rd jc ops db0 = Inr db \<and>
    rl_read_vote rd jc db = Inr (mem_read_vote (fold mem_step ops log_inner_new)) \<and>
    rl_read_committed rd jc db = Inr (mem_read_committed (fold mem_step ops log_inner_new)) \<and>
    rl_get_log_state rd jc db = Inr (mem_get_log_state (fold mem_step ops log_inner_new)) \<and>
    (\<forall>lo hi es. no_overflow lo hi \<longrightarrow> mem_try_get_log_entries lo hi (fold mem_step ops log_inner_new) = Some es \<longrightarrow>
       rl_try_get_log_entries rd jc lo hi db = Inr es)"
proof -
  obtain db where db: "rl_run rd jc ops db0 = Inr db" "log_rel rd jc db (fold mem_step ops log_inner_new)"
    using rl_run_sim [OF assms(1,2) log_rel_empty [OF assms(3)]] by blast
  show ?thesis
    using db(1) reads_sim(1,2) [OF assms(1,2) db(2)] get_log_state_sim [OF assms(1,2) db(2)] try_get_sim [OF assms(1,2) db(2)]
    by blast
qed

text \<open>A database and codecs with the documented behaviour, for logs with numeric leaders.\<close>

definition map_db :: "(bytes, bytes) fmap raft_db" where
  "map_db = \<lparr>db_view = (\<lambda>m. m), db_get = (\<lambda>m k. Inr (fmlookup m k)), db_put = (\<lambda>m k v. (fmupd k v m, Inr ())),
     db_delete = (\<lambda>m k. (fmdrop k m, Inr ())), db_write = (\<lambda>m ops. (fold apply_op ops m, Inr ())),
     db_iter_from = (\<lambda>m start. map Inr (filter (\<lambda>kv. start \<le> fst kv) (btree_iter m))),
     db_iter_end = (\<lambda>m. map Inr (rev (btree_iter m)))\<rparr>"

definition id_codec :: "(bool, string, string) log_codec" where
  "id_codec = \<lparr>
     enc_entry = (\<lambda>e. Inr ((if log_leader (entry_log_id e) then ''t'' else ''f'') @ index_digits (log_index (entry_log_id e)) @ entry_payload e)),
     dec_entry = (\<lambda>b. Inr \<lparr>entry_log_id = \<lparr>log_leader = (take 1 b = ''t''), log_index = word_of_nat (dec_val (take 20 (drop 1 b)))\<rparr>,
       entry_payload = drop 21 b\<rparr>),
     enc_log_id = (\<lambda>i. Inr ((if log_leader i then ''t'' else ''f'') @ index_digits (log_index i))),
     dec_log_id = (\<lambda>b. Inr \<lparr>log_leader = (take 1 b = ''t''), log_index = word_of_nat (dec_val (drop 1 b))\<rparr>),
     enc_vote = Inr, dec_vote = Inr\<rparr>"

lemma map_db_laws: "raft_db_laws map_db"
  by (simp add: raft_db_laws_def map_db_def)

lemma id_codec_laws: "log_codec_laws id_codec"
  by (simp add: log_codec_laws_def id_codec_def)

theorem durable_log_refines_memory_log_witness:
  "\<exists>db. rl_run map_db id_codec [LAppend [\<lparr>entry_log_id = \<lparr>log_leader = True, log_index = 0\<rparr>, entry_payload = ''x''\<rparr>], LSaveVote ''v''] fmempty = Inr db \<and>
    rl_read_vote map_db id_codec db = Inr (Some ''v'') \<and>
    rl_try_get_log_entries map_db id_codec (Included 0) Unbounded db =
      Inr [\<lparr>entry_log_id = \<lparr>log_leader = True, log_index = 0\<rparr>, entry_payload = ''x''\<rparr>]"
proof -
  let ?e = "\<lparr>entry_log_id = \<lparr>log_leader = True, log_index = 0\<rparr>, entry_payload = ''x''\<rparr>"
  let ?s = "fold mem_step [LAppend [?e], LSaveVote ''v''] log_inner_new"
  have "btree_iter (fmupd (0 :: u64) ?e fmempty) = [(0, ?e)]" by (simp add: btree_iter_def sorted_list_of_fset.rep_eq)
  then have "mem_try_get_log_entries (Included 0) Unbounded ?s = Some [?e]" "mem_read_vote ?s = Some ''v''"
    by (simp_all add: mem_try_get_log_entries_def btree_range_def range_panics_def above_def below_def
      mem_append_def mem_save_vote_def log_inner_new_def mem_read_vote_def)
  moreover have "db_view map_db fmempty = fmempty" by (simp add: map_db_def)
  moreover have "no_overflow (Included 0) Unbounded" by (simp add: no_overflow_def)
  ultimately show ?thesis
    using durable_log_refines_memory_log [OF map_db_laws id_codec_laws, of fmempty "[LAppend [?e], LSaveVote ''v'']"]
    by metis
qed

text \<open>
  C19. Driven as openraft drives it, a log store never has a gap: it holds exactly the indexes from the
  first not purged to the last appended, in order, and reports as last log id the last appended
  index, also when everything has been purged.
\<close>

theorem raft_log_contiguous:
  assumes "log_reach s lo hi"
  shows "\<exists>es. mem_try_get_log_entries Unbounded Unbounded s = Some es \<and>
      map (unat \<circ> log_index \<circ> entry_log_id) es = [lo..<hi] \<and>
      (case last_log_id (mem_get_log_state s) of None \<Rightarrow> hi = 0 | Some i \<Rightarrow> Suc (unat (log_index i)) = hi)"
proof -
  have inv: "log_inv s lo hi" by (rule log_reach_inv [OF assms])
  note its = btree_iter_contiguous [OF inv]
  let ?es = "map snd (btree_iter (li_log s))"
  have "mem_try_get_log_entries Unbounded Unbounded s = Some ?es"
    by (simp add: mem_try_get_log_entries_def btree_range_def range_panics_def above_def below_def case_prod_unfold)
  moreover have "map (unat \<circ> log_index \<circ> entry_log_id) ?es = [lo..<hi]" using its by (simp add: o_def)
  moreover have "case last_log_id (mem_get_log_state s) of None \<Rightarrow> hi = 0 | Some i \<Rightarrow> Suc (unat (log_index i)) = hi"
  proof (cases "rev (btree_iter (li_log s))")
    case Nil
    then have "[lo..<hi] = []" using its by simp
    moreover have "lo \<le> hi" and purged: "if lo = 0 then li_last_purged s = None
        else \<exists>i. li_last_purged s = Some i \<and> Suc (unat (log_index i)) = lo"
      using inv unfolding log_inv_def by blast+
    ultimately have "lo = hi" by (auto simp: upt_eq_Nil_conv)
    with purged Nil show ?thesis by (cases "lo = 0") (auto simp: mem_get_log_state_def)
  next
    case (Cons ie rest)
    then have it: "btree_iter (li_log s) = rev rest @ [ie]" by simp
    have "[lo..<hi] \<noteq> []" using its it by (metis append_is_Nil_conv map_is_Nil_conv not_Cons_self2)
    then have hi: "lo < hi" by simp
    have "unat (log_index (entry_log_id (snd ie))) = List.last [lo..<hi]"
      unfolding its [symmetric] it by simp
    with hi have "Suc (unat (log_index (entry_log_id (snd ie)))) = hi" by simp
    then show ?thesis using Cons by (simp add: mem_get_log_state_def case_prod_unfold)
  qed
  ultimately show ?thesis by blast
qed

theorem raft_log_contiguous_witness:
  "Suc (unat (log_index (the (last_log_id (mem_get_log_state
     (mem_purge \<lparr>log_leader = (), log_index = 0\<rparr>
       (mem_append [\<lparr>entry_log_id = \<lparr>log_leader = (), log_index = 0\<rparr>, entry_payload = ()\<rparr>] log_inner_new :: (unit, unit, unit) log_inner))))))) = 1"
proof -
  let ?i = "\<lparr>log_leader = (), log_index = 0\<rparr>" and ?e = "\<lparr>entry_log_id = \<lparr>log_leader = (), log_index = 0\<rparr>, entry_payload = ()\<rparr>"
  have "log_reach (mem_append [?e] log_inner_new :: (unit, unit, unit) log_inner) 0 (0 + length [?e])"
    by (rule log_append [OF log_init]) simp
  then have "log_reach (mem_purge ?i (mem_append [?e] log_inner_new) :: (unit, unit, unit) log_inner) (Suc (unat (log_index ?i))) 1"
    by (intro log_purge) simp_all
  from raft_log_contiguous [OF this] show ?thesis by (auto split: option.splits)
qed

end
