(* ===== verification/State_Machine.thy ===== *)
theory State_Machine
  imports Storage Raft_Log Collections
begin

text \<open>
  The replicated state machine: the commands and responses of \<^verbatim>\<open>crates/consensus/src/types.rs\<close>,
  the application of committed log entries to a storage and an index backend and the snapshots of
  \<^verbatim>\<open>crates/consensus/src/state_machine.rs\<close>, over the traits of
  \<^verbatim>\<open>crates/core/src/traits.rs\<close>.

  A trait object is a record of its methods; the RocksDB and in-memory stores and the no-op index
  are instances. The Tantivy index is an arbitrary record \<open>index_ops\<close>: nothing is assumed of it, so
  what is proved of the storage holds whatever the index does. Schema configurations, leader ids
  and memberships are opaque (type variables); the JSON codec of a list of documents is a
  parameter.
\<close>

section \<open>Backend traits\<close>

record 's storage_ops =
  st_put :: "document \<Rightarrow> 's \<Rightarrow> 's \<times> unit db_result"
  st_scan :: "document_id \<Rightarrow> document_id \<Rightarrow> nat \<Rightarrow> 's \<Rightarrow> document list db_result"
  st_create_collection :: "string \<Rightarrow> 's \<Rightarrow> 's \<times> unit db_result"
  st_drop_collection :: "string \<Rightarrow> 's \<Rightarrow> 's \<times> unit db_result"
  st_get_from_collection :: "string \<Rightarrow> document_id \<Rightarrow> 's \<Rightarrow> document db_result"
  st_put_in_collection :: "string \<Rightarrow> document \<Rightarrow> 's \<Rightarrow> 's \<times> unit db_result"
  st_delete_from_collection :: "string \<Rightarrow> document_id \<Rightarrow> 's \<Rightarrow> 's \<times> unit db_result"

record 'i index_ops =
  ix_index_document :: "document \<Rightarrow> 'i \<Rightarrow> 'i \<times> unit db_result"
  ix_create_collection_index :: "string \<Rightarrow> 'i \<Rightarrow> 'i \<times> unit db_result"
  ix_drop_collection_index :: "string \<Rightarrow> 'i \<Rightarrow> 'i \<times> unit db_result"
  ix_index_document_in_collection :: "string \<Rightarrow> document \<Rightarrow> field_mapping \<Rightarrow> 'i \<Rightarrow> 'i \<times> field_mapping db_result"
  ix_delete_document_from_collection :: "string \<Rightarrow> document_id \<Rightarrow> 'i \<Rightarrow> 'i \<times> unit db_result"
  ix_commit_collection_index :: "string \<Rightarrow> 'i \<Rightarrow> 'i \<times> unit db_result"

definition rocks_ops :: "'db rocks \<Rightarrow> doc_codec \<Rightarrow> 'db rocksdb_storage storage_ops" where
  "rocks_ops rk cd = \<lparr>
     st_put = sb_put rk cd, st_scan = sb_scan rk cd,
     st_create_collection = create_collection_cf rk, st_drop_collection = drop_collection_cf rk,
     st_get_from_collection = sb_get_from_collection rk cd,
     st_put_in_collection = sb_put_in_collection rk cd,
     st_delete_from_collection = sb_delete_from_collection rk cd\<rparr>"

definition in_memory_ops ::
    "((string, document) fmap \<Rightarrow> (string \<times> document) list) \<Rightarrow> in_memory_storage storage_ops" where
  "in_memory_ops it = \<lparr>
     st_put = im_put, st_scan = im_scan it,
     st_create_collection = (\<lambda>_ s. (s, Inr ())), st_drop_collection = (\<lambda>_ s. (s, Inr ())),
     st_get_from_collection = im_get_from_collection,
     st_put_in_collection = im_put_in_collection,
     st_delete_from_collection = im_delete_from_collection\<rparr>"

definition noop_index :: "unit index_ops" where
  "noop_index = \<lparr>
     ix_index_document = (\<lambda>_ i. (i, Inr ())),
     ix_create_collection_index = (\<lambda>_ i. (i, Inr ())), ix_drop_collection_index = (\<lambda>_ i. (i, Inr ())),
     ix_index_document_in_collection = (\<lambda>_ _ m i. (i, Inr m)),
     ix_delete_document_from_collection = (\<lambda>_ _ i. (i, Inr ())),
     ix_commit_collection_index = (\<lambda>_ i. (i, Inr ()))\<rparr>"

section \<open>Commands and responses\<close>

datatype 'sc raft_command =
    InsertDocument string document
  | DeleteDocument string document_id
  | UpdateDocument string document
  | CreateCollection string 'sc
  | DeleteCollection string
  | BatchInsert string "document list"
  | CreateAlias string "string list"
  | DeleteAlias string

record raft_response =
  rr_success :: bool
  rr_document_id :: "document_id option"
  rr_affected_count :: nat

definition rr_ok :: "document_id \<Rightarrow> raft_response" where
  "rr_ok i = \<lparr>rr_success = True, rr_document_id = Some i, rr_affected_count = 1\<rparr>"

definition rr_ok_no_id :: raft_response where
  "rr_ok_no_id = \<lparr>rr_success = True, rr_document_id = None, rr_affected_count = 0\<rparr>"

definition rr_fail :: raft_response where
  "rr_fail = \<lparr>rr_success = False, rr_document_id = None, rr_affected_count = 0\<rparr>"

definition rr_ok_batch :: "nat \<Rightarrow> raft_response" where
  "rr_ok_batch n = \<lparr>rr_success = True, rr_document_id = None, rr_affected_count = n\<rparr>"

section \<open>The state machine\<close>

datatype ('sc, 'm) payload = Blank | Normal "'sc raft_command" | Membership 'm

record ('l, 'm) snapshot_meta =
  sn_last_log_id :: "'l log_id option"
  sn_last_membership :: "'l log_id option \<times> 'm"
  sn_snapshot_id :: string

record ('s, 'i, 'l, 'm) state_machine =
  sm_storage :: 's
  sm_index :: 'i
  sm_last_applied_log :: "'l log_id option"
  sm_last_membership :: "'l log_id option \<times> 'm"
  sm_current_snapshot :: "(('l, 'm) snapshot_meta \<times> bytes) option"

definition sm_new :: "'m \<Rightarrow> 's \<Rightarrow> 'i \<Rightarrow> ('s, 'i, 'l, 'm) state_machine" where
  "sm_new m0 s i = \<lparr>sm_storage = s, sm_index = i, sm_last_applied_log = None, sm_last_membership = (None, m0),
     sm_current_snapshot = None\<rparr>"

text \<open>The loop over the documents of a batch; the last component counts the stored ones.\<close>

fun batch_loop ::
    "'s storage_ops \<Rightarrow> 'i index_ops \<Rightarrow> string \<Rightarrow> document list \<Rightarrow> 's \<Rightarrow> 'i \<Rightarrow> nat \<Rightarrow> 's \<times> 'i \<times> nat" where
  "batch_loop st ix c [] s i n = (s, i, n)"
| "batch_loop st ix c (d # ds) s i n =
     (case st_put_in_collection st c d s of
        (s1, Inl _) \<Rightarrow> batch_loop st ix c ds s1 i n
      | (s1, Inr _) \<Rightarrow>
          batch_loop st ix c ds s1 (fst (ix_index_document_in_collection ix c d field_mapping_new i)) (Suc n))"

fun apply_command :: "'s storage_ops \<Rightarrow> 'i index_ops \<Rightarrow> 'sc raft_command \<Rightarrow> 's \<Rightarrow> 'i \<Rightarrow> 's \<times> 'i \<times> raft_response" where
  "apply_command st ix (InsertDocument c d) s i =
     (case st_put_in_collection st c d s of
        (s1, Inl _) \<Rightarrow> (s1, i, rr_fail)
      | (s1, Inr _) \<Rightarrow>
          (s1, fst (ix_index_document_in_collection ix c d field_mapping_new i), rr_ok (doc_id d)))"
| "apply_command st ix (DeleteDocument c j) s i =
     (case st_delete_from_collection st c j s of
        (s1, Inl _) \<Rightarrow> (s1, i, rr_fail)
      | (s1, Inr _) \<Rightarrow> (s1, fst (ix_delete_document_from_collection ix c j i), rr_ok j))"
| "apply_command st ix (UpdateDocument c d) s i =
     (case st_put_in_collection st c d s of
        (s1, Inl _) \<Rightarrow> (s1, i, rr_fail)
      | (s1, Inr _) \<Rightarrow>
          (let i1 = fst (ix_delete_document_from_collection ix c (doc_id d) i) in
           (s1, fst (ix_index_document_in_collection ix c d field_mapping_new i1), rr_ok (doc_id d))))"
| "apply_command st ix (CreateCollection c sc) s i =
     (case st_create_collection st c s of
        (s1, Inl _) \<Rightarrow> (s1, i, rr_fail)
      | (s1, Inr _) \<Rightarrow> (s1, fst (ix_create_collection_index ix c i), rr_ok_no_id))"
| "apply_command st ix (DeleteCollection c) s i =
     (fst (st_drop_collection st c s), fst (ix_drop_collection_index ix c i), rr_ok_no_id)"
| "apply_command st ix (BatchInsert c ds) s i =
     (let total = length ds; (s1, i1, success_count) = batch_loop st ix c ds s i 0 in
      (s1, i1,
       if success_count = total then rr_ok_batch success_count
       else if success_count > 0 then rr_ok_batch success_count
       else rr_fail))"
| "apply_command st ix (CreateAlias a cs) s i = (s, i, rr_ok_no_id)"
| "apply_command st ix (DeleteAlias a) s i = (s, i, rr_ok_no_id)"

fun command_collection :: "'sc raft_command \<Rightarrow> string option" where
  "command_collection (InsertDocument c _) = Some c"
| "command_collection (UpdateDocument c _) = Some c"
| "command_collection (DeleteDocument c _) = Some c"
| "command_collection (BatchInsert c _) = Some c"
| "command_collection _ = None"

definition note_collection :: "'sc raft_command \<Rightarrow> string list \<Rightarrow> string list" where
  "note_collection cmd cs = (case command_collection cmd of
      None \<Rightarrow> cs | Some c \<Rightarrow> if c \<in> set cs then cs else cs @ [c])"

fun apply_entries ::
    "'s storage_ops \<Rightarrow> 'i index_ops \<Rightarrow> ('l, ('sc, 'm) payload) raft_entry list \<Rightarrow> ('s, 'i, 'l, 'm) state_machine \<Rightarrow>
     string list \<Rightarrow> raft_response list \<Rightarrow> ('s, 'i, 'l, 'm) state_machine \<times> string list \<times> raft_response list" where
  "apply_entries st ix [] sm commits rs = (sm, commits, rs)"
| "apply_entries st ix (e # es) sm commits rs =
     (let sm1 = sm\<lparr>sm_last_applied_log := Some (entry_log_id e)\<rparr> in
      case entry_payload e of
        Blank \<Rightarrow> apply_entries st ix es sm1 commits (rs @ [rr_ok_no_id])
      | Normal cmd \<Rightarrow>
          (let commits1 = note_collection cmd commits;
               (s, i, r) = apply_command st ix cmd (sm_storage sm1) (sm_index sm1) in
           apply_entries st ix es (sm1\<lparr>sm_storage := s, sm_index := i\<rparr>) commits1 (rs @ [r]))
      | Membership mem \<Rightarrow>
          apply_entries st ix es (sm1\<lparr>sm_last_membership := (Some (entry_log_id e), mem)\<rparr>) commits (rs @ [rr_ok_no_id]))"

definition sm_apply ::
    "'s storage_ops \<Rightarrow> 'i index_ops \<Rightarrow> ('l, ('sc, 'm) payload) raft_entry list \<Rightarrow> ('s, 'i, 'l, 'm) state_machine \<Rightarrow>
     ('s, 'i, 'l, 'm) state_machine \<times> raft_response list" where
  "sm_apply st ix es sm =
     (let (sm1, commits, rs) = apply_entries st ix es sm [] [] in
      (sm1\<lparr>sm_index := fold (\<lambda>c i. fst (ix_commit_collection_index ix c i)) commits (sm_index sm1)\<rparr>, rs))"

definition applied_state :: "('s, 'i, 'l, 'm) state_machine \<Rightarrow> 'l log_id option \<times> 'l log_id option \<times> 'm" where
  "applied_state sm = (sm_last_applied_log sm, sm_last_membership sm)"

section \<open>Snapshots\<close>

record list_codec =
  enc_docs :: "document list \<Rightarrow> string + bytes"
  dec_docs :: "bytes \<Rightarrow> string + document list"

definition MIN_ID :: document_id where
  "MIN_ID = DocumentId [CHR 0x00]"

definition MAX_ID :: document_id where
  "MAX_ID = DocumentId [CHR 0xF4, CHR 0x8F, CHR 0xBF, CHR 0xBF]"

definition USIZE_MAX :: nat where
  "USIZE_MAX = 2 ^ 64 - 1"

definition build_snapshot ::
    "'s storage_ops \<Rightarrow> list_codec \<Rightarrow> ('l \<Rightarrow> string) \<Rightarrow> ('s, 'i, 'l, 'm) state_machine \<Rightarrow>
     string + ('l, 'm) snapshot_meta \<times> bytes" where
  "build_snapshot st lc show_leader sm =
     (case st_scan st MIN_ID MAX_ID USIZE_MAX (sm_storage sm) of
        Inl e \<Rightarrow> Inl (db_error_display e)
      | Inr all_docs \<Rightarrow> (case enc_docs lc all_docs of
            Inl e \<Rightarrow> Inl e
          | Inr data \<Rightarrow>
              Inr (\<lparr>sn_last_log_id = sm_last_applied_log sm, sn_last_membership = sm_last_membership sm,
                 sn_snapshot_id = (case sm_last_applied_log sm of
                     Some l \<Rightarrow> show_leader (log_leader l) @ ''-'' @ dec (unat (log_index l)) @ ''-snapshot''
                   | None \<Rightarrow> ''empty-snapshot'')\<rparr>, data)))"

definition install_doc :: "'s storage_ops \<Rightarrow> 'i index_ops \<Rightarrow> document \<Rightarrow> 's \<times> 'i \<Rightarrow> 's \<times> 'i" where
  "install_doc st ix d si = (fst (st_put st d (fst si)), fst (ix_index_document ix d (snd si)))"

definition install_snapshot ::
    "'s storage_ops \<Rightarrow> 'i index_ops \<Rightarrow> list_codec \<Rightarrow> ('l, 'm) snapshot_meta \<Rightarrow> bytes \<Rightarrow> ('s, 'i, 'l, 'm) state_machine \<Rightarrow>
     ('s, 'i, 'l, 'm) state_machine \<times> (string + unit)" where
  "install_snapshot st ix lc meta data sm =
     (case dec_docs lc data of
        Inl e \<Rightarrow> (sm, Inl e)
      | Inr documents \<Rightarrow>
          (let (s, i) = fold (install_doc st ix) documents (sm_storage sm, sm_index sm) in
           (sm\<lparr>sm_storage := s, sm_index := i, sm_last_applied_log := sn_last_log_id meta,
              sm_last_membership := sn_last_membership meta, sm_current_snapshot := Some (meta, data)\<rparr>, Inr ())))"

definition get_current_snapshot :: "('s, 'i, 'l, 'm) state_machine \<Rightarrow> (('l, 'm) snapshot_meta \<times> bytes) option" where
  "get_current_snapshot sm = sm_current_snapshot sm"

section \<open>Specification\<close>

text \<open>What a command does to the abstract store, and its response.\<close>

fun spec_command :: "'sc raft_command \<Rightarrow> store_spec \<Rightarrow> store_spec \<times> raft_response" where
  "spec_command (InsertDocument c d) a =
     (let (a1, ok) = spec_step (OpPut (Some c) d) a in (a1, if ok then rr_ok (doc_id d) else rr_fail))"
| "spec_command (UpdateDocument c d) a =
     (let (a1, ok) = spec_step (OpPut (Some c) d) a in (a1, if ok then rr_ok (doc_id d) else rr_fail))"
| "spec_command (DeleteDocument c j) a =
     (let (a1, ok) = spec_step (OpDelete (Some c) j) a in (a1, if ok then rr_ok j else rr_fail))"
| "spec_command (CreateCollection c sc) a = (fst (spec_step (OpCreate c) a), rr_ok_no_id)"
| "spec_command (DeleteCollection c) a = (fst (spec_step (OpDrop c) a), rr_ok_no_id)"
| "spec_command (BatchInsert c ds) a =
     (case a (Some c) of
        None \<Rightarrow> (a, if ds = [] then rr_ok_batch 0 else rr_fail)
      | Some f \<Rightarrow> (a(Some c \<mapsto> fold (\<lambda>d f. f(as_str (doc_id d) \<mapsto> d)) ds f), rr_ok_batch (length ds)))"
| "spec_command (CreateAlias al cs) a = (a, rr_ok_no_id)"
| "spec_command (DeleteAlias al) a = (a, rr_ok_no_id)"

fun spec_payload :: "('sc, 'm) payload \<Rightarrow> store_spec \<Rightarrow> store_spec \<times> raft_response" where
  "spec_payload Blank a = (a, rr_ok_no_id)"
| "spec_payload (Normal cmd) a = spec_command cmd a"
| "spec_payload (Membership m) a = (a, rr_ok_no_id)"

primrec spec_apply :: "('l, ('sc, 'm) payload) raft_entry list \<Rightarrow> store_spec \<Rightarrow> store_spec \<times> raft_response list" where
  "spec_apply [] a = (a, [])"
| "spec_apply (e # es) a =
     (let (a1, r) = spec_payload (entry_payload e) a; (a2, rs) = spec_apply es a1 in (a2, r # rs))"

lemma spec_apply_append:
  "spec_apply (es @ fs) a =
    (let (a1, rs) = spec_apply es a; (a2, ss) = spec_apply fs a1 in (a2, rs @ ss))"
  by (induction es arbitrary: a) (auto simp: Let_def split: prod.splits)

text \<open>
  The contract the state machine needs of its storage: the four collection operations it calls
  follow the specification of the store.
\<close>

locale collection_store =
  fixes inv :: "'s \<Rightarrow> bool" and abs :: "'s \<Rightarrow> store_spec" and st :: "'s storage_ops"
  assumes put_refines: "inv s \<Longrightarrow> \<exists>s' r. st_put_in_collection st c d s = (s', r) \<and> inv s' \<and>
      (abs s', is_ok r) = spec_step (OpPut (Some c) d) (abs s)"
    and delete_refines: "inv s \<Longrightarrow> \<exists>s' r. st_delete_from_collection st c j s = (s', r) \<and> inv s' \<and>
      (abs s', is_ok r) = spec_step (OpDelete (Some c) j) (abs s)"
    and create_refines: "inv s \<Longrightarrow> \<exists>s' r. st_create_collection st c s = (s', r) \<and> inv s' \<and>
      (abs s', is_ok r) = spec_step (OpCreate c) (abs s)"
    and drop_refines: "inv s \<Longrightarrow> \<exists>s' r. st_drop_collection st c s = (s', r) \<and> inv s' \<and>
      (abs s', is_ok r) = spec_step (OpDrop c) (abs s)"
begin

lemma batch_no_collection:
  "inv s \<Longrightarrow> abs s (Some c) = None \<Longrightarrow>
    \<exists>s' i'. batch_loop st ix c ds s i n = (s', i', n) \<and> inv s' \<and> abs s' = abs s"
proof (induction ds arbitrary: s i)
  case (Cons d ds)
  obtain s1 r where 1: "st_put_in_collection st c d s = (s1, r)" "inv s1"
    "(abs s1, is_ok r) = spec_step (OpPut (Some c) d) (abs s)"
    using put_refines [OF Cons.prems(1)] by blast
  then have a: "abs s1 = abs s" and "\<not> is_ok r" using Cons.prems(2) by auto
  then obtain e where "r = Inl e" by (cases r) auto
  with 1 a Cons.IH [OF 1(2)] Cons.prems(2) show ?case by simp
qed simp

lemma batch_collection:
  "inv s \<Longrightarrow> abs s (Some c) = Some f \<Longrightarrow>
    \<exists>s' i'. batch_loop st ix c ds s i n = (s', i', n + length ds) \<and> inv s' \<and>
      abs s' = (abs s)(Some c \<mapsto> fold (\<lambda>d f. f(as_str (doc_id d) \<mapsto> d)) ds f)"
proof (induction ds arbitrary: s i n f)
  case Nil
  then show ?case by (simp add: map_upd_triv)
next
  case (Cons d ds)
  obtain s1 r where 1: "st_put_in_collection st c d s = (s1, r)" "inv s1"
    "(abs s1, is_ok r) = spec_step (OpPut (Some c) d) (abs s)"
    using put_refines [OF Cons.prems(1)] by blast
  then have a: "abs s1 = (abs s)(Some c \<mapsto> f(as_str (doc_id d) \<mapsto> d))" and "is_ok r" using Cons.prems(2) by auto
  then have r: "r = Inr ()" by (cases r) auto
  have f1: "abs s1 (Some c) = Some (f(as_str (doc_id d) \<mapsto> d))" by (simp add: a)
  from Cons.IH [OF 1(2) f1, of "fst (ix_index_document_in_collection ix c d field_mapping_new i)" "Suc n"] 1(1) r
  show ?case by (simp add: a del: fun_upd_apply)
qed

lemma apply_command_refines:
  assumes "inv s"
  shows "\<exists>s' i' r. apply_command st ix cmd s i = (s', i', r) \<and> inv s' \<and> (abs s', r) = spec_command cmd (abs s)"
proof (cases cmd)
  case (InsertDocument c d)
  obtain s' r where 1: "st_put_in_collection st c d s = (s', r)" "inv s'" "(abs s', is_ok r) = spec_step (OpPut (Some c) d) (abs s)"
    using put_refines [OF assms] by blast
  then show ?thesis using InsertDocument by (cases r) (auto simp: Let_def split: option.splits)
next
  case (DeleteDocument c j)
  obtain s' r where 1: "st_delete_from_collection st c j s = (s', r)" "inv s'" "(abs s', is_ok r) = spec_step (OpDelete (Some c) j) (abs s)"
    using delete_refines [OF assms] by blast
  then show ?thesis using DeleteDocument by (cases r) (auto simp: Let_def split: option.splits)
next
  case (UpdateDocument c d)
  obtain s' r where 1: "st_put_in_collection st c d s = (s', r)" "inv s'" "(abs s', is_ok r) = spec_step (OpPut (Some c) d) (abs s)"
    using put_refines [OF assms] by blast
  then show ?thesis using UpdateDocument by (cases r) (auto simp: Let_def split: option.splits)
next
  case (CreateCollection c sc)
  obtain s' r where 1: "st_create_collection st c s = (s', r)" "inv s'" "(abs s', is_ok r) = spec_step (OpCreate c) (abs s)"
    using create_refines [OF assms] by blast
  then show ?thesis using CreateCollection by (cases r) (auto simp: Let_def split: option.splits)
next
  case (DeleteCollection c)
  with drop_refines [OF assms, of c] show ?thesis by auto
next
  case (BatchInsert c ds)
  show ?thesis
  proof (cases "abs s (Some c)")
    case None
    with batch_no_collection [OF assms None, of ix ds i 0] BatchInsert show ?thesis by auto
  next
    case (Some f)
    with batch_collection [OF assms Some, of ix ds i 0] BatchInsert show ?thesis by auto
  qed
qed (use assms in simp_all)

lemma apply_entries_refines:
  "inv (sm_storage sm) \<Longrightarrow>
    \<exists>sm' cs rs'. apply_entries st ix es sm commits rs = (sm', cs, rs @ rs') \<and> inv (sm_storage sm') \<and>
      (abs (sm_storage sm'), rs') = spec_apply es (abs (sm_storage sm)) \<and>
      sm_last_applied_log sm' = (if es = [] then sm_last_applied_log sm else Some (entry_log_id (List.last es)))"
proof (induction es arbitrary: sm commits rs)
  case (Cons e es)
  let ?sm1 = "sm\<lparr>sm_last_applied_log := Some (entry_log_id e)\<rparr>"
  obtain a1 r where sp: "spec_payload (entry_payload e) (abs (sm_storage sm)) = (a1, r)" by fastforce
  obtain sm2 commits2 where step: "apply_entries st ix (e # es) sm commits rs = apply_entries st ix es sm2 commits2 (rs @ [r])"
    and inv2: "inv (sm_storage sm2)" and abs2: "abs (sm_storage sm2) = a1"
    and log2: "sm_last_applied_log sm2 = Some (entry_log_id e)"
  proof (cases "entry_payload e")
    case Blank
    then show ?thesis using that [of ?sm1 commits] sp Cons.prems by (simp add: Let_def)
  next
    case (Membership m)
    then show ?thesis
      using that [of "?sm1\<lparr>sm_last_membership := (Some (entry_log_id e), m)\<rparr>" commits] sp Cons.prems by (simp add: Let_def)
  next
    case (Normal cmd)
    obtain s' i' r' where "apply_command st ix cmd (sm_storage sm) (sm_index sm) = (s', i', r')" "inv s'"
      "(abs s', r') = spec_command cmd (abs (sm_storage sm))"
      using apply_command_refines [OF Cons.prems, of ix cmd "sm_index sm"] by blast
    then show ?thesis
      using that [of "?sm1\<lparr>sm_storage := s', sm_index := i'\<rparr>" "note_collection cmd commits"] Normal sp by (simp add: Let_def)
  qed
  from Cons.IH [OF inv2, of commits2 "rs @ [r]"]
  obtain sm' cs rs' where "apply_entries st ix es sm2 commits2 (rs @ [r]) = (sm', cs, (rs @ [r]) @ rs')"
    "inv (sm_storage sm')" "(abs (sm_storage sm'), rs') = spec_apply es a1"
    "sm_last_applied_log sm' = (if es = [] then Some (entry_log_id e) else Some (entry_log_id (List.last es)))"
    unfolding abs2 log2 by blast
  moreover from this(3) have "(abs (sm_storage sm'), r # rs') = spec_apply (e # es) (abs (sm_storage sm))"
    using sp by (auto simp: Let_def split: prod.splits)
  ultimately show ?case using step by (metis append.assoc append_Cons append_Nil last.simps list.distinct(1))
qed simp

lemma sm_apply_refines:
  assumes "inv (sm_storage sm)"
  shows "\<exists>sm' rs. sm_apply st ix es sm = (sm', rs) \<and> inv (sm_storage sm') \<and>
      (abs (sm_storage sm'), rs) = spec_apply es (abs (sm_storage sm)) \<and>
      sm_last_applied_log sm' = (if es = [] then sm_last_applied_log sm else Some (entry_log_id (List.last es)))"
proof -
  obtain sm1 cs rs where "apply_entries st ix es sm [] [] = (sm1, cs, rs)" "inv (sm_storage sm1)"
    "(abs (sm_storage sm1), rs) = spec_apply es (abs (sm_storage sm))"
    "sm_last_applied_log sm1 = (if es = [] then sm_last_applied_log sm else Some (entry_log_id (List.last es)))"
    using apply_entries_refines [OF assms, of ix es "[]" "[]"] by auto
  then show ?thesis by (simp add: sm_apply_def)
qed

end

interpretation rocks_sm: collection_store "\<lambda>s. rocks_laws rk \<and> codec_laws cd \<and> rs_inv rk cd s" "rs_abs rk cd" "rocks_ops rk cd"
  for rk cd
proof
  fix s c and d :: document and j
  assume "rocks_laws rk \<and> codec_laws cd \<and> rs_inv rk cd s"
  then have a: "rocks_laws rk" "codec_laws cd" "rs_inv rk cd s" by auto
  show "\<exists>s' r. st_put_in_collection (rocks_ops rk cd) c d s = (s', r) \<and> (rocks_laws rk \<and> codec_laws cd \<and> rs_inv rk cd s') \<and>
      (rs_abs rk cd s', is_ok r) = spec_step (OpPut (Some c) d) (rs_abs rk cd s)"
    using put_step [OF a, of "Some c" d] a by (simp add: rocks_ops_def del: spec_step.simps)
  show "\<exists>s' r. st_delete_from_collection (rocks_ops rk cd) c j s = (s', r) \<and> (rocks_laws rk \<and> codec_laws cd \<and> rs_inv rk cd s') \<and>
      (rs_abs rk cd s', is_ok r) = spec_step (OpDelete (Some c) j) (rs_abs rk cd s)"
    using delete_step [OF a(1,3), of "Some c" j] a by (simp add: rocks_ops_def del: spec_step.simps)
  show "\<exists>s' r. st_create_collection (rocks_ops rk cd) c s = (s', r) \<and> (rocks_laws rk \<and> codec_laws cd \<and> rs_inv rk cd s') \<and>
      (rs_abs rk cd s', is_ok r) = spec_step (OpCreate c) (rs_abs rk cd s)"
    using create_collection_step [OF a(1,3), of c] a by (simp add: rocks_ops_def del: spec_step.simps)
  show "\<exists>s' r. st_drop_collection (rocks_ops rk cd) c s = (s', r) \<and> (rocks_laws rk \<and> codec_laws cd \<and> rs_inv rk cd s') \<and>
      (rs_abs rk cd s', is_ok r) = spec_step (OpDrop c) (rs_abs rk cd s)"
    using drop_collection_step [OF a(1,3), of c] a by (simp add: rocks_ops_def del: spec_step.simps)
qed

section \<open>Properties\<close>

lemma spec_command_None: "fst (spec_command cmd a) None = a None"
  by (cases cmd) (auto simp: Let_def split: option.splits)

lemma spec_apply_None: "fst (spec_apply es a) None = a None"
proof (induction es arbitrary: a)
  case (Cons e es)
  have "fst (spec_payload (entry_payload e) a) None = a None"
    by (cases "entry_payload e") (simp_all add: spec_command_None)
  with Cons show ?case by (simp add: Let_def case_prod_unfold)
qed simp

text \<open>
  C2. Applying committed entries to a RocksDB-backed state machine refines the specification of the
  commands, whatever the index backend does: the responses are those of the specification, a
  document can be read from a collection afterwards exactly when the specification holds it, and
  the last applied log id is that of the last entry.
\<close>

theorem apply_refines_spec:
  assumes "rocks_laws rk" "codec_laws cd" "rs_inv rk cd (sm_storage sm)"
  shows "\<exists>sm' rs. sm_apply (rocks_ops rk cd) ix es sm = (sm', rs) \<and>
    rs = snd (spec_apply es (rs_abs rk cd (sm_storage sm))) \<and>
    (\<forall>c j d. sb_get_from_collection rk cd c j (sm_storage sm') = Inr d \<longleftrightarrow>
      spec_read (fst (spec_apply es (rs_abs rk cd (sm_storage sm)))) (Some c) j = Some d) \<and>
    sm_last_applied_log sm' = (if es = [] then sm_last_applied_log sm else Some (entry_log_id (List.last es)))"
proof -
  obtain sm' rs where a: "sm_apply (rocks_ops rk cd) ix es sm = (sm', rs)" "rs_inv rk cd (sm_storage sm')"
    "(rs_abs rk cd (sm_storage sm'), rs) = spec_apply es (rs_abs rk cd (sm_storage sm))"
    "sm_last_applied_log sm' = (if es = [] then sm_last_applied_log sm else Some (entry_log_id (List.last es)))"
    using rocks_sm.sm_apply_refines [of rk cd sm ix es] assms by blast
  have "sb_get_from_collection rk cd c j (sm_storage sm') = Inr d \<longleftrightarrow>
      spec_read (rs_abs rk cd (sm_storage sm')) (Some c) j = Some d" for c j d
    using rs_read_exact [OF assms(1) a(2), of "Some c" j d] by (simp add: rs_read_def)
  with a(1,4) show ?thesis by (simp add: a(3) [symmetric])
qed

definition fresh_machine :: "((string, (blob, blob) fmap) fmap rocksdb_storage, unit, unit, unit) state_machine" where
  "fresh_machine = sm_new () (projr (rs_new mem_engine fmempty)) ()"

lemma fresh_machine_storage:
  "rs_inv mem_engine unary_codec (sm_storage fresh_machine) \<and> rs_abs mem_engine unary_codec (sm_storage fresh_machine) = fresh_store"
proof -
  obtain s where "rs_new mem_engine fmempty = Inr s" "rs_inv mem_engine unary_codec s" "rs_abs mem_engine unary_codec s = fresh_store"
    by (rule rs_new_fresh [OF mem_engine_laws mem_engine_empty])
  then show ?thesis by (simp add: fresh_machine_def sm_new_def)
qed

definition log_entry :: "u64 \<Rightarrow> (unit, unit) payload \<Rightarrow> (unit, (unit, unit) payload) raft_entry" where
  "log_entry i p = \<lparr>entry_log_id = \<lparr>log_leader = (), log_index = i\<rparr>, entry_payload = p\<rparr>"

definition sample_log :: "(unit, (unit, unit) payload) raft_entry list" where
  "sample_log = [log_entry 1 (Normal (CreateCollection ''a'' ())), log_entry 2 (Normal (InsertDocument ''a'' sample_doc))]"

lemma sample_log_spec:
  "spec_apply sample_log fresh_store =
    ([None \<mapsto> Map.empty, Some ''a'' \<mapsto> [''1'' \<mapsto> sample_doc]], [rr_ok_no_id, rr_ok (DocumentId ''1'')])"
  by (simp add: sample_log_def log_entry_def fresh_store_def)

theorem apply_refines_spec_witness:
  "\<exists>sm' rs. sm_apply (rocks_ops mem_engine unary_codec) noop_index sample_log fresh_machine = (sm', rs) \<and>
    rs = [rr_ok_no_id, rr_ok (DocumentId ''1'')] \<and>
    sb_get_from_collection mem_engine unary_codec ''a'' (DocumentId ''1'') (sm_storage sm') = Inr sample_doc"
proof -
  obtain sm' rs where a: "sm_apply (rocks_ops mem_engine unary_codec) noop_index sample_log fresh_machine = (sm', rs)"
    "rs = snd (spec_apply sample_log fresh_store)"
    "\<forall>c j d. sb_get_from_collection mem_engine unary_codec c j (sm_storage sm') = Inr d \<longleftrightarrow>
      spec_read (fst (spec_apply sample_log fresh_store)) (Some c) j = Some d"
    using apply_refines_spec [OF mem_engine_laws unary_codec_laws conjunct1 [OF fresh_machine_storage], of noop_index sample_log]
    unfolding conjunct2 [OF fresh_machine_storage] by blast
  have "spec_read (fst (spec_apply sample_log fresh_store)) (Some ''a'') (DocumentId ''1'') = Some sample_doc"
    by (simp add: sample_log_spec spec_read_def)
  with a(3) have r: "sb_get_from_collection mem_engine unary_codec ''a'' (DocumentId ''1'') (sm_storage sm') = Inr sample_doc" by blast
  show ?thesis
    by (rule exI [of _ sm'], rule exI [of _ rs]) (intro conjI a(1) a(2) [unfolded sample_log_spec snd_conv] r)
qed

text \<open>
  C17. Replicas agree. Two state machines whose stores hold the same documents, on different engines,
  codecs and index backends, that apply the same log entries return the same responses and hold
  the same documents in every collection, also when one of them applies the entries in two
  batches.
\<close>

theorem replicas_agree:
  assumes "rocks_laws rk1" "codec_laws cd1" "rs_inv rk1 cd1 (sm_storage sm1)"
    and "rocks_laws rk2" "codec_laws cd2" "rs_inv rk2 cd2 (sm_storage sm2)"
    and "rs_abs rk1 cd1 (sm_storage sm1) = rs_abs rk2 cd2 (sm_storage sm2)"
  shows "\<exists>t1 rs t2 rs2 t3 rs3. sm_apply (rocks_ops rk1 cd1) ix1 (es @ fs) sm1 = (t1, rs) \<and>
    sm_apply (rocks_ops rk2 cd2) ix2 es sm2 = (t2, rs2) \<and> sm_apply (rocks_ops rk2 cd2) ix2 fs t2 = (t3, rs3) \<and>
    rs = rs2 @ rs3 \<and>
    (\<forall>c j d. sb_get_from_collection rk1 cd1 c j (sm_storage t1) = Inr d \<longleftrightarrow>
      sb_get_from_collection rk2 cd2 c j (sm_storage t3) = Inr d)"
proof -
  obtain t1 rs where 1: "sm_apply (rocks_ops rk1 cd1) ix1 (es @ fs) sm1 = (t1, rs)" "rs_inv rk1 cd1 (sm_storage t1)"
    "(rs_abs rk1 cd1 (sm_storage t1), rs) = spec_apply (es @ fs) (rs_abs rk1 cd1 (sm_storage sm1))"
    using rocks_sm.sm_apply_refines [of rk1 cd1 sm1 ix1 "es @ fs"] assms(1-3) by blast
  obtain t2 rs2 where 2: "sm_apply (rocks_ops rk2 cd2) ix2 es sm2 = (t2, rs2)" "rs_inv rk2 cd2 (sm_storage t2)"
    "(rs_abs rk2 cd2 (sm_storage t2), rs2) = spec_apply es (rs_abs rk2 cd2 (sm_storage sm2))"
    using rocks_sm.sm_apply_refines [of rk2 cd2 sm2 ix2 es] assms(4-6) by blast
  obtain t3 rs3 where 3: "sm_apply (rocks_ops rk2 cd2) ix2 fs t2 = (t3, rs3)" "rs_inv rk2 cd2 (sm_storage t3)"
    "(rs_abs rk2 cd2 (sm_storage t3), rs3) = spec_apply fs (rs_abs rk2 cd2 (sm_storage t2))"
    using rocks_sm.sm_apply_refines [of rk2 cd2 t2 ix2 fs] assms(4,5) 2(2) by blast
  have "(rs_abs rk1 cd1 (sm_storage t1), rs) = (rs_abs rk2 cd2 (sm_storage t3), rs2 @ rs3)"
    unfolding 1(3) spec_apply_append assms(7) by (simp add: 2(3) [symmetric] 3(3) [symmetric])
  then have eq: "rs_abs rk1 cd1 (sm_storage t1) = rs_abs rk2 cd2 (sm_storage t3)" "rs = rs2 @ rs3" by auto
  have "sb_get_from_collection rk1 cd1 c j (sm_storage t1) = Inr d \<longleftrightarrow>
      sb_get_from_collection rk2 cd2 c j (sm_storage t3) = Inr d" for c j d
    using rs_read_exact [OF assms(1) 1(2), of "Some c" j d] rs_read_exact [OF assms(4) 3(2), of "Some c" j d] eq(1)
    by (simp add: rs_read_def)
  with 1(1) 2(1) 3(1) eq(2) show ?thesis by blast
qed

theorem replicas_agree_witness:
  "\<exists>t1 rs t2 rs2 t3 rs3. sm_apply (rocks_ops mem_engine unary_codec) noop_index (sample_log @ sample_log) fresh_machine = (t1, rs) \<and>
    sm_apply (rocks_ops mem_engine unary_codec) noop_index sample_log fresh_machine = (t2, rs2) \<and>
    sm_apply (rocks_ops mem_engine unary_codec) noop_index sample_log t2 = (t3, rs3) \<and> rs = rs2 @ rs3"
  using replicas_agree [OF mem_engine_laws unary_codec_laws conjunct1 [OF fresh_machine_storage]
      mem_engine_laws unary_codec_laws conjunct1 [OF fresh_machine_storage] refl, of noop_index sample_log sample_log noop_index]
  by blast

definition list_codec_laws :: "list_codec \<Rightarrow> bool" where
  "list_codec_laws lc \<longleftrightarrow> (\<forall>ds. \<exists>b. enc_docs lc ds = Inr b \<and> dec_docs lc b = Inr ds)"

text \<open>
  A snapshot loses the collections. Whatever entries a RocksDB-backed machine that started empty
  has applied, the snapshot it builds holds no document, since the builder scans the default
  column family only; a fresh machine that installs it reports the same last applied log id, but
  no document can be read from any collection.
\<close>

theorem snapshot_omits_collections:
  assumes "rocks_laws rk" "codec_laws cd" "list_codec_laws lc" "rs_inv rk cd s0" "rs_abs rk cd s0 = fresh_store"
    and "sm_apply (rocks_ops rk cd) ix es (sm_new m0 s0 i0) = (sm, rs)"
  shows "\<exists>meta data sm'. build_snapshot (rocks_ops rk cd) lc shl sm = Inr (meta, data) \<and> dec_docs lc data = Inr [] \<and>
    install_snapshot (rocks_ops rk cd) ix lc meta data (sm_new m0 s0 i0) = (sm', Inr ()) \<and>
    sm_last_applied_log sm' = sm_last_applied_log sm \<and>
    (\<forall>c j d. sb_get_from_collection rk cd c j (sm_storage sm') \<noteq> Inr d)"
proof -
  have st0: "sm_storage (sm_new m0 s0 i0) = s0" by (simp add: sm_new_def)
  have inv: "rs_inv rk cd (sm_storage sm)" and ab: "rs_abs rk cd (sm_storage sm) = fst (spec_apply es fresh_store)"
    using rocks_sm.sm_apply_refines [of rk cd "sm_new m0 s0 i0" ix es] assms
    unfolding st0 by (auto simp: prod_eq_iff)
  have none: "rs_abs rk cd (sm_storage sm) None = Some Map.empty"
    unfolding ab spec_apply_None by (simp add: fresh_store_def)
  have "cf_view rk (rs_db (sm_storage sm)) (cf_of None) \<noteq> None" using none by (auto simp: rs_abs_def)
  then have scan: "sb_scan rk cd MIN_ID MAX_ID USIZE_MAX (sm_storage sm) = Inr []"
    using range_scan_exact [OF assms(1) inv none, of "as_str MAX_ID" USIZE_MAX "as_str MIN_ID"]
    by (simp add: sb_scan_def rocks_handle [OF assms(1)] CF_DOCUMENTS_cf_of)
  obtain b where b: "enc_docs lc [] = Inr b" "dec_docs lc b = Inr []" using assms(3) by (auto simp: list_codec_laws_def)
  have "\<exists>meta. build_snapshot (rocks_ops rk cd) lc shl sm = Inr (meta, b) \<and> sn_last_log_id meta = sm_last_applied_log sm"
    using scan b by (simp add: build_snapshot_def rocks_ops_def)
  then obtain meta where meta: "build_snapshot (rocks_ops rk cd) lc shl sm = Inr (meta, b)" "sn_last_log_id meta = sm_last_applied_log sm"
    by blast
  have "sb_get_from_collection rk cd c j s0 \<noteq> Inr d" for c j d
    using rs_read_exact [OF assms(1,4), of "Some c" j d] by (simp add: rs_read_def assms(5) fresh_store_def spec_read_def)
  then show ?thesis using meta b by (simp add: install_snapshot_def sm_new_def)
qed

definition unary_list_codec :: list_codec where
  "unary_list_codec = \<lparr>enc_docs = (\<lambda>ds. Inr (replicate (to_nat (map doc_number ds)) (CHR ''x''))),
     dec_docs = (\<lambda>b. Inr (map number_doc (from_nat (length b))))\<rparr>"

lemma unary_list_codec_laws: "list_codec_laws unary_list_codec"
  by (simp add: list_codec_laws_def unary_list_codec_def o_def)

theorem snapshot_omits_collections_witness:
  "\<exists>sm rs meta data sm'. sm_apply (rocks_ops mem_engine unary_codec) noop_index sample_log fresh_machine = (sm, rs) \<and>
    rs = [rr_ok_no_id, rr_ok (DocumentId ''1'')] \<and>
    build_snapshot (rocks_ops mem_engine unary_codec) unary_list_codec (\<lambda>_. []) sm = Inr (meta, data) \<and>
    install_snapshot (rocks_ops mem_engine unary_codec) noop_index unary_list_codec meta data fresh_machine = (sm', Inr ()) \<and>
    sm_last_applied_log sm' = sm_last_applied_log sm \<and>
    sb_get_from_collection mem_engine unary_codec ''a'' (DocumentId ''1'') (sm_storage sm') \<noteq> Inr sample_doc"
proof -
  let ?s0 = "projr (rs_new mem_engine fmempty)"
  have fm: "fresh_machine = sm_new () ?s0 ()" by (simp add: fresh_machine_def)
  have s0: "rs_inv mem_engine unary_codec ?s0" "rs_abs mem_engine unary_codec ?s0 = fresh_store"
    using fresh_machine_storage by (simp_all add: fresh_machine_def sm_new_def)
  obtain sm rs where ap: "sm_apply (rocks_ops mem_engine unary_codec) noop_index sample_log (sm_new () ?s0 ()) = (sm, rs)"
    and rs: "rs = [rr_ok_no_id, rr_ok (DocumentId ''1'')]"
    using rocks_sm.sm_apply_refines [of mem_engine unary_codec fresh_machine noop_index sample_log] fresh_machine_storage
      mem_engine_laws unary_codec_laws by (auto simp: sample_log_spec fm)
  from snapshot_omits_collections [OF mem_engine_laws unary_codec_laws unary_list_codec_laws s0 ap, of "\<lambda>_. []"]
  show ?thesis unfolding fm using ap rs by blast
qed

end
