(* ===== verification/Query_Engine.thy ===== *)
theory Query_Engine
  imports Query Documents Collections "HOL-Library.Multiset" "HOL-Library.Product_Lexorder"
begin

text \<open>
  The query engine of \<^verbatim>\<open>crates/core/src/query.rs\<close> (aggregations, sorting, cursor pagination,
  collapse) and the part of \<^verbatim>\<open>search_with_options\<close> of
  \<^verbatim>\<open>crates/index/src/collection_index.rs\<close> that combines them.

  A \<^verbatim>\<open>f64\<close> is its bit pattern; comparison, the cast to \<^verbatim>\<open>u64\<close>, minimum and maximum are
  written out on it. Floating-point addition and division, the shortest decimal form of a float
  and the widening of a \<^verbatim>\<open>f32\<close> score are a parameter (\<open>float_ops\<close>). The hits of the Tantivy
  searcher are a parameter. \<^verbatim>\<open>sort_by\<close> is a stable insertion sort: on a total order the
  standard library promises the stable sorted permutation, which is unique.
\<close>

section \<open>Floating-point numbers\<close>

type_synonym f32 = "32 word"

datatype ordering = Less | Equal | Greater

fun ord_reverse :: "ordering \<Rightarrow> ordering" where
  "ord_reverse Less = Greater" | "ord_reverse Equal = Equal" | "ord_reverse Greater = Less"

definition ord_then :: "ordering \<Rightarrow> ordering \<Rightarrow> ordering" where
  "ord_then a b = (if a = Equal then b else a)"

definition cmp_lin :: "'a::linorder \<Rightarrow> 'a \<Rightarrow> ordering" where
  "cmp_lin x y = (if x < y then Less else if x = y then Equal else Greater)"

definition f64_magnitude :: "f64 \<Rightarrow> nat" where
  "f64_magnitude w = unat w mod 2 ^ 63"

definition f64_is_nan :: "f64 \<Rightarrow> bool" where
  "f64_is_nan w \<longleftrightarrow> f64_magnitude w > 0x7FF * 2 ^ 52"

text \<open>A number that orders the bit patterns as the floats they denote; both zeroes give 0.\<close>

definition f64_key :: "f64 \<Rightarrow> int" where
  "f64_key w = (if unat w < 2 ^ 63 then int (f64_magnitude w) else - int (f64_magnitude w))"

definition f64_partial_cmp :: "f64 \<Rightarrow> f64 \<Rightarrow> ordering option" where
  "f64_partial_cmp x y = (if f64_is_nan x \<or> f64_is_nan y then None else Some (cmp_lin (f64_key x) (f64_key y)))"

definition cmp_or_equal :: "ordering option \<Rightarrow> ordering" where
  "cmp_or_equal c = (case c of None \<Rightarrow> Equal | Some x \<Rightarrow> x)"

definition f64_ge :: "f64 \<Rightarrow> f64 \<Rightarrow> bool" where
  "f64_ge x y \<longleftrightarrow> \<not> f64_is_nan x \<and> \<not> f64_is_nan y \<and> f64_key x \<ge> f64_key y"

definition f64_lt :: "f64 \<Rightarrow> f64 \<Rightarrow> bool" where
  "f64_lt x y \<longleftrightarrow> \<not> f64_is_nan x \<and> \<not> f64_is_nan y \<and> f64_key x < f64_key y"

text \<open>\<^verbatim>\<open>f64::min\<close> and \<^verbatim>\<open>max\<close> ignore a NaN argument.\<close>

definition f64_min :: "f64 \<Rightarrow> f64 \<Rightarrow> f64" where
  "f64_min x y = (if f64_is_nan x then y else if f64_is_nan y then x else if f64_key y < f64_key x then y else x)"

definition f64_max :: "f64 \<Rightarrow> f64 \<Rightarrow> f64" where
  "f64_max x y = (if f64_is_nan x then y else if f64_is_nan y then x else if f64_key x < f64_key y then y else x)"

text \<open>\<^verbatim>\<open>x as u64\<close>: truncation towards zero, saturating, 0 for NaN.\<close>

definition f64_as_u64 :: "f64 \<Rightarrow> u64" where
  "f64_as_u64 w =
     (let m = f64_magnitude w; e = m div 2 ^ 52;
          mant = (if e = 0 then m mod 2 ^ 52 else 2 ^ 52 + m mod 2 ^ 52);
          v = (if e \<ge> 1075 then mant * 2 ^ (e - 1075) else mant div 2 ^ (1075 - e)) in
      if f64_is_nan w \<or> unat w \<ge> 2 ^ 63 then 0
      else if v \<ge> 2 ^ 64 then - 1 else word_of_nat v)"

definition f64_one :: f64 where
  "f64_one = word_of_nat (0x3FF * 2 ^ 52)"

record float_ops =
  fadd :: "f64 \<Rightarrow> f64 \<Rightarrow> f64"
  fdiv :: "f64 \<Rightarrow> f64 \<Rightarrow> f64"
  of_count :: "nat \<Rightarrow> f64"
  show_f64 :: "f64 \<Rightarrow> string"
  widen :: "f32 \<Rightarrow> f64"

section \<open>Search options and results\<close>

record range_bucket_def =
  rb_key :: "string option"
  rb_from :: "f64 option"
  rb_to :: "f64 option"

datatype date_interval = Second | Minute | Hour | Day | Week | Month

fun as_secs :: "date_interval \<Rightarrow> u64" where
  "as_secs Second = 1" | "as_secs Minute = 60" | "as_secs Hour = 3600"
| "as_secs Day = 86400" | "as_secs Week = 604800" | "as_secs Month = 2592000"

datatype aggregation =
    AggTerms string nat
  | AggRange string "range_bucket_def list"
  | AggDateHistogram string date_interval
  | AggAvg string
  | AggSum string
  | AggMin string
  | AggMax string
  | AggCardinality string

record aggregation_bucket =
  ab_key :: string
  ab_doc_count :: u64

datatype aggregation_result = Buckets "aggregation_bucket list" | Metric "f64 option"

record search_options =
  so_size :: nat
  so_from :: nat
  so_sort :: "sort_clause list"
  so_search_after :: "sort_value list option"
  so_aggregations :: "(string, aggregation) fmap"
  so_collapse :: "collapse_options option"

record scored_document =
  sd_document :: document
  sd_score :: f32
  sd_sort :: "sort_value list"

record search_result =
  sr_documents :: "scored_document list"
  sr_total :: u64
  sr_took_ms :: u64
  sr_aggregations :: "(string, aggregation_result) fmap"

definition search_result_empty :: "u64 \<Rightarrow> search_result" where
  "search_result_empty took = \<lparr>sr_documents = [], sr_total = 0, sr_took_ms = took, sr_aggregations = fmempty\<rparr>"

section \<open>Sorting\<close>

fun insert_by :: "('a \<Rightarrow> 'a \<Rightarrow> ordering) \<Rightarrow> 'a \<Rightarrow> 'a list \<Rightarrow> 'a list" where
  "insert_by c x [] = [x]"
| "insert_by c x (y # ys) = (if c x y = Greater then y # insert_by c x ys else x # y # ys)"

definition sort_by :: "('a \<Rightarrow> 'a \<Rightarrow> ordering) \<Rightarrow> 'a list \<Rightarrow> 'a list" where
  "sort_by c xs = foldr (insert_by c) xs []"

datatype sort_raw = RawNumber f64 | RawText string | RawMissing

definition extract_sort_value_raw :: "float_ops \<Rightarrow> document \<Rightarrow> string \<Rightarrow> f32 \<Rightarrow> sort_raw" where
  "extract_sort_value_raw fo doc field score =
     (if field = ''_score'' then RawNumber (widen fo score)
      else if field = ''_id'' then RawText (as_str (doc_id doc))
      else case get_field doc field of
          Some (Number n) \<Rightarrow> RawNumber n
        | Some (Text s) \<Rightarrow> RawText s
        | Some (Boolean b) \<Rightarrow> RawNumber (if b then f64_one else 0)
        | _ \<Rightarrow> RawMissing)"

fun compare_sort_raw :: "sort_raw \<Rightarrow> sort_raw \<Rightarrow> ordering" where
  "compare_sort_raw (RawNumber x) (RawNumber y) = cmp_or_equal (f64_partial_cmp x y)"
| "compare_sort_raw (RawText x) (RawText y) = cmp_lin x y"
| "compare_sort_raw RawMissing RawMissing = Equal"
| "compare_sort_raw RawMissing _ = Greater"
| "compare_sort_raw _ RawMissing = Less"
| "compare_sort_raw (RawNumber _) _ = Less"
| "compare_sort_raw _ (RawNumber _) = Greater"

definition directed :: "sort_order \<Rightarrow> ordering \<Rightarrow> ordering" where
  "directed d c = (case d of Asc \<Rightarrow> c | Desc \<Rightarrow> ord_reverse c)"

definition compare_by_clause :: "float_ops \<Rightarrow> scored_document \<Rightarrow> scored_document \<Rightarrow> sort_clause \<Rightarrow> ordering" where
  "compare_by_clause fo a b cl =
     directed (sc_order cl)
       (compare_sort_raw (extract_sort_value_raw fo (sd_document a) (sc_field cl) (sd_score a))
          (extract_sort_value_raw fo (sd_document b) (sc_field cl) (sd_score b)))"

fun compare_by_clauses :: "float_ops \<Rightarrow> sort_clause list \<Rightarrow> scored_document \<Rightarrow> scored_document \<Rightarrow> ordering" where
  "compare_by_clauses fo [] a b = Equal"
| "compare_by_clauses fo (cl # cls) a b =
     (let c = compare_by_clause fo a b cl in if c \<noteq> Equal then c else compare_by_clauses fo cls a b)"

definition extract_sort_value :: "float_ops \<Rightarrow> document \<Rightarrow> string \<Rightarrow> f32 \<Rightarrow> sort_value" where
  "extract_sort_value fo doc field score =
     (if field = ''_score'' then SortNumber (widen fo score)
      else if field = ''_id'' then SortText (as_str (doc_id doc))
      else case get_field doc field of
          Some (Number n) \<Rightarrow> SortNumber n
        | Some (Text s) \<Rightarrow> SortText s
        | Some (Boolean b) \<Rightarrow> SortNumber (if b then f64_one else 0)
        | _ \<Rightarrow> SortText [])"

definition sort_values :: "float_ops \<Rightarrow> sort_clause list \<Rightarrow> scored_document \<Rightarrow> sort_value list" where
  "sort_values fo cls d = map (\<lambda>cl. extract_sort_value fo (sd_document d) (sc_field cl) (sd_score d)) cls"

text \<open>The order of two scores; widening to \<^verbatim>\<open>f64\<close> does not change a comparison.\<close>

definition compare_scores :: "float_ops \<Rightarrow> scored_document \<Rightarrow> scored_document \<Rightarrow> ordering" where
  "compare_scores fo a b = cmp_or_equal (f64_partial_cmp (widen fo (sd_score b)) (widen fo (sd_score a)))"

definition apply_sort :: "float_ops \<Rightarrow> scored_document list \<Rightarrow> sort_clause list \<Rightarrow> scored_document list" where
  "apply_sort fo docs clauses =
     (if clauses = [] then sort_by (compare_scores fo) docs
      else map (\<lambda>d. d\<lparr>sd_sort := sort_values fo clauses d\<rparr>) (sort_by (compare_by_clauses fo clauses) docs))"

section \<open>Cursor pagination and collapse\<close>

fun compare_sort_values :: "sort_value \<Rightarrow> sort_value \<Rightarrow> ordering" where
  "compare_sort_values (SortNumber x) (SortNumber y) = cmp_or_equal (f64_partial_cmp x y)"
| "compare_sort_values (SortText x) (SortText y) = cmp_lin x y"
| "compare_sort_values (SortNumber _) (SortText _) = Less"
| "compare_sort_values (SortText _) (SortNumber _) = Greater"

text \<open>A cursor that is too short is read as if padded with empty texts.\<close>

fun compare_doc_to_cursor :: "float_ops \<Rightarrow> scored_document \<Rightarrow> sort_value list \<Rightarrow> sort_clause list \<Rightarrow> ordering" where
  "compare_doc_to_cursor fo d cursor [] = Equal"
| "compare_doc_to_cursor fo d cursor (cl # cls) =
     (let doc_val = extract_sort_value fo (sd_document d) (sc_field cl) (sd_score d);
          cursor_val = (case cursor of [] \<Rightarrow> SortText [] | v # _ \<Rightarrow> v);
          c = directed (sc_order cl) (compare_sort_values doc_val cursor_val) in
      if c \<noteq> Equal then c else compare_doc_to_cursor fo d (tl cursor) cls)"

definition apply_search_after :: "float_ops \<Rightarrow> scored_document list \<Rightarrow> sort_value list \<Rightarrow> sort_clause list \<Rightarrow> scored_document list" where
  "apply_search_after fo docs cursor clauses =
     (if cursor = [] \<or> clauses = [] then docs
      else filter (\<lambda>d. compare_doc_to_cursor fo d cursor clauses = Greater) docs)"

definition extract_number :: "document \<Rightarrow> string \<Rightarrow> f64 option" where
  "extract_number doc field = (case get_field doc field of Some (Number n) \<Rightarrow> Some n | _ \<Rightarrow> None)"

definition extract_string :: "float_ops \<Rightarrow> document \<Rightarrow> string \<Rightarrow> string option" where
  "extract_string fo doc field =
     (case get_field doc field of
        Some (Text s) \<Rightarrow> Some s
      | Some (Number n) \<Rightarrow> Some (show_f64 fo n)
      | Some (Boolean b) \<Rightarrow> Some (if b then ''true'' else ''false'')
      | _ \<Rightarrow> None)"

definition collapse_key :: "float_ops \<Rightarrow> collapse_options \<Rightarrow> scored_document \<Rightarrow> string" where
  "collapse_key fo co d =
     (case extract_string fo (sd_document d) (co_field co) of
        Some k \<Rightarrow> k | None \<Rightarrow> as_str (doc_id (sd_document d)))"

text \<open>\<^verbatim>\<open>retain\<close> with a set of the keys seen so far.\<close>

fun collapse_loop :: "float_ops \<Rightarrow> collapse_options \<Rightarrow> string set \<Rightarrow> scored_document list \<Rightarrow> scored_document list" where
  "collapse_loop fo co seen [] = []"
| "collapse_loop fo co seen (d # ds) =
     (let k = collapse_key fo co d in
      if k \<in> seen then collapse_loop fo co seen ds else d # collapse_loop fo co (insert k seen) ds)"

definition apply_collapse :: "float_ops \<Rightarrow> scored_document list \<Rightarrow> collapse_options \<Rightarrow> scored_document list" where
  "apply_collapse fo docs co = collapse_loop fo co {} docs"

section \<open>Aggregations\<close>

definition count_in :: "'k \<Rightarrow> ('k, u64) fmap \<Rightarrow> ('k, u64) fmap" where
  "count_in k m = fmupd k (fm_get_or m k 0 + 1) m"

definition compare_buckets :: "aggregation_bucket \<Rightarrow> aggregation_bucket \<Rightarrow> ordering" where
  "compare_buckets a b = ord_then (cmp_lin (ab_doc_count b) (ab_doc_count a)) (cmp_lin (ab_key a) (ab_key b))"

definition compute_terms ::
    "float_ops \<Rightarrow> ((string, u64) fmap \<Rightarrow> (string \<times> u64) list) \<Rightarrow> scored_document list \<Rightarrow> string \<Rightarrow> nat \<Rightarrow> aggregation_result" where
  "compute_terms fo it docs field sz =
     (let counts = fold (\<lambda>d m. case extract_string fo (sd_document d) field of None \<Rightarrow> m | Some v \<Rightarrow> count_in v m) docs fmempty;
          buckets = map (\<lambda>(k, n). \<lparr>ab_key = k, ab_doc_count = n\<rparr>) (it counts) in
      Buckets (take sz (sort_by compare_buckets buckets)))"

definition range_label :: "float_ops \<Rightarrow> range_bucket_def \<Rightarrow> string" where
  "range_label fo r = (case rb_key r of
      Some k \<Rightarrow> k
    | None \<Rightarrow> (case rb_from r of None \<Rightarrow> ''*'' | Some v \<Rightarrow> show_f64 fo v) @ ''-'' @
              (case rb_to r of None \<Rightarrow> ''*'' | Some v \<Rightarrow> show_f64 fo v))"

definition in_bucket :: "f64 \<Rightarrow> range_bucket_def \<Rightarrow> bool" where
  "in_bucket v r \<longleftrightarrow> (case rb_from r of None \<Rightarrow> True | Some f \<Rightarrow> f64_ge v f) \<and> (case rb_to r of None \<Rightarrow> True | Some t \<Rightarrow> f64_lt v t)"

definition compute_range :: "float_ops \<Rightarrow> scored_document list \<Rightarrow> string \<Rightarrow> range_bucket_def list \<Rightarrow> aggregation_result" where
  "compute_range fo docs field ranges =
     Buckets (fold (\<lambda>d bs. case extract_number (sd_document d) field of
           None \<Rightarrow> bs
         | Some v \<Rightarrow> map (\<lambda>(r, b). if in_bucket v r then b\<lparr>ab_doc_count := ab_doc_count b + 1\<rparr> else b) (zip ranges bs))
       docs (map (\<lambda>r. \<lparr>ab_key = range_label fo r, ab_doc_count = 0\<rparr>) ranges))"

definition compare_numeric_keys :: "aggregation_bucket \<Rightarrow> aggregation_bucket \<Rightarrow> ordering" where
  "compare_numeric_keys a b =
     (let key = (\<lambda>x. case parse_u64 (ab_key x) of None \<Rightarrow> 0 | Some n \<Rightarrow> n) in cmp_lin (key a) (key b))"

definition compute_date_histogram ::
    "((u64, u64) fmap \<Rightarrow> (u64 \<times> u64) list) \<Rightarrow> scored_document list \<Rightarrow> string \<Rightarrow> date_interval \<Rightarrow> aggregation_result" where
  "compute_date_histogram it docs field interval =
     (let secs = as_secs interval;
          counts = fold (\<lambda>d m. case extract_number (sd_document d) field of
              None \<Rightarrow> m | Some v \<Rightarrow> count_in ((f64_as_u64 v div secs) * secs) m) docs fmempty;
          buckets = map (\<lambda>(k, n). \<lparr>ab_key = dec (unat k), ab_doc_count = n\<rparr>) (it counts) in
      Buckets (sort_by compare_numeric_keys buckets))"

definition field_numbers :: "scored_document list \<Rightarrow> string \<Rightarrow> f64 list" where
  "field_numbers docs field = List.map_filter (\<lambda>d. extract_number (sd_document d) field) docs"

definition compute_avg :: "float_ops \<Rightarrow> scored_document list \<Rightarrow> string \<Rightarrow> aggregation_result" where
  "compute_avg fo docs field =
     (let vs = field_numbers docs field in
      Metric (if length vs > 0 then Some (fdiv fo (foldl (fadd fo) 0 vs) (of_count fo (length vs))) else None))"

definition compute_sum :: "float_ops \<Rightarrow> scored_document list \<Rightarrow> string \<Rightarrow> aggregation_result" where
  "compute_sum fo docs field =
     (let vs = field_numbers docs field in Metric (if vs \<noteq> [] then Some (foldl (fadd fo) 0 vs) else None))"

definition opt_fold :: "(f64 \<Rightarrow> f64 \<Rightarrow> f64) \<Rightarrow> f64 list \<Rightarrow> f64 option" where
  "opt_fold f vs = foldl (\<lambda>m v. Some (case m of None \<Rightarrow> v | Some x \<Rightarrow> f x v)) None vs"

definition compute_min :: "scored_document list \<Rightarrow> string \<Rightarrow> aggregation_result" where
  "compute_min docs field = Metric (opt_fold f64_min (field_numbers docs field))"

definition compute_max :: "scored_document list \<Rightarrow> string \<Rightarrow> aggregation_result" where
  "compute_max docs field = Metric (opt_fold f64_max (field_numbers docs field))"

definition compute_cardinality :: "float_ops \<Rightarrow> scored_document list \<Rightarrow> string \<Rightarrow> aggregation_result" where
  "compute_cardinality fo docs field =
     (let seen = set (List.map_filter (\<lambda>d. extract_string fo (sd_document d) field) docs) in
      Metric (if seen = {} then None else Some (of_count fo (card seen))))"

definition compute_aggregation ::
    "float_ops \<Rightarrow> ((string, u64) fmap \<Rightarrow> (string \<times> u64) list) \<Rightarrow> ((u64, u64) fmap \<Rightarrow> (u64 \<times> u64) list) \<Rightarrow>
     scored_document list \<Rightarrow> aggregation \<Rightarrow> aggregation_result" where
  "compute_aggregation fo it itu docs agg =
     (case agg of
        AggTerms f n \<Rightarrow> compute_terms fo it docs f n
      | AggRange f rs \<Rightarrow> compute_range fo docs f rs
      | AggDateHistogram f iv \<Rightarrow> compute_date_histogram itu docs f iv
      | AggAvg f \<Rightarrow> compute_avg fo docs f
      | AggSum f \<Rightarrow> compute_sum fo docs f
      | AggMin f \<Rightarrow> compute_min docs f
      | AggMax f \<Rightarrow> compute_max docs f
      | AggCardinality f \<Rightarrow> compute_cardinality fo docs f)"

definition compute_aggregations ::
    "float_ops \<Rightarrow> ((string, u64) fmap \<Rightarrow> (string \<times> u64) list) \<Rightarrow> ((u64, u64) fmap \<Rightarrow> (u64 \<times> u64) list) \<Rightarrow>
     scored_document list \<Rightarrow> (string, aggregation) fmap \<Rightarrow> (string, aggregation_result) fmap" where
  "compute_aggregations fo it itu docs aggs = fmmap (compute_aggregation fo it itu docs) aggs"

section \<open>Search with options\<close>

text \<open>\<open>search_hits\<close> is the answer of the Tantivy searcher for the given limit.\<close>

definition DEFAULT_SEARCH_LIMIT :: nat where
  "DEFAULT_SEARCH_LIMIT = 10"

definition search_with_options ::
    "float_ops \<Rightarrow> ((string, u64) fmap \<Rightarrow> (string \<times> u64) list) \<Rightarrow> ((u64, u64) fmap \<Rightarrow> (u64 \<times> u64) list) \<Rightarrow>
     (nat \<Rightarrow> (f32 \<times> document) list db_result) \<Rightarrow> u64 \<Rightarrow> search_options \<Rightarrow> search_result db_result" where
  "search_with_options fo it itu search_hits took opts =
     (let fetch_limit = max (so_from opts + so_size opts + 1000) (DEFAULT_SEARCH_LIMIT * 100) in
      case search_hits fetch_limit of
        Inl e \<Rightarrow> Inl e
      | Inr top_docs \<Rightarrow>
          (let documents = map (\<lambda>(sc, d). \<lparr>sd_document = d, sd_score = sc, sd_sort = []\<rparr>) top_docs;
               aggs = (if so_aggregations opts = fmempty then fmempty
                       else compute_aggregations fo it itu documents (so_aggregations opts));
               d1 = apply_sort fo documents (so_sort opts);
               d2 = (case so_search_after opts of None \<Rightarrow> d1 | Some cur \<Rightarrow> apply_search_after fo d1 cur (so_sort opts));
               d3 = (case so_collapse opts of None \<Rightarrow> d2 | Some co \<Rightarrow> apply_collapse fo d2 co) in
           Inr \<lparr>sr_documents = take (so_size opts) (drop (so_from opts) d3),
                sr_total = word_of_nat (length top_docs), sr_took_ms = took, sr_aggregations = aggs\<rparr>))"

section \<open>Stable sorting\<close>

lemma mset_insert_by: "mset (insert_by c x ys) = add_mset x (mset ys)"
  by (induction ys) auto

lemma mset_sort_by [simp]: "mset (sort_by c xs) = mset xs"
  by (induction xs) (simp_all add: sort_by_def mset_insert_by)

lemma set_sort_by [simp]: "set (sort_by c xs) = set xs"
  by (metis mset_sort_by set_mset_mset)

lemma sort_by_Cons: "sort_by c (x # xs) = insert_by c x (sort_by c xs)"
  by (simp add: sort_by_def)

lemma ord_reverse_reverse [simp]: "ord_reverse (ord_reverse c) = c"
  by (cases c) simp_all

lemma ord_reverse_eq [simp]:
  "ord_reverse c = Less \<longleftrightarrow> c = Greater" "ord_reverse c = Greater \<longleftrightarrow> c = Less" "ord_reverse c = Equal \<longleftrightarrow> c = Equal"
  by (cases c; simp)+

text \<open>A comparison that is a total order up to ties on a set of elements.\<close>

locale total_cmp =
  fixes A :: "'a set" and cmp :: "'a \<Rightarrow> 'a \<Rightarrow> ordering"
  assumes cmp_sym: "x \<in> A \<Longrightarrow> y \<in> A \<Longrightarrow> cmp y x = ord_reverse (cmp x y)"
    and cmp_trans: "x \<in> A \<Longrightarrow> y \<in> A \<Longrightarrow> z \<in> A \<Longrightarrow> cmp x y \<noteq> Greater \<Longrightarrow> cmp y z \<noteq> Greater \<Longrightarrow> cmp x z \<noteq> Greater"
begin

lemma cmp_refl: "x \<in> A \<Longrightarrow> cmp x x = Equal"
  using cmp_sym [of x x] by (cases "cmp x x") auto

lemma cmp_equal_trans: "x \<in> A \<Longrightarrow> y \<in> A \<Longrightarrow> z \<in> A \<Longrightarrow> cmp x y = Equal \<Longrightarrow> cmp y z = Equal \<Longrightarrow> cmp x z = Equal"
  using cmp_trans [of x y z] cmp_trans [of z y x] cmp_sym [of x y] cmp_sym [of y z] cmp_sym [of x z]
  by (cases "cmp x z") auto

lemma insert_by_sorted:
  "x \<in> A \<Longrightarrow> set ys \<subseteq> A \<Longrightarrow> sorted_wrt (\<lambda>a b. cmp a b \<noteq> Greater) ys \<Longrightarrow>
    sorted_wrt (\<lambda>a b. cmp a b \<noteq> Greater) (insert_by cmp x ys)"
proof (induction ys)
  case (Cons y ys)
  have set: "set (insert_by cmp x ys) = insert x (set ys)"
    by (metis mset_insert_by set_mset_add_mset_insert set_mset_mset)
  show ?case
  proof (cases "cmp x y = Greater")
    case True
    then have "cmp y x \<noteq> Greater" using cmp_sym [of x y] Cons.prems by auto
    with True Cons set show ?thesis by auto
  next
    case False
    have "cmp x b \<noteq> Greater" if "b \<in> set ys" for b
      using cmp_trans [of x y b] that False Cons.prems by auto
    with False Cons.prems show ?thesis by auto
  qed
qed simp

lemma sort_by_sorted: "set xs \<subseteq> A \<Longrightarrow> sorted_wrt (\<lambda>a b. cmp a b \<noteq> Greater) (sort_by cmp xs)"
  by (induction xs) (simp_all add: sort_by_def [of _ "[]"] sort_by_Cons insert_by_sorted)

lemma insert_by_stable:
  "x \<in> A \<Longrightarrow> a \<in> A \<Longrightarrow> set ys \<subseteq> A \<Longrightarrow>
    filter (\<lambda>b. cmp a b = Equal) (insert_by cmp x ys) = filter (\<lambda>b. cmp a b = Equal) (x # ys)"
proof (induction ys)
  case (Cons y ys)
  show ?case
  proof (cases "cmp x y = Greater \<and> cmp a x = Equal")
    case True
    then have "cmp a y \<noteq> Equal"
      using cmp_equal_trans [of x a y] cmp_sym [of a x] Cons.prems by auto
    with True Cons show ?thesis by simp
  qed (use Cons in auto)
qed simp

lemma sort_by_stable:
  "a \<in> A \<Longrightarrow> set xs \<subseteq> A \<Longrightarrow> filter (\<lambda>b. cmp a b = Equal) (sort_by cmp xs) = filter (\<lambda>b. cmp a b = Equal) xs"
  by (induction xs) (simp_all add: sort_by_def [of _ "[]"] sort_by_Cons insert_by_stable)

text \<open>Where only equal elements tie, the result does not depend on the order of the input.\<close>

lemma sort_by_mset_eq:
  assumes "mset xs = mset ys" "set xs \<subseteq> A" "\<And>a b. a \<in> set xs \<Longrightarrow> b \<in> set xs \<Longrightarrow> cmp a b = Equal \<Longrightarrow> a = b"
  shows "sort_by cmp xs = sort_by cmp ys"
proof -
  have sets: "set ys = set xs" using assms(1) by (metis set_mset_mset)
  have "ls = rs" if "mset ls = mset rs" "set ls \<subseteq> set xs" "sorted_wrt (\<lambda>a b. cmp a b \<noteq> Greater) ls"
    "sorted_wrt (\<lambda>a b. cmp a b \<noteq> Greater) rs" for ls rs
    using that
  proof (induction ls arbitrary: rs)
    case (Cons l ls)
    then obtain r rs' where rs: "rs = r # rs'" by (cases rs) auto
    have sub: "set rs \<subseteq> set xs" using Cons.prems(1,2) by (metis set_mset_mset)
    have "l \<in> set rs" "r \<in> set (l # ls)" using Cons.prems(1) rs by (metis list.set_intros(1) set_mset_mset)+
    then have "cmp r l \<noteq> Greater" "cmp l r \<noteq> Greater"
      using Cons.prems(3,4) rs cmp_refl sub assms(2) by auto
    moreover have "cmp r l = ord_reverse (cmp l r)"
      using cmp_sym [of l r] Cons.prems(2) sub rs assms(2) by auto
    ultimately have "cmp l r = Equal" by (cases "cmp l r") auto
    then have "l = r" using assms(3) [of l r] Cons.prems(2) sub rs by auto
    with Cons rs show ?case by simp
  qed simp
  from this [of "sort_by cmp xs" "sort_by cmp ys"] show ?thesis
    using assms(1,2) sets sort_by_sorted [of xs] sort_by_sorted [of ys] by simp
qed

end

lemma cmp_lin_simps [simp]:
  "cmp_lin x y = Less \<longleftrightarrow> x < y" "cmp_lin x y = Equal \<longleftrightarrow> x = y" "cmp_lin x y = Greater \<longleftrightarrow> y < x"
  by (auto simp: cmp_lin_def)

lemma cmp_lin_sym: "cmp_lin y x = ord_reverse (cmp_lin x y)"
  by (auto simp: cmp_lin_def)

lemma total_cmp_lin: "total_cmp UNIV (\<lambda>x y. cmp_lin (f x) (f y))"
  by unfold_locales (rule cmp_lin_sym, auto)

lemma total_cmp_subset: "total_cmp A c \<Longrightarrow> B \<subseteq> A \<Longrightarrow> total_cmp B c"
  unfolding total_cmp_def by blast

lemma total_cmp_cong: "total_cmp A c \<Longrightarrow> (\<And>x y. x \<in> A \<Longrightarrow> y \<in> A \<Longrightarrow> c' x y = c x y) \<Longrightarrow> total_cmp A c'"
  unfolding total_cmp_def by (metis (full_types))

lemma total_cmp_directed: "total_cmp A c \<Longrightarrow> total_cmp A (\<lambda>x y. directed d (c x y))"
proof (cases d)
  case Desc
  assume t: "total_cmp A c"
  show ?thesis
  proof
    fix x y z
    assume a: "x \<in> A" "y \<in> A" "z \<in> A" "directed d (c x y) \<noteq> Greater" "directed d (c y z) \<noteq> Greater"
    with Desc have "c z y \<noteq> Greater" "c y x \<noteq> Greater"
      using total_cmp.cmp_sym [OF t, of x y] total_cmp.cmp_sym [OF t, of y z] by (auto simp: directed_def)
    then have "c z x \<noteq> Greater" using total_cmp.cmp_trans [OF t, of z y x] a by blast
    then show "directed d (c x z) \<noteq> Greater"
      using total_cmp.cmp_sym [OF t, of x z] a Desc by (auto simp: directed_def)
  next
    fix x y
    assume "x \<in> A" "y \<in> A"
    then show "directed d (c y x) = ord_reverse (directed d (c x y))"
      using total_cmp.cmp_sym [OF t, of x y] Desc by (simp add: directed_def)
  qed
qed (simp add: directed_def)

lemma total_cmp_then:
  assumes "total_cmp A c" "total_cmp A c'"
  shows "total_cmp A (\<lambda>x y. if c x y \<noteq> Equal then c x y else c' x y)"
proof
  fix x y assume "x \<in> A" "y \<in> A"
  then show "(if c y x \<noteq> Equal then c y x else c' y x) = ord_reverse (if c x y \<noteq> Equal then c x y else c' x y)"
    using total_cmp.cmp_sym [OF assms(1), of x y] total_cmp.cmp_sym [OF assms(2), of x y] by auto
next
  fix x y z
  assume a: "x \<in> A" "y \<in> A" "z \<in> A"
    and xy: "(if c x y \<noteq> Equal then c x y else c' x y) \<noteq> Greater"
    and yz: "(if c y z \<noteq> Equal then c y z else c' y z) \<noteq> Greater"
  have xz: "c x z \<noteq> Greater" using total_cmp.cmp_trans [OF assms(1), of x y z] a xy yz by (auto split: if_splits)
  have "c' x z \<noteq> Greater" if e: "c x z = Equal"
  proof -
    have "c z x = Equal" using total_cmp.cmp_sym [OF assms(1), of x z] a e by simp
    moreover have "c z x \<noteq> Greater" using calculation by simp
    ultimately have "c y x \<noteq> Greater" "c z y \<noteq> Greater"
      using total_cmp.cmp_trans [OF assms(1), of y z x] total_cmp.cmp_trans [OF assms(1), of z x y] a xy yz
      by (auto split: if_splits)
    then have "c x y = Equal" "c y z = Equal"
      using total_cmp.cmp_sym [OF assms(1), of x y] total_cmp.cmp_sym [OF assms(1), of y z] a xy yz
      by (cases "c x y"; cases "c y z"; auto split: if_splits)+
    then show ?thesis using total_cmp.cmp_trans [OF assms(2), of x y z] a xy yz by auto
  qed
  with xz show "(if c x z \<noteq> Equal then c x z else c' x z) \<noteq> Greater" by auto
qed

section \<open>The comparisons of the engine are total orders\<close>

definition raw_key :: "sort_raw \<Rightarrow> nat \<times> int \<times> string" where
  "raw_key r = (case r of RawNumber n \<Rightarrow> (0, f64_key n, []) | RawText t \<Rightarrow> (1, 0, t) | RawMissing \<Rightarrow> (2, 0, []))"

definition raw_nan :: "sort_raw \<Rightarrow> bool" where
  "raw_nan r \<longleftrightarrow> (case r of RawNumber n \<Rightarrow> f64_is_nan n | _ \<Rightarrow> False)"

lemma compare_sort_raw_key: "\<not> raw_nan a \<Longrightarrow> \<not> raw_nan b \<Longrightarrow> compare_sort_raw a b = cmp_lin (raw_key a) (raw_key b)"
  by (cases a; cases b) (auto simp: raw_nan_def raw_key_def f64_partial_cmp_def cmp_or_equal_def cmp_lin_def)

definition doc_raw :: "float_ops \<Rightarrow> sort_clause \<Rightarrow> scored_document \<Rightarrow> sort_raw" where
  "doc_raw fo cl d = extract_sort_value_raw fo (sd_document d) (sc_field cl) (sd_score d)"

text \<open>Documents none of whose sort values is a NaN.\<close>

definition comparable :: "float_ops \<Rightarrow> sort_clause list \<Rightarrow> scored_document set" where
  "comparable fo cls = {d. \<forall>cl \<in> set cls. \<not> raw_nan (doc_raw fo cl d)}"

lemma compare_by_clause_raw: "compare_by_clause fo a b cl = directed (sc_order cl) (compare_sort_raw (doc_raw fo cl a) (doc_raw fo cl b))"
  by (simp add: compare_by_clause_def doc_raw_def)

lemma total_by_clause: "total_cmp {d. \<not> raw_nan (doc_raw fo cl d)} (\<lambda>a b. compare_by_clause fo a b cl)"
proof -
  let ?A = "{d. \<not> raw_nan (doc_raw fo cl d)}"
  have "total_cmp ?A (\<lambda>a b. cmp_lin (raw_key (doc_raw fo cl a)) (raw_key (doc_raw fo cl b)))"
    by (rule total_cmp_subset [OF total_cmp_lin]) simp
  from total_cmp_directed [OF this, of "sc_order cl"] show ?thesis
    by (rule total_cmp_cong) (simp add: compare_by_clause_raw compare_sort_raw_key)
qed

lemma total_by_clauses: "total_cmp (comparable fo cls) (compare_by_clauses fo cls)"
proof (induction cls)
  case Nil
  show ?case by unfold_locales simp_all
next
  case (Cons cl cls)
  have "total_cmp (comparable fo (cl # cls)) (\<lambda>a b. compare_by_clause fo a b cl)"
    by (rule total_cmp_subset [OF total_by_clause]) (auto simp: comparable_def)
  moreover have "total_cmp (comparable fo (cl # cls)) (compare_by_clauses fo cls)"
    by (rule total_cmp_subset [OF Cons.IH]) (auto simp: comparable_def)
  ultimately have "total_cmp (comparable fo (cl # cls))
      (\<lambda>a b. if compare_by_clause fo a b cl \<noteq> Equal then compare_by_clause fo a b cl else compare_by_clauses fo cls a b)"
    by (rule total_cmp_then)
  then show ?case by (rule total_cmp_cong) (simp add: Let_def)
qed

interpretation by_clauses: total_cmp "comparable fo cls" "compare_by_clauses fo cls" for fo cls
  by (rule total_by_clauses)

lemma total_buckets: "total_cmp UNIV compare_buckets"
proof -
  have "total_cmp UNIV (\<lambda>a b. directed Desc (cmp_lin (ab_doc_count a) (ab_doc_count b)))"
    by (rule total_cmp_directed [OF total_cmp_lin])
  from total_cmp_then [OF this total_cmp_lin [of ab_key]] show ?thesis
    by (rule total_cmp_cong) (auto simp: compare_buckets_def ord_then_def directed_def simp flip: cmp_lin_sym)
qed

interpretation bucket_order: total_cmp UNIV compare_buckets
  by (rule total_buckets)

lemma compare_buckets_Equal: "compare_buckets a b = Equal \<longleftrightarrow> a = b"
  by (auto simp: compare_buckets_def ord_then_def split: if_splits)

section \<open>Cursors\<close>

text \<open>Documents that have every sort field.\<close>

definition complete_for :: "float_ops \<Rightarrow> sort_clause list \<Rightarrow> scored_document set" where
  "complete_for fo cls = {d. \<forall>cl \<in> set cls. doc_raw fo cl d \<noteq> RawMissing}"

lemma sort_value_raw:
  "extract_sort_value fo (sd_document d) (sc_field cl) (sd_score d) =
    (case doc_raw fo cl d of RawNumber n \<Rightarrow> SortNumber n | RawText t \<Rightarrow> SortText t | RawMissing \<Rightarrow> SortText [])"
  by (auto simp: doc_raw_def extract_sort_value_def extract_sort_value_raw_def split: option.splits field_value.splits)

lemma compare_doc_to_cursor_exact:
  "x \<in> complete_for fo cls \<Longrightarrow> d \<in> complete_for fo cls \<Longrightarrow>
    compare_doc_to_cursor fo x (sort_values fo cls d) cls = compare_by_clauses fo cls x d"
proof (induction cls)
  case (Cons cl cls)
  have "compare_sort_values (extract_sort_value fo (sd_document x) (sc_field cl) (sd_score x))
      (extract_sort_value fo (sd_document d) (sc_field cl) (sd_score d)) = compare_sort_raw (doc_raw fo cl x) (doc_raw fo cl d)"
    using Cons.prems unfolding sort_value_raw complete_for_def
    by (cases "doc_raw fo cl x"; cases "doc_raw fo cl d") auto
  moreover have "compare_doc_to_cursor fo x (sort_values fo cls d) cls = compare_by_clauses fo cls x d"
    using Cons by (auto simp: complete_for_def)
  ultimately show ?case by (simp add: sort_values_def Let_def compare_by_clause_raw)
qed (simp add: sort_values_def)

section \<open>Counting\<close>

lemma fold_count_in:
  "fmlookup (fold (\<lambda>d m. case f d of None \<Rightarrow> m | Some v \<Rightarrow> count_in v m) docs m) k =
    (if k \<in> set (List.map_filter f docs) \<or> fmlookup m k \<noteq> None
     then Some (fm_get_or m k 0 + word_of_nat (length (filter (\<lambda>d. f d = Some k) docs))) else None)"
proof (induction docs arbitrary: m)
  case Nil
  then show ?case by (auto simp: fm_get_or_def map_filter_simps)
next
  case (Cons d docs)
  show ?case
  proof (cases "f d")
    case None
    then show ?thesis by (simp add: Cons.IH map_filter_simps)
  next
    case (Some v)
    then show ?thesis
      by (auto simp: Cons.IH map_filter_simps count_in_def fm_get_or_def)
  qed
qed

lemma mem_map_filter: "k \<in> set (List.map_filter f docs) \<longleftrightarrow> (\<exists>d \<in> set docs. f d = Some k)"
  by (auto simp: List.map_filter_def image_iff)

section \<open>Collapse\<close>

lemma collapse_loop_keys:
  "distinct (map (collapse_key fo co) (collapse_loop fo co seen ds)) \<and>
   collapse_key fo co ` set (collapse_loop fo co seen ds) = collapse_key fo co ` set ds - seen"
proof (induction ds arbitrary: seen)
  case (Cons d ds)
  have "collapse_key fo co ` set (collapse_loop fo co (insert (collapse_key fo co d) seen) ds) =
      collapse_key fo co ` set ds - insert (collapse_key fo co d) seen"
    using Cons.IH by blast
  then show ?case using Cons.IH [of seen] Cons.IH [of "insert (collapse_key fo co d) seen"]
    by (auto simp: Let_def)
qed simp

lemma collapse_loop_first:
  "d \<in> set (collapse_loop fo co seen ds) \<Longrightarrow>
    \<exists>us vs. ds = us @ d # vs \<and> collapse_key fo co d \<notin> collapse_key fo co ` set us \<and> collapse_key fo co d \<notin> seen"
proof (induction ds arbitrary: seen)
  case (Cons x ds)
  let ?k = "collapse_key fo co"
  consider "d = x" "?k x \<notin> seen" | "?k x \<in> seen" "d \<in> set (collapse_loop fo co seen ds)"
    | "?k x \<notin> seen" "d \<in> set (collapse_loop fo co (insert (?k x) seen) ds)"
    using Cons.prems by (auto simp: Let_def split: if_splits)
  then show ?case
  proof cases
    case 1
    then have "x # ds = [] @ d # ds \<and> ?k d \<notin> ?k ` set [] \<and> ?k d \<notin> seen" by simp
    then show ?thesis by blast
  next
    case 2
    then obtain us vs where u: "ds = us @ d # vs" "?k d \<notin> ?k ` set us" "?k d \<notin> seen" using Cons.IH by blast
    with 2(1) have "?k d \<noteq> ?k x" by metis
    with u have "x # ds = (x # us) @ d # vs \<and> ?k d \<notin> ?k ` set (x # us) \<and> ?k d \<notin> seen" by simp
    then show ?thesis by blast
  next
    case 3
    then obtain us vs where "ds = us @ d # vs" "?k d \<notin> ?k ` set us" "?k d \<notin> insert (?k x) seen" using Cons.IH by blast
    then have "x # ds = (x # us) @ d # vs \<and> ?k d \<notin> ?k ` set (x # us) \<and> ?k d \<notin> seen" by simp
    then show ?thesis by blast
  qed
qed simp

lemma subseq_collapse: "subseq (collapse_loop fo co seen ds) ds"
  by (induction ds arbitrary: seen) (auto simp: Let_def)

section \<open>Range buckets\<close>

definition doc_in_range :: "string \<Rightarrow> range_bucket_def \<Rightarrow> scored_document \<Rightarrow> bool" where
  "doc_in_range field r d \<longleftrightarrow> (case extract_number (sd_document d) field of None \<Rightarrow> False | Some v \<Rightarrow> in_bucket v r)"

lemma range_step:
  "map (\<lambda>(r, b). if in_bucket v r then b\<lparr>ab_doc_count := ab_doc_count b + 1\<rparr> else b)
     (zip ranges (map (\<lambda>r. \<lparr>ab_key = l r, ab_doc_count = c r\<rparr>) ranges)) =
   map (\<lambda>r. \<lparr>ab_key = l r, ab_doc_count = c r + (if in_bucket v r then 1 else 0)\<rparr>) ranges"
  by (induction ranges) simp_all

lemma fold_range_counts:
  "fold (\<lambda>d bs. case extract_number (sd_document d) field of None \<Rightarrow> bs
      | Some v \<Rightarrow> map (\<lambda>(r, b). if in_bucket v r then b\<lparr>ab_doc_count := ab_doc_count b + 1\<rparr> else b) (zip ranges bs))
     docs (map (\<lambda>r. \<lparr>ab_key = l r, ab_doc_count = c r\<rparr>) ranges) =
   map (\<lambda>r. \<lparr>ab_key = l r, ab_doc_count = c r + word_of_nat (length (filter (doc_in_range field r) docs))\<rparr>) ranges"
proof (induction docs arbitrary: c)
  case (Cons d docs)
  show ?case
  proof (cases "extract_number (sd_document d) field")
    case None
    then show ?thesis by (simp add: Cons.IH doc_in_range_def)
  next
    case (Some v)
    then have "doc_in_range field r d \<longleftrightarrow> in_bucket v r" for r by (simp add: doc_in_range_def)
    with Some show ?thesis
      by (simp add: range_step Cons.IH [of "\<lambda>r. c r + (if in_bucket v r then 1 else 0)"] algebra_simps)
  qed
qed simp

text \<open>Every range bucket counts exactly the documents whose number lies in its range.\<close>

lemma compute_range_exact:
  "compute_range fo docs field ranges =
    Buckets (map (\<lambda>r. \<lparr>ab_key = range_label fo r, ab_doc_count = word_of_nat (length (filter (doc_in_range field r) docs))\<rparr>) ranges)"
  using fold_range_counts [where field = field and ranges = ranges and docs = docs and l = "range_label fo" and c = "\<lambda>_. 0"] by (simp add: compute_range_def)

section \<open>Properties\<close>

lemma compare_ignores_sort:
  "compare_by_clauses fo cls (a\<lparr>sd_sort := u\<rparr>) b = compare_by_clauses fo cls a b"
  "compare_by_clauses fo cls a (b\<lparr>sd_sort := u\<rparr>) = compare_by_clauses fo cls a b"
  by (induction cls) (simp_all add: compare_by_clause_def Let_def)

text \<open>
  The order that sort clauses ask for, stated on the documents: numbers (and booleans as 0 and 1)
  come before texts and texts before documents without the field; numbers are in their numeric
  order and texts in that of their bytes. Descending clauses reverse the order, and later clauses decide ties.
\<close>

definition sorted_field :: "float_ops \<Rightarrow> string \<Rightarrow> scored_document \<Rightarrow> field_value option" where
  "sorted_field fo field d =
     (if field = ''_score'' then Some (Number (widen fo (sd_score d)))
      else if field = ''_id'' then Some (Text (as_str (doc_id (sd_document d))))
      else fmlookup (doc_fields (sd_document d)) field)"

fun sort_rank :: "field_value option \<Rightarrow> nat \<times> int \<times> string" where
  "sort_rank (Some (Number n)) = (0, f64_key n, [])"
| "sort_rank (Some (Boolean b)) = (0, if b then f64_key f64_one else 0, [])"
| "sort_rank (Some (Text t)) = (1, 0, t)"
| "sort_rank _ = (2, 0, [])"

fun sorts_before :: "float_ops \<Rightarrow> sort_clause list \<Rightarrow> scored_document \<Rightarrow> scored_document \<Rightarrow> bool" where
  "sorts_before fo [] a b \<longleftrightarrow> False"
| "sorts_before fo (cl # cls) a b \<longleftrightarrow>
     (let x = sort_rank (sorted_field fo (sc_field cl) a); y = sort_rank (sorted_field fo (sc_field cl) b) in
      (if sc_order cl = Asc then x < y else y < x) \<or> x = y \<and> sorts_before fo cls a b)"

definition sort_ties :: "float_ops \<Rightarrow> sort_clause list \<Rightarrow> scored_document \<Rightarrow> scored_document \<Rightarrow> bool" where
  "sort_ties fo cls a b \<longleftrightarrow> (\<forall>cl \<in> set cls. sort_rank (sorted_field fo (sc_field cl) a) = sort_rank (sorted_field fo (sc_field cl) b))"

fun shown_value :: "field_value option \<Rightarrow> sort_value" where
  "shown_value (Some (Number n)) = SortNumber n"
| "shown_value (Some (Boolean b)) = SortNumber (if b then f64_one else 0)"
| "shown_value (Some (Text t)) = SortText t"
| "shown_value _ = SortText []"

definition no_nan :: "float_ops \<Rightarrow> sort_clause list \<Rightarrow> scored_document \<Rightarrow> bool" where
  "no_nan fo cls d \<longleftrightarrow> (\<forall>cl \<in> set cls. \<forall>n. sorted_field fo (sc_field cl) d = Some (Number n) \<longrightarrow> \<not> f64_is_nan n)"

text \<open>Without clauses the score decides, largest first.\<close>

definition score_clause :: sort_clause where
  "score_clause = \<lparr>sc_field = ''_score'', sc_order = Desc\<rparr>"

definition effective_clauses :: "sort_clause list \<Rightarrow> sort_clause list" where
  "effective_clauses cls = (if cls = [] then [score_clause] else cls)"

lemma rank_raw: "\<not> raw_nan (doc_raw fo cl d) \<Longrightarrow> raw_key (doc_raw fo cl d) = sort_rank (sorted_field fo (sc_field cl) d)"
  by (auto simp: doc_raw_def extract_sort_value_raw_def sorted_field_def raw_key_def get_field_def f64_key_def f64_magnitude_def
      split: option.splits field_value.splits)

lemma no_nan_comparable: "no_nan fo cls d \<longleftrightarrow> d \<in> comparable fo cls"
proof -
  have "\<not> f64_is_nan f64_one" "\<not> f64_is_nan 0" by (simp_all add: f64_is_nan_def f64_magnitude_def f64_one_def)
  then have "raw_nan (doc_raw fo cl d) \<longleftrightarrow> (\<exists>n. sorted_field fo (sc_field cl) d = Some (Number n) \<and> f64_is_nan n)" for cl
    by (auto simp: doc_raw_def extract_sort_value_raw_def sorted_field_def raw_nan_def get_field_def
        split: option.splits field_value.splits)
  then show ?thesis by (auto simp: no_nan_def comparable_def)
qed

lemma compare_by_clause_rank:
  assumes "no_nan fo [cl] a" "no_nan fo [cl] b"
  shows "compare_by_clause fo a b cl = directed (sc_order cl) (cmp_lin (sort_rank (sorted_field fo (sc_field cl) a)) (sort_rank (sorted_field fo (sc_field cl) b)))"
  using assms unfolding no_nan_comparable by (simp add: compare_by_clause_raw compare_sort_raw_key comparable_def rank_raw)

lemma no_nan_Cons: "no_nan fo (cl # cls) d \<longleftrightarrow> no_nan fo [cl] d \<and> no_nan fo cls d"
  by (simp add: no_nan_def)

lemma compare_by_clauses_rank:
  assumes "no_nan fo cls a" "no_nan fo cls b"
  shows "compare_by_clauses fo cls a b = Less \<longleftrightarrow> sorts_before fo cls a b"
    and "compare_by_clauses fo cls a b = Equal \<longleftrightarrow> sort_ties fo cls a b"
    and "compare_by_clauses fo cls a b = Greater \<longleftrightarrow> sorts_before fo cls b a"
  using assms
proof (induction cls)
  case (Cons cl cls)
  note d = compare_by_clause_rank no_nan_Cons [of fo cl cls] directed_def Let_def cmp_lin_def
  { case 1 then show ?case using Cons.IH(1) by (cases "sc_order cl") (auto simp: d)
  next
    case 2 then show ?case using Cons.IH(2) by (cases "sc_order cl") (auto simp: d sort_ties_def)
  next
    case 3 then show ?case using Cons.IH(3) by (cases "sc_order cl") (auto simp: d)
  }
qed (simp_all add: sort_ties_def)

lemma sort_values_cursor: "sort_values fo cls d = map (\<lambda>cl. shown_value (sorted_field fo (sc_field cl) d)) cls"
  by (auto simp: sort_values_def extract_sort_value_def sorted_field_def get_field_def split: option.splits field_value.splits)

lemma compare_scores_clause: "compare_scores fo = compare_by_clauses fo [score_clause]"
  by (auto simp: fun_eq_iff compare_scores_def compare_by_clause_def extract_sort_value_raw_def score_clause_def directed_def Let_def
      f64_partial_cmp_def cmp_or_equal_def cmp_lin_def)

lemma order_ignores_sort [simp]:
  "sorted_field fo f (d\<lparr>sd_sort := u\<rparr>) = sorted_field fo f d"
  by (simp add: sorted_field_def)

text \<open>
  C29. Sorting hits, when none of their sort values is a NaN: the result holds the same hits; none
  of them sorts before an earlier one in the order of the clauses (by falling score when there are
  none); hits that tie on all clauses keep their order; and with clauses every hit carries the
  values of its sort fields as its cursor, an empty text where it has no such field.
\<close>

theorem apply_sort_correct:
  assumes "\<forall>d \<in> set docs. no_nan fo (effective_clauses cls) d"
  shows "mset (map (sd_sort_update (\<lambda>_. [])) (apply_sort fo docs cls)) = mset (map (sd_sort_update (\<lambda>_. [])) docs) \<and>
    sorted_wrt (\<lambda>a b. \<not> sorts_before fo (effective_clauses cls) b a) (apply_sort fo docs cls) \<and>
    (\<forall>a \<in> set docs. map sd_document (filter (sort_ties fo (effective_clauses cls) a) (apply_sort fo docs cls)) =
       map sd_document (filter (sort_ties fo (effective_clauses cls) a) docs)) \<and>
    (cls \<noteq> [] \<longrightarrow> (\<forall>d \<in> set (apply_sort fo docs cls). sd_sort d = map (\<lambda>cl. shown_value (sorted_field fo (sc_field cl) d)) cls))"
proof -
  define f where "f = (if cls = [] then id else (\<lambda>d. d\<lparr>sd_sort := sort_values fo cls d\<rparr>))"
  let ?e = "effective_clauses cls"
  let ?xs = "sort_by (compare_by_clauses fo ?e) docs"
  have r: "apply_sort fo docs cls = map f ?xs"
    by (simp add: apply_sort_def effective_clauses_def f_def compare_scores_clause)
  have f [simp]: "sd_document (f d) = sd_document d" "(f d)\<lparr>sd_sort := []\<rparr> = d\<lparr>sd_sort := []\<rparr>" "sorted_field fo n (f d) = sorted_field fo n d" for d n
    by (simp_all add: f_def)
  have o [simp]: "sorts_before fo cs (f a) (f b) = sorts_before fo cs a b" "sort_ties fo cs a (f b) = sort_ties fo cs a b" for cs a b
    by (induction cs) (simp_all add: sort_ties_def)
  have n: "no_nan fo ?e d" if "d \<in> set docs" for d using assms that by blast
  have c: "set docs \<subseteq> comparable fo ?e" using n by (auto simp: no_nan_comparable)
  have "sorted_wrt (\<lambda>a b. \<not> sorts_before fo ?e b a) ?xs"
    by (rule sorted_wrt_mono_rel [OF _ by_clauses.sort_by_sorted [OF c]]) (simp add: compare_by_clauses_rank(3) n)
  moreover have "filter (sort_ties fo ?e a) ?xs = filter (sort_ties fo ?e a) docs" if a: "a \<in> set docs" for a
  proof -
    have "filter (sort_ties fo ?e a) ys = filter (\<lambda>b. compare_by_clauses fo ?e a b = Equal) ys" if "set ys \<subseteq> set docs" for ys
      using that n a by (intro filter_cong) (auto simp: compare_by_clauses_rank(2))
    then show ?thesis using by_clauses.sort_by_stable [of a fo ?e docs] a c by auto
  qed
  moreover have "mset (map g ?xs) = mset (map g docs)" for g :: "scored_document \<Rightarrow> scored_document"
    by (metis mset_map mset_sort_by)
  moreover have "sd_sort (f d) = map (\<lambda>cl. shown_value (sorted_field fo (sc_field cl) d)) cls" if "cls \<noteq> []" for d
    using that by (simp add: f_def sort_values_cursor)
  ultimately show ?thesis unfolding r by (auto simp: sorted_wrt_map filter_map o_def)
qed


definition plain_floats :: float_ops where
  "plain_floats = \<lparr>fadd = (+), fdiv = (div), of_count = word_of_nat, show_f64 = (\<lambda>w. dec (unat w)), widen = (\<lambda>w. ucast w)\<rparr>"

definition id_doc :: "string \<Rightarrow> scored_document" where
  "id_doc i = \<lparr>sd_document = doc_new (DocumentId i), sd_score = 0, sd_sort = []\<rparr>"

definition by_id :: "sort_clause list" where
  "by_id = [\<lparr>sc_field = ''_id'', sc_order = Asc\<rparr>]"

lemma id_doc_raw: "cl \<in> set by_id \<Longrightarrow> doc_raw fo cl (id_doc i) = RawText i"
  by (simp add: by_id_def doc_raw_def extract_sort_value_raw_def id_doc_def doc_new_def)

lemma id_docs_comparable: "id_doc i \<in> comparable fo by_id \<inter> complete_for fo by_id"
  by (simp add: comparable_def complete_for_def id_doc_raw raw_nan_def)

definition sort_hit :: "string \<Rightarrow> field_value option \<Rightarrow> scored_document" where
  "sort_hit i v = \<lparr>sd_document = (case v of None \<Rightarrow> doc_new (DocumentId i) | Some w \<Rightarrow> with_field (doc_new (DocumentId i)) ''n'' w),
     sd_score = 0, sd_sort = []\<rparr>"

lemma sort_hit_field: "sorted_field fo ''n'' (sort_hit i v) = v"
  by (simp add: sorted_field_def sort_hit_def with_field_def doc_new_def split: option.split)

text \<open>A text sorts before a number when the clause is descending, and the missing field first of all.\<close>

theorem apply_sort_correct_witness:
  "(let cls = [\<lparr>sc_field = ''n'', sc_order = Desc\<rparr>]; ds = [sort_hit ''a'' (Some (Number 0)), sort_hit ''b'' None, sort_hit ''c'' (Some (Text ''t''))];
        r = apply_sort plain_floats ds cls in
    sorted_wrt (\<lambda>a b. \<not> sorts_before plain_floats cls b a) r \<and> map sd_sort r = [[SortText []], [SortText ''t''], [SortNumber 0]] \<and>
    sorts_before plain_floats cls (ds ! 1) (ds ! 2) \<and> sorts_before plain_floats cls (ds ! 2) (ds ! 0))"
proof -
  let ?cls = "[\<lparr>sc_field = ''n'', sc_order = Desc\<rparr>]"
  let ?ds = "[sort_hit ''a'' (Some (Number 0)), sort_hit ''b'' None, sort_hit ''c'' (Some (Text ''t''))]"
  have "\<forall>d \<in> set ?ds. no_nan plain_floats (effective_clauses ?cls) d"
    by (simp add: no_nan_def effective_clauses_def sort_hit_field f64_is_nan_def f64_magnitude_def)
  from apply_sort_correct [OF this] have "sorted_wrt (\<lambda>a b. \<not> sorts_before plain_floats ?cls b a) (apply_sort plain_floats ?ds ?cls)"
    by (simp only: effective_clauses_def list.distinct if_False)
  moreover have "map sd_sort (apply_sort plain_floats ?ds ?cls) = [[SortText []], [SortText ''t''], [SortNumber 0]]" by code_simp
  moreover have "sorts_before plain_floats ?cls (?ds ! 1) (?ds ! 2)" "sorts_before plain_floats ?cls (?ds ! 2) (?ds ! 0)"
    by (simp_all add: sort_hit_field)
  ultimately show ?thesis by simp
qed

lemma takeWhile_prefix_all: "\<forall>x \<in> set (take (length (takeWhile P xs)) xs). P x"
  by (induction xs) auto

lemma filter_suffix:
  "sorted_wrt R xs \<Longrightarrow> (\<And>a b. a \<in> set xs \<Longrightarrow> b \<in> set xs \<Longrightarrow> R a b \<Longrightarrow> P a \<Longrightarrow> P b) \<Longrightarrow>
    filter P xs = drop (length (takeWhile (\<lambda>x. \<not> P x) xs)) xs"
proof (induction xs)
  case (Cons x xs)
  have ih: "filter P xs = drop (length (takeWhile (\<lambda>x. \<not> P x) xs)) xs"
    using Cons by (metis list.set_intros(2) sorted_wrt.simps(2))
  show ?case
  proof (cases "P x")
    case True
    then have "P y" if "y \<in> set xs" for y using Cons.prems that by (metis list.set_intros sorted_wrt.simps(2))
    then show ?thesis using True by (simp add: filter_id_conv)
  qed (use ih in simp)
qed simp

text \<open>
  C30. Cursor pagination: when every document has every sort field, continuing after the sort values of
  a document returns exactly the rest of the sorted list that sorts strictly after it, so paging
  through the results misses no document that does not tie with a cursor.
\<close>

theorem search_after_exact:
  assumes "cls \<noteq> []" "set docs \<subseteq> comparable fo cls \<inter> complete_for fo cls" "d \<in> set docs"
  shows "\<exists>k. apply_search_after fo (apply_sort fo docs cls) (sort_values fo cls d) cls = drop k (apply_sort fo docs cls) \<and>
    (\<forall>x \<in> set (take k (apply_sort fo docs cls)). compare_by_clauses fo cls d x \<noteq> Less) \<and>
    (\<forall>x \<in> set (drop k (apply_sort fo docs cls)). compare_by_clauses fo cls d x = Less)"
proof -
  let ?xs = "apply_sort fo docs cls"
  let ?P = "\<lambda>x. compare_by_clauses fo cls d x = Less"
  have r: "?xs = map (\<lambda>d. d\<lparr>sd_sort := sort_values fo cls d\<rparr>) (sort_by (compare_by_clauses fo cls) docs)"
    using assms(1) by (simp add: apply_sort_def)
  have mem: "x \<in> comparable fo cls \<inter> complete_for fo cls" if "x \<in> set ?xs" for x
    using that assms(2) unfolding r
    by (auto simp: comparable_def complete_for_def doc_raw_def)
  have d: "d \<in> comparable fo cls" "d \<in> complete_for fo cls" using assms(2,3) by auto
  have sorted: "sorted_wrt (\<lambda>a b. compare_by_clauses fo cls a b \<noteq> Greater) ?xs"
    using by_clauses.sort_by_sorted [of docs fo cls] assms(2) unfolding r by (simp add: sorted_wrt_map compare_ignores_sort)
  have rev: "compare_by_clauses fo cls x d = ord_reverse (compare_by_clauses fo cls d x)" if "x \<in> set ?xs" for x
    using by_clauses.cmp_sym [of d fo cls x] d mem [OF that] by blast
  have "sort_values fo cls d \<noteq> []" using assms(1) by (simp add: sort_values_def)
  then have as: "apply_search_after fo ?xs (sort_values fo cls d) cls = filter ?P ?xs"
    unfolding apply_search_after_def using assms(1) mem d(2) rev
    by (auto simp: compare_doc_to_cursor_exact intro!: filter_cong)
  have fs: "filter ?P ?xs = drop (length (takeWhile (\<lambda>x. \<not> ?P x) ?xs)) ?xs"
  proof (rule filter_suffix [OF sorted])
    fix a b
    assume a: "a \<in> set ?xs" "b \<in> set ?xs" "compare_by_clauses fo cls a b \<noteq> Greater" "?P a"
    then have "compare_by_clauses fo cls d b \<noteq> Greater"
      using by_clauses.cmp_trans [of d fo cls a b] d mem by auto
    moreover have "compare_by_clauses fo cls d b \<noteq> Equal"
    proof
      assume "compare_by_clauses fo cls d b = Equal"
      then have "compare_by_clauses fo cls b d \<noteq> Greater" using rev [OF a(2)] by simp
      then have "compare_by_clauses fo cls a d \<noteq> Greater"
        using by_clauses.cmp_trans [of a fo cls b d] a d mem by auto
      then show False using rev [OF a(1)] a(4) by simp
    qed
    ultimately show "?P b" by (cases "compare_by_clauses fo cls d b") auto
  qed
  have dr: "\<forall>x \<in> set (drop (length (takeWhile (\<lambda>x. \<not> ?P x) ?xs)) ?xs). ?P x"
    unfolding fs [symmetric] by simp
  have tk: "\<forall>x \<in> set (take (length (takeWhile (\<lambda>x. \<not> ?P x) ?xs)) ?xs). \<not> ?P x"
    using takeWhile_prefix_all [of "\<lambda>x. \<not> ?P x" ?xs] by blast
  show ?thesis
    by (rule exI [of _ "length (takeWhile (\<lambda>x. \<not> ?P x) ?xs)"]) (intro conjI trans [OF as fs] dr tk)
qed

theorem search_after_exact_witness:
  "\<exists>k. apply_search_after plain_floats (apply_sort plain_floats [id_doc ''b'', id_doc ''a''] by_id)
     (sort_values plain_floats by_id (id_doc ''a'')) by_id = drop k (apply_sort plain_floats [id_doc ''b'', id_doc ''a''] by_id)"
proof -
  have "by_id \<noteq> []" by (simp add: by_id_def)
  moreover have "set [id_doc ''b'', id_doc ''a''] \<subseteq> comparable plain_floats by_id \<inter> complete_for plain_floats by_id"
    using id_docs_comparable by auto
  ultimately show ?thesis using search_after_exact [of by_id "[id_doc ''b'', id_doc ''a'']" plain_floats "id_doc ''a''"] by auto
qed

text \<open>
  A document without the sort field is lost by cursor pagination. In ascending order on a text
  field it sorts after every document that has the field, but no page that continues after such a
  document contains it.
\<close>

theorem search_after_loses_missing:
  assumes "sc_order cl = Asc" "doc_raw fo cl d = RawText t" "doc_raw fo cl x = RawMissing"
  shows "compare_by_clauses fo [cl] d x = Less \<and> x \<notin> set (apply_search_after fo docs (sort_values fo [cl] d) [cl])"
proof -
  have "compare_doc_to_cursor fo x (sort_values fo [cl] d) [cl] \<noteq> Greater"
    using assms by (simp add: sort_values_def sort_value_raw Let_def directed_def)
  moreover have "sort_values fo [cl] d \<noteq> []" by (simp add: sort_values_def)
  ultimately show ?thesis
    using assms by (simp add: apply_search_after_def compare_by_clause_raw Let_def directed_def)
qed

definition title_doc :: "string \<Rightarrow> string option \<Rightarrow> scored_document" where
  "title_doc i t = \<lparr>sd_document = (case t of None \<Rightarrow> doc_new (DocumentId i) | Some v \<Rightarrow> with_field (doc_new (DocumentId i)) ''title'' (Text v)),
     sd_score = 0, sd_sort = []\<rparr>"

theorem search_after_loses_missing_witness:
  "title_doc ''2'' None \<notin> set (apply_search_after plain_floats [title_doc ''1'' (Some ''x''), title_doc ''2'' None]
     (sort_values plain_floats [\<lparr>sc_field = ''title'', sc_order = Asc\<rparr>] (title_doc ''1'' (Some ''x'')))
     [\<lparr>sc_field = ''title'', sc_order = Asc\<rparr>])"
proof -
  let ?cl = "\<lparr>sc_field = ''title'', sc_order = Asc\<rparr>"
  have "sc_order ?cl = Asc" "doc_raw plain_floats ?cl (title_doc ''1'' (Some ''x'')) = RawText ''x''"
    "doc_raw plain_floats ?cl (title_doc ''2'' None) = RawMissing"
    by (simp_all add: doc_raw_def extract_sort_value_raw_def title_doc_def)
  from search_after_loses_missing [OF this] show ?thesis by blast
qed

text \<open>
  Collapsing keeps, in their order, the first document of every key and no other: keys are
  distinct in the result, every key of the input occurs, and a kept document is preceded in the
  input by no document with its key.
\<close>

theorem apply_collapse_correct:
  "distinct (map (collapse_key fo co) (apply_collapse fo docs co)) \<and>
   collapse_key fo co ` set (apply_collapse fo docs co) = collapse_key fo co ` set docs \<and>
   subseq (apply_collapse fo docs co) docs \<and>
   (\<forall>d. d \<in> set (apply_collapse fo docs co) \<longrightarrow>
     (\<exists>us vs. docs = us @ d # vs \<and> collapse_key fo co d \<notin> collapse_key fo co ` set us))"
  using collapse_loop_keys [of fo co "{}" docs] collapse_loop_first [of _ fo co "{}" docs] subseq_collapse [of fo co "{}" docs]
  unfolding apply_collapse_def by simp

theorem apply_collapse_correct_witness:
  "\<exists>us vs. [id_doc ''a'', id_doc ''b''] = us @ id_doc ''a'' # vs \<and>
     collapse_key plain_floats \<lparr>co_field = ''f''\<rparr> (id_doc ''a'') \<notin> collapse_key plain_floats \<lparr>co_field = ''f''\<rparr> ` set us"
proof -
  have "id_doc ''a'' \<in> set (apply_collapse plain_floats [id_doc ''a'', id_doc ''b''] \<lparr>co_field = ''f''\<rparr>)"
    by (simp add: apply_collapse_def Let_def)
  then show ?thesis
    using apply_collapse_correct [of plain_floats "\<lparr>co_field = ''f''\<rparr>" "[id_doc ''a'', id_doc ''b'']"] by blast
qed

text \<open>
  The terms aggregation: the buckets are the first ones of the list of all values of the field
  with their exact document counts, by falling count and rising value. They do not depend on the
  iteration order of the hash map.
\<close>

theorem compute_terms_exact:
  assumes "hash_iter it"
  shows "\<exists>buckets. compute_terms fo it docs field sz = Buckets (take sz buckets) \<and> distinct buckets \<and>
    sorted_wrt (\<lambda>a b. compare_buckets a b \<noteq> Greater) buckets \<and>
    set buckets = {\<lparr>ab_key = k, ab_doc_count = word_of_nat (length (filter (\<lambda>d. extract_string fo (sd_document d) field = Some k) docs))\<rparr> | k.
       \<exists>d. d \<in> set docs \<and> extract_string fo (sd_document d) field = Some k} \<and>
    compute_terms fo it docs field sz = compute_terms fo btree_iter docs field sz"
proof -
  let ?g = "\<lambda>d. extract_string fo (sd_document d) field"
  define counts where "counts = fold (\<lambda>d m. case ?g d of None \<Rightarrow> m | Some v \<Rightarrow> count_in v m) docs fmempty"
  let ?b = "\<lambda>(k, n). \<lparr>ab_key = k, ab_doc_count = n\<rparr>"
  let ?bs = "sort_by compare_buckets (map ?b (it counts))"
  have look: "fmlookup counts k = (if \<exists>d \<in> set docs. ?g d = Some k then Some (word_of_nat (length (filter (\<lambda>d. ?g d = Some k) docs))) else None)" for k
    unfolding counts_def by (simp add: fold_count_in mem_map_filter)
  have d: "distinct (map ?b (it' counts))" if "hash_iter it'" for it'
    using hash_iterD(1) [OF that, of counts] by (auto simp: distinct_map inj_on_def)
  have st: "set (map ?b (it' counts)) = ?b ` {(k, v). fmlookup counts k = Some v}" if "hash_iter it'" for it'
    using hash_iter_set [OF that, of counts] by simp
  have "mset (map ?b (it counts)) = mset (map ?b (btree_iter counts))"
    using set_eq_iff_mset_eq_distinct [OF d [OF assms] d [OF hash_iter_btree_iter]] st [OF assms] st [OF hash_iter_btree_iter]
    by (simp only: simp_thms)
  then have same: "?bs = sort_by compare_buckets (map ?b (btree_iter counts))"
    by (rule bucket_order.sort_by_mset_eq) (simp_all add: compare_buckets_Equal)
  have "distinct ?bs" using d [OF assms] mset_eq_imp_distinct_iff [OF mset_sort_by] by blast
  moreover have "sorted_wrt (\<lambda>a b. compare_buckets a b \<noteq> Greater) ?bs" by (rule bucket_order.sort_by_sorted) simp
  moreover have "set ?bs = {\<lparr>ab_key = k, ab_doc_count = word_of_nat (length (filter (\<lambda>d. ?g d = Some k) docs))\<rparr> | k.
       \<exists>d. d \<in> set docs \<and> ?g d = Some k}"
    unfolding set_sort_by st [OF assms] by (auto simp: look image_iff split: if_splits)
  moreover have "compute_terms fo it' docs field sz = Buckets (take sz (sort_by compare_buckets (map ?b (it' counts))))" for it'
    by (simp add: compute_terms_def counts_def Let_def)
  ultimately show ?thesis using same by (intro exI [of _ ?bs]) simp
qed

theorem compute_terms_exact_witness:
  "\<exists>buckets. compute_terms plain_floats btree_iter [title_doc ''1'' (Some ''x''), title_doc ''2'' (Some ''x'')] ''title'' 10 =
      Buckets (take 10 buckets) \<and> distinct buckets \<and>
    sorted_wrt (\<lambda>a b. compare_buckets a b \<noteq> Greater) buckets \<and>
    set buckets = {\<lparr>ab_key = k, ab_doc_count = word_of_nat (length (filter (\<lambda>d. extract_string plain_floats (sd_document d) ''title'' = Some k)
        [title_doc ''1'' (Some ''x''), title_doc ''2'' (Some ''x'')]))\<rparr> | k.
       \<exists>d. d \<in> set [title_doc ''1'' (Some ''x''), title_doc ''2'' (Some ''x'')] \<and> extract_string plain_floats (sd_document d) ''title'' = Some k} \<and>
    compute_terms plain_floats btree_iter [title_doc ''1'' (Some ''x''), title_doc ''2'' (Some ''x'')] ''title'' 10 =
      compute_terms plain_floats btree_iter [title_doc ''1'' (Some ''x''), title_doc ''2'' (Some ''x'')] ''title'' 10"
  by (rule compute_terms_exact [OF hash_iter_btree_iter])

end
