(* ===== verification/Dto.thy ===== *)
theory Dto
  imports Query_Engine
begin

text \<open>
  The bodies of the REST interface and their translation to the core types,
  \<^verbatim>\<open>crates/node/src/dto.rs\<close>: documents, the query, aggregation and sort
  languages, search responses, bulk, collection and alias bodies. (The error body is in
  \<open>Errors\<close>.)

  \<^verbatim>\<open>serde_json\<close> is third-party: its \<^verbatim>\<open>Value\<close> is the datatype \<open>json\<close> over an
  opaque type of numbers, and the conversions of numbers and the text of a value are the record
  \<open>json_ops\<close>; \<open>json_laws\<close> states what its documentation promises of them.
\<close>

section \<open>JSON values\<close>

datatype 'n json =
    JNull
  | JBool bool
  | JNumber 'n
  | JString string
  | JArray "'n json list"
  | JObject "(string, 'n json) fmap"

record 'n json_ops =
  jn_as_f64 :: "'n \<Rightarrow> f64 option"
  jn_from_f64 :: "f64 \<Rightarrow> 'n option"
  json_text :: "'n json \<Rightarrow> string"

definition f64_is_finite :: "f64 \<Rightarrow> bool" where
  "f64_is_finite w \<longleftrightarrow> f64_magnitude w < 0x7FF * 2 ^ 52"

text \<open>
  \<^verbatim>\<open>Number::from_f64\<close> fails exactly on infinities and NaN, and \<^verbatim>\<open>as_f64\<close> gives its
  argument back.
\<close>

definition json_laws :: "'n json_ops \<Rightarrow> bool" where
  "json_laws nu \<longleftrightarrow> (\<forall>x. if f64_is_finite x then \<exists>n. jn_from_f64 nu x = Some n \<and> jn_as_f64 nu n = Some x
                           else jn_from_f64 nu x = None)"

section \<open>Documents\<close>

fun field_value_to_json :: "'n json_ops \<Rightarrow> field_value \<Rightarrow> 'n json" where
  "field_value_to_json nu (Text s) = JString s"
| "field_value_to_json nu (Number n) = (case jn_from_f64 nu n of Some k \<Rightarrow> JNumber k | None \<Rightarrow> JNull)"
| "field_value_to_json nu (Boolean b) = JBool b"
| "field_value_to_json nu (Array arr) = JArray (map (field_value_to_json nu) arr)"

fun json_to_field_value :: "'n json_ops \<Rightarrow> 'n json \<Rightarrow> field_value option" where
  "json_to_field_value nu (JString s) = Some (Text s)"
| "json_to_field_value nu (JNumber n) = map_option Number (jn_as_f64 nu n)"
| "json_to_field_value nu (JBool b) = Some (Boolean b)"
| "json_to_field_value nu (JArray arr) = Some (Array (List.map_filter id (map (json_to_field_value nu) arr)))"
| "json_to_field_value nu JNull = None"
| "json_to_field_value nu (JObject m) = None"

definition fields_to_value :: "'n json_ops \<Rightarrow> (string, field_value) fmap \<Rightarrow> 'n json" where
  "fields_to_value nu fs = JObject (fmmap (field_value_to_json nu) fs)"

record 'n index_document_request =
  idr_id :: "string option"
  idr_fields :: "(string, 'n json) fmap"

record index_document_response =
  ir_id :: string
  ir_result :: string
  ir_version :: u64

text \<open>The loop that copies the representable fields of a request into a document.\<close>

definition set_json_fields :: "'n json_ops \<Rightarrow> (string \<times> 'n json) list \<Rightarrow> document \<Rightarrow> document" where
  "set_json_fields nu kvs doc =
     fold (\<lambda>(k, v) d. case json_to_field_value nu v of Some fv \<Rightarrow> fst (set_field d k fv) | None \<Rightarrow> d) kvs doc"

text \<open>\<open>fresh\<close> is the identifier that \<^verbatim>\<open>DocumentId::generate\<close> would draw.\<close>

definition request_to_document ::
    "'n json_ops \<Rightarrow> ((string, 'n json) fmap \<Rightarrow> (string \<times> 'n json) list) \<Rightarrow> string \<Rightarrow> 'n index_document_request \<Rightarrow> document" where
  "request_to_document nu it fresh req =
     (let i = (case idr_id req of Some s \<Rightarrow> DocumentId s | None \<Rightarrow> DocumentId fresh) in
      set_json_fields nu (it (idr_fields req)) (doc_new i))"

section \<open>Queries\<close>

record match_field_query =
  mf_query :: string
  mf_operator :: string

definition default_operator_str :: string where
  "default_operator_str = ''or''"

record range_field_query =
  rf_gte :: "f64 option"
  rf_lte :: "f64 option"

datatype query_dsl =
    DslMatch "(string, match_field_query) fmap"
  | DslTerm "(string, string) fmap"
  | DslRange "(string, range_field_query) fmap"
  | DslBool (dsl_must: "query_dsl list") (dsl_should: "query_dsl list") (dsl_must_not: "query_dsl list")

text \<open>The traversal of the maps of a query; only the first entry is used.\<close>

record dsl_iters =
  it_match :: "(string, match_field_query) fmap \<Rightarrow> (string \<times> match_field_query) list"
  it_term :: "(string, string) fmap \<Rightarrow> (string \<times> string) list"
  it_range :: "(string, range_field_query) fmap \<Rightarrow> (string \<times> range_field_query) list"

definition first_or :: "'a \<Rightarrow> 'a list \<Rightarrow> 'a" where
  "first_or d xs = (case xs of [] \<Rightarrow> d | x # _ \<Rightarrow> x)"

fun into_core_query :: "dsl_iters \<Rightarrow> query_dsl \<Rightarrow> query" where
  "into_core_query its (DslMatch m) =
     (let (field, opts) = first_or (''_body'', \<lparr>mf_query = [], mf_operator = ''or''\<rparr>) (it_match its m);
          oper = (if to_lowercase (mf_operator opts) = ''and'' then And else Or) in
      FullText \<lparr>ft_field = field, ft_query = mf_query opts, ft_operator = oper\<rparr>)"
| "into_core_query its (DslTerm m) =
     (let (field, v) = first_or ([], []) (it_term its m) in Term \<lparr>tq_field = field, tq_value = v\<rparr>)"
| "into_core_query its (DslRange m) =
     (let (field, bounds) = first_or ([], \<lparr>rf_gte = None, rf_lte = None\<rparr>) (it_range its m) in
      Range \<lparr>rq_field = field, rq_gte = rf_gte bounds, rq_lte = rf_lte bounds\<rparr>)"
| "into_core_query its (DslBool mu sh mn) =
     Bool (map (into_core_query its) mu) (map (into_core_query its) sh) (map (into_core_query its) mn)"

section \<open>Aggregations, sorting and paging\<close>

record agg_range_bucket_dsl =
  arb_key :: "string option"
  arb_from :: "f64 option"
  arb_to :: "f64 option"

datatype aggregation_dsl =
    ADTerms string nat
  | ADRange string "agg_range_bucket_dsl list"
  | ADDateHistogram string string
  | ADAvg string
  | ADSum string
  | ADMin string
  | ADMax string
  | ADCardinality string

definition default_agg_size :: nat where
  "default_agg_size = 10"

definition parse_interval :: "string \<Rightarrow> date_interval" where
  "parse_interval s =
     (let l = to_lowercase s in
      if l = ''second'' then Second else if l = ''minute'' then Minute else if l = ''hour'' then Hour
      else if l = ''day'' then Day else if l = ''week'' then Week else if l = ''month'' then Month else Day)"

fun into_core_aggregation :: "aggregation_dsl \<Rightarrow> aggregation" where
  "into_core_aggregation (ADTerms f n) = AggTerms f n"
| "into_core_aggregation (ADRange f rs) =
     AggRange f (map (\<lambda>b. \<lparr>rb_key = arb_key b, rb_from = arb_from b, rb_to = arb_to b\<rparr>) rs)"
| "into_core_aggregation (ADDateHistogram f i) = AggDateHistogram f (parse_interval i)"
| "into_core_aggregation (ADAvg f) = AggAvg f"
| "into_core_aggregation (ADSum f) = AggSum f"
| "into_core_aggregation (ADMin f) = AggMin f"
| "into_core_aggregation (ADMax f) = AggMax f"
| "into_core_aggregation (ADCardinality f) = AggCardinality f"

record sort_field =
  sf_field :: string
  sf_order :: string

definition default_sort_order :: string where
  "default_sort_order = ''desc''"

record 'n search_request =
  sq_query :: query_dsl
  sq_size :: "nat option"
  sq_from :: "nat option"
  sq_sort :: "sort_field list option"
  sq_aggs :: "(string, aggregation_dsl) fmap option"
  sq_search_after :: "'n json list option"
  sq_collapse :: "string option"

definition default_size :: "nat option" where
  "default_size = Some 10"

text \<open>One value of a cursor; 0 is the bit pattern of \<^verbatim>\<open>0.0\<close>.\<close>

fun json_to_sort_value :: "'n json_ops \<Rightarrow> 'n json \<Rightarrow> sort_value" where
  "json_to_sort_value nu (JNumber n) = SortNumber (case jn_as_f64 nu n of Some x \<Rightarrow> x | None \<Rightarrow> 0)"
| "json_to_sort_value nu (JString s) = SortText s"
| "json_to_sort_value nu v = SortText (json_text nu v)"

definition to_search_options :: "'n json_ops \<Rightarrow> 'n search_request \<Rightarrow> search_options" where
  "to_search_options nu req =
     \<lparr>so_size = (case sq_size req of Some n \<Rightarrow> n | None \<Rightarrow> 10),
      so_from = (case sq_from req of Some n \<Rightarrow> n | None \<Rightarrow> 0),
      so_sort = (case sq_sort req of
          Some fs \<Rightarrow> map (\<lambda>sf. \<lparr>sc_field = sf_field sf, sc_order = (if to_lowercase (sf_order sf) = ''asc'' then Asc else Desc)\<rparr>) fs
        | None \<Rightarrow> []),
      so_search_after = map_option (map (json_to_sort_value nu)) (sq_search_after req),
      so_aggregations = (case sq_aggs req of Some m \<Rightarrow> fmmap into_core_aggregation m | None \<Rightarrow> fmempty),
      so_collapse = map_option (\<lambda>f. \<lparr>co_field = f\<rparr>) (sq_collapse req)\<rparr>"

section \<open>Search responses\<close>

record 'n hit =
  hit_id :: string
  hit_score :: f32
  hit_source :: "'n json"
  hit_highlight :: "'n json option"
  hit_sort :: "'n json list"

record total_hits =
  total_value :: u64
  total_relation :: string

record 'n search_response =
  rsp_total :: total_hits
  rsp_hits :: "'n hit list"
  rsp_took :: u64
  rsp_timed_out :: bool
  rsp_aggregations :: "(string, 'n json) fmap"

fun sort_value_to_json :: "'n json_ops \<Rightarrow> sort_value \<Rightarrow> 'n json" where
  "sort_value_to_json nu (SortNumber n) = (case jn_from_f64 nu n of Some k \<Rightarrow> JNumber k | None \<Rightarrow> JNull)"
| "sort_value_to_json nu (SortText s) = JString s"

definition scored_doc_to_hit :: "'n json_ops \<Rightarrow> scored_document \<Rightarrow> 'n hit" where
  "scored_doc_to_hit nu scored =
     \<lparr>hit_id = as_str (doc_id (sd_document scored)), hit_score = sd_score scored,
      hit_source = fields_to_value nu (doc_fields (sd_document scored)), hit_highlight = None,
      hit_sort = map (sort_value_to_json nu) (sd_sort scored)\<rparr>"

text \<open>\<open>ser_agg\<close> is the derived serialisation of an aggregation result.\<close>

definition from_search_result :: "'n json_ops \<Rightarrow> (aggregation_result \<Rightarrow> 'n json) \<Rightarrow> search_result \<Rightarrow> 'n search_response" where
  "from_search_result nu ser_agg result =
     \<lparr>rsp_total = \<lparr>total_value = sr_total result, total_relation = ''eq''\<rparr>,
      rsp_hits = map (scored_doc_to_hit nu) (sr_documents result),
      rsp_took = sr_took_ms result, rsp_timed_out = False,
      rsp_aggregations = fmmap ser_agg (sr_aggregations result)\<rparr>"

section \<open>Bulk, collection and alias bodies\<close>

datatype bulk_action = BulkIndex "string option" | BulkDelete "string option"

record bulk_item =
  bi_action :: string
  bi_id :: string
  bi_status :: u16
  bi_error :: "string option"

record bulk_response =
  br_took :: u64
  br_errors :: bool
  br_items :: "bulk_item list"

record 'n create_collection_request =
  cc_schema :: "'n json option"
  cc_settings :: "'n json option"

record 'n collection_info_response =
  ci_name :: string
  ci_doc_count :: u64
  ci_mapping :: "'n json option"
  ci_settings :: "'n json option"

record alias_info_response =
  ai_name :: string
  ai_collections :: "string list"

section \<open>Lemmas\<close>

text \<open>The field values without infinities and NaN.\<close>

fun finite_value :: "field_value \<Rightarrow> bool" where
  "finite_value (Number n) = f64_is_finite n"
| "finite_value (Array vs) = list_all finite_value vs"
| "finite_value _ = True"

lemma map_filter_id_Some: "List.map_filter id (map Some xs) = xs"
  by (induction xs) (simp_all add: List.map_filter_def)

lemma json_number_finite:
  "json_laws nu \<Longrightarrow> f64_is_finite x \<Longrightarrow> \<exists>n. jn_from_f64 nu x = Some n \<and> jn_as_f64 nu n = Some x"
  unfolding json_laws_def by presburger

lemma field_value_roundtrip:
  assumes "json_laws nu"
  shows "finite_value v \<Longrightarrow> json_to_field_value nu (field_value_to_json nu v) = Some v"
proof (induction v)
  case (Number x)
  then show ?case using json_number_finite [OF assms, of x] by auto
next
  case (Array vs)
  then have "map (json_to_field_value nu \<circ> field_value_to_json nu) vs = map Some vs"
    by (auto simp: list_all_iff)
  then have "List.map_filter id (map (json_to_field_value nu \<circ> field_value_to_json nu) vs) = vs"
    by (simp only: map_filter_id_Some)
  then show ?case by simp
qed simp_all

text \<open>Copying JSON fields into a document keeps the id and sets each representable field.\<close>

lemma set_json_fields_id [simp]:
  "doc_id (set_json_fields nu kvs d) = doc_id d \<and> doc_version (set_json_fields nu kvs d) = doc_version d"
  unfolding set_json_fields_def
  by (induction kvs arbitrary: d) (auto simp: set_field_def Let_def split: option.splits)

lemma set_json_fields_lookup:
  "distinct (map fst kvs) \<Longrightarrow>
    fmlookup (doc_fields (set_json_fields nu kvs d)) k =
      (case map_of kvs k of
         None \<Rightarrow> fmlookup (doc_fields d) k
       | Some v \<Rightarrow> (case json_to_field_value nu v of None \<Rightarrow> fmlookup (doc_fields d) k | Some fv \<Rightarrow> Some fv))"
proof (induction kvs arbitrary: d)
  case (Cons kv kvs)
  obtain k1 v1 where kv: "kv = (k1, v1)" by (cases kv)
  let ?d = "case json_to_field_value nu v1 of Some fv \<Rightarrow> fst (set_field d k1 fv) | None \<Rightarrow> d"
  have st: "set_json_fields nu (kv # kvs) d = set_json_fields nu kvs ?d"
    by (simp add: set_json_fields_def kv)
  have up: "fmlookup (doc_fields ?d) k =
      (if k = k1 \<and> json_to_field_value nu v1 \<noteq> None then json_to_field_value nu v1 else fmlookup (doc_fields d) k)"
    by (auto simp: set_field_def Let_def split: option.splits)
  have "k = k1 \<Longrightarrow> map_of kvs k = None" using Cons.prems by (auto simp: kv map_of_eq_None_iff)
  then show ?case using Cons.IH [of ?d] Cons.prems unfolding st up by (auto simp: kv split: option.splits)
qed (simp add: set_json_fields_def)

lemma request_to_document_lookup:
  assumes "hash_iter it"
  shows "fmlookup (doc_fields (request_to_document nu it fresh req)) k =
    Option.bind (fmlookup (idr_fields req) k) (json_to_field_value nu)"
proof -
  have "distinct (map fst (it (idr_fields req)))" "map_of (it (idr_fields req)) = fmlookup (idr_fields req)"
    using assms by (auto simp: hash_iter_def)
  then show ?thesis
    by (simp add: request_to_document_def set_json_fields_lookup doc_new_def split: option.splits)
qed

lemma request_to_document_id:
  "doc_id (request_to_document nu it fresh req) = DocumentId (case idr_id req of Some s \<Rightarrow> s | None \<Rightarrow> fresh)"
  by (simp add: request_to_document_def doc_new_def split: option.splits)

section \<open>Properties\<close>

text \<open>
  C31. Documents survive the REST interface. When the fields of a document without infinities and NaN
  are sent back in an index request with its id, as \<^verbatim>\<open>_source\<close> shows them, the request
  denotes the same id and the same fields, in whatever order the maps are traversed.
\<close>

theorem document_json_roundtrip:
  assumes "json_laws nu" "hash_iter it" "\<forall>v \<in> fmran' (doc_fields d). finite_value v"
    and "fields_to_value nu (doc_fields d) = JObject m"
  shows "request_to_document nu it fresh \<lparr>idr_id = Some (as_str (doc_id d)), idr_fields = m\<rparr> =
    (doc_new (doc_id d))\<lparr>doc_fields := doc_fields d\<rparr>"
proof -
  let ?q = "\<lparr>idr_id = Some (as_str (doc_id d)), idr_fields = m\<rparr>"
  have m: "m = fmmap (field_value_to_json nu) (doc_fields d)" using assms(4) by (simp add: fields_to_value_def)
  have "fmlookup (doc_fields (request_to_document nu it fresh ?q)) k = fmlookup (doc_fields d) k" for k
  proof (cases "fmlookup (doc_fields d) k")
    case (Some v)
    then have "finite_value v" using assms(3) by (auto simp: fmran'_def ran_def)
    with Some show ?thesis
      by (simp add: request_to_document_lookup [OF assms(2)] m field_value_roundtrip [OF assms(1)])
  qed (simp add: request_to_document_lookup [OF assms(2)] m)
  then have "doc_fields (request_to_document nu it fresh ?q) = doc_fields d" by (rule fmap_ext)
  moreover have "doc_id (request_to_document nu it fresh ?q) = doc_id d" by (simp add: request_to_document_id)
  moreover have "doc_version (request_to_document nu it fresh ?q) = vc_new"
    by (simp add: request_to_document_def doc_new_def)
  ultimately show ?thesis by (simp add: doc_new_def)
qed

definition bits_json :: "f64 json_ops" where
  "bits_json = \<lparr>jn_as_f64 = Some, jn_from_f64 = (\<lambda>x. if f64_is_finite x then Some x else None), json_text = (\<lambda>_. ''null'')\<rparr>"

lemma bits_json_laws: "json_laws bits_json"
  by (simp add: json_laws_def bits_json_def)

definition tagged_doc :: document where
  "tagged_doc = with_field (with_field (doc_new (DocumentId ''7'')) ''ok'' (Boolean True)) ''tags'' (Array [Text ''a'', Number f64_one])"

theorem document_json_roundtrip_witness:
  "\<exists>m. fields_to_value bits_json (doc_fields tagged_doc) = JObject m \<and>
    request_to_document bits_json btree_iter ''new'' \<lparr>idr_id = Some ''7'', idr_fields = m\<rparr> = tagged_doc"
proof -
  have fin: "\<forall>v \<in> fmran' (doc_fields tagged_doc). finite_value v"
    by (auto simp: tagged_doc_def with_field_def doc_new_def fmran'_def ran_def f64_is_finite_def f64_magnitude_def
        f64_one_def unat_word_ariths take_bit_nat_eq_self split: if_splits)
  have self: "(doc_new (doc_id tagged_doc))\<lparr>doc_fields := doc_fields tagged_doc\<rparr> = tagged_doc"
    "as_str (doc_id tagged_doc) = ''7''"
    by (simp_all add: tagged_doc_def with_field_def doc_new_def)
  let ?m = "fmmap (field_value_to_json bits_json) (doc_fields tagged_doc)"
  have m: "fields_to_value bits_json (doc_fields tagged_doc) = JObject ?m" by (simp add: fields_to_value_def)
  show ?thesis
    using document_json_roundtrip [OF bits_json_laws hash_iter_btree_iter fin m, of "''new''"] m unfolding self by blast
qed

text \<open>
  A cursor survives the REST interface: when the sort values shown with a hit are sent back in
  \<^verbatim>\<open>search_after\<close>, the search options hold exactly the sort values of the hit, if no
  number among them is infinite or NaN.
\<close>

theorem cursor_roundtrip:
  assumes "json_laws nu" "\<forall>x. SortNumber x \<in> set (sd_sort scored) \<longrightarrow> f64_is_finite x"
    and "sq_search_after req = Some (hit_sort (scored_doc_to_hit nu scored))"
  shows "so_search_after (to_search_options nu req) = Some (sd_sort scored)"
proof -
  have "json_to_sort_value nu (sort_value_to_json nu v) = v" if v: "v \<in> set (sd_sort scored)" for v
  proof (cases v)
    case (SortNumber x)
    then show ?thesis using json_number_finite [OF assms(1), of x] assms(2) v by auto
  qed simp
  then show ?thesis by (simp add: to_search_options_def assms(3) scored_doc_to_hit_def map_idI)
qed

definition paged_doc :: scored_document where
  "paged_doc = \<lparr>sd_document = tagged_doc, sd_score = 0, sd_sort = [SortText ''x'', SortNumber 0]\<rparr>"

definition next_page :: "f64 search_request" where
  "next_page = \<lparr>sq_query = DslBool [] [] [], sq_size = None, sq_from = None, sq_sort = None, sq_aggs = None,
     sq_search_after = Some (hit_sort (scored_doc_to_hit bits_json paged_doc)), sq_collapse = None\<rparr>"

theorem cursor_roundtrip_witness:
  "so_search_after (to_search_options bits_json next_page) = Some [SortText ''x'', SortNumber 0]"
  using cursor_roundtrip [OF bits_json_laws, of paged_doc next_page]
  by (simp add: next_page_def paged_doc_def f64_is_finite_def f64_magnitude_def)

end
