(* ===== verification/Cache.thy ===== *)
theory Cache
  imports Documents
begin

text \<open>
  The document cache of a node, \<^verbatim>\<open>crates/node/src/cache.rs\<close>: keys, look-up with hit and
  miss counters, insertion and invalidation of one document or of a collection.

  The concurrent cache itself (crate \<^verbatim>\<open>moka\<close>) is third-party: it is the record \<open>moka\<close> of the
  operations the code calls, on an opaque state. It may drop an entry at any time, by capacity or
  age; \<open>moka_laws\<close> says that it never shows anything but the last value inserted for a key since
  the key was invalidated. \<open>mk_view\<close> is what the cache holds at most.
\<close>

record 'c moka =
  mk_view :: "'c \<Rightarrow> string \<rightharpoonup> document"
  mk_get :: "'c \<Rightarrow> string \<Rightarrow> 'c \<times> document option"
  mk_insert :: "'c \<Rightarrow> string \<Rightarrow> document \<Rightarrow> 'c"
  mk_invalidate :: "'c \<Rightarrow> string \<Rightarrow> 'c"
  mk_invalidate_if :: "'c \<Rightarrow> (string \<Rightarrow> bool) \<Rightarrow> 'c"

definition moka_laws :: "'c moka \<Rightarrow> bool" where
  "moka_laws mk \<longleftrightarrow>
     (\<forall>c k. (snd (mk_get mk c k) = None \<or> snd (mk_get mk c k) = mk_view mk c k) \<and>
            mk_view mk (fst (mk_get mk c k)) \<subseteq>\<^sub>m mk_view mk c) \<and>
     (\<forall>c k d. mk_view mk (mk_insert mk c k d) \<subseteq>\<^sub>m (mk_view mk c)(k \<mapsto> d)) \<and>
     (\<forall>c k. mk_view mk (mk_invalidate mk c k) \<subseteq>\<^sub>m (mk_view mk c)(k := None)) \<and>
     (\<forall>c P. mk_view mk (mk_invalidate_if mk c P) \<subseteq>\<^sub>m mk_view mk c |` {k. \<not> P k})"

section \<open>The code\<close>

record cache_config =
  cf_max_capacity :: u64
  cf_ttl :: nat

text \<open>The time to live in seconds.\<close>

definition cache_config_default :: cache_config where
  "cache_config_default = \<lparr>cf_max_capacity = 10000, cf_ttl = 60\<rparr>"

definition cache_key :: "string \<Rightarrow> string \<Rightarrow> string" where
  "cache_key c i = c @ [CHR 0x00] @ i"

record 'c document_cache =
  dc_inner :: 'c
  dc_hits :: u64
  dc_misses :: u64

definition cache_new :: "(cache_config \<Rightarrow> 'c) \<Rightarrow> cache_config \<Rightarrow> 'c document_cache" where
  "cache_new build config = \<lparr>dc_inner = build config, dc_hits = 0, dc_misses = 0\<rparr>"

definition with_defaults :: "(cache_config \<Rightarrow> 'c) \<Rightarrow> 'c document_cache" where
  "with_defaults build = cache_new build cache_config_default"

definition cache_get :: "'c moka \<Rightarrow> 'c document_cache \<Rightarrow> string \<Rightarrow> document_id \<Rightarrow> 'c document_cache \<times> document option" where
  "cache_get mk dc c i =
     (case mk_get mk (dc_inner dc) (cache_key c (as_str i)) of
        (inner, Some d) \<Rightarrow> (dc\<lparr>dc_inner := inner, dc_hits := dc_hits dc + 1\<rparr>, Some d)
      | (inner, None) \<Rightarrow> (dc\<lparr>dc_inner := inner, dc_misses := dc_misses dc + 1\<rparr>, None))"

definition cache_put :: "'c moka \<Rightarrow> 'c document_cache \<Rightarrow> string \<Rightarrow> document \<Rightarrow> 'c document_cache" where
  "cache_put mk dc c d = dc\<lparr>dc_inner := mk_insert mk (dc_inner dc) (cache_key c (as_str (doc_id d))) d\<rparr>"

definition cache_invalidate :: "'c moka \<Rightarrow> 'c document_cache \<Rightarrow> string \<Rightarrow> document_id \<Rightarrow> 'c document_cache" where
  "cache_invalidate mk dc c i = dc\<lparr>dc_inner := mk_invalidate mk (dc_inner dc) (cache_key c (as_str i))\<rparr>"

definition invalidate_collection :: "'c moka \<Rightarrow> 'c document_cache \<Rightarrow> string \<Rightarrow> 'c document_cache" where
  "invalidate_collection mk dc c =
     dc\<lparr>dc_inner := mk_invalidate_if mk (dc_inner dc) (prefix (c @ [CHR 0x00]))\<rparr>"

section \<open>Keys\<close>

lemma cache_key_inj:
  assumes "CHR 0x00 \<notin> set c" "CHR 0x00 \<notin> set c'"
  shows "cache_key c i = cache_key c' i' \<longleftrightarrow> c = c' \<and> i = i'"
proof -
  have tw: "takeWhile (\<lambda>x. x \<noteq> CHR 0x00) (cache_key a b) = a" if "CHR 0x00 \<notin> set a" for a b
  proof -
    have "\<And>x. x \<in> set a \<Longrightarrow> x \<noteq> CHR 0x00" using that by blast
    then show ?thesis by (simp only: cache_key_def takeWhile_append2) simp
  qed
  have "c = c'" if "cache_key c i = cache_key c' i'"
    using tw [OF assms(1), of i] tw [OF assms(2), of i'] that by simp
  then show ?thesis by (auto simp: cache_key_def)
qed

lemma cache_key_prefix:
  assumes "CHR 0x00 \<notin> set c" "CHR 0x00 \<notin> set c'"
  shows "prefix (c @ [CHR 0x00]) (cache_key c' i) \<longleftrightarrow> c = c'"
proof
  assume "prefix (c @ [CHR 0x00]) (cache_key c' i)"
  then obtain j where "cache_key c' i = cache_key c j" by (auto simp: prefix_def cache_key_def)
  then show "c = c'" using cache_key_inj [OF assms(2,1)] by simp
qed (simp add: cache_key_def)

section \<open>What a cache may show\<close>

text \<open>The documents of collections without a NUL byte in their name that the cache may return.\<close>

definition cached :: "'c moka \<Rightarrow> 'c document_cache \<Rightarrow> string \<Rightarrow> document_id \<Rightarrow> document option" where
  "cached mk dc c i = mk_view mk (dc_inner dc) (cache_key c (as_str i))"

lemma map_le_Some: "m \<subseteq>\<^sub>m m' \<Longrightarrow> m k = Some v \<Longrightarrow> m' k = Some v"
  by (auto simp: map_le_def dom_def)

lemma moka_views:
  assumes "moka_laws mk"
  shows "mk_view mk (mk_insert mk c k d) \<subseteq>\<^sub>m (mk_view mk c)(k \<mapsto> d)"
    and "mk_view mk (mk_invalidate mk c k) \<subseteq>\<^sub>m (mk_view mk c)(k := None)"
    and "mk_view mk (mk_invalidate_if mk c P) \<subseteq>\<^sub>m mk_view mk c |` {k. \<not> P k}"
  using assms by (simp_all add: moka_laws_def)

lemma moka_getD:
  assumes "moka_laws mk" "mk_get mk c k = (c', r)"
  shows "r = Some d \<Longrightarrow> mk_view mk c k = Some d" and "mk_view mk c' x = Some e \<Longrightarrow> mk_view mk c x = Some e"
proof -
  have "r = None \<or> r = mk_view mk c k" and le: "mk_view mk c' \<subseteq>\<^sub>m mk_view mk c"
    using assms unfolding moka_laws_def by (metis snd_conv, metis fst_conv)
  then show "r = Some d \<Longrightarrow> mk_view mk c k = Some d" by auto
  show "mk_view mk c' x = Some e \<Longrightarrow> mk_view mk c x = Some e" by (rule map_le_Some [OF le])
qed

lemma cache_getD:
  assumes "moka_laws mk" "cache_get mk dc c i = (dc', r)"
  shows "r = Some d \<Longrightarrow> cached mk dc c i = Some d"
    and "cached mk dc' c' i' = Some e \<Longrightarrow> cached mk dc c' i' = Some e"
proof -
  obtain inner r0 where g: "mk_get mk (dc_inner dc) (cache_key c (as_str i)) = (inner, r0)" by fastforce
  have "r0 = r" "dc_inner dc' = inner" using assms(2) by (auto simp: cache_get_def g split: option.splits)
  then show "r = Some d \<Longrightarrow> cached mk dc c i = Some d"
    and "cached mk dc' c' i' = Some e \<Longrightarrow> cached mk dc c' i' = Some e"
    using moka_getD [OF assms(1) g] by (auto simp: cached_def)
qed

lemma cached_put:
  assumes "moka_laws mk" "cached mk (cache_put mk dc c d) c' i' = Some e"
    and "CHR 0x00 \<notin> set c" "CHR 0x00 \<notin> set c'"
  shows "c' = c \<and> i' = doc_id d \<and> e = d \<or> cached mk dc c' i' = Some e"
proof -
  have "((mk_view mk (dc_inner dc))(cache_key c (as_str (doc_id d)) \<mapsto> d)) (cache_key c' (as_str i')) = Some e"
    using assms(2) by (intro map_le_Some [OF moka_views(1) [OF assms(1)]]) (simp add: cached_def cache_put_def)
  then show ?thesis using cache_key_inj [OF assms(4,3)] document_id.expand [of i' "doc_id d"]
    by (auto simp: cached_def split: if_splits)
qed

lemma cached_invalidate:
  assumes "moka_laws mk" "cached mk (cache_invalidate mk dc c i) c' i' = Some e"
  shows "(c', i') \<noteq> (c, i) \<and> cached mk dc c' i' = Some e"
proof -
  have "((mk_view mk (dc_inner dc))(cache_key c (as_str i) := None)) (cache_key c' (as_str i')) = Some e"
    using assms(2) by (intro map_le_Some [OF moka_views(2) [OF assms(1)]]) (simp add: cached_def cache_invalidate_def)
  then show ?thesis by (auto simp: cached_def split: if_splits)
qed

lemma cached_invalidate_collection:
  assumes "moka_laws mk" "cached mk (invalidate_collection mk dc c) c' i' = Some e"
    and "CHR 0x00 \<notin> set c" "CHR 0x00 \<notin> set c'"
  shows "c' \<noteq> c \<and> cached mk dc c' i' = Some e"
proof -
  have "(mk_view mk (dc_inner dc) |` {k. \<not> prefix (c @ [CHR 0x00]) k}) (cache_key c' (as_str i')) = Some e"
    using assms(2) by (intro map_le_Some [OF moka_views(3) [OF assms(1)]]) (simp add: cached_def invalidate_collection_def)
  then show ?thesis using cache_key_prefix [OF assms(3,4)] by (auto simp: cached_def restrict_map_def split: if_splits)
qed

section \<open>An instance\<close>

text \<open>A cache that never drops an entry by itself.\<close>

definition map_moka :: "(string, document) fmap moka" where
  "map_moka = \<lparr>mk_view = fmlookup, mk_get = (\<lambda>c k. (c, fmlookup c k)), mk_insert = (\<lambda>c k d. fmupd k d c),
     mk_invalidate = (\<lambda>c k. fmdrop k c), mk_invalidate_if = (\<lambda>c P. fmfilter (\<lambda>k. \<not> P k) c)\<rparr>"

lemma map_moka_laws: "moka_laws map_moka"
  by (auto simp: moka_laws_def map_moka_def map_le_def split: if_splits)

section \<open>Properties\<close>

text \<open>
  After the invalidation of a collection the cache shows none of its documents and, of any other
  collection, only what it showed before; after the invalidation of one document it does not show
  that one, and after an insertion a look-up gives the inserted document or nothing. Names with a
  NUL byte are excluded: they are the separator of the keys.
\<close>

theorem cache_operations_sound:
  assumes "moka_laws mk" "CHR 0x00 \<notin> set c" "CHR 0x00 \<notin> set c'"
  shows "snd (cache_get mk (invalidate_collection mk dc c) c i) = None \<and>
    snd (cache_get mk (cache_invalidate mk dc c i) c i) = None \<and>
    snd (cache_get mk (cache_put mk dc c d) c (doc_id d)) \<in> {None, Some d} \<and>
    (c' \<noteq> c \<longrightarrow> snd (cache_get mk (cache_put mk dc c d) c' i) \<in> {None, cached mk dc c' i})"
proof (intro conjI impI)
  have get: "snd (cache_get mk dc' c0 i0) = None \<or> snd (cache_get mk dc' c0 i0) = cached mk dc' c0 i0" for dc' c0 i0
    using cache_getD(1) [OF assms(1), of dc' c0 i0] by (cases "cache_get mk dc' c0 i0") (metis option.exhaust snd_conv)
  show "snd (cache_get mk (invalidate_collection mk dc c) c i) = None"
    using get cached_invalidate_collection [OF assms(1) _ assms(2,2)] by (metis option.exhaust)
  show "snd (cache_get mk (cache_invalidate mk dc c i) c i) = None"
    using get cached_invalidate [OF assms(1)] by (metis option.exhaust)
  show "snd (cache_get mk (cache_put mk dc c d) c (doc_id d)) \<in> {None, Some d}"
  proof -
    have "cached mk (cache_put mk dc c d) c (doc_id d) \<in> {None, Some d}"
      using map_le_Some [OF moka_views(1) [OF assms(1)], of "dc_inner dc" "cache_key c (as_str (doc_id d))" d "cache_key c (as_str (doc_id d))"]
      by (cases "cached mk (cache_put mk dc c d) c (doc_id d)") (auto simp: cached_def cache_put_def)
    then show ?thesis using get [of "cache_put mk dc c d" c "doc_id d"] by auto
  qed
  show "snd (cache_get mk (cache_put mk dc c d) c' i) \<in> {None, cached mk dc c' i}" if "c' \<noteq> c"
  proof (cases "cached mk (cache_put mk dc c d) c' i")
    case (Some e)
    then have "cached mk dc c' i = Some e" using cached_put [OF assms(1) Some assms(2,3)] that by blast
    then show ?thesis using get [of "cache_put mk dc c d" c' i] Some by auto
  qed (use get [of "cache_put mk dc c d" c' i] in auto)
qed

theorem cache_operations_sound_witness:
  "snd (cache_get map_moka (cache_put map_moka (with_defaults (\<lambda>_. fmempty)) ''a'' (doc_new (DocumentId ''1''))) ''b'' (DocumentId ''1'')) = None"
  using cache_operations_sound [OF map_moka_laws, of "''a''" "''b''" "with_defaults (\<lambda>_. fmempty)" "DocumentId ''1''" "doc_new (DocumentId ''1'')"]
  by (simp add: cached_def with_defaults_def cache_new_def map_moka_def)

end
