(* ===== verification/Forwarding.thy ===== *)
theory Forwarding
  imports State_Machine Connection_Pool
begin

text \<open>
  How a node proposes a write: \<^verbatim>\<open>RaftNode::propose\<close> of
  \<^verbatim>\<open>crates/consensus/src/raft_node.rs\<close>, the forwarding of a write from a follower to the
  leader by \<^verbatim>\<open>propose_or_forward\<close> of \<^verbatim>\<open>crates/node/src/handlers/mod.rs\<close>, and the two
  ends of the remote call, \<^verbatim>\<open>crates/network/src/client.rs\<close> and
  \<^verbatim>\<open>crates/network/src/server.rs\<close>, with the connection set-up of the client.

  The consensus library (openraft) is the record \<open>raft_api\<close>: the write entry point of each node,
  the leader and the members a node knows, on a type \<open>'w\<close> of states of the whole cluster. The
  gRPC transport and the JSON codec of commands are parameters.
\<close>

section \<open>Proposals\<close>

datatype client_write_error = ForwardToLeader "u64 option" | ChangeMembershipError string | Fatal

record ('w, 'sc) raft_api =
  ra_client_write :: "u64 \<Rightarrow> 'sc raft_command \<Rightarrow> 'w \<Rightarrow> 'w \<times> (client_write_error + raft_response)"
  ra_current_leader :: "u64 \<Rightarrow> 'w \<Rightarrow> u64 option"
  ra_nodes :: "u64 \<Rightarrow> 'w \<Rightarrow> (u64 \<times> string) list"

definition propose :: "('w, 'sc) raft_api \<Rightarrow> u64 \<Rightarrow> 'sc raft_command \<Rightarrow> 'w \<Rightarrow> 'w \<times> raft_response db_result" where
  "propose ra n cmd w =
     (case ra_client_write ra n cmd w of
        (w1, Inr resp) \<Rightarrow> (w1, Inr resp)
      | (w1, Inl (ForwardToLeader l)) \<Rightarrow>
          (w1, Inl (ConsensusError (''not leader; forward to '' @
             (case l of Some i \<Rightarrow> ''node-'' @ dec (unat i) | None \<Rightarrow> ''unknown''))))
      | (w1, Inl (ChangeMembershipError e)) \<Rightarrow> (w1, Inl (ConsensusError (''membership change error: '' @ e)))
      | (w1, Inl Fatal) \<Rightarrow> (w1, Inl (ConsensusError ''fatal raft error'')))"

definition propose_batch ::
    "('w, 'sc) raft_api \<Rightarrow> u64 \<Rightarrow> string \<Rightarrow> document list \<Rightarrow> 'w \<Rightarrow> 'w \<times> raft_response db_result" where
  "propose_batch ra n c docs w = propose ra n (BatchInsert c docs) w"

section \<open>Connections\<close>

definition INITIAL_BACKOFF_MS :: u64 where
  "INITIAL_BACKOFF_MS = 100"

definition MAX_RETRIES :: nat where
  "MAX_RETRIES = 5"

definition backoff_duration :: "nat \<Rightarrow> u64" where
  "backoff_duration attempt = INITIAL_BACKOFF_MS * 2 ^ attempt"

text \<open>
  The retry loop: \<open>invalid\<close> is the error of an endpoint that cannot be parsed, \<open>try\<close> the outcome of
  each attempt; the first component of the result adds up the delays.
\<close>

fun connect_loop ::
    "(string \<Rightarrow> string option) \<Rightarrow> (nat \<Rightarrow> string + 'ch) \<Rightarrow> string \<Rightarrow> nat list \<Rightarrow> string option \<Rightarrow> u64 \<Rightarrow> u64 \<times> 'ch db_result" where
  "connect_loop invalid attempt_conn endpoint [] last_err waited =
     (waited, Inl (NetworkError (''failed to connect to '' @ endpoint @ '' after '' @ dec MAX_RETRIES @ '' retries: '' @
        (case last_err of Some e \<Rightarrow> e | None \<Rightarrow> ''unknown''))))"
| "connect_loop invalid attempt_conn endpoint (n # ns) last_err waited =
     (case invalid endpoint of
        Some e \<Rightarrow> (waited, Inl (NetworkError (''invalid endpoint: '' @ e)))
      | None \<Rightarrow> (case attempt_conn n of
            Inr ch \<Rightarrow> (waited, Inr ch)
          | Inl e \<Rightarrow> connect_loop invalid attempt_conn endpoint ns (Some e) (waited + backoff_duration n)))"

definition connect_to_endpoint ::
    "(string \<Rightarrow> string option) \<Rightarrow> (nat \<Rightarrow> string + 'ch) \<Rightarrow> string \<Rightarrow> u64 \<times> 'ch db_result" where
  "connect_to_endpoint invalid attempt_conn endpoint = connect_loop invalid attempt_conn endpoint [0..<MAX_RETRIES] None 0"

definition client_connect ::
    "(string \<Rightarrow> string option) \<Rightarrow> (nat \<Rightarrow> string + 'ch) \<Rightarrow> node_address \<Rightarrow> u64 \<times> 'ch db_result" where
  "client_connect invalid attempt_conn addr =
     connect_to_endpoint invalid attempt_conn (''http://'' @ host addr @ '':'' @ dec (unat (port addr)))"

section \<open>The remote write\<close>

record write_response =
  wr_success :: bool
  wr_document_id :: string
  wr_error :: string

record 'sc cmd_codec =
  enc_cmd :: "'sc raft_command \<Rightarrow> string + bytes"
  dec_cmd :: "bytes \<Rightarrow> string + 'sc raft_command"

text \<open>The server end, on node \<open>n\<close>; an error of the call itself is its message.\<close>

definition srv_forward_write ::
    "('w, 'sc) raft_api \<Rightarrow> 'sc cmd_codec \<Rightarrow> u64 \<Rightarrow> bytes \<Rightarrow> 'w \<Rightarrow> 'w \<times> (string + write_response)" where
  "srv_forward_write ra cc n command w =
     (case dec_cmd cc command of
        Inl e \<Rightarrow> (w, Inl (''failed to deserialize RaftCommand: '' @ e))
      | Inr cmd \<Rightarrow> (case propose ra n cmd w of
            (w1, Inr resp) \<Rightarrow> (w1, Inr \<lparr>wr_success = rr_success resp,
               wr_document_id = (case rr_document_id resp of Some i \<Rightarrow> as_str i | None \<Rightarrow> []), wr_error = []\<rparr>)
          | (w1, Inl e) \<Rightarrow> (w1, Inr \<lparr>wr_success = False, wr_document_id = [], wr_error = db_error_display e\<rparr>)))"

definition forward_write ::
    "'sc cmd_codec \<Rightarrow> ('ch \<Rightarrow> bytes \<Rightarrow> 'w \<Rightarrow> 'w \<times> (string + write_response)) \<Rightarrow> 'ch \<Rightarrow> 'sc raft_command \<Rightarrow> 'w \<Rightarrow>
     'w \<times> raft_response db_result" where
  "forward_write cc rpc ch cmd w =
     (case enc_cmd cc cmd of
        Inl e \<Rightarrow> (w, Inl (SerializationError (''serialize RaftCommand: '' @ e)))
      | Inr command \<Rightarrow> (case rpc ch command w of
            (w1, Inl e) \<Rightarrow> (w1, Inl (NetworkError (''forward_write RPC failed: '' @ e)))
          | (w1, Inr inner) \<Rightarrow>
              if wr_success inner then
                (w1, Inr \<lparr>rr_success = True,
                   rr_document_id = (if wr_document_id inner = [] then None else Some (DocumentId (wr_document_id inner))),
                   rr_affected_count = 1\<rparr>)
              else (w1, Inl (NetworkError (''forward_write rejected: '' @ wr_error inner)))))"

section \<open>Propose or forward\<close>

text \<open>The address of a member: \<^verbatim>\<open>rsplitn(2, ':')\<close> cuts at the last colon.\<close>

definition split_last_colon :: "string \<Rightarrow> (string \<times> string) option" where
  "split_last_colon s =
     (if CHR '':'' \<in> set s then
        (let after = rev (takeWhile (\<lambda>c. c \<noteq> CHR '':'') (rev s)) in
         Some (take (length s - length after - 1) s, after))
      else None)"

definition parse_u16 :: "string \<Rightarrow> u16 option" where
  "parse_u16 s = map_option word_of_nat (parse_uint 16 s)"

definition member_address :: "string \<Rightarrow> node_address" where
  "member_address addr =
     (case split_last_colon addr of
        Some (h, p) \<Rightarrow> \<lparr>host = h, port = (case parse_u16 p of Some x \<Rightarrow> x | None \<Rightarrow> 9300)\<rparr>
      | None \<Rightarrow> \<lparr>host = addr, port = 9300\<rparr>)"

text \<open>What the network adds: the channel to an address, the time, the remote call.\<close>

record ('w, 'sc, 'ch) net_api =
  na_connect :: "node_address \<Rightarrow> 'ch db_result"
  na_now :: nat
  na_codec :: "'sc cmd_codec"
  na_rpc :: "'ch \<Rightarrow> bytes \<Rightarrow> 'w \<Rightarrow> 'w \<times> (string + write_response)"

definition propose_or_forward ::
    "('w, 'sc) raft_api \<Rightarrow> ('w, 'sc, 'ch) net_api \<Rightarrow> u64 \<Rightarrow> 'sc raft_command \<Rightarrow> 'ch connection_pool \<Rightarrow> 'w \<Rightarrow>
     'ch connection_pool \<times> 'w \<times> raft_response db_result" where
  "propose_or_forward ra na n cmd pool w =
     (case propose ra n cmd w of
        (w1, Inr resp) \<Rightarrow> (pool, w1, Inr resp)
      | (w1, Inl (ConsensusError msg)) \<Rightarrow>
          if str_contains msg ''not leader'' \<or> str_contains msg ''forward'' then
            (case ra_current_leader ra n w1 of
               None \<Rightarrow> (pool, w1, Inl (NetworkError ''no leader available''))
             | Some leader_id \<Rightarrow>
                 (case find (\<lambda>(i, _). i = leader_id) (ra_nodes ra n w1) of
                    None \<Rightarrow> (pool, w1, Inl (NetworkError (''leader node-'' @ dec (unat leader_id) @ '' not found in membership'')))
                  | Some (_, addr) \<Rightarrow>
                      (case pool_get (na_connect na) pool (na_now na) (NodeId leader_id) (member_address addr) of
                         (pool1, Inl e) \<Rightarrow> (pool1, w1, Inl e)
                       | (pool1, Inr ch) \<Rightarrow> (pool1, forward_write (na_codec na) (na_rpc na) ch cmd w1))))
          else (pool, w1, Inl (ConsensusError msg))
      | (w1, Inl e) \<Rightarrow> (pool, w1, Inl e))"

section \<open>Lemmas\<close>

lemma not_leader_message: "str_contains (''not leader; forward to '' @ x) ''not leader''"
proof -
  have "prefix ''not leader'' (''not leader; forward to '' @ x)" by simp
  then show ?thesis unfolding str_contains_def by (rule prefix_imp_sublist)
qed

lemma propose_follower:
  "ra_client_write ra n cmd w = (w1, Inl (ForwardToLeader l)) \<Longrightarrow>
    \<exists>x. propose ra n cmd w = (w1, Inl (ConsensusError (''not leader; forward to '' @ x)))"
  by (simp add: propose_def)

lemma propose_leader:
  "ra_client_write ra n cmd w = (w1, Inr r) \<Longrightarrow> propose ra n cmd w = (w1, Inr r)"
  by (simp add: propose_def)

lemma propose_or_forward_leader:
  "ra_client_write ra n cmd w = (w1, Inr r) \<Longrightarrow> propose_or_forward ra na n cmd pool w = (pool, w1, Inr r)"
  by (simp add: propose_or_forward_def propose_leader)

text \<open>
  What is assumed of a reachable leader \<open>l\<close>: the follower \<open>n\<close> refuses the write, knows the leader
  and its address, has or gets a connection to it, and the call on that connection reaches the
  server end on \<open>l\<close> with the command intact.
\<close>

definition leader_reachable ::
    "('w, 'sc) raft_api \<Rightarrow> ('w, 'sc, 'ch) net_api \<Rightarrow> u64 \<Rightarrow> u64 \<Rightarrow> 'sc raft_command \<Rightarrow> 'ch connection_pool \<Rightarrow> 'w \<Rightarrow> bool" where
  "leader_reachable ra na n l cmd pool w \<longleftrightarrow>
     ra_client_write ra n cmd w = (w, Inl (ForwardToLeader (Some l))) \<and> ra_current_leader ra n w = Some l \<and>
     (\<exists>addr ch b. find (\<lambda>(i, _). i = l) (ra_nodes ra n w) = Some (l, addr) \<and>
        snd (pool_get (na_connect na) pool (na_now na) (NodeId l) (member_address addr)) = Inr ch \<and>
        enc_cmd (na_codec na) cmd = Inr b \<and> dec_cmd (na_codec na) b = Inr cmd \<and>
        na_rpc na ch b w = srv_forward_write ra (na_codec na) l b w)"

lemma forwarded_write:
  assumes "leader_reachable ra na n l cmd pool w" "ra_client_write ra l cmd w = (w1, Inr r)"
  shows "\<exists>pool1. propose_or_forward ra na n cmd pool w = (pool1, w1,
      if rr_success r then
        Inr \<lparr>rr_success = True,
          rr_document_id = (case rr_document_id r of Some i \<Rightarrow> if as_str i = [] then None else Some i | None \<Rightarrow> None),
          rr_affected_count = 1\<rparr>
      else Inl (NetworkError ''forward_write rejected: ''))"
proof -
  obtain addr ch b where f: "find (\<lambda>(i, _). i = l) (ra_nodes ra n w) = Some (l, addr)"
    and g: "snd (pool_get (na_connect na) pool (na_now na) (NodeId l) (member_address addr)) = Inr ch"
    and c: "enc_cmd (na_codec na) cmd = Inr b" "dec_cmd (na_codec na) b = Inr cmd"
    and s: "na_rpc na ch b w = srv_forward_write ra (na_codec na) l b w"
    using assms(1) unfolding leader_reachable_def by blast
  have cl: "ra_current_leader ra n w = Some l" "ra_client_write ra n cmd w = (w, Inl (ForwardToLeader (Some l)))"
    using assms(1) by (simp_all add: leader_reachable_def)
  obtain x where p: "propose ra n cmd w = (w, Inl (ConsensusError (''not leader; forward to '' @ x)))"
    using propose_follower [OF cl(2)] by blast
  obtain pool1 where g': "pool_get (na_connect na) pool (na_now na) (NodeId l) (member_address addr) = (pool1, Inr ch)"
    using g by (cases "pool_get (na_connect na) pool (na_now na) (NodeId l) (member_address addr)") auto
  have "propose_or_forward ra na n cmd pool w = (pool1, forward_write (na_codec na) (na_rpc na) ch cmd w)"
    unfolding propose_or_forward_def p using not_leader_message [of x] by (simp add: cl f g')
  moreover have "srv_forward_write ra (na_codec na) l b w = (w1, Inr \<lparr>wr_success = rr_success r,
      wr_document_id = (case rr_document_id r of Some i \<Rightarrow> as_str i | None \<Rightarrow> []), wr_error = []\<rparr>)"
    by (simp add: srv_forward_write_def c propose_leader [OF assms(2)])
  ultimately show ?thesis
    by (auto simp: forward_write_def c s split: option.splits)
qed

lemma connect_loop_wait:
  "connect_loop invalid attempt_conn endpoint ns le waited = (t, r) \<Longrightarrow> invalid endpoint = None \<Longrightarrow>
    (\<exists>k \<le> length ns. t = waited + (\<Sum>n \<leftarrow> take k ns. backoff_duration n) \<and> (k < length ns \<longleftrightarrow> (\<exists>ch. r = Inr ch)))"
proof (induction ns arbitrary: le waited)
  case (Cons n ns)
  show ?case
  proof (cases "attempt_conn n")
    case (Inl e)
    then obtain k where "k \<le> length ns" "t = waited + backoff_duration n + (\<Sum>n \<leftarrow> take k ns. backoff_duration n)"
      "k < length ns \<longleftrightarrow> (\<exists>ch. r = Inr ch)"
      using Cons by fastforce
    then show ?thesis by (intro exI [of _ "Suc k"]) (auto simp: add.assoc)
  next
    case (Inr ch)
    then show ?thesis using Cons.prems by (intro exI [of _ 0]) auto
  qed
qed auto

end
