(* ===== verification/Handlers.thy ===== *)
theory Handlers
  imports Forwarding Session Cache Dto Read_Coordinator
begin

text \<open>
  The HTTP handlers for documents, collections and aliases,
  \<^verbatim>\<open>crates/node/src/handlers/documents.rs\<close>, \<^verbatim>\<open>collections.rs\<close> and \<^verbatim>\<open>aliases.rs\<close>, on
  the shared state of a node, \<^verbatim>\<open>crates/node/src/state.rs\<close>.

  A handler maps the state of the node to a new state and a response. The state holds what the
  handlers use: the registries of collections and aliases, the document cache, the session
  counter, the connection pool, and the state of the cluster, of which \<open>en_local\<close> is the storage
  of this node. The record \<open>env\<close> holds the third-party code: consensus, network, cache, JSON, and
  the orders of hash maps. Metrics counters are left out.
\<close>

section \<open>The state of a node\<close>

record collection_meta =
  cm_name :: string
  cm_doc_count :: u64
  cm_mapping :: field_mapping
  cm_settings :: collection_settings

record ('w, 'ch, 'c) app_state =
  ap_node :: u64
  ap_collections :: "(string, collection_meta) fmap"
  ap_aliases :: "(string, collection_alias) fmap"
  ap_cache :: "'c document_cache"
  ap_sessions :: session_manager
  ap_coordinator :: read_coordinator
  ap_pool :: "'ch connection_pool"
  ap_world :: 'w

record ('w, 's, 'sc, 'ch, 'c, 'n) env =
  en_raft :: "('w, 'sc) raft_api"
  en_net :: "('w, 'sc, 'ch) net_api"
  en_moka :: "'c moka"
  en_json :: "'n json_ops"
  en_iter_json :: "(string, 'n json) fmap \<Rightarrow> (string \<times> 'n json) list"
  en_iter_fields :: "(string, field_value) fmap \<Rightarrow> (string \<times> field_value) list"
  en_storage :: "'s storage_ops"
  en_local :: "'w \<Rightarrow> 's"
  en_schema :: "'n json \<Rightarrow> 'sc option"
  en_schema_default :: 'sc
  en_settings :: "'n json \<Rightarrow> collection_settings option"
  en_settings_json :: "collection_settings \<Rightarrow> 'n json option"
  en_mapping_json :: "field_mapping \<Rightarrow> 'n json option"

datatype 'n body =
    ErrorBody error_response
  | IndexBody index_document_response
  | DocBody (db_id: string) (db_source: "'n json") (db_version: u64) (db_consistency: string) (db_cache_hit: bool)
  | DeletedBody string
  | CollectionBody "'n collection_info_response"
  | CollectionList "'n collection_info_response list"
  | AliasBody alias_info_response
  | AliasList "alias_info_response list"
  | BulkBody bulk_response
  | Acknowledged

record 'n response =
  rs_status :: status_code
  rs_session :: "string option"
  rs_body :: "'n body"

definition error_out :: "db_error \<Rightarrow> 'n response" where
  "error_out e = (let (st, resp) = db_error_to_response e in \<lparr>rs_status = st, rs_session = None, rs_body = ErrorBody resp\<rparr>)"

definition no_collection :: "string \<Rightarrow> 'n response" where
  "no_collection c = \<lparr>rs_status = NOT_FOUND, rs_session = None,
     rs_body = ErrorBody (er_not_found (''collection '' @ quoted c @ '' not found''))\<rparr>"

text \<open>The two last arms of the document write handlers.\<close>

definition write_failed :: "db_error \<Rightarrow> 'n response" where
  "write_failed e =
     (case e of
        NetworkError msg \<Rightarrow>
          if str_contains msg ''no leader'' then
            \<lparr>rs_status = SERVICE_UNAVAILABLE, rs_session = None, rs_body = ErrorBody (er_internal ''no leader available'')\<rparr>
          else error_out e
      | _ \<Rightarrow> error_out e)"

definition ap_propose ::
    "('w, 's, 'sc, 'ch, 'c, 'n) env \<Rightarrow> 'sc raft_command \<Rightarrow> ('w, 'ch, 'c) app_state \<Rightarrow>
     ('w, 'ch, 'c) app_state \<times> raft_response db_result" where
  "ap_propose en cmd ap =
     (let (pool, w, r) = propose_or_forward (en_raft en) (en_net en) (ap_node ap) cmd (ap_pool ap) (ap_world ap) in
      (ap\<lparr>ap_pool := pool, ap_world := w\<rparr>, r))"

text \<open>The session token of a write: the local counter plus one.\<close>

definition ap_token :: "('w, 'ch, 'c) app_state \<Rightarrow> ('w, 'ch, 'c) app_state \<times> string" where
  "ap_token ap =
     (let applied = current_applied_index (ap_sessions ap) + 1 in
      (ap\<lparr>ap_sessions := advance_applied_index (ap_sessions ap) applied\<rparr>, token_encode (token_new applied)))"

section \<open>Documents\<close>

definition index_document ::
    "('w, 's, 'sc, 'ch, 'c, 'n) env \<Rightarrow> string \<Rightarrow> string \<Rightarrow> 'n index_document_request \<Rightarrow> ('w, 'ch, 'c) app_state \<Rightarrow>
     ('w, 'ch, 'c) app_state \<times> 'n response" where
  "index_document en fresh c req ap =
     (if fmlookup (ap_collections ap) c = None then (ap, no_collection c)
      else
        (let doc = request_to_document (en_json en) (en_iter_json en) fresh req;
             current = (case fmlookup (ap_collections ap) c of Some m \<Rightarrow> cm_mapping m | None \<Rightarrow> field_mapping_new) in
         case validate_and_update_mapping (en_iter_fields en) doc current of
           Inl e \<Rightarrow> (ap, error_out e)
         | Inr updated_mapping \<Rightarrow>
             (case ap_propose en (InsertDocument c doc) ap of
                (ap1, Inl e) \<Rightarrow> (ap1, write_failed e)
              | (ap1, Inr _) \<Rightarrow>
                  (let ap2 = ap1\<lparr>ap_cache := cache_invalidate (en_moka en) (ap_cache ap1) c (doc_id doc)\<rparr>;
                       ap3 = (case fmlookup (ap_collections ap2) c of
                                Some meta \<Rightarrow> ap2\<lparr>ap_collections :=
                                  fmupd c (meta\<lparr>cm_doc_count := cm_doc_count meta + 1, cm_mapping := updated_mapping\<rparr>) (ap_collections ap2)\<rparr>
                              | None \<Rightarrow> ap2);
                       (ap4, token) = ap_token ap3 in
                   (ap4, \<lparr>rs_status = CREATED, rs_session = Some token,
                      rs_body = IndexBody \<lparr>ir_id = as_str (doc_id doc), ir_result = ''created'', ir_version = 1\<rparr>\<rparr>)))))"

definition upsert_document ::
    "('w, 's, 'sc, 'ch, 'c, 'n) env \<Rightarrow> string \<Rightarrow> string \<Rightarrow> 'n index_document_request \<Rightarrow> ('w, 'ch, 'c) app_state \<Rightarrow>
     ('w, 'ch, 'c) app_state \<times> 'n response" where
  "upsert_document en c i req ap =
     (if fmlookup (ap_collections ap) c = None then (ap, no_collection c)
      else
        (let doc = set_json_fields (en_json en) (en_iter_json en (idr_fields req)) (doc_new (DocumentId i)) in
         case ap_propose en (UpdateDocument c doc) ap of
           (ap1, Inl e) \<Rightarrow> (ap1, write_failed e)
         | (ap1, Inr _) \<Rightarrow>
             (let ap2 = ap1\<lparr>ap_cache := cache_invalidate (en_moka en) (ap_cache ap1) c (doc_id doc)\<rparr>;
                  (ap3, token) = ap_token ap2 in
              (ap3, \<lparr>rs_status = OK, rs_session = Some token,
                 rs_body = IndexBody \<lparr>ir_id = i, ir_result = ''updated'', ir_version = 1\<rparr>\<rparr>))))"

text \<open>The body of the read after the session wait.\<close>

definition read_document ::
    "('w, 's, 'sc, 'ch, 'c, 'n) env \<Rightarrow> string \<Rightarrow> string \<Rightarrow> consistency_level \<Rightarrow> ('w, 'ch, 'c) app_state \<Rightarrow>
     ('w, 'ch, 'c) app_state \<times> 'n response" where
  "read_document en c i consistency ap =
     (case cache_get (en_moka en) (ap_cache ap) c (DocumentId i) of
        (dc, Some doc) \<Rightarrow>
          (ap\<lparr>ap_cache := dc\<rparr>,
           \<lparr>rs_status = OK, rs_session = None,
            rs_body = DocBody (as_str (doc_id doc)) (fields_to_value (en_json en) (doc_fields doc)) (total (doc_version doc))
              (consistency_level_display consistency) True\<rparr>)
      | (dc, None) \<Rightarrow>
          (case st_get_from_collection (en_storage en) c (DocumentId i) (en_local en (ap_world ap)) of
             Inr doc \<Rightarrow>
               (let ap1 = ap\<lparr>ap_cache := cache_put (en_moka en) dc c doc\<rparr>;
                    replica = \<lparr>rr_node_id = NodeId (ap_node ap), rr_document = doc, rr_version = doc_version doc\<rparr>;
                    effective_rf = min (rc_replication_factor (ap_coordinator ap)) 1;
                    required = required_responses consistency effective_rf in
                if 1 < required then
                  (ap1, error_out (ConsistencyError (''consistency level '' @ consistency_level_display consistency @
                     '' requires '' @ dec required @ '' responses but only 1 available (single-node mode)'')))
                else
                  (case resolve (ap_coordinator ap) [replica] One of
                     Inr res \<Rightarrow>
                       (ap1, \<lparr>rs_status = OK, rs_session = None,
                          rs_body = DocBody (as_str (doc_id (res_document res)))
                            (fields_to_value (en_json en) (doc_fields (res_document res))) (total (res_version res))
                            (consistency_level_display consistency) False\<rparr>)
                   | Inl e \<Rightarrow> (ap1, error_out e)))
           | Inl (NotFound _) \<Rightarrow>
               (ap\<lparr>ap_cache := dc\<rparr>, \<lparr>rs_status = NOT_FOUND, rs_session = None,
                  rs_body = ErrorBody (er_not_found (''document '' @ quoted i @ '' not found''))\<rparr>)
           | Inl e \<Rightarrow> (ap\<lparr>ap_cache := dc\<rparr>, error_out e)))"

text \<open>What the poll loop of the session wait sees, as in \<open>Session\<close>.\<close>

record timeline =
  tl_start :: nat
  tl_load :: "nat \<Rightarrow> u64"
  tl_load_msg :: "nat \<Rightarrow> u64"
  tl_clock :: "nat \<Rightarrow> nat"

text \<open>None stands for a wait that does not end.\<close>

definition get_document_h ::
    "('w, 's, 'sc, 'ch, 'c, 'n) env \<Rightarrow> timeline \<Rightarrow> string \<Rightarrow> string \<Rightarrow> string option \<Rightarrow> string option \<Rightarrow>
     ('w, 'ch, 'c) app_state \<Rightarrow> (('w, 'ch, 'c) app_state \<times> 'n response) option" where
  "get_document_h en tim c i consistency_param session_header ap =
     (if fmlookup (ap_collections ap) c = None then Some (ap, no_collection c)
      else
        (let waited = (case Option.bind session_header token_decode of
               Some token \<Rightarrow> wait_for_index (current_applied_index (ap_sessions ap)) (tl_start tim) (tl_load tim)
                 (tl_load_msg tim) (tl_clock tim) (committed_index token)
             | None \<Rightarrow> Some (Inr ())) in
         case waited of
           None \<Rightarrow> None
         | Some (Inl e) \<Rightarrow> Some (ap, error_out e)
         | Some (Inr _) \<Rightarrow>
             Some (read_document en c i (case consistency_param of Some s \<Rightarrow> from_str_param s | None \<Rightarrow> Quorum) ap)))"

definition delete_document_h ::
    "('w, 's, 'sc, 'ch, 'c, 'n) env \<Rightarrow> string \<Rightarrow> string \<Rightarrow> ('w, 'ch, 'c) app_state \<Rightarrow>
     ('w, 'ch, 'c) app_state \<times> 'n response" where
  "delete_document_h en c i ap =
     (if fmlookup (ap_collections ap) c = None then (ap, no_collection c)
      else
        (case ap_propose en (DeleteDocument c (DocumentId i)) ap of
           (ap1, Inl e) \<Rightarrow> (ap1, write_failed e)
         | (ap1, Inr _) \<Rightarrow>
             (let ap2 = ap1\<lparr>ap_cache := cache_invalidate (en_moka en) (ap_cache ap1) c (DocumentId i)\<rparr>;
                  ap3 = (case fmlookup (ap_collections ap2) c of
                           Some meta \<Rightarrow> ap2\<lparr>ap_collections :=
                             fmupd c (meta\<lparr>cm_doc_count := (if cm_doc_count meta = 0 then 0 else cm_doc_count meta - 1)\<rparr>) (ap_collections ap2)\<rparr>
                         | None \<Rightarrow> ap2);
                  (ap4, token) = ap_token ap3 in
              (ap4, \<lparr>rs_status = OK, rs_session = Some token, rs_body = DeletedBody i\<rparr>))))"

section \<open>Collections\<close>

definition collection_info :: "('w, 's, 'sc, 'ch, 'c, 'n) env \<Rightarrow> collection_meta \<Rightarrow> 'n collection_info_response" where
  "collection_info en meta =
     \<lparr>ci_name = cm_name meta, ci_doc_count = cm_doc_count meta,
      ci_mapping = en_mapping_json en (cm_mapping meta), ci_settings = en_settings_json en (cm_settings meta)\<rparr>"

definition create_collection ::
    "('w, 's, 'sc, 'ch, 'c, 'n) env \<Rightarrow> string \<Rightarrow> 'n create_collection_request option \<Rightarrow> ('w, 'ch, 'c) app_state \<Rightarrow>
     ('w, 'ch, 'c) app_state \<times> 'n response" where
  "create_collection en name body ap =
     (let req = (case body of Some b \<Rightarrow> b | None \<Rightarrow> \<lparr>cc_schema = None, cc_settings = None\<rparr>) in
      if fmlookup (ap_collections ap) name \<noteq> None then
        (ap, \<lparr>rs_status = CONFLICT, rs_session = None,
           rs_body = ErrorBody (er_new 409 ''resource_already_exists'' (''collection '' @ quoted name @ '' already exists''))\<rparr>)
      else
        (let schema = (case Option.bind (cc_schema req) (en_schema en) of Some s \<Rightarrow> s | None \<Rightarrow> en_schema_default en);
             settings = (case Option.bind (cc_settings req) (en_settings en) of Some s \<Rightarrow> s | None \<Rightarrow> collection_settings_default) in
         case ap_propose en (CreateCollection name schema) ap of
           (ap1, Inl e) \<Rightarrow> (ap1, error_out e)
         | (ap1, Inr _) \<Rightarrow>
             (ap1\<lparr>ap_collections := fmupd name
                \<lparr>cm_name = name, cm_doc_count = 0, cm_mapping = field_mapping_new, cm_settings = settings\<rparr> (ap_collections ap1)\<rparr>,
              \<lparr>rs_status = OK, rs_session = None,
               rs_body = CollectionBody \<lparr>ci_name = name, ci_doc_count = 0, ci_mapping = None,
                 ci_settings = en_settings_json en settings\<rparr>\<rparr>)))"

definition delete_collection ::
    "('w, 's, 'sc, 'ch, 'c, 'n) env \<Rightarrow> string \<Rightarrow> ('w, 'ch, 'c) app_state \<Rightarrow> ('w, 'ch, 'c) app_state \<times> 'n response" where
  "delete_collection en name ap =
     (if fmlookup (ap_collections ap) name = None then (ap, no_collection name)
      else
        (case ap_propose en (DeleteCollection name) ap of
           (ap1, Inl e) \<Rightarrow> (ap1, error_out e)
         | (ap1, Inr _) \<Rightarrow>
             (ap1\<lparr>ap_collections := fmdrop name (ap_collections ap1)\<rparr>,
              \<lparr>rs_status = OK, rs_session = None, rs_body = Acknowledged\<rparr>)))"

definition list_collections ::
    "('w, 's, 'sc, 'ch, 'c, 'n) env \<Rightarrow> ((string, collection_meta) fmap \<Rightarrow> (string \<times> collection_meta) list) \<Rightarrow>
     ('w, 'ch, 'c) app_state \<Rightarrow> 'n response" where
  "list_collections en it ap =
     \<lparr>rs_status = OK, rs_session = None, rs_body = CollectionList (map (collection_info en \<circ> snd) (it (ap_collections ap)))\<rparr>"

definition get_collection ::
    "('w, 's, 'sc, 'ch, 'c, 'n) env \<Rightarrow> string \<Rightarrow> ('w, 'ch, 'c) app_state \<Rightarrow> 'n response" where
  "get_collection en name ap =
     (case fmlookup (ap_collections ap) name of
        Some meta \<Rightarrow> \<lparr>rs_status = OK, rs_session = None, rs_body = CollectionBody (collection_info en meta)\<rparr>
      | None \<Rightarrow> no_collection name)"

section \<open>Aliases\<close>

definition no_alias :: "string \<Rightarrow> 'n response" where
  "no_alias a = \<lparr>rs_status = NOT_FOUND, rs_session = None,
     rs_body = ErrorBody (er_not_found (''alias '' @ quoted a @ '' not found''))\<rparr>"

text \<open>Aliases are proposed to the local node only; a follower does not forward them.\<close>

definition create_alias ::
    "('w, 's, 'sc, 'ch, 'c, 'n) env \<Rightarrow> string \<Rightarrow> string list \<Rightarrow> ('w, 'ch, 'c) app_state \<Rightarrow>
     ('w, 'ch, 'c) app_state \<times> 'n response" where
  "create_alias en name targets ap =
     (if fmlookup (ap_aliases ap) name \<noteq> None then
        (ap, \<lparr>rs_status = CONFLICT, rs_session = None,
           rs_body = ErrorBody (er_new 409 ''resource_already_exists'' (''alias '' @ quoted name @ '' already exists''))\<rparr>)
      else
        (case find (\<lambda>t. fmlookup (ap_collections ap) t = None) targets of
           Some t \<Rightarrow> (ap, \<lparr>rs_status = NOT_FOUND, rs_session = None,
             rs_body = ErrorBody (er_not_found (''target collection '' @ quoted t @ '' not found''))\<rparr>)
         | None \<Rightarrow>
             if targets = [] then
               (ap, \<lparr>rs_status = BAD_REQUEST, rs_session = None,
                  rs_body = ErrorBody (er_bad_request ''alias must point to at least one collection'')\<rparr>)
             else
               (case propose (en_raft en) (ap_node ap) (CreateAlias name targets) (ap_world ap) of
                  (w, Inl e) \<Rightarrow> (ap\<lparr>ap_world := w\<rparr>, error_out e)
                | (w, Inr _) \<Rightarrow>
                    (ap\<lparr>ap_world := w, ap_aliases := fmupd name (alias_new_multi name targets) (ap_aliases ap)\<rparr>,
                     \<lparr>rs_status = OK, rs_session = None, rs_body = AliasBody \<lparr>ai_name = name, ai_collections = targets\<rparr>\<rparr>))))"

definition delete_alias ::
    "('w, 's, 'sc, 'ch, 'c, 'n) env \<Rightarrow> string \<Rightarrow> ('w, 'ch, 'c) app_state \<Rightarrow> ('w, 'ch, 'c) app_state \<times> 'n response" where
  "delete_alias en name ap =
     (if fmlookup (ap_aliases ap) name = None then (ap, no_alias name)
      else
        (case propose (en_raft en) (ap_node ap) (DeleteAlias name) (ap_world ap) of
           (w, Inl e) \<Rightarrow> (ap\<lparr>ap_world := w\<rparr>, error_out e)
         | (w, Inr _) \<Rightarrow>
             (ap\<lparr>ap_world := w, ap_aliases := fmdrop name (ap_aliases ap)\<rparr>,
              \<lparr>rs_status = OK, rs_session = None, rs_body = Acknowledged\<rparr>)))"

definition get_alias :: "string \<Rightarrow> ('w, 'ch, 'c) app_state \<Rightarrow> 'n response" where
  "get_alias name ap =
     (case fmlookup (ap_aliases ap) name of
        Some al \<Rightarrow> \<lparr>rs_status = OK, rs_session = None,
          rs_body = AliasBody \<lparr>ai_name = alias_name al, ai_collections = alias_collections al\<rparr>\<rparr>
      | None \<Rightarrow> no_alias name)"

definition list_aliases ::
    "((string, collection_alias) fmap \<Rightarrow> (string \<times> collection_alias) list) \<Rightarrow> ('w, 'ch, 'c) app_state \<Rightarrow> 'n response" where
  "list_aliases it ap =
     \<lparr>rs_status = OK, rs_session = None,
      rs_body = AliasList (map (\<lambda>(_, al). \<lparr>ai_name = alias_name al, ai_collections = alias_collections al\<rparr>) (it (ap_aliases ap)))\<rparr>"

section \<open>Coherence of the cache\<close>

text \<open>
  What is assumed of the consensus library on the node \<open>n\<close> while it leads: a write returns after
  the command was applied to the local state machine, with its response. \<open>ixof\<close> is the index of
  the node.
\<close>

definition commits_locally :: "('w, 's, 'sc, 'ch, 'c, 'n) env \<Rightarrow> 'i index_ops \<Rightarrow> ('w \<Rightarrow> 'i) \<Rightarrow> u64 \<Rightarrow> bool" where
  "commits_locally en ix ixof n \<longleftrightarrow> (\<forall>cmd w. \<exists>w' r.
     ra_client_write (en_raft en) n cmd w = (w', Inr r) \<and>
     apply_command (en_storage en) ix cmd (en_local en w) (ixof w) = (en_local en w', ixof w', r))"

text \<open>The requests on documents and aliases, and the creation of collections.\<close>

datatype 'n request =
    IndexReq string string "'n index_document_request"
  | UpsertReq string string "'n index_document_request"
  | GetReq timeline string string "string option" "string option"
  | DeleteReq string string
  | CreateReq string "'n create_collection_request option"
  | CreateAliasReq string "string list"
  | DeleteAliasReq string

fun handle :: "('w, 's, 'sc, 'ch, 'c, 'n) env \<Rightarrow> 'n request \<Rightarrow> ('w, 'ch, 'c) app_state \<Rightarrow> (('w, 'ch, 'c) app_state \<times> 'n response) option" where
  "handle en (IndexReq fresh c req) ap = Some (index_document en fresh c req ap)"
| "handle en (UpsertReq c i req) ap = Some (upsert_document en c i req ap)"
| "handle en (GetReq tim c i level session) ap = get_document_h en tim c i level session ap"
| "handle en (DeleteReq c i) ap = Some (delete_document_h en c i ap)"
| "handle en (CreateReq c body) ap = Some (create_collection en c body ap)"
| "handle en (CreateAliasReq a ts) ap = Some (create_alias en a ts ap)"
| "handle en (DeleteAliasReq a) ap = Some (delete_alias en a ap)"

text \<open>A read names a collection without a NUL byte, the separator of the cache keys.\<close>

fun plain_request :: "'n request \<Rightarrow> bool" where
  "plain_request (GetReq tim c i level session) \<longleftrightarrow> CHR 0x00 \<notin> set c"
| "plain_request _ \<longleftrightarrow> True"

primrec serve :: "('w, 's, 'sc, 'ch, 'c, 'n) env \<Rightarrow> 'n request list \<Rightarrow> ('w, 'ch, 'c) app_state \<Rightarrow> ('w, 'ch, 'c) app_state option" where
  "serve en [] ap = Some ap"
| "serve en (q # qs) ap = (case handle en q ap of None \<Rightarrow> None | Some (ap1, _) \<Rightarrow> serve en qs ap1)"

text \<open>The outcome of a document write that consensus accepted.\<close>

lemma index_document_ok:
  assumes "fmlookup (ap_collections ap) c = Some meta"
    and "request_to_document (en_json en) (en_iter_json en) fresh req = doc"
    and "validate_and_update_mapping (en_iter_fields en) doc (cm_mapping meta) = Inr m"
    and "ap_propose en (InsertDocument c doc) ap = (ap\<lparr>ap_world := w\<rparr>, Inr r)"
  shows "\<exists>ap' token. index_document en fresh c req ap = (ap', \<lparr>rs_status = CREATED, rs_session = Some token,
      rs_body = IndexBody \<lparr>ir_id = as_str (doc_id doc), ir_result = ''created'', ir_version = 1\<rparr>\<rparr>) \<and>
    ap_world ap' = w \<and> ap_node ap' = ap_node ap \<and> ap_coordinator ap' = ap_coordinator ap \<and>
    ap_cache ap' = cache_invalidate (en_moka en) (ap_cache ap) c (doc_id doc) \<and>
    ap_collections ap' = fmupd c (meta\<lparr>cm_doc_count := cm_doc_count meta + 1, cm_mapping := m\<rparr>) (ap_collections ap) \<and>
    token = token_encode (token_new (applied_index (ap_sessions ap) + 1))"
  unfolding index_document_def ap_token_def Let_def assms(2) using assms(1,3,4)
  by (simp add: current_applied_index_def)

lemma upsert_document_ok:
  assumes "fmlookup (ap_collections ap) c = Some meta"
    and "set_json_fields (en_json en) (en_iter_json en (idr_fields req)) (doc_new (DocumentId i)) = doc"
    and "ap_propose en (UpdateDocument c doc) ap = (ap\<lparr>ap_world := w\<rparr>, Inr r)"
  shows "\<exists>ap' resp. upsert_document en c i req ap = (ap', resp) \<and> rs_status resp = OK \<and>
    ap_world ap' = w \<and> ap_node ap' = ap_node ap \<and> ap_collections ap' = ap_collections ap \<and>
    ap_cache ap' = cache_invalidate (en_moka en) (ap_cache ap) c (doc_id doc)"
  unfolding upsert_document_def ap_token_def Let_def assms(2) using assms(1,3) by simp

lemma delete_document_ok:
  assumes "fmlookup (ap_collections ap) c = Some meta"
    and "ap_propose en (DeleteDocument c (DocumentId i)) ap = (ap\<lparr>ap_world := w\<rparr>, Inr r)"
  shows "\<exists>ap' resp. delete_document_h en c i ap = (ap', resp) \<and> rs_status resp = OK \<and>
    ap_world ap' = w \<and> ap_node ap' = ap_node ap \<and>
    ap_cache ap' = cache_invalidate (en_moka en) (ap_cache ap) c (DocumentId i)"
  unfolding delete_document_h_def ap_token_def Let_def using assms by simp

lemma error_out_status [simp]: "rs_status (error_out e) \<noteq> OK" "rs_status (error_out e) \<noteq> CREATED"
  by (cases e; simp add: error_out_def)+

text \<open>A read from one replica.\<close>

lemma merge_self [simp]: "merge v v = v"
proof -
  have "fmlookup (clocks (merge v v)) k = fmlookup (clocks v) k" for k
    by (simp add: clocks_merge_lookup merge_entry_def Let_def split: option.splits)
  then have "clocks (merge v v) = clocks v" by (rule fmap_ext)
  then show ?thesis by (cases v, cases "merge v v") simp
qed

lemma resolve_single:
  "\<exists>res. resolve rc [r] One = Inr res \<and> res_document res = rr_document r \<and> res_version res = rr_version r"
  by (simp add: resolve_def validate_response_count_def pick_winner_def Let_def)

lemma single_node_required: "\<not> 1 < required_responses level (min rf 1)"
proof -
  have "unat (min rf (1 :: u8)) \<le> 1" by (metis min.cobounded2 unat_1 word_le_nat_alt)
  then show ?thesis by (cases level) (simp_all add: not_less)
qed

lemma spec_read_insert:
  "spec_read (fst (spec_command (InsertDocument c d) a)) (Some c') i =
    (if c' = c \<and> i = doc_id d \<and> a (Some c) \<noteq> None then Some d else spec_read a (Some c') i)"
  by (auto simp: spec_read_def Let_def split: option.splits intro: document_id.expand)

lemma spec_read_update:
  "spec_read (fst (spec_command (UpdateDocument c d) a)) (Some c') i =
    (if c' = c \<and> i = doc_id d \<and> a (Some c) \<noteq> None then Some d else spec_read a (Some c') i)"
  by (auto simp: spec_read_def Let_def split: option.splits intro: document_id.expand)

lemma spec_read_delete:
  "spec_read (fst (spec_command (DeleteDocument c j) a)) (Some c') i =
    (if c' = c \<and> i = j then None else spec_read a (Some c') i)"
  by (auto simp: spec_read_def Let_def split: option.splits intro: document_id.expand)

lemma spec_read_create:
  "spec_read (fst (spec_command (CreateCollection c sc) a)) (Some c') i = spec_read a (Some c') i"
  by (auto simp: spec_read_def split: option.splits)

declare spec_command.simps [simp del]

lemmas spec_read_commands = spec_read_insert spec_read_update spec_read_delete spec_read_create

text \<open>
  The invariant of a node over a store with invariant \<open>okay\<close> and contents \<open>view\<close>: the cache holds
  current documents only, and every document is stored under its id.
\<close>

definition node_inv :: "('s \<Rightarrow> bool) \<Rightarrow> ('s \<Rightarrow> store_spec) \<Rightarrow> ('w, 's, 'sc, 'ch, 'c, 'n) env \<Rightarrow> ('w, 'ch, 'c) app_state \<Rightarrow> bool" where
  "node_inv okay view en ap \<longleftrightarrow> okay (en_local en (ap_world ap)) \<and>
     (\<forall>c i d. CHR 0x00 \<notin> set c \<longrightarrow> cached (en_moka en) (ap_cache ap) c i = Some d \<longrightarrow>
        spec_read (view (en_local en (ap_world ap))) (Some c) i = Some d) \<and>
     (\<forall>c i d. spec_read (view (en_local en (ap_world ap))) (Some c) i = Some d \<longrightarrow> doc_id d = i)"

text \<open>A store whose reads are also exact.\<close>

locale readable_store = collection_store inv abs st
  for inv :: "'s \<Rightarrow> bool" and abs :: "'s \<Rightarrow> store_spec" and st :: "'s storage_ops" +
  assumes read_exact: "inv s \<Longrightarrow> st_get_from_collection st c j s = Inr d \<longleftrightarrow> spec_read (abs s) (Some c) j = Some d"
begin

lemma commit_step:
  assumes "commits_locally en ix ixof n" "en_storage en = st" "inv (en_local en w)"
  shows "\<exists>w' r. ra_client_write (en_raft en) n cmd w = (w', Inr r) \<and> inv (en_local en w') \<and>
    (abs (en_local en w'), r) = spec_command cmd (abs (en_local en w))"
proof -
  obtain w' r where w: "ra_client_write (en_raft en) n cmd w = (w', Inr r)"
    "apply_command st ix cmd (en_local en w) (ixof w) = (en_local en w', ixof w', r)"
    using assms(1) unfolding commits_locally_def assms(2) by blast
  from apply_command_refines [OF assms(3), of ix cmd "ixof w"] w show ?thesis by auto
qed

lemma propose_step:
  assumes "commits_locally en ix ixof (ap_node ap)" "en_storage en = st" "node_inv inv abs en ap"
  shows "\<exists>w' r. ap_propose en cmd ap = (ap\<lparr>ap_world := w'\<rparr>, Inr r) \<and> inv (en_local en w') \<and>
    (abs (en_local en w'), r) = spec_command cmd (abs (en_local en (ap_world ap)))"
proof -
  have "inv (en_local en (ap_world ap))" using assms(3) by (simp add: node_inv_def)
  from commit_step [OF assms(1,2) this, of cmd] obtain w' r where
    w: "ra_client_write (en_raft en) (ap_node ap) cmd (ap_world ap) = (w', Inr r)" "inv (en_local en w')"
      "(abs (en_local en w'), r) = spec_command cmd (abs (en_local en (ap_world ap)))" by blast
  have "ap_propose en cmd ap = (ap\<lparr>ap_world := w'\<rparr>, Inr r)"
    by (simp add: ap_propose_def propose_or_forward_leader [OF w(1)])
  with w(2,3) show ?thesis by blast
qed

lemma alias_step:
  assumes "commits_locally en ix ixof (ap_node ap)" "en_storage en = st" "node_inv inv abs en ap"
  shows "\<exists>w' r. propose (en_raft en) (ap_node ap) cmd (ap_world ap) = (w', Inr r) \<and> inv (en_local en w') \<and>
    (abs (en_local en w'), r) = spec_command cmd (abs (en_local en (ap_world ap)))"
proof -
  have "inv (en_local en (ap_world ap))" using assms(3) by (simp add: node_inv_def)
  from commit_step [OF assms(1,2) this, of cmd] show ?thesis by (auto simp: propose_def)
qed

text \<open>A write of one document followed by the invalidation of its cache entry.\<close>

lemma node_inv_write:
  assumes "moka_laws (en_moka en)" "node_inv inv abs en ap" "inv (en_local en (ap_world ap'))"
    and "\<And>c' i. (c', i) \<noteq> (c, j) \<Longrightarrow>
      spec_read (abs (en_local en (ap_world ap'))) (Some c') i = spec_read (abs (en_local en (ap_world ap))) (Some c') i"
    and "\<And>d. spec_read (abs (en_local en (ap_world ap'))) (Some c) j = Some d \<Longrightarrow> doc_id d = j"
    and "ap_cache ap' = cache_invalidate (en_moka en) (ap_cache ap) c j"
  shows "node_inv inv abs en ap'"
  unfolding node_inv_def
proof (intro conjI allI impI)
  fix c' i d
  assume "CHR 0x00 \<notin> set c'" "cached (en_moka en) (ap_cache ap') c' i = Some d"
  with cached_invalidate [OF assms(1), of "ap_cache ap" c j c' i d] assms(6)
  have "(c', i) \<noteq> (c, j)" "cached (en_moka en) (ap_cache ap) c' i = Some d" by auto
  with assms(2,4) \<open>CHR 0x00 \<notin> set c'\<close> show "spec_read (abs (en_local en (ap_world ap'))) (Some c') i = Some d"
    unfolding node_inv_def by metis
next
  fix c' i d
  assume r: "spec_read (abs (en_local en (ap_world ap'))) (Some c') i = Some d"
  show "doc_id d = i"
  proof (cases "(c', i) = (c, j)")
    case False
    with assms(4) r have "spec_read (abs (en_local en (ap_world ap))) (Some c') i = Some d" by metis
    then show ?thesis using assms(2) by (auto simp: node_inv_def)
  qed (use assms(5) r in auto)
qed (rule assms(3))

lemma node_inv_same:
  assumes "node_inv inv abs en ap" "inv (en_local en (ap_world ap'))"
    and "\<And>c i. spec_read (abs (en_local en (ap_world ap'))) (Some c) i = spec_read (abs (en_local en (ap_world ap))) (Some c) i"
    and "ap_cache ap' = ap_cache ap"
  shows "node_inv inv abs en ap'"
  using assms unfolding node_inv_def by metis

lemma node_inv_cache:
  assumes "node_inv inv abs en ap" "ap_world ap' = ap_world ap"
    and "\<And>c i d. CHR 0x00 \<notin> set c \<Longrightarrow> cached (en_moka en) (ap_cache ap') c i = Some d \<Longrightarrow>
      cached (en_moka en) (ap_cache ap) c i = Some d \<or> spec_read (abs (en_local en (ap_world ap))) (Some c) i = Some d"
  shows "node_inv inv abs en ap'"
  using assms unfolding node_inv_def by metis

text \<open>What each command does to the documents that can be read.\<close>

lemma write_step:
  assumes "commits_locally en ix ixof (ap_node ap)" "en_storage en = st" "node_inv inv abs en ap"
    and "cmd = InsertDocument c d \<or> cmd = UpdateDocument c d"
  shows "\<exists>w' r. ap_propose en cmd ap = (ap\<lparr>ap_world := w'\<rparr>, Inr r) \<and> inv (en_local en w') \<and>
    (\<forall>c' i. spec_read (abs (en_local en w')) (Some c') i =
      (if c' = c \<and> i = doc_id d \<and> abs (en_local en (ap_world ap)) (Some c) \<noteq> None then Some d
       else spec_read (abs (en_local en (ap_world ap))) (Some c') i))"
proof -
  obtain w' r where w: "ap_propose en cmd ap = (ap\<lparr>ap_world := w'\<rparr>, Inr r)" "inv (en_local en w')"
    "(abs (en_local en w'), r) = spec_command cmd (abs (en_local en (ap_world ap)))"
    using propose_step [OF assms(1-3), of cmd] by blast
  have "abs (en_local en w') = fst (spec_command cmd (abs (en_local en (ap_world ap))))" by (metis fst_conv w(3))
  then show ?thesis using w(1,2) assms(4) by (auto simp: spec_read_insert spec_read_update)
qed

lemma remove_step:
  assumes "commits_locally en ix ixof (ap_node ap)" "en_storage en = st" "node_inv inv abs en ap"
  shows "\<exists>w' r. ap_propose en (DeleteDocument c j) ap = (ap\<lparr>ap_world := w'\<rparr>, Inr r) \<and> inv (en_local en w') \<and>
    (\<forall>c' i. spec_read (abs (en_local en w')) (Some c') i =
      (if c' = c \<and> i = j then None else spec_read (abs (en_local en (ap_world ap))) (Some c') i))"
proof -
  have "\<exists>w' r. ap_propose en (DeleteDocument c j) ap = (ap\<lparr>ap_world := w'\<rparr>, Inr r) \<and> inv (en_local en w') \<and>
      abs (en_local en w') = fst (spec_command (DeleteDocument c j) (abs (en_local en (ap_world ap))))"
    using propose_step [OF assms, of "DeleteDocument c j"] by (metis fst_conv spec_command.simps(3))
  then obtain w' r where "ap_propose en (DeleteDocument c j) ap = (ap\<lparr>ap_world := w'\<rparr>, Inr r)" "inv (en_local en w')"
    and a: "abs (en_local en w') = fst (spec_command (DeleteDocument c j) (abs (en_local en (ap_world ap))))" by blast
  then show ?thesis by (intro exI [of _ w'] exI [of _ r] conjI) (simp_all only: a spec_read_delete, blast)
qed

lemma create_step:
  assumes "commits_locally en ix ixof (ap_node ap)" "en_storage en = st" "node_inv inv abs en ap"
  shows "\<exists>w' r. ap_propose en (CreateCollection c sc) ap = (ap\<lparr>ap_world := w'\<rparr>, Inr r) \<and> inv (en_local en w') \<and>
    abs (en_local en w') (Some c) \<noteq> None \<and>
    (\<forall>c' i. spec_read (abs (en_local en w')) (Some c') i = spec_read (abs (en_local en (ap_world ap))) (Some c') i)"
proof -
  let ?a = "abs (en_local en (ap_world ap))"
  obtain w' r where "ap_propose en (CreateCollection c sc) ap = (ap\<lparr>ap_world := w'\<rparr>, Inr r)" "inv (en_local en w')"
    "abs (en_local en w') = (if ?a (Some c) = None then ?a(Some c \<mapsto> Map.empty) else ?a)"
    using propose_step [OF assms, of "CreateCollection c sc"] by (auto simp: spec_command.simps)
  then show ?thesis by (intro exI [of _ w'] exI [of _ r] conjI) (auto simp: spec_read_def split: option.splits if_splits)
qed

lemma alias_commands:
  assumes "commits_locally en ix ixof (ap_node ap)" "en_storage en = st" "node_inv inv abs en ap"
    and "cmd = CreateAlias al ts \<or> cmd = DeleteAlias al"
  shows "\<exists>w' r. propose (en_raft en) (ap_node ap) cmd (ap_world ap) = (w', Inr r) \<and> inv (en_local en w') \<and>
    abs (en_local en w') = abs (en_local en (ap_world ap))"
  using alias_step [OF assms(1-3), of cmd] assms(4) by (auto simp: spec_command.simps)

section \<open>Each handler keeps the invariant\<close>

lemma put_inv:
  assumes "moka_laws (en_moka en)" "node_inv inv abs en ap" "inv (en_local en (ap_world ap'))"
    and "\<forall>c' i. spec_read (abs (en_local en (ap_world ap'))) (Some c') i =
      (if c' = c \<and> i = doc_id d \<and> abs (en_local en (ap_world ap)) (Some c) \<noteq> None then Some d
       else spec_read (abs (en_local en (ap_world ap))) (Some c') i)"
    and "ap_cache ap' = cache_invalidate (en_moka en) (ap_cache ap) c (doc_id d)"
  shows "node_inv inv abs en ap'"
proof (rule node_inv_write [OF assms(1-3) _ _ assms(5)])
  show "doc_id d' = doc_id d" if "spec_read (abs (en_local en (ap_world ap'))) (Some c) (doc_id d) = Some d'" for d'
    using that assms(2,4) by (auto simp: node_inv_def split: if_splits)
qed (use assms(4) in auto)

lemma index_document_inv:
  assumes L: "commits_locally en ix ixof (ap_node ap)" "en_storage en = st" "moka_laws (en_moka en)" and "node_inv inv abs en ap"
    and "index_document en fresh c req ap = (ap', resp)"
  shows "node_inv inv abs en ap' \<and> ap_node ap' = ap_node ap"
proof (cases "fmlookup (ap_collections ap) c")
  case None
  then show ?thesis using assms(4,5) by (auto simp: index_document_def)
next
  case (Some meta)
  define doc where "doc = request_to_document (en_json en) (en_iter_json en) fresh req"
  show ?thesis
  proof (cases "validate_and_update_mapping (en_iter_fields en) doc (cm_mapping meta)")
    case (Inl e)
    then show ?thesis using Some assms(4,5) unfolding index_document_def Let_def doc_def [symmetric] by auto
  next
    case (Inr m)
    obtain w' r where w: "ap_propose en (InsertDocument c doc) ap = (ap\<lparr>ap_world := w'\<rparr>, Inr r)" "inv (en_local en w')"
      "\<forall>c' i. spec_read (abs (en_local en w')) (Some c') i =
        (if c' = c \<and> i = doc_id doc \<and> abs (en_local en (ap_world ap)) (Some c) \<noteq> None then Some doc
         else spec_read (abs (en_local en (ap_world ap))) (Some c') i)"
      using write_step [OF L(1,2) assms(4) disjI1 [OF refl]] by blast
    have ap': "ap_world ap' = w'" "ap_cache ap' = cache_invalidate (en_moka en) (ap_cache ap) c (doc_id doc)"
      "ap_node ap' = ap_node ap"
      using index_document_ok [OF Some doc_def [symmetric] Inr w(1)] assms(5) by auto
    have "node_inv inv abs en ap'" by (rule put_inv [OF L(3) assms(4), of _ c doc]) (simp_all only: ap' w, simp)
    then show ?thesis using ap' by simp
  qed
qed

lemma upsert_document_inv:
  assumes L: "commits_locally en ix ixof (ap_node ap)" "en_storage en = st" "moka_laws (en_moka en)" and "node_inv inv abs en ap"
    and "upsert_document en c i req ap = (ap', resp)"
  shows "node_inv inv abs en ap' \<and> ap_node ap' = ap_node ap"
proof (cases "fmlookup (ap_collections ap) c")
  case None
  then show ?thesis using assms(4,5) by (auto simp: upsert_document_def)
next
  case (Some meta)
  define doc where "doc = set_json_fields (en_json en) (en_iter_json en (idr_fields req)) (doc_new (DocumentId i))"
  obtain w' r where w: "ap_propose en (UpdateDocument c doc) ap = (ap\<lparr>ap_world := w'\<rparr>, Inr r)" "inv (en_local en w')"
    "\<forall>c' i. spec_read (abs (en_local en w')) (Some c') i =
      (if c' = c \<and> i = doc_id doc \<and> abs (en_local en (ap_world ap)) (Some c) \<noteq> None then Some doc
       else spec_read (abs (en_local en (ap_world ap))) (Some c') i)"
    using write_step [OF L(1,2) assms(4) disjI2 [OF refl]] by blast
  have ap': "ap_world ap' = w'" "ap_cache ap' = cache_invalidate (en_moka en) (ap_cache ap) c (doc_id doc)"
    "ap_node ap' = ap_node ap"
    using upsert_document_ok [OF Some doc_def [symmetric] w(1)] assms(5) by auto
  have "node_inv inv abs en ap'" by (rule put_inv [OF L(3) assms(4), of _ c doc]) (simp_all only: ap' w, simp)
  then show ?thesis using ap' by simp
qed

lemma delete_document_inv:
  assumes L: "commits_locally en ix ixof (ap_node ap)" "en_storage en = st" "moka_laws (en_moka en)" and "node_inv inv abs en ap"
    and "delete_document_h en c i ap = (ap', resp)"
  shows "node_inv inv abs en ap' \<and> ap_node ap' = ap_node ap"
proof (cases "fmlookup (ap_collections ap) c")
  case None
  then show ?thesis using assms(4,5) by (auto simp: delete_document_h_def)
next
  case (Some meta)
  obtain w' r where w: "ap_propose en (DeleteDocument c (DocumentId i)) ap = (ap\<lparr>ap_world := w'\<rparr>, Inr r)" "inv (en_local en w')"
    "\<forall>c' j. spec_read (abs (en_local en w')) (Some c') j =
      (if c' = c \<and> j = DocumentId i then None else spec_read (abs (en_local en (ap_world ap))) (Some c') j)"
    using remove_step [OF L(1,2) assms(4)] by blast
  have ap': "ap_world ap' = w'" "ap_cache ap' = cache_invalidate (en_moka en) (ap_cache ap) c (DocumentId i)"
    "ap_node ap' = ap_node ap"
    using delete_document_ok [OF Some w(1)] assms(5) by auto
  have "node_inv inv abs en ap'"
    by (rule node_inv_write [OF L(3) assms(4), where c = c and j = "DocumentId i"]) (auto simp: ap' w)
  then show ?thesis using ap' by simp
qed

lemma create_collection_inv:
  assumes L: "commits_locally en ix ixof (ap_node ap)" "en_storage en = st" and "node_inv inv abs en ap"
    and "create_collection en c body ap = (ap', resp)"
  shows "node_inv inv abs en ap' \<and> ap_node ap' = ap_node ap"
proof (cases "fmlookup (ap_collections ap) c")
  case None
  obtain sc where sc: "\<And>q. (case Option.bind (cc_schema (case body of None \<Rightarrow> \<lparr>cc_schema = None, cc_settings = None\<rparr> | Some b \<Rightarrow> b)) (en_schema en) of
      Some s \<Rightarrow> s | None \<Rightarrow> en_schema_default en) = sc" by blast
  obtain w' r where w: "ap_propose en (CreateCollection c sc) ap = (ap\<lparr>ap_world := w'\<rparr>, Inr r)" "inv (en_local en w')"
    "\<forall>c' i. spec_read (abs (en_local en w')) (Some c') i = spec_read (abs (en_local en (ap_world ap))) (Some c') i"
    using create_step [OF L assms(3), of c sc] by blast
  have "ap_world ap' = w'" "ap_cache ap' = ap_cache ap" "ap_node ap' = ap_node ap"
    using assms(4) None w(1) by (auto simp: create_collection_def Let_def sc)
  then show ?thesis using node_inv_same [OF assms(3), of ap'] w by simp
next
  case (Some m)
  then show ?thesis using assms(3,4) by (auto simp: create_collection_def Let_def)
qed

lemma create_alias_inv:
  assumes L: "commits_locally en ix ixof (ap_node ap)" "en_storage en = st" and "node_inv inv abs en ap"
    and "create_alias en a ts ap = (ap', resp)"
  shows "node_inv inv abs en ap' \<and> ap_node ap' = ap_node ap"
proof -
  obtain w' r where w: "propose (en_raft en) (ap_node ap) (CreateAlias a ts) (ap_world ap) = (w', Inr r)" "inv (en_local en w')"
    "abs (en_local en w') = abs (en_local en (ap_world ap))"
    using alias_commands [OF L assms(3) disjI1 [OF refl]] by blast
  from assms(4) w(1) have "(ap_world ap' = w' \<or> ap_world ap' = ap_world ap) \<and> ap_cache ap' = ap_cache ap \<and> ap_node ap' = ap_node ap"
    by (auto simp: create_alias_def split: if_splits option.splits)
  then show ?thesis using w(2,3) assms(3) node_inv_same [OF assms(3), of ap'] by (auto simp: node_inv_def)
qed

lemma delete_alias_inv:
  assumes L: "commits_locally en ix ixof (ap_node ap)" "en_storage en = st" and "node_inv inv abs en ap"
    and "delete_alias en a ap = (ap', resp)"
  shows "node_inv inv abs en ap' \<and> ap_node ap' = ap_node ap"
proof -
  obtain w' r where w: "propose (en_raft en) (ap_node ap) (DeleteAlias a) (ap_world ap) = (w', Inr r)" "inv (en_local en w')"
    "abs (en_local en w') = abs (en_local en (ap_world ap))"
    using alias_commands [OF L assms(3) disjI2 [OF refl]] by blast
  from assms(4) w(1) have "(ap_world ap' = w' \<or> ap_world ap' = ap_world ap) \<and> ap_cache ap' = ap_cache ap \<and> ap_node ap' = ap_node ap"
    by (auto simp: delete_alias_def split: if_splits option.splits)
  then show ?thesis using w(2,3) assms(3) node_inv_same [OF assms(3), of ap'] by (auto simp: node_inv_def)
qed

text \<open>A read answers with the stored document, from the cache or from the store.\<close>

lemma read_document_correct:
  assumes "en_storage en = st" "moka_laws (en_moka en)" "node_inv inv abs en ap" "CHR 0x00 \<notin> set c"
    and "read_document en c i level ap = (ap', resp)"
  shows "node_inv inv abs en ap' \<and> ap_node ap' = ap_node ap \<and> ap_world ap' = ap_world ap \<and>
    (case spec_read (abs (en_local en (ap_world ap))) (Some c) (DocumentId i) of
       Some d \<Rightarrow> \<exists>hit. resp = \<lparr>rs_status = OK, rs_session = None,
         rs_body = DocBody i (fields_to_value (en_json en) (doc_fields d)) (total (doc_version d)) (consistency_level_display level) hit\<rparr>
     | None \<Rightarrow> rs_status resp \<noteq> OK)"
proof -
  let ?a = "abs (en_local en (ap_world ap))"
  obtain dc r where g: "cache_get (en_moka en) (ap_cache ap) c (DocumentId i) = (dc, r)" by fastforce
  note dc = cache_getD [OF assms(2) g]
  have keep: "node_inv inv abs en (ap\<lparr>ap_cache := dc\<rparr>)"
    by (rule node_inv_cache [OF assms(3)]) (auto dest: dc(2))
  have own: "doc_id d = j" if "spec_read ?a (Some c) j = Some d" for d j
    using that assms(3) by (auto simp: node_inv_def)
  show ?thesis
  proof (cases r)
    case (Some d)
    then have sp: "spec_read ?a (Some c) (DocumentId i) = Some d"
      using dc(1) [of d] assms(3,4) by (auto simp: node_inv_def)
    with own [OF sp] keep assms(5) show ?thesis by (auto simp: read_document_def g Some)
  next
    case None
    show ?thesis
    proof (cases "st_get_from_collection st c (DocumentId i) (en_local en (ap_world ap))")
      case (Inr d)
      then have sp: "spec_read ?a (Some c) (DocumentId i) = Some d"
        using read_exact [of "en_local en (ap_world ap)" c "DocumentId i" d] assms(3) by (auto simp: node_inv_def)
      have put: "node_inv inv abs en (ap\<lparr>ap_cache := cache_put (en_moka en) dc c d\<rparr>)"
      proof (rule node_inv_cache [OF assms(3)])
        fix c' i' e
        assume "CHR 0x00 \<notin> set c'" "cached (en_moka en) (ap_cache (ap\<lparr>ap_cache := cache_put (en_moka en) dc c d\<rparr>)) c' i' = Some e"
        with cached_put [OF assms(2) _ assms(4), of dc d c' i' e]
        have "c' = c \<and> i' = doc_id d \<and> e = d \<or> cached (en_moka en) dc c' i' = Some e" by simp
        then show "cached (en_moka en) (ap_cache ap) c' i' = Some e \<or> spec_read ?a (Some c') i' = Some e"
          using sp own [OF sp] dc(2) by auto
      qed simp
      obtain res where res: "resolve (ap_coordinator ap) [\<lparr>rr_node_id = NodeId (ap_node ap), rr_document = d, rr_version = doc_version d\<rparr>] One = Inr res"
        "res_document res = d" "res_version res = doc_version d"
        using resolve_single [of "ap_coordinator ap" "\<lparr>rr_node_id = NodeId (ap_node ap), rr_document = d, rr_version = doc_version d\<rparr>"] by auto
      have nr: "\<not> 1 < required_responses level (min (rc_replication_factor (ap_coordinator ap)) 1)"
        by (rule single_node_required)
      have "ap' = ap\<lparr>ap_cache := cache_put (en_moka en) dc c d\<rparr>"
        "resp = \<lparr>rs_status = OK, rs_session = None,
          rs_body = DocBody i (fields_to_value (en_json en) (doc_fields d)) (total (doc_version d)) (consistency_level_display level) False\<rparr>"
        using assms(5) own [OF sp] nr res unfolding read_document_def g None assms(1) Let_def by (auto simp: Inr)
      then show ?thesis using put sp by auto
    next
      case (Inl e)
      then have sp: "spec_read ?a (Some c) (DocumentId i) = None"
        using read_exact [of "en_local en (ap_world ap)" c "DocumentId i"] assms(3)
        by (cases "spec_read ?a (Some c) (DocumentId i)") (auto simp: node_inv_def)
      have "ap' = ap\<lparr>ap_cache := dc\<rparr>" "rs_status resp \<noteq> OK"
        using assms(5) unfolding read_document_def g None assms(1)
        by (cases e; auto simp: Inl)+
      then show ?thesis using keep sp by simp
    qed
  qed
qed

lemma get_document_inv:
  assumes "en_storage en = st" "moka_laws (en_moka en)" "node_inv inv abs en ap" "CHR 0x00 \<notin> set c"
    and "get_document_h en tim c i level session ap = Some (ap', resp)"
  shows "node_inv inv abs en ap' \<and> ap_node ap' = ap_node ap"
proof (cases "\<exists>lv. read_document en c i lv ap = (ap', resp)")
  case True
  then show ?thesis using read_document_correct [OF assms(1-4)] by blast
next
  case False
  then have "ap' = ap" using assms(5) unfolding get_document_h_def Let_def
    by (auto split: if_splits option.splits sum.splits)
  then show ?thesis using assms(3) by simp
qed

lemma handle_inv:
  assumes L: "commits_locally en ix ixof (ap_node ap)" "en_storage en = st" "moka_laws (en_moka en)" and "node_inv inv abs en ap"
    and "plain_request q" "handle en q ap = Some (ap', resp)"
  shows "node_inv inv abs en ap' \<and> ap_node ap' = ap_node ap"
proof (cases q)
  case (IndexReq fresh c req)
  then show ?thesis using assms index_document_inv [OF assms(1-4)] by simp
next
  case (UpsertReq c i req)
  then show ?thesis using assms upsert_document_inv [OF assms(1-4)] by simp
next
  case (GetReq tim c i level session)
  then show ?thesis using assms get_document_inv [OF assms(2-4), of c tim i level session ap' resp] by simp
next
  case (DeleteReq c i)
  then show ?thesis using assms delete_document_inv [OF assms(1-4)] by simp
next
  case (CreateReq c body)
  then show ?thesis using assms create_collection_inv [OF assms(1,2,4)] by simp
next
  case (CreateAliasReq a ts)
  then show ?thesis using assms create_alias_inv [OF assms(1,2,4)] by simp
next
  case (DeleteAliasReq a)
  then show ?thesis using assms delete_alias_inv [OF assms(1,2,4)] by simp
qed

lemma serve_inv:
  "commits_locally en ix ixof (ap_node ap) \<Longrightarrow> en_storage en = st \<Longrightarrow> moka_laws (en_moka en) \<Longrightarrow> node_inv inv abs en ap \<Longrightarrow>
    list_all plain_request qs \<Longrightarrow> serve en qs ap = Some ap' \<Longrightarrow> node_inv inv abs en ap' \<and> ap_node ap' = ap_node ap"
proof (induction qs arbitrary: ap)
  case (Cons q qs)
  obtain ap1 resp where q: "handle en q ap = Some (ap1, resp)" "serve en qs ap1 = Some ap'"
    using Cons.prems(6) by (auto split: option.splits)
  have 1: "node_inv inv abs en ap1" "ap_node ap1 = ap_node ap"
    using handle_inv [OF Cons.prems(1-4) _ q(1)] Cons.prems(5) by auto
  with Cons.IH [OF _ Cons.prems(2,3) 1(1) _ q(2)] Cons.prems(1,5) show ?case by simp
qed simp

end

interpretation rocks_node: readable_store "\<lambda>s. rocks_laws rk \<and> codec_laws cd \<and> rs_inv rk cd s" "rs_abs rk cd" "rocks_ops rk cd"
  for rk cd
proof
  fix s c j d
  assume "rocks_laws rk \<and> codec_laws cd \<and> rs_inv rk cd s"
  then show "st_get_from_collection (rocks_ops rk cd) c j s = Inr d \<longleftrightarrow> spec_read (rs_abs rk cd s) (Some c) j = Some d"
    using rs_read_exact [of rk cd s "Some c" j d] by (simp add: rs_read_def rocks_ops_def)
qed

end
