(* ===== verification/Node_Consistency.thy ===== *)
theory Node_Consistency
  imports Handlers
begin

text \<open>
  What a client of the document handlers can rely on, and where it cannot: reads of a node that
  leads are current (the cache never shows an outdated document after single-document writes), a
  write is read back with its session token, but dropping a collection leaves its documents in
  the cache, a failed write is reported as created, and a session token is of no use on another
  node. Bulk requests are in \<open>Bulk\<close>.
\<close>

section \<open>Lemmas\<close>

lemma token_decode_encode: "token_decode (token_encode t) = Some t"
  by (simp add: token_decode_def token_encode_def strip_prefix_def)

lemma wait_loop_timeout_from:
  assumes "deadline \<le> clock k" "\<And>j. j < k \<Longrightarrow> clock j < deadline" "\<And>n. \<not> target \<le> load n"
  shows "n \<le> k \<Longrightarrow> \<exists>msg. wait_loop load load_msg clock deadline target n = Some (Inl (ConsistencyError msg))"
proof (induction "k - n" arbitrary: n)
  case 0
  then show ?case using assms by (subst wait_loop.simps) auto
next
  case (Suc x)
  then have "n < k" by simp
  then show ?case using Suc.hyps(1) [of "Suc n"] Suc.hyps(2) assms(2) [of n] assms(3)
    by (subst wait_loop.simps) auto
qed

lemmas wait_loop_timeout = wait_loop_timeout_from [where n = 0, OF _ _ _ le0]

lemma node_inv_rocks:
  assumes "rocks_laws rk" "codec_laws cd"
  shows "node_inv (\<lambda>s. rocks_laws rk \<and> codec_laws cd \<and> rs_inv rk cd s) view en ap \<longleftrightarrow> node_inv (rs_inv rk cd) view en ap"
  using assms by (simp add: node_inv_def)

lemma get_document_h_ok:
  assumes "fmlookup (ap_collections ap) c = Some meta"
    and "\<And>t. Option.bind session token_decode = Some t \<Longrightarrow> committed_index t \<le> applied_index (ap_sessions ap)"
  shows "get_document_h en tim c i level session ap =
    Some (read_document en c i (case level of Some s \<Rightarrow> from_str_param s | None \<Rightarrow> Quorum) ap)"
  using assms by (auto simp: get_document_h_def wait_for_index_def current_applied_index_def Let_def split: option.splits)

lemma index_document_session:
  assumes "index_document en fresh c req ap = (ap', resp)" "rs_status resp = CREATED"
  shows "rs_session resp = Some (token_encode (token_new (applied_index (ap_sessions ap) + 1)))"
    and "applied_index (ap_sessions ap') = max (applied_index (ap_sessions ap)) (applied_index (ap_sessions ap) + 1)"
proof -
  have ps: "ap_sessions ap1 = ap_sessions ap" if "ap_propose en cmd ap = (ap1, r)" for cmd ap1 r
    using that by (auto simp: ap_propose_def Let_def split: prod.splits)
  have wf: "rs_status (write_failed e) \<noteq> CREATED" for e :: db_error
    by (cases e) (simp_all add: write_failed_def)
  show "rs_session resp = Some (token_encode (token_new (applied_index (ap_sessions ap) + 1)))"
    and "applied_index (ap_sessions ap') = max (applied_index (ap_sessions ap)) (applied_index (ap_sessions ap) + 1)"
    using assms ps unfolding index_document_def ap_token_def Let_def
    by (auto simp: no_collection_def wf current_applied_index_def advance_applied_index_def
        split: if_splits sum.splits prod.splits option.splits)
qed

lemma ap_propose_commit:
  assumes "rocks_laws rk" "codec_laws cd" "en_storage en = rocks_ops rk cd" "commits_locally en ix ixof (ap_node ap)"
    and "rs_inv rk cd (en_local en (ap_world ap))"
  shows "\<exists>w r. ap_propose en cmd ap = (ap\<lparr>ap_world := w\<rparr>, Inr r) \<and> rs_inv rk cd (en_local en w) \<and>
    (rs_abs rk cd (en_local en w), r) = spec_command cmd (rs_abs rk cd (en_local en (ap_world ap)))"
proof -
  obtain w r where w: "ra_client_write (en_raft en) (ap_node ap) cmd (ap_world ap) = (w, Inr r)" "rs_inv rk cd (en_local en w)"
    "(rs_abs rk cd (en_local en w), r) = spec_command cmd (rs_abs rk cd (en_local en (ap_world ap)))"
    using rocks_node.commit_step [OF assms(4,3), of "ap_world ap" cmd] assms(1,2,5) by blast
  then show ?thesis by (auto simp: ap_propose_def propose_or_forward_leader [OF w(1)])
qed

lemma no_document:
  assumes "rocks_laws rk" "rs_inv rk cd s" "rs_abs rk cd s (Some c) = None \<or> rs_abs rk cd s (Some c) = Some Map.empty"
  shows "sb_get_from_collection rk cd c j s \<noteq> Inr d"
  using rs_read_exact [OF assms(1,2), of "Some c" j d] assms(3) by (auto simp: rs_read_def spec_read_def)

section \<open>An example node\<close>

text \<open>
  A cluster of one node with a RocksDB store on the in-memory engine and no index; the state of
  the cluster is the store.
\<close>

type_synonym demo_store = "(string, (blob, blob) fmap) fmap rocksdb_storage"

definition demo_raft :: "(demo_store \<times> unit, unit) raft_api" where
  "demo_raft = \<lparr>ra_client_write = (\<lambda>n cmd w.
       case apply_command (rocks_ops mem_engine unary_codec) noop_index cmd (fst w) (snd w) of (s, i, r) \<Rightarrow> ((s, i), Inr r)),
     ra_current_leader = (\<lambda>n w. Some 1), ra_nodes = (\<lambda>n w. [(1, ''localhost:9300'')])\<rparr>"

definition demo_net :: "(demo_store \<times> unit, unit, unit) net_api" where
  "demo_net = \<lparr>na_connect = (\<lambda>a. Inr ()), na_now = 0,
     na_codec = \<lparr>enc_cmd = (\<lambda>_. Inl []), dec_cmd = (\<lambda>_. Inl [])\<rparr>, na_rpc = (\<lambda>ch b w. (w, Inl []))\<rparr>"

definition demo_env :: "(demo_store \<times> unit, demo_store, unit, unit, (string, document) fmap, f64) env" where
  "demo_env = \<lparr>en_raft = demo_raft, en_net = demo_net, en_moka = map_moka, en_json = bits_json,
     en_iter_json = btree_iter, en_iter_fields = btree_iter, en_storage = rocks_ops mem_engine unary_codec, en_local = fst,
     en_schema = (\<lambda>_. None), en_schema_default = (), en_settings = (\<lambda>_. None), en_settings_json = (\<lambda>_. None),
     en_mapping_json = (\<lambda>_. None)\<rparr>"

definition fresh_node :: "(demo_store \<times> unit, unit, (string, document) fmap) app_state" where
  "fresh_node = \<lparr>ap_node = 1, ap_collections = fmempty, ap_aliases = fmempty, ap_cache = with_defaults (\<lambda>_. fmempty),
     ap_sessions = session_manager_new, ap_coordinator = \<lparr>rc_replication_factor = 1\<rparr>, ap_pool = pool_new,
     ap_world = (sm_storage fresh_machine, ())\<rparr>"

definition demo_request :: "f64 index_document_request" where
  "demo_request = \<lparr>idr_id = Some ''1'', idr_fields = fmempty\<rparr>"

lemma demo_commits: "commits_locally demo_env noop_index snd n"
  by (auto simp: commits_locally_def demo_env_def demo_raft_def split: prod.splits)

lemma demo_env_simps [simp]:
  "en_storage demo_env = rocks_ops mem_engine unary_codec" "en_moka demo_env = map_moka" "en_json demo_env = bits_json"
  "en_iter_json demo_env = btree_iter" "en_iter_fields demo_env = btree_iter" "en_local demo_env = fst"
  by (simp_all add: demo_env_def)

lemma fresh_node_inv: "node_inv (rs_inv mem_engine unary_codec) (rs_abs mem_engine unary_codec) demo_env fresh_node"
  using fresh_machine_storage
  by (simp add: node_inv_def fresh_node_def cached_def map_moka_def with_defaults_def cache_new_def spec_read_def fresh_store_def)

text \<open>The node after the creation of the collection \<open>a\<close>.\<close>

lemma demo_collection:
  obtains ap where "create_collection demo_env ''a'' None fresh_node = (ap, \<lparr>rs_status = OK, rs_session = None,
      rs_body = CollectionBody \<lparr>ci_name = ''a'', ci_doc_count = 0, ci_mapping = None, ci_settings = None\<rparr>\<rparr>)"
    "node_inv (rs_inv mem_engine unary_codec) (rs_abs mem_engine unary_codec) demo_env ap" "ap_node ap = 1"
    "fmlookup (ap_collections ap) ''a'' = Some \<lparr>cm_name = ''a'', cm_doc_count = 0, cm_mapping = field_mapping_new, cm_settings = collection_settings_default\<rparr>"
    "rs_abs mem_engine unary_codec (fst (ap_world ap)) (Some ''a'') \<noteq> None" "ap_sessions ap = session_manager_new"
    "ap_cache ap = with_defaults (\<lambda>_. fmempty)"
proof -
  note inv = fresh_node_inv [unfolded node_inv_rocks [OF mem_engine_laws unary_codec_laws, symmetric]]
  obtain w r where w: "ap_propose demo_env (CreateCollection ''a'' ()) fresh_node = (fresh_node\<lparr>ap_world := w\<rparr>, Inr r)"
    "rs_abs mem_engine unary_codec (fst w) (Some ''a'') \<noteq> None"
    using rocks_node.create_step [OF demo_commits demo_env_simps(1) inv, of "''a''" "()"] by auto
  let ?ap = "fresh_node\<lparr>ap_world := w, ap_collections :=
      fmupd ''a'' \<lparr>cm_name = ''a'', cm_doc_count = 0, cm_mapping = field_mapping_new, cm_settings = collection_settings_default\<rparr> fmempty\<rparr>"
  have cc: "create_collection demo_env ''a'' None fresh_node = (?ap,
     \<lparr>rs_status = OK, rs_session = None, rs_body = CollectionBody \<lparr>ci_name = ''a'', ci_doc_count = 0, ci_mapping = None, ci_settings = None\<rparr>\<rparr>)"
    using w(1) by (simp add: create_collection_def Let_def fresh_node_def demo_env_def)
  have n: "node_inv (rs_inv mem_engine unary_codec) (rs_abs mem_engine unary_codec) demo_env ?ap"
    using rocks_node.create_collection_inv [OF demo_commits demo_env_simps(1) inv cc]
    unfolding node_inv_rocks [OF mem_engine_laws unary_codec_laws] by blast
  show ?thesis by (rule that [OF cc n]) (simp_all add: fresh_node_def w(2))
qed

lemma read_your_write:
  assumes "rocks_laws rk" "codec_laws cd" "moka_laws (en_moka en)" "en_storage en = rocks_ops rk cd"
    and "commits_locally en ix ixof (ap_node ap)" "node_inv (rs_inv rk cd) (rs_abs rk cd) en ap"
    and "fmlookup (ap_collections ap) c = Some meta" "rs_abs rk cd (en_local en (ap_world ap)) (Some c) \<noteq> None"
    and "request_to_document (en_json en) (en_iter_json en) fresh req = doc"
    and "validate_and_update_mapping (en_iter_fields en) doc (cm_mapping meta) = Inr m" "CHR 0x00 \<notin> set c"
  shows "\<exists>ap1 token body ap2 shown hit.
    index_document en fresh c req ap = (ap1, \<lparr>rs_status = CREATED, rs_session = Some token, rs_body = body\<rparr>) \<and>
    get_document_h en tim c (as_str (doc_id doc)) level (Some token) ap1 =
      Some (ap2, \<lparr>rs_status = OK, rs_session = None,
        rs_body = DocBody (as_str (doc_id doc)) (fields_to_value (en_json en) (doc_fields doc)) (total (doc_version doc)) shown hit\<rparr>)"
proof -
  note inv = assms(6) [unfolded node_inv_rocks [OF assms(1,2), symmetric]]
  obtain w r where w: "ap_propose en (InsertDocument c doc) ap = (ap\<lparr>ap_world := w\<rparr>, Inr r)"
    "spec_read (rs_abs rk cd (en_local en w)) (Some c) (doc_id doc) = Some doc"
    using rocks_node.write_step [OF assms(5,4) inv disjI1 [OF refl], of c doc] assms(8) by auto
  obtain ap1 token body where ix: "index_document en fresh c req ap = (ap1, \<lparr>rs_status = CREATED, rs_session = Some token, rs_body = body\<rparr>)"
    and ap1: "ap_world ap1 = w" "ap_node ap1 = ap_node ap" "token = token_encode (token_new (applied_index (ap_sessions ap) + 1))"
      "\<exists>m. fmlookup (ap_collections ap1) c = Some m"
    using index_document_ok [OF assms(7,9,10) w(1)] by auto
  have inv1: "node_inv (\<lambda>s. rocks_laws rk \<and> codec_laws cd \<and> rs_inv rk cd s) (rs_abs rk cd) en ap1"
    using rocks_node.index_document_inv [OF assms(5,4,3) inv ix] by blast
  have "applied_index (ap_sessions ap1) = max (applied_index (ap_sessions ap)) (applied_index (ap_sessions ap) + 1)"
    using index_document_session(2) [OF ix] by simp
  then have "applied_index (ap_sessions ap) + 1 \<le> applied_index (ap_sessions ap1)" by simp
  then have g: "get_document_h en tim c (as_str (doc_id doc)) level (Some token) ap1 =
      Some (read_document en c (as_str (doc_id doc)) (case level of Some s \<Rightarrow> from_str_param s | None \<Rightarrow> Quorum) ap1)"
    using ap1(4) by (auto intro!: get_document_h_ok simp: ap1(3) token_decode_encode token_new_def)
  obtain ap2 resp where rd: "read_document en c (as_str (doc_id doc)) (case level of Some s \<Rightarrow> from_str_param s | None \<Rightarrow> Quorum) ap1 = (ap2, resp)"
    by fastforce
  from rocks_node.read_document_correct [OF assms(4,3) inv1 assms(11) rd] w(2)
  have "\<exists>shown hit. resp = \<lparr>rs_status = OK, rs_session = None,
      rs_body = DocBody (as_str (doc_id doc)) (fields_to_value (en_json en) (doc_fields doc)) (total (doc_version doc)) shown hit\<rparr>"
    by (auto simp: ap1(1))
  with ix g rd show ?thesis by auto
qed

lemma btree_iter_fmempty: "btree_iter fmempty = []"
  using set_btree_iter [of "fmempty"] by simp

lemma demo_read_your_write:
  obtains ap ap1 ap2 body shown hit r1 where
    "create_collection demo_env ''a'' None fresh_node = (ap, r1)"
    "index_document demo_env ''new'' ''a'' demo_request ap = (ap1, \<lparr>rs_status = CREATED, rs_session = Some (token_encode (token_new 1)),
       rs_body = body\<rparr>)"
    "get_document_h demo_env tim ''a'' ''1'' None (Some (token_encode (token_new 1))) ap1 = Some (ap2, \<lparr>rs_status = OK, rs_session = None,
       rs_body = DocBody ''1'' (JObject fmempty) 0 shown hit\<rparr>)"
proof -
  obtain ap r1 where ap: "create_collection demo_env ''a'' None fresh_node = (ap, r1)"
    "node_inv (rs_inv mem_engine unary_codec) (rs_abs mem_engine unary_codec) demo_env ap" "ap_node ap = 1"
    "fmlookup (ap_collections ap) ''a'' = Some \<lparr>cm_name = ''a'', cm_doc_count = 0, cm_mapping = field_mapping_new, cm_settings = collection_settings_default\<rparr>"
    "rs_abs mem_engine unary_codec (fst (ap_world ap)) (Some ''a'') \<noteq> None" "ap_sessions ap = session_manager_new"
    by (rule demo_collection) blast
  have doc: "request_to_document (en_json demo_env) (en_iter_json demo_env) ''new'' demo_request = doc_new (DocumentId ''1'')"
    by (simp add: request_to_document_def demo_request_def set_json_fields_def btree_iter_fmempty)
  have val: "validate_and_update_mapping (en_iter_fields demo_env) (doc_new (DocumentId ''1'')) field_mapping_new = Inr field_mapping_new"
    by (simp add: validate_and_update_mapping_def doc_new_def btree_iter_fmempty)
  obtain ap1 token body ap2 shown hit where
    1: "index_document demo_env ''new'' ''a'' demo_request ap = (ap1, \<lparr>rs_status = CREATED, rs_session = Some token, rs_body = body\<rparr>)" and
    2: "get_document_h demo_env tim ''a'' ''1'' None (Some token) ap1 = Some (ap2, \<lparr>rs_status = OK, rs_session = None,
       rs_body = DocBody ''1'' (JObject fmempty) 0 shown hit\<rparr>)"
    using read_your_write [OF mem_engine_laws unary_codec_laws, of demo_env noop_index snd ap "''a''" _ "''new''" demo_request
        "doc_new (DocumentId ''1'')" field_mapping_new tim None] ap doc val demo_commits [of "ap_node ap"] map_moka_laws
    by (auto simp: doc_new_def fields_to_value_def total_def vc_new_def btree_iter_fmempty)
  have "token = token_encode (token_new 1)"
    using index_document_session(1) [OF 1] ap(6) by (simp add: session_manager_new_def)
  then show ?thesis using that ap(1) 1 2 by blast
qed

section \<open>Properties\<close>

text \<open>
  C5. Reads are current. A leading node over a RocksDB store that starts with a coherent cache and
  serves any sequence of document reads and writes, collection creations and alias changes answers
  a successful read with the document that is stored at that moment, whether it comes from the
  cache or from the store, and whatever the cache has evicted.
\<close>

theorem reads_are_current:
  assumes "rocks_laws rk" "codec_laws cd" "moka_laws (en_moka en)" "en_storage en = rocks_ops rk cd"
    and "commits_locally en ix ixof (ap_node ap)" "node_inv (rs_inv rk cd) (rs_abs rk cd) en ap"
    and "list_all plain_request qs" "serve en qs ap = Some ap'"
    and "CHR 0x00 \<notin> set c" "get_document_h en tim c i level session ap' = Some (ap'', resp)" "rs_status resp = OK"
  shows "\<exists>d shown hit. sb_get_from_collection rk cd c (DocumentId i) (en_local en (ap_world ap')) = Inr d \<and>
    rs_body resp = DocBody i (fields_to_value (en_json en) (doc_fields d)) (total (doc_version d)) shown hit"
proof -
  note inv = assms(6) [unfolded node_inv_rocks [OF assms(1,2), symmetric]]
  have inv': "node_inv (\<lambda>s. rocks_laws rk \<and> codec_laws cd \<and> rs_inv rk cd s) (rs_abs rk cd) en ap'"
    using rocks_node.serve_inv [OF assms(5,4,3) inv assms(7,8)] by blast
  obtain lv where lv: "read_document en c i lv ap' = (ap'', resp)"
    using assms(10,11) unfolding get_document_h_def Let_def
    by (auto simp: no_collection_def split: if_splits option.splits sum.splits)
  note r = rocks_node.read_document_correct [OF assms(4,3) inv' assms(9) lv]
  with assms(11) obtain d where d: "spec_read (rs_abs rk cd (en_local en (ap_world ap'))) (Some c) (DocumentId i) = Some d"
    by (cases "spec_read (rs_abs rk cd (en_local en (ap_world ap'))) (Some c) (DocumentId i)") auto
  have "rs_inv rk cd (en_local en (ap_world ap'))" using inv' by (simp add: node_inv_def)
  then have "sb_get_from_collection rk cd c (DocumentId i) (en_local en (ap_world ap')) = Inr d"
    using rs_read_exact [OF assms(1), of cd "en_local en (ap_world ap')" "Some c" "DocumentId i" d] d by (simp add: rs_read_def)
  with r d show ?thesis by auto
qed

theorem reads_are_current_witness:
  "\<exists>ap' ap'' resp d shown hit.
    serve demo_env [CreateReq ''a'' None, IndexReq ''new'' ''a'' demo_request] fresh_node = Some ap' \<and>
    get_document_h demo_env \<lparr>tl_start = 0, tl_load = (\<lambda>_. 0), tl_load_msg = (\<lambda>_. 0), tl_clock = (\<lambda>n. n)\<rparr> ''a'' ''1'' None
      (Some (token_encode (token_new 1))) ap' = Some (ap'', resp) \<and>
    sb_get_from_collection mem_engine unary_codec ''a'' (DocumentId ''1'') (fst (ap_world ap')) = Inr d \<and>
    rs_body resp = DocBody ''1'' (fields_to_value bits_json (doc_fields d)) (total (doc_version d)) shown hit"
proof -
  let ?tim = "\<lparr>tl_start = 0, tl_load = (\<lambda>_. 0), tl_load_msg = (\<lambda>_. 0), tl_clock = (\<lambda>n. n)\<rparr>"
  let ?qs = "[CreateReq ''a'' None, IndexReq ''new'' ''a'' demo_request]"
  obtain ap ap1 ap2 body shown hit r1 where
    1: "create_collection demo_env ''a'' None fresh_node = (ap, r1)"
    "index_document demo_env ''new'' ''a'' demo_request ap = (ap1, \<lparr>rs_status = CREATED, rs_session = Some (token_encode (token_new 1)), rs_body = body\<rparr>)"
    "get_document_h demo_env ?tim ''a'' ''1'' None (Some (token_encode (token_new 1))) ap1 = Some (ap2, \<lparr>rs_status = OK, rs_session = None,
       rs_body = DocBody ''1'' (JObject fmempty) 0 shown hit\<rparr>)"
    by (rule demo_read_your_write [of ?tim]) blast
  then have s: "serve demo_env ?qs fresh_node = Some ap1" by simp
  have plain: "list_all plain_request ?qs" "CHR 0x00 \<notin> set ''a''" by simp_all
  from reads_are_current [OF mem_engine_laws unary_codec_laws _ demo_env_simps(1) demo_commits fresh_node_inv plain(1) s plain(2) 1(3)] s 1(3)
  show ?thesis using map_moka_laws by auto
qed

text \<open>
  C20. A client reads its own write. When a leading node accepts a document for a collection that is
  registered and stored, it answers 201 with a session token, and a read with that token, at any
  consistency level, waits for nothing and returns the fields of the document.
\<close>

theorem index_then_get:
  assumes "rocks_laws rk" "codec_laws cd" "moka_laws (en_moka en)" "en_storage en = rocks_ops rk cd"
    and "commits_locally en ix ixof (ap_node ap)" "node_inv (rs_inv rk cd) (rs_abs rk cd) en ap"
    and "fmlookup (ap_collections ap) c = Some meta" "rs_abs rk cd (en_local en (ap_world ap)) (Some c) \<noteq> None"
    and "request_to_document (en_json en) (en_iter_json en) fresh req = doc"
    and "validate_and_update_mapping (en_iter_fields en) doc (cm_mapping meta) = Inr m" "CHR 0x00 \<notin> set c"
  shows "\<exists>ap1 token body ap2 shown hit.
    index_document en fresh c req ap = (ap1, \<lparr>rs_status = CREATED, rs_session = Some token, rs_body = body\<rparr>) \<and>
    get_document_h en tim c (as_str (doc_id doc)) level (Some token) ap1 =
      Some (ap2, \<lparr>rs_status = OK, rs_session = None,
        rs_body = DocBody (as_str (doc_id doc)) (fields_to_value (en_json en) (doc_fields doc)) (total (doc_version doc)) shown hit\<rparr>)"
  using assms by (rule read_your_write)

theorem index_then_get_witness:
  "\<exists>ap ap1 r1 token body ap2 shown hit.
    create_collection demo_env ''a'' None fresh_node = (ap, r1) \<and>
    index_document demo_env ''new'' ''a'' demo_request ap = (ap1, \<lparr>rs_status = CREATED, rs_session = Some token, rs_body = body\<rparr>) \<and>
    get_document_h demo_env \<lparr>tl_start = 0, tl_load = (\<lambda>_. 0), tl_load_msg = (\<lambda>_. 0), tl_clock = (\<lambda>n. n)\<rparr> ''a'' ''1'' (Some ''all'') (Some token) ap1 =
      Some (ap2, \<lparr>rs_status = OK, rs_session = None, rs_body = DocBody ''1'' (JObject fmempty) 0 shown hit\<rparr>)"
proof -
  obtain ap r1 where ap: "create_collection demo_env ''a'' None fresh_node = (ap, r1)"
    "node_inv (rs_inv mem_engine unary_codec) (rs_abs mem_engine unary_codec) demo_env ap"
    "fmlookup (ap_collections ap) ''a'' = Some \<lparr>cm_name = ''a'', cm_doc_count = 0, cm_mapping = field_mapping_new, cm_settings = collection_settings_default\<rparr>"
    "rs_abs mem_engine unary_codec (fst (ap_world ap)) (Some ''a'') \<noteq> None"
    by (rule demo_collection) blast
  have doc: "request_to_document (en_json demo_env) (en_iter_json demo_env) ''new'' demo_request = doc_new (DocumentId ''1'')"
    by (simp add: request_to_document_def demo_request_def set_json_fields_def btree_iter_fmempty)
  have val: "validate_and_update_mapping (en_iter_fields demo_env) (doc_new (DocumentId ''1'')) field_mapping_new = Inr field_mapping_new"
    by (simp add: validate_and_update_mapping_def doc_new_def btree_iter_fmempty)
  show ?thesis
    using index_then_get [OF mem_engine_laws unary_codec_laws, of demo_env noop_index snd ap "''a''" _ "''new''" demo_request
        "doc_new (DocumentId ''1'')" field_mapping_new "\<lparr>tl_start = 0, tl_load = (\<lambda>_. 0), tl_load_msg = (\<lambda>_. 0), tl_clock = (\<lambda>n. n)\<rparr>"
        "Some ''all''"] ap doc val demo_commits [of "ap_node ap"] map_moka_laws
    by (auto simp: doc_new_def fields_to_value_def total_def vc_new_def btree_iter_fmempty)
qed

text \<open>
  Deleted documents come back. When a collection with a cached document is deleted and created
  again, both requests succeed and no document is stored any more, but a read answers with the
  deleted document from the cache: the deletion does not invalidate the cache entries of the
  collection.
\<close>

theorem recreated_collection_serves_deleted:
  assumes "rocks_laws rk" "codec_laws cd" "en_storage en = rocks_ops rk cd" "commits_locally en ix ixof (ap_node ap)"
    and "rs_inv rk cd (en_local en (ap_world ap))" "fmlookup (ap_collections ap) c = Some meta"
    and "cache_get (en_moka en) (ap_cache ap) c (DocumentId i) = (dc, Some d)"
  shows "\<exists>ap1 r1 ap2 r2 ap3 shown. delete_collection en c ap = (ap1, r1) \<and> rs_status r1 = OK \<and>
    create_collection en c body ap1 = (ap2, r2) \<and> rs_status r2 = OK \<and>
    (\<forall>e. sb_get_from_collection rk cd c (DocumentId i) (en_local en (ap_world ap2)) \<noteq> Inr e) \<and>
    get_document_h en tim c i level None ap2 = Some (ap3, \<lparr>rs_status = OK, rs_session = None,
      rs_body = DocBody (as_str (doc_id d)) (fields_to_value (en_json en) (doc_fields d)) (total (doc_version d)) shown True\<rparr>)"
proof -
  obtain w1 x1 where w1: "ap_propose en (DeleteCollection c) ap = (ap\<lparr>ap_world := w1\<rparr>, Inr x1)" "rs_inv rk cd (en_local en w1)"
    "rs_abs rk cd (en_local en w1) (Some c) = None"
    using ap_propose_commit [OF assms(1-5), of "DeleteCollection c"] by (auto simp: spec_command.simps)
  let ?ap1 = "ap\<lparr>ap_world := w1, ap_collections := fmdrop c (ap_collections ap)\<rparr>"
  have d1: "delete_collection en c ap = (?ap1, \<lparr>rs_status = OK, rs_session = None, rs_body = Acknowledged\<rparr>)"
    using assms(6) w1(1) by (simp add: delete_collection_def)
  obtain sc where sc: "(case Option.bind (cc_schema (case body of None \<Rightarrow> \<lparr>cc_schema = None, cc_settings = None\<rparr> | Some b \<Rightarrow> b)) (en_schema en) of
      Some s \<Rightarrow> s | None \<Rightarrow> en_schema_default en) = sc" by blast
  obtain w2 x2 where w2: "ap_propose en (CreateCollection c sc) ?ap1 = (?ap1\<lparr>ap_world := w2\<rparr>, Inr x2)" "rs_inv rk cd (en_local en w2)"
    "rs_abs rk cd (en_local en w2) (Some c) = Some Map.empty"
    using ap_propose_commit [OF assms(1-3), of ix ixof ?ap1 "CreateCollection c sc"] assms(4) w1(2,3) by (auto simp: spec_command.simps)
  obtain ap2 r2 where c2: "create_collection en c body ?ap1 = (ap2, r2)" by fastforce
  have ap2: "rs_status r2 = OK" "ap_world ap2 = w2" "ap_cache ap2 = ap_cache ap" "\<exists>m. fmlookup (ap_collections ap2) c = Some m"
    using c2 w2(1) by (auto simp: create_collection_def Let_def sc)
  have none: "\<forall>e. sb_get_from_collection rk cd c (DocumentId i) (en_local en (ap_world ap2)) \<noteq> Inr e"
    using no_document [OF assms(1) w2(2)] w2(3) by (simp add: ap2(2))
  obtain lv where lv: "get_document_h en tim c i level None ap2 = Some (read_document en c i lv ap2)"
    using ap2(4) get_document_h_ok [of ap2 c _ None en tim i level] by auto
  have "read_document en c i lv ap2 = (ap2\<lparr>ap_cache := dc\<rparr>, \<lparr>rs_status = OK, rs_session = None,
      rs_body = DocBody (as_str (doc_id d)) (fields_to_value (en_json en) (doc_fields d)) (total (doc_version d))
        (consistency_level_display lv) True\<rparr>)"
    using assms(7) by (simp add: read_document_def ap2(3))
  with d1 c2 ap2(1) none lv show ?thesis by auto
qed

theorem recreated_collection_serves_deleted_witness:
  "\<exists>ap ap1 r1 ap2 r2 ap3 shown. fmlookup (ap_collections ap) ''a'' \<noteq> None \<and>
    delete_collection demo_env ''a'' ap = (ap1, r1) \<and> rs_status r1 = OK \<and>
    create_collection demo_env ''a'' None ap1 = (ap2, r2) \<and> rs_status r2 = OK \<and>
    get_document_h demo_env \<lparr>tl_start = 0, tl_load = (\<lambda>_. 0), tl_load_msg = (\<lambda>_. 0), tl_clock = (\<lambda>n. n)\<rparr> ''a'' ''1'' None None ap2 =
      Some (ap3, \<lparr>rs_status = OK, rs_session = None, rs_body = DocBody ''1'' (JObject fmempty) 0 shown True\<rparr>)"
proof -
  obtain ap0 r0 where ap0: "create_collection demo_env ''a'' None fresh_node = (ap0, r0)"
    "node_inv (rs_inv mem_engine unary_codec) (rs_abs mem_engine unary_codec) demo_env ap0"
    "fmlookup (ap_collections ap0) ''a'' = Some \<lparr>cm_name = ''a'', cm_doc_count = 0, cm_mapping = field_mapping_new, cm_settings = collection_settings_default\<rparr>"
    by (rule demo_collection) blast
  let ?d = "doc_new (DocumentId ''1'')"
  let ?ap = "ap0\<lparr>ap_cache := cache_put map_moka (with_defaults (\<lambda>_. fmempty)) ''a'' ?d\<rparr>"
  have inv: "rs_inv mem_engine unary_codec (en_local demo_env (ap_world ?ap))" using ap0(2) by (simp add: node_inv_def)
  have hit: "\<exists>dc. cache_get (en_moka demo_env) (ap_cache ?ap) ''a'' (DocumentId ''1'') = (dc, Some ?d)"
    by (simp add: cache_get_def cache_put_def map_moka_def with_defaults_def cache_new_def doc_new_def)
  then obtain dc where dc: "cache_get (en_moka demo_env) (ap_cache ?ap) ''a'' (DocumentId ''1'') = (dc, Some ?d)" by blast
  have reg: "fmlookup (ap_collections ?ap) ''a'' = Some \<lparr>cm_name = ''a'', cm_doc_count = 0, cm_mapping = field_mapping_new, cm_settings = collection_settings_default\<rparr>"
    using ap0(3) by simp
  have body: "DocBody (as_str (doc_id ?d)) (fields_to_value (en_json demo_env) (doc_fields ?d)) (total (doc_version ?d)) =
      DocBody ''1'' (JObject fmempty) 0"
    by (simp add: doc_new_def fields_to_value_def total_def vc_new_def btree_iter_fmempty)
  from recreated_collection_serves_deleted [OF mem_engine_laws unary_codec_laws demo_env_simps(1) demo_commits inv reg dc, of None
      "\<lparr>tl_start = 0, tl_load = (\<lambda>_. 0), tl_load_msg = (\<lambda>_. 0), tl_clock = (\<lambda>n. n)\<rparr>" None]
  show ?thesis unfolding body using reg by blast
qed

text \<open>
  A failed write is reported as created. When a registered collection is missing in the store
  (it was deleted through another node), the state machine fails the write, yet the handler
  answers 201 with a session token; nothing is stored.
\<close>

theorem created_without_storing:
  assumes "rocks_laws rk" "codec_laws cd" "en_storage en = rocks_ops rk cd" "commits_locally en ix ixof (ap_node ap)"
    and "rs_inv rk cd (en_local en (ap_world ap))" "fmlookup (ap_collections ap) c = Some meta"
    and "rs_abs rk cd (en_local en (ap_world ap)) (Some c) = None"
    and "validate_and_update_mapping (en_iter_fields en) (request_to_document (en_json en) (en_iter_json en) fresh req) (cm_mapping meta) = Inr m"
  shows "\<exists>ap1 resp. index_document en fresh c req ap = (ap1, resp) \<and> rs_status resp = CREATED \<and> rs_session resp \<noteq> None \<and>
    (\<forall>j d. sb_get_from_collection rk cd c j (en_local en (ap_world ap1)) \<noteq> Inr d)"
proof -
  define doc where "doc = request_to_document (en_json en) (en_iter_json en) fresh req"
  obtain w r where w: "ap_propose en (InsertDocument c doc) ap = (ap\<lparr>ap_world := w\<rparr>, Inr r)" "rs_inv rk cd (en_local en w)"
    "rs_abs rk cd (en_local en w) (Some c) = None"
    using ap_propose_commit [OF assms(1-5), of "InsertDocument c doc"] assms(7) by (auto simp: spec_command.simps)
  from index_document_ok [OF assms(6) doc_def [symmetric] assms(8) [folded doc_def] w(1)]
  show ?thesis using no_document [OF assms(1) w(2)] w(3) by auto
qed

theorem created_without_storing_witness:
  "\<exists>ap ap1 resp. index_document demo_env ''new'' ''b'' demo_request ap = (ap1, resp) \<and> rs_status resp = CREATED \<and>
    sb_get_from_collection mem_engine unary_codec ''b'' (DocumentId ''1'') (fst (ap_world ap1)) \<noteq> Inr (doc_new (DocumentId ''1''))"
proof -
  let ?meta = "\<lparr>cm_name = ''b'', cm_doc_count = 0, cm_mapping = field_mapping_new, cm_settings = collection_settings_default\<rparr>"
  let ?ap = "fresh_node\<lparr>ap_collections := fmupd ''b'' ?meta fmempty\<rparr>"
  have inv: "rs_inv mem_engine unary_codec (en_local demo_env (ap_world ?ap))"
    "rs_abs mem_engine unary_codec (en_local demo_env (ap_world ?ap)) (Some ''b'') = None"
    using fresh_machine_storage by (simp_all add: fresh_node_def fresh_store_def)
  have reg: "fmlookup (ap_collections ?ap) ''b'' = Some ?meta" by simp
  have val: "validate_and_update_mapping (en_iter_fields demo_env)
      (request_to_document (en_json demo_env) (en_iter_json demo_env) ''new'' demo_request) (cm_mapping ?meta) = Inr field_mapping_new"
    by (simp add: validate_and_update_mapping_def request_to_document_def demo_request_def set_json_fields_def doc_new_def btree_iter_fmempty)
  from created_without_storing [OF mem_engine_laws unary_codec_laws demo_env_simps(1) demo_commits inv(1) reg inv(2) val]
  show ?thesis unfolding demo_env_simps by blast
qed

text \<open>
  A session token does not work on another node. The token of a write counts the writes handled by
  the node that issued it; another node that has handled fewer writes, and handles none while it
  waits, answers a read with that token by 503 after the waiting time, even when it has applied the
  write.
\<close>

theorem session_token_other_node:
  assumes "index_document enA fresh c req apA = (apA', respA)" "rs_status respA = CREATED" "rs_session respA = Some token"
    and "applied_index (ap_sessions apA) \<noteq> - 1" "applied_index (ap_sessions apB) \<le> applied_index (ap_sessions apA)"
    and "fmlookup (ap_collections apB) c = Some meta"
    and "\<And>n. tl_load tim n \<le> applied_index (ap_sessions apB)" "tl_start tim + MAX_WAIT \<le> tl_clock tim k"
  shows "\<exists>resp. get_document_h en tim c i level (Some token) apB = Some (apB, resp) \<and> rs_status resp = SERVICE_UNAVAILABLE"
proof -
  define t where "t = applied_index (ap_sessions apA) + 1"
  have tok: "token = token_encode (token_new t)"
    using index_document_session(1) [OF assms(1,2)] assms(3) by (simp add: t_def)
  have lt: "applied_index (ap_sessions apA) < t"
    unfolding t_def using assms(4) unatSuc [of "applied_index (ap_sessions apA)"]
    by (auto simp: word_less_nat_alt add.commute eq_neg_iff_add_eq_0)
  have nl: "\<not> t \<le> applied_index (ap_sessions apB)" "\<And>n. \<not> t \<le> tl_load tim n"
    using lt assms(5,7) by (meson leD order_trans)+
  define k0 where "k0 = (LEAST n. tl_start tim + MAX_WAIT \<le> tl_clock tim n)"
  have k0: "tl_start tim + MAX_WAIT \<le> tl_clock tim k0" "\<And>j. j < k0 \<Longrightarrow> tl_clock tim j < tl_start tim + MAX_WAIT"
  proof -
    let ?stop = "\<lambda>n. tl_start tim + MAX_WAIT \<le> tl_clock tim n"
    show "?stop k0" unfolding k0_def by (rule LeastI [of ?stop k]) (rule assms(8))
    show "tl_clock tim j < tl_start tim + MAX_WAIT" if "j < k0" for j
      using not_less_Least [of j ?stop] that unfolding k0_def by (simp only: not_le)
  qed
  obtain e where e: "wait_for_index (applied_index (ap_sessions apB)) (tl_start tim) (tl_load tim) (tl_load_msg tim) (tl_clock tim) t = Some (Inl e)"
    "\<exists>msg. e = ConsistencyError msg"
    using wait_loop_timeout [where clock = "tl_clock tim" and load = "tl_load tim" and load_msg = "tl_load_msg tim" and k = k0
        and deadline = "tl_start tim + MAX_WAIT" and target = t, OF k0 nl(2)] unfolding wait_for_index_def if_not_P [OF nl(1)] by blast
  have "get_document_h en tim c i level (Some token) apB = Some (apB, error_out e)"
    using assms(6) e(1) by (simp add: get_document_h_def tok token_decode_encode token_new_def current_applied_index_def)
  then show ?thesis using e(2) by (auto simp: error_out_def)
qed

theorem session_token_other_node_witness:
  "\<exists>ap ap1 resp1 token resp. index_document demo_env ''new'' ''a'' demo_request ap = (ap1, resp1) \<and> rs_session resp1 = Some token \<and>
    get_document_h demo_env \<lparr>tl_start = 0, tl_load = (\<lambda>_. 0), tl_load_msg = (\<lambda>_. 0), tl_clock = (\<lambda>n. n)\<rparr> ''a'' ''1'' None (Some token) ap =
      Some (ap, resp) \<and> rs_status resp = SERVICE_UNAVAILABLE"
proof -
  let ?tim = "\<lparr>tl_start = 0, tl_load = (\<lambda>_. 0), tl_load_msg = (\<lambda>_. 0), tl_clock = (\<lambda>n. n)\<rparr>"
  obtain ap r where ap: "create_collection demo_env ''a'' None fresh_node = (ap, r)"
    "fmlookup (ap_collections ap) ''a'' = Some \<lparr>cm_name = ''a'', cm_doc_count = 0, cm_mapping = field_mapping_new, cm_settings = collection_settings_default\<rparr>"
    "ap_sessions ap = session_manager_new"
    by (rule demo_collection) blast
  obtain ap1 body where ix: "index_document demo_env ''new'' ''a'' demo_request ap = (ap1, \<lparr>rs_status = CREATED,
      rs_session = Some (token_encode (token_new 1)), rs_body = body\<rparr>)"
    using demo_read_your_write [of ?tim thesis] ap(1) by auto
  have s: "applied_index (ap_sessions ap) = 0" by (simp add: ap(3) session_manager_new_def)
  have "\<exists>resp. get_document_h demo_env ?tim ''a'' ''1'' None (Some (token_encode (token_new 1))) ap = Some (ap, resp) \<and>
      rs_status resp = SERVICE_UNAVAILABLE"
    by (rule session_token_other_node [OF ix _ _ _ _ ap(2), where k = MAX_WAIT]) (simp_all add: s)
  with ix show ?thesis by fastforce
qed

end
