(* ===== verification/Bulk.thy ===== *)
theory Bulk
  imports Node_Consistency
begin

text \<open>
  The bulk handler, \<^verbatim>\<open>crates/node/src/handlers/bulk.rs\<close>: the parsing of the action and
  document lines, the batches of documents proposed through consensus, the deletes after them and
  the result of each item. The two parsers of \<^verbatim>\<open>serde_json\<close> are parameters.
\<close>

section \<open>Lines\<close>

definition strip_cr :: "string \<Rightarrow> string" where
  "strip_cr l = (if l \<noteq> [] \<and> last l = CHR 0x0D then butlast l else l)"

text \<open>\<^verbatim>\<open>body.lines()\<close>: a final line without a line feed keeps a carriage return.\<close>

function str_lines :: "string \<Rightarrow> string list" where
  "str_lines s =
     (if s = [] then []
      else case dropWhile (\<lambda>c. c \<noteq> CHR 0x0A) s of
             [] \<Rightarrow> [s]
           | _ # rest \<Rightarrow> strip_cr (takeWhile (\<lambda>c. c \<noteq> CHR 0x0A) s) # str_lines rest)"
  by pat_completeness auto
termination
proof (relation "measure length")
  fix s x rest
  assume "dropWhile (\<lambda>c. c \<noteq> CHR 0x0A) s = x # rest"
  then have "length (x # rest) \<le> length s" by (metis length_dropWhile_le)
  then show "(rest, s) \<in> measure length" by simp
qed simp

declare str_lines.simps [simp del]

definition is_space1 :: "char \<Rightarrow> bool" where
  "is_space1 c \<longleftrightarrow> c \<in> {CHR 0x09, CHR 0x0A, CHR 0x0B, CHR 0x0C, CHR 0x0D, CHR 0x20}"

definition is_space3 :: "char \<Rightarrow> char \<Rightarrow> char \<Rightarrow> bool" where
  "is_space3 a b c \<longleftrightarrow>
     a = CHR 0xE1 \<and> b = CHR 0x9A \<and> c = CHR 0x80 \<or>
     a = CHR 0xE2 \<and> b = CHR 0x80 \<and> (0x80 \<le> (of_char c :: nat) \<and> (of_char c :: nat) \<le> 0x8A \<or> c \<in> {CHR 0xA8, CHR 0xA9, CHR 0xAF}) \<or>
     a = CHR 0xE2 \<and> b = CHR 0x81 \<and> c = CHR 0x9F \<or>
     a = CHR 0xE3 \<and> b = CHR 0x80 \<and> c = CHR 0x80"

text \<open>\<^verbatim>\<open>l.trim().is_empty()\<close>: only characters of the Unicode class White\_Space, in UTF-8.\<close>

fun is_blank :: "string \<Rightarrow> bool" where
  "is_blank [] = True"
| "is_blank (a # s) =
     (if is_space1 a then is_blank s
      else (case s of
              [] \<Rightarrow> False
            | b # t \<Rightarrow>
                if a = CHR 0xC2 \<and> (b = CHR 0x85 \<or> b = CHR 0xA0) then is_blank t
                else (case t of [] \<Rightarrow> False | c # u \<Rightarrow> if is_space3 a b c then is_blank u else False)))"

section \<open>The handler\<close>

definition BATCH_SIZE :: nat where
  "BATCH_SIZE = 100"

record 'n bulk_parser =
  parse_action :: "string \<Rightarrow> string + bulk_action"
  parse_fields :: "string \<Rightarrow> string + (string, 'n json) fmap"

definition item_error :: "string \<Rightarrow> string \<Rightarrow> u16 \<Rightarrow> string \<Rightarrow> bulk_item" where
  "item_error act i status msg = \<lparr>bi_action = act, bi_id = i, bi_status = status, bi_error = Some msg\<rparr>"

definition item_ok :: "string \<Rightarrow> string \<Rightarrow> u16 \<Rightarrow> bulk_item" where
  "item_ok act i status = \<lparr>bi_action = act, bi_id = i, bi_status = status, bi_error = None\<rparr>"

definition flush_insert_batch ::
    "('w, 's, 'sc, 'ch, 'c, 'n) env \<Rightarrow> string \<Rightarrow> (document \<times> string) list \<Rightarrow> ('w, 'ch, 'c) app_state \<Rightarrow>
     ('w, 'ch, 'c) app_state \<times> bulk_item list \<times> bool \<times> u64" where
  "flush_insert_batch en c batch ap =
     (let ids = map snd batch; docs = map fst batch; batch_len = length docs in
      case ap_propose en (BatchInsert c docs) ap of
        (ap1, Inr resp) \<Rightarrow>
          (let cnt = rr_affected_count resp in
           (ap1,
            map (\<lambda>(idx, i). if idx \<ge> cnt then item_error ''index'' i 500 ''failed during batch apply'' else item_ok ''index'' i 201)
              (enumerate 0 ids),
            cnt < batch_len,
            word_of_nat (length (filter (\<lambda>(idx, _). idx < cnt) (enumerate 0 ids)))))
      | (ap1, Inl e) \<Rightarrow> (ap1, map (\<lambda>i. item_error ''index'' i 500 (db_error_display e)) ids, True, 0))"

record bulk_state =
  bk_items :: "bulk_item list"
  bk_errors :: bool
  bk_indexed :: u64
  bk_docs :: "(document \<times> string) list"
  bk_deletes :: "string list"

definition bulk_new :: bulk_state where
  "bulk_new = \<lparr>bk_items = [], bk_errors = False, bk_indexed = 0, bk_docs = [], bk_deletes = []\<rparr>"

definition bulk_fail :: "bulk_item \<Rightarrow> bulk_state \<Rightarrow> bulk_state" where
  "bulk_fail it b = b\<lparr>bk_errors := True, bk_items := bk_items b @ [it]\<rparr>"

text \<open>The results of a flush are added and the pending documents taken.\<close>

definition bulk_flush ::
    "('w, 's, 'sc, 'ch, 'c, 'n) env \<Rightarrow> string \<Rightarrow> bulk_state \<Rightarrow> ('w, 'ch, 'c) app_state \<Rightarrow> bulk_state \<times> ('w, 'ch, 'c) app_state" where
  "bulk_flush en c b ap =
     (let (ap1, its, errs, n) = flush_insert_batch en c (bk_docs b) ap in
      (b\<lparr>bk_docs := [], bk_items := bk_items b @ its, bk_errors := (bk_errors b \<or> errs), bk_indexed := bk_indexed b + n\<rparr>, ap1))"

definition flush_when_full ::
    "('w, 's, 'sc, 'ch, 'c, 'n) env \<Rightarrow> string \<Rightarrow> bulk_state \<Rightarrow> ('w, 'ch, 'c) app_state \<Rightarrow> bulk_state \<times> ('w, 'ch, 'c) app_state" where
  "flush_when_full en c b ap = (if length (bk_docs b) \<ge> BATCH_SIZE then bulk_flush en c b ap else (b, ap))"

text \<open>
  The document of an index action; \<open>fresh\<close> gives the identifier generated at a line, by the number
  of lines after it.
\<close>

definition bulk_document ::
    "('w, 's, 'sc, 'ch, 'c, 'n) env \<Rightarrow> string \<Rightarrow> string option \<Rightarrow> (string, 'n json) fmap \<Rightarrow> document" where
  "bulk_document en fresh i fs =
     set_json_fields (en_json en) (en_iter_json en fs)
       (doc_new (case i of Some s \<Rightarrow> DocumentId s | None \<Rightarrow> DocumentId fresh))"

fun bulk_loop ::
    "('w, 's, 'sc, 'ch, 'c, 'n) env \<Rightarrow> 'n bulk_parser \<Rightarrow> (nat \<Rightarrow> string) \<Rightarrow> string \<Rightarrow> string list \<Rightarrow> bulk_state \<Rightarrow>
     ('w, 'ch, 'c) app_state \<Rightarrow> bulk_state \<times> ('w, 'ch, 'c) app_state" where
  "bulk_loop en pr fresh c [] b ap = (b, ap)"
| "bulk_loop en pr fresh c (action_line # ls) b ap =
     (case parse_action pr action_line of
        Inl e \<Rightarrow> bulk_loop en pr fresh c ls (bulk_fail (item_error ''unknown'' [] 400 (''invalid action line: '' @ e)) b) ap
      | Inr (BulkIndex i) \<Rightarrow>
          (case ls of
             [] \<Rightarrow> (bulk_fail (item_error ''index'' (case i of Some s \<Rightarrow> s | None \<Rightarrow> []) 400 ''missing document body after index action'') b, ap)
           | doc_line # rest \<Rightarrow>
               (case parse_fields pr doc_line of
                  Inl e \<Rightarrow> bulk_loop en pr fresh c rest
                    (bulk_fail (item_error ''index'' (case i of Some s \<Rightarrow> s | None \<Rightarrow> []) 400 (''invalid document body: '' @ e)) b) ap
                | Inr fs \<Rightarrow>
                    (let doc = bulk_document en (fresh (length rest)) i fs;
                         (b1, ap1) = flush_when_full en c (b\<lparr>bk_docs := bk_docs b @ [(doc, as_str (doc_id doc))]\<rparr>) ap in
                     bulk_loop en pr fresh c rest b1 ap1)))
      | Inr (BulkDelete i) \<Rightarrow>
          (let id_str = (case i of Some s \<Rightarrow> s | None \<Rightarrow> []);
               b0 = (if id_str = [] then bulk_fail (item_error ''delete'' id_str 400 ''delete action requires _id'') b
                     else b\<lparr>bk_deletes := bk_deletes b @ [id_str]\<rparr>);
               (b1, ap1) = flush_when_full en c b0 ap in
           bulk_loop en pr fresh c ls b1 ap1))"

fun bulk_deletes ::
    "('w, 's, 'sc, 'ch, 'c, 'n) env \<Rightarrow> string \<Rightarrow> string list \<Rightarrow> bulk_state \<Rightarrow> ('w, 'ch, 'c) app_state \<Rightarrow>
     bulk_state \<times> ('w, 'ch, 'c) app_state" where
  "bulk_deletes en c [] b ap = (b, ap)"
| "bulk_deletes en c (i # is) b ap =
     (case ap_propose en (DeleteDocument c (DocumentId i)) ap of
        (ap1, Inr _) \<Rightarrow> bulk_deletes en c is (b\<lparr>bk_items := bk_items b @ [item_ok ''delete'' i 200]\<rparr>) ap1
      | (ap1, Inl e) \<Rightarrow> bulk_deletes en c is (bulk_fail (item_error ''delete'' i 500 (db_error_display e)) b) ap1)"

definition bulk_index ::
    "('w, 's, 'sc, 'ch, 'c, 'n) env \<Rightarrow> 'n bulk_parser \<Rightarrow> (nat \<Rightarrow> string) \<Rightarrow> u64 \<Rightarrow> string \<Rightarrow> string \<Rightarrow> ('w, 'ch, 'c) app_state \<Rightarrow>
     ('w, 'ch, 'c) app_state \<times> 'n response" where
  "bulk_index en pr fresh took c body ap =
     (if fmlookup (ap_collections ap) c = None then (ap, no_collection c)
      else
        (let lns = filter (\<lambda>l. \<not> is_blank l) (str_lines body);
             (b1, ap1) = bulk_loop en pr fresh c lns bulk_new ap;
             (b2, ap2) = (if bk_docs b1 \<noteq> [] then bulk_flush en c b1 ap1 else (b1, ap1));
             (b3, ap3) = bulk_deletes en c (bk_deletes b2) b2 ap2;
             ap4 = (case fmlookup (ap_collections ap3) c of
                      Some meta \<Rightarrow> ap3\<lparr>ap_collections :=
                        fmupd c (meta\<lparr>cm_doc_count := cm_doc_count meta + bk_indexed b3\<rparr>) (ap_collections ap3)\<rparr>
                    | None \<Rightarrow> ap3) in
         (ap4, \<lparr>rs_status = OK, rs_session = None,
            rs_body = BulkBody \<lparr>br_took = took, br_errors = bk_errors b3, br_items = bk_items b3\<rparr>\<rparr>)))"

section \<open>What a bulk request asks for\<close>

text \<open>The documents to index and the identifiers to delete, in the order of the lines.\<close>

fun bulk_parse ::
    "('w, 's, 'sc, 'ch, 'c, 'n) env \<Rightarrow> 'n bulk_parser \<Rightarrow> (nat \<Rightarrow> string) \<Rightarrow> string list \<Rightarrow> document list \<times> string list" where
  "bulk_parse en pr fresh [] = ([], [])"
| "bulk_parse en pr fresh (l # ls) =
     (case parse_action pr l of
        Inl e \<Rightarrow> bulk_parse en pr fresh ls
      | Inr (BulkIndex i) \<Rightarrow>
          (case ls of
             [] \<Rightarrow> ([], [])
           | dl # rest \<Rightarrow>
               (case parse_fields pr dl of
                  Inl e \<Rightarrow> bulk_parse en pr fresh rest
                | Inr fs \<Rightarrow> (let (ds, xs) = bulk_parse en pr fresh rest in (bulk_document en (fresh (length rest)) i fs # ds, xs))))
      | Inr (BulkDelete i) \<Rightarrow>
          (let (ds, xs) = bulk_parse en pr fresh ls; id_str = (case i of Some s \<Rightarrow> s | None \<Rightarrow> []) in
           (ds, if id_str = [] then xs else id_str # xs)))"

definition put_all :: "document list \<Rightarrow> (string \<rightharpoonup> document) \<Rightarrow> (string \<rightharpoonup> document)" where
  "put_all ds f = fold (\<lambda>d f. f(as_str (doc_id d) \<mapsto> d)) ds f"

lemma put_all_append: "put_all (ds @ es) f = put_all es (put_all ds f)"
  by (simp add: put_all_def)

text \<open>The state of a node over a RocksDB store that leads and holds the documents \<open>f\<close> of the collection.\<close>

definition leads_with ::
    "'db rocks \<Rightarrow> doc_codec \<Rightarrow> ('w, 'db rocksdb_storage, 'sc, 'ch, 'c, 'n) env \<Rightarrow> 'i index_ops \<Rightarrow> ('w \<Rightarrow> 'i) \<Rightarrow> string \<Rightarrow>
     (string \<rightharpoonup> document) \<Rightarrow> ('w, 'ch, 'c) app_state \<Rightarrow> bool" where
  "leads_with rk cd en ix ixof c f ap \<longleftrightarrow>
     rocks_laws rk \<and> codec_laws cd \<and> en_storage en = rocks_ops rk cd \<and> commits_locally en ix ixof (ap_node ap) \<and>
     rs_inv rk cd (en_local en (ap_world ap)) \<and> rs_abs rk cd (en_local en (ap_world ap)) (Some c) = Some f"

lemma leads_read:
  assumes "leads_with rk cd en ix ixof c f ap"
  shows "sb_get_from_collection rk cd c j (en_local en (ap_world ap)) = Inr d \<longleftrightarrow> f (as_str j) = Some d"
  using rs_read_exact [of rk cd "en_local en (ap_world ap)" "Some c" j d] assms
  by (simp add: leads_with_def rs_read_def spec_read_def)

lemma leads_batch:
  assumes "leads_with rk cd en ix ixof c f ap"
  shows "\<exists>w. ap_propose en (BatchInsert c ds) ap = (ap\<lparr>ap_world := w\<rparr>, Inr (rr_ok_batch (length ds))) \<and>
    leads_with rk cd en ix ixof c (put_all ds f) (ap\<lparr>ap_world := w\<rparr>)"
  using ap_propose_commit [of rk cd en ix ixof ap "BatchInsert c ds"] assms
  by (auto simp: leads_with_def spec_command.simps put_all_def)

lemma leads_delete:
  assumes "leads_with rk cd en ix ixof c f ap"
  shows "\<exists>w r. ap_propose en (DeleteDocument c (DocumentId i)) ap = (ap\<lparr>ap_world := w\<rparr>, Inr r) \<and>
    leads_with rk cd en ix ixof c (f(i := None)) (ap\<lparr>ap_world := w\<rparr>)"
  using ap_propose_commit [of rk cd en ix ixof ap "DeleteDocument c (DocumentId i)"] assms
  by (auto simp: leads_with_def spec_command.simps)

lemma bulk_flush_step:
  assumes "leads_with rk cd en ix ixof c f ap"
  shows "\<exists>w b'. bulk_flush en c b ap = (b', ap\<lparr>ap_world := w\<rparr>) \<and> bk_docs b' = [] \<and> bk_deletes b' = bk_deletes b \<and>
    leads_with rk cd en ix ixof c (put_all (map fst (bk_docs b)) f) (ap\<lparr>ap_world := w\<rparr>)"
  using leads_batch [OF assms, of "map fst (bk_docs b)"] by (auto simp: bulk_flush_def flush_insert_batch_def Let_def)

lemma flush_when_full_step:
  assumes "leads_with rk cd en ix ixof c f ap"
  shows "\<exists>w b' f'. flush_when_full en c b ap = (b', ap\<lparr>ap_world := w\<rparr>) \<and> bk_deletes b' = bk_deletes b \<and>
    leads_with rk cd en ix ixof c f' (ap\<lparr>ap_world := w\<rparr>) \<and>
    put_all (map fst (bk_docs b')) f' = put_all (map fst (bk_docs b)) f"
proof (cases "length (bk_docs b) \<ge> BATCH_SIZE")
  case True
  then show ?thesis using bulk_flush_step [OF assms, of b] by (force simp: flush_when_full_def put_all_def)
next
  case False
  with assms show ?thesis
    by (intro exI [of _ "ap_world ap"] exI [of _ b] exI [of _ f]) (simp add: flush_when_full_def)
qed

text \<open>
  The result of the loop on lines with the documents \<open>ds\<close> and the deletes \<open>xs\<close>: the documents have
  been put, but for the pending ones, and the deletes kept for later.
\<close>

definition bulk_done ::
    "'db rocks \<Rightarrow> doc_codec \<Rightarrow> ('w, 'db rocksdb_storage, 'sc, 'ch, 'c, 'n) env \<Rightarrow> 'i index_ops \<Rightarrow> ('w \<Rightarrow> 'i) \<Rightarrow> string \<Rightarrow>
     (string \<rightharpoonup> document) \<Rightarrow> bulk_state \<Rightarrow> ('w, 'ch, 'c) app_state \<Rightarrow> document list \<times> string list \<Rightarrow>
     bulk_state \<times> ('w, 'ch, 'c) app_state \<Rightarrow> bool" where
  "bulk_done rk cd en ix ixof c f b ap p res \<longleftrightarrow> (\<exists>w b' f'. res = (b', ap\<lparr>ap_world := w\<rparr>) \<and>
     leads_with rk cd en ix ixof c f' (ap\<lparr>ap_world := w\<rparr>) \<and>
     put_all (map fst (bk_docs b')) f' = put_all (map fst (bk_docs b) @ fst p) f \<and>
     bk_deletes b' = bk_deletes b @ snd p)"

lemma bulk_done_stop: "leads_with rk cd en ix ixof c f ap \<Longrightarrow> bulk_done rk cd en ix ixof c f b ap ([], []) (b, ap)"
  unfolding bulk_done_def by (intro exI [of _ "ap_world ap"] exI [of _ b] exI [of _ f]) simp

lemma bulk_done_cong:
  "bk_docs b = bk_docs b' \<Longrightarrow> bk_deletes b = bk_deletes b' \<Longrightarrow>
    bulk_done rk cd en ix ixof c f b ap p res = bulk_done rk cd en ix ixof c f b' ap p res"
  by (simp add: bulk_done_def)

lemma bulk_done_flush:
  assumes "leads_with rk cd en ix ixof c f ap"
    and "\<And>f b ap. leads_with rk cd en ix ixof c f ap \<Longrightarrow> bulk_done rk cd en ix ixof c f b ap p (k b ap)"
  shows "bulk_done rk cd en ix ixof c f b ap p (case flush_when_full en c b ap of (b1, ap1) \<Rightarrow> k b1 ap1)"
proof -
  obtain w b1 f1 where fl: "flush_when_full en c b ap = (b1, ap\<lparr>ap_world := w\<rparr>)" "bk_deletes b1 = bk_deletes b"
    "leads_with rk cd en ix ixof c f1 (ap\<lparr>ap_world := w\<rparr>)" "put_all (map fst (bk_docs b1)) f1 = put_all (map fst (bk_docs b)) f"
    using flush_when_full_step [OF assms(1), of b] by blast
  from assms(2) [OF fl(3), of b1] show ?thesis by (simp add: bulk_done_def fl put_all_append)
qed

lemma bulk_loop_step:
  "leads_with rk cd en ix ixof c f ap \<Longrightarrow>
    bulk_done rk cd en ix ixof c f b ap (bulk_parse en pr fresh ls) (bulk_loop en pr fresh c ls b ap)"
proof (induction ls arbitrary: b ap f rule: length_induct)
  case (1 ls)
  note lw = \<open>leads_with rk cd en ix ixof c f ap\<close>
  have IH: "bulk_done rk cd en ix ixof c f b ap (bulk_parse en pr fresh ms) (bulk_loop en pr fresh c ms b ap)"
    if "length ms < length ls" "leads_with rk cd en ix ixof c f ap" for ms f b ap
    using 1(1) that by blast
  have fail: "bulk_done rk cd en ix ixof c f (bulk_fail it b) ap p res = bulk_done rk cd en ix ixof c f b ap p res" for it p res
    by (rule bulk_done_cong) (simp_all add: bulk_fail_def)
  have failed: "bulk_done rk cd en ix ixof c f b ap (bulk_parse en pr fresh ms) (bulk_loop en pr fresh c ms (bulk_fail it b) ap)"
    if "length ms < length ls" for ms it
    using IH [OF that lw, of "bulk_fail it b"] by (simp add: fail)
  have stopped: "bulk_done rk cd en ix ixof c f b ap ([], []) (bulk_fail it b, ap)" for it
    using bulk_done_stop [OF lw, of "bulk_fail it b"] by (simp add: fail)
  consider (empty) "ls = []" | (bad) l ms e where "ls = l # ms" "parse_action pr l = Inl e"
    | (del) l ms i where "ls = l # ms" "parse_action pr l = Inr (BulkDelete i)"
    | (cut) l i where "ls = [l]" "parse_action pr l = Inr (BulkIndex i)"
    | (badbody) l dl ms i e where "ls = l # dl # ms" "parse_action pr l = Inr (BulkIndex i)" "parse_fields pr dl = Inl e"
    | (idx) l dl ms i fs where "ls = l # dl # ms" "parse_action pr l = Inr (BulkIndex i)" "parse_fields pr dl = Inr fs"
    by (metis bulk_action.exhaust list.exhaust sum.exhaust)
  then show ?case
  proof cases
    case (del l ms i)
    define x where "x = (case i of Some s \<Rightarrow> s | None \<Rightarrow> [])"
    define b0 where "b0 = (if x = [] then bulk_fail (item_error ''delete'' x 400 ''delete action requires _id'') b
        else b\<lparr>bk_deletes := bk_deletes b @ [x]\<rparr>)"
    have "bulk_done rk cd en ix ixof c f b0 ap (bulk_parse en pr fresh ms)
        (case flush_when_full en c b0 ap of (b1, ap1) \<Rightarrow> bulk_loop en pr fresh c ms b1 ap1)"
      by (rule bulk_done_flush [OF lw]) (rule IH, simp_all add: del)
    then show ?thesis
      by (cases "x = []") (simp_all add: bulk_done_def del x_def [symmetric] b0_def bulk_fail_def Let_def case_prod_unfold)
  next
    case (idx l dl ms i fs)
    define d where "d = bulk_document en (fresh (length ms)) i fs"
    have "bulk_done rk cd en ix ixof c f (b\<lparr>bk_docs := bk_docs b @ [(d, as_str (doc_id d))]\<rparr>) ap (bulk_parse en pr fresh ms)
        (case flush_when_full en c (b\<lparr>bk_docs := bk_docs b @ [(d, as_str (doc_id d))]\<rparr>) ap of
           (b1, ap1) \<Rightarrow> bulk_loop en pr fresh c ms b1 ap1)"
      by (rule bulk_done_flush [OF lw]) (rule IH, simp_all add: idx)
    then show ?thesis by (simp add: idx bulk_done_def Let_def case_prod_unfold d_def)
  qed (use lw failed stopped bulk_done_stop in simp_all)
qed

lemma bulk_deletes_step:
  "leads_with rk cd en ix ixof c f ap \<Longrightarrow>
    \<exists>w b'. bulk_deletes en c is b ap = (b', ap\<lparr>ap_world := w\<rparr>) \<and> bk_indexed b' = bk_indexed b \<and> bk_errors b' = bk_errors b \<and>
      bk_items b' = bk_items b @ map (\<lambda>i. item_ok ''delete'' i 200) is \<and>
      leads_with rk cd en ix ixof c (f |` (- set is)) (ap\<lparr>ap_world := w\<rparr>)"
proof (induction "is" arbitrary: b ap f)
  case Nil
  then show ?case by (intro exI [of _ "ap_world ap"] exI [of _ b]) (simp add: restrict_map_def)
next
  case (Cons i "is")
  obtain w r where w: "ap_propose en (DeleteDocument c (DocumentId i)) ap = (ap\<lparr>ap_world := w\<rparr>, Inr r)"
    "leads_with rk cd en ix ixof c (f(i := None)) (ap\<lparr>ap_world := w\<rparr>)"
    using leads_delete [OF Cons.prems] by blast
  have r: "f(i := None) |` (- set is) = f |` (- set (i # is))" by (auto simp: restrict_map_def fun_eq_iff)
  from Cons.IH [OF w(2), of "b\<lparr>bk_items := bk_items b @ [item_ok ''delete'' i 200]\<rparr>"] show ?case
    using w(1) unfolding r by auto
qed

text \<open>The whole request: all documents first, then all deletes; the cache is not touched.\<close>

lemma bulk_index_step:
  assumes "leads_with rk cd en ix ixof c f ap" "fmlookup (ap_collections ap) c = Some meta"
    and "bulk_parse en pr fresh (filter (\<lambda>l. \<not> is_blank l) (str_lines body)) = (ds, xs)"
  shows "\<exists>ap' resp. bulk_index en pr fresh took c body ap = (ap', resp) \<and> rs_status resp = OK \<and> ap_cache ap' = ap_cache ap \<and>
    (\<exists>m. fmlookup (ap_collections ap') c = Some m) \<and> ap_sessions ap' = ap_sessions ap \<and>
    leads_with rk cd en ix ixof c (put_all ds f |` (- set xs)) ap'"
proof -
  let ?ls = "filter (\<lambda>l. \<not> is_blank l) (str_lines body)"
  obtain w1 b1 f1 where 1: "bulk_loop en pr fresh c ?ls bulk_new ap = (b1, ap\<lparr>ap_world := w1\<rparr>)"
    "leads_with rk cd en ix ixof c f1 (ap\<lparr>ap_world := w1\<rparr>)" "put_all (map fst (bk_docs b1)) f1 = put_all ds f" "bk_deletes b1 = xs"
    using bulk_loop_step [OF assms(1), of bulk_new pr fresh ?ls] by (auto simp: bulk_done_def assms(3) bulk_new_def)
  have "\<exists>w2 b2. (if bk_docs b1 \<noteq> [] then bulk_flush en c b1 (ap\<lparr>ap_world := w1\<rparr>) else (b1, ap\<lparr>ap_world := w1\<rparr>)) = (b2, ap\<lparr>ap_world := w2\<rparr>) \<and>
      bk_deletes b2 = xs \<and> leads_with rk cd en ix ixof c (put_all ds f) (ap\<lparr>ap_world := w2\<rparr>)"
    using bulk_flush_step [OF 1(2), of b1] 1(2-4) by (auto simp: put_all_def)
  then obtain w2 b2 where 2: "(if bk_docs b1 \<noteq> [] then bulk_flush en c b1 (ap\<lparr>ap_world := w1\<rparr>) else (b1, ap\<lparr>ap_world := w1\<rparr>)) = (b2, ap\<lparr>ap_world := w2\<rparr>)"
    "bk_deletes b2 = xs" "leads_with rk cd en ix ixof c (put_all ds f) (ap\<lparr>ap_world := w2\<rparr>)" by blast
  obtain w3 b3 where 3: "bulk_deletes en c xs b2 (ap\<lparr>ap_world := w2\<rparr>) = (b3, ap\<lparr>ap_world := w3\<rparr>)"
    "leads_with rk cd en ix ixof c (put_all ds f |` (- set xs)) (ap\<lparr>ap_world := w3\<rparr>)"
    using bulk_deletes_step [OF 2(3), of xs b2] by auto
  then show ?thesis unfolding bulk_index_def using assms(2)
    by (simp add: 1(1) 2(1,2) Let_def) (simp add: leads_with_def)
qed

section \<open>Properties\<close>

text \<open>
  C15. The effect of a bulk request on a leading node: the documents of all index actions are put in
  their order, in batches, and then all deletes are executed. A document is stored afterwards
  exactly when no delete action of the request names it and it was put last or was there before;
  so an index action after a delete of the same document is lost.
\<close>

theorem bulk_deletes_last:
  assumes "leads_with rk cd en ix ixof c f ap" "fmlookup (ap_collections ap) c = Some meta"
    and "bulk_parse en pr fresh (filter (\<lambda>l. \<not> is_blank l) (str_lines body)) = (ds, xs)"
  shows "\<exists>ap' resp. bulk_index en pr fresh took c body ap = (ap', resp) \<and> rs_status resp = OK \<and>
    (\<forall>i d. sb_get_from_collection rk cd c (DocumentId i) (en_local en (ap_world ap')) = Inr d \<longleftrightarrow>
      i \<notin> set xs \<and> put_all ds f i = Some d)"
proof -
  obtain ap' resp where b: "bulk_index en pr fresh took c body ap = (ap', resp)" "rs_status resp = OK"
    "leads_with rk cd en ix ixof c (put_all ds f |` (- set xs)) ap'"
    using bulk_index_step [OF assms, of took] by blast
  then show ?thesis by (simp add: leads_read [OF b(3)] restrict_map_def)
qed

text \<open>The line \<open>d\<close> deletes the document 1, every other action line indexes it.\<close>

definition demo_parser :: "f64 bulk_parser" where
  "demo_parser = \<lparr>parse_action = (\<lambda>l. Inr (if l = ''d'' then BulkDelete (Some ''1'') else BulkIndex (Some ''1''))),
     parse_fields = (\<lambda>_. Inr fmempty)\<rparr>"

definition delete_then_index :: string where
  "delete_then_index = ''d'' @ [CHR 0x0A] @ ''i'' @ [CHR 0x0A] @ ''{}'' @ [CHR 0x0A]"

lemma delete_then_index_parse:
  "bulk_parse demo_env demo_parser (\<lambda>_. []) (filter (\<lambda>l. \<not> is_blank l) (str_lines delete_then_index)) =
    ([doc_new (DocumentId ''1'')], [''1''])"
proof -
  have "str_lines delete_then_index = [''d'', ''i'', ''{}'']" by code_simp
  moreover have "filter (\<lambda>l. \<not> is_blank l) [''d'', ''i'', ''{}''] = [''d'', ''i'', ''{}'']" by code_simp
  ultimately show ?thesis
    by (simp add: demo_parser_def bulk_document_def set_json_fields_def btree_iter_fmempty)
qed

lemma demo_leads:
  obtains ap r where "create_collection demo_env ''a'' None fresh_node = (ap, r)"
    "leads_with mem_engine unary_codec demo_env noop_index snd ''a'' Map.empty ap"
    "fmlookup (ap_collections ap) ''a'' = Some \<lparr>cm_name = ''a'', cm_doc_count = 0, cm_mapping = field_mapping_new, cm_settings = collection_settings_default\<rparr>"
proof -
  have r: "rs_inv mem_engine unary_codec (en_local demo_env (ap_world fresh_node))"
    "rs_abs mem_engine unary_codec (en_local demo_env (ap_world fresh_node)) = fresh_store"
    using fresh_machine_storage by (simp_all add: fresh_node_def)
  obtain w x where w: "ap_propose demo_env (CreateCollection ''a'' ()) fresh_node = (fresh_node\<lparr>ap_world := w\<rparr>, Inr x)"
    "rs_inv mem_engine unary_codec (fst w)" "rs_abs mem_engine unary_codec (fst w) (Some ''a'') = Some Map.empty"
    using ap_propose_commit [OF mem_engine_laws unary_codec_laws demo_env_simps(1) demo_commits r(1), of "CreateCollection ''a'' ()"]
    unfolding r(2) by (auto simp: spec_command.simps fresh_store_def)
  show ?thesis
    by (rule that [OF _ _ ])
      (use w in \<open>auto simp: create_collection_def Let_def fresh_node_def demo_env_def leads_with_def mem_engine_laws unary_codec_laws
        demo_commits [unfolded demo_env_def]\<close>)
qed

theorem bulk_deletes_last_witness:
  "\<exists>ap ap' resp. bulk_index demo_env demo_parser (\<lambda>_. []) 0 ''a'' delete_then_index ap = (ap', resp) \<and> rs_status resp = OK \<and>
    sb_get_from_collection mem_engine unary_codec ''a'' (DocumentId ''1'') (fst (ap_world ap')) \<noteq> Inr (doc_new (DocumentId ''1''))"
proof -
  obtain ap r where ap: "leads_with mem_engine unary_codec demo_env noop_index snd ''a'' Map.empty ap"
    "fmlookup (ap_collections ap) ''a'' = Some \<lparr>cm_name = ''a'', cm_doc_count = 0, cm_mapping = field_mapping_new, cm_settings = collection_settings_default\<rparr>"
    by (rule demo_leads)
  from bulk_deletes_last [OF ap delete_then_index_parse, of 0] obtain ap' resp where
    "bulk_index demo_env demo_parser (\<lambda>_. []) 0 ''a'' delete_then_index ap = (ap', resp)" "rs_status resp = OK"
    "sb_get_from_collection mem_engine unary_codec ''a'' (DocumentId ''1'') (fst (ap_world ap')) \<noteq> Inr (doc_new (DocumentId ''1''))"
    by auto
  then show ?thesis by blast
qed

text \<open>
  Bulk requests leave the cache as it is: a document that a bulk request deletes and that is in the
  cache is still shown by a read afterwards, although it is no longer stored.
\<close>

theorem bulk_leaves_stale_cache:
  assumes "leads_with rk cd en ix ixof c f ap" "fmlookup (ap_collections ap) c = Some meta"
    and "bulk_parse en pr fresh (filter (\<lambda>l. \<not> is_blank l) (str_lines body)) = (ds, xs)" "i \<in> set xs"
    and "cache_get (en_moka en) (ap_cache ap) c (DocumentId i) = (dc, Some d)"
  shows "\<exists>ap' resp ap'' shown. bulk_index en pr fresh took c body ap = (ap', resp) \<and> rs_status resp = OK \<and>
    (\<forall>e. sb_get_from_collection rk cd c (DocumentId i) (en_local en (ap_world ap')) \<noteq> Inr e) \<and>
    get_document_h en tim c i level None ap' = Some (ap'', \<lparr>rs_status = OK, rs_session = None,
      rs_body = DocBody (as_str (doc_id d)) (fields_to_value (en_json en) (doc_fields d)) (total (doc_version d)) shown True\<rparr>)"
proof -
  obtain ap' resp where b: "bulk_index en pr fresh took c body ap = (ap', resp)" "rs_status resp = OK" "ap_cache ap' = ap_cache ap"
    "\<exists>m. fmlookup (ap_collections ap') c = Some m" "leads_with rk cd en ix ixof c (put_all ds f |` (- set xs)) ap'"
    using bulk_index_step [OF assms(1-3), of took] by blast
  have none: "\<forall>e. sb_get_from_collection rk cd c (DocumentId i) (en_local en (ap_world ap')) \<noteq> Inr e"
    using assms(4) by (simp add: leads_read [OF b(5)] restrict_map_def)
  obtain lv where lv: "get_document_h en tim c i level None ap' = Some (read_document en c i lv ap')"
    using b(4) get_document_h_ok [of ap' c _ None en tim i level] by auto
  have "read_document en c i lv ap' = (ap'\<lparr>ap_cache := dc\<rparr>, \<lparr>rs_status = OK, rs_session = None,
      rs_body = DocBody (as_str (doc_id d)) (fields_to_value (en_json en) (doc_fields d)) (total (doc_version d))
        (consistency_level_display lv) True\<rparr>)"
    using assms(5) by (simp add: read_document_def b(3))
  with b(1,2) none lv show ?thesis by auto
qed

theorem bulk_leaves_stale_cache_witness:
  "\<exists>ap ap' resp ap'' shown. bulk_index demo_env demo_parser (\<lambda>_. []) 0 ''a'' delete_then_index ap = (ap', resp) \<and> rs_status resp = OK \<and>
    get_document_h demo_env \<lparr>tl_start = 0, tl_load = (\<lambda>_. 0), tl_load_msg = (\<lambda>_. 0), tl_clock = (\<lambda>n. n)\<rparr> ''a'' ''1'' None None ap' =
      Some (ap'', \<lparr>rs_status = OK, rs_session = None, rs_body = DocBody ''1'' (JObject fmempty) 0 shown True\<rparr>)"
proof -
  obtain ap0 where ap0: "leads_with mem_engine unary_codec demo_env noop_index snd ''a'' Map.empty ap0"
    "fmlookup (ap_collections ap0) ''a'' = Some \<lparr>cm_name = ''a'', cm_doc_count = 0, cm_mapping = field_mapping_new, cm_settings = collection_settings_default\<rparr>"
    by (rule demo_leads)
  let ?d = "doc_new (DocumentId ''1'')"
  let ?ap = "ap0\<lparr>ap_cache := cache_put map_moka (with_defaults (\<lambda>_. fmempty)) ''a'' ?d\<rparr>"
  have lw: "leads_with mem_engine unary_codec demo_env noop_index snd ''a'' Map.empty ?ap" using ap0(1) by (simp add: leads_with_def)
  obtain dc where dc: "cache_get (en_moka demo_env) (ap_cache ?ap) ''a'' (DocumentId ''1'') = (dc, Some ?d)"
    by (simp add: cache_get_def cache_put_def map_moka_def with_defaults_def cache_new_def doc_new_def)
  have reg: "fmlookup (ap_collections ?ap) ''a'' = Some \<lparr>cm_name = ''a'', cm_doc_count = 0, cm_mapping = field_mapping_new, cm_settings = collection_settings_default\<rparr>"
    using ap0(2) by simp
  have body: "DocBody (as_str (doc_id ?d)) (fields_to_value (en_json demo_env) (doc_fields ?d)) (total (doc_version ?d)) =
      DocBody ''1'' (JObject fmempty) 0"
    by (simp add: doc_new_def fields_to_value_def total_def vc_new_def btree_iter_fmempty)
  have x: "''1'' \<in> set [''1'']" by simp
  from bulk_leaves_stale_cache [OF lw reg delete_then_index_parse x dc, of 0
      "\<lparr>tl_start = 0, tl_load = (\<lambda>_. 0), tl_load_msg = (\<lambda>_. 0), tl_clock = (\<lambda>n. n)\<rparr>" None]
  show ?thesis unfolding body by blast
qed

text \<open>
  A bulk request through a follower is reported as failed. When the leader stores a forwarded batch
  of more than one document completely, the follower counts one success and marks every other
  document as failed with status 500, because the remote write does not return the count.
\<close>

theorem forwarded_batch_reports_failures:
  assumes "leader_reachable (en_raft en) (en_net en) (ap_node ap) l (BatchInsert c (map fst batch)) (ap_pool ap) (ap_world ap)"
    and "ra_client_write (en_raft en) l (BatchInsert c (map fst batch)) (ap_world ap) = (w, Inr (rr_ok_batch (length batch)))"
    and "batch = p # q # rest"
  shows "\<exists>ap'. flush_insert_batch en c batch ap = (ap',
      item_ok ''index'' (snd p) 201 # map (\<lambda>i. item_error ''index'' i 500 ''failed during batch apply'') (map snd (q # rest)), True, 1) \<and>
    ap_world ap' = w"
proof -
  obtain pool where "propose_or_forward (en_raft en) (en_net en) (ap_node ap) (BatchInsert c (map fst batch)) (ap_pool ap) (ap_world ap) =
      (pool, w, Inr \<lparr>rr_success = True, rr_document_id = None, rr_affected_count = 1\<rparr>)"
    using forwarded_write [OF assms(1,2)] by (auto simp: rr_ok_batch_def)
  then have pr: "ap_propose en (BatchInsert c (map fst batch)) ap = (ap\<lparr>ap_pool := pool, ap_world := w\<rparr>,
      Inr \<lparr>rr_success = True, rr_document_id = None, rr_affected_count = 1\<rparr>)"
    by (simp add: ap_propose_def)
  have rest: "map (\<lambda>(idx, i). if idx \<ge> 1 then item_error ''index'' i 500 ''failed during batch apply'' else item_ok ''index'' i 201) (enumerate 1 is) =
      map (\<lambda>i. item_error ''index'' i 500 ''failed during batch apply'') is" for "is"
    by (rule nth_equalityI) (simp_all add: nth_enumerate_eq)
  have none: "filter (\<lambda>(idx, _). idx < 1) (enumerate 1 is) = []" for "is" :: "string list"
    by (auto simp: filter_empty_conv in_set_enumerate_eq)
  show ?thesis
    using rest [of "map snd (q # rest)"] none [of "map snd (q # rest)"]
    unfolding flush_insert_batch_def Let_def pr by (simp add: assms(3) enumerate_simps(2) [of 0])
qed

text \<open>A follower, node 2, of the leader, node 1.\<close>

definition two_docs :: "(document \<times> string) list" where
  "two_docs = [(doc_new (DocumentId ''1''), ''1''), (doc_new (DocumentId ''2''), ''2'')]"

definition two_raft :: "(demo_store \<times> unit, unit) raft_api" where
  "two_raft = demo_raft\<lparr>ra_client_write := (\<lambda>n cmd w.
     if n = 2 then (w, Inl (ForwardToLeader (Some 1))) else ra_client_write demo_raft n cmd w)\<rparr>"

definition two_net :: "(demo_store \<times> unit, unit, unit) net_api" where
  "two_net = demo_net\<lparr>
     na_codec := \<lparr>enc_cmd = (\<lambda>_. Inr []), dec_cmd = (\<lambda>_. Inr (BatchInsert ''a'' (map fst two_docs)))\<rparr>,
     na_rpc := (\<lambda>ch b w. srv_forward_write two_raft
       \<lparr>enc_cmd = (\<lambda>_. Inr []), dec_cmd = (\<lambda>_. Inr (BatchInsert ''a'' (map fst two_docs)))\<rparr> 1 b w)\<rparr>"

theorem forwarded_batch_reports_failures_witness:
  "\<exists>ap ap'. flush_insert_batch (demo_env\<lparr>en_raft := two_raft, en_net := two_net\<rparr>) ''a'' two_docs ap =
    (ap', [item_ok ''index'' ''1'' 201, item_error ''index'' ''2'' 500 ''failed during batch apply''], True, 1)"
proof -
  obtain ap0 where ap0: "leads_with mem_engine unary_codec demo_env noop_index snd ''a'' Map.empty ap0" by (rule demo_leads)
  let ?en = "demo_env\<lparr>en_raft := two_raft, en_net := two_net\<rparr>" and ?ap = "ap0\<lparr>ap_node := 2, ap_pool := pool_new\<rparr>"
  let ?cmd = "BatchInsert ''a'' (map fst two_docs)"
  have lw: "leads_with mem_engine unary_codec demo_env noop_index snd ''a'' Map.empty (ap0\<lparr>ap_node := 1\<rparr>)"
    using ap0 demo_commits by (simp add: leads_with_def)
  obtain w where "ra_client_write demo_raft 1 ?cmd (ap_world ap0) = (w, Inr (rr_ok_batch (Suc (Suc 0))))"
    using leads_batch [OF lw, of "map fst two_docs"]
    by (cases "ra_client_write demo_raft 1 ?cmd (ap_world ap0)")
      (auto simp: ap_propose_def propose_or_forward_def propose_def demo_env_def demo_raft_def two_docs_def Let_def split: prod.splits)
  then have cw: "ra_client_write (en_raft ?en) 1 ?cmd (ap_world ?ap) = (w, Inr (rr_ok_batch (length two_docs)))"
    by (simp add: two_raft_def two_docs_def)
  have lr: "leader_reachable (en_raft ?en) (en_net ?en) (ap_node ?ap) 1 ?cmd (ap_pool ?ap) (ap_world ?ap)"
    by (simp add: leader_reachable_def two_raft_def demo_raft_def two_net_def demo_net_def pool_get_def pool_new_def
        pool_with_config_def Let_def)
  from forwarded_batch_reports_failures [OF lr cw two_docs_def] show ?thesis by auto
qed

end
