(* ===== verification/Rpc.thy ===== *)
theory Rpc
  imports Forwarding Cluster_Manager Query_Engine
begin

text \<open>
  The remote calls between nodes: both ends of the search, get, health, join, snapshot and gossip
  calls (\<^verbatim>\<open>crates/network/src/client.rs\<close>, \<^verbatim>\<open>crates/network/src/server.rs\<close>), the
  network of the consensus library (\<^verbatim>\<open>crates/network/src/raft_network.rs\<close>), membership changes
  (\<^verbatim>\<open>crates/consensus/src/raft_node.rs\<close>) and joining a cluster
  (\<^verbatim>\<open>crates/node/src/cluster_manager.rs\<close>). Forwarded writes are in \<open>Forwarding\<close>.

  JSON codecs are pairs of functions, the gRPC transport is a function from a channel and a
  request to a response or the message of a failed call, and openraft is a function on the state
  of the cluster.
\<close>

section \<open>Search and get\<close>

record ('a, 'b) serde =
  to_vec :: "'a \<Rightarrow> string + string"
  from_slice :: "string \<Rightarrow> string + 'b"

text \<open>A value that the codec carries: its encoding is not empty and decodes to it.\<close>

definition carries :: "('a, 'a) serde \<Rightarrow> 'a \<Rightarrow> bool" where
  "carries sd x \<longleftrightarrow>
     (case to_vec sd x of Inl _ \<Rightarrow> False | Inr b \<Rightarrow> b \<noteq> [] \<and> from_slice sd b = Inr x)"

record search_request_msg =
  sm_query :: string
  sm_limit :: u32

record search_response_msg =
  sp_result :: string
  sp_error :: string

definition srv_search ::
    "(query, query) serde \<Rightarrow> (search_result, search_result) serde \<Rightarrow> (query \<Rightarrow> search_result db_result) \<Rightarrow>
     search_request_msg \<Rightarrow> string + search_response_msg" where
  "srv_search qd rd index_search req =
     (case from_slice qd (sm_query req) of
        Inl e \<Rightarrow> Inl (''failed to deserialize Query: '' @ e)
      | Inr query \<Rightarrow> (case index_search query of
            Inr result \<Rightarrow> (case to_vec rd result of
                Inl e \<Rightarrow> Inl (''failed to serialize SearchResult: '' @ e)
              | Inr payload \<Rightarrow> Inr \<lparr>sp_result = payload, sp_error = []\<rparr>)
          | Inl e \<Rightarrow> Inr \<lparr>sp_result = [], sp_error = db_error_display e\<rparr>))"

definition client_search ::
    "(query, query) serde \<Rightarrow> (search_result, search_result) serde \<Rightarrow>
     ('ch \<Rightarrow> search_request_msg \<Rightarrow> string + search_response_msg) \<Rightarrow> 'ch \<Rightarrow> query \<Rightarrow> nat \<Rightarrow> search_result db_result" where
  "client_search qd rd rpc ch query limit =
     (case to_vec qd query of
        Inl e \<Rightarrow> Inl (SerializationError (''serialize Query: '' @ e))
      | Inr query_bytes \<Rightarrow> (case rpc ch \<lparr>sm_query = query_bytes, sm_limit = word_of_nat limit\<rparr> of
            Inl e \<Rightarrow> Inl (NetworkError (''search RPC failed: '' @ e))
          | Inr inner \<Rightarrow>
              if sp_error inner \<noteq> [] then Inl (NetworkError (''remote search error: '' @ sp_error inner))
              else (case from_slice rd (sp_result inner) of
                  Inl e \<Rightarrow> Inl (SerializationError (''deserialize SearchResult: '' @ e))
                | Inr result \<Rightarrow> Inr result)))"

record get_response_msg =
  gp_document :: string
  gp_found :: bool
  gp_error :: string

definition srv_get ::
    "(document, document) serde \<Rightarrow> (document_id \<Rightarrow> document db_result) \<Rightarrow> string \<Rightarrow> string + get_response_msg" where
  "srv_get dd storage_get document_id =
     (case storage_get (DocumentId document_id) of
        Inr doc \<Rightarrow> (case to_vec dd doc of
            Inl e \<Rightarrow> Inl (''failed to serialize Document: '' @ e)
          | Inr payload \<Rightarrow> Inr \<lparr>gp_document = payload, gp_found = True, gp_error = []\<rparr>)
      | Inl (NotFound _) \<Rightarrow> Inr \<lparr>gp_document = [], gp_found = False, gp_error = []\<rparr>
      | Inl e \<Rightarrow> Inr \<lparr>gp_document = [], gp_found = False, gp_error = db_error_display e\<rparr>)"

definition client_get ::
    "(document, document) serde \<Rightarrow> ('ch \<Rightarrow> string \<Rightarrow> string + get_response_msg) \<Rightarrow> 'ch \<Rightarrow> document_id \<Rightarrow>
     document option db_result" where
  "client_get dd rpc ch i =
     (case rpc ch (as_str i) of
        Inl e \<Rightarrow> Inl (NetworkError (''get RPC failed: '' @ e))
      | Inr inner \<Rightarrow>
          if gp_error inner \<noteq> [] then Inl (NetworkError (''remote get error: '' @ gp_error inner))
          else if \<not> gp_found inner then Inr None
          else (case from_slice dd (gp_document inner) of
              Inl e \<Rightarrow> Inl (SerializationError (''deserialize Document: '' @ e))
            | Inr doc \<Rightarrow> Inr (Some doc)))"

text \<open>The streaming search: the elements of the stream, or the failure of the call.\<close>

record scatter_result_msg =
  sx_scored_document :: string
  sx_node_id :: u64

definition srv_scatter ::
    "(query, query) serde \<Rightarrow> (scored_document, scored_document) serde \<Rightarrow> (query \<Rightarrow> search_result db_result) \<Rightarrow> u64 \<Rightarrow>
     string \<Rightarrow> string + (string + scatter_result_msg) list" where
  "srv_scatter qd sd index_search n query_bytes =
     (case from_slice qd query_bytes of
        Inl e \<Rightarrow> Inl (''failed to deserialize Query: '' @ e)
      | Inr query \<Rightarrow> (case index_search query of
            Inl e \<Rightarrow> Inl (''local search failed: '' @ db_error_display e)
          | Inr result \<Rightarrow> Inr (map (\<lambda>scored. case to_vec sd scored of
                Inl e \<Rightarrow> Inl (''failed to serialize ScoredDocument: '' @ e)
              | Inr payload \<Rightarrow> Inr \<lparr>sx_scored_document = payload, sx_node_id = n\<rparr>) (sr_documents result))))"

section \<open>Health\<close>

record raft_metrics =
  rm_current_leader :: "u64 option"
  rm_is_leader :: bool
  rm_current_term :: u64
  rm_last_applied :: "u64 option"

record health_status =
  hs_node_id :: u64
  hs_status :: string
  hs_leader_id :: u64
  hs_current_term :: u64
  hs_last_applied :: u64
  hs_is_healthy :: bool

definition srv_health_check :: "u64 \<Rightarrow> raft_metrics \<Rightarrow> health_status" where
  "srv_health_check n m =
     \<lparr>hs_node_id = n, hs_status = (if rm_is_leader m then ''Leader'' else ''Follower''),
      hs_leader_id = (case rm_current_leader m of Some l \<Rightarrow> l | None \<Rightarrow> 0), hs_current_term = rm_current_term m,
      hs_last_applied = (case rm_last_applied m of Some i \<Rightarrow> i | None \<Rightarrow> 0), hs_is_healthy = True\<rparr>"

definition client_health_check :: "('ch \<Rightarrow> string + health_status) \<Rightarrow> 'ch \<Rightarrow> health_status db_result" where
  "client_health_check rpc ch =
     (case rpc ch of
        Inl e \<Rightarrow> Inl (NetworkError (''health_check RPC failed: '' @ e))
      | Inr inner \<Rightarrow> Inr inner)"

section \<open>Membership\<close>

text \<open>
  The membership calls of openraft on a node: adding a learner under an address, and
  \<^verbatim>\<open>ChangeMembers::SetNodes\<close> with a map from node numbers to addresses.
\<close>

record 'w member_api =
  ma_add_learner :: "u64 \<Rightarrow> u64 \<Rightarrow> string \<Rightarrow> 'w \<Rightarrow> 'w \<times> (string + unit)"
  ma_set_nodes :: "u64 \<Rightarrow> (u64, string) fmap \<Rightarrow> 'w \<Rightarrow> 'w \<times> (string + unit)"

definition add_learner :: "'w member_api \<Rightarrow> u64 \<Rightarrow> u64 \<Rightarrow> node_address \<Rightarrow> 'w \<Rightarrow> 'w \<times> unit db_result" where
  "add_learner ma n learner addr w =
     (case ma_add_learner ma n learner (host addr @ '':'' @ dec (unat (port addr))) w of
        (w1, Inl e) \<Rightarrow> (w1, Inl (ConsensusError (''add_learner failed: '' @ e)))
      | (w1, Inr _) \<Rightarrow> (w1, Inr ()))"

definition change_membership :: "'w member_api \<Rightarrow> u64 \<Rightarrow> u64 list \<Rightarrow> 'w \<Rightarrow> 'w \<times> unit db_result" where
  "change_membership ma n members w =
     (let member_set = fold (\<lambda>i m. fmupd i [] m) members fmempty in
      case ma_set_nodes ma n member_set w of
        (w1, Inl e) \<Rightarrow> (w1, Inl (ConsensusError (''change_membership failed: '' @ e)))
      | (w1, Inr _) \<Rightarrow> (w1, Inr ()))"

record join_response =
  jr_success :: bool
  jr_error :: string
  jr_leader_id :: u64

definition join_address :: "string \<Rightarrow> node_address" where
  "join_address address =
     (case split_last_colon address of
        Some (h, p) \<Rightarrow> \<lparr>host = h, port = (case parse_u16 p of Some x \<Rightarrow> x | None \<Rightarrow> 0)\<rparr>
      | None \<Rightarrow> \<lparr>host = address, port = 0\<rparr>)"

definition srv_join_cluster ::
    "('w, 'sc) raft_api \<Rightarrow> 'w member_api \<Rightarrow> u64 \<Rightarrow> u64 \<Rightarrow> string \<Rightarrow> 'w \<Rightarrow> 'w \<times> join_response" where
  "srv_join_cluster ra ma n node_id address w =
     (let (w1, r) = add_learner ma n node_id (join_address address) w;
          leader_id = (case ra_current_leader ra n w1 of Some l \<Rightarrow> l | None \<Rightarrow> 0) in
      case r of
        Inr _ \<Rightarrow> (w1, \<lparr>jr_success = True, jr_error = [], jr_leader_id = leader_id\<rparr>)
      | Inl e \<Rightarrow> (w1, \<lparr>jr_success = False, jr_error = db_error_display e, jr_leader_id = leader_id\<rparr>))"

definition client_join_cluster ::
    "('ch \<Rightarrow> u64 \<Rightarrow> string \<Rightarrow> 'w \<Rightarrow> 'w \<times> (string + join_response)) \<Rightarrow> 'ch \<Rightarrow> u64 \<Rightarrow> string \<Rightarrow> 'w \<Rightarrow> 'w \<times> unit db_result" where
  "client_join_cluster rpc ch node_id address w =
     (case rpc ch node_id address w of
        (w1, Inl e) \<Rightarrow> (w1, Inl (NetworkError (''join_cluster RPC failed: '' @ e)))
      | (w1, Inr inner) \<Rightarrow>
          if jr_success inner then (w1, Inr ())
          else (w1, Inl (NetworkError (''join_cluster rejected: '' @ jr_error inner))))"

text \<open>The bootstrap peer is pooled under the placeholder number 0.\<close>

definition join_cluster ::
    "(node_address \<Rightarrow> 'ch db_result) \<Rightarrow> nat \<Rightarrow> ('ch \<Rightarrow> u64 \<Rightarrow> string \<Rightarrow> 'w \<Rightarrow> 'w \<times> (string + join_response)) \<Rightarrow>
     node_address \<Rightarrow> 'ch cluster_manager \<Rightarrow> 'w \<Rightarrow> 'ch cluster_manager \<times> 'w \<times> unit db_result" where
  "join_cluster connect now rpc bootstrap_peer cm w =
     (case pool_get connect (cm_pool cm) now (NodeId 0) bootstrap_peer of
        (pool, Inl e) \<Rightarrow> (cm\<lparr>cm_pool := pool\<rparr>, w, Inl e)
      | (pool, Inr ch) \<Rightarrow>
          (cm\<lparr>cm_pool := pool\<rparr>,
           client_join_cluster rpc ch (as_u64 (ni_id (cm_local_node cm))) (node_address_display (ni_address (cm_local_node cm))) w))"

section \<open>Gossip\<close>

text \<open>The server answers with the view it was sent; the node crate never replaces this handler.\<close>

record gossip_wire =
  gw_cluster_view :: string
  gw_sender_id :: u64

definition srv_gossip_exchange :: "u64 \<Rightarrow> gossip_wire \<Rightarrow> gossip_wire" where
  "srv_gossip_exchange n inner = \<lparr>gw_cluster_view = gw_cluster_view inner, gw_sender_id = n\<rparr>"

definition client_gossip_exchange :: "('ch \<Rightarrow> gossip_wire \<Rightarrow> string + gossip_wire) \<Rightarrow> 'ch \<Rightarrow> u64 \<Rightarrow> string \<Rightarrow> string db_result" where
  "client_gossip_exchange rpc ch sender_id view_bytes =
     (case rpc ch \<lparr>gw_cluster_view = view_bytes, gw_sender_id = sender_id\<rparr> of
        Inl e \<Rightarrow> Inl (NetworkError (''gossip_exchange RPC failed: '' @ e))
      | Inr resp \<Rightarrow> Inr (gw_cluster_view resp))"

definition GOSSIP_FANOUT :: nat where
  "GOSSIP_FANOUT = 2"

text \<open>
  One turn of the gossip loop: the health observations are entered with the current time, then
  the view is sent to the chosen targets whose address the router knows. The reply is not used.
  The calls run as tasks of their own; their only effect on the manager is the pool. \<open>itv\<close> is the
  order of the gossip state and \<open>ith\<close> that of the health table.
\<close>

definition gossip_send ::
    "(node_address \<Rightarrow> 'ch db_result) \<Rightarrow> nat \<Rightarrow> ('ch \<Rightarrow> gossip_wire \<Rightarrow> string + gossip_wire) \<Rightarrow> string \<Rightarrow> node_id \<Rightarrow>
     'ch cluster_manager \<Rightarrow> 'ch cluster_manager" where
  "gossip_send connect now rpc gossip_bytes target m =
     (case router_get_node (cm_router m) target of
        None \<Rightarrow> m
      | Some info \<Rightarrow>
          (case pool_get connect (cm_pool m) now target (ni_address info) of
             (pool, Inl _) \<Rightarrow> m\<lparr>cm_pool := pool\<rparr>
           | (pool, Inr ch) \<Rightarrow>
               (let _ = client_gossip_exchange rpc ch (as_u64 (ni_id (cm_local_node m))) gossip_bytes in m\<lparr>cm_pool := pool\<rparr>)))"

definition gossip_round ::
    "((node_id, node_health) fmap \<Rightarrow> (node_id \<times> node_health) list) \<Rightarrow>
     ((node_id, node_status \<times> u64) fmap \<Rightarrow> (node_id \<times> node_status \<times> u64) list) \<Rightarrow>
     (node_address \<Rightarrow> 'ch db_result) \<Rightarrow> nat \<Rightarrow> (node_id \<Rightarrow> u64) \<Rightarrow> ('ch \<Rightarrow> gossip_wire \<Rightarrow> string + gossip_wire) \<Rightarrow>
     (gossip_message \<Rightarrow> string + string) \<Rightarrow> 'ch cluster_manager \<Rightarrow> 'ch cluster_manager" where
  "gossip_round ith itv connect now wall rpc enc m =
     (let gossip = fold (\<lambda>(n, hl) g. update_local g n (nh_status hl) (wall n)) (ith (cm_health_state m)) (cm_gossip m);
          message = build_message itv gossip;
          targets = select_gossip_targets itv gossip GOSSIP_FANOUT;
          gossip_bytes = (case enc message of Inr b \<Rightarrow> b | Inl _ \<Rightarrow> []) in
      fold (gossip_send connect now rpc gossip_bytes) targets (m\<lparr>cm_gossip := gossip\<rparr>))"

section \<open>Snapshot streams\<close>

record snapshot_chunk =
  sk_offset :: u64
  sk_data :: string
  sk_done :: bool
  sk_metadata :: string

text \<open>The loop that cuts a snapshot into chunks; None stands for a loop that does not end.\<close>

partial_function (option) chunk_loop :: "string \<Rightarrow> string \<Rightarrow> nat \<Rightarrow> nat \<Rightarrow> bool \<Rightarrow> snapshot_chunk list option" where
  "chunk_loop data metadata chunk_size offset first =
     (if offset < length data then
        Option.bind
          (chunk_loop data metadata chunk_size (min (offset + chunk_size) (length data)) False)
          (\<lambda>rest. Some (
             \<lparr>sk_offset = word_of_nat offset, sk_data = drop offset (take (min (offset + chunk_size) (length data)) data),
              sk_done = (min (offset + chunk_size) (length data) = length data), sk_metadata = (if first then metadata else [])\<rparr> # rest))
      else Some [])"

definition snapshot_chunks :: "string \<Rightarrow> string \<Rightarrow> nat \<Rightarrow> snapshot_chunk list option" where
  "snapshot_chunks data metadata chunk_size =
     map_option (\<lambda>chunks. if chunks = [] then [\<lparr>sk_offset = 0, sk_data = [], sk_done = True, sk_metadata = metadata\<rparr>] else chunks)
       (chunk_loop data metadata chunk_size 0 True)"

definition send_install_snapshot ::
    "('ch \<Rightarrow> snapshot_chunk list \<Rightarrow> 'w \<Rightarrow> 'w \<times> (string + string)) \<Rightarrow> 'ch \<Rightarrow> string \<Rightarrow> string \<Rightarrow> nat \<Rightarrow> 'w \<Rightarrow>
     ('w \<times> unit db_result) option" where
  "send_install_snapshot rpc ch data metadata chunk_size w =
     map_option (\<lambda>chunks. case rpc ch chunks w of
         (w1, Inl e) \<Rightarrow> (w1, Inl (NetworkError (''install_snapshot RPC failed: '' @ e)))
       | (w1, Inr _) \<Rightarrow> (w1, Inr ())) (snapshot_chunks data metadata chunk_size)"

text \<open>The receiving loop, on the elements of the stream: an element may be a transport error.\<close>

fun receive_chunks :: "(string + snapshot_chunk) list \<Rightarrow> string \<Rightarrow> string option \<Rightarrow> string + (string \<times> string option)" where
  "receive_chunks [] full_data meta = Inr (full_data, meta)"
| "receive_chunks (Inl e # cs) full_data meta = Inl e"
| "receive_chunks (Inr c # cs) full_data meta =
     (let meta1 = (if sk_metadata c \<noteq> [] \<and> meta = None then Some (sk_metadata c) else meta);
          full1 = full_data @ sk_data c in
      if sk_done c then Inr (full1, meta1) else receive_chunks cs full1 meta1)"

definition srv_install_snapshot ::
    "('rq \<Rightarrow> 'w \<Rightarrow> 'w \<times> (string + 'rs)) \<Rightarrow> (string \<Rightarrow> string + 'rq) \<Rightarrow> ('rs \<Rightarrow> string + string) \<Rightarrow>
     (string + snapshot_chunk) list \<Rightarrow> 'w \<Rightarrow> 'w \<times> (string + string)" where
  "srv_install_snapshot raft_install dec_req enc_resp stream w =
     (case receive_chunks stream [] None of
        Inl e \<Rightarrow> (w, Inl e)
      | Inr (full_data, None) \<Rightarrow> (w, Inl ''no snapshot metadata received'')
      | Inr (full_data, Some meta) \<Rightarrow>
          (case dec_req meta of
             Inl e \<Rightarrow> (w, Inl (''failed to deserialize snapshot metadata: '' @ e))
           | Inr raft_req \<Rightarrow>
               (case raft_install raft_req w of
                  (w1, Inr resp) \<Rightarrow> (case enc_resp resp of
                      Inl e \<Rightarrow> (w1, Inl (''failed to serialize InstallSnapshot response: '' @ e))
                    | Inr payload \<Rightarrow> (w1, Inr payload))
                | (w1, Inl e) \<Rightarrow> (w1, Inl (''install_snapshot failed: '' @ e)))))"

section \<open>The network of the consensus library\<close>

datatype io_kind = ConnectionRefused | ConnectionReset | InvalidData

datatype rpc_error = Unreachable io_kind string

definition grpc_endpoint :: "string \<Rightarrow> string" where
  "grpc_endpoint addr = (if prefix ''http://'' addr \<or> prefix ''https://'' addr then addr else ''http://'' @ addr)"

definition grpc_connect ::
    "(string \<Rightarrow> string option) \<Rightarrow> (nat \<Rightarrow> string + 'ch) \<Rightarrow> string \<Rightarrow> rpc_error + 'ch" where
  "grpc_connect invalid attempt_conn addr =
     (case snd (connect_to_endpoint invalid attempt_conn (grpc_endpoint addr)) of
        Inr ch \<Rightarrow> Inr ch
      | Inl e \<Rightarrow> Inl (Unreachable ConnectionRefused (''failed to connect to '' @ addr @ '': '' @ db_error_display e)))"

text \<open>The calls that carry consensus messages as bytes, client and server end.\<close>

definition send_payload ::
    "string \<Rightarrow> ('ch \<Rightarrow> string \<Rightarrow> 'w \<Rightarrow> 'w \<times> (string + string)) \<Rightarrow> 'ch \<Rightarrow> string \<Rightarrow> 'w \<Rightarrow> 'w \<times> string db_result" where
  "send_payload name rpc ch payload w =
     (case rpc ch payload w of
        (w1, Inl e) \<Rightarrow> (w1, Inl (NetworkError (name @ '' RPC failed: '' @ e)))
      | (w1, Inr resp) \<Rightarrow> (w1, Inr resp))"

definition srv_append_entries ::
    "('rq, 'rq) serde \<Rightarrow> ('rs, 'rs) serde \<Rightarrow> ('rq \<Rightarrow> 'w \<Rightarrow> 'w \<times> (string + 'rs)) \<Rightarrow> string \<Rightarrow> 'w \<Rightarrow> 'w \<times> (string + string)" where
  "srv_append_entries rq rs raft_append payload w =
     (case from_slice rq payload of
        Inl e \<Rightarrow> (w, Inl (''failed to deserialize AppendEntries: '' @ e))
      | Inr raft_req \<Rightarrow>
          (case raft_append raft_req w of
             (w1, Inr resp) \<Rightarrow> (case to_vec rs resp of
                 Inl e \<Rightarrow> (w1, Inl (''failed to serialize AppendEntries response: '' @ e))
               | Inr out \<Rightarrow> (w1, Inr out))
           | (w1, Inl e) \<Rightarrow> (w1, Inl (''append_entries failed: '' @ e))))"

definition srv_request_vote ::
    "('rq, 'rq) serde \<Rightarrow> ('rs, 'rs) serde \<Rightarrow> ('rq \<Rightarrow> 'w \<Rightarrow> 'w \<times> (string + 'rs)) \<Rightarrow> string \<Rightarrow> 'w \<Rightarrow> 'w \<times> (string + string)" where
  "srv_request_vote rq rs raft_vote payload w =
     (case from_slice rq payload of
        Inl e \<Rightarrow> (w, Inl (''failed to deserialize VoteRequest: '' @ e))
      | Inr raft_req \<Rightarrow>
          (case raft_vote raft_req w of
             (w1, Inr resp) \<Rightarrow> (case to_vec rs resp of
                 Inl e \<Rightarrow> (w1, Inl (''failed to serialize VoteResponse: '' @ e))
               | Inr out \<Rightarrow> (w1, Inr out))
           | (w1, Inl e) \<Rightarrow> (w1, Inl (''request_vote failed: '' @ e))))"

definition grpc_append_entries ::
    "('rq, 'rq) serde \<Rightarrow> ('rs, 'rs) serde \<Rightarrow> rpc_error + 'ch \<Rightarrow> ('ch \<Rightarrow> string \<Rightarrow> 'w \<Rightarrow> 'w \<times> (string + string)) \<Rightarrow>
     'rq \<Rightarrow> 'w \<Rightarrow> 'w \<times> (rpc_error + 'rs)" where
  "grpc_append_entries rq rs conn rpc req w =
     (case conn of
        Inl e \<Rightarrow> (w, Inl e)
      | Inr ch \<Rightarrow> (case to_vec rq req of
            Inl e \<Rightarrow> (w, Inl (Unreachable InvalidData (''serialize AppendEntriesRequest: '' @ e)))
          | Inr payload \<Rightarrow> (case send_payload ''append_entries'' rpc ch payload w of
                (w1, Inl e) \<Rightarrow> (w1, Inl (Unreachable ConnectionReset (''append_entries RPC: '' @ db_error_display e)))
              | (w1, Inr resp_bytes) \<Rightarrow> (case from_slice rs resp_bytes of
                    Inl e \<Rightarrow> (w1, Inl (Unreachable InvalidData (''deserialize AppendEntriesResponse: '' @ e)))
                  | Inr resp \<Rightarrow> (w1, Inr resp)))))"

definition grpc_vote ::
    "('rq, 'rq) serde \<Rightarrow> ('rs, 'rs) serde \<Rightarrow> rpc_error + 'ch \<Rightarrow> ('ch \<Rightarrow> string \<Rightarrow> 'w \<Rightarrow> 'w \<times> (string + string)) \<Rightarrow>
     'rq \<Rightarrow> 'w \<Rightarrow> 'w \<times> (rpc_error + 'rs)" where
  "grpc_vote rq rs conn rpc req w =
     (case conn of
        Inl e \<Rightarrow> (w, Inl e)
      | Inr ch \<Rightarrow> (case to_vec rq req of
            Inl e \<Rightarrow> (w, Inl (Unreachable InvalidData (''serialize VoteRequest: '' @ e)))
          | Inr payload \<Rightarrow> (case send_payload ''request_vote'' rpc ch payload w of
                (w1, Inl e) \<Rightarrow> (w1, Inl (Unreachable ConnectionReset (''vote RPC: '' @ db_error_display e)))
              | (w1, Inr resp_bytes) \<Rightarrow> (case from_slice rs resp_bytes of
                    Inl e \<Rightarrow> (w1, Inl (Unreachable InvalidData (''deserialize VoteResponse: '' @ e)))
                  | Inr resp \<Rightarrow> (w1, Inr resp)))))"

text \<open>
  A failed connection is wrapped once more; \<open>show_err\<close> is the library's rendering of the error.
  The whole request travels as the metadata of one chunk.
\<close>

definition grpc_install_snapshot ::
    "(rpc_error \<Rightarrow> string) \<Rightarrow> ('rq, 'rq) serde \<Rightarrow> ('rs, 'rs) serde \<Rightarrow> rpc_error + 'ch \<Rightarrow>
     ('ch \<Rightarrow> snapshot_chunk list \<Rightarrow> 'w \<Rightarrow> 'w \<times> (string + string)) \<Rightarrow> 'rq \<Rightarrow> 'w \<Rightarrow> 'w \<times> (rpc_error + 'rs)" where
  "grpc_install_snapshot show_err rq rs conn rpc req w =
     (case conn of
        Inl e \<Rightarrow> (w, Inl (Unreachable ConnectionRefused (show_err e)))
      | Inr ch \<Rightarrow> (case to_vec rq req of
            Inl e \<Rightarrow> (w, Inl (Unreachable InvalidData (''serialize InstallSnapshotRequest: '' @ e)))
          | Inr metadata \<Rightarrow>
              (case rpc ch [\<lparr>sk_offset = 0, sk_data = [], sk_done = True, sk_metadata = metadata\<rparr>] w of
                 (w1, Inl e) \<Rightarrow> (w1, Inl (Unreachable ConnectionReset (''install_snapshot RPC: '' @ e)))
               | (w1, Inr resp_bytes) \<Rightarrow> (case from_slice rs resp_bytes of
                     Inl e \<Rightarrow> (w1, Inl (Unreachable InvalidData (''deserialize InstallSnapshotResponse: '' @ e)))
                   | Inr resp \<Rightarrow> (w1, Inr resp)))))"

section \<open>Lemmas\<close>

lemma carriesE:
  assumes "carries sd x"
  obtains b where "b \<noteq> []" "to_vec sd x = Inr b" "from_slice sd b = Inr x"
  using assms by (auto simp: carries_def split: sum.splits)

lemma display_nonempty [simp]: "db_error_display e \<noteq> []"
  by (cases e) simp_all

lemma split_last_colon_append:
  assumes "CHR '':'' \<notin> set p"
  shows "split_last_colon (h @ '':'' @ p) = Some (h, p)"
proof -
  have "takeWhile (\<lambda>c. c \<noteq> CHR '':'') (rev p @ CHR '':'' # rev h) = rev p"
    using assms by (subst takeWhile_append2) auto
  then show ?thesis by (simp add: split_last_colon_def)
qed

lemma split_display:
  "split_last_colon (node_address_display a) = Some (host a, dec (unat (port a)))"
proof -
  have "\<not> is_digit CHR '':''" by (simp add: is_digit_def)
  then show ?thesis
    unfolding node_address_display_def by (intro split_last_colon_append not_digit_notin_dec)
qed

lemma parse_u16_dec: "parse_u16 (dec (unat (w :: u16))) = Some w"
proof -
  have "unat w < 2 ^ 16" using unsigned_less [of w] by simp
  then show ?thesis by (simp add: parse_u16_def parse_uint_dec)
qed

lemma member_address_display: "member_address (node_address_display a) = a"
  by (simp add: member_address_def split_display parse_u16_dec)

lemma join_address_display: "join_address (node_address_display a) = a"
  by (simp add: join_address_def split_display parse_u16_dec)

text \<open>The chunk loop.\<close>

lemma chunk_loop_stuck:
  assumes "chunk_loop data metadata cs offset first = Some y" "cs = 0"
  shows "\<not> offset < length data"
proof -
  have "cs = 0 \<longrightarrow> \<not> offset < length data"
  proof (rule chunk_loop.raw_induct [OF _ assms(1)])
    fix rec data metadata cs offset first y
    assume IH: "\<And>data metadata cs offset first (y :: snapshot_chunk list).
        rec data metadata cs offset first = Some y \<Longrightarrow> cs = 0 \<longrightarrow> \<not> offset < length (data :: string)"
      and step: "(if offset < length data then
        Option.bind (rec data metadata cs (min (offset + cs) (length data)) False)
          (\<lambda>rest. Some (\<lparr>sk_offset = word_of_nat offset,
              sk_data = drop offset (take (min (offset + cs) (length data)) data),
              sk_done = (min (offset + cs) (length data) = length data), sk_metadata = (if first then metadata else [])\<rparr> # rest))
        else Some []) = Some y"
    show "cs = 0 \<longrightarrow> \<not> offset < length data"
    proof (intro impI notI)
      assume "cs = 0" and lt: "offset < length data"
      with step obtain rest where "rec data metadata cs offset False = Some rest"
        by (auto simp: bind_eq_Some_conv)
      with IH \<open>cs = 0\<close> lt show False by blast
    qed
  qed
  with assms(2) show ?thesis by blast
qed

lemma chunk_loop_correct:
  assumes "0 < cs" "offset \<le> length data"
  shows "\<exists>chunks. chunk_loop data metadata cs offset first = Some chunks \<and>
    (chunks = [] \<longleftrightarrow> offset = length data) \<and>
    (\<forall>c \<in> set chunks. sk_data c \<noteq> [] \<and> length (sk_data c) \<le> cs) \<and>
    (chunks \<noteq> [] \<longrightarrow> (metadata = [] \<or> \<not> first \<or> meta = None) \<longrightarrow>
      receive_chunks (map Inr chunks @ rest) full meta =
        Inr (full @ drop offset data, if first \<and> metadata \<noteq> [] then Some metadata else meta))"
  using assms(2)
proof (induction "length data - offset" arbitrary: offset first full meta rule: less_induct)
  case less
  show ?case
  proof (cases "offset < length data")
    case False
    with less.prems show ?thesis by (simp add: chunk_loop.simps [of data])
  next
    case True
    define e where "e = min (offset + cs) (length data)"
    define piece where "piece = drop offset (take e data)"
    define m where "m = (if first \<and> metadata \<noteq> [] then Some metadata else meta)"
    let ?c = "\<lparr>sk_offset = word_of_nat offset, sk_data = piece, sk_done = (e = length data),
      sk_metadata = (if first then metadata else [])\<rparr>"
    have e: "offset < e" "e \<le> length data" "e - offset \<le> cs" using True assms(1) by (auto simp: e_def)
    then have "\<exists>chunks. chunk_loop data metadata cs e False = Some chunks \<and> (chunks = [] \<longleftrightarrow> e = length data) \<and>
      (\<forall>c \<in> set chunks. sk_data c \<noteq> [] \<and> length (sk_data c) \<le> cs) \<and>
      (chunks \<noteq> [] \<longrightarrow> receive_chunks (map Inr chunks @ rest) (full @ piece) m = Inr ((full @ piece) @ drop e data, m))"
      using less.hyps [where offset = e and first = False and full = "full @ piece" and meta = m] True by simp
    then obtain chunks where IH: "chunk_loop data metadata cs e False = Some chunks" "chunks = [] \<longleftrightarrow> e = length data"
      "\<forall>c \<in> set chunks. sk_data c \<noteq> [] \<and> length (sk_data c) \<le> cs"
      "chunks \<noteq> [] \<longrightarrow> receive_chunks (map Inr chunks @ rest) (full @ piece) m = Inr ((full @ piece) @ drop e data, m)"
      by blast
    have "drop offset (take e data @ drop e data) = piece @ drop e data"
      unfolding piece_def using e by (subst drop_append) simp
    then have split: "drop offset data = piece @ drop e data" by simp
    have piece: "length piece = e - offset" using e by (simp add: piece_def)
    with e have "piece \<noteq> []" by auto
    have run: "chunk_loop data metadata cs offset first = Some (?c # chunks)"
      using True IH(1) unfolding chunk_loop.simps [of data metadata cs offset] e_def [symmetric] piece_def [symmetric] by simp
    have "receive_chunks (map Inr (?c # chunks) @ rest) full meta = Inr (full @ drop offset data, m)"
      if "metadata = [] \<or> \<not> first \<or> meta = None"
      using that IH(2,4) split by (cases "e = length data") (auto simp: Let_def m_def)
    with run IH(3) piece e \<open>piece \<noteq> []\<close> True show ?thesis
      unfolding m_def by (intro exI [of _ "?c # chunks"]) auto
  qed
qed

lemma gossip_send_gossip [simp]: "cm_gossip (gossip_send connect now rpc b t m) = cm_gossip m"
  by (auto simp: gossip_send_def Let_def split: option.splits prod.splits sum.splits)

lemma gossip_send_health [simp]: "cm_health_state (gossip_send connect now rpc b t m) = cm_health_state m"
  by (auto simp: gossip_send_def Let_def split: option.splits prod.splits sum.splits)

lemma gossip_sends [simp]:
  "cm_gossip (fold (gossip_send connect now rpc b) ts m) = cm_gossip m"
  "cm_health_state (fold (gossip_send connect now rpc b) ts m) = cm_health_state m"
  by (induction ts arbitrary: m) simp_all

lemma fold_update_local_other:
  "n \<notin> fst ` set hs \<Longrightarrow>
    fmlookup (gossip_state (fold (\<lambda>(n, hl) g. update_local g n (nh_status hl) (wall n)) hs g)) n = fmlookup (gossip_state g) n"
  by (induction hs arbitrary: g) (auto simp: update_local_def Let_def)

lemma gossip_round_health [simp]:
  "cm_health_state (gossip_round ith itv connect now wall rpc enc m) = cm_health_state m"
  by (simp add: gossip_round_def Let_def)

lemma gossip_round_other:
  assumes "hash_iter ith" "n |\<notin>| fmdom (cm_health_state m)"
  shows "fmlookup (gossip_state (cm_gossip (gossip_round ith itv connect now wall rpc enc m))) n =
    fmlookup (gossip_state (cm_gossip m)) n"
proof -
  have "n \<notin> fst ` set (ith (cm_health_state m))"
    using assms(2) by (auto simp: hash_iter_set [OF assms(1)] fmdom_notI dest: fmdomI)
  then show ?thesis by (simp add: gossip_round_def Let_def fold_update_local_other)
qed

section \<open>Properties\<close>

text \<open>
  A search or a get on a remote node, with both ends of the call and the transport working and
  the values at hand carried by the codec, returns exactly what the backend of that node returns:
  results as they are, a missing document as \<^verbatim>\<open>None\<close>, and every other error as a network
  error with its text; an error never passes for a result. The limit of the search has no influence.
\<close>

theorem remote_reads_exact:
  assumes "carries qd q" and "\<And>r. index_search q = Inr r \<Longrightarrow> carries rd r" and "\<And>d. storage_get i = Inr d \<Longrightarrow> carries dd d"
  shows "client_search qd rd (\<lambda>_. srv_search qd rd index_search) ch q limit =
      (case index_search q of Inr r \<Rightarrow> Inr r | Inl e \<Rightarrow> Inl (NetworkError (''remote search error: '' @ db_error_display e))) \<and>
    client_get dd (\<lambda>_. srv_get dd storage_get) ch i =
      (case storage_get i of
         Inr d \<Rightarrow> Inr (Some d)
       | Inl (NotFound _) \<Rightarrow> Inr None
       | Inl e \<Rightarrow> Inl (NetworkError (''remote get error: '' @ db_error_display e)))"
proof -
  obtain b where "to_vec qd q = Inr b" "from_slice qd b = Inr q" using assms(1) by (rule carriesE)
  then have "client_search qd rd (\<lambda>_. srv_search qd rd index_search) ch q limit =
      (case index_search q of Inr r \<Rightarrow> Inr r | Inl e \<Rightarrow> Inl (NetworkError (''remote search error: '' @ db_error_display e)))"
    using assms(2) by (auto simp: client_search_def srv_search_def carries_def split: sum.splits)
  moreover have "client_get dd (\<lambda>_. srv_get dd storage_get) ch i =
      (case storage_get i of
         Inr d \<Rightarrow> Inr (Some d)
       | Inl (NotFound _) \<Rightarrow> Inr None
       | Inl e \<Rightarrow> Inl (NetworkError (''remote get error: '' @ db_error_display e)))"
    using assms(3) by (auto simp: client_get_def srv_get_def carries_def split: sum.splits db_error.splits)
  ultimately show ?thesis by blast
qed

definition const_serde :: "'a \<Rightarrow> ('a, 'a) serde" where
  "const_serde x = \<lparr>to_vec = (\<lambda>_. Inr ''x''), from_slice = (\<lambda>_. Inr x)\<rparr>"

lemma carries_const_serde: "carries (const_serde x) x"
  by (simp add: carries_def const_serde_def)

theorem remote_reads_exact_witness:
  "client_search (const_serde (Bool [] [] [])) (const_serde (search_result_empty 7))
     (\<lambda>_. srv_search (const_serde (Bool [] [] [])) (const_serde (search_result_empty 7)) (\<lambda>_. Inr (search_result_empty 7))) () (Bool [] [] []) 5 =
     Inr (search_result_empty 7) \<and>
   client_get (const_serde (doc_new (DocumentId ''a''))) (\<lambda>_. srv_get (const_serde (doc_new (DocumentId ''a''))) (\<lambda>_. Inl (NotFound ''a'')))
     () (DocumentId ''a'') = Inr None"
  using remote_reads_exact [where qd = "const_serde (Bool [] [] [])" and q = "Bool [] [] []" and index_search = "\<lambda>_. Inr (search_result_empty 7)"
      and rd = "const_serde (search_result_empty 7)" and storage_get = "\<lambda>_. Inl (NotFound ''a'')" and i = "DocumentId ''a''"
      and dd = "const_serde (doc_new (DocumentId ''a''))" and ch = "()" and limit = 5]
  by (simp add: carries_const_serde)

text \<open>
  Streaming a snapshot: with a positive chunk size the sender ends, every chunk is non-empty
  (unless the whole snapshot is empty) and no longer than the chunk size, and the receiver puts
  together exactly the bytes sent and the metadata, whatever follows on the stream. With chunk
  size 0 a sender with anything to send never ends.
\<close>

theorem snapshot_stream_roundtrip:
  assumes "metadata \<noteq> []"
  shows "(0 < chunk_size \<longrightarrow> (\<exists>chunks. snapshot_chunks data metadata chunk_size = Some chunks \<and>
      (\<forall>c \<in> set chunks. length (sk_data c) \<le> chunk_size \<and> (sk_data c = [] \<longrightarrow> data = [])) \<and>
      receive_chunks (map Inr chunks @ rest) [] None = Inr (data, Some metadata))) \<and>
    (chunk_size = 0 \<and> data \<noteq> [] \<longrightarrow> send_install_snapshot rpc ch data metadata chunk_size w = None)"
proof (intro conjI impI)
  assume "0 < chunk_size"
  then obtain chunks where c: "chunk_loop data metadata chunk_size 0 True = Some chunks" "chunks = [] \<longleftrightarrow> data = []"
    "\<forall>c \<in> set chunks. sk_data c \<noteq> [] \<and> length (sk_data c) \<le> chunk_size"
    "chunks \<noteq> [] \<longrightarrow> receive_chunks (map Inr chunks @ rest) [] None = Inr (data, Some metadata)"
    using chunk_loop_correct [of chunk_size 0 data metadata True None rest "[]"] assms by auto
  then show "\<exists>chunks. snapshot_chunks data metadata chunk_size = Some chunks \<and>
      (\<forall>c \<in> set chunks. length (sk_data c) \<le> chunk_size \<and> (sk_data c = [] \<longrightarrow> data = [])) \<and>
      receive_chunks (map Inr chunks @ rest) [] None = Inr (data, Some metadata)"
    using assms by (auto simp: snapshot_chunks_def)
next
  assume "chunk_size = 0 \<and> data \<noteq> []"
  then have "chunk_loop data metadata chunk_size 0 True = None"
    using chunk_loop_stuck [of data metadata chunk_size 0 True] by (cases "chunk_loop data metadata chunk_size 0 True") auto
  then show "send_install_snapshot rpc ch data metadata chunk_size w = None"
    by (simp add: send_install_snapshot_def snapshot_chunks_def)
qed

theorem snapshot_stream_roundtrip_witness:
  "map_option (\<lambda>cs. receive_chunks (map Inr cs) [] None) (snapshot_chunks ''abcde'' ''m'' 2) = Some (Inr (''abcde'', Some ''m'')) \<and>
   send_install_snapshot (\<lambda>_ _ w. (w, Inr [])) () ''abcde'' ''m'' 0 () = None"
  using snapshot_stream_roundtrip [of "''m''" 2 "''abcde''" "[]" "\<lambda>_ _ w. (w, Inr [])" "()" "()"]
    snapshot_stream_roundtrip [of "''m''" 0 "''abcde''" "[]" "\<lambda>_ _ w. (w, Inr [])" "()" "()"]
  by auto

text \<open>
  The bytes of a streamed snapshot are never used: whatever data the sender cuts into chunks, the
  receiving node hands to the consensus library the request decoded from the metadata alone.
\<close>

theorem streamed_snapshot_ignored:
  assumes "metadata \<noteq> []" and "0 < chunk_size"
  shows "send_install_snapshot (\<lambda>_ cs. srv_install_snapshot raft_install dec_req enc_resp (map Inr cs)) ch data metadata chunk_size w =
    Some (case srv_install_snapshot raft_install dec_req enc_resp [Inr \<lparr>sk_offset = 0, sk_data = [], sk_done = True, sk_metadata = metadata\<rparr>] w of
        (w1, Inl e) \<Rightarrow> (w1, Inl (NetworkError (''install_snapshot RPC failed: '' @ e)))
      | (w1, Inr _) \<Rightarrow> (w1, Inr ()))"
proof -
  obtain chunks where c: "snapshot_chunks data metadata chunk_size = Some chunks"
    "receive_chunks (map Inr chunks) [] None = Inr (data, Some metadata)"
  proof -
    obtain cs where l: "chunk_loop data metadata chunk_size 0 True = Some cs" "cs = [] \<longleftrightarrow> data = []"
      "cs \<noteq> [] \<longrightarrow> receive_chunks (map Inr cs) [] None = Inr (data, Some metadata)"
      using chunk_loop_correct [of chunk_size 0 data metadata True None "[]" "[]"] assms by auto
    show ?thesis
    proof (cases "cs = []")
      case True
      with l assms that show ?thesis by (auto simp: snapshot_chunks_def)
    next
      case False
      with l assms that show ?thesis by (auto simp: snapshot_chunks_def)
    qed
  qed
  have "srv_install_snapshot raft_install dec_req enc_resp (map Inr chunks) w =
      srv_install_snapshot raft_install dec_req enc_resp [Inr \<lparr>sk_offset = 0, sk_data = [], sk_done = True, sk_metadata = metadata\<rparr>] w"
    using assms(1) unfolding srv_install_snapshot_def c(2) by simp
  then show ?thesis by (simp add: send_install_snapshot_def c(1) split: prod.split sum.split)
qed

theorem streamed_snapshot_ignored_witness:
  "send_install_snapshot (\<lambda>_ cs. srv_install_snapshot (\<lambda>rq w. (w @ rq, Inr ())) Inr (\<lambda>_. Inr ''ok'') (map Inr cs)) () ''abcde'' ''m'' 2 ''w'' =
     Some (''wm'', Inr ())"
  using streamed_snapshot_ignored [of "''m''" 2 "\<lambda>rq w. (w @ rq, Inr ())" Inr "\<lambda>_. Inr ''ok''" "()" "''abcde''" "''w''"]
  by (simp add: srv_install_snapshot_def)

text \<open>
  The consensus calls are transparent: over a working connection, for requests and answers the
  codecs carry, appending entries, voting and installing a snapshot have on the other node exactly
  the effect and the answer of the library call there, and its failure comes back as an unreachable
  node.
\<close>

theorem raft_calls_transparent:
  assumes "carries rq req" and "\<And>r w1. f req w = (w1, Inr r) \<Longrightarrow> carries rs r"
  shows "case f req w of
      (w1, Inr r) \<Rightarrow>
        grpc_append_entries rq rs (Inr ch) (\<lambda>_. srv_append_entries rq rs f) req w = (w1, Inr r) \<and>
        grpc_vote rq rs (Inr ch) (\<lambda>_. srv_request_vote rq rs f) req w = (w1, Inr r) \<and>
        grpc_install_snapshot show_err rq rs (Inr ch)
          (\<lambda>_ cs. srv_install_snapshot f (from_slice rq) (to_vec rs) (map Inr cs)) req w = (w1, Inr r)
    | (w1, Inl e) \<Rightarrow>
        grpc_append_entries rq rs (Inr ch) (\<lambda>_. srv_append_entries rq rs f) req w =
          (w1, Inl (Unreachable ConnectionReset (''append_entries RPC: network error: append_entries RPC failed: append_entries failed: '' @ e))) \<and>
        grpc_vote rq rs (Inr ch) (\<lambda>_. srv_request_vote rq rs f) req w =
          (w1, Inl (Unreachable ConnectionReset (''vote RPC: network error: request_vote RPC failed: request_vote failed: '' @ e))) \<and>
        grpc_install_snapshot show_err rq rs (Inr ch)
          (\<lambda>_ cs. srv_install_snapshot f (from_slice rq) (to_vec rs) (map Inr cs)) req w =
          (w1, Inl (Unreachable ConnectionReset (''install_snapshot RPC: install_snapshot failed: '' @ e)))"
proof -
  obtain b where b: "b \<noteq> []" "to_vec rq req = Inr b" "from_slice rq b = Inr req" using assms(1) by (rule carriesE)
  obtain w1 r where f: "f req w = (w1, r)" by fastforce
  show ?thesis
  proof (cases r)
    case (Inl e)
    with b f show ?thesis
      by (simp add: grpc_append_entries_def srv_append_entries_def send_payload_def grpc_vote_def srv_request_vote_def
          grpc_install_snapshot_def srv_install_snapshot_def)
  next
    case (Inr a)
    then obtain p where "to_vec rs a = Inr p" "from_slice rs p = Inr a" using assms(2) f by (metis carriesE)
    with b f Inr show ?thesis
      by (simp add: grpc_append_entries_def srv_append_entries_def send_payload_def grpc_vote_def srv_request_vote_def
          grpc_install_snapshot_def srv_install_snapshot_def)
  qed
qed

theorem raft_calls_transparent_witness:
  "grpc_vote (const_serde (3 :: nat)) (const_serde True) (Inr ()) (\<lambda>_. srv_request_vote (const_serde 3) (const_serde True) (\<lambda>r w. (w + r, Inr True))) 3 (4 :: nat) =
     (7, Inr True)"
  using raft_calls_transparent [of "const_serde (3 :: nat)" 3 "\<lambda>r w. (w + r, Inr True)" 4 "const_serde True" "()" "\<lambda>_. []"]
  by (simp add: carries_const_serde)

text \<open>
  Joining and forwarding agree on addresses: when a node joins through a peer that leads, the
  consensus library is told exactly the joining node's own address (also one whose host holds
  colons), and a follower that later forwards a write to that member resolves the recorded text
  back to the same address.
\<close>

theorem join_address_roundtrip:
  fixes ra :: "('w, 'sc) raft_api"
  assumes "snd (pool_get connect (cm_pool m) now (NodeId 0) peer) = Inr ch"
    and "ma_add_learner ma l (as_u64 (ni_id (cm_local_node m))) (node_address_display (ni_address (cm_local_node m))) w = (w1, Inr ())"
  shows "snd (join_cluster connect now (\<lambda>_ i a w. let (w1, r) = srv_join_cluster ra ma l i a w in (w1, Inr r)) peer m w) = (w1, Inr ()) \<and>
    member_address (node_address_display (ni_address (cm_local_node m))) = ni_address (cm_local_node m)"
proof -
  obtain pool where p: "pool_get connect (cm_pool m) now (NodeId 0) peer = (pool, Inr ch)"
    using assms(1) by (cases "pool_get connect (cm_pool m) now (NodeId 0) peer") simp
  have "host a @ '':'' @ dec (unat (port a)) = node_address_display a" for a :: node_address
    by (simp add: node_address_display_def)
  then have "add_learner ma l (as_u64 (ni_id (cm_local_node m)))
      (join_address (node_address_display (ni_address (cm_local_node m)))) w = (w1, Inr ())"
    using assms(2) by (simp add: add_learner_def join_address_display)
  then show ?thesis
    by (simp add: join_cluster_def p client_join_cluster_def srv_join_cluster_def Let_def member_address_display)
qed

definition solo_manager :: "string cluster_manager" where
  "solo_manager = manager_new 0 \<lparr>ni_id = NodeId 4, ni_address = \<lparr>host = ''::1'', port = 9300\<rparr>, ni_status = Follower\<rparr>
     (router_new (\<lambda>_. []) [] 1) pool_new"

definition list_members :: "(u64 \<times> string) list member_api" where
  "list_members = \<lparr>ma_add_learner = (\<lambda>_ i a w. (w @ [(i, a)], Inr ())), ma_set_nodes = (\<lambda>_ ns w. (btree_iter ns @ w, Inr ()))\<rparr>"

definition list_raft :: "((u64 \<times> string) list, unit) raft_api" where
  "list_raft = \<lparr>ra_client_write = (\<lambda>n _ w. (w, Inl (ForwardToLeader (Some 4)))), ra_current_leader = (\<lambda>_ _. Some 4),
     ra_nodes = (\<lambda>_ w. w)\<rparr>"

theorem join_address_roundtrip_witness:
  "snd (join_cluster (\<lambda>a. Inr (host a)) 5 (\<lambda>_ i a w. let (w1, r) = srv_join_cluster list_raft list_members 1 i a w in (w1, Inr r))
       \<lparr>host = ''peer'', port = 1\<rparr> solo_manager []) = ([(4, ''::1:9300'')], Inr ()) \<and>
   member_address (node_address_display \<lparr>host = ''::1'', port = 9300\<rparr>) = \<lparr>host = ''::1'', port = 9300\<rparr>"
proof -
  have addr: "ni_address (cm_local_node solo_manager) = \<lparr>host = ''::1'', port = 9300\<rparr>" "ni_id (cm_local_node solo_manager) = NodeId 4"
    and pool: "cm_pool solo_manager = pool_new"
    by (simp_all add: solo_manager_def manager_new_def)
  have show_addr: "node_address_display \<lparr>host = ''::1'', port = 9300\<rparr> = ''::1:9300''"
    by (simp add: node_address_display_def dec.simps digit_char_def char_of_def bit_Suc_0_iff)
  show ?thesis
    using join_address_roundtrip [where connect = "\<lambda>a. Inr (host a)" and m = solo_manager and now = 5 and ch = "''peer''"
        and peer = "\<lparr>host = ''peer'', port = 1\<rparr>" and ma = list_members and l = 1 and w = "[]" and ?w1.0 = "[(4, ''::1:9300'')]" and ra = list_raft]
    by (simp add: addr pool show_addr list_members_def pool_get_def pool_new_def pool_with_config_def Let_def)
qed

text \<open>
  What the consensus library documents of \<^verbatim>\<open>SetNodes\<close>: it adds or replaces the given nodes
  in the membership, and changes no voter.
\<close>

definition set_nodes_documented ::
    "'w member_api \<Rightarrow> ('w, 'sc) raft_api \<Rightarrow> ('w \<Rightarrow> u64 set) \<Rightarrow> u64 \<Rightarrow> bool" where
  "set_nodes_documented ma ra voters n \<longleftrightarrow>
     (\<forall>ns w w1. ma_set_nodes ma n ns w = (w1, Inr ()) \<longrightarrow>
        voters w1 = voters w \<and> map_of (ra_nodes ra n w1) = map_of (ra_nodes ra n w) ++ fmlookup ns)"

lemma find_map_of: "find (\<lambda>(i, _). i = k) xs = map_option (\<lambda>a. (k, a)) (map_of xs k)"
  by (induction xs) auto

lemma member_set_lookup: "fmlookup (fold (\<lambda>i m. fmupd i [] m) is m) k = (if k \<in> set is then Some [] else fmlookup m k)"
  by (induction "is" arbitrary: m) auto

text \<open>
  A membership change does not promote anybody and breaks forwarding: with the documented meaning
  of \<^verbatim>\<open>SetNodes\<close> the voters stay as they were, although the given members are meant to
  become the voters, and the addresses of the members are erased, so that a write that a follower
  without an open connection forwards to a leader among them is sent to port 9300 of an empty
  host name and fails with the error of that connection.
\<close>

theorem change_membership_breaks_forwarding:
  assumes "set_nodes_documented ma ra voters n" and "change_membership ma n members w = (w1, Inr ())" and "l \<in> set members"
    and "ra_nodes ra n w2 = ra_nodes ra n w1" and "ra_current_leader ra n w2 = Some l"
    and "ra_client_write ra n cmd w2 = (w2, Inl (ForwardToLeader (Some l)))"
    and "fmlookup (entries pool) l = None" and "na_connect na \<lparr>host = [], port = 9300\<rparr> = Inl e"
  shows "voters w1 = voters w \<and> propose_or_forward ra na n cmd pool w2 = (pool, w2, Inl e)"
proof -
  have "ma_set_nodes ma n (fold (\<lambda>i m. fmupd i [] m) members fmempty) w = (w1, Inr ())"
    using assms(2) by (auto simp: change_membership_def Let_def split: prod.splits sum.splits)
  with assms(1) have v: "voters w1 = voters w"
    and n: "map_of (ra_nodes ra n w1) = map_of (ra_nodes ra n w) ++ fmlookup (fold (\<lambda>i m. fmupd i [] m) members fmempty)"
    unfolding set_nodes_documented_def by blast+
  have "map_of (ra_nodes ra n w1) l = Some []"
    using assms(3) by (simp add: n map_add_def member_set_lookup)
  then have f: "find (\<lambda>(i, _). i = l) (ra_nodes ra n w2) = Some (l, [])" by (simp add: find_map_of assms(4))
  have a: "member_address [] = \<lparr>host = [], port = 9300\<rparr>" by (simp add: member_address_def split_last_colon_def)
  obtain x where p: "propose ra n cmd w2 = (w2, Inl (ConsensusError (''not leader; forward to '' @ x)))"
    using propose_follower [OF assms(6)] by blast
  have "propose_or_forward ra na n cmd pool w2 = (pool, w2, Inl e)"
    unfolding propose_or_forward_def p using not_leader_message [of x]
    by (simp add: assms(5,7,8) f a pool_get_def)
  with v show ?thesis by simp
qed

definition picky_net :: "((u64 \<times> string) list, unit, string) net_api" where
  "picky_net = \<lparr>na_connect = (\<lambda>a. if host a = [] then Inl (NetworkError ''invalid'') else Inr (host a)), na_now = 0,
     na_codec = \<lparr>enc_cmd = (\<lambda>_. Inr ''c''), dec_cmd = (\<lambda>_. Inl [])\<rparr>, na_rpc = (\<lambda>_ _ w. (w, Inl []))\<rparr>"

theorem change_membership_breaks_forwarding_witness:
  "change_membership list_members 1 [4] [(4, ''db4:9300'')] = ([(4, []), (4, ''db4:9300'')], Inr ()) \<and>
   propose_or_forward list_raft picky_net 1 (DeleteCollection ''c'') pool_new [(4, []), (4, ''db4:9300'')] =
     (pool_new, [(4, []), (4, ''db4:9300'')], Inl (NetworkError ''invalid''))"
proof -
  have d: "set_nodes_documented list_members list_raft (\<lambda>_. {4}) 1"
    by (auto simp: set_nodes_documented_def list_members_def list_raft_def)
  have c: "change_membership list_members 1 [4] [(4, ''db4:9300'')] = ([(4, []), (4, ''db4:9300'')], Inr ())"
    by (simp add: change_membership_def list_members_def btree_iter_def sorted_list_of_fset.rep_eq)
  show ?thesis
    using change_membership_breaks_forwarding [OF d c, of 4 "[(4, []), (4, ''db4:9300'')]" "DeleteCollection ''c''" pool_new picky_net] c
    by (simp add: list_raft_def picky_net_def pool_new_def pool_with_config_def)
qed

text \<open>
  Gossip never reaches another node: however many rounds the nodes of a cluster run, in
  any order and with any transport, a node's view of a node it does not track itself stays what
  it was. (Merged messages would spread the views; no call of the running system merges one.)
\<close>

theorem gossip_rounds_do_not_spread:
  assumes "hash_iter ith" and "x |\<notin>| fmdom (cm_health_state (cluster n))"
  shows "fmlookup (gossip_state (cm_gossip (fold (\<lambda>(k, connect, now, wall, rpc, enc) cl.
        cl(k := gossip_round ith itv connect now wall rpc enc (cl k))) rounds cluster n))) x =
    fmlookup (gossip_state (cm_gossip (cluster n))) x"
  using assms(2)
proof (induction rounds arbitrary: cluster)
  case (Cons r rounds)
  obtain k connect now wall rpc enc where r: "r = (k, connect, now, wall, rpc, enc)" by (cases r) auto
  let ?cl = "cluster(k := gossip_round ith itv connect now wall rpc enc (cluster k))"
  have "x |\<notin>| fmdom (cm_health_state (?cl n))" using Cons.prems by (cases "n = k") simp_all
  moreover have "fmlookup (gossip_state (cm_gossip (?cl n))) x = fmlookup (gossip_state (cm_gossip (cluster n))) x"
    using gossip_round_other [OF assms(1) Cons.prems] by (cases "n = k") simp_all
  ultimately show ?case using Cons.IH [of ?cl] r by simp
qed simp

theorem gossip_rounds_do_not_spread_witness:
  "fmlookup (gossip_state (cm_gossip (fold (\<lambda>(k, connect, now, wall, rpc, enc) cl.
        cl(k := gossip_round btree_iter btree_iter connect now wall rpc enc (cl k)))
      [(1 :: nat, \<lambda>a. Inr (host a), 0, \<lambda>_. 5, \<lambda>_ g. Inr (srv_gossip_exchange 2 g), \<lambda>_. Inr ''m'')] (\<lambda>_. solo_manager) 2))) (NodeId 9) = None"
  using gossip_rounds_do_not_spread [where ith = btree_iter and itv = btree_iter and x = "NodeId 9" and n = 2 and cluster = "\<lambda>_. solo_manager"
      and rounds = "[(1, \<lambda>a. Inr (host a), 0, \<lambda>_. 5, \<lambda>_ g. Inr (srv_gossip_exchange 2 g), \<lambda>_. Inr ''m'')]"]
  by (simp add: hash_iter_btree_iter solo_manager_def manager_new_def gossip_new_def)

end
