(* ===== verification/Scatter_Search.thy ===== *)
theory Scatter_Search
  imports Rpc Handlers
begin

text \<open>
  Searching several nodes (\<^verbatim>\<open>crates/network/src/scatter_gather.rs\<close>) and several collections
  (\<^verbatim>\<open>crates/node/src/handlers/search.rs\<close>).

  The calls to the nodes run concurrently: \<open>call\<close> is the outcome of one of them, None when it does
  not return in time, and \<open>arrive\<close> the order in which the outcomes come in, any permutation. The
  traversal of the hash map of best hits is a parameter as everywhere. Scores are \<^verbatim>\<open>f32\<close> bit
  patterns, compared as the hardware compares them.
\<close>

section \<open>Scores\<close>

definition f32_magnitude :: "f32 \<Rightarrow> nat" where
  "f32_magnitude w = unat w mod 2 ^ 31"

definition f32_is_nan :: "f32 \<Rightarrow> bool" where
  "f32_is_nan w \<longleftrightarrow> f32_magnitude w > 0xFF * 2 ^ 23"

definition f32_key :: "f32 \<Rightarrow> int" where
  "f32_key w = (if unat w < 2 ^ 31 then int (f32_magnitude w) else - int (f32_magnitude w))"

definition f32_partial_cmp :: "f32 \<Rightarrow> f32 \<Rightarrow> ordering option" where
  "f32_partial_cmp x y = (if f32_is_nan x \<or> f32_is_nan y then None else Some (cmp_lin (f32_key x) (f32_key y)))"

definition f32_gt :: "f32 \<Rightarrow> f32 \<Rightarrow> bool" where
  "f32_gt x y \<longleftrightarrow> \<not> f32_is_nan x \<and> \<not> f32_is_nan y \<and> f32_key x > f32_key y"

section \<open>Merging hits\<close>

definition sd_id :: "scored_document \<Rightarrow> string" where
  "sd_id d = as_str (doc_id (sd_document d))"

definition keep_best :: "scored_document \<Rightarrow> (string, scored_document) fmap \<Rightarrow> (string, scored_document) fmap" where
  "keep_best scored best =
     (case fmlookup best (sd_id scored) of
        Some existing \<Rightarrow> if f32_gt (sd_score scored) (sd_score existing) then fmupd (sd_id scored) scored best else best
      | None \<Rightarrow> fmupd (sd_id scored) scored best)"

definition deduplicate_results ::
    "((string, scored_document) fmap \<Rightarrow> (string \<times> scored_document) list) \<Rightarrow> scored_document list \<Rightarrow> scored_document list" where
  "deduplicate_results it docs = map snd (it (fold keep_best docs fmempty))"

definition by_score_desc :: "scored_document \<Rightarrow> scored_document \<Rightarrow> ordering" where
  "by_score_desc a b = cmp_or_equal (f32_partial_cmp (sd_score b) (sd_score a))"

definition rank_results :: "scored_document list \<Rightarrow> nat \<Rightarrow> scored_document list" where
  "rank_results docs limit = take limit (sort_by by_score_desc docs)"

section \<open>Scatter and gather\<close>

definition NODE_TIMEOUT :: nat where
  "NODE_TIMEOUT = 200"

text \<open>The gather loop: the hits and the sum of the totals of the nodes that answered.\<close>

fun gather :: "(node_id \<times> search_result db_result option) list \<Rightarrow> scored_document list \<Rightarrow> u64 \<Rightarrow> scored_document list \<times> u64" where
  "gather [] docs tot = (docs, tot)"
| "gather ((n, Some (Inr r)) # rs) docs tot = gather rs (docs @ sr_documents r) (tot + sr_total r)"
| "gather ((n, Some (Inl e)) # rs) docs tot = gather rs docs tot"
| "gather ((n, None) # rs) docs tot = gather rs docs tot"

definition merged ::
    "((string, scored_document) fmap \<Rightarrow> (string \<times> scored_document) list) \<Rightarrow> nat \<Rightarrow> u64 \<Rightarrow> scored_document list \<times> u64 \<Rightarrow> search_result" where
  "merged it limit took g =
     \<lparr>sr_documents = rank_results (deduplicate_results it (fst g)) limit, sr_total = snd g, sr_took_ms = took,
      sr_aggregations = fmempty\<rparr>"

text \<open>The outcomes of the concurrent calls, one for each node.\<close>

definition node_replies ::
    "('ch \<Rightarrow> query \<Rightarrow> nat \<Rightarrow> nat \<Rightarrow> search_result db_result option) \<Rightarrow> query \<Rightarrow> nat \<Rightarrow> nat \<Rightarrow> (node_id \<times> 'ch) list \<Rightarrow>
     (node_id \<times> search_result db_result option) list" where
  "node_replies call query limit timeout nodes = map (\<lambda>(n, ch). (n, call ch query limit timeout)) nodes"

definition scatter_search ::
    "((string, scored_document) fmap \<Rightarrow> (string \<times> scored_document) list) \<Rightarrow>
     ((node_id \<times> search_result db_result option) list \<Rightarrow> (node_id \<times> search_result db_result option) list) \<Rightarrow>
     ('ch \<Rightarrow> query \<Rightarrow> nat \<Rightarrow> nat \<Rightarrow> search_result db_result option) \<Rightarrow> u64 \<Rightarrow>
     (node_id \<times> 'ch) list \<Rightarrow> query \<Rightarrow> nat \<Rightarrow> nat option \<Rightarrow> search_result db_result" where
  "scatter_search it arrive call took nodes query limit timeout =
     (let per_node_timeout = (case timeout of Some t \<Rightarrow> t | None \<Rightarrow> NODE_TIMEOUT) in
      if nodes = [] then Inr (search_result_empty 0)
      else Inr (merged it limit took
        (gather (arrive (node_replies call query limit per_node_timeout nodes)) [] 0)))"

text \<open>With a pool: clients are taken one after the other, at times \<open>t_get\<close>; nodes that fail are skipped.\<close>

fun pool_clients ::
    "(node_address \<Rightarrow> 'ch db_result) \<Rightarrow> (nat \<Rightarrow> nat) \<Rightarrow> nat \<Rightarrow> 'ch connection_pool \<Rightarrow> (node_id \<times> node_address) list \<Rightarrow>
     'ch connection_pool \<times> (node_id \<times> 'ch) list" where
  "pool_clients connect t_get i pool [] = (pool, [])"
| "pool_clients connect t_get i pool ((n, addr) # ns) =
     (case pool_get connect pool (t_get i) n addr of
        (pool1, Inl e) \<Rightarrow> pool_clients connect t_get (Suc i) pool1 ns
      | (pool1, Inr ch) \<Rightarrow>
          (let (pool2, rest) = pool_clients connect t_get (Suc i) pool1 ns in (pool2, (n, ch) # rest)))"

fun record_outcomes ::
    "(nat \<Rightarrow> nat) \<Rightarrow> nat \<Rightarrow> (node_id \<times> search_result db_result option) list \<Rightarrow> 'ch connection_pool \<Rightarrow> 'ch connection_pool" where
  "record_outcomes t_done i [] pool = pool"
| "record_outcomes t_done i ((n, Some (Inr r)) # rs) pool = record_outcomes t_done (Suc i) rs (pool_record_success pool n)"
| "record_outcomes t_done i ((n, Some (Inl e)) # rs) pool = record_outcomes t_done (Suc i) rs (pool_record_failure pool (t_done i) n)"
| "record_outcomes t_done i ((n, None) # rs) pool = record_outcomes t_done (Suc i) rs (pool_record_failure pool (t_done i) n)"

definition scatter_search_with_pool ::
    "((string, scored_document) fmap \<Rightarrow> (string \<times> scored_document) list) \<Rightarrow>
     ((node_id \<times> search_result db_result option) list \<Rightarrow> (node_id \<times> search_result db_result option) list) \<Rightarrow>
     ('ch \<Rightarrow> query \<Rightarrow> nat \<Rightarrow> nat \<Rightarrow> search_result db_result option) \<Rightarrow> u64 \<Rightarrow>
     (node_address \<Rightarrow> 'ch db_result) \<Rightarrow> (nat \<Rightarrow> nat) \<Rightarrow> (nat \<Rightarrow> nat) \<Rightarrow>
     (node_id \<times> node_address) list \<Rightarrow> query \<Rightarrow> nat \<Rightarrow> 'ch connection_pool \<Rightarrow> 'ch connection_pool \<times> search_result db_result" where
  "scatter_search_with_pool it arrive call took connect t_get t_done node_addrs query limit pool =
     (if node_addrs = [] then (pool, Inr (search_result_empty 0))
      else
        (let (pool1, nodes) = pool_clients connect t_get 0 pool node_addrs;
             replies = arrive (node_replies call query limit NODE_TIMEOUT nodes) in
         (record_outcomes t_done 0 replies pool1, Inr (merged it limit took (gather replies [] 0)))))"

section \<open>Searching collections\<close>

text \<open>A search handler answers with an error body, or with the response and the consistency echoed in it.\<close>

record 'n search_out =
  sh_status :: status_code
  sh_body :: "error_response + ('n search_response \<times> string)"

definition resolve_search_targets ::
    "('w, 'ch, 'c) app_state \<Rightarrow> string \<Rightarrow> 'n search_out + string list" where
  "resolve_search_targets ap name =
     (if fmlookup (ap_collections ap) name \<noteq> None then Inr [name]
      else (case fmlookup (ap_aliases ap) name of
          Some al \<Rightarrow>
            if alias_collections al = [] then
              Inl \<lparr>sh_status = BAD_REQUEST, sh_body = Inl (er_bad_request (''alias '' @ quoted name @ '' has no backing collections''))\<rparr>
            else Inr (alias_collections al)
        | None \<Rightarrow> Inl \<lparr>sh_status = NOT_FOUND, sh_body = Inl (er_not_found (''collection '' @ quoted name @ '' not found''))\<rparr>))"

text \<open>The local index backend: \<^verbatim>\<open>search_collection\<close> without options, \<^verbatim>\<open>search_collection_with_options\<close> with.\<close>

type_synonym local_index = "string \<Rightarrow> query \<Rightarrow> search_options option \<Rightarrow> search_result db_result"

fun fan_out_loop ::
    "local_index \<Rightarrow> ((string, aggregation_result) fmap \<Rightarrow> (string \<times> aggregation_result) list) \<Rightarrow> query \<Rightarrow> search_options option \<Rightarrow>
     string list \<Rightarrow> scored_document list \<times> u64 \<times> (string, aggregation_result) fmap \<Rightarrow>
     (scored_document list \<times> u64 \<times> (string, aggregation_result) fmap) db_result" where
  "fan_out_loop ix ita q opts [] acc = Inr acc"
| "fan_out_loop ix ita q opts (t # ts) (docs, tot, aggs) =
     (case ix t q opts of
        Inl e \<Rightarrow> Inl e
      | Inr r \<Rightarrow> fan_out_loop ix ita q opts ts
          (docs @ sr_documents r, tot + sr_total r, fold (\<lambda>(k, v) m. fmupd k v m) (ita (sr_aggregations r)) aggs))"

definition fan_out_search ::
    "local_index \<Rightarrow> ((string, aggregation_result) fmap \<Rightarrow> (string \<times> aggregation_result) list) \<Rightarrow> u64 \<Rightarrow> string list \<Rightarrow> query \<Rightarrow>
     search_options option \<Rightarrow> search_result db_result" where
  "fan_out_search ix ita took targets q opts =
     (case fan_out_loop ix ita q opts targets ([], 0, fmempty) of
        Inl e \<Rightarrow> Inl e
      | Inr (docs, tot, aggs) \<Rightarrow>
          Inr \<lparr>sr_documents = (if (case opts of None \<Rightarrow> True | Some os \<Rightarrow> so_sort os = []) then sort_by by_score_desc docs else docs),
               sr_total = tot, sr_took_ms = took, sr_aggregations = aggs\<rparr>)"

definition search_answer ::
    "'n json_ops \<Rightarrow> (aggregation_result \<Rightarrow> 'n json) \<Rightarrow> string option \<Rightarrow> search_result db_result \<Rightarrow> 'n search_out" where
  "search_answer js agg_json consistency_param r =
     (case r of
        Inr result \<Rightarrow>
          \<lparr>sh_status = OK, sh_body = Inr (from_search_result js agg_json result,
             consistency_level_display (case consistency_param of Some s \<Rightarrow> from_str_param s | None \<Rightarrow> Quorum))\<rparr>
      | Inl e \<Rightarrow> (let (st, resp) = db_error_to_response e in \<lparr>sh_status = st, sh_body = Inl resp\<rparr>))"

definition search_documents ::
    "'n json_ops \<Rightarrow> (aggregation_result \<Rightarrow> 'n json) \<Rightarrow> dsl_iters \<Rightarrow> local_index \<Rightarrow>
     ((string, aggregation_result) fmap \<Rightarrow> (string \<times> aggregation_result) list) \<Rightarrow> u64 \<Rightarrow>
     ('w, 'ch, 'c) app_state \<Rightarrow> string \<Rightarrow> string option \<Rightarrow> 'n search_request \<Rightarrow> 'n search_out" where
  "search_documents js agg_json di ix ita took ap collection consistency_param body =
     (case resolve_search_targets ap collection of
        Inl err \<Rightarrow> err
      | Inr targets \<Rightarrow> search_answer js agg_json consistency_param
          (fan_out_search ix ita took targets (into_core_query di (sq_query body)) (Some (to_search_options js body))))"

definition simple_search ::
    "'n json_ops \<Rightarrow> (aggregation_result \<Rightarrow> 'n json) \<Rightarrow> local_index \<Rightarrow>
     ((string, aggregation_result) fmap \<Rightarrow> (string \<times> aggregation_result) list) \<Rightarrow> u64 \<Rightarrow>
     ('w, 'ch, 'c) app_state \<Rightarrow> string \<Rightarrow> string option \<Rightarrow> string \<Rightarrow> 'n search_out" where
  "simple_search js agg_json ix ita took ap collection consistency_param q =
     (case resolve_search_targets ap collection of
        Inl err \<Rightarrow> err
      | Inr targets \<Rightarrow> search_answer js agg_json consistency_param
          (fan_out_search ix ita took targets (FullText \<lparr>ft_field = ''_body'', ft_query = q, ft_operator = Or\<rparr>) None))"

section \<open>Lemmas\<close>

definition scorable :: "scored_document set" where
  "scorable = {d. \<not> f32_is_nan (sd_score d)}"

abbreviation score_key :: "scored_document \<Rightarrow> int" where
  "score_key d \<equiv> f32_key (sd_score d)"

lemma by_score_desc_key: "a \<in> scorable \<Longrightarrow> b \<in> scorable \<Longrightarrow> by_score_desc a b = cmp_lin (- score_key a) (- score_key b)"
  by (auto simp: scorable_def by_score_desc_def f32_partial_cmp_def cmp_or_equal_def cmp_lin_def)

lemma total_by_score: "total_cmp scorable by_score_desc"
proof -
  have "total_cmp scorable (\<lambda>a b. cmp_lin (- score_key a) (- score_key b))"
    by (rule total_cmp_subset [OF total_cmp_lin [of "\<lambda>d. - score_key d"]]) simp
  then show ?thesis by (rule total_cmp_cong) (rule by_score_desc_key)
qed

interpretation by_score: total_cmp scorable by_score_desc
  by (rule total_by_score)

lemma sorted_by_score:
  assumes "set ds \<subseteq> scorable"
  shows "sorted_wrt (\<lambda>a b. score_key b \<le> score_key a) (sort_by by_score_desc ds)"
  using by_score.sort_by_sorted [OF assms]
  by (rule sorted_wrt_mono_rel [rotated]) (use assms in \<open>auto simp: by_score_desc_key subset_iff\<close>)

text \<open>The best hit of every document.\<close>

definition best_of :: "scored_document list \<Rightarrow> (string, scored_document) fmap \<Rightarrow> bool" where
  "best_of docs m \<longleftrightarrow>
     (\<forall>k. case fmlookup m k of
        None \<Rightarrow> (\<forall>d \<in> set docs. sd_id d \<noteq> k)
      | Some d \<Rightarrow> d \<in> set docs \<and> sd_id d = k \<and> (\<forall>d' \<in> set docs. sd_id d' = k \<longrightarrow> score_key d' \<le> score_key d))"

lemma best_of_SomeD:
  "best_of docs m \<Longrightarrow> fmlookup m k = Some d \<Longrightarrow> d \<in> set docs \<and> sd_id d = k \<and> (\<forall>d' \<in> set docs. sd_id d' = k \<longrightarrow> score_key d' \<le> score_key d)"
  unfolding best_of_def by (drule spec [of _ k]) simp

lemma best_of_dom: "best_of docs m \<Longrightarrow> d \<in> set docs \<Longrightarrow> \<exists>b. fmlookup m (sd_id d) = Some b"
  unfolding best_of_def by (drule spec [of _ "sd_id d"]) (auto split: option.splits)

lemma best_of_step:
  assumes "best_of docs m" "set docs \<subseteq> scorable" "d \<in> scorable"
  shows "best_of (docs @ [d]) (keep_best d m)"
  unfolding best_of_def
proof
  fix k
  have old: "case fmlookup m k of None \<Rightarrow> (\<forall>d \<in> set docs. sd_id d \<noteq> k)
      | Some d \<Rightarrow> d \<in> set docs \<and> sd_id d = k \<and> (\<forall>d' \<in> set docs. sd_id d' = k \<longrightarrow> score_key d' \<le> score_key d)"
    using assms(1) unfolding best_of_def by blast
  show "case fmlookup (keep_best d m) k of None \<Rightarrow> (\<forall>d \<in> set (docs @ [d]). sd_id d \<noteq> k)
      | Some b \<Rightarrow> b \<in> set (docs @ [d]) \<and> sd_id b = k \<and> (\<forall>d' \<in> set (docs @ [d]). sd_id d' = k \<longrightarrow> score_key d' \<le> score_key b)"
  proof (cases "sd_id d = k")
    case False
    then have "fmlookup (keep_best d m) k = fmlookup m k" by (simp add: keep_best_def split: option.split)
    with old False show ?thesis by (auto split: option.splits)
  next
    case k: True
    show ?thesis
    proof (cases "fmlookup m k")
      case None
      with old k show ?thesis by (auto simp: keep_best_def)
    next
      case (Some b)
      then have "b \<in> scorable" using old assms(2) by auto
      with old k Some assms(3) show ?thesis
        by (auto simp: keep_best_def f32_gt_def scorable_def)
    qed
  qed
qed

lemma best_of_fold: "set docs \<subseteq> scorable \<Longrightarrow> best_of docs (fold keep_best docs fmempty)"
  by (induction docs rule: rev_induct) (simp_all add: best_of_step best_of_def [of "[]"])

lemma deduplicated:
  assumes "hash_iter it" "set docs \<subseteq> scorable"
  shows "distinct (map sd_id (deduplicate_results it docs))"
    and "d \<in> set (deduplicate_results it docs) \<Longrightarrow> d \<in> set docs \<and> (\<forall>d' \<in> set docs. sd_id d' = sd_id d \<longrightarrow> score_key d' \<le> score_key d)"
    and "sd_id ` set (deduplicate_results it docs) = sd_id ` set docs"
proof -
  let ?m = "fold keep_best docs fmempty"
  note best = best_of_fold [OF assms(2)]
  have mem: "d \<in> set (deduplicate_results it docs) \<longleftrightarrow> (\<exists>k. fmlookup ?m k = Some d)" for d
    by (force simp: deduplicate_results_def hash_iter_set [OF assms(1)])
  show "d \<in> set (deduplicate_results it docs) \<Longrightarrow> d \<in> set docs \<and> (\<forall>d' \<in> set docs. sd_id d' = sd_id d \<longrightarrow> score_key d' \<le> score_key d)"
    using best_of_SomeD [OF best] by (auto simp: mem)
  show "sd_id ` set (deduplicate_results it docs) = sd_id ` set docs"
  proof (intro equalityI subsetI; elim imageE)
    fix k d assume "k = sd_id d" "d \<in> set (deduplicate_results it docs)"
    then show "k \<in> sd_id ` set docs" using best_of_SomeD [OF best] by (auto simp: mem)
  next
    fix k d assume k: "k = sd_id d" "d \<in> set docs"
    then obtain b where "fmlookup ?m k = Some b" using best_of_dom [OF best] by blast
    then show "k \<in> sd_id ` set (deduplicate_results it docs)" using best_of_SomeD [OF best] mem [of b] by (metis imageI)
  qed
  have "map sd_id (deduplicate_results it docs) = map fst (it ?m)"
    using best_of_SomeD [OF best] by (auto simp: deduplicate_results_def hash_iter_set [OF assms(1)])
  then show "distinct (map sd_id (deduplicate_results it docs))" using hash_iterD(1) [OF assms(1)] by simp
qed

text \<open>What a reply contributes.\<close>

definition reply_hits :: "search_result db_result option \<Rightarrow> scored_document list" where
  "reply_hits r = (case r of Some (Inr sr) \<Rightarrow> sr_documents sr | _ \<Rightarrow> [])"

definition reply_total :: "search_result db_result option \<Rightarrow> u64" where
  "reply_total r = (case r of Some (Inr sr) \<Rightarrow> sr_total sr | _ \<Rightarrow> 0)"

lemma gather_exact:
  "gather rs docs tot = (docs @ concat (map (reply_hits \<circ> snd) rs), tot + sum_list (map (reply_total \<circ> snd) rs))"
  by (induction rs docs tot rule: gather.induct) (simp_all add: reply_hits_def reply_total_def add.assoc)

text \<open>What the ranking of the best hits promises.\<close>

lemma merged_correct:
  fixes limit :: nat
  assumes "hash_iter it" "set hits \<subseteq> scorable"
  defines "out \<equiv> rank_results (deduplicate_results it hits) limit"
  shows "distinct (map sd_id out)" "length out = min limit (card (sd_id ` set hits))"
    "sorted_wrt (\<lambda>a b. score_key b \<le> score_key a) out"
    "d \<in> set out \<Longrightarrow> d \<in> set hits \<and> (\<forall>h \<in> set hits. sd_id h = sd_id d \<longrightarrow> score_key h \<le> score_key d)"
    "h \<in> set hits \<Longrightarrow> sd_id h \<in> sd_id ` set out \<or> (\<forall>d \<in> set out. score_key h \<le> score_key d)"
proof -
  let ?dd = "deduplicate_results it hits"
  let ?s = "sort_by by_score_desc ?dd"
  have out: "out = take limit ?s" by (simp add: out_def rank_results_def)
  have sub: "set ?dd \<subseteq> scorable" using deduplicated(2) [OF assms(1,2)] assms(2) by blast
  have "mset (map sd_id ?s) = mset (map sd_id ?dd)" by simp
  then have dist: "distinct (map sd_id ?s)" using deduplicated(1) [OF assms(1,2)] by (metis mset_eq_imp_distinct_iff)
  then show "distinct (map sd_id out)" unfolding out take_map [symmetric] by (rule distinct_take)
  have "length ?s = card (set (map sd_id ?s))" using distinct_card [OF dist] by simp
  also have "\<dots> = card (sd_id ` set hits)" by (simp add: deduplicated(3) [OF assms(1,2)])
  finally show "length out = min limit (card (sd_id ` set hits))" by (simp add: out min.commute)
  have sorted: "sorted_wrt (\<lambda>a b. score_key b \<le> score_key a) ?s" by (rule sorted_by_score [OF sub])
  then show "sorted_wrt (\<lambda>a b. score_key b \<le> score_key a) out" unfolding out by (rule sorted_wrt_take)
  show "d \<in> set out \<Longrightarrow> d \<in> set hits \<and> (\<forall>h \<in> set hits. sd_id h = sd_id d \<longrightarrow> score_key h \<le> score_key d)"
    using deduplicated(2) [OF assms(1,2)] set_take_subset [of limit ?s] by (auto simp: out)
  show "sd_id h \<in> sd_id ` set out \<or> (\<forall>d \<in> set out. score_key h \<le> score_key d)" if "h \<in> set hits"
  proof -
    have "sd_id h \<in> sd_id ` set ?s" using deduplicated(3) [OF assms(1,2)] that by simp
    then obtain b where b: "b \<in> set ?s" "sd_id b = sd_id h" by (metis imageE)
    then have le: "score_key h \<le> score_key b" using deduplicated(2) [OF assms(1,2), of b] that by simp
    have "b \<in> set (take limit ?s) \<or> b \<in> set (drop limit ?s)" using b(1) by (metis Un_iff append_take_drop_id set_append)
    then show ?thesis
    proof
      assume "b \<in> set (take limit ?s)"
      then have "sd_id b \<in> sd_id ` set out" unfolding out by (rule imageI)
      with b(2) show ?thesis by simp
    next
      assume "b \<in> set (drop limit ?s)"
      moreover have "sorted_wrt (\<lambda>a b. score_key b \<le> score_key a) (take limit ?s @ drop limit ?s)" using sorted by simp
      ultimately have "\<forall>d \<in> set out. score_key b \<le> score_key d" unfolding out sorted_wrt_append by blast
      with le show ?thesis by force
    qed
  qed
qed

lemma merged_reordered:
  assumes "mset rs = mset rs'"
  shows "set (concat (map (reply_hits \<circ> snd) rs)) = set (concat (map (reply_hits \<circ> snd) rs'))"
    and "sum_list (map (reply_total \<circ> snd) rs) = sum_list (map (reply_total \<circ> snd) rs')"
proof -
  have "set rs = set rs'" using assms by (metis set_mset_mset)
  then show "set (concat (map (reply_hits \<circ> snd) rs)) = set (concat (map (reply_hits \<circ> snd) rs'))" by simp
  have "sum_mset (image_mset (reply_total \<circ> snd) (mset rs)) = sum_mset (image_mset (reply_total \<circ> snd) (mset rs'))"
    using assms by simp
  then show "sum_list (map (reply_total \<circ> snd) rs) = sum_list (map (reply_total \<circ> snd) rs')"
    by (simp flip: sum_mset_sum_list)
qed

lemma fan_out_loop_exact:
  assumes "\<forall>t \<in> set ts. ix t q opts = Inr (res t)"
  shows "\<exists>aggs'. fan_out_loop ix ita q opts ts (docs, tot, aggs) =
    Inr (docs @ concat (map (sr_documents \<circ> res) ts), tot + sum_list (map (sr_total \<circ> res) ts), aggs')"
  using assms
proof (induction ts arbitrary: docs tot aggs)
  case (Cons t ts)
  then show ?case
    using Cons.IH [of "docs @ sr_documents (res t)" "tot + sr_total (res t)"] by (simp add: add.assoc)
qed simp

lemma fan_out_loop_error:
  assumes "\<forall>t \<in> set ts. \<exists>r. ix t q opts = Inr r" "ix t q opts = Inl e"
  shows "fan_out_loop ix ita q opts (ts @ t # ts') acc = Inl e"
  using assms
proof (induction ts arbitrary: acc)
  case Nil
  then show ?case by (cases acc) simp
next
  case (Cons u ts)
  then obtain r where "ix u q opts = Inr r" by auto
  with Cons show ?case by (cases acc) simp
qed

section \<open>Properties\<close>

text \<open>
  C9. A scattered search is the exact merge of the answers that came in time, whatever their order
  and whatever other nodes failed: no document appears twice, each appears with the best score any
  node gave it, the hits are in descending order of score, there are as many as the limit allows,
  and every hit left out is no better than any hit returned. The total is the sum of the totals of
  the nodes, so a document held by several nodes is counted several times.
\<close>

theorem scatter_search_correct:
  fixes call :: "'ch \<Rightarrow> query \<Rightarrow> nat \<Rightarrow> nat \<Rightarrow> search_result db_result option" and q :: query and limit :: nat and timeout :: "nat option"
  assumes "hash_iter it" and "\<And>rs. mset (arrive rs) = mset rs" and "nodes \<noteq> []"
  defines "replies \<equiv> map snd (node_replies call q limit (case timeout of Some t \<Rightarrow> t | None \<Rightarrow> NODE_TIMEOUT) nodes)"
  defines "hits \<equiv> set (concat (map reply_hits replies))"
  assumes "hits \<subseteq> scorable"
  shows "case scatter_search it arrive call took nodes q limit timeout of
      Inl e \<Rightarrow> False
    | Inr r \<Rightarrow>
        distinct (map sd_id (sr_documents r)) \<and> length (sr_documents r) = min limit (card (sd_id ` hits)) \<and>
        sorted_wrt (\<lambda>a b. score_key b \<le> score_key a) (sr_documents r) \<and>
        (\<forall>d \<in> set (sr_documents r). d \<in> hits \<and> (\<forall>h \<in> hits. sd_id h = sd_id d \<longrightarrow> score_key h \<le> score_key d)) \<and>
        (\<forall>h \<in> hits. sd_id h \<in> sd_id ` set (sr_documents r) \<or> (\<forall>d \<in> set (sr_documents r). score_key h \<le> score_key d)) \<and>
        sr_total r = sum_list (map reply_total replies)"
proof -
  let ?rs = "node_replies call q limit (case timeout of Some t \<Rightarrow> t | None \<Rightarrow> NODE_TIMEOUT) nodes"
  let ?all = "concat (map (reply_hits \<circ> snd) (arrive ?rs))"
  have hits: "set ?all = hits"
    and tot: "sum_list (map (reply_total \<circ> snd) (arrive ?rs)) = sum_list (map reply_total replies)"
    using merged_reordered [OF assms(2) [of ?rs]] by (simp_all add: hits_def replies_def)
  have "set ?all \<subseteq> scorable" using assms(6) by (simp only: hits)
  note ok = merged_correct [OF assms(1) this, where limit = limit, unfolded hits]
  have "scatter_search it arrive call took nodes q limit timeout = Inr (merged it limit took (?all, sum_list (map reply_total replies)))"
    using assms(3) by (simp add: scatter_search_def gather_exact tot)
  then show ?thesis using ok by (simp add: merged_def)
qed

definition scored_hit :: "string \<Rightarrow> f32 \<Rightarrow> scored_document" where
  "scored_hit i x = \<lparr>sd_document = doc_new (DocumentId i), sd_score = x, sd_sort = []\<rparr>"

definition demo_call :: "nat \<Rightarrow> query \<Rightarrow> nat \<Rightarrow> nat \<Rightarrow> search_result db_result option" where
  "demo_call ch q limit t =
     (if ch = 0 then Some (Inr ((search_result_empty 0)\<lparr>sr_documents := [scored_hit ''a'' 5, scored_hit ''b'' 9], sr_total := 2\<rparr>))
      else if ch = 1 then Some (Inr ((search_result_empty 0)\<lparr>sr_documents := [scored_hit ''a'' 7], sr_total := 1\<rparr>))
      else None)"

lemma scored_hit_simps [simp]: "sd_id (scored_hit i x) = i" "sd_score (scored_hit i x) = x"
  by (simp_all add: scored_hit_def sd_id_def doc_new_def)

lemma demo_hits: "scored_hit ''a'' 5 \<in> scorable" "scored_hit ''b'' 9 \<in> scorable" "scored_hit ''a'' 7 \<in> scorable"
  by (simp_all add: scorable_def f32_is_nan_def f32_magnitude_def)

theorem scatter_search_correct_witness:
  "case scatter_search btree_iter rev demo_call 3 [(NodeId 1, 0), (NodeId 2, 1), (NodeId 3, 2)] (Bool [] [] []) 10 None of
      Inl e \<Rightarrow> False
    | Inr r \<Rightarrow> distinct (map sd_id (sr_documents r)) \<and> length (sr_documents r) = 2 \<and> sr_total r = 3"
proof -
  let ?nodes = "[(NodeId 1, 0), (NodeId 2, 1), (NodeId 3, 2)] :: (node_id \<times> nat) list"
  have r: "map snd (node_replies demo_call (Bool [] [] []) 10 NODE_TIMEOUT ?nodes) = [demo_call 0 (Bool [] [] []) 10 NODE_TIMEOUT,
      demo_call 1 (Bool [] [] []) 10 NODE_TIMEOUT, demo_call 2 (Bool [] [] []) 10 NODE_TIMEOUT]"
    by (simp add: node_replies_def)
  have h: "set (concat (map reply_hits [demo_call 0 (Bool [] [] []) 10 NODE_TIMEOUT, demo_call 1 (Bool [] [] []) 10 NODE_TIMEOUT,
      demo_call 2 (Bool [] [] []) 10 NODE_TIMEOUT])) = {scored_hit ''a'' 5, scored_hit ''b'' 9, scored_hit ''a'' 7}"
    by (auto simp: demo_call_def reply_hits_def)
  have t: "sum_list (map reply_total [demo_call 0 (Bool [] [] []) 10 NODE_TIMEOUT, demo_call 1 (Bool [] [] []) 10 NODE_TIMEOUT,
      demo_call 2 (Bool [] [] []) 10 NODE_TIMEOUT]) = 3"
    by (simp add: demo_call_def reply_total_def)
  have c: "card (sd_id ` {scored_hit ''a'' 5, scored_hit ''b'' 9, scored_hit ''a'' 7}) = 2" by (simp add: card_insert_if)
  show ?thesis
    using scatter_search_correct [where it = btree_iter and arrive = rev and nodes = ?nodes and took = 3
        and call = demo_call and q = "Bool [] [] []" and limit = 10 and timeout = None, unfolded option.case r h t c]
    by (auto simp: hash_iter_btree_iter demo_hits split: sum.splits)
qed

text \<open>
  The pool-aware search gives the same answer as the plain search with the default time-out on
  the clients that the pool hands out; when it hands out none, the answer is empty and still a success.
\<close>

theorem pool_search_equivalent:
  assumes "pool_clients connect t_get 0 pool node_addrs = (pool1, nodes)" and "\<And>rs. mset (arrive rs) = mset rs" and "hash_iter it"
  shows "case snd (scatter_search_with_pool it arrive call took connect t_get t_done node_addrs q limit pool) of
      Inl e \<Rightarrow> False
    | Inr r \<Rightarrow>
        if nodes = [] then sr_documents r = [] \<and> sr_total r = 0
        else scatter_search it arrive call took nodes q limit None = Inr r"
proof (cases "nodes = []")
  case True
  have "arrive [] = []" using assms(2) [of "[]"] by simp
  moreover have "it fmempty = []" using hash_iter_set [OF assms(3), of fmempty] by simp
  ultimately show ?thesis
    using True assms(1)
    by (simp add: scatter_search_with_pool_def search_result_empty_def merged_def deduplicate_results_def
        rank_results_def sort_by_def node_replies_def)
next
  case False
  then have "node_addrs \<noteq> []" using assms(1) by auto
  with False show ?thesis
    using assms(1) by (simp add: scatter_search_with_pool_def scatter_search_def Let_def)
qed

theorem pool_search_equivalent_witness:
  "snd (scatter_search_with_pool btree_iter rev demo_call 3 (\<lambda>a. if host a = ''up'' then Inr 0 else Inl (NetworkError [])) id id
       [(NodeId 1, \<lparr>host = ''up'', port = 1\<rparr>), (NodeId 2, \<lparr>host = ''down'', port = 1\<rparr>)] (Bool [] [] []) 10 pool_new) =
   scatter_search btree_iter rev demo_call 3 [(NodeId 1, 0)] (Bool [] [] []) 10 None"
proof -
  let ?connect = "\<lambda>a :: node_address. if host a = ''up'' then Inr (0 :: nat) else Inl (NetworkError [])"
  let ?nodes = "[(NodeId 1, \<lparr>host = ''up'', port = 1\<rparr>), (NodeId 2, \<lparr>host = ''down'', port = 1\<rparr>)]"
  obtain pool1 where p: "pool_clients ?connect id 0 pool_new ?nodes = (pool1, [(NodeId 1, 0)])"
    by (simp add: pool_get_def pool_new_def pool_with_config_def Let_def)
  show ?thesis
    using pool_search_equivalent [OF p, where arrive = rev and it = btree_iter and call = demo_call and took = 3 and t_done = id
        and q = "Bool [] [] []" and limit = 10]
    by (auto simp: hash_iter_btree_iter split: sum.splits)
qed

text \<open>
  A search of a collection or an alias without sort clauses, when every backing collection
  answers, returns all their hits in descending order of score, ties in the order of the alias, and
  the sum of the totals; the first collection that fails makes the whole search fail with its error;
  a name that is neither is answered with 404 and an alias without collections with 400.
\<close>

theorem simple_search_correct:
  fixes term_text :: string
  defines "q \<equiv> FullText \<lparr>ft_field = ''_body'', ft_query = term_text, ft_operator = Or\<rparr>"
  shows "(\<forall>ts res. (resolve_search_targets ap c :: 'n search_out + string list) = Inr ts \<and> (\<forall>t \<in> set ts. ix t q None = Inr (res t) \<and> set (sr_documents (res t)) \<subseteq> scorable) \<longrightarrow>
      (\<exists>r. simple_search js agg_json ix ita took ap c cons term_text =
          (\<lparr>sh_status = OK, sh_body = Inr (from_search_result js agg_json r,
             consistency_level_display (case cons of Some s \<Rightarrow> from_str_param s | None \<Rightarrow> Quorum))\<rparr> :: 'n search_out) \<and>
        mset (sr_documents r) = mset (concat (map (sr_documents \<circ> res) ts)) \<and>
        sorted_wrt (\<lambda>a b. score_key b \<le> score_key a) (sr_documents r) \<and>
        (\<forall>k. filter (\<lambda>d. score_key d = k) (sr_documents r) = filter (\<lambda>d. score_key d = k) (concat (map (sr_documents \<circ> res) ts))) \<and>
        sr_total r = sum_list (map (sr_total \<circ> res) ts))) \<and>
    (\<forall>ts t ts' e. (resolve_search_targets ap c :: 'n search_out + string list) = Inr (ts @ t # ts') \<and> (\<forall>u \<in> set ts. \<exists>r. ix u q None = Inr r) \<and> ix t q None = Inl e \<longrightarrow>
      (simple_search js agg_json ix ita took ap c cons term_text :: 'n search_out) =
        \<lparr>sh_status = fst (db_error_to_response e), sh_body = Inl (snd (db_error_to_response e))\<rparr>) \<and>
    (fmlookup (ap_collections ap) c = None \<longrightarrow>
      (case fmlookup (ap_aliases ap) c of
         None \<Rightarrow> sh_status (simple_search js agg_json ix ita took ap c cons term_text :: 'n search_out) = NOT_FOUND
       | Some al \<Rightarrow> alias_collections al = [] \<longrightarrow>
           sh_status (simple_search js agg_json ix ita took ap c cons term_text :: 'n search_out) = BAD_REQUEST))"
proof (intro conjI allI impI)
  fix ts res
  assume a: "(resolve_search_targets ap c :: 'n search_out + string list) = Inr ts \<and>
    (\<forall>t \<in> set ts. ix t q None = Inr (res t) \<and> set (sr_documents (res t)) \<subseteq> scorable)"
  let ?all = "concat (map (sr_documents \<circ> res) ts)"
  obtain aggs where l: "fan_out_loop ix ita q None ts ([], 0, fmempty) = Inr (?all, sum_list (map (sr_total \<circ> res) ts), aggs)"
    using fan_out_loop_exact [of ts ix q None res ita "[]" 0 fmempty] a by auto
  have sub: "set ?all \<subseteq> scorable" using a by auto
  have key: "filter (\<lambda>d. score_key d = k) (sort_by by_score_desc ?all) = filter (\<lambda>d. score_key d = k) ?all" for k
  proof (cases "\<exists>a \<in> set ?all. score_key a = k")
    case True
    then obtain x where x: "x \<in> set ?all" "score_key x = k" by blast
    have x': "x \<in> scorable" using x(1) sub by (rule subsetD [rotated])
    have eq: "filter (\<lambda>d. score_key d = k) xs = filter (\<lambda>b. by_score_desc x b = Equal) xs" if "set xs \<subseteq> scorable" for xs
      using that x' x(2) by (intro filter_cong) (auto simp: by_score_desc_key subset_iff)
    have "set (sort_by by_score_desc ?all) \<subseteq> scorable" using sub by (simp only: set_sort_by)
    then show ?thesis unfolding eq [OF sub] by (simp only: eq by_score.sort_by_stable [OF x' sub])
  next
    case False
    then show ?thesis by (simp add: filter_empty_conv)
  qed
  show "\<exists>r. simple_search js agg_json ix ita took ap c cons term_text =
          (\<lparr>sh_status = OK, sh_body = Inr (from_search_result js agg_json r,
             consistency_level_display (case cons of Some s \<Rightarrow> from_str_param s | None \<Rightarrow> Quorum))\<rparr> :: 'n search_out) \<and>
        mset (sr_documents r) = mset ?all \<and> sorted_wrt (\<lambda>a b. score_key b \<le> score_key a) (sr_documents r) \<and>
        (\<forall>k. filter (\<lambda>d. score_key d = k) (sr_documents r) = filter (\<lambda>d. score_key d = k) ?all) \<and>
        sr_total r = sum_list (map (sr_total \<circ> res) ts)"
    using a l key sorted_by_score [OF sub]
    by (intro exI [of _ "\<lparr>sr_documents = sort_by by_score_desc ?all, sr_total = sum_list (map (sr_total \<circ> res) ts),
          sr_took_ms = took, sr_aggregations = aggs\<rparr>"])
      (simp add: simple_search_def search_answer_def fan_out_search_def q_def [symmetric])
next
  fix ts t ts' e
  assume a: "(resolve_search_targets ap c :: 'n search_out + string list) = Inr (ts @ t # ts') \<and>
    (\<forall>u \<in> set ts. \<exists>r. ix u q None = Inr r) \<and> ix t q None = Inl e"
  then have "fan_out_loop ix ita q None (ts @ t # ts') ([], 0, fmempty) = Inl e" by (intro fan_out_loop_error) auto
  with a show "(simple_search js agg_json ix ita took ap c cons term_text :: 'n search_out) =
        \<lparr>sh_status = fst (db_error_to_response e), sh_body = Inl (snd (db_error_to_response e))\<rparr>"
    by (simp add: simple_search_def search_answer_def fan_out_search_def q_def [symmetric] split_beta)
next
  assume "fmlookup (ap_collections ap) c = None"
  then show "case fmlookup (ap_aliases ap) c of
         None \<Rightarrow> sh_status (simple_search js agg_json ix ita took ap c cons term_text :: 'n search_out) = NOT_FOUND
       | Some al \<Rightarrow> alias_collections al = [] \<longrightarrow>
           sh_status (simple_search js agg_json ix ita took ap c cons term_text :: 'n search_out) = BAD_REQUEST"
    by (simp add: simple_search_def resolve_search_targets_def split: option.split)
qed

text \<open>
  A sorted search of an alias is not sorted: with sort clauses the hits of the collections are
  put one after the other, so a hit of an earlier collection that sorts after one of a later
  collection stands before it.
\<close>

theorem sorted_alias_search_unsorted:
  assumes "so_sort os \<noteq> []" and "\<And>t. t \<in> set (ts1 @ t1 # ts2 @ t2 # ts3) \<Longrightarrow> ix t q (Some os) = Inr (res t)"
    and "d1 \<in> set (sr_documents (res t1))" and "d2 \<in> set (sr_documents (res t2))"
    and "compare_by_clauses fo (so_sort os) d1 d2 = Greater"
  shows "\<exists>r. fan_out_search ix ita took (ts1 @ t1 # ts2 @ t2 # ts3) q (Some os) = Inr r \<and>
    sr_documents r = concat (map (sr_documents \<circ> res) (ts1 @ t1 # ts2 @ t2 # ts3)) \<and>
    \<not> sorted_wrt (\<lambda>a b. compare_by_clauses fo (so_sort os) a b \<noteq> Greater) (sr_documents r)"
proof -
  let ?ts = "ts1 @ t1 # ts2 @ t2 # ts3"
  let ?all = "concat (map (sr_documents \<circ> res) ?ts)"
  obtain aggs where "fan_out_loop ix ita q (Some os) ?ts ([], 0, fmempty) = Inr (?all, sum_list (map (sr_total \<circ> res) ?ts), aggs)"
    using fan_out_loop_exact [of ?ts ix q "Some os" res ita "[]" 0 fmempty] assms(2) by auto
  moreover have "\<not> sorted_wrt (\<lambda>a b. compare_by_clauses fo (so_sort os) a b \<noteq> Greater) ?all"
    using assms(3,4,5) by (auto simp: sorted_wrt_append)
  ultimately show ?thesis
    using assms(1) by (auto simp: fan_out_search_def)
qed

definition two_shelves :: "(unit, unit, (string, document) fmap) app_state" where
  "two_shelves = \<lparr>ap_node = 1, ap_collections = fmempty, ap_aliases = fmupd ''all'' (alias_new_multi ''all'' [''x'', ''y'']) fmempty,
     ap_cache = with_defaults (\<lambda>_. fmempty), ap_sessions = session_manager_new, ap_coordinator = \<lparr>rc_replication_factor = 1\<rparr>,
     ap_pool = pool_new, ap_world = ()\<rparr>"

definition shelf :: "string \<Rightarrow> search_result" where
  "shelf t = (if t = ''x'' then (search_result_empty 0)\<lparr>sr_documents := [scored_hit ''b'' 9], sr_total := 1\<rparr>
     else (search_result_empty 0)\<lparr>sr_documents := [scored_hit ''a'' 5], sr_total := 1\<rparr>)"

lemma shelves: "resolve_search_targets two_shelves ''all'' = Inr [''x'', ''y'']" "set (sr_documents (shelf t)) \<subseteq> scorable"
  by (simp_all add: two_shelves_def resolve_search_targets_def alias_new_multi_def shelf_def demo_hits)

theorem simple_search_correct_witness:
  "sh_status (simple_search bits_json (\<lambda>_. JNull) (\<lambda>t q os. Inr (shelf t)) btree_iter 3 two_shelves ''all'' None ''w'') = OK \<and>
   sh_status (simple_search bits_json (\<lambda>_. JNull) (\<lambda>t q os. Inr (shelf t)) btree_iter 3 two_shelves ''nope'' None ''w'') = NOT_FOUND"
proof -
  note ok = simple_search_correct [where 'n = f64 and ap = two_shelves and ix = "\<lambda>t q os. Inr (shelf t)" and js = bits_json
      and agg_json = "\<lambda>_. JNull" and ita = btree_iter and took = 3 and cons = None and term_text = "''w''"]
  have "\<exists>r. simple_search bits_json (\<lambda>_. JNull) (\<lambda>t q os. Inr (shelf t)) btree_iter 3 two_shelves ''all'' None ''w'' =
      \<lparr>sh_status = OK, sh_body = Inr (from_search_result bits_json (\<lambda>_. JNull) r, consistency_level_display Quorum)\<rparr>"
    using ok [of "''all''", THEN conjunct1, THEN spec, THEN spec, of "[''x'', ''y'']" shelf] shelves by auto
  moreover have "fmlookup (ap_collections two_shelves) ''nope'' = None" "fmlookup (ap_aliases two_shelves) ''nope'' = None"
    by (simp_all add: two_shelves_def)
  ultimately show ?thesis using ok [of "''nope''", THEN conjunct2, THEN conjunct2] by auto
qed

definition by_id_asc :: search_options where
  "by_id_asc = \<lparr>so_size = 10, so_from = 0, so_sort = [\<lparr>sc_field = ''_id'', sc_order = Asc\<rparr>], so_search_after = None,
     so_aggregations = fmempty, so_collapse = None\<rparr>"

theorem sorted_alias_search_unsorted_witness:
  "\<exists>r. fan_out_search (\<lambda>t q os. Inr (shelf t)) btree_iter 3 [''x'', ''y''] (Bool [] [] []) (Some by_id_asc) = Inr r \<and>
     \<not> sorted_wrt (\<lambda>a b. compare_by_clauses plain_floats (so_sort by_id_asc) a b \<noteq> Greater) (sr_documents r)"
proof -
  have "compare_by_clauses plain_floats (so_sort by_id_asc) (scored_hit ''b'' 9) (scored_hit ''a'' 5) = Greater"
    by (simp add: by_id_asc_def compare_by_clause_def extract_sort_value_raw_def directed_def scored_hit_def doc_new_def)
  then show ?thesis
    using sorted_alias_search_unsorted [where ?ts1.0 = "[]" and ?t1.0 = "''x''" and ?ts2.0 = "[]" and ?t2.0 = "''y''" and ?ts3.0 = "[]"
        and os = by_id_asc and ix = "\<lambda>t q os. Inr (shelf t)" and res = shelf and q = "Bool [] [] []" and ita = btree_iter and took = 3
        and fo = plain_floats and ?d1.0 = "scored_hit ''b'' 9" and ?d2.0 = "scored_hit ''a'' 5"]
    by (auto simp: by_id_asc_def shelf_def)
qed

end
