(* ===== verification/Write_Batcher.thy ===== *)
theory Write_Batcher
  imports Forwarding "HOL-Library.Multiset"
begin

text \<open>
  The write batcher, \<^verbatim>\<open>crates/node/src/write_batcher.rs\<close>: documents submitted by the handlers
  are collected into batches and proposed to the consensus library, one proposal for each
  collection of a batch.

  The task of the batcher sees a sequence of events: entries that arrive on its channel and
  deadlines that pass while it waits for more entries; the end of the sequence is the closing of
  the channel. A reply channel is a number, and the replies sent are a list of numbers with their
  results. The order in which a batch's collections are proposed is that of a hash map.
\<close>

section \<open>Model\<close>

definition MAX_BATCH_SIZE :: nat where
  "MAX_BATCH_SIZE = 100"

definition MAX_BATCH_DELAY :: nat where
  "MAX_BATCH_DELAY = 10"

record batch_entry =
  be_collection :: string
  be_document :: document
  be_reply :: nat

type_synonym replies = "(nat \<times> raft_response db_result) list"

definition group_by_collection :: "batch_entry list \<Rightarrow> (string, batch_entry list) fmap" where
  "group_by_collection es =
     fold (\<lambda>e m. fmupd (be_collection e) (fm_get_or m (be_collection e) [] @ [e]) m) es fmempty"

text \<open>The loop over the collections of a batch.\<close>

fun flush_groups ::
    "('w, 'sc) raft_api \<Rightarrow> u64 \<Rightarrow> (string \<times> batch_entry list) list \<Rightarrow> 'w \<Rightarrow> 'w \<times> replies" where
  "flush_groups ra n [] w = (w, [])"
| "flush_groups ra n ((collection, batch_entries) # gs) w =
     (let documents = map be_document batch_entries;
          (w1, result) = propose_batch ra n collection documents w;
          answer = (case result of Inr resp \<Rightarrow> Inr resp | Inl e \<Rightarrow> Inl (ConsensusError (db_error_display e)));
          (w2, rest) = flush_groups ra n gs w1 in
      (w2, map (\<lambda>e. (be_reply e, answer)) batch_entries @ rest))"

definition flush_batch ::
    "('w, 'sc) raft_api \<Rightarrow> u64 \<Rightarrow> ((string, batch_entry list) fmap \<Rightarrow> (string \<times> batch_entry list) list) \<Rightarrow>
     batch_entry list \<Rightarrow> 'w \<Rightarrow> 'w \<times> replies" where
  "flush_batch ra n it buffer w =
     (if buffer = [] then (w, []) else flush_groups ra n (it (group_by_collection buffer)) w)"

datatype batch_event = Received batch_entry | DeadlinePassed

text \<open>The inner loop: up to the size limit, the deadline or the closing of the channel.\<close>

fun collect_batch :: "batch_event list \<Rightarrow> batch_entry list \<Rightarrow> batch_entry list \<times> batch_event list" where
  "collect_batch [] buffer = (buffer, [])"
| "collect_batch (Received e # evs) buffer =
     (if length buffer < MAX_BATCH_SIZE then collect_batch evs (buffer @ [e]) else (buffer, Received e # evs))"
| "collect_batch (DeadlinePassed # evs) buffer =
     (if length buffer < MAX_BATCH_SIZE then (buffer, evs) else (buffer, DeadlinePassed # evs))"

lemma collect_batch_shorter: "length (snd (collect_batch evs buffer)) \<le> length evs"
  by (induction evs buffer rule: collect_batch.induct) auto

text \<open>The task; no deadline is set while it waits for the first entry of a batch.\<close>

function batcher_loop ::
    "('w, 'sc) raft_api \<Rightarrow> u64 \<Rightarrow> ((string, batch_entry list) fmap \<Rightarrow> (string \<times> batch_entry list) list) \<Rightarrow>
     batch_event list \<Rightarrow> batch_entry list \<Rightarrow> 'w \<Rightarrow> 'w \<times> replies" where
  "batcher_loop ra n it [] buffer w = (if buffer \<noteq> [] then flush_batch ra n it buffer w else (w, []))"
| "batcher_loop ra n it (DeadlinePassed # evs) buffer w = batcher_loop ra n it evs buffer w"
| "batcher_loop ra n it (Received e # evs) buffer w =
     (let (full, evs1) = collect_batch evs (buffer @ [e]);
          (w1, rs) = flush_batch ra n it full w;
          (w2, rest) = batcher_loop ra n it evs1 [] w1 in
      (w2, rs @ rest))"
  by pat_completeness auto
termination
  by (relation "measure (\<lambda>(_, _, _, evs, _, _). length evs)")
    (auto, metis collect_batch_shorter le_imp_less_Suc snd_conv)

text \<open>
  The batcher itself: its queue has room for 400 entries, and its receiver can be taken once. A
  submission waits while the queue is full (None); on a closed channel it is answered at once.
\<close>

record write_batcher =
  wb_queue :: "batch_entry list"
  wb_closed :: bool
  wb_receiver :: bool

definition batcher_new :: write_batcher where
  "batcher_new = \<lparr>wb_queue = [], wb_closed = False, wb_receiver = True\<rparr>"

definition submit :: "string \<Rightarrow> document \<Rightarrow> nat \<Rightarrow> write_batcher \<Rightarrow> (write_batcher \<times> replies) option" where
  "submit collection document reply wb =
     (if wb_closed wb then
        Some (wb, [(reply, Inl (ConsensusError ''write batcher channel closed''))])
      else if length (wb_queue wb) < MAX_BATCH_SIZE * 4 then
        Some (wb\<lparr>wb_queue := wb_queue wb @ [\<lparr>be_collection = collection, be_document = document, be_reply = reply\<rparr>]\<rparr>, [])
      else None)"

text \<open>A second start panics: None.\<close>

definition start_batcher :: "write_batcher \<Rightarrow> write_batcher option" where
  "start_batcher wb = (if wb_receiver wb then Some (wb\<lparr>wb_receiver := False\<rparr>) else None)"

section \<open>Lemmas\<close>

abbreviation for_collection :: "string \<Rightarrow> batch_entry list \<Rightarrow> batch_entry list" where
  "for_collection c \<equiv> filter (\<lambda>e. be_collection e = c)"

lemma fold_group:
  "fmlookup (fold (\<lambda>e m. fmupd (be_collection e) (fm_get_or m (be_collection e) [] @ [e]) m) es m) c =
    (if for_collection c es = [] then fmlookup m c else Some (fm_get_or m c [] @ for_collection c es))"
  by (induction es arbitrary: m) (auto simp: fm_get_or_def)

lemma group_lookup: "fmlookup (group_by_collection es) c = (if for_collection c es = [] then None else Some (for_collection c es))"
  by (simp add: group_by_collection_def fold_group)

text \<open>The groups of a batch partition it.\<close>

lemma groups_of:
  assumes "hash_iter it"
  shows "(c, g) \<in> set (it (group_by_collection es)) \<longleftrightarrow> g = for_collection c es \<and> g \<noteq> []"
  by (auto simp: hash_iter_set [OF assms] group_lookup split: if_splits)

lemma groups_filter:
  assumes "hash_iter it"
  shows "concat (map snd (filter (\<lambda>g. fst g = c) (it (group_by_collection es)))) = for_collection c es"
proof -
  have "filter (\<lambda>g. fst g = c) xs = (case map_of xs c of None \<Rightarrow> [] | Some g \<Rightarrow> [(c, g)])" if "distinct (map fst xs)" for xs :: "(string \<times> batch_entry list) list"
    using that
  proof (induction xs)
    case (Cons x xs)
    then have "fst x = c \<Longrightarrow> map_of xs c = None" by (auto simp: map_of_eq_None_iff)
    with Cons show ?case by (cases x) auto
  qed simp
  from this [OF hash_iterD(1) [OF assms]] show ?thesis
    by (simp add: hash_iterD(2) [OF assms] group_lookup)
qed

lemma mset_groups:
  assumes "hash_iter it"
  shows "mset (concat (map snd (it (group_by_collection es)))) = mset es"
proof (rule multiset_eqI)
  fix e
  let ?gs = "it (group_by_collection es)"
  have own: "\<forall>(c, g) \<in> set ?gs. \<forall>x \<in> set g. be_collection x = c" using groups_of [OF assms] by fastforce
  have "filter ((=) e) (concat (map snd gs)) = filter ((=) e) (concat (map snd (filter (\<lambda>g. fst g = be_collection e) gs)))"
    if "\<forall>(c, g) \<in> set gs. \<forall>x \<in> set g. be_collection x = c" for gs :: "(string \<times> batch_entry list) list"
    using that by (induction gs) (auto simp: filter_empty_conv)
  from this [OF own] have "filter ((=) e) (concat (map snd ?gs)) = filter ((=) e) (for_collection (be_collection e) es)"
    by (simp add: groups_filter [OF assms])
  also have "\<dots> = filter ((=) e) es" by (auto intro: filter_cong)
  finally show "count (mset (concat (map snd ?gs))) e = count (mset es) e"
    by (simp add: count_mset count_list_eq_length_filter)
qed

text \<open>The proposals of a sequence of groups, their effect and their replies.\<close>

definition run_proposals :: "('w, 'sc) raft_api \<Rightarrow> u64 \<Rightarrow> (string \<times> batch_entry list) list \<Rightarrow> 'w \<Rightarrow> 'w" where
  "run_proposals ra n gs w = fold (\<lambda>(c, g) w. fst (propose_batch ra n c (map be_document g) w)) gs w"

lemma flush_groups_world: "fst (flush_groups ra n gs w) = run_proposals ra n gs w"
  by (induction gs arbitrary: w) (auto simp: run_proposals_def Let_def split_beta)

lemma flush_groups_replies: "map fst (snd (flush_groups ra n gs w)) = map be_reply (concat (map snd gs))"
  by (induction gs arbitrary: w) (auto simp: Let_def split_beta)

definition received :: "batch_event list \<Rightarrow> batch_entry list" where
  "received evs = List.map_filter (\<lambda>ev. case ev of Received e \<Rightarrow> Some e | DeadlinePassed \<Rightarrow> None) evs"

lemma received_simps [simp]:
  "received [] = []" "received (Received e # evs) = e # received evs" "received (DeadlinePassed # evs) = received evs"
  by (simp_all add: received_def map_filter_simps)

lemma collect_batch_splits:
  "collect_batch evs buffer = (full, evs1) \<Longrightarrow> full @ received evs1 = buffer @ received evs"
  by (induction evs buffer rule: collect_batch.induct) (auto split: if_splits)

lemma collect_batch_bounds:
  "collect_batch evs buffer = (full, evs1) \<Longrightarrow> length buffer \<le> MAX_BATCH_SIZE \<Longrightarrow>
    length buffer \<le> length full \<and> length full \<le> MAX_BATCH_SIZE"
  by (induction evs buffer rule: collect_batch.induct) (fastforce split: if_splits)+

lemma batcher_proposals:
  assumes "hash_iter it" "length buffer < MAX_BATCH_SIZE"
  shows "\<exists>gs. fst (batcher_loop ra n it evs buffer w) = run_proposals ra n gs w \<and>
    (\<forall>c. concat (map snd (filter (\<lambda>g. fst g = c) gs)) = for_collection c (buffer @ received evs)) \<and>
    (\<forall>(c, g) \<in> set gs. g \<noteq> [] \<and> length g \<le> MAX_BATCH_SIZE) \<and>
    mset (map fst (snd (batcher_loop ra n it evs buffer w))) = mset (map be_reply (buffer @ received evs))"
  using assms(2)
proof (induction "length evs" arbitrary: evs buffer w rule: less_induct)
  case less
  have flush: "fst (flush_batch ra n it es w) = run_proposals ra n (it (group_by_collection es)) w"
    "mset (map fst (snd (flush_batch ra n it es w))) = mset (map be_reply es)" if "es \<noteq> []" for es w
    using that mset_map [of be_reply "concat (map snd (it (group_by_collection es)))"]
    by (simp_all add: flush_batch_def flush_groups_world flush_groups_replies mset_groups [OF assms(1)] del: mset_concat mset_map)
       (metis mset_groups [OF assms(1)] mset_map)
  have small: "\<forall>(c, g) \<in> set (it (group_by_collection es)). g \<noteq> [] \<and> length g \<le> MAX_BATCH_SIZE" if "length es \<le> MAX_BATCH_SIZE" for es
    using that groups_of [OF assms(1), of _ _ es] by (auto intro: le_trans [OF length_filter_le])
  show ?case
  proof (cases evs rule: list.exhaust)
    case Nil
    show ?thesis
    proof (cases "buffer = []")
      case True
      with Nil show ?thesis by (intro exI [of _ "[]"]) (simp add: run_proposals_def)
    next
      case False
      with Nil less.prems flush [OF False, of w] small [of buffer] groups_filter [OF assms(1), of _ buffer] show ?thesis
        by (intro exI [of _ "it (group_by_collection buffer)"]) simp
    qed
  next
    case (Cons ev evs')
    show ?thesis
    proof (cases ev)
      case DeadlinePassed
      with Cons less.hyps [of evs' buffer w] less.prems show ?thesis by simp
    next
      case (Received e)
      obtain full evs1 where c: "collect_batch evs' (buffer @ [e]) = (full, evs1)" by fastforce
      have full: "full @ received evs1 = buffer @ e # received evs'" "length full \<le> MAX_BATCH_SIZE" "full \<noteq> []"
        using collect_batch_splits [OF c] collect_batch_bounds [OF c] less.prems by auto
      have "length evs1 < length evs" using collect_batch_shorter [of evs' "buffer @ [e]"] c Cons by simp
      moreover obtain w1 rs where f: "flush_batch ra n it full w = (w1, rs)" by fastforce
      ultimately obtain gs where gs: "fst (batcher_loop ra n it evs1 [] w1) = run_proposals ra n gs w1"
        "\<forall>c. concat (map snd (filter (\<lambda>g. fst g = c) gs)) = for_collection c (received evs1)"
        "\<forall>(c, g) \<in> set gs. g \<noteq> [] \<and> length g \<le> MAX_BATCH_SIZE"
        "mset (map fst (snd (batcher_loop ra n it evs1 [] w1))) = mset (map be_reply (received evs1))"
        using less.hyps [of evs1 "[]" w1] by (auto simp: MAX_BATCH_SIZE_def)
      have run: "batcher_loop ra n it evs buffer w = (fst (batcher_loop ra n it evs1 [] w1), rs @ snd (batcher_loop ra n it evs1 [] w1))"
        using Cons Received c f by (simp add: split_beta)
      have fl: "w1 = run_proposals ra n (it (group_by_collection full)) w" "mset (map fst rs) = mset (map be_reply full)"
        using flush [OF full(3), of w] f by simp_all
      have all: "buffer @ received evs = full @ received evs1" using full(1) Cons Received by simp
      show ?thesis
        using run gs fl small [OF full(2)] groups_filter [OF assms(1), of _ full]
        by (intro exI [of _ "it (group_by_collection full) @ gs"]) (auto simp: all run_proposals_def)
    qed
  qed
qed

section \<open>Properties\<close>

text \<open>
  C12. Whatever the sequence of arrivals and deadlines, the batcher answers every entry that reached
  it exactly once, and the state of the cluster is the result of proposing batches that are not
  empty, hold at most 100 documents of one collection each, and together hold for every collection
  exactly the submitted documents in the order of submission.
\<close>

theorem batcher_exact:
  assumes "hash_iter it"
  shows "mset (map fst (snd (batcher_loop ra n it evs [] w))) = mset (map be_reply (received evs)) \<and>
    (\<exists>batches. fst (batcher_loop ra n it evs [] w) = fold (\<lambda>(c, ds) w. fst (propose_batch ra n c ds w)) batches w \<and>
      (\<forall>(c, ds) \<in> set batches. ds \<noteq> [] \<and> length ds \<le> MAX_BATCH_SIZE) \<and>
      (\<forall>c. concat (map snd (filter (\<lambda>b. fst b = c) batches)) = map be_document (for_collection c (received evs))))"
proof -
  obtain gs where gs: "fst (batcher_loop ra n it evs [] w) = run_proposals ra n gs w"
    "\<forall>c. concat (map snd (filter (\<lambda>g. fst g = c) gs)) = for_collection c (received evs)"
    "\<forall>(c, g) \<in> set gs. g \<noteq> [] \<and> length g \<le> MAX_BATCH_SIZE"
    "mset (map fst (snd (batcher_loop ra n it evs [] w))) = mset (map be_reply (received evs))"
    using batcher_proposals [OF assms, of "[]" ra n evs w] by (auto simp: MAX_BATCH_SIZE_def)
  let ?bs = "map (\<lambda>(c, g). (c, map be_document g)) gs"
  have "concat (map snd (filter (\<lambda>b. fst b = c) ?bs)) = map be_document (concat (map snd (filter (\<lambda>g. fst g = c) gs)))" for c
    by (induction gs) auto
  moreover have "run_proposals ra n gs w = fold (\<lambda>(c, ds) w. fst (propose_batch ra n c ds w)) ?bs w"
    by (simp add: run_proposals_def fold_map o_def case_prod_unfold)
  ultimately show ?thesis using gs by (intro conjI exI [of _ ?bs]) (auto simp: split_beta)
qed

definition counting_raft :: "(nat, unit) raft_api" where
  "counting_raft = \<lparr>ra_client_write = (\<lambda>_ cmd w. (case cmd of BatchInsert c ds \<Rightarrow> w + length ds | _ \<Rightarrow> w, Inr (rr_ok_batch 1))),
     ra_current_leader = (\<lambda>_ _. None), ra_nodes = (\<lambda>_ _. [])\<rparr>"

definition entry_no :: "nat \<Rightarrow> string \<Rightarrow> batch_entry" where
  "entry_no k c = \<lparr>be_collection = c, be_document = doc_new (DocumentId c), be_reply = k\<rparr>"

theorem batcher_exact_witness:
  "mset (map fst (snd (batcher_loop counting_raft 1 btree_iter
     [Received (entry_no 1 ''a''), Received (entry_no 2 ''b''), DeadlinePassed, Received (entry_no 3 ''a'')] [] 0))) = {#1, 2, 3#}"
  using batcher_exact [OF hash_iter_btree_iter, of counting_raft 1
      "[Received (entry_no 1 ''a''), Received (entry_no 2 ''b''), DeadlinePassed, Received (entry_no 3 ''a'')]" 0]
  by (simp add: entry_no_def)

text \<open>
  A batch is proposed on the local node only: on a node that does not lead, every entry is
  answered with an error, and nothing is forwarded.
\<close>

theorem batcher_needs_leader:
  assumes "\<And>c ds w. ra_client_write ra n (BatchInsert c ds) w = (w, Inl (ForwardToLeader l))"
  shows "fst (flush_batch ra n it buffer w) = w \<and> list_all (isl \<circ> snd) (snd (flush_batch ra n it buffer w))"
proof -
  have "fst (flush_groups ra n gs w) = w \<and> list_all (isl \<circ> snd) (snd (flush_groups ra n gs w))" for gs
  proof (induction gs)
    case (Cons g gs)
    then show ?case
      by (cases g) (simp add: Let_def split_beta propose_batch_def propose_def assms list.pred_map o_def list.pred_True)
  qed simp
  then show ?thesis by (simp add: flush_batch_def)
qed

end
