(* ===== verification/Config.thy ===== *)
theory Config
  imports Rpc
begin

text \<open>
  The configuration of a node, \<^verbatim>\<open>crates/core/src/config.rs\<close>, and the overrides of the command
  line applied to it by \<^verbatim>\<open>crates/node/src/main.rs\<close>.

  The TOML library turns a text into a table, a finite map from keys to values, and back; the
  derived deserialisation of one section from a value is a parameter, the choice of the section or
  its default is written out. Paths are strings.
\<close>

section \<open>The configuration file\<close>

type_synonym i32 = "32 word"

record node_section =
  ns_id :: u64
  ns_data_dir :: string

definition node_section_default :: node_section where
  "node_section_default = \<lparr>ns_id = 1, ns_data_dir = ''data''\<rparr>"

record network_section =
  nw_http_host :: string
  nw_http_port :: u16
  nw_grpc_host :: string
  nw_grpc_port :: u16
  nw_peers :: "string list"

definition network_section_default :: network_section where
  "network_section_default =
     \<lparr>nw_http_host = ''0.0.0.0'', nw_http_port = 9200, nw_grpc_host = ''0.0.0.0'', nw_grpc_port = 9300, nw_peers = []\<rparr>"

record storage_section =
  ss_write_buffer_mb :: nat
  ss_max_open_files :: i32
  ss_compression :: bool

definition storage_section_default :: storage_section where
  "storage_section_default = \<lparr>ss_write_buffer_mb = 64, ss_max_open_files = 1000, ss_compression = True\<rparr>"

record index_section =
  is_heap_size_mb :: nat
  is_merge_policy :: string

definition index_section_default :: index_section where
  "index_section_default = \<lparr>is_heap_size_mb = 128, is_merge_policy = ''log''\<rparr>"

record cluster_section =
  cl_replication_factor :: u8
  cl_election_timeout_ms :: u64
  cl_heartbeat_interval_ms :: u64

definition cluster_section_default :: cluster_section where
  "cluster_section_default = \<lparr>cl_replication_factor = 1, cl_election_timeout_ms = 150, cl_heartbeat_interval_ms = 50\<rparr>"

record auth_section =
  au_api_key :: string

record observability_section =
  ob_log_level :: string
  ob_metrics_port :: u16

definition observability_section_default :: observability_section where
  "observability_section_default = \<lparr>ob_log_level = ''info'', ob_metrics_port = 9100\<rparr>"

record config_file =
  cf_node :: node_section
  cf_network :: network_section
  cf_storage :: storage_section
  cf_index :: index_section
  cf_cluster :: cluster_section
  cf_auth :: auth_section
  cf_observability :: observability_section

definition config_file_default :: config_file where
  "config_file_default =
     \<lparr>cf_node = node_section_default, cf_network = network_section_default, cf_storage = storage_section_default,
      cf_index = index_section_default, cf_cluster = cluster_section_default, cf_auth = \<lparr>au_api_key = []\<rparr>,
      cf_observability = observability_section_default\<rparr>"

section \<open>The runtime configuration\<close>

record node_config =
  nc_node_id :: node_id
  nc_data_dir :: string
  nc_http_host :: string
  nc_http_port :: u16
  nc_grpc_host :: string
  nc_grpc_port :: u16
  nc_peers :: "node_address list"
  nc_replication_factor :: u8
  nc_write_buffer_mb :: nat
  nc_max_open_files :: i32
  nc_compression :: bool
  nc_heap_size_mb :: nat
  nc_merge_policy :: string
  nc_election_timeout_ms :: u64
  nc_heartbeat_interval_ms :: u64
  nc_api_key :: "string option"
  nc_log_level :: string
  nc_metrics_port :: u16

definition node_config_default :: node_config where
  "node_config_default =
     \<lparr>nc_node_id = NodeId 1, nc_data_dir = ''data'', nc_http_host = ''0.0.0.0'', nc_http_port = 9200, nc_grpc_host = ''0.0.0.0'',
      nc_grpc_port = 9300, nc_peers = [], nc_replication_factor = 1, nc_write_buffer_mb = 64, nc_max_open_files = 1000,
      nc_compression = True, nc_heap_size_mb = 128, nc_merge_policy = ''log'', nc_election_timeout_ms = 150,
      nc_heartbeat_interval_ms = 50, nc_api_key = None, nc_log_level = ''info'', nc_metrics_port = 9100\<rparr>"

text \<open>A peer \<^verbatim>\<open>host:port\<close>, cut at the last colon; None without a port.\<close>

definition parse_peer :: "string \<Rightarrow> node_address option" where
  "parse_peer p =
     (case split_last_colon p of
        Some (h, t) \<Rightarrow> map_option (\<lambda>pt. \<lparr>host = h, port = pt\<rparr>) (parse_u16 t)
      | None \<Rightarrow> None)"

definition into_node_config :: "config_file \<Rightarrow> node_config" where
  "into_node_config c =
     \<lparr>nc_node_id = NodeId (ns_id (cf_node c)), nc_data_dir = ns_data_dir (cf_node c),
      nc_http_host = nw_http_host (cf_network c), nc_http_port = nw_http_port (cf_network c),
      nc_grpc_host = nw_grpc_host (cf_network c), nc_grpc_port = nw_grpc_port (cf_network c),
      nc_peers = List.map_filter parse_peer (nw_peers (cf_network c)),
      nc_replication_factor = cl_replication_factor (cf_cluster c),
      nc_write_buffer_mb = ss_write_buffer_mb (cf_storage c), nc_max_open_files = ss_max_open_files (cf_storage c),
      nc_compression = ss_compression (cf_storage c), nc_heap_size_mb = is_heap_size_mb (cf_index c),
      nc_merge_policy = is_merge_policy (cf_index c), nc_election_timeout_ms = cl_election_timeout_ms (cf_cluster c),
      nc_heartbeat_interval_ms = cl_heartbeat_interval_ms (cf_cluster c),
      nc_api_key = (if au_api_key (cf_auth c) = [] then None else Some (au_api_key (cf_auth c))),
      nc_log_level = ob_log_level (cf_observability c), nc_metrics_port = ob_metrics_port (cf_observability c)\<rparr>"

text \<open>The TOML library, and the derived conversions of sections and of the runtime configuration.\<close>

record 'v toml_ops =
  tm_parse :: "string \<Rightarrow> string + (string, 'v) fmap"
  tm_print :: "(string, 'v) fmap \<Rightarrow> string + string"
  tm_node :: "'v \<Rightarrow> string + node_section"
  tm_network :: "'v \<Rightarrow> string + network_section"
  tm_storage :: "'v \<Rightarrow> string + storage_section"
  tm_index :: "'v \<Rightarrow> string + index_section"
  tm_cluster :: "'v \<Rightarrow> string + cluster_section"
  tm_auth :: "'v \<Rightarrow> string + auth_section"
  tm_observability :: "'v \<Rightarrow> string + observability_section"
  tm_flat :: "node_config \<Rightarrow> (string, 'v) fmap"

definition section_or :: "(string, 'v) fmap \<Rightarrow> string \<Rightarrow> ('v \<Rightarrow> string + 'a) \<Rightarrow> 'a \<Rightarrow> string + 'a" where
  "section_or t key conv dflt = (case fmlookup t key of None \<Rightarrow> Inr dflt | Some v \<Rightarrow> conv v)"

text \<open>The derived deserialisation of the file: a missing section has its default, other keys are ignored.\<close>

definition config_of_table :: "'v toml_ops \<Rightarrow> (string, 'v) fmap \<Rightarrow> string + config_file" where
  "config_of_table tm t =
     (case (section_or t ''node'' (tm_node tm) node_section_default, section_or t ''network'' (tm_network tm) network_section_default,
            section_or t ''storage'' (tm_storage tm) storage_section_default, section_or t ''index'' (tm_index tm) index_section_default,
            section_or t ''cluster'' (tm_cluster tm) cluster_section_default, section_or t ''auth'' (tm_auth tm) \<lparr>au_api_key = []\<rparr>,
            section_or t ''observability'' (tm_observability tm) observability_section_default) of
        (Inr a, Inr b, Inr c, Inr d, Inr e, Inr f, Inr g) \<Rightarrow>
          Inr \<lparr>cf_node = a, cf_network = b, cf_storage = c, cf_index = d, cf_cluster = e, cf_auth = f, cf_observability = g\<rparr>
      | _ \<Rightarrow> Inl ''invalid section'')"

definition config_file_from_toml_str :: "'v toml_ops \<Rightarrow> string \<Rightarrow> config_file db_result" where
  "config_file_from_toml_str tm s =
     (case (case tm_parse tm s of Inl e \<Rightarrow> Inl e | Inr t \<Rightarrow> config_of_table tm t) of
        Inl e \<Rightarrow> Inl (SerializationError (''failed to parse TOML config: '' @ e))
      | Inr c \<Rightarrow> Inr c)"

definition from_toml_str :: "'v toml_ops \<Rightarrow> string \<Rightarrow> node_config db_result" where
  "from_toml_str tm s = (case config_file_from_toml_str tm s of Inl e \<Rightarrow> Inl e | Inr cf \<Rightarrow> Inr (into_node_config cf))"

definition from_toml_file :: "'v toml_ops \<Rightarrow> (string \<Rightarrow> string + string) \<Rightarrow> string \<Rightarrow> node_config db_result" where
  "from_toml_file tm read_file path =
     (case read_file path of
        Inl e \<Rightarrow> Inl (StorageError (''failed to read config file '' @ quoted path @ '': '' @ e))
      | Inr content \<Rightarrow> from_toml_str tm content)"

definition to_toml_string :: "'v toml_ops \<Rightarrow> node_config \<Rightarrow> string db_result" where
  "to_toml_string tm c =
     (case tm_print tm (tm_flat tm c) of
        Inl e \<Rightarrow> Inl (SerializationError (''failed to serialize config to TOML: '' @ e))
      | Inr s \<Rightarrow> Inr s)"

section \<open>Validation\<close>

fun check_peers :: "string \<Rightarrow> string \<Rightarrow> node_address list \<Rightarrow> unit db_result" where
  "check_peers self_http self_grpc [] = Inr ()"
| "check_peers self_http self_grpc (peer # peers) =
     (let peer_addr = node_address_display peer in
      if peer_addr = self_http \<or> peer_addr = self_grpc
      then Inl (InvalidInput (''peers list must not include self address: '' @ peer_addr))
      else check_peers self_http self_grpc peers)"

definition validate :: "node_config \<Rightarrow> unit db_result" where
  "validate c =
     (if nc_replication_factor c = 0 then Inl (InvalidInput ''replication_factor must be at least 1'')
      else if nc_http_port c = nc_grpc_port c then Inl (InvalidInput ''http_port and grpc_port must be different'')
      else if nc_data_dir c = [] then Inl (InvalidInput ''data_dir must not be empty'')
      else
        (let self_http = nc_http_host c @ '':'' @ dec (unat (nc_http_port c));
             self_grpc = nc_grpc_host c @ '':'' @ dec (unat (nc_grpc_port c)) in
         case check_peers self_http self_grpc (nc_peers c) of
           Inl e \<Rightarrow> Inl e
         | Inr _ \<Rightarrow>
             if nc_metrics_port c > 0 \<and> nc_metrics_port c = nc_http_port c then Inl (InvalidInput ''metrics_port must not equal http_port'')
             else if nc_metrics_port c > 0 \<and> nc_metrics_port c = nc_grpc_port c then Inl (InvalidInput ''metrics_port must not equal grpc_port'')
             else Inr ()))"

section \<open>Start-up\<close>

record cli =
  cli_config :: "string option"
  cli_node_id :: "u64 option"
  cli_data_dir :: "string option"
  cli_http_port :: "u16 option"
  cli_grpc_port :: "u16 option"
  cli_peers :: "string list option"
  cli_bootstrap :: bool
  cli_log_level :: "string option"

definition apply_cli :: "cli \<Rightarrow> node_config \<Rightarrow> node_config" where
  "apply_cli a c0 =
     (let c1 = (case cli_node_id a of Some i \<Rightarrow> c0\<lparr>nc_node_id := NodeId i\<rparr> | None \<Rightarrow> c0);
          c2 = (case cli_data_dir a of Some d \<Rightarrow> c1\<lparr>nc_data_dir := d\<rparr> | None \<Rightarrow> c1);
          c3 = (case cli_http_port a of Some p \<Rightarrow> c2\<lparr>nc_http_port := p\<rparr> | None \<Rightarrow> c2);
          c4 = (case cli_grpc_port a of Some p \<Rightarrow> c3\<lparr>nc_grpc_port := p\<rparr> | None \<Rightarrow> c3);
          c5 = (case cli_peers a of Some ps \<Rightarrow> c4\<lparr>nc_peers := List.map_filter parse_peer ps\<rparr> | None \<Rightarrow> c4) in
      case cli_log_level a of Some l \<Rightarrow> c5\<lparr>nc_log_level := l\<rparr> | None \<Rightarrow> c5)"

text \<open>The configuration a node starts with; an error ends the process.\<close>

definition startup_config :: "'v toml_ops \<Rightarrow> (string \<Rightarrow> string + string) \<Rightarrow> cli \<Rightarrow> node_config db_result" where
  "startup_config tm read_file a =
     (case (case cli_config a of Some path \<Rightarrow> from_toml_file tm read_file path | None \<Rightarrow> Inr node_config_default) of
        Inl e \<Rightarrow> Inl e
      | Inr c \<Rightarrow> (case validate (apply_cli a c) of Inl e \<Rightarrow> Inl e | Inr _ \<Rightarrow> Inr (apply_cli a c)))"

definition local_node :: "node_config \<Rightarrow> node_info" where
  "local_node c = \<lparr>ni_id = nc_node_id c, ni_address = \<lparr>host = nc_grpc_host c, port = nc_grpc_port c\<rparr>, ni_status = Follower\<rparr>"

text \<open>The first peer is joined, unless a new cluster is started.\<close>

definition join_peer :: "cli \<Rightarrow> node_config \<Rightarrow> node_address option" where
  "join_peer a c = (if \<not> cli_bootstrap a \<and> nc_peers c \<noteq> [] then Some (hd (nc_peers c)) else None)"

section \<open>Lemmas\<close>

lemma node_address_display_inject: "node_address_display a = node_address_display b \<longleftrightarrow> a = b"
  by (metis join_address_display)

lemma self_address: "h @ '':'' @ dec (unat p) = node_address_display \<lparr>host = h, port = p\<rparr>"
  by (simp add: node_address_display_def)

lemma check_peers_ok:
  "check_peers (node_address_display a) (node_address_display b) ps = Inr () \<longleftrightarrow> a \<notin> set ps \<and> b \<notin> set ps"
  by (induction ps) (auto simp: Let_def node_address_display_inject)

lemma check_peers_error: "check_peers a b ps = Inl e \<Longrightarrow> \<exists>msg. e = InvalidInput msg"
  by (induction ps) (auto simp: Let_def split: if_splits)

text \<open>What a usable configuration is.\<close>

definition well_formed :: "node_config \<Rightarrow> bool" where
  "well_formed c \<longleftrightarrow>
     1 \<le> unat (nc_replication_factor c) \<and> nc_data_dir c \<noteq> [] \<and> nc_http_port c \<noteq> nc_grpc_port c \<and>
     nc_metrics_port c \<notin> {nc_http_port c, nc_grpc_port c} - {0} \<and>
     \<lparr>host = nc_http_host c, port = nc_http_port c\<rparr> \<notin> set (nc_peers c) \<and>
     \<lparr>host = nc_grpc_host c, port = nc_grpc_port c\<rparr> \<notin> set (nc_peers c)"

lemma validate_iff: "validate c = Inr () \<longleftrightarrow> well_formed c"
proof -
  have "1 \<le> unat (nc_replication_factor c) \<longleftrightarrow> nc_replication_factor c \<noteq> 0"
    by (metis One_nat_def Suc_le_eq neq0_conv unat_0 unat_eq_zero)
  moreover have "nc_metrics_port c > 0 \<longleftrightarrow> nc_metrics_port c \<noteq> 0" by (simp add: word_neq_0_conv)
  moreover let ?h = "\<lparr>host = nc_http_host c, port = nc_http_port c\<rparr>" and ?g = "\<lparr>host = nc_grpc_host c, port = nc_grpc_port c\<rparr>"
  have "validate c = Inr () \<longleftrightarrow> nc_replication_factor c \<noteq> 0 \<and> nc_http_port c \<noteq> nc_grpc_port c \<and> nc_data_dir c \<noteq> [] \<and>
      check_peers (node_address_display ?h) (node_address_display ?g) (nc_peers c) = Inr () \<and>
      \<not> (nc_metrics_port c > 0 \<and> nc_metrics_port c = nc_http_port c) \<and> \<not> (nc_metrics_port c > 0 \<and> nc_metrics_port c = nc_grpc_port c)"
    unfolding validate_def self_address Let_def
    by (cases "check_peers (node_address_display ?h) (node_address_display ?g) (nc_peers c)") auto
  ultimately show ?thesis
    unfolding check_peers_ok well_formed_def by auto
qed

lemma parse_peer_display: "parse_peer (node_address_display a) = Some a"
  by (simp add: parse_peer_def split_display parse_u16_dec)

section \<open>Properties\<close>

text \<open>
  C32. The validation accepts exactly the usable configurations: at least one replica, a data
  directory, three different ports (the metrics port may be 0) and no peer that is the node itself;
  and it rejects all others as invalid input. So a node never starts with any other
  configuration, wherever its values come from, and the command line takes precedence.
\<close>

theorem startup_config_well_formed:
  "(validate c = Inr () \<longleftrightarrow> well_formed c) \<and> (\<not> well_formed c \<longrightarrow> (\<exists>msg. validate c = Inl (InvalidInput msg))) \<and>
   (startup_config tm read_file a = Inr c \<longrightarrow>
      well_formed c \<and>
      (\<forall>p. cli_http_port a = Some p \<longrightarrow> nc_http_port c = p) \<and> (\<forall>p. cli_grpc_port a = Some p \<longrightarrow> nc_grpc_port c = p) \<and>
      (\<forall>i. cli_node_id a = Some i \<longrightarrow> nc_node_id c = NodeId i) \<and> (\<forall>d. cli_data_dir a = Some d \<longrightarrow> nc_data_dir c = d) \<and>
      (\<forall>ps. cli_peers a = Some (map node_address_display ps) \<longrightarrow> nc_peers c = ps))"
proof (intro conjI impI)
  show "validate c = Inr () \<longleftrightarrow> well_formed c" by (rule validate_iff)
  assume "\<not> well_formed c"
  then have "validate c \<noteq> Inr ()" by (simp add: validate_iff)
  then show "\<exists>msg. validate c = Inl (InvalidInput msg)"
    using check_peers_error unfolding validate_def Let_def by (auto split: sum.splits if_splits)
next
  assume "startup_config tm read_file a = Inr c"
  then obtain c0 where "validate (apply_cli a c0) = Inr ()" and c: "c = apply_cli a c0"
    by (auto simp: startup_config_def split: sum.splits)
  then show "well_formed c" by (simp add: validate_iff)
  show "\<forall>p. cli_http_port a = Some p \<longrightarrow> nc_http_port c = p" "\<forall>p. cli_grpc_port a = Some p \<longrightarrow> nc_grpc_port c = p"
    "\<forall>i. cli_node_id a = Some i \<longrightarrow> nc_node_id c = NodeId i" "\<forall>d. cli_data_dir a = Some d \<longrightarrow> nc_data_dir c = d"
    unfolding c apply_cli_def Let_def by (auto split: option.split)
  have "List.map_filter parse_peer (map node_address_display ps) = ps" for ps
    by (induction ps) (simp_all add: map_filter_simps parse_peer_display)
  then show "\<forall>ps. cli_peers a = Some (map node_address_display ps) \<longrightarrow> nc_peers c = ps"
    unfolding c apply_cli_def Let_def by (auto split: option.split)
qed

theorem startup_config_well_formed_witness:
  "startup_config \<lparr>tm_parse = (\<lambda>_. Inl []), tm_print = (\<lambda>_. Inl []), tm_node = (\<lambda>_ :: unit. Inl []), tm_network = (\<lambda>_. Inl []), tm_storage = (\<lambda>_. Inl []),
      tm_index = (\<lambda>_. Inl []), tm_cluster = (\<lambda>_. Inl []), tm_auth = (\<lambda>_. Inl []), tm_observability = (\<lambda>_. Inl []), tm_flat = (\<lambda>_. fmempty)\<rparr>
     (\<lambda>_. Inl [])
     \<lparr>cli_config = None, cli_node_id = Some 2, cli_data_dir = None, cli_http_port = Some 8080, cli_grpc_port = None, cli_peers = None,
      cli_bootstrap = False, cli_log_level = None\<rparr> = Inr (node_config_default\<lparr>nc_node_id := NodeId 2, nc_http_port := 8080\<rparr>) \<and>
   well_formed (node_config_default\<lparr>nc_node_id := NodeId 2, nc_http_port := 8080\<rparr>) \<and>
   \<not> well_formed (node_config_default\<lparr>nc_http_port := 9300\<rparr>)"
proof -
  let ?c = "node_config_default\<lparr>nc_node_id := NodeId 2, nc_http_port := 8080\<rparr>"
  let ?tm = "\<lparr>tm_parse = (\<lambda>_. Inl []), tm_print = (\<lambda>_. Inl []), tm_node = (\<lambda>_ :: unit. Inl []), tm_network = (\<lambda>_. Inl []), tm_storage = (\<lambda>_. Inl []),
      tm_index = (\<lambda>_. Inl []), tm_cluster = (\<lambda>_. Inl []), tm_auth = (\<lambda>_. Inl []), tm_observability = (\<lambda>_. Inl []), tm_flat = (\<lambda>_. fmempty)\<rparr>"
  let ?a = "\<lparr>cli_config = None, cli_node_id = Some 2, cli_data_dir = None, cli_http_port = Some 8080, cli_grpc_port = None, cli_peers = None,
      cli_bootstrap = False, cli_log_level = None\<rparr>"
  have "validate ?c = Inr ()" by (simp add: validate_def node_config_default_def Let_def)
  then have "startup_config ?tm (\<lambda>_. Inl []) ?a = Inr ?c" by (simp add: startup_config_def apply_cli_def Let_def)
  moreover have "validate (node_config_default\<lparr>nc_http_port := 9300\<rparr>) \<noteq> Inr ()" by (simp add: validate_def node_config_default_def)
  ultimately show ?thesis
    using startup_config_well_formed [of ?c ?tm "\<lambda>_. Inl []" ?a]
      startup_config_well_formed [of "node_config_default\<lparr>nc_http_port := 9300\<rparr>" ?tm "\<lambda>_. Inl []" ?a] by blast
qed

text \<open>The keys that the derived serialisation of the runtime configuration writes: its field names.\<close>

definition flat_keys :: "string set" where
  "flat_keys = {''node_id'', ''data_dir'', ''http_host'', ''http_port'', ''grpc_host'', ''grpc_port'', ''peers'', ''replication_factor'',
     ''write_buffer_mb'', ''max_open_files'', ''compression'', ''heap_size_mb'', ''merge_policy'', ''election_timeout_ms'',
     ''heartbeat_interval_ms'', ''api_key'', ''log_level'', ''metrics_port''}"

text \<open>
  A saved configuration is not the one that is loaded: the text a node writes of its
  configuration, read back by the same type, is accepted without complaint and gives the default
  configuration, whatever the configuration was, because it is written flat and read in sections.
\<close>

theorem saved_config_reloads_as_default:
  assumes "tm_print tm (tm_flat tm c) = Inr s" and "tm_parse tm s = Inr (tm_flat tm c)" and "fmdom' (tm_flat tm c) \<subseteq> flat_keys"
  shows "to_toml_string tm c = Inr s \<and> from_toml_str tm s = Inr node_config_default"
proof -
  have none: "fmlookup (tm_flat tm c) k = None" if "k \<notin> flat_keys" for k
    using assms(3) that by (metis fmdom'_notI fmdom'_notD subset_iff)
  have "config_of_table tm (tm_flat tm c) = Inr config_file_default"
    unfolding config_of_table_def section_or_def
    by (simp add: none flat_keys_def config_file_default_def)
  then show ?thesis
    using assms(1,2)
    by (simp add: to_toml_string_def from_toml_str_def config_file_from_toml_str_def into_node_config_def config_file_default_def
        node_section_default_def network_section_default_def storage_section_default_def index_section_default_def
        cluster_section_default_def observability_section_default_def node_config_default_def map_filter_simps)
qed

theorem saved_config_reloads_as_default_witness:
  "let tm = \<lparr>tm_parse = (\<lambda>s. Inr (fmupd ''node_id'' s fmempty)), tm_print = (\<lambda>t. Inr (fm_get_or t ''node_id'' [])), tm_node = (\<lambda>_. Inl []),
      tm_network = (\<lambda>_. Inl []), tm_storage = (\<lambda>_. Inl []), tm_index = (\<lambda>_. Inl []), tm_cluster = (\<lambda>_. Inl []), tm_auth = (\<lambda>_. Inl []),
      tm_observability = (\<lambda>_. Inl []), tm_flat = (\<lambda>c. fmupd ''node_id'' (node_id_display (nc_node_id c)) fmempty)\<rparr>;
     c = node_config_default\<lparr>nc_node_id := NodeId 7\<rparr> in
   to_toml_string tm c = Inr (node_id_display (NodeId 7)) \<and> from_toml_str tm (node_id_display (NodeId 7)) = Inr node_config_default"
  using saved_config_reloads_as_default [where c = "node_config_default\<lparr>nc_node_id := NodeId 7\<rparr>" and s = "node_id_display (NodeId 7)"
      and tm = "\<lparr>tm_parse = (\<lambda>s. Inr (fmupd ''node_id'' s fmempty)), tm_print = (\<lambda>t. Inr (fm_get_or t ''node_id'' [])), tm_node = (\<lambda>_. Inl []),
      tm_network = (\<lambda>_. Inl []), tm_storage = (\<lambda>_. Inl []), tm_index = (\<lambda>_. Inl []), tm_cluster = (\<lambda>_. Inl []), tm_auth = (\<lambda>_. Inl []),
      tm_observability = (\<lambda>_. Inl []), tm_flat = (\<lambda>c. fmupd ''node_id'' (node_id_display (nc_node_id c)) fmempty)\<rparr>"]
  by (simp add: flat_keys_def Let_def)

end
