(* ===== verification/Snapshots.thy ===== *)
theory Snapshots
  imports Query_Engine Handlers
begin

text \<open>
  Snapshots of a node on disk: \<^verbatim>\<open>crates/core/src/snapshot.rs\<close>,
  \<^verbatim>\<open>crates/node/src/snapshot_manager.rs\<close> and \<^verbatim>\<open>crates/node/src/handlers/snapshot.rs\<close>.

  The data directory holds the directories of the storage and of the index, of a type \<open>'d\<close> of
  directory trees, and the files of the snapshot directory, by snapshot identifier: the archives
  and the metadata. \<open>io\<close> gives the error of a file-system operation that fails. The checkpoint of
  the storage engine, the archive format (tar and zstd) and the JSON of the metadata are
  parameters; writing an archive yields the bytes written and possibly an error. The staging
  directories are removed before every use and not part of the state.
\<close>

section \<open>Types\<close>

record snapshot_info =
  si_id :: string
  si_term :: u64
  si_last_log_index :: u64
  si_created_at :: u64
  si_size_bytes :: u64
  si_doc_count :: u64

text \<open>The clock is an argument.\<close>

definition snapshot_info_new :: "u64 \<Rightarrow> string \<Rightarrow> u64 \<Rightarrow> u64 \<Rightarrow> u64 \<Rightarrow> u64 \<Rightarrow> snapshot_info" where
  "snapshot_info_new now sid trm last_log_index size_bytes doc_count =
     \<lparr>si_id = sid, si_term = trm, si_last_log_index = last_log_index, si_created_at = now, si_size_bytes = size_bytes,
      si_doc_count = doc_count\<rparr>"

record snapshot_config =
  max_snapshots :: nat
  chunk_size :: nat

definition snapshot_config_default :: snapshot_config where
  "snapshot_config_default = \<lparr>max_snapshots = 3, chunk_size = 1024 * 1024\<rparr>"

record 'd data_dir =
  dd_storage :: "'d option"
  dd_index :: "'d option"
  dd_exists :: bool
  dd_snaps :: "(string, string) fmap"
  dd_metas :: "(string, string) fmap"

datatype io_step =
    MakeSnapshotsDir | MakeStaging | CopyIndex | CreateArchive | WriteMeta string | ReadDir | ReadMeta string
  | RemoveSnap string | RemoveMeta string | MakeRestoreDir | OpenArchive | RemoveStorage | RenameStorage | RemoveIndex | RenameIndex
  | WriteTemp

record ('db, 'd) archive_ops =
  ar_checkpoint :: "'db \<Rightarrow> string + 'd"
  ar_pack :: "'d option \<times> 'd option \<Rightarrow> string \<times> string option"
  ar_unpack :: "string \<Rightarrow> string + ('d option \<times> 'd option)"
  ar_meta_enc :: "snapshot_info \<Rightarrow> string + string"
  ar_meta_dec :: "string \<Rightarrow> string + snapshot_info"

section \<open>Listing and rotation\<close>

text \<open>The loop over the metadata files, in the order of the directory; files that do not parse are skipped.\<close>

fun read_metas ::
    "(io_step \<Rightarrow> string option) \<Rightarrow> ('db, 'd) archive_ops \<Rightarrow> (string \<times> string) list \<Rightarrow> snapshot_info list db_result" where
  "read_metas io ar [] = Inr []"
| "read_metas io ar ((i, content) # fs) =
     (case io (ReadMeta i) of
        Some e \<Rightarrow> Inl (StorageError e)
      | None \<Rightarrow> (case read_metas io ar fs of
            Inl e \<Rightarrow> Inl e
          | Inr rest \<Rightarrow> (case ar_meta_dec ar content of Inr info \<Rightarrow> Inr (info # rest) | Inl _ \<Rightarrow> Inr rest)))"

definition newest_first :: "snapshot_info \<Rightarrow> snapshot_info \<Rightarrow> ordering" where
  "newest_first a b = cmp_lin (si_created_at b) (si_created_at a)"

definition list_snapshots ::
    "((string, string) fmap \<Rightarrow> (string \<times> string) list) \<Rightarrow> (io_step \<Rightarrow> string option) \<Rightarrow> ('db, 'd) archive_ops \<Rightarrow> 'd data_dir \<Rightarrow>
     snapshot_info list db_result" where
  "list_snapshots ord io ar dd =
     (if \<not> dd_exists dd then Inr []
      else (case io ReadDir of
          Some e \<Rightarrow> Inl (StorageError e)
        | None \<Rightarrow> (case read_metas io ar (ord (dd_metas dd)) of
              Inl e \<Rightarrow> Inl e
            | Inr infos \<Rightarrow> Inr (sort_by newest_first infos))))"

definition remove_snapshot :: "(io_step \<Rightarrow> string option) \<Rightarrow> snapshot_info \<Rightarrow> 'd data_dir \<Rightarrow> 'd data_dir" where
  "remove_snapshot io old dd =
     (let dd1 = (if io (RemoveSnap (si_id old)) = None then dd\<lparr>dd_snaps := fmdrop (si_id old) (dd_snaps dd)\<rparr> else dd) in
      if io (RemoveMeta (si_id old)) = None then dd1\<lparr>dd_metas := fmdrop (si_id old) (dd_metas dd1)\<rparr> else dd1)"

definition rotate_snapshots ::
    "snapshot_config \<Rightarrow> ((string, string) fmap \<Rightarrow> (string \<times> string) list) \<Rightarrow> (io_step \<Rightarrow> string option) \<Rightarrow>
     ('db, 'd) archive_ops \<Rightarrow> 'd data_dir \<Rightarrow> 'd data_dir \<times> unit db_result" where
  "rotate_snapshots cfg ord io ar dd =
     (case list_snapshots ord io ar dd of
        Inl e \<Rightarrow> (dd, Inl e)
      | Inr snapshots \<Rightarrow>
          if length snapshots \<le> max_snapshots cfg then (dd, Inr ())
          else (fold (remove_snapshot io) (drop (max_snapshots cfg) snapshots) dd, Inr ()))"

section \<open>Creation and restoration\<close>

definition snapshot_id :: "u64 \<Rightarrow> u64 \<Rightarrow> u64 \<Rightarrow> string" where
  "snapshot_id term last_log_index timestamp =
     dec (unat term) @ ''-'' @ dec (unat last_log_index) @ ''-'' @ dec (unat timestamp)"

text \<open>\<open>t1\<close> is the clock at the start, \<open>t2\<close> when the metadata are made.\<close>

definition create_snapshot ::
    "snapshot_config \<Rightarrow> ((string, string) fmap \<Rightarrow> (string \<times> string) list) \<Rightarrow> (io_step \<Rightarrow> string option) \<Rightarrow>
     ('db, 'd) archive_ops \<Rightarrow> u64 \<Rightarrow> u64 \<Rightarrow> u64 \<Rightarrow> u64 \<Rightarrow> u64 \<Rightarrow> 'db \<Rightarrow> 'd data_dir \<Rightarrow> 'd data_dir \<times> snapshot_info db_result" where
  "create_snapshot cfg ord io ar t1 t2 term last_log_index doc_count db dd =
     (case (if dd_exists dd then None else io MakeSnapshotsDir) of
        Some e \<Rightarrow> (dd, Inl (StorageError e))
      | None \<Rightarrow>
          (let dd1 = dd\<lparr>dd_exists := True\<rparr>; sid = snapshot_id term last_log_index t1 in
           case io MakeStaging of
             Some e \<Rightarrow> (dd1, Inl (StorageError e))
           | None \<Rightarrow> (case ar_checkpoint ar db of
               Inl e \<Rightarrow> (dd1, Inl (SnapshotError e))
             | Inr rocks \<Rightarrow> (case (if dd_index dd1 = None then None else io CopyIndex) of
                 Some e \<Rightarrow> (dd1, Inl (StorageError e))
               | None \<Rightarrow> (case io CreateArchive of
                   Some e \<Rightarrow> (dd1, Inl (SnapshotError e))
                 | None \<Rightarrow>
                     (let (archive, failed) = ar_pack ar (Some rocks, dd_index dd1);
                          dd2 = dd1\<lparr>dd_snaps := fmupd sid archive (dd_snaps dd1)\<rparr> in
                      case failed of
                        Some e \<Rightarrow> (dd2, Inl (SnapshotError e))
                      | None \<Rightarrow>
                          (let info = snapshot_info_new t2 sid term last_log_index (word_of_nat (length archive)) doc_count in
                           case ar_meta_enc ar info of
                             Inl e \<Rightarrow> (dd2, Inl (SerializationError e))
                           | Inr meta_json \<Rightarrow> (case io (WriteMeta sid) of
                               Some e \<Rightarrow> (dd2, Inl (StorageError e))
                             | None \<Rightarrow>
                                 (case rotate_snapshots cfg ord io ar (dd2\<lparr>dd_metas := fmupd sid meta_json (dd_metas dd2)\<rparr>) of
                                    (dd4, Inl e) \<Rightarrow> (dd4, Inl e)
                                  | (dd4, Inr _) \<Rightarrow> (dd4, Inr info))))))))))"

definition get_snapshot :: "(io_step \<Rightarrow> string option) \<Rightarrow> ('db, 'd) archive_ops \<Rightarrow> string \<Rightarrow> 'd data_dir \<Rightarrow> snapshot_info db_result" where
  "get_snapshot io ar sid dd =
     (case fmlookup (dd_metas dd) sid of
        None \<Rightarrow> Inl (NotFound (''snapshot '' @ quoted sid @ '' not found''))
      | Some content \<Rightarrow> (case io (ReadMeta sid) of
            Some e \<Rightarrow> Inl (StorageError e)
          | None \<Rightarrow> (case ar_meta_dec ar content of Inl e \<Rightarrow> Inl (SerializationError e) | Inr info \<Rightarrow> Inr info)))"

text \<open>
  Replacing one directory by the restored one, if the archive has it: the old one is removed, then
  the restored one renamed.
\<close>

definition replace_dir ::
    "(io_step \<Rightarrow> string option) \<Rightarrow> io_step \<Rightarrow> io_step \<Rightarrow> 'd option \<Rightarrow> 'd option \<Rightarrow> 'd option \<times> unit db_result" where
  "replace_dir io remove rename restored current =
     (case restored of
        None \<Rightarrow> (current, Inr ())
      | Some d \<Rightarrow> (case (if current = None then None else io remove) of
            Some e \<Rightarrow> (current, Inl (StorageError e))
          | None \<Rightarrow> (case io rename of
                Some e \<Rightarrow> (None, Inl (StorageError e))
              | None \<Rightarrow> (Some d, Inr ()))))"

text \<open>The archive at the path, None when there is no such file; \<open>shown\<close> is the path as displayed.\<close>

definition restore_from_path ::
    "(io_step \<Rightarrow> string option) \<Rightarrow> ('db, 'd) archive_ops \<Rightarrow> string \<Rightarrow> string option \<Rightarrow> 'd data_dir \<Rightarrow> 'd data_dir \<times> unit db_result" where
  "restore_from_path io ar shown archive dd =
     (case archive of
        None \<Rightarrow> (dd, Inl (SnapshotError (''snapshot file not found: '' @ shown)))
      | Some bytes \<Rightarrow> (case io MakeRestoreDir of
          Some e \<Rightarrow> (dd, Inl (StorageError e))
        | None \<Rightarrow> (case io OpenArchive of
            Some e \<Rightarrow> (dd, Inl (SnapshotError e))
          | None \<Rightarrow> (case ar_unpack ar bytes of
              Inl e \<Rightarrow> (dd, Inl (SnapshotError (''tar unpack: '' @ e)))
            | Inr (rocks, index) \<Rightarrow>
                (case replace_dir io RemoveStorage RenameStorage rocks (dd_storage dd) of
                   (st, Inl e) \<Rightarrow> (dd\<lparr>dd_storage := st\<rparr>, Inl e)
                 | (st, Inr _) \<Rightarrow>
                     (case replace_dir io RemoveIndex RenameIndex index (dd_index dd) of
                        (ix, r) \<Rightarrow> (dd\<lparr>dd_storage := st, dd_index := ix\<rparr>, r)))))))"

definition restore_from_bytes ::
    "(io_step \<Rightarrow> string option) \<Rightarrow> ('db, 'd) archive_ops \<Rightarrow> string \<Rightarrow> string \<Rightarrow> 'd data_dir \<Rightarrow> 'd data_dir \<times> unit db_result" where
  "restore_from_bytes io ar shown data dd =
     (case (if dd_exists dd then None else io MakeSnapshotsDir) of
        Some e \<Rightarrow> (dd, Inl (StorageError e))
      | None \<Rightarrow> (case io WriteTemp of
            Some e \<Rightarrow> (dd\<lparr>dd_exists := True\<rparr>, Inl (StorageError e))
          | None \<Rightarrow> restore_from_path io ar shown (Some data) (dd\<lparr>dd_exists := True\<rparr>)))"

definition read_snapshot_bytes :: "(io_step \<Rightarrow> string option) \<Rightarrow> string \<Rightarrow> 'd data_dir \<Rightarrow> string db_result" where
  "read_snapshot_bytes io sid dd =
     (case fmlookup (dd_snaps dd) sid of
        None \<Rightarrow> Inl (NotFound (''snapshot file '' @ quoted sid @ '' not found''))
      | Some bytes \<Rightarrow> (case io OpenArchive of Some e \<Rightarrow> Inl (SnapshotError e) | None \<Rightarrow> Inr bytes))"

section \<open>Handlers\<close>

datatype snapshot_body = SnapshotCreated snapshot_info | SnapshotList "snapshot_info list" | SnapshotFile string string | Restored | SnapshotFailed string

text \<open>
  The handlers, with the manager's configuration, or None when it was not set up. The document
  count is the sum of the counts of the registry, in 64 bits; \<open>term\<close> and \<open>applied\<close> come from the
  consensus metrics. A blocking task that panics is not modelled.
\<close>

definition no_manager :: "status_code \<times> snapshot_body" where
  "no_manager = (SERVICE_UNAVAILABLE, SnapshotFailed ''snapshot manager not initialised'')"

definition create_snapshot_h ::
    "snapshot_config option \<Rightarrow> ((string, string) fmap \<Rightarrow> (string \<times> string) list) \<Rightarrow> (io_step \<Rightarrow> string option) \<Rightarrow>
     ('db, 'd) archive_ops \<Rightarrow> ((string, collection_meta) fmap \<Rightarrow> (string \<times> collection_meta) list) \<Rightarrow> u64 \<Rightarrow> u64 \<Rightarrow> u64 \<Rightarrow> u64 option \<Rightarrow>
     (string, collection_meta) fmap \<Rightarrow> 'db \<Rightarrow> 'd data_dir \<Rightarrow> 'd data_dir \<times> status_code \<times> snapshot_body" where
  "create_snapshot_h mgr ord io ar itc t1 t2 term applied collections db dd =
     (case mgr of
        None \<Rightarrow> (dd, no_manager)
      | Some cfg \<Rightarrow>
          (case create_snapshot cfg ord io ar t1 t2 term (case applied of Some i \<Rightarrow> i | None \<Rightarrow> 0)
              (sum_list (map (cm_doc_count \<circ> snd) (itc collections))) db dd of
             (dd1, Inr info) \<Rightarrow> (dd1, OK, SnapshotCreated info)
           | (dd1, Inl e) \<Rightarrow> (dd1, INTERNAL_SERVER_ERROR, SnapshotFailed (''snapshot creation failed: '' @ db_error_display e))))"

definition list_snapshots_h ::
    "snapshot_config option \<Rightarrow> ((string, string) fmap \<Rightarrow> (string \<times> string) list) \<Rightarrow> (io_step \<Rightarrow> string option) \<Rightarrow>
     ('db, 'd) archive_ops \<Rightarrow> 'd data_dir \<Rightarrow> status_code \<times> snapshot_body" where
  "list_snapshots_h mgr ord io ar dd =
     (case mgr of
        None \<Rightarrow> no_manager
      | Some cfg \<Rightarrow> (case list_snapshots ord io ar dd of
            Inr infos \<Rightarrow> (OK, SnapshotList infos)
          | Inl e \<Rightarrow> (INTERNAL_SERVER_ERROR, SnapshotFailed (db_error_display e))))"

definition download_snapshot_h ::
    "snapshot_config option \<Rightarrow> (io_step \<Rightarrow> string option) \<Rightarrow> ('db, 'd) archive_ops \<Rightarrow> string \<Rightarrow> 'd data_dir \<Rightarrow> status_code \<times> snapshot_body" where
  "download_snapshot_h mgr io ar sid dd =
     (case mgr of
        None \<Rightarrow> no_manager
      | Some cfg \<Rightarrow> (case get_snapshot io ar sid dd of
            Inl e \<Rightarrow> (NOT_FOUND, SnapshotFailed (db_error_display e))
          | Inr _ \<Rightarrow> (case (case fmlookup (dd_snaps dd) sid of None \<Rightarrow> Inl ''no such file'' | Some b \<Rightarrow>
                        (case io OpenArchive of Some e \<Rightarrow> Inl e | None \<Rightarrow> Inr b)) of
                Inr b \<Rightarrow> (OK, SnapshotFile (sid @ ''.snap'') b)
              | Inl e \<Rightarrow> (INTERNAL_SERVER_ERROR, SnapshotFailed (''failed to open snapshot: '' @ e)))))"

definition restore_snapshot_h ::
    "snapshot_config option \<Rightarrow> (io_step \<Rightarrow> string option) \<Rightarrow> ('db, 'd) archive_ops \<Rightarrow> (string \<Rightarrow> string) \<Rightarrow> string option \<Rightarrow> 'd data_dir \<Rightarrow>
     'd data_dir \<times> status_code \<times> snapshot_body" where
  "restore_snapshot_h mgr io ar path_of req dd =
     (case mgr of
        None \<Rightarrow> (dd, no_manager)
      | Some cfg \<Rightarrow> (case req of
            None \<Rightarrow> (dd, BAD_REQUEST, SnapshotFailed ''snapshot_id is required'')
          | Some sid \<Rightarrow> (case restore_from_path io ar (path_of sid) (fmlookup (dd_snaps dd) sid) dd of
                (dd1, Inr _) \<Rightarrow> (dd1, OK, Restored)
              | (dd1, Inl e) \<Rightarrow> (dd1, INTERNAL_SERVER_ERROR, SnapshotFailed (''restore failed: '' @ db_error_display e)))))"

section \<open>Lemmas\<close>

text \<open>What is assumed of the archive format and of the metadata: these contents and this description can be read back.\<close>

definition archived :: "('db, 'd) archive_ops \<Rightarrow> 'd option \<times> 'd option \<Rightarrow> string \<Rightarrow> bool" where
  "archived ar x archive \<longleftrightarrow> ar_pack ar x = (archive, None) \<and> ar_unpack ar archive = Inr x"

definition described :: "('db, 'd) archive_ops \<Rightarrow> snapshot_info \<Rightarrow> bool" where
  "described ar info \<longleftrightarrow> (case ar_meta_enc ar info of Inl _ \<Rightarrow> False | Inr j \<Rightarrow> ar_meta_dec ar j = Inr info)"

text \<open>Every metadata file describes the snapshot it is named after.\<close>

definition metas_ok :: "('db, 'd) archive_ops \<Rightarrow> 'd data_dir \<Rightarrow> bool" where
  "metas_ok ar dd \<longleftrightarrow>
     (\<forall>i c. fmlookup (dd_metas dd) i = Some c \<longrightarrow> (case ar_meta_dec ar c of Inl _ \<Rightarrow> False | Inr info \<Rightarrow> si_id info = i))"

definition info_of :: "('db, 'd) archive_ops \<Rightarrow> string \<Rightarrow> snapshot_info" where
  "info_of ar c = projr (ar_meta_dec ar c)"

lemma metas_okD: "metas_ok ar dd \<Longrightarrow> fmlookup (dd_metas dd) i = Some c \<Longrightarrow> ar_meta_dec ar c = Inr (info_of ar c) \<and> si_id (info_of ar c) = i"
  unfolding metas_ok_def info_of_def by (drule spec [of _ i], drule spec [of _ c]) (auto split: sum.splits)

lemma read_metas_ok:
  "(\<forall>(i, c) \<in> set fs. ar_meta_dec ar c = Inr (info_of ar c)) \<Longrightarrow> read_metas (\<lambda>_. None) ar fs = Inr (map (info_of ar \<circ> snd) fs)"
  by (induction fs) auto

definition infos :: "((string, string) fmap \<Rightarrow> (string \<times> string) list) \<Rightarrow> ('db, 'd) archive_ops \<Rightarrow> 'd data_dir \<Rightarrow> snapshot_info list" where
  "infos ord ar dd = map (info_of ar \<circ> snd) (ord (dd_metas dd))"

lemma list_snapshots_ok:
  assumes "hash_iter ord" "metas_ok ar dd" "dd_exists dd"
  shows "list_snapshots ord (\<lambda>_. None) ar dd = Inr (sort_by newest_first (infos ord ar dd))"
proof -
  have "\<forall>(i, c) \<in> set (ord (dd_metas dd)). ar_meta_dec ar c = Inr (info_of ar c)"
    using metas_okD [OF assms(2)] by (auto simp: hash_iter_set [OF assms(1)])
  then show ?thesis using assms(3) by (simp add: list_snapshots_def read_metas_ok infos_def)
qed

lemma set_infos:
  assumes "hash_iter ord"
  shows "set (infos ord ar dd) = info_of ar ` {c. \<exists>i. fmlookup (dd_metas dd) i = Some c}"
  by (force simp: infos_def hash_iter_set [OF assms])

lemma ids_infos:
  assumes "hash_iter ord" "metas_ok ar dd"
  shows "map si_id (infos ord ar dd) = map fst (ord (dd_metas dd))"
  using metas_okD [OF assms(2)] by (auto simp: infos_def hash_iter_set [OF assms(1)])

lemma removals:
  "fmlookup (dd_metas (fold (remove_snapshot (\<lambda>_. None)) olds dd)) k = (if k \<in> si_id ` set olds then None else fmlookup (dd_metas dd) k)"
  "fmlookup (dd_snaps (fold (remove_snapshot (\<lambda>_. None)) olds dd)) k = (if k \<in> si_id ` set olds then None else fmlookup (dd_snaps dd) k)"
  "dd_exists (fold (remove_snapshot (\<lambda>_. None)) olds dd) = dd_exists dd"
  "dd_storage (fold (remove_snapshot (\<lambda>_. None)) olds dd) = dd_storage dd"
  "dd_index (fold (remove_snapshot (\<lambda>_. None)) olds dd) = dd_index dd"
  by (induction olds arbitrary: dd) (auto simp: remove_snapshot_def Let_def)

interpretation newest: total_cmp UNIV newest_first
proof -
  have "total_cmp UNIV (\<lambda>a b :: snapshot_info. directed Desc (cmp_lin (si_created_at a) (si_created_at b)))"
    by (rule total_cmp_directed [OF total_cmp_lin])
  then show "total_cmp UNIV newest_first"
    by (rule total_cmp_cong) (auto simp: newest_first_def directed_def cmp_lin_def)
qed

lemma sorted_newest: "sorted_wrt (\<lambda>a b. si_created_at b \<le> si_created_at a) (sort_by newest_first xs)"
  using newest.sort_by_sorted [of xs] by (rule sorted_wrt_mono_rel [rotated]) (auto simp: newest_first_def)

text \<open>Rotation, when no file operation fails.\<close>

lemma rotate_exact:
  assumes "hash_iter ord" "metas_ok ar dd" "dd_exists dd"
  defines "ls \<equiv> sort_by newest_first (infos ord ar dd)"
  obtains dd' where "rotate_snapshots cfg ord (\<lambda>_. None) ar dd = (dd', Inr ())"
    "\<forall>k. fmlookup (dd_snaps dd') k = (if k \<in> si_id ` set (drop (max_snapshots cfg) ls) then None else fmlookup (dd_snaps dd) k)"
    "\<forall>k. fmlookup (dd_metas dd') k = (if k \<in> si_id ` set (drop (max_snapshots cfg) ls) then None else fmlookup (dd_metas dd) k)"
    "dd_exists dd'" "dd_storage dd' = dd_storage dd" "dd_index dd' = dd_index dd"
proof (cases "length ls \<le> max_snapshots cfg")
  case True
  with that [of dd] list_snapshots_ok [OF assms(1-3)] assms(3) show ?thesis by (simp add: rotate_snapshots_def ls_def)
next
  case False
  with that [of "fold (remove_snapshot (\<lambda>_. None)) (drop (max_snapshots cfg) ls) dd"] list_snapshots_ok [OF assms(1-3)] assms(3)
  show ?thesis by (simp add: rotate_snapshots_def removals flip: ls_def)
qed

lemma kept_infos:
  assumes "hash_iter ord" "metas_ok ar dd" "\<forall>k. fmlookup (dd_metas dd') k = (if k \<in> si_id ` set gone then None else fmlookup (dd_metas dd) k)"
    "sort_by newest_first (infos ord ar dd) = kept @ gone"
  shows "metas_ok ar dd'" "mset (infos ord ar dd') = mset kept"
proof -
  show ok: "metas_ok ar dd'" using assms(2,3) by (auto simp: metas_ok_def split: if_splits)
  have "mset (map si_id (kept @ gone)) = mset (map si_id (infos ord ar dd))" using assms(4) by (metis mset_map mset_sort_by)
  then have dist: "distinct (map si_id (kept @ gone))"
    using hash_iterD(1) [OF assms(1), of "dd_metas dd"] ids_infos [OF assms(1,2)] by (metis mset_eq_imp_distinct_iff)
  have dist': "distinct (map si_id (infos ord ar dd'))"
    using hash_iterD(1) [OF assms(1), of "dd_metas dd'"] ids_infos [OF assms(1) ok] by simp
  have all: "set kept \<union> set gone = set (infos ord ar dd)" using assms(4) by (metis set_append set_sort_by)
  have "set (infos ord ar dd') = {x \<in> set (infos ord ar dd). si_id x \<notin> si_id ` set gone}"
  proof (intro set_eqI iffI; clarsimp simp: set_infos [OF assms(1)])
    fix i c assume "fmlookup (dd_metas dd') i = Some c"
    then show "info_of ar c \<in> info_of ar ` {c. \<exists>i. fmlookup (dd_metas dd) i = Some c} \<and> si_id (info_of ar c) \<notin> si_id ` set gone"
      using metas_okD [OF assms(2), of i c] by (auto simp: assms(3) split: if_splits)
  next
    fix i c assume a: "fmlookup (dd_metas dd) i = Some c" "si_id (info_of ar c) \<notin> si_id ` set gone"
    then have "fmlookup (dd_metas dd') i = Some c" using metas_okD [OF assms(2) a(1)] by (simp add: assms(3))
    then show "info_of ar c \<in> info_of ar ` {c. \<exists>i. fmlookup (dd_metas dd') i = Some c}" by blast
  qed
  also have "\<dots> = set kept" using dist by (fastforce simp flip: all)
  finally show "mset (infos ord ar dd') = mset kept"
    using dist dist' by (simp add: set_eq_iff_mset_eq_distinct [symmetric] distinct_map)
qed

text \<open>The directory just before the rotation at the end of a creation.\<close>

lemma create_exact:
  assumes "archived ar (Some rocks, dd_index dd) archive" "ar_checkpoint ar db = Inr rocks" "described ar info"
    "info = snapshot_info_new t2 (snapshot_id trm lidx t1) trm lidx (word_of_nat (length archive)) docs"
  obtains dd3 where "create_snapshot cfg ord (\<lambda>_. None) ar t1 t2 trm lidx docs db dd =
      (case rotate_snapshots cfg ord (\<lambda>_. None) ar dd3 of (dd4, Inl e) \<Rightarrow> (dd4, Inl e) | (dd4, Inr _) \<Rightarrow> (dd4, Inr info))"
    "fmlookup (dd_snaps dd3) (si_id info) = Some archive"
    "\<forall>k. k \<noteq> si_id info \<longrightarrow> fmlookup (dd_metas dd3) k = fmlookup (dd_metas dd) k"
    "\<exists>j. fmlookup (dd_metas dd3) (si_id info) = Some j \<and> ar_meta_dec ar j = Inr info" "dd_exists dd3"
    "\<forall>k. k \<noteq> si_id info \<longrightarrow> fmlookup (dd_snaps dd3) k = fmlookup (dd_snaps dd) k"
proof -
  have p: "ar_pack ar (Some rocks, dd_index dd) = (archive, None)" using assms(1) by (simp add: archived_def)
  obtain j where j: "ar_meta_enc ar info = Inr j" "ar_meta_dec ar j = Inr info"
    using assms(3) by (auto simp: described_def split: sum.splits)
  have sid: "si_id info = snapshot_id trm lidx t1" by (simp add: assms(4) snapshot_info_new_def)
  let ?dd3 = "dd\<lparr>dd_exists := True, dd_snaps := fmupd (si_id info) archive (dd_snaps dd), dd_metas := fmupd (si_id info) j (dd_metas dd)\<rparr>"
  have run: "create_snapshot cfg ord (\<lambda>_. None) ar t1 t2 trm lidx docs db dd =
      (case rotate_snapshots cfg ord (\<lambda>_. None) ar ?dd3 of (dd4, Inl e) \<Rightarrow> (dd4, Inl e) | (dd4, Inr _) \<Rightarrow> (dd4, Inr info))"
    unfolding create_snapshot_def Let_def sid using p j(1) by (simp add: assms(2) assms(4) [symmetric])
  show ?thesis by (rule that [OF run]) (simp_all add: j(2))
qed

lemma created_infos:
  assumes "hash_iter ord" "metas_ok ar dd" "\<forall>k. k \<noteq> si_id info \<longrightarrow> fmlookup (dd_metas dd3) k = fmlookup (dd_metas dd) k"
    "\<exists>j. fmlookup (dd_metas dd3) (si_id info) = Some j \<and> ar_meta_dec ar j = Inr info"
  shows "metas_ok ar dd3" and "set (infos ord ar dd3) = insert info {x \<in> set (infos ord ar dd). si_id x \<noteq> si_id info}"
proof -
  obtain j where j: "fmlookup (dd_metas dd3) (si_id info) = Some j" "ar_meta_dec ar j = Inr info" using assms(4) by blast
  have other: "fmlookup (dd_metas dd3) i = Some c \<longleftrightarrow> fmlookup (dd_metas dd) i = Some c" if "i \<noteq> si_id info" for i c
    using assms(3) that by simp
  show "metas_ok ar dd3"
    unfolding metas_ok_def
  proof (intro allI impI)
    fix i c assume c: "fmlookup (dd_metas dd3) i = Some c"
    show "case ar_meta_dec ar c of Inl _ \<Rightarrow> False | Inr info \<Rightarrow> si_id info = i"
    proof (cases "i = si_id info")
      case False
      with c other have "fmlookup (dd_metas dd) i = Some c" by blast
      with metas_okD [OF assms(2)] show ?thesis by force
    qed (use c j in simp)
  qed
  have id: "si_id (info_of ar c) = i" if "fmlookup (dd_metas dd) i = Some c" for i c using metas_okD [OF assms(2) that] by simp
  have info: "info_of ar j = info" using j(2) by (simp add: info_of_def)
  show "set (infos ord ar dd3) = insert info {x \<in> set (infos ord ar dd). si_id x \<noteq> si_id info}"
    unfolding set_infos [OF assms(1)]
  proof (intro set_eqI iffI)
    fix x assume "x \<in> info_of ar ` {c. \<exists>i. fmlookup (dd_metas dd3) i = Some c}"
    then obtain i c where c: "fmlookup (dd_metas dd3) i = Some c" "x = info_of ar c" by blast
    show "x \<in> insert info {x \<in> info_of ar ` {c. \<exists>i. fmlookup (dd_metas dd) i = Some c}. si_id x \<noteq> si_id info}"
      using c j info other [of i c] id [of i c] by (cases "i = si_id info") auto
  next
    fix x assume "x \<in> insert info {x \<in> info_of ar ` {c. \<exists>i. fmlookup (dd_metas dd) i = Some c}. si_id x \<noteq> si_id info}"
    then consider "x = info" | i c where "fmlookup (dd_metas dd) i = Some c" "x = info_of ar c" "si_id x \<noteq> si_id info" by blast
    then show "x \<in> info_of ar ` {c. \<exists>i. fmlookup (dd_metas dd3) i = Some c}"
    proof cases
      case 1 then show ?thesis using j(1) info by (intro image_eqI [of _ _ j]) auto
    next
      case (2 i c) then show ?thesis using other [of i c] id [of i c] by (intro image_eqI [of _ _ c]) auto
    qed
  qed
qed

section \<open>Properties\<close>

text \<open>
  C37. Creating a snapshot rotates: when no file operation fails, the creation succeeds and exactly
  the newest snapshots stay, as many as configured or all when there are fewer: the list after the
  creation, newest first, is taken from the new snapshot and those there were before, none that is
  missing from it is newer than one in it, and exactly the files of the missing ones are gone. With
  a limit of 0 the snapshot just reported as created is gone.
\<close>

theorem snapshot_rotation:
  assumes "hash_iter ord" and "metas_ok ar dd" and "ar_checkpoint ar db = Inr rocks" and "archived ar (Some rocks, dd_index dd) archive"
    and "info = snapshot_info_new t2 (snapshot_id trm lidx t1) trm lidx (word_of_nat (length archive)) docs" and "described ar info"
    and "all = insert info {x \<in> set (infos ord ar dd). si_id x \<noteq> si_id info}"
  shows "\<exists>dd' ls. create_snapshot cfg ord (\<lambda>_. None) ar t1 t2 trm lidx docs db dd = (dd', Inr info) \<and>
    metas_ok ar dd' \<and> list_snapshots ord (\<lambda>_. None) ar dd' = Inr ls \<and>
    distinct ls \<and> set ls \<subseteq> all \<and> length ls = min (max_snapshots cfg) (card all) \<and>
    sorted_wrt (\<lambda>x y. si_created_at y \<le> si_created_at x) ls \<and> (\<forall>x \<in> all - set ls. \<forall>y \<in> set ls. si_created_at x \<le> si_created_at y) \<and>
    (\<forall>k. fmlookup (dd_snaps dd') k = (if k \<in> si_id ` (all - set ls) then None else if k = si_id info then Some archive else fmlookup (dd_snaps dd) k)) \<and>
    (max_snapshots cfg = 0 \<longrightarrow> fmlookup (dd_snaps dd') (si_id info) = None)"
proof -
  obtain dd3 where dd3: "create_snapshot cfg ord (\<lambda>_. None) ar t1 t2 trm lidx docs db dd =
      (case rotate_snapshots cfg ord (\<lambda>_. None) ar dd3 of (dd4, Inl e) \<Rightarrow> (dd4, Inl e) | (dd4, Inr _) \<Rightarrow> (dd4, Inr info))"
    "fmlookup (dd_snaps dd3) (si_id info) = Some archive"
    "\<forall>k. k \<noteq> si_id info \<longrightarrow> fmlookup (dd_metas dd3) k = fmlookup (dd_metas dd) k"
    "\<exists>j. fmlookup (dd_metas dd3) (si_id info) = Some j \<and> ar_meta_dec ar j = Inr info" "dd_exists dd3"
    "\<forall>k. k \<noteq> si_id info \<longrightarrow> fmlookup (dd_snaps dd3) k = fmlookup (dd_snaps dd) k"
    by (rule create_exact [OF assms(4,3,6,5), where cfg = cfg and ord = ord])
  note new = created_infos [OF assms(1,2) dd3(3,4), folded assms(7)]
  let ?ls = "sort_by newest_first (infos ord ar dd3)"
  let ?kept = "take (max_snapshots cfg) ?ls" and ?gone = "drop (max_snapshots cfg) ?ls"
  obtain dd' where dd': "rotate_snapshots cfg ord (\<lambda>_. None) ar dd3 = (dd', Inr ())"
    "\<forall>k. fmlookup (dd_snaps dd') k = (if k \<in> si_id ` set ?gone then None else fmlookup (dd_snaps dd3) k)"
    "\<forall>k. fmlookup (dd_metas dd') k = (if k \<in> si_id ` set ?gone then None else fmlookup (dd_metas dd3) k)" "dd_exists dd'"
    "dd_storage dd' = dd_storage dd3" "dd_index dd' = dd_index dd3"
    by (rule rotate_exact [OF assms(1) new(1) dd3(5), of cfg])
  note kept = kept_infos [OF assms(1) new(1) dd'(3), of ?kept, OF append_take_drop_id [symmetric]]
  let ?new = "sort_by newest_first (infos ord ar dd')"
  have dist: "distinct (map si_id (infos ord ar d))" if "metas_ok ar d" for d
    using hash_iterD(1) [OF assms(1), of "dd_metas d"] ids_infos [OF assms(1) that] by simp
  have dls: "distinct ?ls" "distinct ?new"
    using dist [OF new(1)] dist [OF kept(1)] by (metis distinct_map mset_eq_imp_distinct_iff mset_sort_by)+
  have parts: "set ?kept \<union> set ?gone = all" "set ?kept \<inter> set ?gone = {}"
    using dls(1) new(2) by (metis append_take_drop_id set_append set_sort_by, metis append_take_drop_id distinct_append)
  have m: "mset ?new = mset ?kept" using kept(2) by simp
  then have set: "set ?new = set ?kept" by (rule mset_eq_setD)
  have gone: "all - set ?new = set ?gone" using parts set by blast
  have "length ?new = min (max_snapshots cfg) (card all)"
  proof -
    have "length ?ls = card all" using dls(1) new(2) by (metis distinct_card set_sort_by)
    then show ?thesis using mset_eq_length [OF m] by simp
  qed
  moreover have "sorted_wrt (\<lambda>x y. si_created_at y \<le> si_created_at x) (?kept @ ?gone)" using sorted_newest by simp
  then have "\<forall>x \<in> set ?gone. \<forall>y \<in> set ?kept. si_created_at x \<le> si_created_at y" unfolding sorted_wrt_append by blast
  moreover have "fmlookup (dd_snaps dd') k =
      (if k \<in> si_id ` set ?gone then None else if k = si_id info then Some archive else fmlookup (dd_snaps dd) k)" for k
    using dd'(2) dd3(2,6) by simp
  moreover have "si_id info \<in> si_id ` set ?gone" if "max_snapshots cfg = 0" using that new(2) assms(7) by simp
  ultimately show ?thesis
    using dd3(1) dd'(1) kept(1) list_snapshots_ok [OF assms(1) kept(1) dd'(4)] set gone dls(2) sorted_newest parts(1)
    by (intro exI [of _ dd'] exI [of _ ?new]) auto
qed

definition demo_archive :: "(string, string) archive_ops" where
  "demo_archive = \<lparr>ar_checkpoint = Inr, ar_pack = (\<lambda>_. (''snap'', None)), ar_unpack = (\<lambda>_. Inr (Some ''rocks'', Some ''ix'')),
     ar_meta_enc = (\<lambda>_. Inr ''m''), ar_meta_dec = (\<lambda>_. Inr (snapshot_info_new 9 (snapshot_id 1 2 8) 1 2 4 5))\<rparr>"

definition demo_dir :: "string data_dir" where
  "demo_dir = \<lparr>dd_storage = Some ''old'', dd_index = Some ''ix'', dd_exists = False, dd_snaps = fmempty, dd_metas = fmempty\<rparr>"

lemma demo_archive_ok:
  "metas_ok demo_archive demo_dir" "ar_checkpoint demo_archive ''rocks'' = Inr ''rocks''"
  "archived demo_archive (Some ''rocks'', dd_index demo_dir) ''snap''"
  "described demo_archive (snapshot_info_new 9 (snapshot_id 1 2 8) 1 2 (word_of_nat (length ''snap'')) 5)"
  "infos btree_iter demo_archive demo_dir = []"
  by (simp_all add: metas_ok_def demo_dir_def demo_archive_def archived_def described_def infos_def btree_iter_def sorted_list_of_fset.rep_eq)

theorem snapshot_rotation_witness:
  "(\<exists>dd'. create_snapshot \<lparr>max_snapshots = 0, chunk_size = 1\<rparr> btree_iter (\<lambda>_. None) demo_archive 8 9 1 2 5 ''rocks'' demo_dir =
      (dd', Inr (snapshot_info_new 9 (snapshot_id 1 2 8) 1 2 4 5)) \<and> fmlookup (dd_snaps dd') (snapshot_id 1 2 8) = None) \<and>
   (\<exists>dd'. create_snapshot \<lparr>max_snapshots = 1, chunk_size = 1\<rparr> btree_iter (\<lambda>_. None) demo_archive 8 9 1 2 5 ''rocks'' demo_dir =
      (dd', Inr (snapshot_info_new 9 (snapshot_id 1 2 8) 1 2 4 5)) \<and> fmlookup (dd_snaps dd') (snapshot_id 1 2 8) = Some ''snap'')"
proof -
  note r = snapshot_rotation [OF hash_iter_btree_iter demo_archive_ok(1-3) refl demo_archive_ok(4) refl, unfolded demo_archive_ok(5)]
  let ?i = "snapshot_info_new 9 (snapshot_id 1 2 8) 1 2 4 5"
  have id: "si_id ?i = snapshot_id 1 2 8" by (simp add: snapshot_info_new_def)
  have "set ls = {?i}" if "set ls \<subseteq> {?i}" "length ls = Suc 0" for ls using that by (auto simp: length_Suc_conv)
  then have "\<exists>dd'. create_snapshot \<lparr>max_snapshots = 1, chunk_size = 1\<rparr> btree_iter (\<lambda>_. None) demo_archive 8 9 1 2 5 ''rocks'' demo_dir =
      (dd', Inr ?i) \<and> fmlookup (dd_snaps dd') (snapshot_id 1 2 8) = Some ''snap''"
    using r [where cfg = "\<lparr>max_snapshots = 1, chunk_size = 1\<rparr>"] by (fastforce simp: id)
  moreover have "\<exists>dd'. create_snapshot \<lparr>max_snapshots = 0, chunk_size = 1\<rparr> btree_iter (\<lambda>_. None) demo_archive 8 9 1 2 5 ''rocks'' demo_dir =
      (dd', Inr ?i) \<and> fmlookup (dd_snaps dd') (snapshot_id 1 2 8) = None"
    using r [where cfg = "\<lparr>max_snapshots = 0, chunk_size = 1\<rparr>"] by (auto simp: id)
  ultimately show ?thesis by blast
qed

text \<open>
  C13. Restoring a snapshot brings back what it captured: when the snapshot just created is newer than
  all others and at least one is kept, its archive stays, and restoring it at any later time
  makes the storage the checkpoint taken at its creation and the index the copy made then;
  where there was no index, the index of the time of the restoration stays.
\<close>

theorem create_then_restore:
  assumes "hash_iter ord" and "metas_ok ar dd" and "ar_checkpoint ar db = Inr rocks" and "archived ar (Some rocks, dd_index dd) archive"
    and "info = snapshot_info_new t2 (snapshot_id trm lidx t1) trm lidx (word_of_nat (length archive)) docs" and "described ar info"
    and "0 < max_snapshots cfg" and "\<And>x. x \<in> set (infos ord ar dd) \<Longrightarrow> si_created_at x < t2"
    and "dd_snaps later = dd_snaps (fst (create_snapshot cfg ord (\<lambda>_. None) ar t1 t2 trm lidx docs db dd))"
  shows "restore_snapshot_h (Some cfg) (\<lambda>_. None) ar path_of (Some (si_id info)) later =
    (later\<lparr>dd_storage := Some rocks, dd_index := (if dd_index dd = None then dd_index later else dd_index dd)\<rparr>, OK, Restored)"
proof -
  obtain dd3 where dd3: "create_snapshot cfg ord (\<lambda>_. None) ar t1 t2 trm lidx docs db dd =
      (case rotate_snapshots cfg ord (\<lambda>_. None) ar dd3 of (dd4, Inl e) \<Rightarrow> (dd4, Inl e) | (dd4, Inr _) \<Rightarrow> (dd4, Inr info))"
    "fmlookup (dd_snaps dd3) (si_id info) = Some archive"
    "\<forall>k. k \<noteq> si_id info \<longrightarrow> fmlookup (dd_metas dd3) k = fmlookup (dd_metas dd) k"
    "\<exists>j. fmlookup (dd_metas dd3) (si_id info) = Some j \<and> ar_meta_dec ar j = Inr info" "dd_exists dd3"
    "\<forall>k. k \<noteq> si_id info \<longrightarrow> fmlookup (dd_snaps dd3) k = fmlookup (dd_snaps dd) k"
    by (rule create_exact [OF assms(4,3,6,5), where cfg = cfg and ord = ord])
  note new = created_infos [OF assms(1,2) dd3(3,4)]
  let ?ls = "sort_by newest_first (infos ord ar dd3)"
  obtain dd' where dd': "rotate_snapshots cfg ord (\<lambda>_. None) ar dd3 = (dd', Inr ())"
    "\<forall>k. fmlookup (dd_snaps dd') k = (if k \<in> si_id ` set (drop (max_snapshots cfg) ?ls) then None else fmlookup (dd_snaps dd3) k)"
    "\<forall>k. fmlookup (dd_metas dd') k = (if k \<in> si_id ` set (drop (max_snapshots cfg) ?ls) then None else fmlookup (dd_metas dd3) k)" "dd_exists dd'"
    "dd_storage dd' = dd_storage dd3" "dd_index dd' = dd_index dd3"
    by (rule rotate_exact [OF assms(1) new(1) dd3(5), of cfg])
  have older: "si_created_at x < t2" if x: "x \<in> set (infos ord ar dd3)" "si_id x \<noteq> si_id info" for x
    using x new(2) assms(8) by auto
  have t2: "si_created_at info = t2" by (simp add: assms(5) snapshot_info_new_def)
  have "info \<in> set ?ls" using new(2) by simp
  then obtain h tl where ls: "?ls = h # tl" by (cases ?ls) auto
  have "distinct (map si_id ?ls)"
    using hash_iterD(1) [OF assms(1), of "dd_metas dd3"] ids_infos [OF assms(1) new(1)] mset_sort_by
    by (metis mset_eq_imp_distinct_iff mset_map)
  moreover have "si_created_at info \<le> si_created_at h"
    using sorted_newest [of "infos ord ar dd3"] \<open>info \<in> set ?ls\<close> by (auto simp: ls)
  then have "si_id h = si_id info" using older [of h] ls t2 by (metis leD list.set_intros(1) set_sort_by)
  ultimately have "si_id info \<notin> si_id ` set tl" by (simp add: ls)
  moreover have "set (drop (max_snapshots cfg) ?ls) \<subseteq> set tl"
    using assms(7) by (cases "max_snapshots cfg") (simp_all add: ls set_drop_subset)
  ultimately have "fmlookup (dd_snaps dd') (si_id info) = Some archive" by (auto simp: dd'(2) dd3(2))
  then have "fmlookup (dd_snaps later) (si_id info) = Some archive" by (simp add: assms(9) dd3(1) dd'(1))
  moreover have "ar_unpack ar archive = Inr (Some rocks, dd_index dd)" using assms(4) by (simp add: archived_def)
  ultimately show ?thesis
    by (auto simp: restore_snapshot_h_def restore_from_path_def replace_dir_def split: option.splits)
qed

theorem create_then_restore_witness:
  "restore_snapshot_h (Some snapshot_config_default) (\<lambda>_. None) demo_archive (\<lambda>s. s) (Some (snapshot_id 1 2 8))
     (demo_dir\<lparr>dd_snaps := dd_snaps (fst (create_snapshot snapshot_config_default btree_iter (\<lambda>_. None) demo_archive 8 9 1 2 5 ''rocks'' demo_dir))\<rparr>) =
   (demo_dir\<lparr>dd_snaps := dd_snaps (fst (create_snapshot snapshot_config_default btree_iter (\<lambda>_. None) demo_archive 8 9 1 2 5 ''rocks'' demo_dir)),
      dd_storage := Some ''rocks'', dd_index := Some ''ix''\<rparr>, OK, Restored)"
  using create_then_restore [OF hash_iter_btree_iter demo_archive_ok(1-3) refl demo_archive_ok(4), where cfg = snapshot_config_default
      and path_of = "\<lambda>s. s" and later = "demo_dir\<lparr>dd_snaps := dd_snaps (fst (create_snapshot snapshot_config_default btree_iter (\<lambda>_. None)
        demo_archive 8 9 1 2 5 ''rocks'' demo_dir))\<rparr>"]
  by (simp add: demo_archive_ok(5)) (simp add: snapshot_info_new_def snapshot_config_default_def demo_dir_def)

text \<open>
  The restoration is not atomic: when the rename of the storage directory fails, the old storage
  has already been removed.
\<close>

theorem failed_restore_loses_storage:
  assumes "ar_unpack ar archive = Inr (Some rocks, ix)" and "fmlookup (dd_snaps dd) sid = Some archive"
  shows "restore_snapshot_h (Some cfg) (\<lambda>step. if step = RenameStorage then Some e else None) ar path_of (Some sid) dd =
    (dd\<lparr>dd_storage := None\<rparr>, INTERNAL_SERVER_ERROR, SnapshotFailed (''restore failed: '' @ ''storage error: '' @ e))"
  using assms by (simp add: restore_snapshot_h_def restore_from_path_def replace_dir_def)

end
