(* ===== verification/Cluster_Admin.thy ===== *)
theory Cluster_Admin
  imports Rpc Handlers
begin

text \<open>
  The administrative handlers: cluster health, cluster state, nodes and joining
  (\<^verbatim>\<open>crates/node/src/handlers/cluster.rs\<close>), refresh and statistics
  (\<^verbatim>\<open>crates/node/src/handlers/admin.rs\<close>), with their bodies
  (\<^verbatim>\<open>crates/node/src/dto.rs\<close>). They read the cluster manager, the consensus metrics and the
  registry of collections. \<open>ith\<close> is the order of the health table.
\<close>

section \<open>Bodies\<close>

record collection_health_info =
  ch_docs :: u64
  ch_size_bytes :: u64

record cluster_health_response =
  hr_status :: string
  hr_cluster_name :: string
  hr_number_of_nodes :: u64
  hr_active_nodes :: u64
  hr_leader_node :: "u64 option"
  hr_raft_commit_index :: int
  hr_replication_lag :: "(string, int) fmap"
  hr_collections :: "(string, collection_health_info) fmap"

record stats_response =
  st_node_id :: u64
  st_collections :: nat
  st_is_leader :: bool
  st_current_term :: u64

record node_row =
  nr_id :: u64
  nr_status :: string
  nr_last_seen_ms_ago :: u64
  nr_consecutive_failures :: u8
  nr_latency_ms :: "u64 option"

section \<open>Handlers\<close>

definition health_snapshot :: "((node_id, node_health) fmap \<Rightarrow> (node_id \<times> node_health) list) \<Rightarrow> 'c cluster_manager \<Rightarrow> node_health list" where
  "health_snapshot ith cm = map snd (ith (cm_health_state cm))"

definition is_active :: "node_health \<Rightarrow> bool" where
  "is_active h \<longleftrightarrow> nh_status h = Leader \<or> nh_status h = Follower"

definition cluster_health ::
    "((node_id, node_health) fmap \<Rightarrow> (node_id \<times> node_health) list) \<Rightarrow> raft_metrics \<Rightarrow> int \<Rightarrow> (string, collection_meta) fmap \<Rightarrow>
     'c cluster_manager \<Rightarrow> cluster_health_response" where
  "cluster_health ith rm commit_index collections cm =
     (let leader_id = rm_current_leader rm;
          snapshot = health_snapshot ith cm;
          number_of_nodes = word_of_nat (max (length snapshot) 1) :: u64;
          active_nodes = word_of_nat (max (length (filter is_active snapshot)) 1) :: u64;
          status = (if leader_id = None then ''red''
                    else if active_nodes = number_of_nodes then ''green''
                    else if active_nodes > number_of_nodes div 2 then ''yellow''
                    else ''red'') in
      \<lparr>hr_status = status, hr_cluster_name = ''msearchdb-cluster'', hr_number_of_nodes = number_of_nodes, hr_active_nodes = active_nodes,
       hr_leader_node = leader_id, hr_raft_commit_index = commit_index, hr_replication_lag = fmempty,
       hr_collections = fmmap (\<lambda>meta. \<lparr>ch_docs = cm_doc_count meta, ch_size_bytes = 0\<rparr>) collections\<rparr>)"

definition fallback_node :: "u64 \<Rightarrow> raft_metrics \<Rightarrow> node_info" where
  "fallback_node n rm =
     \<lparr>ni_id = NodeId n, ni_address = \<lparr>host = ''127.0.0.1'', port = 9200\<rparr>, ni_status = (if rm_is_leader rm then Leader else Follower)\<rparr>"

definition cluster_state_h ::
    "((node_id, node_info) fmap \<Rightarrow> (node_id \<times> node_info) list) \<Rightarrow> u64 \<Rightarrow> raft_metrics \<Rightarrow> cluster_router \<Rightarrow> cluster_state" where
  "cluster_state_h itn n rm router =
     (let nodes = healthy_nodes itn router in
      \<lparr>cs_nodes = (if nodes = [] then [fallback_node n rm] else nodes), cs_leader = map_option NodeId (rm_current_leader rm)\<rparr>)"

definition list_nodes ::
    "((node_id, node_health) fmap \<Rightarrow> (node_id \<times> node_health) list) \<Rightarrow> (nat \<Rightarrow> u64) \<Rightarrow> u64 \<Rightarrow> raft_metrics \<Rightarrow> 'c cluster_manager \<Rightarrow>
     node_info + node_row list" where
  "list_nodes ith elapsed n rm cm =
     (let snapshot = health_snapshot ith cm in
      if snapshot = [] then Inl (fallback_node n rm)
      else Inr (map (\<lambda>h. \<lparr>nr_id = as_u64 (nh_node_id h), nr_status = node_status_display (nh_status h),
             nr_last_seen_ms_ago = elapsed (last_seen h), nr_consecutive_failures = nh_consecutive_failures h,
             nr_latency_ms = latency_ms h\<rparr>) snapshot))"

text \<open>\<^verbatim>\<open>split(':')\<close>.\<close>

fun split_colons :: "string \<Rightarrow> string list" where
  "split_colons [] = [[]]"
| "split_colons (c # s) = (if c = CHR '':'' then [] # split_colons s else (c # hd (split_colons s)) # tl (split_colons s))"

definition join_node_address :: "string \<Rightarrow> node_address" where
  "join_node_address address =
     (case split_colons address of
        [h, p] \<Rightarrow> \<lparr>host = h, port = (case parse_u16 p of Some x \<Rightarrow> x | None \<Rightarrow> 9300)\<rparr>
      | _ \<Rightarrow> \<lparr>host = address, port = 9300\<rparr>)"

definition join_node ::
    "'w member_api \<Rightarrow> u64 \<Rightarrow> u64 \<Rightarrow> string \<Rightarrow> 'w \<Rightarrow> 'w \<times> status_code \<times> (error_response + u64)" where
  "join_node ma n i address w =
     (case add_learner ma n i (join_node_address address) w of
        (w1, Inr _) \<Rightarrow> (w1, OK, Inr i)
      | (w1, Inl e) \<Rightarrow> (w1, INTERNAL_SERVER_ERROR, Inl (er_internal (db_error_display e))))"

definition refresh_collection ::
    "('i \<Rightarrow> string \<Rightarrow> 'i \<times> unit db_result) \<Rightarrow> string \<Rightarrow> ('w, 'ch, 'c) app_state \<Rightarrow> 'i \<Rightarrow> 'i \<times> status_code \<times> (error_response + string)" where
  "refresh_collection commit c ap ix =
     (if fmlookup (ap_collections ap) c = None then (ix, NOT_FOUND, Inl (er_not_found (''collection '' @ quoted c @ '' not found'')))
      else (case commit ix c of
          (ix1, Inl e) \<Rightarrow> (ix1, INTERNAL_SERVER_ERROR, Inl (er_internal (''index commit failed: '' @ db_error_display e)))
        | (ix1, Inr _) \<Rightarrow> (ix1, OK, Inr c)))"

definition get_stats :: "u64 \<Rightarrow> raft_metrics \<Rightarrow> ('w, 'ch, 'c) app_state \<Rightarrow> stats_response" where
  "get_stats n rm ap =
     \<lparr>st_node_id = n, st_collections = fm_len (ap_collections ap), st_is_leader = rm_is_leader rm,
      st_current_term = (case rm_current_leader rm of Some l \<Rightarrow> l | None \<Rightarrow> 0)\<rparr>"

section \<open>Lemmas\<close>

lemma split_colons_nonempty [simp]: "split_colons s \<noteq> []"
  by (induction s) auto

lemma split_colons_plain: "CHR '':'' \<notin> set s \<Longrightarrow> split_colons s = [s]"
  by (induction s) auto

lemma split_colons_append:
  "split_colons (a @ '':'' @ b) = split_colons a @ split_colons b"
  by (induction a) (auto simp: tl_append split: list.split)

lemma length_split_colons: "CHR '':'' \<in> set s \<Longrightarrow> 2 \<le> length (split_colons s)"
proof (induction s)
  case (Cons c s)
  show ?case
  proof (cases "c = CHR '':''")
    case True
    then show ?thesis by (cases "split_colons s") auto
  next
    case False
    with Cons have "2 \<le> length (split_colons s)" by simp
    with False show ?thesis by (cases "split_colons s") auto
  qed
qed simp

lemma dec_no_colon: "CHR '':'' \<notin> set (dec k)"
proof -
  have "\<not> is_digit CHR '':''" by (simp add: is_digit_def)
  then show ?thesis by (rule not_digit_notin_dec)
qed

lemma split_colons_display:
  "split_colons (node_address_display a) = split_colons (host a) @ [dec (unat (port a))]"
  unfolding node_address_display_def split_colons_append by (simp add: split_colons_plain dec_no_colon)

section \<open>Properties\<close>

text \<open>
  Joining over HTTP keeps an address only when its host has no colon: then the member is recorded
  under exactly that address; otherwise (an IPv6 address) the whole text is taken for a host name
  and the port is lost, so that a write forwarded to the member goes to port 9300 of a host that is
  the address with its port.
\<close>

theorem http_join_address:
  "(CHR '':'' \<notin> set (host a) \<longrightarrow>
      join_node ma n i (node_address_display a) w = (case add_learner ma n i a w of
          (w1, Inr _) \<Rightarrow> (w1, OK, Inr i) | (w1, Inl e) \<Rightarrow> (w1, INTERNAL_SERVER_ERROR, Inl (er_internal (db_error_display e)))) \<and>
      member_address (node_address_display (join_node_address (node_address_display a))) = a) \<and>
   (CHR '':'' \<in> set (host a) \<longrightarrow>
      member_address (node_address_display (join_node_address (node_address_display a))) = \<lparr>host = node_address_display a, port = 9300\<rparr>)"
proof (intro conjI impI)
  assume "CHR '':'' \<notin> set (host a)"
  then have a: "join_node_address (node_address_display a) = a"
    by (simp add: join_node_address_def split_colons_display split_colons_plain parse_u16_dec)
  then show "join_node ma n i (node_address_display a) w = (case add_learner ma n i a w of
          (w1, Inr _) \<Rightarrow> (w1, OK, Inr i) | (w1, Inl e) \<Rightarrow> (w1, INTERNAL_SERVER_ERROR, Inl (er_internal (db_error_display e))))"
    by (simp add: join_node_def)
  show "member_address (node_address_display (join_node_address (node_address_display a))) = a"
    by (simp add: a member_address_display)
next
  assume "CHR '':'' \<in> set (host a)"
  then have "3 \<le> length (split_colons (node_address_display a))"
    using length_split_colons [of "host a"] by (simp add: split_colons_display)
  then have "join_node_address (node_address_display a) = \<lparr>host = node_address_display a, port = 9300\<rparr>"
    by (auto simp: join_node_address_def split: list.split)
  then show "member_address (node_address_display (join_node_address (node_address_display a))) = \<lparr>host = node_address_display a, port = 9300\<rparr>"
    by (simp add: member_address_display)
qed

text \<open>
  The health answer follows the documented rule (green: all tracked nodes active, yellow: a
  majority, red: otherwise or without a leader) whenever some tracked node is active; but a node that
  tracks only itself and is not active, as after leaving the cluster, reports a green cluster with one
  active node as long as it knows a leader.
\<close>

theorem cluster_health_rule:
  assumes "hash_iter ith" and "fm_len (cm_health_state cm) < 2 ^ 64"
  defines "tracked \<equiv> fm_len (cm_health_state cm)"
  defines "active \<equiv> length (filter is_active (health_snapshot ith cm))"
  shows "(0 < active \<longrightarrow> hr_status (cluster_health ith rm ci cols cm) =
      (if rm_current_leader rm \<noteq> None \<and> active = tracked then ''green''
       else if rm_current_leader rm \<noteq> None \<and> 2 * active > tracked then ''yellow'' else ''red'')) \<and>
    (active = 0 \<and> tracked = 1 \<and> rm_current_leader rm \<noteq> None \<longrightarrow>
      hr_status (cluster_health ith rm ci cols cm) = ''green'' \<and> hr_active_nodes (cluster_health ith rm ci cols cm) = 1)"
proof -
  have len: "length (health_snapshot ith cm) = tracked"
    by (simp add: health_snapshot_def tracked_def hash_iter_length [OF assms(1)])
  then have le: "active \<le> tracked" unfolding active_def by (metis length_filter_le)
  have small: "tracked < 2 ^ 64" using assms(2) by (simp add: tracked_def)
  have u: "unat (word_of_nat k :: u64) = k" if "k \<le> tracked" for k
    using that small by (intro unat_of_nat_small) simp
  have eq: "(word_of_nat active :: u64) = word_of_nat tracked \<longleftrightarrow> active = tracked"
    using u [of active] u [of tracked] le by (metis order_refl)
  have gt: "word_of_nat tracked div 2 < (word_of_nat active :: u64) \<longleftrightarrow> tracked div 2 < active"
    using u [of active] u [of tracked] le by (simp add: word_less_nat_alt unat_div)
  show ?thesis
  proof (intro conjI impI)
    assume "0 < active"
    then have "max active 1 = active" "max tracked 1 = tracked" using le by simp_all
    moreover have "2 * active > tracked \<longleftrightarrow> tracked div 2 < active" by linarith
    ultimately show "hr_status (cluster_health ith rm ci cols cm) =
        (if rm_current_leader rm \<noteq> None \<and> active = tracked then ''green''
         else if rm_current_leader rm \<noteq> None \<and> 2 * active > tracked then ''yellow'' else ''red'')"
      unfolding cluster_health_def Let_def len active_def [symmetric] by (simp add: eq gt)
  next
    assume "active = 0 \<and> tracked = 1 \<and> rm_current_leader rm \<noteq> None"
    then show "hr_status (cluster_health ith rm ci cols cm) = ''green''" "hr_active_nodes (cluster_health ith rm ci cols cm) = 1"
      unfolding cluster_health_def Let_def len active_def [symmetric] by simp_all
  qed
qed

theorem cluster_health_rule_witness:
  "hr_status (cluster_health btree_iter \<lparr>rm_current_leader = Some 1, rm_is_leader = False, rm_current_term = 1, rm_last_applied = None\<rparr> 0 fmempty
     (leave_cluster solo_manager)) = ''green''"
proof -
  have h: "cm_health_state (leave_cluster solo_manager) = fmupd (NodeId 4) ((health_new 0 (NodeId 4))\<lparr>nh_status := Offline\<rparr>) fmempty"
    by (simp add: leave_cluster_def solo_manager_def manager_new_def Let_def)
  have s: "health_snapshot btree_iter (leave_cluster solo_manager) = [(health_new 0 (NodeId 4))\<lparr>nh_status := Offline\<rparr>]"
    unfolding health_snapshot_def h by (simp add: btree_iter_def sorted_list_of_fset.rep_eq)
  show ?thesis
    using cluster_health_rule [OF hash_iter_btree_iter, of "leave_cluster solo_manager"
        "\<lparr>rm_current_leader = Some 1, rm_is_leader = False, rm_current_term = 1, rm_last_applied = None\<rparr>" 0 fmempty]
    by (simp add: s h is_active_def fm_len_def fcard.rep_eq)
qed

theorem http_join_address_witness:
  "member_address (node_address_display (join_node_address (node_address_display \<lparr>host = ''db1'', port = 9301\<rparr>))) = \<lparr>host = ''db1'', port = 9301\<rparr> \<and>
   member_address (node_address_display (join_node_address (node_address_display \<lparr>host = ''::1'', port = 9301\<rparr>))) =
     \<lparr>host = node_address_display \<lparr>host = ''::1'', port = 9301\<rparr>, port = 9300\<rparr>"
  using http_join_address [of "\<lparr>host = ''db1'', port = 9301\<rparr>" list_members 1 2 "[]"] http_join_address [of "\<lparr>host = ''::1'', port = 9301\<rparr>" list_members 1 2 "[]"]
  by simp

end
