(* ===== verification/Tantivy.thy ===== *)
theory Tantivy
  imports State_Machine Query_Engine
begin

text \<open>
  The text-search library Tantivy as the index crate uses it. It is not part of the repository:
  the record \<open>tantivy\<close> collects the calls the code makes, \<open>tantivy_laws\<close> what its documentation
  says of them, and \<open>list_tantivy\<close> is a small implementation that satisfies the laws.

  The data the code itself puts together is concrete: schemas as the list of the fields added to
  the builder, documents as lists of field values, queries as terms of the library's constructors.
  An open index is one value of type \<open>'x\<close>, its writer and reader included (the code always opens,
  holds and drops the three together); \<open>'d\<close> is the content of a directory with an index.
\<close>

section \<open>Data\<close>

type_synonym tv_field = u32

datatype field_opts =
    TextField (opt_stored: bool) "string option"
  | F64Field (opt_stored: bool) bool bool
  | U64Field (opt_stored: bool) bool bool

text \<open>
  The tokenizer of an indexed text field; fast and indexed flags of numeric fields. A schema is
  given by the fields in the order they were added.
\<close>

type_synonym tv_schema = "(string \<times> field_opts) list"

datatype tv_value = TvStr string | TvF64 f64 | TvU64 u64

type_synonym tv_document = "(tv_field \<times> tv_value) list"

datatype occur = OccurMust | OccurShould | OccurMustNot

datatype bound = Included tv_field f64 | Unbounded

record parser_settings =
  ps_field :: tv_field
  ps_conjunction :: bool
  ps_fuzzy :: "(bool \<times> u8 \<times> bool) option"

datatype tv_query =
    ParsedQuery parser_settings string
  | TantivyTerm tv_field string
  | TantivyRange string bound bound
  | AllQuery
  | BooleanQuery "(occur \<times> tv_query) list"

section \<open>Calls\<close>

text \<open>
  Errors are the messages of the library. The first argument of \<open>tv_writer\<close> says whether another
  writer of the same directory is alive. \<open>tv_dropped\<close> is what the directory of an index holds once
  the index is dropped. The last group are observations for the laws; no code calls them:
  \<open>tv_staged\<close> are the documents the next commit makes permanent, \<open>tv_committed\<close> those of the last
  commit, and \<open>tv_visible\<close> those a search sees.
\<close>

record ('x, 'd) tantivy =
  tv_new_field :: "tv_schema \<Rightarrow> string \<Rightarrow> field_opts \<Rightarrow> tv_field"
  tv_create_in_ram :: "tv_schema \<Rightarrow> 'x"
  tv_create_in_dir :: "tv_schema \<Rightarrow> 'd option \<Rightarrow> string + 'x"
  tv_open_in_dir :: "'d option \<Rightarrow> string + 'x"
  tv_writer :: "bool \<Rightarrow> 'x \<Rightarrow> string option"
  tv_reader :: "'x \<Rightarrow> string option"
  tv_parse :: "'x \<Rightarrow> parser_settings \<Rightarrow> string \<Rightarrow> string option"
  tv_add_document :: "tv_document \<Rightarrow> 'x \<Rightarrow> 'x \<times> (string + unit)"
  tv_delete_term :: "tv_field \<Rightarrow> string \<Rightarrow> 'x \<Rightarrow> 'x"
  tv_commit :: "'x \<Rightarrow> 'x \<times> (string + u64)"
  tv_reload :: "'x \<Rightarrow> 'x \<times> (string + unit)"
  tv_search :: "'x \<Rightarrow> tv_query \<Rightarrow> nat \<Rightarrow> string + (f32 \<times> nat) list"
  tv_doc :: "'x \<Rightarrow> nat \<Rightarrow> string + tv_document"
  tv_dropped :: "'x \<Rightarrow> 'd"
  tv_schema_of :: "'x \<Rightarrow> tv_schema"
  tv_staged :: "'x \<Rightarrow> tv_document list"
  tv_committed :: "'x \<Rightarrow> tv_document list"
  tv_visible :: "'x \<Rightarrow> tv_document list"
  tv_matches :: "tv_schema \<Rightarrow> tv_query \<Rightarrow> tv_document \<Rightarrow> bool"
  tv_dir_schema :: "'d \<Rightarrow> tv_schema"
  tv_dir_docs :: "'d \<Rightarrow> tv_document list"

text \<open>The values of a field in a document, in order; \<^verbatim>\<open>get_first\<close> is the first of them.\<close>

definition values_of :: "tv_field \<Rightarrow> tv_document \<Rightarrow> tv_value list" where
  "values_of f d = map snd (filter (\<lambda>(g, v). g = f) d)"

definition get_first :: "tv_document \<Rightarrow> tv_field \<Rightarrow> tv_value option" where
  "get_first d f = (case values_of f d of [] \<Rightarrow> None | v # vs \<Rightarrow> Some v)"

section \<open>Laws\<close>

definition in_schema :: "tv_schema \<Rightarrow> tv_document \<Rightarrow> bool" where
  "in_schema sc d \<longleftrightarrow> (\<forall>(f, v) \<in> set d. unat f < length sc)"

text \<open>A field without tokenization: its terms are its values. Longer terms are not indexed.\<close>

definition MAX_TERM_LEN :: nat where
  "MAX_TERM_LEN = 65530"

definition raw_field :: "tv_schema \<Rightarrow> tv_field \<Rightarrow> bool" where
  "raw_field sc f \<longleftrightarrow> unat f < length sc \<and> (\<exists>n st. sc ! unat f = (n, TextField st (Some ''raw'')))"

definition holds_docs :: "('x, 'd) tantivy \<Rightarrow> 'x \<Rightarrow> tv_schema \<Rightarrow> tv_document list \<Rightarrow> bool" where
  "holds_docs tv x sc ds \<longleftrightarrow>
     tv_schema_of tv x = sc \<and> tv_staged tv x = ds \<and> tv_committed tv x = ds \<and> tv_visible tv x = ds"

definition schema_laws :: "('x, 'd) tantivy \<Rightarrow> bool" where
  "schema_laws tv \<longleftrightarrow>
     (\<forall>sc n fo. n \<notin> fst ` set sc \<longrightarrow> length sc < 2 ^ 32 \<longrightarrow> tv_new_field tv sc n fo = word_of_nat (length sc))"

text \<open>
  A directory that holds an index cannot be created again, opening it gives the index it holds,
  and there is at most one writer of a directory. Dropping an index discards what is not committed.
\<close>

definition open_laws :: "('x, 'd) tantivy \<Rightarrow> bool" where
  "open_laws tv \<longleftrightarrow>
     (\<forall>sc. holds_docs tv (tv_create_in_ram tv sc) sc []) \<and>
     (\<forall>sc x. tv_create_in_dir tv sc None = Inr x \<longrightarrow> holds_docs tv x sc []) \<and>
     (\<forall>sc dir. \<exists>e. tv_create_in_dir tv sc (Some dir) = Inl e) \<and>
     (\<forall>dir x. tv_open_in_dir tv (Some dir) = Inr x \<longrightarrow> holds_docs tv x (tv_dir_schema tv dir) (tv_dir_docs tv dir)) \<and>
     (\<exists>e. tv_open_in_dir tv None = Inl e) \<and>
     (\<forall>x. \<exists>e. tv_writer tv True x = Some e) \<and>
     (\<forall>x. tv_dir_schema tv (tv_dropped tv x) = tv_schema_of tv x \<and> tv_dir_docs tv (tv_dropped tv x) = tv_committed tv x)"

text \<open>
  Adding and deleting are staged. A reader follows the commits on its own after a delay, and at
  once when it is reloaded.
\<close>

definition write_laws :: "('x, 'd) tantivy \<Rightarrow> bool" where
  "write_laws tv \<longleftrightarrow>
     (\<forall>x x' d. tv_add_document tv d x = (x', Inr ()) \<longrightarrow> in_schema (tv_schema_of tv x) d \<longrightarrow>
        tv_schema_of tv x' = tv_schema_of tv x \<and> tv_staged tv x' = tv_staged tv x @ [d] \<and>
        tv_committed tv x' = tv_committed tv x \<and>
        (tv_visible tv x = tv_committed tv x \<longrightarrow> tv_visible tv x' = tv_visible tv x)) \<and>
     (\<forall>x f s. let x' = tv_delete_term tv f s x in
        tv_schema_of tv x' = tv_schema_of tv x \<and>
        tv_staged tv x' = filter (\<lambda>d. \<not> tv_matches tv (tv_schema_of tv x) (TantivyTerm f s) d) (tv_staged tv x) \<and>
        tv_committed tv x' = tv_committed tv x \<and>
        (tv_visible tv x = tv_committed tv x \<longrightarrow> tv_visible tv x' = tv_visible tv x)) \<and>
     (\<forall>x x' n. tv_commit tv x = (x', Inr n) \<longrightarrow>
        tv_schema_of tv x' = tv_schema_of tv x \<and> tv_staged tv x' = tv_staged tv x \<and> tv_committed tv x' = tv_staged tv x) \<and>
     (\<forall>x x'. tv_reload tv x = (x', Inr ()) \<longrightarrow>
        tv_schema_of tv x' = tv_schema_of tv x \<and> tv_staged tv x' = tv_staged tv x \<and>
        tv_committed tv x' = tv_committed tv x \<and> tv_visible tv x' = tv_committed tv x)"

definition query_laws :: "('x, 'd) tantivy \<Rightarrow> bool" where
  "query_laws tv \<longleftrightarrow>
     (\<forall>sc d. tv_matches tv sc AllQuery d) \<and>
     (\<forall>sc cs d. tv_matches tv sc (BooleanQuery cs) d \<longleftrightarrow>
        (\<forall>q. (OccurMust, q) \<in> set cs \<longrightarrow> tv_matches tv sc q d) \<and>
        (\<forall>q. (OccurMustNot, q) \<in> set cs \<longrightarrow> \<not> tv_matches tv sc q d) \<and>
        (\<exists>oc q. (oc, q) \<in> set cs \<and> oc \<noteq> OccurMustNot \<and> tv_matches tv sc q d)) \<and>
     (\<forall>sc f s d. raw_field sc f \<longrightarrow> length s \<le> MAX_TERM_LEN \<longrightarrow>
        (tv_matches tv sc (TantivyTerm f s) d \<longleftrightarrow> TvStr s \<in> set (values_of f d)))"

text \<open>
  A search yields as many matching visible documents as the limit admits, and a document comes
  back with the values of its stored fields.
\<close>

definition stored_part :: "tv_schema \<Rightarrow> tv_document \<Rightarrow> tv_document" where
  "stored_part sc d = filter (\<lambda>(f, v). opt_stored (snd (sc ! unat f))) d"

definition same_values :: "tv_document \<Rightarrow> tv_document \<Rightarrow> bool" where
  "same_values a b \<longleftrightarrow> (\<forall>f. values_of f a = values_of f b)"

definition search_laws :: "('x, 'd) tantivy \<Rightarrow> bool" where
  "search_laws tv \<longleftrightarrow>
     (\<forall>x q limit hits. tv_search tv x q limit = Inr hits \<longrightarrow> 0 < limit \<longrightarrow>
        (\<exists>ds. list_all2 (\<lambda>(s, a) d. \<forall>r. tv_doc tv x a = Inr r \<longrightarrow> same_values r (stored_part (tv_schema_of tv x) d)) hits ds \<and>
           (let ms = filter (tv_matches tv (tv_schema_of tv x) q) (tv_visible tv x) in
            mset ds \<subseteq># mset ms \<and> length ds = min limit (length ms))))"

definition tantivy_laws :: "('x, 'd) tantivy \<Rightarrow> bool" where
  "tantivy_laws tv \<longleftrightarrow> schema_laws tv \<and> open_laws tv \<and> write_laws tv \<and> query_laws tv \<and> search_laws tv"

section \<open>An implementation of the laws\<close>

record list_index =
  li_schema :: tv_schema
  li_staged :: "tv_document list"
  li_committed :: "tv_document list"

definition lt_leaf :: "tv_query \<Rightarrow> tv_document \<Rightarrow> bool" where
  "lt_leaf q d = (case q of
      TantivyTerm f s \<Rightarrow> TvStr s \<in> set (values_of f d)
    | ParsedQuery ps s \<Rightarrow> TvStr s \<in> set (values_of (ps_field ps) d)
    | AllQuery \<Rightarrow> True
    | _ \<Rightarrow> False)"

primrec lt_matches :: "tv_query \<Rightarrow> tv_document \<Rightarrow> bool" where
  "lt_matches (ParsedQuery ps s) d = lt_leaf (ParsedQuery ps s) d"
| "lt_matches (TantivyTerm f s) d = lt_leaf (TantivyTerm f s) d"
| "lt_matches (TantivyRange n a b) d = lt_leaf (TantivyRange n a b) d"
| "lt_matches AllQuery d = lt_leaf AllQuery d"
| "lt_matches (BooleanQuery cs) d =
     (let rs = map (map_prod id (\<lambda>m. m d)) (map (map_prod id lt_matches) cs) in
      list_all (\<lambda>(oc, b). (oc = OccurMust \<longrightarrow> b) \<and> (oc = OccurMustNot \<longrightarrow> \<not> b)) rs \<and>
      list_ex (\<lambda>(oc, b). oc \<noteq> OccurMustNot \<and> b) rs)"

definition list_tantivy :: "(list_index, tv_schema \<times> tv_document list) tantivy" where
  "list_tantivy = \<lparr>
     tv_new_field = (\<lambda>sc n fo. word_of_nat (length sc)),
     tv_create_in_ram = (\<lambda>sc. \<lparr>li_schema = sc, li_staged = [], li_committed = []\<rparr>),
     tv_create_in_dir = (\<lambda>sc dir. case dir of
        None \<Rightarrow> Inr \<lparr>li_schema = sc, li_staged = [], li_committed = []\<rparr> | Some _ \<Rightarrow> Inl ''Index already exists''),
     tv_open_in_dir = (\<lambda>dir. case dir of
        None \<Rightarrow> Inl ''not found'' | Some (sc, ds) \<Rightarrow> Inr \<lparr>li_schema = sc, li_staged = ds, li_committed = ds\<rparr>),
     tv_writer = (\<lambda>live x. if live then Some ''LockBusy'' else None),
     tv_reader = (\<lambda>x. None),
     tv_parse = (\<lambda>x ps s. None),
     tv_add_document = (\<lambda>d x. (x\<lparr>li_staged := li_staged x @ [d]\<rparr>, Inr ())),
     tv_delete_term = (\<lambda>f s x. x\<lparr>li_staged := filter (\<lambda>d. \<not> lt_matches (TantivyTerm f s) d) (li_staged x)\<rparr>),
     tv_commit = (\<lambda>x. (x\<lparr>li_committed := li_staged x\<rparr>, Inr 0)),
     tv_reload = (\<lambda>x. (x, Inr ())),
     tv_search = (\<lambda>x q limit. Inr (take limit (map (\<lambda>i. (0, i)) (filter (\<lambda>i. lt_matches q (li_committed x ! i)) [0..<length (li_committed x)])))),
     tv_doc = (\<lambda>x a. Inr (stored_part (li_schema x) (li_committed x ! a))),
     tv_dropped = (\<lambda>x. (li_schema x, li_committed x)),
     tv_schema_of = li_schema, tv_staged = li_staged, tv_committed = li_committed, tv_visible = li_committed,
     tv_matches = (\<lambda>sc. lt_matches),
     tv_dir_schema = fst, tv_dir_docs = snd\<rparr>"

lemma lt_matches_Boolean:
  "lt_matches (BooleanQuery cs) d \<longleftrightarrow>
     (\<forall>q. (OccurMust, q) \<in> set cs \<longrightarrow> lt_matches q d) \<and>
     (\<forall>q. (OccurMustNot, q) \<in> set cs \<longrightarrow> \<not> lt_matches q d) \<and>
     (\<exists>oc q. (oc, q) \<in> set cs \<and> oc \<noteq> OccurMustNot \<and> lt_matches q d)"
  by (auto simp: Let_def list_all_iff list_ex_iff split_beta) force+

lemma filter_nth_upt: "map (\<lambda>i. xs ! i) (filter (\<lambda>i. P (xs ! i)) [0..<length xs]) = filter P xs"
  using filter_map [of P "(!) xs" "[0..<length xs]"] by (simp add: map_nth o_def)

lemma list_all2_map_both: "list_all2 R (map f xs) (map g xs) \<longleftrightarrow> (\<forall>x \<in> set xs. R (f x) (g x))"
  by (simp add: list.rel_map list.rel_refl_strong list_all2_same)

lemma mset_take_subset: "mset (take n xs) \<subseteq># mset xs"
  by (metis append_take_drop_id mset_append mset_subset_eq_add_left)

lemma list_tantivy_search_laws: "search_laws list_tantivy"
  unfolding search_laws_def
proof (intro allI impI)
  fix x :: list_index and q :: tv_query and limit :: nat and hits :: "(f32 \<times> nat) list"
  assume s: "tv_search list_tantivy x q limit = Inr hits"
  let ?is = "take limit (filter (\<lambda>i. lt_matches q (li_committed x ! i)) [0..<length (li_committed x)])"
  let ?ds = "take limit (filter (lt_matches q) (li_committed x))"
  have ds: "?ds = map (\<lambda>i. li_committed x ! i) ?is" by (simp add: filter_nth_upt flip: take_map)
  have "hits = map (\<lambda>i. (0, i)) ?is" using s by (simp add: list_tantivy_def take_map)
  then have "list_all2 (\<lambda>(s, a) d. \<forall>r. tv_doc list_tantivy x a = Inr r \<longrightarrow>
      same_values r (stored_part (tv_schema_of list_tantivy x) d)) hits ?ds"
    unfolding ds by (simp add: list_all2_map_both list_tantivy_def same_values_def)
  then show "\<exists>ds. list_all2 (\<lambda>(s, a) d. \<forall>r. tv_doc list_tantivy x a = Inr r \<longrightarrow>
        same_values r (stored_part (tv_schema_of list_tantivy x) d)) hits ds \<and>
      (let ms = filter (tv_matches list_tantivy (tv_schema_of list_tantivy x) q) (tv_visible list_tantivy x) in
       mset ds \<subseteq># mset ms \<and> length ds = min limit (length ms))"
    by (intro exI [of _ ?ds]) (simp add: list_tantivy_def mset_take_subset min.commute flip: mset_filter)
qed

lemma list_tantivy_laws: "tantivy_laws list_tantivy"
proof -
  have "schema_laws list_tantivy" by (simp add: schema_laws_def list_tantivy_def)
  moreover have "open_laws list_tantivy" by (auto simp: open_laws_def holds_docs_def list_tantivy_def)
  moreover have "write_laws list_tantivy" by (auto simp: write_laws_def list_tantivy_def)
  moreover have "query_laws list_tantivy"
    by (auto simp: query_laws_def list_tantivy_def lt_matches_Boolean lt_leaf_def simp del: lt_matches.simps(5))
  ultimately show ?thesis by (simp add: tantivy_laws_def list_tantivy_search_laws)
qed

end
