(* ===== verification/Collection_Index.thy ===== *)
theory Collection_Index
  imports Tantivy
begin

text \<open>
  The full-text index of the collections, \<^verbatim>\<open>crates/index/src/collection_index.rs\<close>: schemas
  made from field mappings, documents as the library sees them and as it gives them back, the
  translation of queries, and the manager with one index per collection, on disk or in memory.

  The state behind the lock of the manager is the record \<open>index_manager\<close>; \<open>im_dirs\<close> is what the
  directories of closed indices hold. The environment \<open>index_env\<close> has the library, the traversals
  of the hash maps and the creation of directories; the time stamp of a document and the duration
  of a search are arguments. Poisoned locks (a panic of another thread) are not modelled.
\<close>

section \<open>State\<close>

record 'x collection_index =
  ci_index :: 'x
  ci_schema :: tv_schema
  ci_field_map :: "(string, tv_field) fmap"

record ('x, 'd) index_manager =
  im_collections :: "(string, 'x collection_index) fmap"
  im_base_path :: "string option"
  im_dirs :: "(string, 'd) fmap"

record ('x, 'd) index_env =
  ie_tantivy :: "('x, 'd) tantivy"
  ie_doc_fields :: "(string, field_value) fmap \<Rightarrow> (string \<times> field_value) list"
  ie_field_map :: "(string, tv_field) fmap \<Rightarrow> (string \<times> tv_field) list"
  ie_mapping :: "(string, mapped_field_type) fmap \<Rightarrow> (string \<times> mapped_field_type) list"
  ie_create_dir_all :: "string \<Rightarrow> string option"

definition index_manager_new :: "string \<Rightarrow> (string, 'd) fmap \<Rightarrow> ('x, 'd) index_manager" where
  "index_manager_new base dirs = \<lparr>im_collections = fmempty, im_base_path = Some base, im_dirs = dirs\<rparr>"

definition index_manager_new_in_ram :: "('x, 'd) index_manager" where
  "index_manager_new_in_ram = \<lparr>im_collections = fmempty, im_base_path = None, im_dirs = fmempty\<rparr>"

section \<open>Schemas\<close>

text \<open>A field is added to the builder and its handle to the field map.\<close>

definition add_schema_field ::
    "('x, 'd) tantivy \<Rightarrow> string \<Rightarrow> field_opts \<Rightarrow> tv_schema \<times> (string, tv_field) fmap \<Rightarrow> tv_schema \<times> (string, tv_field) fmap" where
  "add_schema_field tv name fo b = (fst b @ [(name, fo)], fmupd name (tv_new_field tv (fst b) name fo) (snd b))"

fun mapped_opts :: "mapped_field_type \<Rightarrow> field_opts" where
  "mapped_opts MappedText = TextField True (Some ''default'')"
| "mapped_opts MappedNumber = F64Field True True True"
| "mapped_opts MappedBoolean = U64Field True True True"
| "mapped_opts MappedArray = TextField True (Some ''default'')"

definition meta_fields :: "bool \<Rightarrow> (string \<times> field_opts) list" where
  "meta_fields include_body =
     [(''_id'', TextField True (Some ''raw'')), (''_score'', F64Field True True False), (''_timestamp'', U64Field True True True)] @
     (if include_body then [(''_body'', TextField True (Some ''default''))] else [])"

definition build_schema_from_mapping ::
    "('x, 'd) index_env \<Rightarrow> field_mapping \<Rightarrow> bool \<Rightarrow> tv_schema \<times> (string, tv_field) fmap" where
  "build_schema_from_mapping ie mapping include_body =
     fold (\<lambda>(name, mapped_type). add_schema_field (ie_tantivy ie) name (mapped_opts mapped_type)) (ie_mapping ie (fm_fields mapping))
       (fold (\<lambda>(name, fo). add_schema_field (ie_tantivy ie) name fo) (meta_fields include_body) ([], fmempty))"

definition build_initial_schema :: "('x, 'd) index_env \<Rightarrow> tv_schema \<times> (string, tv_field) fmap" where
  "build_initial_schema ie = build_schema_from_mapping ie field_mapping_new True"

section \<open>Documents\<close>

text \<open>\<^verbatim>\<open>parts.join(" ")\<close>.\<close>

fun join_spaces :: "string list \<Rightarrow> string" where
  "join_spaces [] = []"
| "join_spaces [s] = s"
| "join_spaces (s # t # ts) = s @ '' '' @ join_spaces (t # ts)"

definition array_texts :: "field_value list \<Rightarrow> string list" where
  "array_texts vs = concat (map (\<lambda>v. case v of Text t \<Rightarrow> [t] | _ \<Rightarrow> []) vs)"

text \<open>What one field of a document adds to the library's document and to the text of \<^verbatim>\<open>_body\<close>.\<close>

definition field_entries :: "(string, tv_field) fmap \<Rightarrow> string \<Rightarrow> field_value \<Rightarrow> tv_document \<times> string list" where
  "field_entries field_map name value =
     (let body_parts = (case value of Text t \<Rightarrow> [t] | _ \<Rightarrow> []) in
      case fmlookup field_map name of
        None \<Rightarrow> ([], body_parts)
      | Some f \<Rightarrow> (case value of
            Text t \<Rightarrow> ([(f, TvStr t)], body_parts)
          | Number n \<Rightarrow> ([(f, TvF64 n)], body_parts)
          | Boolean b \<Rightarrow> ([(f, TvU64 (if b then 1 else 0))], body_parts)
          | Array arr \<Rightarrow> (map (\<lambda>t. (f, TvStr t)) (array_texts arr), body_parts @ array_texts arr)))"

definition build_tantivy_doc ::
    "('x, 'd) index_env \<Rightarrow> u64 \<Rightarrow> document \<Rightarrow> (string, tv_field) fmap \<Rightarrow> tv_document" where
  "build_tantivy_doc ie now doc field_map =
     (let es = map (\<lambda>(name, value). field_entries field_map name value) (ie_doc_fields ie (doc_fields doc));
          body_parts = concat (map snd es) in
      (case fmlookup field_map ''_id'' of None \<Rightarrow> [] | Some f \<Rightarrow> [(f, TvStr (as_str (doc_id doc)))]) @
      (case fmlookup field_map ''_timestamp'' of None \<Rightarrow> [] | Some f \<Rightarrow> [(f, TvU64 now)]) @
      concat (map fst es) @
      (if body_parts = [] then []
       else case fmlookup field_map ''_body'' of None \<Rightarrow> [] | Some f \<Rightarrow> [(f, TvStr (join_spaces body_parts))]))"

fun reconstruct_value :: "tv_value \<Rightarrow> field_value" where
  "reconstruct_value (TvStr s) = Text s"
| "reconstruct_value (TvF64 n) = Number n"
| "reconstruct_value (TvU64 n) = Boolean (n \<noteq> 0)"

definition reconstruct_fields ::
    "tv_document \<Rightarrow> (string \<times> tv_field) list \<Rightarrow> (string, field_value) fmap \<Rightarrow> (string, field_value) fmap" where
  "reconstruct_fields td =
     fold (\<lambda>(name, f) acc. if prefix ''_'' name then acc
       else case get_first td f of None \<Rightarrow> acc | Some v \<Rightarrow> fmupd name (reconstruct_value v) acc)"

definition reconstruct_document ::
    "('x, 'd) index_env \<Rightarrow> tv_document \<Rightarrow> (string, tv_field) fmap \<Rightarrow> document" where
  "reconstruct_document ie td field_map =
     \<lparr>doc_id = DocumentId (case fmlookup field_map ''_id'' of
         None \<Rightarrow> []
       | Some f \<Rightarrow> (case get_first td f of Some (TvStr s) \<Rightarrow> s | _ \<Rightarrow> [])),
      doc_fields = reconstruct_fields td (ie_field_map ie field_map) fmempty,
      doc_version = vc_new\<rparr>"

section \<open>Queries\<close>

definition not_in_schema :: "string \<Rightarrow> db_error" where
  "not_in_schema field = InvalidInput (''field '' @ [CHR 0x27] @ field @ [CHR 0x27] @ '' not in schema'')"

text \<open>Full-text queries go to the query parser of the library.\<close>

definition translate_full_text ::
    "('x, 'd) tantivy \<Rightarrow> 'x \<Rightarrow> (string, tv_field) fmap \<Rightarrow> full_text_query \<Rightarrow> tv_query db_result" where
  "translate_full_text tv x field_map ftq =
     (case fmlookup field_map (ft_field ftq) of
        None \<Rightarrow> Inl (not_in_schema (ft_field ftq))
      | Some f \<Rightarrow>
          (let ps = \<lparr>ps_field = f, ps_conjunction = (ft_operator ftq = And), ps_fuzzy = None\<rparr> in
           case tv_parse tv x ps (ft_query ftq) of
             Some e \<Rightarrow> Inl (IndexError (''parse query: '' @ e))
           | None \<Rightarrow> Inr (ParsedQuery ps (ft_query ftq))))"

definition translate_term :: "(string, tv_field) fmap \<Rightarrow> term_query \<Rightarrow> tv_query db_result" where
  "translate_term field_map tq =
     (case fmlookup field_map (tq_field tq) of
        None \<Rightarrow> Inl (not_in_schema (tq_field tq))
      | Some f \<Rightarrow> Inr (TantivyTerm f (tq_value tq)))"

definition range_bound :: "tv_field \<Rightarrow> f64 option \<Rightarrow> bound" where
  "range_bound f v = (case v of None \<Rightarrow> Unbounded | Some w \<Rightarrow> Included f w)"

definition translate_range :: "(string, tv_field) fmap \<Rightarrow> range_query \<Rightarrow> tv_query db_result" where
  "translate_range field_map rq =
     (case fmlookup field_map (rq_field rq) of
        None \<Rightarrow> Inl (not_in_schema (rq_field rq))
      | Some f \<Rightarrow> Inr (TantivyRange (rq_field rq) (range_bound f (rq_gte rq)) (range_bound f (rq_lte rq))))"

text \<open>
  The recursion through boolean queries; \<open>full_text\<close> translates the full-text leaves, since the
  node-wide index has its own translation of them. The first clause that fails ends the loop.
\<close>

fun translate_query ::
    "(full_text_query \<Rightarrow> tv_query db_result) \<Rightarrow> (string, tv_field) fmap \<Rightarrow> query \<Rightarrow> tv_query db_result"
and translate_clauses ::
    "(full_text_query \<Rightarrow> tv_query db_result) \<Rightarrow> (string, tv_field) fmap \<Rightarrow> occur \<Rightarrow> query list \<Rightarrow> (occur \<times> tv_query) list db_result" where
  "translate_query full_text field_map (FullText ftq) = full_text ftq"
| "translate_query full_text field_map (Term tq) = translate_term field_map tq"
| "translate_query full_text field_map (Range rq) = translate_range field_map rq"
| "translate_query full_text field_map (Bool mu sh mn) =
     (case translate_clauses full_text field_map OccurMust mu of
        Inl e \<Rightarrow> Inl e
      | Inr ms \<Rightarrow> (case translate_clauses full_text field_map OccurShould sh of
            Inl e \<Rightarrow> Inl e
          | Inr ss \<Rightarrow> (case translate_clauses full_text field_map OccurMustNot mn of
                Inl e \<Rightarrow> Inl e
              | Inr ns \<Rightarrow> Inr (BooleanQuery (ms @ ss @ ns @
                  (if mu = [] \<and> sh = [] \<and> mn \<noteq> [] then [(OccurMust, AllQuery)] else []))))))"
| "translate_clauses full_text field_map oc [] = Inr []"
| "translate_clauses full_text field_map oc (q # qs) =
     (case translate_query full_text field_map q of
        Inl e \<Rightarrow> Inl e
      | Inr t \<Rightarrow> (case translate_clauses full_text field_map oc qs of Inl e \<Rightarrow> Inl e | Inr ts \<Rightarrow> Inr ((oc, t) # ts)))"

section \<open>The manager\<close>

definition index_dir :: "string \<Rightarrow> string \<Rightarrow> string" where
  "index_dir base c = base @ ''/idx_'' @ c"

text \<open>When the index of a collection is dropped, its directory, if it has one, holds what it leaves.\<close>

definition close_index :: "('x, 'd) index_env \<Rightarrow> string \<Rightarrow> 'x \<Rightarrow> ('x, 'd) index_manager \<Rightarrow> ('x, 'd) index_manager" where
  "close_index ie c x im =
     (case im_base_path im of
        None \<Rightarrow> im
      | Some base \<Rightarrow> im\<lparr>im_dirs := fmupd (index_dir base c) (tv_dropped (ie_tantivy ie) x) (im_dirs im)\<rparr>)"

definition open_or_create :: "('x, 'd) index_env \<Rightarrow> string \<Rightarrow> tv_schema \<Rightarrow> ('x, 'd) index_manager \<Rightarrow> 'x db_result" where
  "open_or_create ie c sc im =
     (case im_base_path im of
        None \<Rightarrow> Inr (tv_create_in_ram (ie_tantivy ie) sc)
      | Some base \<Rightarrow>
          (let dir = index_dir base c in
           case ie_create_dir_all ie dir of
             Some e \<Rightarrow> Inl (IndexError (''failed to create index dir: '' @ e))
           | None \<Rightarrow> (case tv_create_in_dir (ie_tantivy ie) sc (fmlookup (im_dirs im) dir) of
                 Inr x \<Rightarrow> Inr x
               | Inl _ \<Rightarrow> (case tv_open_in_dir (ie_tantivy ie) (fmlookup (im_dirs im) dir) of
                     Inl e \<Rightarrow> Inl (IndexError (''failed to open index: '' @ e))
                   | Inr x \<Rightarrow> Inr x))))"

text \<open>\<open>live\<close>: an index of the same directory is still open.\<close>

definition open_index ::
    "('x, 'd) index_env \<Rightarrow> bool \<Rightarrow> string \<Rightarrow> tv_schema \<Rightarrow> (string, tv_field) fmap \<Rightarrow> ('x, 'd) index_manager \<Rightarrow>
     ('x, 'd) index_manager \<times> 'x collection_index db_result" where
  "open_index ie live c sc field_map im =
     (case open_or_create ie c sc im of
        Inl e \<Rightarrow> (im, Inl e)
      | Inr x \<Rightarrow> (case tv_writer (ie_tantivy ie) live x of
            Some e \<Rightarrow> (close_index ie c x im, Inl (IndexError (''failed to create writer: '' @ e)))
          | None \<Rightarrow> (case tv_reader (ie_tantivy ie) x of
                Some e \<Rightarrow> (close_index ie c x im, Inl (IndexError (''failed to create reader: '' @ e)))
              | None \<Rightarrow> (im, Inr \<lparr>ci_index = x, ci_schema = sc, ci_field_map = field_map\<rparr>))))"

definition insert_opened ::
    "string \<Rightarrow> ('x, 'd) index_manager \<times> 'x collection_index db_result \<Rightarrow> ('x, 'd) index_manager \<times> unit db_result" where
  "insert_opened c r = (case snd r of
      Inl e \<Rightarrow> (fst r, Inl e)
    | Inr ci \<Rightarrow> ((fst r)\<lparr>im_collections := fmupd c ci (im_collections (fst r))\<rparr>, Inr ()))"

definition ci_create_collection ::
    "('x, 'd) index_env \<Rightarrow> string \<Rightarrow> ('x, 'd) index_manager \<Rightarrow> ('x, 'd) index_manager \<times> unit db_result" where
  "ci_create_collection ie c im =
     (if fmlookup (im_collections im) c \<noteq> None then (im, Inr ())
      else let (sc, field_map) = build_initial_schema ie in
        insert_opened c (open_index ie False c sc field_map im))"

text \<open>Removal from the registry, which drops the index.\<close>

definition remove_index :: "('x, 'd) index_env \<Rightarrow> string \<Rightarrow> ('x, 'd) index_manager \<Rightarrow> ('x, 'd) index_manager" where
  "remove_index ie c im =
     (case fmlookup (im_collections im) c of
        None \<Rightarrow> im
      | Some ci \<Rightarrow> close_index ie c (ci_index ci) (im\<lparr>im_collections := fmdrop c (im_collections im)\<rparr>))"

definition ci_drop_collection ::
    "('x, 'd) index_env \<Rightarrow> string \<Rightarrow> ('x, 'd) index_manager \<Rightarrow> ('x, 'd) index_manager \<times> unit db_result" where
  "ci_drop_collection ie c im = (remove_index ie c im, Inr ())"

text \<open>
  The variable \<^verbatim>\<open>_old\<close> keeps the removed index, with its writer, alive until the function
  returns. What its directory holds meanwhile is what it holds afterwards.
\<close>

definition rebuild_schema ::
    "('x, 'd) index_env \<Rightarrow> string \<Rightarrow> field_mapping \<Rightarrow> ('x, 'd) index_manager \<Rightarrow> ('x, 'd) index_manager \<times> unit db_result" where
  "rebuild_schema ie c mapping im =
     (let live = (fmlookup (im_collections im) c \<noteq> None \<and> im_base_path im \<noteq> None);
          (sc, field_map) = build_schema_from_mapping ie mapping True in
      insert_opened c (open_index ie live c sc field_map (remove_index ie c im)))"

text \<open>The loop over the fields of a document: the updated mapping and the new fields.\<close>

fun detect_fields ::
    "(string \<times> field_value) list \<Rightarrow> field_mapping \<Rightarrow> (string \<times> mapped_field_type) list \<Rightarrow>
     (field_mapping \<times> (string \<times> mapped_field_type) list) db_result" where
  "detect_fields [] updated new_fields = Inr (updated, new_fields)"
| "detect_fields ((name, value) # es) updated new_fields =
     (case register_field updated name (field_value_to_mapped_type value) of
        (_, Inl e) \<Rightarrow> Inl e
      | (updated', Inr new) \<Rightarrow>
          detect_fields es updated' (if new then new_fields @ [(name, field_value_to_mapped_type value)] else new_fields))"

definition index_not_found :: "string \<Rightarrow> db_error" where
  "index_not_found c = NotFound (''collection index '' @ [CHR 0x27] @ c @ [CHR 0x27] @ '' not found'')"

definition set_index :: "string \<Rightarrow> 'x collection_index \<Rightarrow> 'x \<Rightarrow> ('x, 'd) index_manager \<Rightarrow> ('x, 'd) index_manager" where
  "set_index c ci x im = im\<lparr>im_collections := fmupd c (ci\<lparr>ci_index := x\<rparr>) (im_collections im)\<rparr>"

definition add_to_index ::
    "('x, 'd) index_env \<Rightarrow> u64 \<Rightarrow> string \<Rightarrow> document \<Rightarrow> ('x, 'd) index_manager \<Rightarrow> ('x, 'd) index_manager \<times> unit db_result" where
  "add_to_index ie now c doc im =
     (case fmlookup (im_collections im) c of
        None \<Rightarrow> (im, Inl (index_not_found c))
      | Some ci \<Rightarrow> (case tv_add_document (ie_tantivy ie) (build_tantivy_doc ie now doc (ci_field_map ci)) (ci_index ci) of
            (x, Inl e) \<Rightarrow> (set_index c ci x im, Inl (IndexError (''index document: '' @ e)))
          | (x, Inr _) \<Rightarrow> (set_index c ci x im, Inr ())))"

definition ci_index_document ::
    "('x, 'd) index_env \<Rightarrow> u64 \<Rightarrow> string \<Rightarrow> document \<Rightarrow> field_mapping \<Rightarrow> ('x, 'd) index_manager \<Rightarrow>
     ('x, 'd) index_manager \<times> field_mapping db_result" where
  "ci_index_document ie now c doc mapping im =
     (case detect_fields (ie_doc_fields ie (doc_fields doc)) mapping [] of
        Inl e \<Rightarrow> (im, Inl e)
      | Inr (updated, new_fields) \<Rightarrow>
          (case (if new_fields = [] then (im, Inr ()) else rebuild_schema ie c updated im) of
             (im1, Inl e) \<Rightarrow> (im1, Inl e)
           | (im1, Inr _) \<Rightarrow> (case add_to_index ie now c doc im1 of
                 (im2, Inl e) \<Rightarrow> (im2, Inl e)
               | (im2, Inr _) \<Rightarrow> (im2, Inr updated))))"

definition ci_delete_document ::
    "('x, 'd) index_env \<Rightarrow> string \<Rightarrow> document_id \<Rightarrow> ('x, 'd) index_manager \<Rightarrow> ('x, 'd) index_manager \<times> unit db_result" where
  "ci_delete_document ie c i im =
     (case fmlookup (im_collections im) c of
        None \<Rightarrow> (im, Inl (index_not_found c))
      | Some ci \<Rightarrow> (case fmlookup (ci_field_map ci) ''_id'' of
            None \<Rightarrow> (im, Inl (IndexError ''_id field not in schema''))
          | Some f \<Rightarrow> (set_index c ci (tv_delete_term (ie_tantivy ie) f (as_str i) (ci_index ci)) im, Inr ())))"

definition ci_commit ::
    "('x, 'd) index_env \<Rightarrow> string \<Rightarrow> ('x, 'd) index_manager \<Rightarrow> ('x, 'd) index_manager \<times> unit db_result" where
  "ci_commit ie c im =
     (case fmlookup (im_collections im) c of
        None \<Rightarrow> (im, Inl (index_not_found c))
      | Some ci \<Rightarrow> (case tv_commit (ie_tantivy ie) (ci_index ci) of
            (x, Inl e) \<Rightarrow> (set_index c ci x im, Inl (IndexError (''commit failed: '' @ e)))
          | (x, Inr _) \<Rightarrow> (case tv_reload (ie_tantivy ie) x of
                (y, Inl e) \<Rightarrow> (set_index c ci y im, Inl (IndexError (''reader reload: '' @ e)))
              | (y, Inr _) \<Rightarrow> (set_index c ci y im, Inr ()))))"

section \<open>Searching\<close>

fun retrieve ::
    "('x, 'd) index_env \<Rightarrow> 'x collection_index \<Rightarrow> (f32 \<times> nat) list \<Rightarrow> (f32 \<times> document) list db_result" where
  "retrieve ie ci [] = Inr []"
| "retrieve ie ci ((score, addr) # hits) =
     (case tv_doc (ie_tantivy ie) (ci_index ci) addr of
        Inl e \<Rightarrow> Inl (IndexError (''failed to retrieve doc: '' @ e))
      | Inr td \<Rightarrow> (case retrieve ie ci hits of
            Inl e \<Rightarrow> Inl e
          | Inr ds \<Rightarrow> Inr ((score, reconstruct_document ie td (ci_field_map ci)) # ds)))"

definition search_hits ::
    "('x, 'd) index_env \<Rightarrow> 'x collection_index \<Rightarrow> tv_query \<Rightarrow> nat \<Rightarrow> (f32 \<times> document) list db_result" where
  "search_hits ie ci tq limit =
     (case tv_search (ie_tantivy ie) (ci_index ci) tq limit of
        Inl e \<Rightarrow> Inl (IndexError (''search failed: '' @ e))
      | Inr top_docs \<Rightarrow> retrieve ie ci top_docs)"

definition ci_translate :: "('x, 'd) index_env \<Rightarrow> 'x collection_index \<Rightarrow> query \<Rightarrow> tv_query db_result" where
  "ci_translate ie ci q =
     translate_query (translate_full_text (ie_tantivy ie) (ci_index ci) (ci_field_map ci)) (ci_field_map ci) q"

definition ci_search ::
    "('x, 'd) index_env \<Rightarrow> u64 \<Rightarrow> string \<Rightarrow> query \<Rightarrow> ('x, 'd) index_manager \<Rightarrow> search_result db_result" where
  "ci_search ie took c q im =
     (case fmlookup (im_collections im) c of
        None \<Rightarrow> Inl (index_not_found c)
      | Some ci \<Rightarrow> (case ci_translate ie ci q of
            Inl e \<Rightarrow> Inl e
          | Inr tq \<Rightarrow> (case search_hits ie ci tq DEFAULT_SEARCH_LIMIT of
                Inl e \<Rightarrow> Inl e
              | Inr top_docs \<Rightarrow>
                  Inr \<lparr>sr_documents = map (\<lambda>(s, d). \<lparr>sd_document = d, sd_score = s, sd_sort = []\<rparr>) top_docs,
                    sr_total = word_of_nat (length top_docs), sr_took_ms = took, sr_aggregations = fmempty\<rparr>)))"

definition ci_search_with_options ::
    "('x, 'd) index_env \<Rightarrow> float_ops \<Rightarrow> ((string, u64) fmap \<Rightarrow> (string \<times> u64) list) \<Rightarrow>
     ((u64, u64) fmap \<Rightarrow> (u64 \<times> u64) list) \<Rightarrow> u64 \<Rightarrow> string \<Rightarrow> query \<Rightarrow> search_options \<Rightarrow> ('x, 'd) index_manager \<Rightarrow>
     search_result db_result" where
  "ci_search_with_options ie fo it itu took c q opts im =
     (case fmlookup (im_collections im) c of
        None \<Rightarrow> Inl (index_not_found c)
      | Some ci \<Rightarrow> (case ci_translate ie ci q of
            Inl e \<Rightarrow> Inl e
          | Inr tq \<Rightarrow> search_with_options fo it itu (search_hits ie ci tq) took opts))"

section \<open>Schemas made from mappings\<close>

text \<open>Handles are the positions of the fields, and every field is in the field map.\<close>

definition builder_ok :: "tv_schema \<times> (string, tv_field) fmap \<Rightarrow> bool" where
  "builder_ok b \<longleftrightarrow> distinct (map fst (fst b)) \<and> length (fst b) \<le> 2 ^ 32 \<and>
     (\<forall>n f. fmlookup (snd b) n = Some f \<longleftrightarrow> unat f < length (fst b) \<and> fst (fst b ! unat f) = n)"

lemma add_schema_field_ok:
  assumes laws: "schema_laws tv" and b: "builder_ok b" and n: "n \<notin> fst ` set (fst b)" and len: "length (fst b) < 2 ^ 32"
  shows "builder_ok (add_schema_field tv n fo b)"
proof -
  let ?sc = "fst b" and ?h = "word_of_nat (length (fst b)) :: tv_field"
  have h: "unat ?h = length ?sc" using len by (simp add: unat_of_nat_small)
  have new: "tv_new_field tv ?sc n fo = ?h" using laws n len by (simp add: schema_laws_def)
  have "fmlookup (fmupd n ?h (snd b)) k = Some f \<longleftrightarrow> unat f < Suc (length ?sc) \<and> fst ((?sc @ [(n, fo)]) ! unat f) = k" for k f
  proof (cases "k = n")
    case True
    have "fst (?sc ! i) \<noteq> n" if "i < length ?sc" for i using n that nth_mem by fastforce
    moreover have "f = ?h \<longleftrightarrow> unat f = length ?sc" using h by (auto simp: word_unat_eq_iff)
    ultimately show ?thesis using True by (auto simp: nth_append less_Suc_eq)
  next
    case False
    then show ?thesis using b by (auto simp: builder_ok_def nth_append less_Suc_eq)
  qed
  moreover have "distinct (map fst (?sc @ [(n, fo)]))" using b n by (auto simp: builder_ok_def)
  ultimately show ?thesis using new len by (simp add: builder_ok_def add_schema_field_def)
qed

lemma fold_add_schema_field_ok:
  assumes "schema_laws tv" "builder_ok b" "distinct (map fst fs)" "fst ` set fs \<inter> fst ` set (fst b) = {}"
    "length (fst b) + length fs \<le> 2 ^ 32"
  shows "builder_ok (fold (\<lambda>(n, t). add_schema_field tv n (g t)) fs b)"
    and "fst (fold (\<lambda>(n, t). add_schema_field tv n (g t)) fs b) = fst b @ map (map_prod id g) fs"
  using assms(2-)
proof (induction fs arbitrary: b)
  case (Cons p fs)
  obtain n t where p: "p = (n, t)" by (cases p)
  { case 1
    then show ?case using Cons.IH(1) [of "add_schema_field tv n (g t) b"]
        add_schema_field_ok [OF assms(1), of b n "g t"] p by (auto simp: add_schema_field_def)
  next
    case 2
    then show ?case using Cons.IH(2) [of "add_schema_field tv n (g t) b"]
        add_schema_field_ok [OF assms(1), of b n "g t"] p by (auto simp: add_schema_field_def)
  }
qed auto

lemma hash_iter_keys: "hash_iter it \<Longrightarrow> fst ` set (it m) = fmdom' m"
  using hash_iter_set [of it m] by (force simp: fmlookup_dom'_iff)

text \<open>Mappings whose field names do not clash with the fields the index adds itself.\<close>

definition RESERVED :: "string set" where
  "RESERVED = {''_id'', ''_score'', ''_timestamp'', ''_body''}"

definition mapping_ok :: "field_mapping \<Rightarrow> bool" where
  "mapping_ok mp \<longleftrightarrow> fmdom' (fm_fields mp) \<inter> RESERVED = {} \<and> fm_len (fm_fields mp) + 4 \<le> 2 ^ 32"

definition mapping_schema :: "('x, 'd) index_env \<Rightarrow> field_mapping \<Rightarrow> tv_schema" where
  "mapping_schema ie mp = fst (build_schema_from_mapping ie mp True)"

definition mapping_field_map :: "('x, 'd) index_env \<Rightarrow> field_mapping \<Rightarrow> (string, tv_field) fmap" where
  "mapping_field_map ie mp = snd (build_schema_from_mapping ie mp True)"

lemma fst_meta_fields: "fst ` set (meta_fields True) = RESERVED"
  by (auto simp: meta_fields_def RESERVED_def)

lemma built_schema:
  assumes laws: "schema_laws (ie_tantivy ie)" and it: "hash_iter (ie_mapping ie)" and mp: "mapping_ok mp"
  shows "builder_ok (build_schema_from_mapping ie mp True)"
    and "mapping_schema ie mp = meta_fields True @ map (map_prod id mapped_opts) (ie_mapping ie (fm_fields mp))"
proof -
  let ?tv = "ie_tantivy ie" and ?fs = "ie_mapping ie (fm_fields mp)"
  let ?b0 = "fold (\<lambda>(n, fo). add_schema_field ?tv n fo) (meta_fields True) ([], fmempty)"
  have d0: "distinct (map fst (meta_fields True))" and l0: "length (meta_fields True) = 4" by (simp_all add: meta_fields_def)
  have b0: "builder_ok ?b0" and s0: "fst ?b0 = meta_fields True"
    using fold_add_schema_field_ok [OF laws, of "([], fmempty)" "meta_fields True" id] d0 l0
    by (simp_all add: builder_ok_def map_prod.id)
  have d: "fst ` set ?fs \<inter> fst ` set (fst ?b0) = {}" using mp s0 fst_meta_fields hash_iter_keys [OF it] by (auto simp: mapping_ok_def)
  have l: "length (fst ?b0) + length ?fs \<le> 2 ^ 32" using mp s0 l0 hash_iter_length [OF it, of "fm_fields mp"] by (simp add: mapping_ok_def)
  note f = fold_add_schema_field_ok [OF laws b0 hash_iterD(1) [OF it] d l, of mapped_opts]
  show "builder_ok (build_schema_from_mapping ie mp True)" using f(1) by (simp add: build_schema_from_mapping_def)
  show "mapping_schema ie mp = meta_fields True @ map (map_prod id mapped_opts) ?fs"
    using f(2) s0 by (simp add: mapping_schema_def build_schema_from_mapping_def)
qed

text \<open>What the rest of the development needs of such a schema.\<close>

definition schema_ok :: "tv_schema \<Rightarrow> (string, tv_field) fmap \<Rightarrow> field_mapping \<Rightarrow> bool" where
  "schema_ok sc fm mp \<longleftrightarrow>
     (\<forall>n f. fmlookup fm n = Some f \<longrightarrow> unat f < length sc \<and> fst (sc ! unat f) = n) \<and>
     (\<forall>i < length sc. opt_stored (snd (sc ! i))) \<and>
     fmdom' fm = RESERVED \<union> fmdom' (fm_fields mp) \<and>
     (\<forall>f. fmlookup fm ''_id'' = Some f \<longrightarrow> raw_field sc f)"

lemma opt_stored_mapped [simp]: "opt_stored (mapped_opts t)"
  by (cases t) simp_all

lemma mapping_schema_ok:
  assumes "schema_laws (ie_tantivy ie)" "hash_iter (ie_mapping ie)" "mapping_ok mp"
  shows "schema_ok (mapping_schema ie mp) (mapping_field_map ie mp) mp"
proof -
  let ?sc = "mapping_schema ie mp" and ?fm = "mapping_field_map ie mp" and ?fs = "ie_mapping ie (fm_fields mp)"
  note built = built_schema [OF assms]
  have look: "fmlookup ?fm n = Some f \<longleftrightarrow> unat f < length ?sc \<and> fst (?sc ! unat f) = n" for n f
    using built(1) by (simp add: builder_ok_def mapping_schema_def mapping_field_map_def)
  have small: "length ?sc \<le> 2 ^ 32" using built(1) by (simp add: builder_ok_def mapping_schema_def)
  have names: "fst ` set ?sc = RESERVED \<union> fmdom' (fm_fields mp)"
  proof -
    have "fst ` set (map (map_prod id mapped_opts) ?fs) = fst ` set ?fs" by (simp add: image_image)
    also have "\<dots> = fmdom' (fm_fields mp)" by (rule hash_iter_keys [OF assms(2)])
    finally show ?thesis by (simp only: built(2) set_append image_Un fst_meta_fields)
  qed
  have "n \<in> fmdom' ?fm \<longleftrightarrow> n \<in> fst ` set ?sc" for n
  proof
    assume "n \<in> fst ` set ?sc"
    then obtain i where i: "i < length ?sc" "fst (?sc ! i) = n" by (auto simp: in_set_conv_nth)
    then have "fmlookup ?fm n = Some (word_of_nat i)" using small by (simp add: look unat_of_nat_small)
    then show "n \<in> fmdom' ?fm" by (rule fmdom'I)
  qed (auto simp: fmlookup_dom'_iff look)
  moreover have "raw_field ?sc f" if "fmlookup ?fm ''_id'' = Some f" for f
  proof -
    have d: "distinct (map fst ?sc)" using built(1) by (simp add: builder_ok_def mapping_schema_def)
    have 0: "?sc ! 0 = (''_id'', TextField True (Some ''raw''))" "0 < length ?sc" by (simp_all add: built(2) meta_fields_def)
    have "unat f < length ?sc" "map fst ?sc ! unat f = map fst ?sc ! 0" using that 0 by (simp_all add: look)
    then have "unat f = 0" using nth_eq_iff_index_eq [OF d, of "unat f" 0] 0(2) by simp
    then show ?thesis using 0 by (auto simp: raw_field_def)
  qed
  moreover have "opt_stored (snd (?sc ! i))" if "i < length ?sc" for i
  proof -
    have "?sc ! i \<in> set ?sc" using that by simp
    then show ?thesis by (auto simp: built(2) meta_fields_def)
  qed
  ultimately show ?thesis using names by (auto simp: schema_ok_def look)
qed

section \<open>Documents through the index\<close>

text \<open>
  What a search can give back of a document: no version, no fields whose name starts with an
  underscore, and of an array only its first text.
\<close>

fun shown :: "field_value \<Rightarrow> field_value option" where
  "shown (Array vs) = (case array_texts vs of [] \<Rightarrow> None | t # ts \<Rightarrow> Some (Text t))"
| "shown v = Some v"

definition searchable :: "document \<Rightarrow> document" where
  "searchable d = \<lparr>doc_id = doc_id d,
     doc_fields = fmmap (the \<circ> shown)
       (fmfilter (\<lambda>n. \<not> prefix ''_'' n \<and> Option.bind (fmlookup (doc_fields d) n) shown \<noteq> None) (doc_fields d)),
     doc_version = vc_new\<rparr>"

definition conforms :: "field_mapping \<Rightarrow> document \<Rightarrow> bool" where
  "conforms mp d \<longleftrightarrow> (\<forall>n v. fmlookup (doc_fields d) n = Some v \<longrightarrow> get_field_type mp n = Some (field_value_to_mapped_type v))"

fun tv_values :: "field_value \<Rightarrow> tv_value list" where
  "tv_values (Text t) = [TvStr t]"
| "tv_values (Number n) = [TvF64 n]"
| "tv_values (Boolean b) = [TvU64 (if b then 1 else 0)]"
| "tv_values (Array vs) = map TvStr (array_texts vs)"

lemma searchable_lookup:
  "fmlookup (doc_fields (searchable d)) n = (if prefix ''_'' n then None else Option.bind (fmlookup (doc_fields d) n) shown)"
  by (cases "fmlookup (doc_fields d) n") (auto simp: searchable_def)

lemma searchable_id [simp]: "doc_id (searchable d) = doc_id d"
  by (simp add: searchable_def)

lemma values_of_append [simp]: "values_of f (xs @ ys) = values_of f xs @ values_of f ys"
  by (simp add: values_of_def)

lemma values_of_Nil [simp]: "values_of f [] = []"
  by (simp add: values_of_def)

lemma values_of_pairs [simp]: "values_of g (map (\<lambda>v. (f, v)) vs) = (if g = f then vs else [])"
  by (simp add: values_of_def filter_map o_def)

lemma values_of_Cons [simp]: "values_of g ((f, v) # d) = (if g = f then v # values_of g d else values_of g d)"
  by (simp add: values_of_def)

lemma fst_field_entries:
  "fst (field_entries fm n v) = (case fmlookup fm n of None \<Rightarrow> [] | Some f \<Rightarrow> map (\<lambda>w. (f, w)) (tv_values v))"
  by (cases v) (simp_all add: field_entries_def split: option.splits)

lemma schema_ok_inj: "schema_ok sc fm mp \<Longrightarrow> fmlookup fm a = Some f \<Longrightarrow> fmlookup fm b = Some f \<Longrightarrow> a = b"
  unfolding schema_ok_def by metis

lemma schema_ok_neq: "schema_ok sc fm mp \<Longrightarrow> fmlookup fm a = Some f \<Longrightarrow> fmlookup fm b = Some g \<Longrightarrow> a \<noteq> b \<Longrightarrow> f \<noteq> g"
  using schema_ok_inj by metis

lemma values_of_entries:
  assumes ok: "schema_ok sc fm mp" and f: "fmlookup fm n = Some f" and d: "distinct (map fst xs)"
  shows "values_of f (concat (map (\<lambda>p. fst (field_entries fm (fst p) (snd p))) xs)) =
    (case map_of xs n of None \<Rightarrow> [] | Some v \<Rightarrow> tv_values v)"
  using d
proof (induction xs)
  case (Cons p xs)
  obtain k v where p: "p = (k, v)" by (cases p)
  have "values_of f (fst (field_entries fm k v)) = (if k = n then tv_values v else [])"
  proof (cases "fmlookup fm k")
    case (Some g)
    then have "f = g \<longleftrightarrow> k = n" using f schema_ok_inj [OF ok, of k f n] by auto
    with Some show ?thesis by (simp add: fst_field_entries)
  qed (use f in \<open>auto simp: fst_field_entries\<close>)
  moreover have "map_of xs n = None" if "k = n" using Cons.prems p that by (simp add: map_of_eq_None_iff)
  ultimately show ?case using Cons p by auto
qed simp

lemma field_map_reserved:
  "schema_ok sc fm mp \<Longrightarrow> n \<in> RESERVED \<Longrightarrow> \<exists>f. fmlookup fm n = Some f"
  by (simp add: schema_ok_def flip: fmlookup_dom'_iff)

lemma in_RESERVED [simp]: "''_id'' \<in> RESERVED" "''_timestamp'' \<in> RESERVED" "''_body'' \<in> RESERVED"
  by (simp_all add: RESERVED_def)

definition fields_in :: "field_mapping \<Rightarrow> document \<Rightarrow> bool" where
  "fields_in mp d \<longleftrightarrow> fmdom' (doc_fields d) \<inter> RESERVED = {} \<and> fmdom' (doc_fields d) \<subseteq> fmdom' (fm_fields mp)"

lemma conforms_fields_in: "mapping_ok mp \<Longrightarrow> conforms mp d \<Longrightarrow> fields_in mp d"
  by (fastforce simp: fields_in_def conforms_def mapping_ok_def fmlookup_dom'_iff get_field_type_def)

lemma build_values:
  assumes ok: "schema_ok sc fm mp" and it: "hash_iter (ie_doc_fields ie)" and d: "fields_in mp d"
    and f: "fmlookup fm n = Some f"
  shows "n = ''_id'' \<Longrightarrow> values_of f (build_tantivy_doc ie now d fm) = [TvStr (as_str (doc_id d))]"
    and "n \<notin> RESERVED \<Longrightarrow> values_of f (build_tantivy_doc ie now d fm) =
      (case fmlookup (doc_fields d) n of None \<Rightarrow> [] | Some v \<Rightarrow> tv_values v)"
proof -
  let ?es = "ie_doc_fields ie (doc_fields d)"
  have "values_of f (concat (map fst (map (\<lambda>(n, v). field_entries fm n v) ?es))) =
      (case fmlookup (doc_fields d) n of None \<Rightarrow> [] | Some v \<Rightarrow> tv_values v)"
    using values_of_entries [OF ok f hash_iterD(1) [OF it]] hash_iterD(2) [OF it] by (simp add: o_def case_prod_unfold)
  moreover obtain i t b where r: "fmlookup fm ''_id'' = Some i" "fmlookup fm ''_timestamp'' = Some t" "fmlookup fm ''_body'' = Some b"
    using field_map_reserved [OF ok in_RESERVED(1)] field_map_reserved [OF ok in_RESERVED(2)] field_map_reserved [OF ok in_RESERVED(3)]
    by blast
  moreover have "fmlookup (doc_fields d) n = None" if "n \<in> RESERVED"
    using d that by (auto simp: fields_in_def intro!: fmdom'_notD)
  moreover have "f \<noteq> t" "f \<noteq> b" if "n = ''_id''"
    using schema_ok_neq [OF ok f r(2)] schema_ok_neq [OF ok f r(3)] that by simp_all
  moreover have "f \<noteq> t" "f \<noteq> b" "f \<noteq> i" if "n \<notin> RESERVED"
    using schema_ok_neq [OF ok f r(2)] schema_ok_neq [OF ok f r(3)] schema_ok_neq [OF ok f r(1)] that in_RESERVED by metis+
  ultimately show "n = ''_id'' \<Longrightarrow> values_of f (build_tantivy_doc ie now d fm) = [TvStr (as_str (doc_id d))]"
    "n \<notin> RESERVED \<Longrightarrow> values_of f (build_tantivy_doc ie now d fm) = (case fmlookup (doc_fields d) n of None \<Rightarrow> [] | Some v \<Rightarrow> tv_values v)"
    using f by (simp_all add: build_tantivy_doc_def Let_def RESERVED_def)
qed

lemma build_in_schema:
  assumes ok: "schema_ok sc fm mp"
  shows "in_schema sc (build_tantivy_doc ie now d fm)"
proof -
  have "\<exists>n. fmlookup fm n = Some f" if "(f, v) \<in> set (build_tantivy_doc ie now d fm)" for f v
    using that by (auto simp: build_tantivy_doc_def Let_def fst_field_entries split: option.splits if_splits) blast+
  then show ?thesis using ok by (fastforce simp: in_schema_def schema_ok_def)
qed

lemma stored_part_all: "schema_ok sc fm mp \<Longrightarrow> in_schema sc d \<Longrightarrow> stored_part sc d = d"
  by (auto simp: stored_part_def schema_ok_def in_schema_def intro!: filter_True)

lemma reconstruct_fields_lookup:
  assumes "distinct (map fst xs)"
  shows "fmlookup (reconstruct_fields td xs acc) n =
    (case map_of xs n of
       None \<Rightarrow> fmlookup acc n
     | Some f \<Rightarrow> if prefix ''_'' n then fmlookup acc n
         else (case get_first td f of None \<Rightarrow> fmlookup acc n | Some v \<Rightarrow> Some (reconstruct_value v)))"
  using assms
proof (induction xs arbitrary: acc)
  case (Cons p xs)
  obtain k f where p: "p = (k, f)" by (cases p)
  have "map_of xs n = None" if "k = n" using Cons.prems p that by (simp add: map_of_eq_None_iff)
  with Cons p show ?case by (auto simp: reconstruct_fields_def split: option.splits)
qed (simp add: reconstruct_fields_def)

lemma reconstruct_shown:
  "(case tv_values v of [] \<Rightarrow> None | w # ws \<Rightarrow> Some (reconstruct_value w)) = shown v"
  by (cases v) (auto split: list.splits)

lemma reconstruct_build:
  assumes ok: "schema_ok sc fm mp" and it: "hash_iter (ie_doc_fields ie)" "hash_iter (ie_field_map ie)" and d: "fields_in mp d"
    and r: "same_values r (stored_part sc (build_tantivy_doc ie now d fm))"
  shows "reconstruct_document ie r fm = searchable d"
proof -
  let ?t = "build_tantivy_doc ie now d fm"
  have v: "values_of f r = values_of f ?t" for f
    using r stored_part_all [OF ok build_in_schema [OF ok, of ie now d]] by (simp add: same_values_def)
  have res: "prefix ''_'' n" if "n \<in> RESERVED" for n using that by (auto simp: RESERVED_def)
  obtain i where i: "fmlookup fm ''_id'' = Some i" using field_map_reserved [OF ok in_RESERVED(1)] by blast
  have id: "get_first r i = Some (TvStr (as_str (doc_id d)))"
    using build_values(1) [OF ok it(1) d i] by (simp add: get_first_def v)
  have "fmlookup (reconstruct_fields r (ie_field_map ie fm) fmempty) n = fmlookup (doc_fields (searchable d)) n" for n
  proof (cases "fmlookup fm n")
    case None
    then have "fmlookup (doc_fields d) n = None"
      using ok d fmdom'_notI [OF None] by (auto simp: schema_ok_def fields_in_def intro!: fmdom'_notD)
    then show ?thesis using None hash_iterD [OF it(2), of fm] by (simp add: reconstruct_fields_lookup searchable_lookup)
  next
    case (Some f)
    show ?thesis
    proof (cases "prefix ''_'' n")
      case True
      then show ?thesis using Some hash_iterD [OF it(2), of fm] by (simp add: reconstruct_fields_lookup searchable_lookup)
    next
      case False
      then have "n \<notin> RESERVED" using res by blast
      then have "values_of f r = (case fmlookup (doc_fields d) n of None \<Rightarrow> [] | Some v \<Rightarrow> tv_values v)"
        using build_values(2) [OF ok it(1) d Some] v by simp
      then show ?thesis using Some False hash_iterD [OF it(2), of fm]
        by (cases "fmlookup (doc_fields d) n") (auto simp: reconstruct_fields_lookup searchable_lookup get_first_def
            simp flip: reconstruct_shown split: list.splits)
    qed
  qed
  then have "reconstruct_fields r (ie_field_map ie fm) fmempty = doc_fields (searchable d)" by (rule fmap_ext)
  then show ?thesis using i id by (simp add: reconstruct_document_def searchable_def)
qed

section \<open>Refinement\<close>

text \<open>
  The contract of a collection index: a list of pending documents and the list of those a search
  sees. Indexing appends (it does not replace an earlier version), deletion removes all versions
  and a commit publishes the pending list.
\<close>

datatype ix_op = IxIndex u64 document | IxDelete document_id | IxCommit

fun spec_ix :: "ix_op \<Rightarrow> document list \<times> document list \<Rightarrow> document list \<times> document list" where
  "spec_ix (IxIndex now d) (staged, seen) = (staged @ [searchable d], seen)"
| "spec_ix (IxDelete i) (staged, seen) = (filter (\<lambda>d. doc_id d \<noteq> i) staged, seen)"
| "spec_ix IxCommit (staged, seen) = (staged, staged)"

fun ix_step ::
    "('x, 'd) index_env \<Rightarrow> field_mapping \<Rightarrow> string \<Rightarrow> ix_op \<Rightarrow> ('x, 'd) index_manager \<Rightarrow> ('x, 'd) index_manager \<times> bool" where
  "ix_step ie mp c (IxIndex now d) im = (case ci_index_document ie now c d mp im of (im', r) \<Rightarrow> (im', is_ok r))"
| "ix_step ie mp c (IxDelete i) im = (case ci_delete_document ie c i im of (im', r) \<Rightarrow> (im', is_ok r))"
| "ix_step ie mp c IxCommit im = (case ci_commit ie c im of (im', r) \<Rightarrow> (im', is_ok r))"

fun ix_ok :: "field_mapping \<Rightarrow> ix_op \<Rightarrow> bool" where
  "ix_ok mp (IxIndex now d) = conforms mp d"
| "ix_ok mp (IxDelete i) = (length (as_str i) \<le> MAX_TERM_LEN)"
| "ix_ok mp IxCommit = True"

text \<open>A sequence of steps, None as soon as one fails.\<close>

fun run_ops :: "('op \<Rightarrow> 's \<Rightarrow> 's \<times> bool) \<Rightarrow> 'op list \<Rightarrow> 's \<Rightarrow> 's option" where
  "run_ops step [] s = Some s"
| "run_ops step (op # ops) s = (case step op s of (s', True) \<Rightarrow> run_ops step ops s' | (s', False) \<Rightarrow> None)"

text \<open>A system whose steps, when they succeed, follow a specification.\<close>

locale simulation =
  fixes rel :: "'s \<Rightarrow> 'a \<Rightarrow> bool" and step :: "'op \<Rightarrow> 's \<Rightarrow> 's \<times> bool" and spec :: "'op \<Rightarrow> 'a \<Rightarrow> 'a" and ok :: "'op \<Rightarrow> bool"
  assumes sim_step: "rel s a \<Longrightarrow> ok op \<Longrightarrow> step op s = (s', True) \<Longrightarrow> rel s' (spec op a)"
begin

lemma sim_run: "rel s a \<Longrightarrow> list_all ok ops \<Longrightarrow> run_ops step ops s = Some s' \<Longrightarrow> rel s' (fold spec ops a)"
proof (induction ops arbitrary: s a)
  case (Cons op ops)
  from Cons.prems obtain s1 where 1: "step op s = (s1, True)" "run_ops step ops s1 = Some s'"
    by (auto split: prod.splits bool.splits)
  with Cons.IH [of s1 "spec op a"] sim_step [of s a op s1] Cons.prems show ?case by simp
qed simp

end

definition built_from :: "('x, 'd) index_env \<Rightarrow> field_mapping \<Rightarrow> tv_document \<Rightarrow> document \<Rightarrow> bool" where
  "built_from ie mp td d \<longleftrightarrow>
     (\<exists>now d0. td = build_tantivy_doc ie now d0 (mapping_field_map ie mp) \<and> fields_in mp d0 \<and> d = searchable d0)"

definition env_ok :: "('x, 'd) index_env \<Rightarrow> bool" where
  "env_ok ie \<longleftrightarrow> tantivy_laws (ie_tantivy ie) \<and> hash_iter (ie_doc_fields ie) \<and> hash_iter (ie_field_map ie) \<and> hash_iter (ie_mapping ie)"

definition serves ::
    "('x, 'd) index_env \<Rightarrow> field_mapping \<Rightarrow> 'x collection_index \<Rightarrow> document list \<times> document list \<Rightarrow> bool" where
  "serves ie mp ci a \<longleftrightarrow>
     ci_schema ci = mapping_schema ie mp \<and> ci_field_map ci = mapping_field_map ie mp \<and>
     tv_schema_of (ie_tantivy ie) (ci_index ci) = mapping_schema ie mp \<and>
     tv_visible (ie_tantivy ie) (ci_index ci) = tv_committed (ie_tantivy ie) (ci_index ci) \<and>
     list_all2 (built_from ie mp) (tv_staged (ie_tantivy ie) (ci_index ci)) (fst a) \<and>
     list_all2 (built_from ie mp) (tv_visible (ie_tantivy ie) (ci_index ci)) (snd a)"

definition represents ::
    "('x, 'd) index_env \<Rightarrow> field_mapping \<Rightarrow> string \<Rightarrow> ('x, 'd) index_manager \<Rightarrow> document list \<times> document list \<Rightarrow> bool" where
  "represents ie mp c im a \<longleftrightarrow> env_ok ie \<and> mapping_ok mp \<and> (\<exists>ci. fmlookup (im_collections im) c = Some ci \<and> serves ie mp ci a)"

lemma env_ok_schema:
  "env_ok ie \<Longrightarrow> mapping_ok mp \<Longrightarrow> schema_ok (mapping_schema ie mp) (mapping_field_map ie mp) mp"
  by (intro mapping_schema_ok) (simp_all add: env_ok_def tantivy_laws_def)

lemma detect_fields_known:
  "(\<forall>(n, v) \<in> set es. get_field_type mp n = Some (field_value_to_mapped_type v)) \<Longrightarrow> detect_fields es mp nf = Inr (mp, nf)"
  by (induction es) (auto simp: register_field_def get_field_type_def)

lemma detect_conforms:
  assumes "env_ok ie" "conforms mp d"
  shows "detect_fields (ie_doc_fields ie (doc_fields d)) mp nf = Inr (mp, nf)"
  using assms hash_iter_set [of "ie_doc_fields ie" "doc_fields d"]
  by (intro detect_fields_known) (auto simp: env_ok_def conforms_def)

lemma list_all2_filter:
  "list_all2 R xs ys \<Longrightarrow> (\<And>x y. R x y \<Longrightarrow> P x \<longleftrightarrow> Q y) \<Longrightarrow> list_all2 R (filter P xs) (filter Q ys)"
  by (induction xs ys rule: list_all2_induct) auto

text \<open>A term query on \<^verbatim>\<open>_id\<close> selects by the identifier.\<close>

lemma id_term_matches:
  assumes e: "env_ok ie" and m: "mapping_ok mp" and b: "built_from ie mp td d" and l: "length i \<le> MAX_TERM_LEN"
    and f: "fmlookup (mapping_field_map ie mp) ''_id'' = Some f"
  shows "tv_matches (ie_tantivy ie) (mapping_schema ie mp) (TantivyTerm f i) td \<longleftrightarrow> as_str (doc_id d) = i"
proof -
  note ok = env_ok_schema [OF e m]
  obtain now d0 where d0: "td = build_tantivy_doc ie now d0 (mapping_field_map ie mp)" "fields_in mp d0" "d = searchable d0"
    using b by (auto simp: built_from_def)
  have "values_of f td = [TvStr (as_str (doc_id d))]"
    using build_values(1) [OF ok _ d0(2) f, where ie = ie and now = now] d0 e by (simp add: env_ok_def)
  moreover have "raw_field (mapping_schema ie mp) f" using ok f by (simp add: schema_ok_def)
  moreover have "query_laws (ie_tantivy ie)" using e by (simp add: env_ok_def tantivy_laws_def)
  ultimately show ?thesis using l by (auto simp: query_laws_def)
qed

lemma write_lawsD:
  assumes "env_ok ie"
  shows "tv_add_document (ie_tantivy ie) d x = (x', Inr ()) \<Longrightarrow> in_schema (tv_schema_of (ie_tantivy ie) x) d \<Longrightarrow>
      tv_schema_of (ie_tantivy ie) x' = tv_schema_of (ie_tantivy ie) x \<and> tv_staged (ie_tantivy ie) x' = tv_staged (ie_tantivy ie) x @ [d] \<and>
      tv_committed (ie_tantivy ie) x' = tv_committed (ie_tantivy ie) x \<and>
      (tv_visible (ie_tantivy ie) x = tv_committed (ie_tantivy ie) x \<longrightarrow> tv_visible (ie_tantivy ie) x' = tv_visible (ie_tantivy ie) x)"
    and "tv_schema_of (ie_tantivy ie) (tv_delete_term (ie_tantivy ie) f i x) = tv_schema_of (ie_tantivy ie) x \<and>
      tv_staged (ie_tantivy ie) (tv_delete_term (ie_tantivy ie) f i x) =
        filter (\<lambda>d. \<not> tv_matches (ie_tantivy ie) (tv_schema_of (ie_tantivy ie) x) (TantivyTerm f i) d) (tv_staged (ie_tantivy ie) x) \<and>
      tv_committed (ie_tantivy ie) (tv_delete_term (ie_tantivy ie) f i x) = tv_committed (ie_tantivy ie) x \<and>
      (tv_visible (ie_tantivy ie) x = tv_committed (ie_tantivy ie) x \<longrightarrow>
        tv_visible (ie_tantivy ie) (tv_delete_term (ie_tantivy ie) f i x) = tv_visible (ie_tantivy ie) x)"
    and "tv_commit (ie_tantivy ie) x = (x', Inr n) \<Longrightarrow> tv_schema_of (ie_tantivy ie) x' = tv_schema_of (ie_tantivy ie) x \<and>
      tv_staged (ie_tantivy ie) x' = tv_staged (ie_tantivy ie) x \<and> tv_committed (ie_tantivy ie) x' = tv_staged (ie_tantivy ie) x"
    and "tv_reload (ie_tantivy ie) x = (x', Inr ()) \<Longrightarrow> tv_schema_of (ie_tantivy ie) x' = tv_schema_of (ie_tantivy ie) x \<and>
      tv_staged (ie_tantivy ie) x' = tv_staged (ie_tantivy ie) x \<and>
      tv_committed (ie_tantivy ie) x' = tv_committed (ie_tantivy ie) x \<and> tv_visible (ie_tantivy ie) x' = tv_committed (ie_tantivy ie) x"
proof -
  have l: "write_laws (ie_tantivy ie)" using assms by (simp add: env_ok_def tantivy_laws_def)
  note w = l [unfolded write_laws_def Let_def]
  show "tv_add_document (ie_tantivy ie) d x = (x', Inr ()) \<Longrightarrow> in_schema (tv_schema_of (ie_tantivy ie) x) d \<Longrightarrow>
      tv_schema_of (ie_tantivy ie) x' = tv_schema_of (ie_tantivy ie) x \<and> tv_staged (ie_tantivy ie) x' = tv_staged (ie_tantivy ie) x @ [d] \<and>
      tv_committed (ie_tantivy ie) x' = tv_committed (ie_tantivy ie) x \<and>
      (tv_visible (ie_tantivy ie) x = tv_committed (ie_tantivy ie) x \<longrightarrow> tv_visible (ie_tantivy ie) x' = tv_visible (ie_tantivy ie) x)"
    using w by blast
qed (use assms in \<open>simp_all add: env_ok_def tantivy_laws_def write_laws_def Let_def\<close>)

text \<open>The three operations follow the contract.\<close>

lemma add_serves:
  assumes e: "env_ok ie" and m: "mapping_ok mp" and d: "fields_in mp d"
    and s: "serves ie mp ci (st, v)" and add: "tv_add_document (ie_tantivy ie) (build_tantivy_doc ie now d (ci_field_map ci)) (ci_index ci) = (x, Inr ())"
  shows "serves ie mp (ci\<lparr>ci_index := x\<rparr>) (st @ [searchable d], v)"
proof -
  have f: "ci_field_map ci = mapping_field_map ie mp" using s by (simp add: serves_def)
  have "in_schema (tv_schema_of (ie_tantivy ie) (ci_index ci)) (build_tantivy_doc ie now d (ci_field_map ci))"
    using s build_in_schema [OF env_ok_schema [OF e m], of ie now d] by (simp add: serves_def)
  from write_lawsD(1) [OF e add this] s have
    "tv_schema_of (ie_tantivy ie) x = mapping_schema ie mp" "tv_visible (ie_tantivy ie) x = tv_committed (ie_tantivy ie) x"
    "tv_visible (ie_tantivy ie) x = tv_visible (ie_tantivy ie) (ci_index ci)"
    "tv_staged (ie_tantivy ie) x = tv_staged (ie_tantivy ie) (ci_index ci) @ [build_tantivy_doc ie now d (ci_field_map ci)]"
    by (simp_all add: serves_def)
  moreover have "built_from ie mp (build_tantivy_doc ie now d (ci_field_map ci)) (searchable d)"
    using d f by (auto simp: built_from_def)
  ultimately show ?thesis using s unfolding serves_def by (clarsimp simp: list_all2_appendI)
qed

lemma delete_serves:
  assumes e: "env_ok ie" and m: "mapping_ok mp" and l: "length (as_str i) \<le> MAX_TERM_LEN"
    and s: "serves ie mp ci (st, v)" and f: "fmlookup (ci_field_map ci) ''_id'' = Some f"
  shows "serves ie mp (ci\<lparr>ci_index := tv_delete_term (ie_tantivy ie) f (as_str i) (ci_index ci)\<rparr>) (filter (\<lambda>d. doc_id d \<noteq> i) st, v)"
proof -
  have f': "fmlookup (mapping_field_map ie mp) ''_id'' = Some f" using s f by (simp add: serves_def)
  have "\<not> tv_matches (ie_tantivy ie) (mapping_schema ie mp) (TantivyTerm f (as_str i)) td \<longleftrightarrow> doc_id d \<noteq> i"
    if "built_from ie mp td d" for td d
    using id_term_matches [OF e m that l f'] by (metis document_id.expand)
  then have "list_all2 (built_from ie mp)
      (filter (\<lambda>td. \<not> tv_matches (ie_tantivy ie) (mapping_schema ie mp) (TantivyTerm f (as_str i)) td) (tv_staged (ie_tantivy ie) (ci_index ci)))
      (filter (\<lambda>d. doc_id d \<noteq> i) st)"
    using s by (intro list_all2_filter) (simp_all add: serves_def)
  with s write_lawsD(2) [OF e, of f "as_str i" "ci_index ci"] show ?thesis unfolding serves_def by clarsimp
qed

lemma commit_serves:
  assumes e: "env_ok ie" and s: "serves ie mp ci (st, v)" and c: "tv_commit (ie_tantivy ie) (ci_index ci) = (x, Inr n)"
    and r: "tv_reload (ie_tantivy ie) x = (y, Inr ())"
  shows "serves ie mp (ci\<lparr>ci_index := y\<rparr>) (st, st)"
  using s write_lawsD(3) [OF e c] write_lawsD(4) [OF e r] by (simp add: serves_def)

lemma ix_step_represents:
  assumes r: "represents ie mp c im a" and ok: "ix_ok mp op" and st: "ix_step ie mp c op im = (im', True)"
  shows "represents ie mp c im' (spec_ix op a)"
proof -
  obtain staged v where a: "a = (staged, v)" by (cases a)
  obtain ci where ci: "fmlookup (im_collections im) c = Some ci" and s: "serves ie mp ci (staged, v)"
    and e: "env_ok ie" and m: "mapping_ok mp" using r a by (auto simp: represents_def)
  show ?thesis
  proof (cases op)
    case (IxIndex now d)
    then have d: "conforms mp d" using ok by simp
    obtain x where "tv_add_document (ie_tantivy ie) (build_tantivy_doc ie now d (ci_field_map ci)) (ci_index ci) = (x, Inr ())"
      "im' = set_index c ci x im"
      using st ci IxIndex detect_conforms [OF e d] by (auto simp: ci_index_document_def add_to_index_def is_ok_def split: prod.splits sum.splits)
    with add_serves [OF e m conforms_fields_in [OF m d] s] show ?thesis
      using e m IxIndex a by (auto simp: represents_def set_index_def)
  next
    case (IxDelete i)
    obtain f where f: "fmlookup (ci_field_map ci) ''_id'' = Some f"
      using s field_map_reserved [OF env_ok_schema [OF e m] in_RESERVED(1)] by (auto simp: serves_def)
    have "im' = set_index c ci (tv_delete_term (ie_tantivy ie) f (as_str i) (ci_index ci)) im"
      using st ci f IxDelete by (simp add: ci_delete_document_def)
    with delete_serves [OF e m _ s f, of i] show ?thesis
      using e m IxDelete a ok by (auto simp: represents_def set_index_def)
  next
    case IxCommit
    obtain x n y where "tv_commit (ie_tantivy ie) (ci_index ci) = (x, Inr n)" "tv_reload (ie_tantivy ie) x = (y, Inr ())"
      "im' = set_index c ci y im"
      using st ci IxCommit by (auto simp: ci_commit_def is_ok_def split: prod.splits sum.splits)
    with commit_serves [OF e s] show ?thesis
      using e m IxCommit a by (auto simp: represents_def set_index_def)
  qed
qed

interpretation index_sim: simulation "represents ie mp c" "ix_step ie mp c" spec_ix "ix_ok mp"
  for ie :: "('x, 'd) index_env" and mp c
  by unfold_locales (rule ix_step_represents)

section \<open>Searches follow the contract\<close>

lemma retrieve_docs:
  "retrieve ie ci hits = Inr ds \<Longrightarrow>
    list_all2 (\<lambda>(s, a) (s', d). \<exists>td. tv_doc (ie_tantivy ie) (ci_index ci) a = Inr td \<and> d = reconstruct_document ie td (ci_field_map ci)) hits ds"
proof (induction hits arbitrary: ds)
  case (Cons h hits)
  obtain s a where h: "h = (s, a)" by (cases h)
  obtain td ds' where "tv_doc (ie_tantivy ie) (ci_index ci) a = Inr td" "retrieve ie ci hits = Inr ds'"
    "ds = (s, reconstruct_document ie td (ci_field_map ci)) # ds'"
    using Cons.prems h by (auto split: sum.splits)
  with Cons.IH [of ds'] h show ?case by simp
qed simp

lemma built_reconstruct:
  assumes e: "env_ok ie" and m: "mapping_ok mp" and b: "built_from ie mp td d"
    and r: "same_values r (stored_part (mapping_schema ie mp) td)"
  shows "reconstruct_document ie r (mapping_field_map ie mp) = d"
  using b r reconstruct_build [OF env_ok_schema [OF e m]] e by (auto simp: built_from_def env_ok_def)

lemma built_reconstruct_self:
  assumes e: "env_ok ie" and m: "mapping_ok mp" and b: "built_from ie mp td d"
  shows "reconstruct_document ie td (mapping_field_map ie mp) = d"
proof -
  have "stored_part (mapping_schema ie mp) td = td"
    using b stored_part_all [OF env_ok_schema [OF e m]] build_in_schema [OF env_ok_schema [OF e m]] by (auto simp: built_from_def)
  then show ?thesis using built_reconstruct [OF e m b] by (simp add: same_values_def)
qed

text \<open>
  A search that succeeds returns, up to its limit, the visible documents whose library document
  matches.
\<close>

lemma search_hits_serves:
  assumes e: "env_ok ie" and m: "mapping_ok mp" and s: "serves ie mp ci (st, v)" and l: "0 < limit"
    and h: "search_hits ie ci tq limit = Inr ds"
    and q: "\<And>td d. built_from ie mp td d \<Longrightarrow> tv_matches (ie_tantivy ie) (mapping_schema ie mp) tq td \<longleftrightarrow> Q d"
  shows "mset (map snd ds) \<subseteq># mset (filter Q v) \<and> length ds = min limit (length (filter Q v))"
proof -
  let ?rec = "\<lambda>td. reconstruct_document ie td (mapping_field_map ie mp)"
  let ?vis = "tv_visible (ie_tantivy ie) (ci_index ci)" and ?sc = "mapping_schema ie mp"
  let ?P = "tv_matches (ie_tantivy ie) ?sc tq"
  have sc: "tv_schema_of (ie_tantivy ie) (ci_index ci) = ?sc" and fm: "ci_field_map ci = mapping_field_map ie mp"
    and vis: "list_all2 (built_from ie mp) ?vis v" using s unfolding serves_def by auto
  obtain hits where hits: "tv_search (ie_tantivy ie) (ci_index ci) tq limit = Inr hits" "retrieve ie ci hits = Inr ds"
    using h by (auto simp: search_hits_def split: sum.splits)
  have laws: "search_laws (ie_tantivy ie)" using e by (simp add: env_ok_def tantivy_laws_def)
  obtain tds where tds: "list_all2 (\<lambda>(s, a) d. \<forall>r. tv_doc (ie_tantivy ie) (ci_index ci) a = Inr r \<longrightarrow> same_values r (stored_part ?sc d)) hits tds"
    "mset tds \<subseteq># mset (filter ?P ?vis)" "length tds = min limit (length (filter ?P ?vis))"
    using laws [unfolded search_laws_def Let_def, rule_format, OF hits(1) l] unfolding sc by blast
  have b: "\<exists>d. built_from ie mp td d" if "td \<in> set ?vis" for td
    using vis that by (auto simp: list_all2_conv_all_nth in_set_conv_nth)
  have sub: "set tds \<subseteq> set ?vis" using set_mset_mono [OF tds(2)] by auto
  have len: "length hits = length ds" "length hits = length tds"
    using list_all2_lengthD [OF retrieve_docs [OF hits(2)]] list_all2_lengthD [OF tds(1)] by simp_all
  have "map snd ds = map ?rec tds"
  proof (rule nth_equalityI)
    fix i assume "i < length (map snd ds)"
    then have i: "i < length hits" "i < length ds" "i < length tds" using len by simp_all
    obtain td where td: "tv_doc (ie_tantivy ie) (ci_index ci) (snd (hits ! i)) = Inr td" "snd (ds ! i) = ?rec td"
      using list_all2_nthD [OF retrieve_docs [OF hits(2)] i(1)] fm by (auto simp: case_prod_unfold)
    have "same_values td (stored_part ?sc (tds ! i))" using list_all2_nthD [OF tds(1) i(1)] td(1) by (auto simp: case_prod_unfold)
    moreover obtain d where d: "built_from ie mp (tds ! i) d" using b sub nth_mem [OF i(3)] by blast
    ultimately have "?rec td = ?rec (tds ! i)"
      using built_reconstruct [OF e m d] built_reconstruct_self [OF e m d] by simp
    then show "map snd ds ! i = map ?rec tds ! i" using td i by simp
  qed (use len in simp)
  moreover have v: "v = map ?rec ?vis"
    using vis built_reconstruct_self [OF e m] by (auto simp: list_all2_conv_all_nth intro!: nth_equalityI)
  have Q: "?P td \<longleftrightarrow> Q (?rec td)" if "td \<in> set ?vis" for td using b [OF that] built_reconstruct_self [OF e m] q by metis
  have "filter Q v = map ?rec (filter ?P ?vis)"
    unfolding v filter_map using Q by (auto intro!: arg_cong [where f = "map _"] filter_cong)
  ultimately show ?thesis using image_mset_subseteq_mono [OF tds(2), of ?rec] tds(3) len by simp
qed

section \<open>First documents and new fields\<close>

text \<open>No index of the collection exists yet, or it is one in memory.\<close>

definition fresh_start :: "string \<Rightarrow> ('x, 'd) index_manager \<Rightarrow> bool" where
  "fresh_start c im \<longleftrightarrow> (case im_base_path im of
      None \<Rightarrow> True
    | Some base \<Rightarrow> fmlookup (im_collections im) c = None \<and> fmlookup (im_dirs im) (index_dir base c) = None)"

lemma detect_fields_grows: "detect_fields es m nf = Inr (m', nf') \<Longrightarrow> nf \<noteq> [] \<Longrightarrow> nf' \<noteq> []"
proof (induction es arbitrary: m nf)
  case (Cons e es)
  obtain n v where "e = (n, v)" by (cases e)
  then obtain m1 nf1 where "detect_fields es m1 nf1 = Inr (m', nf')" "nf1 \<noteq> []"
    using Cons.prems by (auto split: prod.splits sum.splits)
  then show ?case by (rule Cons.IH)
qed simp

lemma detect_fields_spec:
  "detect_fields es m nf = Inr (m', nf') \<Longrightarrow>
    mapping_extends m' m \<and> (\<forall>(n, v) \<in> set es. get_field_type m' n = Some (field_value_to_mapped_type v)) \<and>
    (\<forall>n. get_field_type m' n \<noteq> None \<longrightarrow> get_field_type m n \<noteq> None \<or> n \<in> fst ` set es) \<and>
    (nf' = [] \<longrightarrow> m' = m)"
proof (induction es arbitrary: m nf)
  case (Cons e es)
  obtain n v where e: "e = (n, v)" by (cases e)
  obtain m1 new where r: "register_field m n (field_value_to_mapped_type v) = (m1, Inr new)"
    and d: "detect_fields es m1 (if new then nf @ [(n, field_value_to_mapped_type v)] else nf) = Inr (m', nf')"
    using Cons.prems e by (auto split: prod.splits sum.splits)
  note IH = Cons.IH [OF d]
  have m1: "get_field_type m1 n = Some (field_value_to_mapped_type v)" "mapping_extends m1 m" "\<not> new \<Longrightarrow> m1 = m"
    "\<And>k. k \<noteq> n \<Longrightarrow> get_field_type m1 k = get_field_type m k"
    using r register_field_extends [of m n "field_value_to_mapped_type v"] by (auto simp: register_field_Inr mapping_extends_def split: if_splits)
  have "new \<Longrightarrow> nf' \<noteq> []" using detect_fields_grows [OF d] by simp
  with IH m1 e show ?case by (auto simp: mapping_extends_def) (metis option.distinct(1))+
qed (simp add: mapping_extends_def)

text \<open>No field of the document is mapped to another type.\<close>

definition compatible :: "field_mapping \<Rightarrow> document \<Rightarrow> bool" where
  "compatible m d \<longleftrightarrow> (\<forall>n v t. fmlookup (doc_fields d) n = Some v \<longrightarrow> get_field_type m n = Some t \<longrightarrow> t = field_value_to_mapped_type v)"

lemma detect_fields_Inr:
  "distinct (map fst es) \<Longrightarrow>
    \<forall>(n, v) \<in> set es. \<forall>t. get_field_type m n = Some t \<longrightarrow> t = field_value_to_mapped_type v \<Longrightarrow>
    \<exists>m' nf'. detect_fields es m nf = Inr (m', nf')"
proof (induction es arbitrary: m nf)
  case (Cons e es)
  obtain n v where e: "e = (n, v)" by (cases e)
  obtain m1 new where r: "register_field m n (field_value_to_mapped_type v) = (m1, Inr new)"
    using Cons.prems e by (cases "get_field_type m n") (auto simp: register_field_def get_field_type_def)
  have m1: "get_field_type m1 k = get_field_type m k" if "k \<noteq> n" for k
    using r that by (auto simp: register_field_Inr split: if_splits)
  have "\<forall>(k, w) \<in> set es. \<forall>t. get_field_type m1 k = Some t \<longrightarrow> t = field_value_to_mapped_type w"
  proof (intro ballI, clarify)
    fix k w t assume k: "(k, w) \<in> set es" "get_field_type m1 k = Some t"
    then have "k \<noteq> n" using Cons.prems(1) e by force
    then show "t = field_value_to_mapped_type w" using k m1 Cons.prems(2) by auto
  qed
  then show ?case using Cons.IH [of m1] Cons.prems(1) e r by simp
qed simp

lemma detect_compatible:
  assumes it: "hash_iter (ie_doc_fields ie)" and c: "compatible m d" and n: "\<not> conforms m d"
  shows "\<exists>m' nf'. detect_fields (ie_doc_fields ie (doc_fields d)) m [] = Inr (m', nf') \<and> nf' \<noteq> [] \<and> conforms m' d"
proof -
  have set: "set (ie_doc_fields ie (doc_fields d)) = {(n, v). fmlookup (doc_fields d) n = Some v}" by (rule hash_iter_set [OF it])
  then obtain m' nf' where d: "detect_fields (ie_doc_fields ie (doc_fields d)) m [] = Inr (m', nf')"
    using detect_fields_Inr [OF hash_iterD(1) [OF it], of "doc_fields d" m "[]"] c by (fastforce simp: compatible_def)
  with detect_fields_spec [OF d] set n show ?thesis by (auto simp: conforms_def)
qed

lemma open_fresh:
  assumes l: "open_laws (ie_tantivy ie)" and f: "fresh_start c im" and o: "open_or_create ie c sc im = Inr x"
  shows "holds_docs (ie_tantivy ie) x sc []"
proof (cases "im_base_path im")
  case None
  then show ?thesis using l o by (auto simp: open_or_create_def open_laws_def)
next
  case (Some base)
  then have "fmlookup (im_dirs im) (index_dir base c) = None" using f by (simp add: fresh_start_def)
  then show ?thesis using l o Some by (auto simp: open_or_create_def open_laws_def Let_def split: option.splits sum.splits)
qed

lemma rebuild_fresh:
  assumes e: "env_ok ie" and m: "mapping_ok mp" and f: "fresh_start c im" and r: "rebuild_schema ie c mp im = (im', Inr ())"
  shows "represents ie mp c im' ([], [])"
proof -
  let ?im = "remove_index ie c im"
  have f': "fresh_start c ?im"
    using f by (auto simp: fresh_start_def remove_index_def close_index_def split: option.splits)
  obtain x where x: "open_or_create ie c (mapping_schema ie mp) ?im = Inr x"
    "im' = ?im\<lparr>im_collections := fmupd c \<lparr>ci_index = x, ci_schema = mapping_schema ie mp, ci_field_map = mapping_field_map ie mp\<rparr> (im_collections ?im)\<rparr>"
    using r by (auto simp: rebuild_schema_def insert_opened_def open_index_def mapping_schema_def mapping_field_map_def
        case_prod_unfold Let_def split: sum.splits option.splits)
  have "holds_docs (ie_tantivy ie) x (mapping_schema ie mp) []"
    using open_fresh [OF _ f' x(1)] e by (simp add: env_ok_def tantivy_laws_def)
  then show ?thesis using e m x(2) by (simp add: represents_def serves_def holds_docs_def)
qed

text \<open>A document with a new field starts the index of its collection anew.\<close>

lemma first_document:
  assumes e: "env_ok ie" and f: "fresh_start c im" and i: "ci_index_document ie now c d mapping im = (im1, Inr mp)"
    and new: "\<not> conforms mapping d" and m: "mapping_ok mp"
  shows "represents ie mp c im1 ([searchable d], [])"
proof -
  obtain nf where nf: "detect_fields (ie_doc_fields ie (doc_fields d)) mapping [] = Inr (mp, nf)"
    using i by (auto simp: ci_index_document_def split: prod.splits sum.splits)
  have set: "set (ie_doc_fields ie (doc_fields d)) = {(n, v). fmlookup (doc_fields d) n = Some v}"
    using e hash_iter_set by (auto simp: env_ok_def)
  have c: "conforms mp d" and "nf \<noteq> []" using detect_fields_spec [OF nf] new set by (auto simp: conforms_def)
  then obtain im0 where r: "rebuild_schema ie c mp im = (im0, Inr ())" and a: "add_to_index ie now c d im0 = (im1, Inr ())"
    using i nf by (auto simp: ci_index_document_def split: prod.splits sum.splits)
  have "ix_step ie mp c (IxIndex now d) im0 = (im1, True)"
    using a detect_conforms [OF e c] by (simp add: ci_index_document_def is_ok_def)
  from ix_step_represents [OF rebuild_fresh [OF e m f r] _ this] c show ?thesis by simp
qed

section \<open>A concrete environment\<close>

definition list_env :: "(list_index, tv_schema \<times> tv_document list) index_env" where
  "list_env = \<lparr>ie_tantivy = list_tantivy, ie_doc_fields = btree_iter, ie_field_map = btree_iter, ie_mapping = btree_iter,
     ie_create_dir_all = (\<lambda>_. None)\<rparr>"

lemma env_ok_list_env: "env_ok list_env"
  by (simp add: env_ok_def list_env_def list_tantivy_laws hash_iter_btree_iter)

definition text_doc :: "string \<Rightarrow> string \<Rightarrow> document" where
  "text_doc i t = with_field (doc_new (DocumentId i)) ''t'' (Text t)"

definition text_mapping :: field_mapping where
  "text_mapping = \<lparr>fm_fields = fmupd ''t'' MappedText fmempty\<rparr>"

lemma text_doc_conforms: "conforms text_mapping (text_doc i t)" "\<not> conforms field_mapping_new (text_doc i t)"
  by (auto simp: conforms_def text_doc_def with_field_def doc_new_def text_mapping_def get_field_type_def field_mapping_new_def
      split: if_splits)

lemma mapping_ok_text: "mapping_ok text_mapping"
  by (simp add: mapping_ok_def text_mapping_def RESERVED_def fm_len_def fcard.rep_eq)

section \<open>Properties\<close>

text \<open>
  C4. A collection whose index starts with a first document, used with documents that fit the
  mapping: after any sequence of indexing, deleting and committing that succeeds, a search for an
  identifier returns exactly the published documents with this identifier (all versions that were
  indexed and not deleted), at most ten, each without its version, without fields whose name
  starts with an underscore and with arrays cut to their first text.
\<close>

theorem collection_index_refines_spec:
  fixes ie :: "('x, 'd) index_env"
  assumes env: "env_ok ie" and fresh: "fresh_start c im"
    and first: "ci_index_document ie now c d mapping im = (im1, Inr mp)" "\<not> conforms mapping d" "mapping_ok mp"
    and run: "list_all (ix_ok mp) ops" "run_ops (ix_step ie mp c) ops im1 = Some im2"
    and search: "ci_search ie took c (Term \<lparr>tq_field = ''_id'', tq_value = i\<rparr>) im2 = Inr r" "length i \<le> MAX_TERM_LEN"
  shows "let published = snd (fold spec_ix ops ([searchable d], []));
             wanted = filter (\<lambda>d. as_str (doc_id d) = i) published in
         mset (map sd_document (sr_documents r)) \<subseteq># mset wanted \<and>
         length (sr_documents r) = min 10 (length wanted) \<and> sr_total r = word_of_nat (length (sr_documents r))"
proof -
  obtain staged v where a: "fold spec_ix ops ([searchable d], []) = (staged, v)" by (cases "fold spec_ix ops ([searchable d], [])")
  have "represents ie mp c im2 (staged, v)"
    using index_sim.sim_run [OF first_document [OF env fresh first(1,2,3)] run] a by simp
  then obtain ci where ci: "fmlookup (im_collections im2) c = Some ci" and s: "serves ie mp ci (staged, v)" by (auto simp: represents_def)
  have fm: "ci_field_map ci = mapping_field_map ie mp" using s by (simp add: serves_def)
  obtain f where f: "fmlookup (mapping_field_map ie mp) ''_id'' = Some f"
    using field_map_reserved [OF env_ok_schema [OF env first(3)] in_RESERVED(1)] by blast
  obtain ds where h: "search_hits ie ci (TantivyTerm f i) DEFAULT_SEARCH_LIMIT = Inr ds"
    and r: "sr_documents r = map (\<lambda>(s, d). \<lparr>sd_document = d, sd_score = s, sd_sort = []\<rparr>) ds" "sr_total r = word_of_nat (length ds)"
    using search(1) ci fm f by (auto simp: ci_search_def ci_translate_def translate_term_def split: sum.splits)
  have docs: "map sd_document (sr_documents r) = map snd ds" by (simp add: r(1) case_prod_unfold o_def)
  have "mset (map snd ds) \<subseteq># mset (filter (\<lambda>d. as_str (doc_id d) = i) v) \<and>
      length ds = min DEFAULT_SEARCH_LIMIT (length (filter (\<lambda>d. as_str (doc_id d) = i) v))"
    by (rule search_hits_serves [OF env first(3) s _ h])
      (simp_all add: DEFAULT_SEARCH_LIMIT_def id_term_matches [OF env first(3) _ search(2) f])
  then show ?thesis unfolding a Let_def docs by (simp add: r DEFAULT_SEARCH_LIMIT_def)
qed

theorem collection_index_refines_spec_witness:
  "\<exists>im1 im2 r. ci_index_document list_env 0 ''c'' (text_doc ''a'' ''x'') field_mapping_new index_manager_new_in_ram = (im1, Inr text_mapping) \<and>
     run_ops (ix_step list_env text_mapping ''c'') [IxIndex 0 (text_doc ''a'' ''y''), IxCommit] im1 = Some im2 \<and>
     ci_search list_env 0 ''c'' (Term \<lparr>tq_field = ''_id'', tq_value = ''a''\<rparr>) im2 = Inr r \<and> length (sr_documents r) = 2"
proof -
  let ?p = "ci_index_document list_env 0 ''c'' (text_doc ''a'' ''x'') field_mapping_new index_manager_new_in_ram"
  let ?ops = "[IxIndex 0 (text_doc ''a'' ''y''), IxCommit]" and ?q = "Term \<lparr>tq_field = ''_id'', tq_value = ''a''\<rparr>"
  have 1: "?p = (fst ?p, Inr text_mapping)" by (rule prod_eqI, simp) code_simp
  have "run_ops (ix_step list_env text_mapping ''c'') ?ops (fst ?p) \<noteq> None" by code_simp
  then obtain im2 where 2: "run_ops (ix_step list_env text_mapping ''c'') ?ops (fst ?p) = Some im2" by blast
  have "is_ok (ci_search list_env 0 ''c'' ?q (the (run_ops (ix_step list_env text_mapping ''c'') ?ops (fst ?p))))" by code_simp
  then obtain r where 3: "ci_search list_env 0 ''c'' ?q im2 = Inr r" using 2 by (auto simp: is_ok_def split: sum.splits)
  have "list_all (ix_ok text_mapping) ?ops" by (simp add: text_doc_conforms)
  from collection_index_refines_spec [OF env_ok_list_env _ 1 text_doc_conforms(2) mapping_ok_text this 2 3]
  have "length (sr_documents r) = 2"
    by (simp add: fresh_start_def index_manager_new_in_ram_def MAX_TERM_LEN_def text_doc_def doc_new_def Let_def)
  with 1 2 3 show ?thesis by blast
qed

lemma new_field_on_disk_lost:
  assumes laws: "open_laws (ie_tantivy ie)" and it: "hash_iter (ie_doc_fields ie)"
    and disk: "im_base_path im = Some base" and "open": "fmlookup (im_collections im) c = Some ci"
    and new: "\<not> conforms mapping d" and no_conflict: "compatible mapping d"
  shows "\<exists>im' e. ci_index_document ie now c d mapping im = (im', Inl (IndexError e)) \<and> fmlookup (im_collections im') c = None"
proof -
  obtain m' nf' where d: "detect_fields (ie_doc_fields ie (doc_fields d)) mapping [] = Inr (m', nf')" "nf' \<noteq> []"
    using detect_compatible [OF it no_conflict new] by blast
  let ?im = "remove_index ie c im" and ?b = "build_schema_from_mapping ie m' True"
  have im: "im_base_path ?im = Some base" "fmlookup (im_collections ?im) c = None"
    using disk "open" by (simp_all add: remove_index_def close_index_def)
  have "\<forall>x. \<exists>e. tv_writer (ie_tantivy ie) True x = Some e" using laws by (simp add: open_laws_def)
  then obtain busy where "\<And>x. tv_writer (ie_tantivy ie) True x = Some (busy x)" by metis
  then have "\<exists>im' e. open_index ie True c (fst ?b) (snd ?b) ?im = (im', Inl (IndexError e)) \<and> im_collections im' = im_collections ?im"
    using im by (auto simp: open_index_def open_or_create_def close_index_def Let_def split: sum.splits option.splits)
  then obtain im' e where r: "rebuild_schema ie c m' im = (im', Inl (IndexError e))" "im_collections im' = im_collections ?im"
    using disk "open" by (auto simp: rebuild_schema_def insert_opened_def case_prod_unfold)
  moreover have "ci_index_document ie now c d mapping im = (im', Inl (IndexError e))"
    using d r(1) by (simp add: ci_index_document_def)
  ultimately show ?thesis using im(2) by auto
qed

text \<open>
  On disk, a document with a field that is new in the mapping it is indexed with cannot be
  indexed while the index of its collection is open: the old writer still holds the directory, so
  the call fails, and the index of the collection is gone from the registry. Searches, deletions
  and commits then answer that the collection index is not found, whatever was indexed before.
\<close>

theorem new_field_on_disk_drops_index:
  assumes laws: "open_laws (ie_tantivy ie)" and it: "hash_iter (ie_doc_fields ie)"
    and disk: "im_base_path im = Some base" and "open": "fmlookup (im_collections im) c = Some ci"
    and new: "\<not> conforms mapping d" and no_conflict: "compatible mapping d"
  shows "\<exists>im' e. ci_index_document ie now c d mapping im = (im', Inl (IndexError e)) \<and>
    ci_search ie took c q im' = Inl (index_not_found c) \<and> ci_commit ie c im' = (im', Inl (index_not_found c)) \<and>
    ci_delete_document ie c i im' = (im', Inl (index_not_found c))"
proof -
  obtain im' e where "ci_index_document ie now c d mapping im = (im', Inl (IndexError e))" "fmlookup (im_collections im') c = None"
    using new_field_on_disk_lost [OF assms] by blast
  then show ?thesis by (simp add: ci_search_def ci_commit_def ci_delete_document_def)
qed

definition disk_manager :: "(list_index, tv_schema \<times> tv_document list) index_manager" where
  "disk_manager = fst (ci_create_collection list_env ''c'' (index_manager_new ''/data'' fmempty))"

theorem new_field_on_disk_drops_index_witness:
  "\<exists>im' e. ci_index_document list_env 0 ''c'' (text_doc ''a'' ''x'') field_mapping_new disk_manager = (im', Inl (IndexError e)) \<and>
     ci_search list_env 0 ''c'' (Term \<lparr>tq_field = ''_id'', tq_value = ''a''\<rparr>) im' = Inl (index_not_found ''c'') \<and>
     ci_commit list_env ''c'' im' = (im', Inl (index_not_found ''c'')) \<and>
     ci_delete_document list_env ''c'' (DocumentId ''a'') im' = (im', Inl (index_not_found ''c''))"
proof -
  have "open_laws (ie_tantivy list_env)" using list_tantivy_laws by (simp add: list_env_def tantivy_laws_def)
  moreover have "im_base_path disk_manager = Some ''/data''" by code_simp
  moreover have "fmlookup (im_collections disk_manager) ''c'' \<noteq> None" by code_simp
  then obtain ci where "fmlookup (im_collections disk_manager) ''c'' = Some ci" by blast
  moreover have "compatible field_mapping_new (text_doc ''a'' ''x'')"
    by (simp add: compatible_def field_mapping_new_def get_field_type_def)
  ultimately show ?thesis
    by (intro new_field_on_disk_drops_index) (simp_all add: list_env_def hash_iter_btree_iter text_doc_conforms)
qed

end

