(* ===== verification/Index_Query.thy ===== *)
theory Index_Query
  imports Collection_Index
begin

text \<open>
  Queries on their way to the index: the fluent builder of
  \<^verbatim>\<open>crates/index/src/query_builder.rs\<close>, the notation for fuzzy words of
  \<^verbatim>\<open>crates/index/src/tantivy_index.rs\<close>, the query text used for highlighting
  (\<^verbatim>\<open>crates/index/src/highlighting.rs\<close>), and what the translation of
  \<open>Collection_Index\<close> means: which documents a translated query selects.
\<close>

section \<open>Query builder\<close>

record query_builder =
  qb_must :: "query list"
  qb_should :: "query list"
  qb_must_not :: "query list"
  qb_boost_factor :: "f32 option"

definition qb_new :: query_builder where
  "qb_new = \<lparr>qb_must = [], qb_should = [], qb_must_not = [], qb_boost_factor = None\<rparr>"

definition add_must :: "query \<Rightarrow> query_builder \<Rightarrow> query_builder" where
  "add_must q b = b\<lparr>qb_must := qb_must b @ [q]\<rparr>"

definition add_should :: "query \<Rightarrow> query_builder \<Rightarrow> query_builder" where
  "add_should q b = b\<lparr>qb_should := qb_should b @ [q]\<rparr>"

definition add_must_not :: "query \<Rightarrow> query_builder \<Rightarrow> query_builder" where
  "add_must_not q b = b\<lparr>qb_must_not := qb_must_not b @ [q]\<rparr>"

definition full_text :: "string \<Rightarrow> string \<Rightarrow> operator \<Rightarrow> query" where
  "full_text field q op = FullText \<lparr>ft_field = field, ft_query = q, ft_operator = op\<rparr>"

definition must_match :: "string \<Rightarrow> string \<Rightarrow> query_builder \<Rightarrow> query_builder" where
  "must_match field t = add_must (full_text field t Or)"

definition must_match_all :: "string \<Rightarrow> string \<Rightarrow> query_builder \<Rightarrow> query_builder" where
  "must_match_all field t = add_must (full_text field t And)"

definition should_match :: "string \<Rightarrow> string \<Rightarrow> query_builder \<Rightarrow> query_builder" where
  "should_match field t = add_should (full_text field t Or)"

definition must_not_match :: "string \<Rightarrow> string \<Rightarrow> query_builder \<Rightarrow> query_builder" where
  "must_not_match field t = add_must_not (full_text field t Or)"

definition must_term :: "string \<Rightarrow> string \<Rightarrow> query_builder \<Rightarrow> query_builder" where
  "must_term field v = add_must (Term \<lparr>tq_field = field, tq_value = v\<rparr>)"

definition should_term :: "string \<Rightarrow> string \<Rightarrow> query_builder \<Rightarrow> query_builder" where
  "should_term field v = add_should (Term \<lparr>tq_field = field, tq_value = v\<rparr>)"

definition must_not_term :: "string \<Rightarrow> string \<Rightarrow> query_builder \<Rightarrow> query_builder" where
  "must_not_term field v = add_must_not (Term \<lparr>tq_field = field, tq_value = v\<rparr>)"

definition must_range :: "string \<Rightarrow> f64 option \<Rightarrow> f64 option \<Rightarrow> query_builder \<Rightarrow> query_builder" where
  "must_range field gte lte = add_must (Range \<lparr>rq_field = field, rq_gte = gte, rq_lte = lte\<rparr>)"

definition should_range :: "string \<Rightarrow> f64 option \<Rightarrow> f64 option \<Rightarrow> query_builder \<Rightarrow> query_builder" where
  "should_range field gte lte = add_should (Range \<lparr>rq_field = field, rq_gte = gte, rq_lte = lte\<rparr>)"

definition boost :: "f32 \<Rightarrow> query_builder \<Rightarrow> query_builder" where
  "boost factor b = b\<lparr>qb_boost_factor := Some factor\<rparr>"

definition fuzzy :: "string \<Rightarrow> string \<Rightarrow> u8 \<Rightarrow> query_builder \<Rightarrow> query_builder" where
  "fuzzy field v distance = add_must (full_text field v Or)"

definition phrase :: "string \<Rightarrow> string \<Rightarrow> query_builder \<Rightarrow> query_builder" where
  "phrase field p = add_must (full_text field ([CHR 0x22] @ p @ [CHR 0x22]) And)"

definition wildcard :: "string \<Rightarrow> string \<Rightarrow> query_builder \<Rightarrow> query_builder" where
  "wildcard field pattern = add_must (Term \<lparr>tq_field = field, tq_value = pattern\<rparr>)"

definition qb_build :: "query_builder \<Rightarrow> query" where
  "qb_build b =
     (if length (qb_must b) = 1 \<and> qb_should b = [] \<and> qb_must_not b = [] then hd (qb_must b)
      else Bool (qb_must b) (qb_should b) (qb_must_not b))"

section \<open>Fuzzy words\<close>

text \<open>
  \<^verbatim>\<open>str::split_whitespace\<close>: the length of a white-space character at the front of a
  string of UTF-8 bytes, 0 when there is none, and the words between such characters.
\<close>

definition ws_len :: "string \<Rightarrow> nat" where
  "ws_len s =
     (case map (of_char :: char \<Rightarrow> nat) (take 3 s) of
        a # bs \<Rightarrow>
          if 9 \<le> a \<and> a \<le> 13 \<or> a = 32 then 1
          else (case bs of
              b # cs \<Rightarrow>
                if a = 0xC2 \<and> (b = 0x85 \<or> b = 0xA0) then 2
                else (case cs of
                    [c] \<Rightarrow>
                      if a = 0xE1 \<and> b = 0x9A \<and> c = 0x80 \<or>
                         a = 0xE2 \<and> b = 0x80 \<and> (0x80 \<le> c \<and> c \<le> 0x8A \<or> c = 0xA8 \<or> c = 0xA9 \<or> c = 0xAF) \<or>
                         a = 0xE2 \<and> b = 0x81 \<and> c = 0x9F \<or> a = 0xE3 \<and> b = 0x80 \<and> c = 0x80
                      then 3 else 0
                  | _ \<Rightarrow> 0)
            | [] \<Rightarrow> 0)
      | [] \<Rightarrow> 0)"

function split_ws :: "string \<Rightarrow> string \<Rightarrow> string list" where
  "split_ws [] w = (if w = [] then [] else [w])"
| "split_ws (ch # s) w =
     (if 0 < ws_len (ch # s) then (if w = [] then [] else [w]) @ split_ws (drop (ws_len (ch # s)) (ch # s)) []
      else split_ws s (w @ [ch]))"
  by pat_completeness auto
termination
  by (relation "measure (\<lambda>(s, w). length s)") (auto simp: less_diff_conv)

definition split_whitespace :: "string \<Rightarrow> string list" where
  "split_whitespace s = split_ws s []"

text \<open>\<^verbatim>\<open>word.rfind('~')\<close> and the parts before and after that character.\<close>

definition split_last_tilde :: "string \<Rightarrow> (string \<times> string) option" where
  "split_last_tilde w =
     (if CHR ''~'' \<in> set w
      then let after = rev (takeWhile (\<lambda>c. c \<noteq> CHR ''~'') (rev w)) in Some (take (length w - length after - 1) w, after)
      else None)"

record fuzzy_params =
  clean_query :: string
  fuzzy_distance :: nat

text \<open>The word without its suffix and the distance, when the suffix is \<^verbatim>\<open>~1\<close> or \<^verbatim>\<open>~2\<close>.\<close>

definition fuzzy_word :: "string \<Rightarrow> (string \<times> nat) option" where
  "fuzzy_word w =
     (case split_last_tilde w of
        None \<Rightarrow> None
      | Some (t, rest) \<Rightarrow> (case parse_uint 8 rest of
            None \<Rightarrow> None
          | Some d \<Rightarrow> if 1 \<le> d \<and> d \<le> 2 then Some (t, d) else None))"

fun fuzzy_loop :: "string list \<Rightarrow> nat option \<Rightarrow> string list \<Rightarrow> bool \<Rightarrow> nat option \<times> string list \<times> bool" where
  "fuzzy_loop [] distance clean_parts found = (distance, clean_parts, found)"
| "fuzzy_loop (w # ws) distance clean_parts found =
     (case fuzzy_word w of
        Some (t, d) \<Rightarrow> fuzzy_loop ws (if distance = None then Some d else distance) (clean_parts @ [t]) True
      | None \<Rightarrow> fuzzy_loop ws distance (clean_parts @ [w]) found)"

definition extract_fuzzy_params :: "string \<Rightarrow> fuzzy_params option" where
  "extract_fuzzy_params q =
     (if CHR ''~'' \<notin> set q then None
      else case fuzzy_loop (split_whitespace q) None [] False of
        (distance, clean_parts, found) \<Rightarrow>
          if found then Some \<lparr>clean_query = join_spaces clean_parts,
              fuzzy_distance = (case distance of None \<Rightarrow> 1 | Some d \<Rightarrow> d)\<rparr>
          else None)"

section \<open>Highlighting\<close>

text \<open>The text of a query that concerns a field; clauses that exclude are left out.\<close>

fun extract_query_text :: "string \<Rightarrow> query \<Rightarrow> string" where
  "extract_query_text field (FullText ftq) = (if ft_field ftq = field then ft_query ftq else [])"
| "extract_query_text field (Term tq) = (if tq_field tq = field then tq_value tq else [])"
| "extract_query_text field (Bool mu sh mn) =
     join_spaces (filter (\<lambda>t. t \<noteq> []) (map (extract_query_text field) (mu @ sh)))"
| "extract_query_text field (Range rq) = []"

section \<open>What a query selects\<close>

text \<open>
  The meaning of boolean queries, given that of the leaves: all required clauses match, none of
  the excluded ones does, and without required clauses one of the optional ones matches, unless
  there are only excluded ones.
\<close>

fun query_matches :: "(query \<Rightarrow> bool) \<Rightarrow> query \<Rightarrow> bool" where
  "query_matches leaf (Bool mu sh mn) \<longleftrightarrow>
     (\<forall>q \<in> set mu. query_matches leaf q) \<and> (\<forall>q \<in> set mn. \<not> query_matches leaf q) \<and>
     (mu \<noteq> [] \<or> (\<exists>q \<in> set sh. query_matches leaf q) \<or> sh = [] \<and> mn \<noteq> [])"
| "query_matches leaf q = leaf q"


text \<open>The failure of the first element that fails.\<close>

definition first_error :: "('a \<Rightarrow> 'b db_result) \<Rightarrow> 'a list \<Rightarrow> db_error option" where
  "first_error f xs = (case find (\<lambda>x. \<not> is_ok (f x)) xs of None \<Rightarrow> None | Some x \<Rightarrow> Some (projl (f x)))"



lemma first_error_Nil [simp]: "first_error f [] = None"
  by (simp add: first_error_def)





section \<open>What the leaves select\<close>

























section \<open>Properties\<close>





























text \<open>
  The shortcut of the builder for a single required clause does not change what its query selects.
\<close>

theorem builder_build_equivalent:
  "query_matches leaf (qb_build b) \<longleftrightarrow> query_matches leaf (Bool (qb_must b) (qb_should b) (qb_must_not b))"
proof (cases "length (qb_must b) = 1 \<and> qb_should b = [] \<and> qb_must_not b = []")
  case True
  then obtain q where "qb_must b = [q]" by (auto simp: length_Suc_conv)
  with True show ?thesis by (simp add: qb_build_def)
next
  case False
  then show ?thesis unfolding qb_build_def by (simp only: if_False)
qed

lemma split_ws_chars: "w \<in> set (split_ws s v) \<Longrightarrow> set w \<subseteq> set s \<union> set v"
proof (induction s v arbitrary: w rule: split_ws.induct)
  case (2 ch s v)
  have d: "set (drop n (ch # s)) \<subseteq> set (ch # s)" for n by (rule set_drop_subset)
  show ?case
  proof (cases "0 < ws_len (ch # s)")
    case True
    then show ?thesis using 2(1) [OF True, of w] 2(3) d [of "ws_len (ch # s)"] by (auto split: if_splits)
  next
    case False
    then show ?thesis using 2(2) [OF False, of w] 2(3) by auto
  qed
qed (auto split: if_splits)

lemma fuzzy_word_tilde: "fuzzy_word w = Some p \<Longrightarrow> CHR ''~'' \<in> set w"
  by (auto simp: fuzzy_word_def split_last_tilde_def split: option.splits if_splits)

lemma fuzzy_loop_exact:
  "fuzzy_loop ws dist parts found =
     (let ds = List.map_filter (\<lambda>w. map_option snd (fuzzy_word w)) ws in
      (if dist = None then (case ds of [] \<Rightarrow> None | d # _ \<Rightarrow> Some d) else dist,
       parts @ map (\<lambda>w. case fuzzy_word w of None \<Rightarrow> w | Some (t, d) \<Rightarrow> t) ws, found \<or> ds \<noteq> []))"
  by (induction ws arbitrary: dist parts found) (auto simp: map_filter_simps split: option.splits list.splits)

text \<open>
  The fuzzy notation: it is recognised exactly when some word ends in \<^verbatim>\<open>~1\<close> or
  \<^verbatim>\<open>~2\<close>; the distance is that of the first such word, and the suffixes are removed.
\<close>

theorem extract_fuzzy_exact:
  "extract_fuzzy_params q =
     (let ws = split_whitespace q in
      case List.map_filter (\<lambda>w. map_option snd (fuzzy_word w)) ws of
        [] \<Rightarrow> None
      | d # ds \<Rightarrow> Some \<lparr>clean_query = join_spaces (map (\<lambda>w. case fuzzy_word w of None \<Rightarrow> w | Some (t, d) \<Rightarrow> t) ws), fuzzy_distance = d\<rparr>)"
proof (cases "CHR ''~'' \<in> set q")
  case True
  then show ?thesis
    by (simp add: extract_fuzzy_params_def fuzzy_loop_exact Let_def split: list.split)
next
  case False
  then have "fuzzy_word w = None" if "w \<in> set (split_whitespace q)" for w
    using split_ws_chars [of w q "[]"] that fuzzy_word_tilde by (cases "fuzzy_word w") (fastforce simp: split_whitespace_def)+
  then have "List.map_filter (\<lambda>w. map_option snd (fuzzy_word w)) (split_whitespace q) = []"
    by (auto simp: List.map_filter_def filter_empty_conv)
  then show ?thesis using False by (simp add: extract_fuzzy_params_def)
qed

end
