(* ===== verification/Tantivy_Index.thy ===== *)
theory Tantivy_Index
  imports Index_Query
begin

text \<open>
  The node-wide index with its manager of collection indices,
  \<^verbatim>\<open>crates/index/src/tantivy_index.rs\<close>, its schema builder
  (\<^verbatim>\<open>crates/index/src/schema_builder.rs\<close>), highlighting
  (\<^verbatim>\<open>crates/index/src/highlighting.rs\<close>), and the index as the backend of the replicated state
  machine of \<open>State_Machine\<close>. Work that the code moves to a blocking thread is done at once.
\<close>

section \<open>Schema configuration\<close>

datatype field_type = FieldText | FieldNumber | FieldBoolean

record field_config =
  fc_name :: string
  fc_field_type :: field_type
  fc_stored :: bool
  fc_indexed :: bool

definition fc_new :: "string \<Rightarrow> field_type \<Rightarrow> field_config" where
  "fc_new name ft = \<lparr>fc_name = name, fc_field_type = ft, fc_stored = True, fc_indexed = True\<rparr>"

definition with_stored :: "bool \<Rightarrow> field_config \<Rightarrow> field_config" where
  "with_stored b fc = fc\<lparr>fc_stored := b\<rparr>"

definition with_indexed :: "bool \<Rightarrow> field_config \<Rightarrow> field_config" where
  "with_indexed b fc = fc\<lparr>fc_indexed := b\<rparr>"

record schema_config =
  sc_fields :: "field_config list"

definition schema_config_new :: schema_config where
  "schema_config_new = \<lparr>sc_fields = []\<rparr>"

definition sc_with_field :: "field_config \<Rightarrow> schema_config \<Rightarrow> schema_config" where
  "sc_with_field fc sc = sc\<lparr>sc_fields := sc_fields sc @ [fc]\<rparr>"

definition config_opts :: "field_config \<Rightarrow> field_opts" where
  "config_opts fc = (case fc_field_type fc of
      FieldText \<Rightarrow> TextField (fc_stored fc) (if fc_indexed fc then Some ''default'' else None)
    | FieldNumber \<Rightarrow> F64Field (fc_stored fc) True (fc_indexed fc)
    | FieldBoolean \<Rightarrow> U64Field (fc_stored fc) True (fc_indexed fc))"

definition schema_build :: "('x, 'd) tantivy \<Rightarrow> schema_config \<Rightarrow> tv_schema \<times> (string, tv_field) fmap" where
  "schema_build tv config =
     fold (\<lambda>fc. add_schema_field tv (fc_name fc) (config_opts fc)) (sc_fields config)
       (fold (\<lambda>(name, fo). add_schema_field tv name fo) (meta_fields False) ([], fmempty))"

definition schema_build_default :: "('x, 'd) tantivy \<Rightarrow> tv_schema \<times> (string, tv_field) fmap" where
  "schema_build_default tv = schema_build tv (sc_with_field (fc_new ''_body'' FieldText) schema_config_new)"

section \<open>The index\<close>

record ('x, 'd) tantivy_index =
  ti_index :: 'x
  ti_schema :: tv_schema
  ti_field_map :: "(string, tv_field) fmap"
  ti_collections :: "('x, 'd) index_manager"

definition ti_opened ::
    "('x, 'd) index_env \<Rightarrow> tv_schema \<times> (string, tv_field) fmap \<Rightarrow> ('x, 'd) index_manager \<Rightarrow> 'x \<Rightarrow> ('x, 'd) tantivy_index db_result" where
  "ti_opened ie b im x =
     (case tv_writer (ie_tantivy ie) False x of
        Some e \<Rightarrow> Inl (IndexError (''failed to create index writer: '' @ e))
      | None \<Rightarrow> (case tv_reader (ie_tantivy ie) x of
            Some e \<Rightarrow> Inl (IndexError (''failed to create index reader: '' @ e))
          | None \<Rightarrow> Inr \<lparr>ti_index = x, ti_schema = fst b, ti_field_map = snd b, ti_collections = im\<rparr>))"

text \<open>\<open>dirs\<close> is what the directories hold at the start, that of the node-wide index and those of collections.\<close>

definition ti_new ::
    "('x, 'd) index_env \<Rightarrow> string \<Rightarrow> schema_config \<Rightarrow> (string, 'd) fmap \<Rightarrow> ('x, 'd) tantivy_index db_result" where
  "ti_new ie path config dirs =
     (let b = schema_build (ie_tantivy ie) config; im = index_manager_new (path @ ''/collections'') dirs in
      case ie_create_dir_all ie path of
        Some e \<Rightarrow> Inl (IndexError (''failed to create index directory: '' @ e))
      | None \<Rightarrow> (case tv_create_in_dir (ie_tantivy ie) (fst b) (fmlookup dirs path) of
            Inr x \<Rightarrow> ti_opened ie b im x
          | Inl _ \<Rightarrow> (case tv_open_in_dir (ie_tantivy ie) (fmlookup dirs path) of
                Inl e \<Rightarrow> Inl (IndexError (''failed to open index: '' @ e))
              | Inr x \<Rightarrow> ti_opened ie b im x)))"

definition ti_new_in_ram :: "('x, 'd) index_env \<Rightarrow> schema_config \<Rightarrow> ('x, 'd) tantivy_index db_result" where
  "ti_new_in_ram ie config =
     (let b = schema_build (ie_tantivy ie) config in
      ti_opened ie b index_manager_new_in_ram (tv_create_in_ram (ie_tantivy ie) (fst b)))"

definition to_tantivy_doc :: "('x, 'd) index_env \<Rightarrow> u64 \<Rightarrow> ('x, 'd) tantivy_index \<Rightarrow> document \<Rightarrow> tv_document" where
  "to_tantivy_doc ie now ti doc = build_tantivy_doc ie now doc (ti_field_map ti)"

fun opt_indexed :: "field_opts \<Rightarrow> bool" where
  "opt_indexed (TextField st tok) = (tok \<noteq> None)"
| "opt_indexed (F64Field st fast ix) = ix"
| "opt_indexed (U64Field st fast ix) = ix"

text \<open>Fields that are neither indexed nor stored are skipped; \<^verbatim>\<open>_id\<close> is the identifier.\<close>

definition ti_reconstruct_document :: "('x, 'd) index_env \<Rightarrow> ('x, 'd) tantivy_index \<Rightarrow> tv_document \<Rightarrow> document" where
  "ti_reconstruct_document ie ti td =
     \<lparr>doc_id = DocumentId (case fmlookup (ti_field_map ti) ''_id'' of
         None \<Rightarrow> []
       | Some f \<Rightarrow> (case get_first td f of Some (TvStr s) \<Rightarrow> s | _ \<Rightarrow> [])),
      doc_fields = reconstruct_fields td
        (filter (\<lambda>(name, f). prefix ''_'' name \<or>
           (let fo = snd (ti_schema ti ! unat f) in opt_indexed fo \<or> opt_stored fo)) (ie_field_map ie (ti_field_map ti))) fmempty,
      doc_version = vc_new\<rparr>"

definition index_document_sync ::
    "('x, 'd) index_env \<Rightarrow> u64 \<Rightarrow> document \<Rightarrow> ('x, 'd) tantivy_index \<Rightarrow> ('x, 'd) tantivy_index \<times> unit db_result" where
  "index_document_sync ie now doc ti =
     (case tv_add_document (ie_tantivy ie) (to_tantivy_doc ie now ti doc) (ti_index ti) of
        (x, Inl e) \<Rightarrow> (ti\<lparr>ti_index := x\<rparr>, Inl (IndexError (''failed to index document: '' @ e)))
      | (x, Inr _) \<Rightarrow> (ti\<lparr>ti_index := x\<rparr>, Inr ()))"

definition ti_commit :: "('x, 'd) index_env \<Rightarrow> ('x, 'd) tantivy_index \<Rightarrow> ('x, 'd) tantivy_index \<times> u64 db_result" where
  "ti_commit ie ti =
     (case tv_commit (ie_tantivy ie) (ti_index ti) of
        (x, Inl e) \<Rightarrow> (ti\<lparr>ti_index := x\<rparr>, Inl (IndexError (''commit failed: '' @ e)))
      | (x, Inr opstamp) \<Rightarrow> (case tv_reload (ie_tantivy ie) x of
            (y, Inl e) \<Rightarrow> (ti\<lparr>ti_index := y\<rparr>, Inl (IndexError (''reader reload failed: '' @ e)))
          | (y, Inr _) \<Rightarrow> (ti\<lparr>ti_index := y\<rparr>, Inr opstamp)))"

definition delete_document_sync ::
    "('x, 'd) index_env \<Rightarrow> document_id \<Rightarrow> ('x, 'd) tantivy_index \<Rightarrow> ('x, 'd) tantivy_index \<times> unit db_result" where
  "delete_document_sync ie i ti =
     (case fmlookup (ti_field_map ti) ''_id'' of
        None \<Rightarrow> (ti, Inl (IndexError ''_id field not in schema''))
      | Some f \<Rightarrow> (ti\<lparr>ti_index := tv_delete_term (ie_tantivy ie) f (as_str i) (ti_index ti)\<rparr>, Inr ()))"

definition update_document_sync ::
    "('x, 'd) index_env \<Rightarrow> u64 \<Rightarrow> document \<Rightarrow> ('x, 'd) tantivy_index \<Rightarrow> ('x, 'd) tantivy_index \<times> unit db_result" where
  "update_document_sync ie now doc ti =
     (case delete_document_sync ie (doc_id doc) ti of
        (ti1, Inl e) \<Rightarrow> (ti1, Inl e)
      | (ti1, Inr _) \<Rightarrow> index_document_sync ie now doc ti1)"

section \<open>Searching\<close>

definition ti_translate_full_text ::
    "('x, 'd) index_env \<Rightarrow> ('x, 'd) tantivy_index \<Rightarrow> full_text_query \<Rightarrow> tv_query db_result" where
  "ti_translate_full_text ie ti ftq =
     (case fmlookup (ti_field_map ti) (ft_field ftq) of
        None \<Rightarrow> Inl (not_in_schema (ft_field ftq))
      | Some f \<Rightarrow>
          (let conj = (ft_operator ftq = And);
               (fz, query_text) = (case extract_fuzzy_params (ft_query ftq) of
                   Some caps \<Rightarrow> (Some (False, word_of_nat (fuzzy_distance caps), True), clean_query caps)
                 | None \<Rightarrow> (None, ft_query ftq));
               ps = \<lparr>ps_field = f, ps_conjunction = conj, ps_fuzzy = fz\<rparr> in
           case tv_parse (ie_tantivy ie) (ti_index ti) ps query_text of
             Some e \<Rightarrow> Inl (IndexError (''failed to parse full-text query: '' @ e))
           | None \<Rightarrow> Inr (ParsedQuery ps query_text)))"

definition ti_translate_query :: "('x, 'd) index_env \<Rightarrow> ('x, 'd) tantivy_index \<Rightarrow> query \<Rightarrow> tv_query db_result" where
  "ti_translate_query ie ti = translate_query (ti_translate_full_text ie ti) (ti_field_map ti)"

fun ti_retrieve ::
    "('x, 'd) index_env \<Rightarrow> ('x, 'd) tantivy_index \<Rightarrow> (f32 \<times> nat) list \<Rightarrow> scored_document list db_result" where
  "ti_retrieve ie ti [] = Inr []"
| "ti_retrieve ie ti ((score, addr) # hits) =
     (case tv_doc (ie_tantivy ie) (ti_index ti) addr of
        Inl e \<Rightarrow> Inl (IndexError (''failed to retrieve document: '' @ e))
      | Inr td \<Rightarrow> (case ti_retrieve ie ti hits of
            Inl e \<Rightarrow> Inl e
          | Inr ds \<Rightarrow> Inr (\<lparr>sd_document = ti_reconstruct_document ie ti td, sd_score = score, sd_sort = []\<rparr> # ds)))"

definition search_sync ::
    "('x, 'd) index_env \<Rightarrow> u64 \<Rightarrow> query \<Rightarrow> nat \<Rightarrow> ('x, 'd) tantivy_index \<Rightarrow> search_result db_result" where
  "search_sync ie took q limit ti =
     (case ti_translate_query ie ti q of
        Inl e \<Rightarrow> Inl e
      | Inr tq \<Rightarrow> (case tv_search (ie_tantivy ie) (ti_index ti) tq limit of
            Inl e \<Rightarrow> Inl (IndexError (''search failed: '' @ e))
          | Inr top_docs \<Rightarrow> (case ti_retrieve ie ti top_docs of
                Inl e \<Rightarrow> Inl e
              | Inr ds \<Rightarrow> Inr \<lparr>sr_documents = ds, sr_total = word_of_nat (length top_docs), sr_took_ms = took, sr_aggregations = fmempty\<rparr>)))"

section \<open>The index as a backend\<close>

definition ti_index_document ::
    "('x, 'd) index_env \<Rightarrow> u64 \<Rightarrow> document \<Rightarrow> ('x, 'd) tantivy_index \<Rightarrow> ('x, 'd) tantivy_index \<times> unit db_result" where
  "ti_index_document ie now doc ti =
     (case tv_add_document (ie_tantivy ie) (build_tantivy_doc ie now doc (ti_field_map ti)) (ti_index ti) of
        (x, Inl e) \<Rightarrow> (ti\<lparr>ti_index := x\<rparr>, Inl (IndexError (''index document: '' @ e)))
      | (x, Inr _) \<Rightarrow> (ti\<lparr>ti_index := x\<rparr>, Inr ()))"

definition ti_search :: "('x, 'd) index_env \<Rightarrow> u64 \<Rightarrow> query \<Rightarrow> ('x, 'd) tantivy_index \<Rightarrow> search_result db_result" where
  "ti_search ie took q = search_sync ie took q DEFAULT_SEARCH_LIMIT"

definition ti_commit_index :: "('x, 'd) index_env \<Rightarrow> ('x, 'd) tantivy_index \<Rightarrow> ('x, 'd) tantivy_index \<times> unit db_result" where
  "ti_commit_index ie ti =
     (case tv_commit (ie_tantivy ie) (ti_index ti) of
        (x, Inl e) \<Rightarrow> (ti\<lparr>ti_index := x\<rparr>, Inl (IndexError (''commit failed: '' @ e)))
      | (x, Inr _) \<Rightarrow> (case tv_reload (ie_tantivy ie) x of
            (y, Inl e) \<Rightarrow> (ti\<lparr>ti_index := y\<rparr>, Inl (IndexError (''reader reload: '' @ e)))
          | (y, Inr _) \<Rightarrow> (ti\<lparr>ti_index := y\<rparr>, Inr ())))"

definition on_collections ::
    "(('x, 'd) index_manager \<Rightarrow> ('x, 'd) index_manager \<times> 'a) \<Rightarrow> ('x, 'd) tantivy_index \<Rightarrow> ('x, 'd) tantivy_index \<times> 'a" where
  "on_collections f ti = (case f (ti_collections ti) of (im, r) \<Rightarrow> (ti\<lparr>ti_collections := im\<rparr>, r))"

definition tantivy_backend :: "('x, 'd) index_env \<Rightarrow> u64 \<Rightarrow> ('x, 'd) tantivy_index index_ops" where
  "tantivy_backend ie now = \<lparr>
     ix_index_document = ti_index_document ie now,
     ix_create_collection_index = (\<lambda>c. on_collections (ci_create_collection ie c)),
     ix_drop_collection_index = (\<lambda>c. on_collections (ci_drop_collection ie c)),
     ix_index_document_in_collection = (\<lambda>c doc mapping. on_collections (ci_index_document ie now c doc mapping)),
     ix_delete_document_from_collection = (\<lambda>c i. on_collections (ci_delete_document ie c i)),
     ix_commit_collection_index = (\<lambda>c. on_collections (ci_commit ie c))\<rparr>"

section \<open>Highlighting\<close>

record highlight_config =
  pre_tag :: string
  post_tag :: string
  max_fragments :: nat
  fragment_size :: nat

definition highlight_config_default :: highlight_config where
  "highlight_config_default = \<lparr>pre_tag = ''<em>'', post_tag = ''</em>'', max_fragments = 3, fragment_size = 150\<rparr>"

record highlight_result =
  hr_field :: string
  hr_fragments :: "string list"

text \<open>\<^verbatim>\<open>s.replace(pat, rep)\<close> for a non-empty pattern.\<close>

function str_replace :: "string \<Rightarrow> string \<Rightarrow> string \<Rightarrow> string" where
  "str_replace pat rep [] = []"
| "str_replace pat rep (ch # s) =
     (if pat \<noteq> [] \<and> prefix pat (ch # s) then rep @ str_replace pat rep (drop (length pat) (ch # s))
      else ch # str_replace pat rep s)"
  by pat_completeness auto
termination
  by (relation "measure (\<lambda>(pat, rep, s). length s)") (auto simp: less_diff_conv)

text \<open>
  \<open>snippet\<close> is the snippet generator of the library: the HTML of the best fragment of a text for a
  query on a field, of at most the given number of characters.
\<close>

definition highlight_field ::
    "('x, 'd) index_env \<Rightarrow> ('x \<Rightarrow> tv_query \<Rightarrow> tv_field \<Rightarrow> nat \<Rightarrow> string \<Rightarrow> string + string) \<Rightarrow> ('x, 'd) tantivy_index \<Rightarrow>
     document \<Rightarrow> query \<Rightarrow> string \<Rightarrow> highlight_config \<Rightarrow> string list db_result" where
  "highlight_field ie snippet ti doc q field config =
     (case get_field doc field of
        Some (Text t) \<Rightarrow> (case fmlookup (ti_field_map ti) field of
            None \<Rightarrow> Inr []
          | Some f \<Rightarrow>
              (let query_text = extract_query_text field q;
                   ps = \<lparr>ps_field = f, ps_conjunction = False, ps_fuzzy = None\<rparr> in
               if query_text = [] then Inr []
               else case tv_parse (ie_tantivy ie) (ti_index ti) ps query_text of
                 Some e \<Rightarrow> Inl (IndexError (''failed to parse highlight query: '' @ e))
               | None \<Rightarrow> (case tv_reader (ie_tantivy ie) (ti_index ti) of
                     Some e \<Rightarrow> Inl (IndexError (''reader: '' @ e))
                   | None \<Rightarrow> (case snippet (ti_index ti) (ParsedQuery ps query_text) f (fragment_size config) t of
                         Inl e \<Rightarrow> Inl (IndexError (''snippet generator: '' @ e))
                       | Inr html \<Rightarrow>
                           (let highlighted = str_replace ''</b>'' (post_tag config) (str_replace ''<b>'' (pre_tag config) html) in
                            Inr (if highlighted = [] then [] else [highlighted]))))))
      | _ \<Rightarrow> Inr [])"

definition highlight ::
    "('x, 'd) index_env \<Rightarrow> ('x \<Rightarrow> tv_query \<Rightarrow> tv_field \<Rightarrow> nat \<Rightarrow> string \<Rightarrow> string + string) \<Rightarrow> ('x, 'd) tantivy_index \<Rightarrow>
     document \<Rightarrow> query \<Rightarrow> string list \<Rightarrow> highlight_config \<Rightarrow> highlight_result list" where
  "highlight ie snippet ti doc q names config =
     map (\<lambda>field. \<lparr>hr_field = field,
       hr_fragments = (case highlight_field ie snippet ti doc q field config of Inl _ \<Rightarrow> [] | Inr fs \<Rightarrow> fs)\<rparr>) names"

section \<open>Lemmas\<close>

lemma highlight_at_most_one:
  "highlight_field ie snippet ti doc q field config = Inr fs \<Longrightarrow> length fs \<le> 1"
  by (auto simp: highlight_field_def Let_def split: option.splits field_value.splits sum.splits if_splits)

lemma conforms_new: "conforms field_mapping_new d \<longleftrightarrow> doc_fields d = fmempty"
proof
  assume "conforms field_mapping_new d"
  then have "fmlookup (doc_fields d) n = None" for n
    by (cases "fmlookup (doc_fields d) n") (auto simp: conforms_def field_mapping_new_def get_field_type_def)
  then show "doc_fields d = fmempty" by (intro fmap_ext) simp
qed (simp add: conforms_def)

lemma compatible_new: "compatible field_mapping_new d"
  by (simp add: compatible_def field_mapping_new_def get_field_type_def)

lemma batch_loop_append:
  "batch_loop st ix c (ds @ es) s i n = (case batch_loop st ix c ds s i n of (s1, i1, n1) \<Rightarrow> batch_loop st ix c es s1 i1 n1)"
  by (induction ds arbitrary: s i n) (auto split: prod.splits sum.splits)

text \<open>No operation of the manager moves its indices between disk and memory.\<close>

lemma remove_index_base [simp]: "im_base_path (remove_index ie c im) = im_base_path im"
  by (simp add: remove_index_def close_index_def split: option.split)

lemma open_index_base: "im_base_path (fst (open_index ie live c sc fm im)) = im_base_path im"
  by (simp add: open_index_def close_index_def split: sum.split option.split)

lemma rebuild_schema_base: "im_base_path (fst (rebuild_schema ie c m im)) = im_base_path im"
  by (simp add: rebuild_schema_def insert_opened_def case_prod_unfold Let_def open_index_base split: sum.split)

lemma add_to_index_base: "im_base_path (fst (add_to_index ie now c d im)) = im_base_path im"
  by (simp add: add_to_index_def set_index_def split: option.split sum.split prod.split)

lemma index_document_base: "im_base_path (fst (ci_index_document ie now c d m im)) = im_base_path im"
  using rebuild_schema_base [of ie c _ im] add_to_index_base [of ie now c d]
  by (auto simp: ci_index_document_def split: sum.split prod.split) (metis fst_conv)+

section \<open>The index behind the state machine\<close>

text \<open>
  C36. The index of a node on disk behind the replicated state machine: applying an insertion of a
  document with at least one field to a collection whose index is open stores the document and
  answers with success, but the index of the collection is lost, and searches of the collection
  answer that it is not found. The state machine passes an empty field mapping with every
  document, so every field counts as new.
\<close>

theorem replicated_insert_drops_index:
  assumes laws: "open_laws (ie_tantivy ie)" and it: "hash_iter (ie_doc_fields ie)"
    and disk: "im_base_path (ti_collections ti) = Some base"
    and "open": "fmlookup (im_collections (ti_collections ti)) c = Some ci"
    and d: "doc_fields d \<noteq> fmempty" and put: "st_put_in_collection st c d s = (s1, Inr ())"
  shows "\<exists>ti'. apply_command st (tantivy_backend ie now) (InsertDocument c d) s ti = (s1, ti', rr_ok (doc_id d)) \<and>
    ci_search ie took c q (ti_collections ti') = Inl (index_not_found c)"
proof -
  have "\<not> conforms field_mapping_new d" using d by (simp add: conforms_new)
  from new_field_on_disk_lost [OF laws it disk "open" this compatible_new] obtain im' e where
    "ci_index_document ie now c d field_mapping_new (ti_collections ti) = (im', Inl (IndexError e))" "fmlookup (im_collections im') c = None"
    by blast
  then show ?thesis using put by (simp add: tantivy_backend_def on_collections_def ci_search_def)
qed

definition empty_list_index :: "(list_index, tv_schema \<times> tv_document list) index_manager \<Rightarrow>
    (list_index, tv_schema \<times> tv_document list) tantivy_index" where
  "empty_list_index im = \<lparr>ti_index = \<lparr>li_schema = [], li_staged = [], li_committed = []\<rparr>, ti_schema = [],
     ti_field_map = fmempty, ti_collections = im\<rparr>"

theorem replicated_insert_drops_index_witness:
  "\<exists>ti'. apply_command (in_memory_ops btree_iter) (tantivy_backend list_env 0) (InsertDocument ''c'' (text_doc ''a'' ''x''))
       im_new (empty_list_index disk_manager) =
       (fst (im_put_in_collection ''c'' (text_doc ''a'' ''x'') im_new), ti', rr_ok (doc_id (text_doc ''a'' ''x''))) \<and>
     ci_search list_env 0 ''c'' (Term \<lparr>tq_field = ''_id'', tq_value = ''a''\<rparr>) (ti_collections ti') = Inl (index_not_found ''c'')"
proof -
  have 1: "open_laws (ie_tantivy list_env)" using list_tantivy_laws by (simp add: list_env_def tantivy_laws_def)
  have 2: "hash_iter (ie_doc_fields list_env)" by (simp add: list_env_def hash_iter_btree_iter)
  have 3: "im_base_path (ti_collections (empty_list_index disk_manager)) = Some ''/data''" by code_simp
  have "fmlookup (im_collections (ti_collections (empty_list_index disk_manager))) ''c'' \<noteq> None" by code_simp
  then obtain ci where 4: "fmlookup (im_collections (ti_collections (empty_list_index disk_manager))) ''c'' = Some ci" by blast
  have 5: "doc_fields (text_doc ''a'' ''x'') \<noteq> fmempty" using text_doc_conforms(2) by (simp add: conforms_new [symmetric])
  show ?thesis
    by (rule replicated_insert_drops_index [OF 1 2 3 4 5]) (simp add: in_memory_ops_def im_put_in_collection_def im_put_def)
qed

text \<open>A library without faults.\<close>

definition no_faults :: "('x, 'd) tantivy \<Rightarrow> bool" where
  "no_faults tv \<longleftrightarrow> (\<forall>x. tv_writer tv False x = None \<and> tv_reader tv x = None) \<and> (\<forall>d x. \<exists>x'. tv_add_document tv d x = (x', Inr ()))"

definition plain_fields :: "document \<Rightarrow> bool" where
  "plain_fields d \<longleftrightarrow> doc_fields d \<noteq> fmempty \<and> fmdom' (doc_fields d) \<inter> RESERVED = {} \<and> fm_len (doc_fields d) + 4 \<le> 2 ^ 32"

lemma detected_mapping_ok:
  assumes it: "hash_iter (ie_doc_fields ie)" and d: "plain_fields d"
    and m: "detect_fields (ie_doc_fields ie (doc_fields d)) field_mapping_new [] = Inr (mp, nf)"
  shows "mapping_ok mp"
proof -
  have keys: "fst ` set (ie_doc_fields ie (doc_fields d)) = fmdom' (doc_fields d)" by (rule hash_iter_keys [OF it])
  note spec = detect_fields_spec [OF m]
  have mem: "n \<in> fmdom' (fm_fields mp) \<longleftrightarrow> get_field_type mp n \<noteq> None" for n by (simp add: fmlookup_dom'_iff get_field_type_def)
  have none: "get_field_type field_mapping_new n = None" for n by (simp add: get_field_type_def field_mapping_new_def)
  have dom: "fmdom' (fm_fields mp) = fmdom' (doc_fields d)"
  proof (rule set_eqI, rule iffI)
    fix n assume "n \<in> fmdom' (fm_fields mp)"
    then have "n \<in> fst ` set (ie_doc_fields ie (doc_fields d))" using spec none [of n] mem [of n] by blast
    then show "n \<in> fmdom' (doc_fields d)" unfolding keys .
  next
    fix n assume "n \<in> fmdom' (doc_fields d)"
    then obtain v where "(n, v) \<in> set (ie_doc_fields ie (doc_fields d))" unfolding keys [symmetric] by auto
    then have "get_field_type mp n = Some (field_value_to_mapped_type v)" using spec by auto
    then show "n \<in> fmdom' (fm_fields mp)" by (simp add: mem)
  qed
  then have "fm_len (fm_fields mp) = fm_len (doc_fields d)" by (simp add: fm_len_def fcard.rep_eq fmdom'_alt_def)
  with dom d show ?thesis by (simp add: mapping_ok_def plain_fields_def)
qed

lemma last_in_ram:
  assumes e: "env_ok ie" and nofaults: "no_faults (ie_tantivy ie)" and ram: "im_base_path im = None" and d: "plain_fields d"
  shows "\<exists>im1 mp. ci_index_document ie now c d field_mapping_new im = (im1, Inr mp) \<and> represents ie mp c im1 ([searchable d], [])"
proof -
  have it: "hash_iter (ie_doc_fields ie)" using e by (simp add: env_ok_def)
  have new: "\<not> conforms field_mapping_new d" using d by (simp add: conforms_new plain_fields_def)
  obtain mp nf where m: "detect_fields (ie_doc_fields ie (doc_fields d)) field_mapping_new [] = Inr (mp, nf)" "nf \<noteq> []"
    using detect_compatible [OF it compatible_new new] by blast
  have "\<exists>im0 ci. rebuild_schema ie c mp im = (im0, Inr ()) \<and> fmlookup (im_collections im0) c = Some ci"
    using nofaults ram
    by (simp add: rebuild_schema_def open_index_def open_or_create_def insert_opened_def no_faults_def case_prod_unfold Let_def)
  then obtain im0 ci where r: "rebuild_schema ie c mp im = (im0, Inr ())" "fmlookup (im_collections im0) c = Some ci" by blast
  obtain x where "tv_add_document (ie_tantivy ie) (build_tantivy_doc ie now d (ci_field_map ci)) (ci_index ci) = (x, Inr ())"
    using nofaults unfolding no_faults_def by blast
  then have i: "ci_index_document ie now c d field_mapping_new im = (set_index c ci x im0, Inr mp)"
    using m r by (simp add: ci_index_document_def add_to_index_def)
  have "fresh_start c im" using ram by (simp add: fresh_start_def)
  from first_document [OF e this i new detected_mapping_ok [OF it d m(1)]] i show ?thesis by blast
qed

lemma batch_loop_base:
  "batch_loop st (tantivy_backend ie now) c ds s ti n = (s', ti', n') \<Longrightarrow>
    im_base_path (ti_collections ti') = im_base_path (ti_collections ti)"
proof (induction ds arbitrary: s ti n)
  case (Cons d ds)
  let ?i = "fst (ix_index_document_in_collection (tantivy_backend ie now) c d field_mapping_new ti)"
  have "im_base_path (ti_collections ?i) = im_base_path (ti_collections ti)"
    using index_document_base [of ie now c d field_mapping_new "ti_collections ti"]
    by (simp add: tantivy_backend_def on_collections_def case_prod_unfold)
  with Cons show ?case by (auto split: prod.splits sum.splits)
qed simp

text \<open>
  With indices in memory, a replicated batch leaves in the index of its collection the last
  document of the batch only: every document with a field rebuilds the schema, which starts an
  empty index, and nothing indexes the earlier documents again.
\<close>

theorem replicated_batch_keeps_last:
  assumes e: "env_ok ie" and nf: "no_faults (ie_tantivy ie)" and ram: "im_base_path (ti_collections ti) = None"
    and ds: "batch_loop st (tantivy_backend ie now) c ds s ti 0 = (s1, ti1, n)"
    and put: "st_put_in_collection st c d s1 = (s2, Inr ())" and d: "plain_fields d"
  shows "\<exists>ti' mp. apply_command st (tantivy_backend ie now) (BatchInsert c (ds @ [d])) s ti = (s2, ti', rr_ok_batch (Suc n)) \<and>
    represents ie mp c (ti_collections ti') ([searchable d], [])"
proof -
  have "im_base_path (ti_collections ti1) = None" using batch_loop_base [OF ds] ram by simp
  from last_in_ram [OF e nf this d] obtain im1 mp where
    i: "ci_index_document ie now c d field_mapping_new (ti_collections ti1) = (im1, Inr mp)" "represents ie mp c im1 ([searchable d], [])"
    by blast
  have "batch_loop st (tantivy_backend ie now) c (ds @ [d]) s ti 0 = (s2, ti1\<lparr>ti_collections := im1\<rparr>, Suc n)"
    using ds put i(1) by (simp add: batch_loop_append tantivy_backend_def on_collections_def)
  then show ?thesis using i(2) by (intro exI [of _ "ti1\<lparr>ti_collections := im1\<rparr>"] exI [of _ mp]) simp
qed

theorem replicated_batch_keeps_last_witness:
  "\<exists>ti' mp. apply_command (in_memory_ops btree_iter) (tantivy_backend list_env 0)
       (BatchInsert ''c'' ([text_doc ''a'' ''x''] @ [text_doc ''b'' ''y''])) im_new (empty_list_index index_manager_new_in_ram) =
       (fst (im_put_in_collection ''c'' (text_doc ''b'' ''y'') (fst (im_put_in_collection ''c'' (text_doc ''a'' ''x'') im_new))),
        ti', rr_ok_batch 2) \<and>
     represents list_env mp ''c'' (ti_collections ti') ([searchable (text_doc ''b'' ''y'')], [])"
proof -
  let ?st = "in_memory_ops btree_iter" and ?a = "text_doc ''a'' ''x''" and ?b = "text_doc ''b'' ''y''"
  have put: "st_put_in_collection ?st ''c'' d s = (fst (im_put_in_collection ''c'' d s), Inr ())" for d s
    by (simp add: in_memory_ops_def im_put_in_collection_def im_put_def)
  have nf: "no_faults (ie_tantivy list_env)" by (simp add: no_faults_def list_env_def list_tantivy_def)
  have b: "plain_fields ?b"
    by (simp add: plain_fields_def text_doc_def with_field_def doc_new_def RESERVED_def fm_len_def fcard.rep_eq)
  have l: "batch_loop ?st (tantivy_backend list_env 0) ''c'' [?a] im_new (empty_list_index index_manager_new_in_ram) 0 =
      (fst (im_put_in_collection ''c'' ?a im_new),
       fst (ix_index_document_in_collection (tantivy_backend list_env 0) ''c'' ?a field_mapping_new (empty_list_index index_manager_new_in_ram)), 1)"
    by (simp add: put)
  show ?thesis
    using replicated_batch_keeps_last [OF env_ok_list_env nf _ l put b]
    by (simp add: empty_list_index_def index_manager_new_in_ram_def numeral_2_eq_2)
qed

end
