(* ===== verification/Request_Pipeline.thy ===== *)
theory Request_Pipeline
  imports Middleware
begin

text \<open>
  From a request to its handler: the routing table and the stack of middleware layers
  (\<^verbatim>\<open>crates/node/src/lib.rs\<close>) and the layers for request identifiers and trace contexts
  (\<^verbatim>\<open>crates/node/src/middleware.rs\<close>). The layers of \<open>Middleware\<close> are composed as the code
  composes them, around handlers that are a parameter.

  Dispatching a path to a row of the table is done by the routing library \<^verbatim>\<open>axum\<close>: the
  parameter \<open>dispatch\<close> with the law \<open>dispatches\<close>, its documented rules (a segment with a colon stands
  for one non-empty segment, a fixed segment is preferred, \<^verbatim>\<open>GET\<close> answers \<^verbatim>\<open>HEAD\<close>).
  The outermost layer cancels a request after 30 seconds; whether that happens while the handler
  runs is an argument. Compression is not modelled.
\<close>

section \<open>Routes\<close>

datatype handler =
    ListCollections | CreateCollectionH | DeleteCollectionH | GetCollection
  | IndexDocumentH | BulkIndex | UpsertDocumentH | GetDocumentH | DeleteDocumentH
  | SearchDocuments | SimpleSearch | RefreshCollection
  | ListAliases | CreateAliasH | GetAlias | DeleteAliasH
  | ClusterHealth | ClusterStateH | ListNodes | JoinNode
  | CreateSnapshot | ListSnapshots | DownloadSnapshot | RestoreSnapshot
  | GetStats | MetricsH

type_synonym route_table = "(string \<times> (http_method \<times> handler) list) list"

definition collection_routes :: route_table where
  "collection_routes =
     [(''/collections'', [(GET, ListCollections)]),
      (''/collections/:name'', [(PUT, CreateCollectionH), (DELETE, DeleteCollectionH), (GET, GetCollection)]),
      (''/collections/:name/docs'', [(POST, IndexDocumentH)]),
      (''/collections/:name/docs/_bulk'', [(POST, BulkIndex)]),
      (''/collections/:name/docs/:id'', [(PUT, UpsertDocumentH), (GET, GetDocumentH), (DELETE, DeleteDocumentH)]),
      (''/collections/:name/_search'', [(POST, SearchDocuments), (GET, SimpleSearch)]),
      (''/collections/:name/_refresh'', [(POST, RefreshCollection)])]"

definition alias_routes :: route_table where
  "alias_routes =
     [(''/_aliases'', [(GET, ListAliases)]),
      (''/_aliases/:name'', [(PUT, CreateAliasH), (GET, GetAlias), (DELETE, DeleteAliasH)])]"

definition cluster_routes :: route_table where
  "cluster_routes =
     [(''/_cluster/health'', [(GET, ClusterHealth)]),
      (''/_cluster/state'', [(GET, ClusterStateH)]),
      (''/_nodes'', [(GET, ListNodes)]),
      (''/_nodes/:id/_join'', [(POST, JoinNode)])]"

definition snapshot_routes :: route_table where
  "snapshot_routes =
     [(''/_snapshot'', [(POST, CreateSnapshot), (GET, ListSnapshots)]),
      (''/_snapshot/:id'', [(GET, DownloadSnapshot)]),
      (''/_restore'', [(POST, RestoreSnapshot)])]"

definition admin_routes :: route_table where
  "admin_routes = [(''/_stats'', [(GET, GetStats)]), (''/metrics'', [(GET, MetricsH)])]"

definition app_routes :: route_table where
  "app_routes = collection_routes @ alias_routes @ cluster_routes @ snapshot_routes @ admin_routes"

datatype route_result = Routed handler | MethodNotAllowed | NoRoute

text \<open>The documented rules, on the segments of a path.\<close>

definition segs :: "string \<Rightarrow> string list" where
  "segs p = split_on (CHR ''/'') p"

definition is_capture :: "string \<Rightarrow> bool" where
  "is_capture s \<longleftrightarrow> prefix '':'' s"

definition seg_fits :: "string \<Rightarrow> string \<Rightarrow> bool" where
  "seg_fits pat s \<longleftrightarrow> (if is_capture pat then s \<noteq> [] else s = pat)"

definition fits :: "string \<Rightarrow> string \<Rightarrow> bool" where
  "fits pat p \<longleftrightarrow> list_all2 seg_fits (segs pat) (segs p)"

text \<open>At the first segment where two patterns differ, the fixed one is preferred.\<close>

fun more_specific :: "string list \<Rightarrow> string list \<Rightarrow> bool" where
  "more_specific (a # as) (b # bs) =
     (if a = b then more_specific as bs else \<not> is_capture a \<and> is_capture b)"
| "more_specific _ _ = False"

definition allowed :: "(http_method \<times> handler) list \<Rightarrow> http_method \<Rightarrow> handler option" where
  "allowed ms m = (case map_of ms m of Some h \<Rightarrow> Some h | None \<Rightarrow> if m = HEAD then map_of ms GET else None)"

definition dispatches :: "(route_table \<Rightarrow> http_method \<Rightarrow> string \<Rightarrow> route_result) \<Rightarrow> bool" where
  "dispatches dispatch \<longleftrightarrow>
     (\<forall>tbl m p. (\<forall>(pat, ms) \<in> set tbl. \<not> fits pat p) \<longrightarrow> dispatch tbl m p = NoRoute) \<and>
     (\<forall>tbl m p pat ms. (pat, ms) \<in> set tbl \<longrightarrow> fits pat p \<longrightarrow>
        (\<forall>(pat', ms') \<in> set tbl. fits pat' p \<longrightarrow> pat' = pat \<and> ms' = ms \<or> more_specific (segs pat) (segs pat')) \<longrightarrow>
        dispatch tbl m p = (case allowed ms m of Some h \<Rightarrow> Routed h | None \<Rightarrow> MethodNotAllowed))"

section \<open>Layers\<close>

record pipe_request = request +
  x_request_id :: "string option"
  traceparent :: "string option"

datatype 'b answer =
    FromHandler 'b | Rejected status_code string string | RouteError route_result | TimedOut

record 'b reply =
  rp_answer :: "'b answer"
  rp_request_id :: "string option"
  rp_traceparent :: "string option"

definition bare :: "'b answer \<Rightarrow> 'b reply" where
  "bare a = \<lparr>rp_answer = a, rp_request_id = None, rp_traceparent = None\<rparr>"

text \<open>What the node keeps for its layers; \<open>nd_requests\<close> are the observations of the request metrics.\<close>

record 'w node_state =
  nd_auth :: auth_state
  nd_limiter :: rate_limiter
  nd_counter :: connection_counter
  nd_requests :: "(http_method \<times> string) list"
  nd_world :: 'w

type_synonym ('w, 'b) service = "pipe_request \<Rightarrow> 'w node_state \<Rightarrow> 'w node_state \<times> 'b reply option"

text \<open>
  A service answers, or is cancelled while it waits (None): then nothing after the point where it
  waits is executed.
\<close>

definition routed ::
    "(route_table \<Rightarrow> http_method \<Rightarrow> string \<Rightarrow> route_result) \<Rightarrow> (handler \<Rightarrow> pipe_request \<Rightarrow> 'w \<Rightarrow> 'w \<times> 'b option) \<Rightarrow> ('w, 'b) service" where
  "routed dispatch handle rq nd =
     (case dispatch app_routes (rq_method rq) (rq_path rq) of
        Routed h \<Rightarrow> (case handle h rq (nd_world nd) of
            (w, Some b) \<Rightarrow> (nd\<lparr>nd_world := w\<rparr>, Some (bare (FromHandler b)))
          | (w, None) \<Rightarrow> (nd\<lparr>nd_world := w\<rparr>, None))
      | r \<Rightarrow> (nd, Some (bare (RouteError r))))"

definition trace_context_layer :: "('w, 'b) service \<Rightarrow> ('w, 'b) service" where
  "trace_context_layer next rq nd =
     (case next rq nd of
        (nd1, None) \<Rightarrow> (nd1, None)
      | (nd1, Some r) \<Rightarrow> (nd1, Some (case traceparent rq of None \<Rightarrow> r | Some tp \<Rightarrow> r\<lparr>rp_traceparent := Some tp\<rparr>)))"

text \<open>\<open>uuid\<close> is the generated identifier.\<close>

definition request_id_layer :: "string \<Rightarrow> ('w, 'b) service \<Rightarrow> ('w, 'b) service" where
  "request_id_layer uuid next rq nd =
     (let request_id = (case x_request_id rq of None \<Rightarrow> uuid | Some i \<Rightarrow> i) in
      case next (rq\<lparr>x_request_id := Some request_id\<rparr>) nd of
        (nd1, None) \<Rightarrow> (nd1, None)
      | (nd1, Some r) \<Rightarrow> (nd1, Some (r\<lparr>rp_request_id := Some request_id\<rparr>)))"

definition tracing_layer :: "('w, 'b) service \<Rightarrow> ('w, 'b) service" where
  "tracing_layer next rq nd =
     (case next rq nd of
        (nd1, None) \<Rightarrow> (nd1, None)
      | (nd1, Some r) \<Rightarrow> (nd1\<lparr>nd_requests := nd_requests nd1 @ [(rq_method rq, normalize_path (rq_path rq))]\<rparr>, Some r))"

fun rejection :: "middleware_result \<Rightarrow> 'b reply option" where
  "rejection Next = None"
| "rejection (Respond s t r) = Some (bare (Rejected s t r))"

definition auth_layer :: "(string \<Rightarrow> jwt_claims db_result) \<Rightarrow> ('w, 'b) service \<Rightarrow> ('w, 'b) service" where
  "auth_layer verify next rq nd =
     (case rejection (auth_middleware verify (nd_auth nd) (request.truncate rq)) of
        None \<Rightarrow> next rq nd
      | Some r \<Rightarrow> (nd, Some r))"

text \<open>\<open>refill\<close> is the number of tokens the bucket of the request gains since its last use.\<close>

definition rate_limit_layer :: "u64 \<Rightarrow> ('w, 'b) service \<Rightarrow> ('w, 'b) service" where
  "rate_limit_layer refill next rq nd =
     (case rate_limit_middleware refill (nd_limiter nd) (request.truncate rq) of
        (l, m) \<Rightarrow> (case rejection m of
            None \<Rightarrow> next rq (nd\<lparr>nd_limiter := l\<rparr>)
          | Some r \<Rightarrow> (nd\<lparr>nd_limiter := l\<rparr>, Some r)))"

definition connection_limit_layer :: "('w, 'b) service \<Rightarrow> ('w, 'b) service" where
  "connection_limit_layer next rq nd =
     (case counter_try_acquire (nd_counter nd) of
        (c, False) \<Rightarrow> (nd\<lparr>nd_counter := c\<rparr>,
          Some (bare (Rejected SERVICE_UNAVAILABLE ''connection_limit'' ''maximum connection limit reached'')))
      | (c, True) \<Rightarrow> (case next rq (nd\<lparr>nd_counter := c\<rparr>) of
            (nd1, None) \<Rightarrow> (nd1, None)
          | (nd1, Some r) \<Rightarrow> (nd1\<lparr>nd_counter := counter_release (nd_counter nd1)\<rparr>, Some r)))"

definition timeout_layer :: "('w, 'b) service \<Rightarrow> pipe_request \<Rightarrow> 'w node_state \<Rightarrow> 'w node_state \<times> 'b reply" where
  "timeout_layer next rq nd =
     (case next rq nd of (nd1, Some r) \<Rightarrow> (nd1, r) | (nd1, None) \<Rightarrow> (nd1, bare TimedOut))"

text \<open>The arguments that change from request to request.\<close>

record ('w, 'b) call =
  cl_verify :: "string \<Rightarrow> jwt_claims db_result"
  cl_refill :: u64
  cl_uuid :: string
  cl_handle :: "handler \<Rightarrow> pipe_request \<Rightarrow> 'w \<Rightarrow> 'w \<times> 'b option"

definition build_router ::
    "(route_table \<Rightarrow> http_method \<Rightarrow> string \<Rightarrow> route_result) \<Rightarrow> ('w, 'b) call \<Rightarrow> pipe_request \<Rightarrow> 'w node_state \<Rightarrow> 'w node_state \<times> 'b reply" where
  "build_router dispatch cl =
     timeout_layer (connection_limit_layer (rate_limit_layer (cl_refill cl) (auth_layer (cl_verify cl)
       (tracing_layer (request_id_layer (cl_uuid cl) (trace_context_layer (routed dispatch (cl_handle cl))))))))"

section \<open>Paths by their segments\<close>

lemma split_on_append: "split_on c (a @ c # b) = split_on c a @ split_on c b"
proof (induction a)
  case (Cons x a)
  obtain y ys where "split_on c a = y # ys" using split_on_nonempty [of c a] by (cases "split_on c a") auto
  with Cons show ?case by simp
qed simp

lemma split_on_word: "c \<notin> set w \<Longrightarrow> split_on c w = [w]"
  by (induction w) auto

lemma join_with_append: "xs \<noteq> [] \<Longrightarrow> ys \<noteq> [] \<Longrightarrow> join_with c (xs @ ys) = join_with c xs @ c # join_with c ys"
proof (induction xs rule: induct_list012)
  case (2 x)
  then show ?case by (cases ys) simp_all
qed simp_all

lemma join_segs [simp]: "join_with (CHR ''/'') (segs p) = p"
  by (simp add: segs_def)

lemma segs_nonempty [simp]: "segs p \<noteq> []"
  by (simp add: segs_def)

lemma segs_inject: "segs p = segs q \<longleftrightarrow> p = q"
  by (metis join_segs)

lemma segs_append: "segs (a @ CHR ''/'' # b) = segs a @ segs b"
  by (simp add: segs_def split_on_append)

lemma segs_word: "CHR ''/'' \<notin> set w \<Longrightarrow> segs w = [w]"
  by (simp add: segs_def split_on_word)

lemma hd_segs_prefix: "CHR ''/'' \<notin> set w \<Longrightarrow> prefix w (hd (segs (w @ b)))"
proof (induction w)
  case (Cons x w)
  obtain y ys where "split_on (CHR ''/'') (w @ b) = y # ys" using split_on_nonempty [of "CHR ''/''" "w @ b"] by (cases "split_on (CHR ''/'') (w @ b)") auto
  with Cons show ?case by (auto simp: segs_def)
qed simp

lemma prefix_segs:
  assumes "CHR ''/'' \<notin> set w"
  shows "prefix (CHR ''/'' # w @ ''/'') p \<longleftrightarrow> (\<exists>rest. rest \<noteq> [] \<and> segs p = [] # w # rest)"
proof
  assume "prefix (CHR ''/'' # w @ ''/'') p"
  then obtain r where "p = [] @ CHR ''/'' # (w @ CHR ''/'' # r)" by (auto simp: prefix_def)
  then have "segs p = segs [] @ segs w @ segs r" by (simp only: segs_append)
  then show "\<exists>rest. rest \<noteq> [] \<and> segs p = [] # w # rest" using assms by (auto simp: segs_word)
next
  assume "\<exists>rest. rest \<noteq> [] \<and> segs p = [] # w # rest"
  then obtain rest where r: "rest \<noteq> []" "segs p = [[], w] @ rest" by auto
  have "p = join_with (CHR ''/'') ([[], w] @ rest)" using join_segs [of p] r(2) by simp
  also have "\<dots> = join_with (CHR ''/'') [[], w] @ CHR ''/'' # join_with (CHR ''/'') rest" using r(1) by (intro join_with_append) simp_all
  finally show "prefix (CHR ''/'' # w @ ''/'') p" by (simp add: prefix_def)
qed

lemma suffix_segs:
  assumes "CHR ''/'' \<notin> set w"
  shows "suffix (CHR ''/'' # w) p \<longleftrightarrow> (\<exists>ss. ss \<noteq> [] \<and> segs p = ss @ [w])"
proof
  assume "suffix (CHR ''/'' # w) p"
  then obtain q where "p = q @ CHR ''/'' # w" by (auto simp: suffix_def)
  then show "\<exists>ss. ss \<noteq> [] \<and> segs p = ss @ [w]" using assms by (auto simp: segs_append segs_word)
next
  assume "\<exists>ss. ss \<noteq> [] \<and> segs p = ss @ [w]"
  then obtain ss where "ss \<noteq> []" "p = join_with (CHR ''/'') (ss @ [w])" by (metis join_segs)
  then show "suffix (CHR ''/'' # w) p" by (simp add: join_with_append suffix_def)
qed

lemma contains_segs:
  assumes "CHR ''/'' \<notin> set w"
  shows "str_contains p (CHR ''/'' # w) \<longleftrightarrow> (\<exists>s \<in> set (tl (segs p)). prefix w s)"
proof
  assume "str_contains p (CHR ''/'' # w)"
  then obtain a b where "p = a @ CHR ''/'' # (w @ b)" by (auto simp: str_contains_def sublist_def)
  then have p: "segs p = segs a @ segs (w @ b)" by (simp only: segs_append)
  then have "hd (segs (w @ b)) \<in> set (tl (segs p))" by (cases "segs a") (auto simp: hd_in_set)
  then show "\<exists>s \<in> set (tl (segs p)). prefix w s" using hd_segs_prefix [OF assms] by blast
next
  assume "\<exists>s \<in> set (tl (segs p)). prefix w s"
  then obtain s xs ys where s: "tl (segs p) = xs @ s # ys" "prefix w s" by (meson split_list)
  then have "segs p = (hd (segs p) # xs) @ (s # ys)" by (metis append_Cons list.collapse segs_nonempty)
  then have "p = join_with (CHR ''/'') ((hd (segs p) # xs) @ (s # ys))" by (metis join_segs)
  also have "\<dots> = join_with (CHR ''/'') (hd (segs p) # xs) @ CHR ''/'' # join_with (CHR ''/'') (s # ys)"
    by (rule join_with_append) simp_all
  finally obtain a where a: "p = a @ CHR ''/'' # join_with (CHR ''/'') (s # ys)" by blast
  have "prefix w (join_with (CHR ''/'') (s # ys))" using s(2) by (cases ys) (auto simp: prefix_def)
  then obtain b where "join_with (CHR ''/'') (s # ys) = w @ b" by (auto simp: prefix_def)
  with a have "p = a @ (CHR ''/'' # w) @ b" by simp
  then show "str_contains p (CHR ''/'' # w)" unfolding str_contains_def sublist_def by blast
qed

text \<open>The role a request needs, by the segments of its path.\<close>

definition some_seg :: "string \<Rightarrow> string list \<Rightarrow> bool" where
  "some_seg w ss \<longleftrightarrow> list_ex (prefix w) (tl ss)"

fun role_of_segs :: "http_method \<Rightarrow> string list \<Rightarrow> role" where
  "role_of_segs m ss =
     (if take 2 ss = [[], ''_nodes''] \<and> 2 < length ss \<and> last ss = ''_join'' then Admin
      else if ss = [[], ''_restore''] then Admin
      else if ss = [[], ''_snapshot''] \<and> m = POST then Admin
      else if take 2 ss = [[], ''collections''] \<and> 2 < length ss \<and> \<not> some_seg ''docs'' ss \<and> \<not> some_seg ''_search'' ss \<and>
          \<not> some_seg ''_refresh'' ss \<and> (m = PUT \<or> m = DELETE) then Admin
      else if m = POST \<or> m = PUT \<or> m = DELETE then (if some_seg ''_search'' ss then Reader else Writer)
      else Reader)"

lemma take_2_segs: "(\<exists>rest. rest \<noteq> [] \<and> ss = [] # w # rest) \<longleftrightarrow> take 2 ss = [[], w] \<and> 2 < length ss"
  by (cases ss; cases "tl ss") auto

lemma required_role_segs: "required_role m p = role_of_segs m (segs p)"
proof -
  have nodes: "prefix ''/_nodes/'' p \<longleftrightarrow> take 2 (segs p) = [[], ''_nodes''] \<and> 2 < length (segs p)"
    using prefix_segs [of "''_nodes''" p] by (simp add: take_2_segs)
  have col: "prefix ''/collections/'' p \<longleftrightarrow> take 2 (segs p) = [[], ''collections''] \<and> 2 < length (segs p)"
    using prefix_segs [of "''collections''" p] by (simp add: take_2_segs)
  have join: "suffix ''/_join'' p \<longleftrightarrow> last (segs p) = ''_join''" if "2 < length (segs p)"
  proof -
    have "(\<exists>ss. ss \<noteq> [] \<and> segs p = ss @ [''_join'']) \<longleftrightarrow> last (segs p) = ''_join''"
      using that by (cases "segs p" rule: rev_cases) auto
    then show ?thesis using suffix_segs [of "''_join''" p] by simp
  qed
  have eq: "p = ''/_restore'' \<longleftrightarrow> segs p = [[], ''_restore'']" "p = ''/_snapshot'' \<longleftrightarrow> segs p = [[], ''_snapshot'']"
    unfolding segs_inject [of p, symmetric] by (simp_all add: segs_def)
  have con: "str_contains p ''/docs'' \<longleftrightarrow> some_seg ''docs'' (segs p)" "str_contains p ''/_search'' \<longleftrightarrow> some_seg ''_search'' (segs p)"
    "str_contains p ''/_refresh'' \<longleftrightarrow> some_seg ''_refresh'' (segs p)"
    using contains_segs [of "''docs''" p] contains_segs [of "''_search''" p] contains_segs [of "''_refresh''" p]
    by (simp_all add: some_seg_def list_ex_iff)
  show ?thesis unfolding required_role_def role_of_segs.simps nodes col eq con using join by auto
qed

declare role_of_segs.simps [simp del]

section \<open>Dispatching on the table of the node\<close>

text \<open>Two patterns that no path fits both.\<close>

fun disjoint_pats :: "string list \<Rightarrow> string list \<Rightarrow> bool" where
  "disjoint_pats (a # as) (b # bs) \<longleftrightarrow> \<not> is_capture a \<and> \<not> is_capture b \<and> a \<noteq> b \<or> disjoint_pats as bs"
| "disjoint_pats [] [] = False"
| "disjoint_pats _ _ = True"

lemma seg_fits_fixed: "\<not> is_capture a \<Longrightarrow> seg_fits a s \<longleftrightarrow> s = a"
  by (simp add: seg_fits_def)

lemma disjoint_pats_no_common:
  "disjoint_pats as bs \<Longrightarrow> list_all2 seg_fits as ss \<Longrightarrow> \<not> list_all2 seg_fits bs ss"
proof (induction as bs arbitrary: ss rule: disjoint_pats.induct)
  case (1 a as b bs)
  then show ?case by (auto simp: list_all2_Cons1 seg_fits_fixed)
qed (auto simp: list_all2_Cons1 list_all2_Nil)

lemma app_routes_ordered:
  "sorted_wrt (\<lambda>r r'. disjoint_pats (segs (fst r)) (segs (fst r')) \<or> more_specific (segs (fst r)) (segs (fst r'))) app_routes"
  by code_simp

lemma first_fit_dispatched:
  assumes "dispatches dispatch" and "app_routes = rs @ (pat, ms) # rs'" and "fits pat p"
    and "\<forall>r \<in> set rs. \<not> fits (fst r) p"
  shows "dispatch app_routes m p = (case allowed ms m of Some h \<Rightarrow> Routed h | None \<Rightarrow> MethodNotAllowed)"
proof -
  have "\<forall>r \<in> set rs'. disjoint_pats (segs pat) (segs (fst r)) \<or> more_specific (segs pat) (segs (fst r))"
    using app_routes_ordered unfolding assms(2) by (simp add: sorted_wrt_append)
  then have "\<forall>(pat', ms') \<in> set app_routes. fits pat' p \<longrightarrow> pat' = pat \<and> ms' = ms \<or> more_specific (segs pat) (segs pat')"
    using assms(3,4) disjoint_pats_no_common unfolding assms(2) fits_def by fastforce
  moreover have "(pat, ms) \<in> set app_routes" unfolding assms(2) by simp
  ultimately show ?thesis using assms(1,3) unfolding dispatches_def by blast
qed

lemma routed_by_row:
  assumes "dispatches dispatch" and "dispatch app_routes m p = Routed h"
  obtains pat ms where "(pat, ms) \<in> set app_routes" and "fits pat p" and "allowed ms m = Some h"
proof (cases "\<exists>r \<in> set app_routes. fits (fst r) p")
  case True
  then obtain rs r rs' where r: "app_routes = rs @ r # rs'" "fits (fst r) p" "\<forall>x \<in> set rs. \<not> fits (fst x) p"
    using split_list_first_prop [of app_routes "\<lambda>r. fits (fst r) p"] by blast
  then have "dispatch app_routes m p = (case allowed (snd r) m of Some h \<Rightarrow> Routed h | None \<Rightarrow> MethodNotAllowed)"
    by (intro first_fit_dispatched [OF assms(1), of rs "fst r" "snd r" rs']) auto
  then have "allowed (snd r) m = Some h" using assms(2) by (simp split: option.splits)
  moreover have "(fst r, snd r) \<in> set app_routes" unfolding r(1) by simp
  ultimately show ?thesis using that r(2) by blast
next
  case False
  then have "dispatch app_routes m p = NoRoute" using assms(1) unfolding dispatches_def by fastforce
  with assms(2) show ?thesis by simp
qed

section \<open>The role a route needs\<close>

text \<open>The roles that the comment of \<^verbatim>\<open>required_role\<close> gives to the operations.\<close>

fun documented_role :: "handler \<Rightarrow> role" where
  "documented_role h =
     (if h \<in> {JoinNode, RestoreSnapshot, CreateSnapshot, CreateCollectionH, DeleteCollectionH} then Admin
      else if h \<in> {IndexDocumentH, BulkIndex, UpsertDocumentH, DeleteDocumentH, RefreshCollection, CreateAliasH, DeleteAliasH} then Writer
      else Reader)"

text \<open>The segments of a path that stand for the captures of a pattern.\<close>

definition captures :: "string \<Rightarrow> string \<Rightarrow> string list" where
  "captures pat p = map snd (filter (\<lambda>(a, s). is_capture a) (zip (segs pat) (segs p)))"

definition role_by_names :: "handler \<Rightarrow> string list \<Rightarrow> role" where
  "role_by_names h names =
     (if h = JoinNode then Admin
      else if list_ex (prefix ''_search'') names then Reader
      else if h \<in> {CreateCollectionH, DeleteCollectionH} \<and> list_ex (\<lambda>n. prefix ''docs'' n \<or> prefix ''_refresh'' n) names then Writer
      else documented_role h)"

text \<open>A pattern with names in the place of its captures.\<close>

fun fill :: "string list \<Rightarrow> string list \<Rightarrow> string list" where
  "fill [] ns = []"
| "fill (a # as) ns = (if is_capture a then hd ns # fill as (tl ns) else a # fill as ns)"

lemma fits_fill:
  "list_all2 seg_fits as ss \<Longrightarrow> fill as (map snd (filter (\<lambda>(a, s). is_capture a) (zip as ss))) = ss"
  by (induction rule: list_all2_induct) (auto simp: seg_fits_def)

lemma fits_names:
  "list_all2 seg_fits as ss \<Longrightarrow>
   length (map snd (filter (\<lambda>(a, s). is_capture a) (zip as ss))) = length (filter is_capture as)"
  by (induction rule: list_all2_induct) auto

lemma fill_take: "fill as (take (length (filter is_capture as)) ns) = fill as ns" if "length (filter is_capture as) \<le> length ns"
  using that by (induction as arbitrary: ns) (auto simp: neq_Nil_conv Suc_le_length_iff)

definition row_role :: "string \<times> (http_method \<times> handler) list \<Rightarrow> string \<Rightarrow> string \<Rightarrow> bool" where
  "row_role r n i \<longleftrightarrow> length (filter is_capture (segs (fst r))) \<le> 2 \<and>
     list_all (\<lambda>(m, h). (m = GET \<longrightarrow> role_of_segs HEAD (fill (segs (fst r)) [n, i]) = role_by_names h (take (length (filter is_capture (segs (fst r)))) [n, i])) \<and>
        role_of_segs m (fill (segs (fst r)) [n, i]) = role_by_names h (take (length (filter is_capture (segs (fst r)))) [n, i])) (snd r)"

lemmas row_role_simps = row_role_def is_capture_def segs_def role_of_segs.simps some_seg_def role_by_names_def

lemma admin_rows: "list_all (\<lambda>r. row_role r n i) admin_routes"
  unfolding admin_routes_def list.pred_inject(2)
  by (intro conjI list.pred_inject(1); simp add: row_role_simps)

lemma snapshot_rows: "list_all (\<lambda>r. row_role r n i) snapshot_routes"
  unfolding snapshot_routes_def list.pred_inject(2)
  by (intro conjI list.pred_inject(1); simp add: row_role_simps)

lemma cluster_rows: "list_all (\<lambda>r. row_role r n i) cluster_routes"
  unfolding cluster_routes_def list.pred_inject(2)
  by (intro conjI list.pred_inject(1); simp add: row_role_simps)

lemma alias_rows: "list_all (\<lambda>r. row_role r n i) alias_routes"
  unfolding alias_routes_def list.pred_inject(2)
  by (intro conjI list.pred_inject(1); simp add: row_role_simps)

lemma collection_rows: "list_all (\<lambda>r. row_role r n i) collection_routes"
  unfolding collection_routes_def list.pred_inject(2)
  by (intro conjI list.pred_inject(1); simp add: row_role_simps)

lemma app_routes_rows: "list_all (\<lambda>r. row_role r n i) app_routes"
  by (simp add: app_routes_def collection_rows alias_rows cluster_rows snapshot_rows admin_rows)

lemma two_names: "length ns \<le> 2 \<Longrightarrow> \<exists>n i. take (length ns) [n, i] = ns"
  by (cases ns; cases "tl ns") auto

lemma row_role_fits:
  assumes row: "\<And>n i. row_role (pat, ms) n i" and fits: "fits pat p" and allowed: "allowed ms m = Some h"
  shows "required_role m p = role_by_names h (captures pat p)"
proof -
  let ?k = "length (filter is_capture (segs pat))"
  have f: "list_all2 seg_fits (segs pat) (segs p)" using fits by (simp add: fits_def)
  have len: "length (captures pat p) = ?k" and fill: "fill (segs pat) (captures pat p) = segs p"
    using fits_names [OF f] fits_fill [OF f] by (simp_all add: captures_def)
  have k: "?k \<le> 2" using row by (simp add: row_role_def)
  then obtain n i where ni: "take ?k [n, i] = captures pat p" using two_names [of "captures pat p"] len by auto
  then have "fill (segs pat) [n, i] = segs p" using fill_take [of "segs pat" "[n, i]"] fill k by simp
  then have "role_of_segs m' (segs p) = role_by_names h' (captures pat p) \<and>
      (m' = GET \<longrightarrow> role_of_segs HEAD (segs p) = role_by_names h' (captures pat p))" if "(m', h') \<in> set ms" for m' h'
    using row [of n i] that ni by (auto simp: row_role_def list_all_iff)
  moreover have "(m, h) \<in> set ms \<or> m = HEAD \<and> (GET, h) \<in> set ms"
    using allowed map_of_SomeD [of ms] by (auto simp: allowed_def split: option.splits if_splits)
  ultimately show ?thesis by (auto simp: required_role_segs)
qed

lemma role_of_route:
  assumes "dispatches dispatch" and "dispatch app_routes m p = Routed h"
  obtains pat ms where "(pat, ms) \<in> set app_routes" and "fits pat p" and "allowed ms m = Some h"
    and "required_role m p = role_by_names h (captures pat p)"
proof -
  obtain pat ms where r: "(pat, ms) \<in> set app_routes" "fits pat p" "allowed ms m = Some h"
    using routed_by_row [OF assms] by blast
  moreover have "row_role (pat, ms) n i" for n i
    using app_routes_rows [of n i] r(1) by (simp add: list_all_iff)
  ultimately show ?thesis using that row_role_fits by blast
qed

section \<open>A dispatcher\<close>

text \<open>The rules are those of a dispatcher that looks for a fitting row that is preferred to the others.\<close>

definition best_row :: "route_table \<Rightarrow> string \<Rightarrow> (http_method \<times> handler) list option" where
  "best_row tbl p =
     (let rs = filter (\<lambda>(pat, ms). fits pat p) tbl in
      case find (\<lambda>(pat, ms). list_all (\<lambda>(pat', ms'). pat' = pat \<and> ms' = ms \<or> more_specific (segs pat) (segs pat')) rs) rs of
        None \<Rightarrow> (if rs = [] then None else Some []) | Some (pat, ms) \<Rightarrow> Some ms)"

definition first_dispatch :: "route_table \<Rightarrow> http_method \<Rightarrow> string \<Rightarrow> route_result" where
  "first_dispatch tbl m p =
     (case best_row tbl p of
        None \<Rightarrow> NoRoute
      | Some ms \<Rightarrow> (case allowed ms m of Some h \<Rightarrow> Routed h | None \<Rightarrow> MethodNotAllowed))"

lemma more_specific_asym: "more_specific a b \<Longrightarrow> \<not> more_specific b a"
  by (induction a b rule: more_specific.induct) (auto split: if_splits)

lemma more_specific_irrefl: "\<not> more_specific a a"
  using more_specific_asym by blast

lemma best_row_unique:
  assumes "(pat, ms) \<in> set tbl" and "fits pat p"
    and all: "\<forall>(pat', ms') \<in> set tbl. fits pat' p \<longrightarrow> pat' = pat \<and> ms' = ms \<or> more_specific (segs pat) (segs pat')"
  shows "best_row tbl p = Some ms"
proof -
  define rs where "rs = filter (\<lambda>(pat, ms). fits pat p) tbl"
  define Q where "Q = (\<lambda>(pat, ms). list_all (\<lambda>(pat', ms'). pat' = pat \<and> ms' = ms \<or> more_specific (segs pat) (segs pat')) rs)"
  have in_rs: "(pat, ms) \<in> set rs" using assms(1,2) by (simp add: rs_def)
  have Q: "Q (pat, ms)" using all by (auto simp: Q_def rs_def list_all_iff)
  have unique: "r = (pat, ms)" if "r \<in> set rs" "Q r" for r
  proof (cases r)
    case (Pair pat' ms')
    have "pat = pat' \<and> ms = ms' \<or> more_specific (segs pat') (segs pat)"
      using that(2) in_rs unfolding Pair Q_def by (auto simp: list_all_iff)
    moreover have "pat' = pat \<and> ms' = ms \<or> more_specific (segs pat) (segs pat')"
      using all that(1) unfolding Pair rs_def by auto
    ultimately show ?thesis using more_specific_asym Pair by blast
  qed
  have "find Q rs = Some (pat, ms)"
  proof (cases "find Q rs")
    case None
    then show ?thesis using in_rs Q unfolding find_None_iff by blast
  next
    case (Some r)
    then have "r \<in> set rs \<and> Q r" unfolding find_Some_iff by (metis nth_mem)
    then show ?thesis using Some unique by simp
  qed
  then show ?thesis by (simp add: best_row_def Let_def rs_def [symmetric] Q_def)
qed

lemma first_dispatch_law: "dispatches first_dispatch"
  unfolding dispatches_def
proof (intro conjI allI impI)
  fix tbl :: route_table and m p
  assume "\<forall>(pat, ms) \<in> set tbl. \<not> fits pat p"
  then have "filter (\<lambda>(pat, ms). fits pat p) tbl = []" by (auto simp: filter_empty_conv)
  then show "first_dispatch tbl m p = NoRoute" by (simp add: first_dispatch_def best_row_def)
qed (simp add: first_dispatch_def best_row_unique)

section \<open>The stack of layers\<close>

text \<open>The identifier a request goes on with, and the request as the handler gets it.\<close>

definition request_id_of :: "string \<Rightarrow> pipe_request \<Rightarrow> string" where
  "request_id_of uuid rq = (case x_request_id rq of None \<Rightarrow> uuid | Some i \<Rightarrow> i)"

definition handler_request :: "string \<Rightarrow> pipe_request \<Rightarrow> pipe_request" where
  "handler_request uuid rq = rq\<lparr>x_request_id := Some (request_id_of uuid rq)\<rparr>"

lemma handler_request_sel [simp]:
  "rq_method (handler_request u rq) = rq_method rq" "rq_path (handler_request u rq) = rq_path rq"
  "traceparent (handler_request u rq) = traceparent rq" "x_request_id (handler_request u rq) = Some (request_id_of u rq)"
  by (simp_all add: handler_request_def)

text \<open>What reaches the handlers, and how its answer is marked.\<close>

definition marked :: "string \<Rightarrow> pipe_request \<Rightarrow> 'b answer \<Rightarrow> 'b reply" where
  "marked uuid rq a = \<lparr>rp_answer = a, rp_request_id = Some (request_id_of uuid rq), rp_traceparent = traceparent rq\<rparr>"

definition counted :: "pipe_request \<Rightarrow> 'w node_state \<Rightarrow> 'w node_state" where
  "counted rq nd = nd\<lparr>nd_requests := nd_requests nd @ [(rq_method rq, normalize_path (rq_path rq))]\<rparr>"

lemma inner_layers:
  "tracing_layer (request_id_layer uuid (trace_context_layer (routed dispatch handle))) rq nd =
     (case dispatch app_routes (rq_method rq) (rq_path rq) of
        Routed h \<Rightarrow> (case handle h (handler_request uuid rq) (nd_world nd) of
            (w, Some b) \<Rightarrow> (counted rq (nd\<lparr>nd_world := w\<rparr>), Some (marked uuid rq (FromHandler b)))
          | (w, None) \<Rightarrow> (nd\<lparr>nd_world := w\<rparr>, None))
      | r \<Rightarrow> (counted rq nd, Some (marked uuid rq (RouteError r))))"
  by (auto simp: tracing_layer_def request_id_layer_def trace_context_layer_def routed_def handler_request_def request_id_of_def
      marked_def counted_def bare_def Let_def split: route_result.splits option.splits prod.splits)

text \<open>The gates before the handlers: the limit of the rate and the credentials.\<close>

definition gates :: "('w, 'b) call \<Rightarrow> pipe_request \<Rightarrow> 'w node_state \<Rightarrow> rate_limiter \<times> 'b reply option" where
  "gates cl rq nd =
     (case rate_limit_middleware (cl_refill cl) (nd_limiter nd) (request.truncate rq) of
        (l, m) \<Rightarrow> (l, case rejection m of
            Some r \<Rightarrow> Some r
          | None \<Rightarrow> rejection (auth_middleware (cl_verify cl) (nd_auth nd) (request.truncate rq))))"

lemma build_router_full:
  "cc_max (nd_counter nd) \<le> cc_current (nd_counter nd) \<Longrightarrow>
   build_router dispatch cl rq nd =
     (nd, bare (Rejected SERVICE_UNAVAILABLE ''connection_limit'' ''maximum connection limit reached''))"
  by (simp add: build_router_def timeout_layer_def connection_limit_layer_def counter_try_acquire_def)

lemma counter_release_acquired [simp]:
  "counter_release (c\<lparr>cc_current := cc_current c + 1\<rparr>) = c"
  by (simp add: counter_release_def)

lemma build_router_gated:
  assumes "cc_current (nd_counter nd) < cc_max (nd_counter nd)" and "gates cl rq nd = (l, Some r)"
  shows "build_router dispatch cl rq nd = (nd\<lparr>nd_limiter := l\<rparr>, r)"
  using assms
  by (auto simp: build_router_def timeout_layer_def connection_limit_layer_def counter_try_acquire_def rate_limit_layer_def
      auth_layer_def gates_def not_le [symmetric] split: prod.splits option.splits)

lemma build_router_passed:
  assumes "cc_current (nd_counter nd) < cc_max (nd_counter nd)" and "gates cl rq nd = (l, None)"
  shows "build_router dispatch cl rq nd =
     (let nd1 = nd\<lparr>nd_limiter := l\<rparr> in
      case dispatch app_routes (rq_method rq) (rq_path rq) of
        Routed h \<Rightarrow> (case cl_handle cl h (handler_request (cl_uuid cl) rq) (nd_world nd) of
            (w, Some b) \<Rightarrow> (counted rq (nd1\<lparr>nd_world := w\<rparr>), marked (cl_uuid cl) rq (FromHandler b))
          | (w, None) \<Rightarrow> (nd1\<lparr>nd_world := w, nd_counter := (nd_counter nd)\<lparr>cc_current := cc_current (nd_counter nd) + 1\<rparr>\<rparr>, bare TimedOut))
      | r \<Rightarrow> (counted rq nd1, marked (cl_uuid cl) rq (RouteError r)))"
proof -
  obtain m where rate: "rate_limit_middleware (cl_refill cl) (nd_limiter nd) (request.truncate rq) = (l, m)"
    and pass: "rejection m = (None :: 'b reply option)" "rejection (auth_middleware (cl_verify cl) (nd_auth nd) (request.truncate rq)) = (None :: 'b reply option)"
    using assms(2) by (auto simp: gates_def split: prod.splits option.splits)
  show ?thesis
    using assms(1) pass
    by (auto simp: build_router_def timeout_layer_def connection_limit_layer_def counter_try_acquire_def rate_limit_layer_def rate
        auth_layer_def inner_layers counted_def Let_def not_le [symmetric] split: prod.splits option.splits route_result.splits)
qed

lemma gates_rejected: "gates cl rq nd = (l, Some r) \<Longrightarrow> \<exists>st t e. r = bare (Rejected st t e)"
  unfolding gates_def by (cases "auth_middleware (cl_verify cl) (nd_auth nd) (request.truncate rq)")
    (auto split: prod.splits option.splits elim!: rejection.elims)

lemma gates_passed: "gates cl rq nd = (l, None) \<Longrightarrow> auth_middleware (cl_verify cl) (nd_auth nd) (request.truncate rq) = Next"
  by (cases "auth_middleware (cl_verify cl) (nd_auth nd) (request.truncate rq)") (auto simp: gates_def split: prod.splits option.splits)

text \<open>A request takes one of three ways through the stack.\<close>

lemma build_router_cases:
  obtains (full) "cc_max (nd_counter nd) \<le> cc_current (nd_counter nd)"
    | (rejected) l st t e where "cc_current (nd_counter nd) < cc_max (nd_counter nd)" "gates cl rq nd = (l, Some (bare (Rejected st t e)))"
    | (passed) l where "cc_current (nd_counter nd) < cc_max (nd_counter nd)" "gates cl rq nd = (l, None)"
proof (cases "cc_max (nd_counter nd) \<le> cc_current (nd_counter nd)")
  case False
  obtain l r where g: "gates cl rq nd = (l, r)" by fastforce
  then show ?thesis using False that(2,3) gates_rejected [of cl rq nd l] by (cases r) (auto simp: not_le)
qed (use that in blast)

text \<open>Requests one after another.\<close>

fun serve :: "(route_table \<Rightarrow> http_method \<Rightarrow> string \<Rightarrow> route_result) \<Rightarrow> (('w, 'b) call \<times> pipe_request) list \<Rightarrow> 'w node_state \<Rightarrow>
    'w node_state \<times> 'b reply list" where
  "serve dispatch [] nd = (nd, [])"
| "serve dispatch ((cl, rq) # qs) nd =
     (case build_router dispatch cl rq nd of (nd1, r) \<Rightarrow> (case serve dispatch qs nd1 of (nd2, rs) \<Rightarrow> (nd2, r # rs)))"

definition timed_out :: "'b reply list \<Rightarrow> nat" where
  "timed_out rs = length (filter (\<lambda>r. case rp_answer r of TimedOut \<Rightarrow> True | _ \<Rightarrow> False) rs)"

lemma timed_out_simps [simp]:
  "timed_out [] = 0" "timed_out (r # rs) = (case rp_answer r of TimedOut \<Rightarrow> 1 | _ \<Rightarrow> 0) + timed_out rs"
  by (auto simp: timed_out_def split: answer.splits)

lemma unat_inc:
  fixes c :: u64
  assumes "c < m"
  shows "unat (c + 1) = unat c + 1 \<and> c + 1 \<le> m"
proof -
  have "1 + c \<noteq> 0" "c + 1 \<le> m" using assms by uint_arith+
  then show "unat (c + 1) = unat c + 1 \<and> c + 1 \<le> m" using unatSuc [of c] by (simp add: add.commute)
qed

lemma build_router_counter:
  assumes "cc_current (nd_counter nd) \<le> cc_max (nd_counter nd)" and "build_router dispatch cl rq nd = (nd', r)"
  shows "unat (cc_current (nd_counter nd')) = unat (cc_current (nd_counter nd)) + timed_out [r] \<and>
    cc_current (nd_counter nd') \<le> cc_max (nd_counter nd') \<and> cc_max (nd_counter nd') = cc_max (nd_counter nd)"
proof (cases rule: build_router_cases [where nd = nd and cl = cl and rq = rq])
  case full
  then show ?thesis using assms build_router_full [OF full, of dispatch cl rq] by (auto simp: bare_def)
next
  case (rejected l st t e)
  then show ?thesis using assms build_router_gated [OF rejected, of dispatch] by (auto simp: bare_def)
next
  case (passed l)
  show ?thesis
    using assms unat_inc [OF passed(1)] unfolding build_router_passed [OF passed, of dispatch] Let_def
    by (auto simp: bare_def marked_def counted_def split: route_result.splits prod.splits option.splits)
qed

lemma serve_counter:
  assumes "cc_current (nd_counter nd) \<le> cc_max (nd_counter nd)" and "serve dispatch qs nd = (nd', rs)"
  shows "unat (cc_current (nd_counter nd')) = unat (cc_current (nd_counter nd)) + timed_out rs \<and> cc_max (nd_counter nd') = cc_max (nd_counter nd)"
  using assms
proof (induction qs arbitrary: nd rs)
  case (Cons q qs)
  obtain cl rq where q: "q = (cl, rq)" by fastforce
  obtain nd1 r where b: "build_router dispatch cl rq nd = (nd1, r)" by fastforce
  obtain rs1 where s: "serve dispatch qs nd1 = (nd', rs1)" "rs = r # rs1" using Cons.prems(2) by (auto simp: q b split: prod.splits)
  have step: "unat (cc_current (nd_counter nd1)) = unat (cc_current (nd_counter nd)) + timed_out [r]"
      "cc_current (nd_counter nd1) \<le> cc_max (nd_counter nd1)" "cc_max (nd_counter nd1) = cc_max (nd_counter nd)"
    using build_router_counter [OF Cons.prems(1) b] by blast+
  then show ?case using Cons.IH [OF step(2) s(1)] s(2) by (simp del: One_nat_def)
qed simp

section \<open>Properties\<close>

text \<open>
  C34. Connection slots leak: serving requests one after another, the counter of open connections
  ends where it began plus the number of requests that were cancelled by the deadline, because a
  cancelled request never reaches the call that releases its slot. As soon as as many requests have
  been cancelled as there are slots, every request is answered with 503, for ever.
\<close>

theorem cancelled_requests_keep_slots:
  assumes "cc_current (nd_counter nd) = 0" and "serve dispatch qs nd = (nd', rs)"
  shows "unat (cc_current (nd_counter nd')) = timed_out rs \<and>
    (timed_out rs = unat (cc_max (nd_counter nd)) \<longrightarrow>
       build_router dispatch cl rq nd' =
         (nd', bare (Rejected SERVICE_UNAVAILABLE ''connection_limit'' ''maximum connection limit reached'')))"
proof -
  have c: "unat (cc_current (nd_counter nd')) = timed_out rs" "cc_max (nd_counter nd') = cc_max (nd_counter nd)"
    using serve_counter [OF _ assms(2)] assms(1) by simp_all
  then show ?thesis using build_router_full [of nd' dispatch cl rq] by (auto simp: word_le_nat_alt)
qed

text \<open>A node with one connection slot and one key, of a reader, and a handler that counts its calls.\<close>

definition reader_node :: "nat node_state" where
  "reader_node = \<lparr>nd_auth = \<lparr>as_registry = fmupd ''rk'' (api_key_new ''rk'' Reader) fmempty, as_has_jwt = False, as_api_key = None\<rparr>,
     nd_limiter = \<lparr>buckets = fmempty, default_capacity = 5\<rparr>, nd_counter = counter_new 1, nd_requests = [], nd_world = 0\<rparr>"

definition reader_request :: "http_method \<Rightarrow> string \<Rightarrow> pipe_request" where
  "reader_request m p = \<lparr>rq_method = m, rq_path = p, x_api_key = Some ''rk'', authorization = None, x_request_id = None, traceparent = None\<rparr>"

definition counting_call :: "handler option \<Rightarrow> (nat, handler) call" where
  "counting_call a = \<lparr>cl_verify = (\<lambda>_. Inl (InvalidInput [])), cl_refill = 0, cl_uuid = ''u1'', cl_handle = (\<lambda>h rq w. (w + 1, a))\<rparr>"

theorem cancelled_requests_keep_slots_witness:
  "(let q = (counting_call None, reader_request GET ''/_stats'') in
    rp_answer (hd (snd (serve first_dispatch [q] reader_node))) = TimedOut \<and>
    rp_answer (snd (build_router first_dispatch (fst q) (snd q) (fst (serve first_dispatch [q] reader_node)))) =
      Rejected SERVICE_UNAVAILABLE ''connection_limit'' ''maximum connection limit reached'')"
proof -
  let ?cl = "counting_call None" and ?rq = "reader_request GET ''/_stats''"
  let ?s = "serve first_dispatch [(?cl, ?rq)] reader_node"
  have r: "map rp_answer (snd ?s) = [TimedOut]" by code_simp
  then have n: "timed_out (snd ?s) = 1" by (auto simp: timed_out_def map_eq_Cons_conv)
  have "build_router first_dispatch ?cl ?rq (fst ?s) =
      (fst ?s, bare (Rejected SERVICE_UNAVAILABLE ''connection_limit'' ''maximum connection limit reached''))"
    using cancelled_requests_keep_slots [of reader_node first_dispatch "[(?cl, ?rq)]" "fst ?s" "snd ?s" ?cl ?rq] n
    by (simp only: prod.collapse) (simp add: reader_node_def counter_new_def)
  then show ?thesis using r by (auto simp: Let_def bare_def map_eq_Cons_conv)
qed

text \<open>
  C6. Handlers run only with the role of the table: when a request presents a registered key and
  anything a handler keeps is changed, the request was routed to a handler, and the role of the
  key is at least the one of that handler, as the documentation gives it, lowered by the names in the
  path: to reader when a collection, document or alias name begins with \<^verbatim>\<open>_search\<close>, to writer
  when the collection to create or to delete is called \<^verbatim>\<open>docs...\<close> or \<^verbatim>\<open>_refresh...\<close>.
\<close>

theorem handlers_need_role:
  assumes "dispatches dispatch" and "x_api_key rq = Some k" and "registry_get (as_registry (nd_auth nd)) k = Some e"
    and "build_router dispatch cl rq nd = (nd', r)" and "nd_world nd' \<noteq> nd_world nd"
  shows "\<exists>h pat ms. (pat, ms) \<in> set app_routes \<and> fits pat (rq_path rq) \<and> allowed ms (rq_method rq) = Some h \<and>
    nd_world nd' = fst (cl_handle cl h (handler_request (cl_uuid cl) rq) (nd_world nd)) \<and>
    role_by_names h (captures pat (rq_path rq)) \<le> ak_role e"
proof (cases rule: build_router_cases [where nd = nd and cl = cl and rq = rq])
  case full
  then show ?thesis using assms(4,5) build_router_full [OF full, of dispatch cl rq] by simp
next
  case (rejected l st t er)
  then show ?thesis using assms(4,5) build_router_gated [OF rejected, of dispatch] by auto
next
  case (passed l)
  have key: "required_role (rq_method rq) (rq_path rq) \<le> ak_role e"
    using gates_passed [OF passed(2)] assms(2,3)
    by (auto simp: auth_middleware_def Let_def registry_is_empty_def registry_get_def has_permission_iff request.truncate_def split: if_splits)
  obtain h where h: "dispatch app_routes (rq_method rq) (rq_path rq) = Routed h"
      "nd_world nd' = fst (cl_handle cl h (handler_request (cl_uuid cl) rq) (nd_world nd))"
    using assms(4,5) unfolding build_router_passed [OF passed, of dispatch] Let_def
    by (auto simp: counted_def split: route_result.splits prod.splits option.splits)
  show ?thesis using role_of_route [OF assms(1) h(1)] h(2) key by metis
qed

theorem handlers_need_role_witness:
  "(let cl = counting_call (Some UpsertDocumentH); rq = reader_request PUT ''/collections/c/docs/_search1'';
        nd' = fst (build_router first_dispatch cl rq reader_node) in
    nd_world nd' = 1 \<and>
    (\<exists>h pat ms. (pat, ms) \<in> set app_routes \<and> fits pat ''/collections/c/docs/_search1'' \<and> allowed ms PUT = Some h \<and>
       nd_world nd' = fst (cl_handle cl h (handler_request ''u1'' rq) 0) \<and> role_by_names h (captures pat ''/collections/c/docs/_search1'') \<le> Reader))"
proof -
  let ?cl = "counting_call (Some UpsertDocumentH)" and ?rq = "reader_request PUT ''/collections/c/docs/_search1''"
  have w: "nd_world (fst (build_router first_dispatch ?cl ?rq reader_node)) = 1" by code_simp
  have "x_api_key ?rq = Some ''rk''" "registry_get (as_registry (nd_auth reader_node)) ''rk'' = Some (api_key_new ''rk'' Reader)"
    "nd_world reader_node = 0" "rq_path ?rq = ''/collections/c/docs/_search1''" "rq_method ?rq = PUT" "cl_uuid ?cl = ''u1''"
    "ak_role (api_key_new ''rk'' Reader) = Reader"
    by (simp_all add: reader_request_def reader_node_def registry_get_def counting_call_def api_key_new_def)
  note c = this
  show ?thesis
    using handlers_need_role [OF first_dispatch_law c(1,2), of ?cl "fst (build_router first_dispatch ?cl ?rq reader_node)"
        "snd (build_router first_dispatch ?cl ?rq reader_node)"] w
    unfolding Let_def c by simp
qed

text \<open>
  A reader writes documents: whoever holds a key with the role of a reader can write the
  document of every identifier that begins with \<^verbatim>\<open>_search\<close>, in every collection: the request passes
  the check of its role and the handler for upserts runs, although the documentation asks for the
  role of a writer.
\<close>

theorem reader_upserts_documents:
  assumes "dispatches dispatch" and "name \<noteq> []" and "CHR ''/'' \<notin> set name" and "CHR ''/'' \<notin> set rest"
    and "rq_path rq = ''/collections/'' @ name @ ''/docs/_search'' @ rest" and "rq_method rq = PUT"
    and "x_api_key rq = Some k" and "registry_get (as_registry (nd_auth nd)) k = Some e" and "ak_role e = Reader"
    and "cc_current (nd_counter nd) < cc_max (nd_counter nd)"
    and "rate_limit_middleware (cl_refill cl) (nd_limiter nd) (request.truncate rq) = (l, Next)"
  shows "nd_world (fst (build_router dispatch cl rq nd)) = fst (cl_handle cl UpsertDocumentH (handler_request (cl_uuid cl) rq) (nd_world nd))"
proof -
  have "segs (rq_path rq) = segs ([] @ CHR ''/'' # ''collections'' @ CHR ''/'' # name @ CHR ''/'' # ''docs'' @ CHR ''/'' # (''_search'' @ rest))"
    by (simp add: assms(5))
  also have "\<dots> = [[], ''collections'', name, ''docs'', ''_search'' @ rest]"
    using assms(3,4) by (simp only: segs_append) (simp add: segs_word)
  finally have ss: "segs (rq_path rq) = [[], ''collections'', name, ''docs'', ''_search'' @ rest]" .
  then have "required_role (rq_method rq) (rq_path rq) = Reader"
    by (simp add: required_role_segs assms(6) role_of_segs.simps some_seg_def)
  then have auth: "auth_middleware (cl_verify cl) (nd_auth nd) (request.truncate rq) = Next"
    using assms(7-9) by (auto simp: auth_middleware_def Let_def registry_is_empty_def registry_get_def has_permission_iff request.truncate_def)
  then have g: "gates cl rq nd = (l, None)" using assms(11) by (simp add: gates_def)
  have split: "app_routes = take 4 app_routes @ (''/collections/:name/docs/:id'', [(PUT, UpsertDocumentH), (GET, GetDocumentH), (DELETE, DeleteDocumentH)]) # drop 5 app_routes"
    by code_simp
  have pats: "map (segs \<circ> fst) (take 4 app_routes) = [[[], ''collections''], [[], ''collections'', '':name''], [[], ''collections'', '':name'', ''docs''],
      [[], ''collections'', '':name'', ''docs'', ''_bulk'']]" "segs ''/collections/:name/docs/:id'' = [[], ''collections'', '':name'', ''docs'', '':id'']"
    by code_simp+
  have "\<forall>ss' \<in> set (map (segs \<circ> fst) (take 4 app_routes)). \<not> list_all2 seg_fits ss' (segs (rq_path rq))"
    unfolding pats ss by (simp add: seg_fits_def is_capture_def)
  then have "\<forall>r \<in> set (take 4 app_routes). \<not> fits (fst r) (rq_path rq)" by (simp add: fits_def)
  moreover have "fits ''/collections/:name/docs/:id'' (rq_path rq)"
    unfolding fits_def pats ss using assms(2) by (simp add: seg_fits_def is_capture_def)
  ultimately have "dispatch app_routes (rq_method rq) (rq_path rq) = Routed UpsertDocumentH"
    using first_fit_dispatched [OF assms(1) split] by (simp add: assms(6) allowed_def)
  then show ?thesis
    unfolding build_router_passed [OF assms(10) g, of dispatch] Let_def
    by (simp add: counted_def split: prod.splits option.splits)
qed

text \<open>
  C35. Rejections happen outside the tracing: a request that is refused for the limit of connections, its
  rate or its credentials changes nothing but the token bucket, is not counted in the request
  metrics and gets no request identifier, not even the one it carried; every request that is
  answered by a handler or by the router is counted once and gets one.
\<close>

theorem rejected_requests_untraced:
  assumes "build_router dispatch cl rq nd = (nd', r)"
  shows "case rp_answer r of
      Rejected st t e \<Rightarrow> nd' = nd\<lparr>nd_limiter := nd_limiter nd'\<rparr> \<and> rp_request_id r = None
    | TimedOut \<Rightarrow> nd_requests nd' = nd_requests nd \<and> rp_request_id r = None
    | _ \<Rightarrow> nd_requests nd' = nd_requests nd @ [(rq_method rq, normalize_path (rq_path rq))] \<and>
        nd_counter nd' = nd_counter nd \<and> rp_request_id r = Some (request_id_of (cl_uuid cl) rq)"
proof (cases rule: build_router_cases [where nd = nd and cl = cl and rq = rq])
  case full
  then show ?thesis using assms build_router_full [OF full, of dispatch cl rq] by (auto simp: bare_def)
next
  case (rejected l st t er)
  then show ?thesis using assms build_router_gated [OF rejected, of dispatch] by (auto simp: bare_def)
next
  case (passed l)
  then show ?thesis using assms unfolding build_router_passed [OF passed, of dispatch] Let_def
    by (auto simp: bare_def counted_def marked_def split: route_result.splits prod.splits option.splits)
qed

theorem rejected_requests_untraced_witness:
  "(let rq = (reader_request DELETE ''/collections/c'')\<lparr>x_request_id := Some ''mine''\<rparr>;
        res = build_router first_dispatch (counting_call (Some DeleteCollectionH)) rq reader_node in
    rp_answer (snd res) = Rejected FORBIDDEN ''forbidden'' ''insufficient permissions'' \<and>
    rp_request_id (snd res) = None \<and> nd_requests (fst res) = [])"
proof -
  let ?rq = "(reader_request DELETE ''/collections/c'')\<lparr>x_request_id := Some ''mine''\<rparr>"
  let ?res = "build_router first_dispatch (counting_call (Some DeleteCollectionH)) ?rq reader_node"
  have a: "rp_answer (snd ?res) = Rejected FORBIDDEN ''forbidden'' ''insufficient permissions''" by code_simp
  have e: "fst ?res = reader_node\<lparr>nd_limiter := nd_limiter (fst ?res)\<rparr>" "rp_request_id (snd ?res) = None"
    using rejected_requests_untraced [of first_dispatch "counting_call (Some DeleteCollectionH)" ?rq reader_node "fst ?res" "snd ?res"]
    unfolding a by simp_all
  have "nd_requests (fst ?res) = nd_requests (reader_node\<lparr>nd_limiter := nd_limiter (fst ?res)\<rparr>)" by (rule arg_cong [OF e(1)])
  then have "nd_requests (fst ?res) = []" by (simp add: reader_node_def)
  then show ?thesis using a e(2) by (simp add: Let_def)
qed

text \<open>
  The limit of the rate is checked before the credentials, per value of \<^verbatim>\<open>X-API-Key\<close>: a key
  that was never seen, registered or not, has a full bucket of its own, which is then kept.
\<close>

theorem unseen_keys_not_limited:
  assumes "x_api_key rq = Some k" and "fmlookup (buckets l) k = None" and "1000 \<le> default_capacity l * 1000" and "refill = 0"
  shows "snd (rate_limit_middleware refill l rq) = Next \<and>
    fmdom (buckets (fst (rate_limit_middleware refill l rq))) = finsert k (fmdom (buckets l))"
  using assms
  by (auto simp: rate_limit_middleware_def limiter_try_acquire_def bucket_try_acquire_def bucket_refill_def bucket_take_def
      bucket_new_def fm_get_or_def Let_def not_less)

end
