(* ===== verification/Transport_Tls.thy ===== *)
theory Transport_Tls
  imports Security
begin

text \<open>
  Certificates and the encryption of both servers of a node: the loaders of
  \<^verbatim>\<open>crates/core/src/security.rs\<close> and the configurations of
  \<^verbatim>\<open>crates/network/src/tls.rs\<close>. The libraries \<^verbatim>\<open>rustls\<close> and
  \<^verbatim>\<open>rcgen\<close> are the parameters \<open>rustls\<close> and \<open>rcgen\<close>, the file system is a function from
  paths to an error or the contents; a configuration for \<^verbatim>\<open>tonic\<close> is what its builder
  was given.
\<close>

section \<open>Libraries\<close>

type_synonym files = "string \<Rightarrow> string + string"

record ('cert, 'key, 'roots, 'ver, 'cfg) rustls =
  ru_certs :: "string \<Rightarrow> string + 'cert list"
  ru_private_key :: "string \<Rightarrow> string + 'key option"
  ru_empty_roots :: 'roots
  ru_add_root :: "'roots \<Rightarrow> 'cert \<Rightarrow> string + 'roots"
  ru_verifier :: "'roots \<Rightarrow> string + 'ver"
  ru_single_cert :: "'ver option \<Rightarrow> 'cert list \<Rightarrow> 'key \<Rightarrow> string + 'cfg"
  ru_client_auth :: "'cfg \<Rightarrow> bool"

text \<open>A server asks its clients for a certificate exactly when it was built with a verifier.\<close>

definition rustls_laws :: "('cert, 'key, 'roots, 'ver, 'cfg) rustls \<Rightarrow> bool" where
  "rustls_laws ru \<longleftrightarrow> (\<forall>v cs k cfg. ru_single_cert ru v cs k = Inr cfg \<longrightarrow> ru_client_auth ru cfg = (v \<noteq> None))"

record ('params, 'pair) rcgen =
  rc_params :: "string list \<Rightarrow> string + 'params"
  rc_validity :: "nat \<times> nat \<times> nat \<Rightarrow> nat \<times> nat \<times> nat \<Rightarrow> 'params \<Rightarrow> 'params"
  rc_key_pair :: "string + 'pair"
  rc_self_signed :: "'params \<Rightarrow> 'pair \<Rightarrow> string + string"
  rc_serialize_pem :: "'pair \<Rightarrow> string"

text \<open>The question mark of the source: stop with the first error.\<close>

fun and_then :: "'a db_result \<Rightarrow> ('a \<Rightarrow> 'b db_result) \<Rightarrow> 'b db_result" where
  "and_then (Inl e) f = Inl e"
| "and_then (Inr a) f = f a"

lemma and_then_Inr: "and_then r f = Inr b \<longleftrightarrow> (\<exists>a. r = Inr a \<and> f a = Inr b)"
  by (cases r) auto

lemma and_then_Inl: "and_then r f = Inl e \<longleftrightarrow> r = Inl e \<or> (\<exists>a. r = Inr a \<and> f a = Inl e)"
  by (cases r) auto

fun or_storage_error :: "string \<Rightarrow> string + 'a \<Rightarrow> 'a db_result" where
  "or_storage_error msg (Inl e) = Inl (StorageError (msg @ e))"
| "or_storage_error msg (Inr a) = Inr a"

fun or_invalid_input :: "string \<Rightarrow> string + 'a \<Rightarrow> 'a db_result" where
  "or_invalid_input msg (Inl e) = Inl (InvalidInput (msg @ e))"
| "or_invalid_input msg (Inr a) = Inr a"

fun ok_or_invalid :: "string \<Rightarrow> 'a option \<Rightarrow> 'a db_result" where
  "ok_or_invalid msg None = Inl (InvalidInput msg)"
| "ok_or_invalid msg (Some a) = Inr a"

section \<open>Certificates\<close>

record self_signed_cert =
  cert_pem :: string
  key_pem :: string

definition generate_self_signed_cert :: "('params, 'pair) rcgen \<Rightarrow> string list \<Rightarrow> self_signed_cert db_result" where
  "generate_self_signed_cert rc subject_alt_names =
     and_then (or_invalid_input ''invalid SAN: '' (rc_params rc subject_alt_names)) (\<lambda>params.
     let params = rc_validity rc (2024, 1, 1) (2026, 12, 31) params in
     and_then (or_invalid_input ''key generation failed: '' (rc_key_pair rc)) (\<lambda>key_pair.
     and_then (or_invalid_input ''cert generation failed: '' (rc_self_signed rc params key_pair)) (\<lambda>cert.
     Inr \<lparr>cert_pem = cert, key_pem = rc_serialize_pem rc key_pair\<rparr>)))"

fun add_roots :: "('cert, 'key, 'roots, 'ver, 'cfg) rustls \<Rightarrow> 'roots \<Rightarrow> 'cert list \<Rightarrow> 'roots db_result" where
  "add_roots ru roots [] = Inr roots"
| "add_roots ru roots (c # cs) =
     and_then (or_storage_error ''invalid CA cert: '' (ru_add_root ru roots c)) (\<lambda>roots. add_roots ru roots cs)"

definition client_verifier ::
    "('cert, 'key, 'roots, 'ver, 'cfg) rustls \<Rightarrow> files \<Rightarrow> string \<Rightarrow> 'ver db_result" where
  "client_verifier ru fs ca_path =
     and_then (or_storage_error (''cannot open CA file '' @ quoted ca_path @ '': '') (fs ca_path)) (\<lambda>ca_file.
     and_then (or_storage_error ''invalid CA PEM: '' (ru_certs ru ca_file)) (\<lambda>ca_certs.
     and_then (add_roots ru (ru_empty_roots ru) ca_certs) (\<lambda>root_store.
     or_storage_error ''client verifier error: '' (ru_verifier ru root_store))))"

definition some_key :: "string \<Rightarrow> 'key option \<Rightarrow> 'key db_result" where
  "some_key msg k = (case k of None \<Rightarrow> Inl (StorageError msg) | Some k \<Rightarrow> Inr k)"

definition load_rustls_server_config ::
    "('cert, 'key, 'roots, 'ver, 'cfg) rustls \<Rightarrow> files \<Rightarrow> string \<Rightarrow> string \<Rightarrow> string option \<Rightarrow> 'cfg db_result" where
  "load_rustls_server_config ru fs cpath kpath capath =
     and_then (or_storage_error (''cannot open cert file '' @ quoted cpath @ '': '') (fs cpath)) (\<lambda>cert_file.
     and_then (or_storage_error ''invalid cert PEM: '' (ru_certs ru cert_file)) (\<lambda>certs.
     and_then (or_storage_error (''cannot open key file '' @ quoted kpath @ '': '') (fs kpath)) (\<lambda>key_file.
     and_then (or_storage_error ''invalid key PEM: '' (ru_private_key ru key_file)) (\<lambda>k.
     and_then (some_key ''no private key found in PEM file'' k) (\<lambda>key.
     case capath of
       Some ca_path \<Rightarrow>
         and_then (client_verifier ru fs ca_path) (\<lambda>v.
         or_storage_error ''TLS config error: '' (ru_single_cert ru (Some v) certs key))
     | None \<Rightarrow> or_storage_error ''TLS config error: '' (ru_single_cert ru None certs key))))))"

definition load_rustls_config_from_pem ::
    "('cert, 'key, 'roots, 'ver, 'cfg) rustls \<Rightarrow> string \<Rightarrow> string \<Rightarrow> 'cfg db_result" where
  "load_rustls_config_from_pem ru cpem kpem =
     and_then (or_storage_error ''invalid cert PEM: '' (ru_certs ru cpem)) (\<lambda>certs.
     and_then (or_storage_error ''invalid key PEM: '' (ru_private_key ru kpem)) (\<lambda>k.
     and_then (some_key ''no private key found in PEM'' k) (\<lambda>key.
     or_storage_error ''TLS config error: '' (ru_single_cert ru None certs key))))"

section \<open>The servers of a node\<close>

record tonic_server_tls =
  ts_identity :: "string \<times> string"
  ts_client_ca_root :: "string option"

record tonic_client_tls =
  tc_domain_name :: string
  tc_ca_certificate :: "string option"
  tc_identity :: "(string \<times> string) option"

definition load_tonic_identity :: "files \<Rightarrow> string \<Rightarrow> string \<Rightarrow> (string \<times> string) db_result" where
  "load_tonic_identity fs cpath kpath =
     and_then (or_storage_error (''cannot read cert '' @ quoted cpath @ '': '') (fs cpath)) (\<lambda>cert_pem.
     and_then (or_storage_error (''cannot read key '' @ quoted kpath @ '': '') (fs kpath)) (\<lambda>key_pem.
     Inr (cert_pem, key_pem)))"

definition load_tonic_ca_cert :: "files \<Rightarrow> string \<Rightarrow> string db_result" where
  "load_tonic_ca_cert fs ca_path = or_storage_error (''cannot read CA cert '' @ quoted ca_path @ '': '') (fs ca_path)"

definition build_grpc_server_tls :: "files \<Rightarrow> tls_config \<Rightarrow> tonic_server_tls option db_result" where
  "build_grpc_server_tls fs tls =
     (if \<not> tls_enabled tls then Inr None
      else
        and_then (ok_or_invalid ''TLS cert_path required'' (cert_path tls)) (\<lambda>cert.
        and_then (ok_or_invalid ''TLS key_path required'' (key_path tls)) (\<lambda>key.
        and_then (load_tonic_identity fs cert key) (\<lambda>identity.
        let config = \<lparr>ts_identity = identity, ts_client_ca_root = None\<rparr> in
        if mtls_enabled tls then
          and_then (ok_or_invalid ''mTLS ca_cert_path required'' (ca_cert_path tls)) (\<lambda>ca_path.
          and_then (load_tonic_ca_cert fs ca_path) (\<lambda>ca_cert.
          Inr (Some (config\<lparr>ts_client_ca_root := Some ca_cert\<rparr>))))
        else Inr (Some config)))))"

definition build_grpc_client_tls ::
    "files \<Rightarrow> string option \<Rightarrow> string option \<Rightarrow> string option \<Rightarrow> string \<Rightarrow> tonic_client_tls db_result" where
  "build_grpc_client_tls fs ca_path client_cert client_key domain_name =
     (let config = \<lparr>tc_domain_name = domain_name, tc_ca_certificate = None, tc_identity = None\<rparr> in
      and_then (case ca_path of
          None \<Rightarrow> Inr config
        | Some p \<Rightarrow> and_then (load_tonic_ca_cert fs p) (\<lambda>ca. Inr (config\<lparr>tc_ca_certificate := Some ca\<rparr>))) (\<lambda>config.
      case (client_cert, client_key) of
        (Some c, Some k) \<Rightarrow> and_then (load_tonic_identity fs c k) (\<lambda>i. Inr (config\<lparr>tc_identity := Some i\<rparr>))
      | _ \<Rightarrow> Inr config))"

definition load_http_tls_config ::
    "('cert, 'key, 'roots, 'ver, 'cfg) rustls \<Rightarrow> files \<Rightarrow> tls_config \<Rightarrow> 'cfg option db_result" where
  "load_http_tls_config ru fs tls =
     (if \<not> tls_enabled tls then Inr None
      else
        and_then (ok_or_invalid ''TLS cert_path required'' (cert_path tls)) (\<lambda>cert.
        and_then (ok_or_invalid ''TLS key_path required'' (key_path tls)) (\<lambda>key.
        let ca_path = if mtls_enabled tls then ca_cert_path tls else None in
        and_then (load_rustls_server_config ru fs cert key ca_path) (\<lambda>config. Inr (Some config)))))"

section \<open>Lemmas\<close>

lemma or_storage_error_Inr [simp]: "or_storage_error m r = Inr a \<longleftrightarrow> r = Inr a"
  by (cases r) auto

lemma ok_or_invalid_Inr [simp]: "ok_or_invalid m r = Inr a \<longleftrightarrow> r = Some a"
  by (cases r) auto

lemma server_config_client_auth:
  "rustls_laws ru \<Longrightarrow> load_rustls_server_config ru fs c k ca = Inr cfg \<Longrightarrow> ru_client_auth ru cfg = (ca \<noteq> None)"
  unfolding load_rustls_server_config_def rustls_laws_def by (cases ca) (fastforce simp: and_then_Inr)+

lemma http_client_auth:
  assumes "rustls_laws ru" and "load_http_tls_config ru fs tls = Inr (Some cfg)"
  shows "tls_enabled tls \<and> ru_client_auth ru cfg = (mtls_enabled tls \<and> ca_cert_path tls \<noteq> None)"
  using assms
  by (auto simp: load_http_tls_config_def Let_def and_then_Inr dest: server_config_client_auth split: if_splits)

lemma grpc_client_auth:
  assumes "build_grpc_server_tls fs tls = Inr (Some cfg)"
  shows "tls_enabled tls \<and> (ts_client_ca_root cfg \<noteq> None \<longleftrightarrow> mtls_enabled tls)"
  using assms by (auto simp: build_grpc_server_tls_def Let_def and_then_Inr split: if_splits)

section \<open>Properties\<close>

text \<open>
  C28. Clients are checked as configured: with settings that pass their validation, whatever the
  files contain, a server configuration for HTTP or for gRPC that was built asks clients for
  certificates exactly when mutual TLS is enabled, and none is built when TLS is disabled.
\<close>

theorem validated_tls_checks_clients:
  assumes "rustls_laws ru" and "tls_validate tls = Inr ()"
  shows "(case load_http_tls_config ru fs tls of
      Inr (Some cfg) \<Rightarrow> tls_enabled tls \<and> ru_client_auth ru cfg = mtls_enabled tls
    | Inr None \<Rightarrow> \<not> tls_enabled tls \<and> \<not> mtls_enabled tls
    | Inl e \<Rightarrow> tls_enabled tls) \<and>
    (case build_grpc_server_tls fs tls of
      Inr (Some cfg) \<Rightarrow> tls_enabled tls \<and> (ts_client_ca_root cfg \<noteq> None) = mtls_enabled tls
    | Inr None \<Rightarrow> \<not> tls_enabled tls \<and> \<not> mtls_enabled tls
    | Inl e \<Rightarrow> tls_enabled tls)"
proof
  have v: "mtls_enabled tls \<Longrightarrow> tls_enabled tls \<and> ca_cert_path tls \<noteq> None"
    using assms(2) by (auto simp: tls_validate_def split: if_splits)
  have none: "load_http_tls_config ru fs tls = Inr None \<Longrightarrow> \<not> tls_enabled tls"
    "build_grpc_server_tls fs tls = Inr None \<Longrightarrow> \<not> tls_enabled tls"
    by (auto simp: load_http_tls_config_def build_grpc_server_tls_def Let_def and_then_Inr split: if_splits)
  have err: "load_http_tls_config ru fs tls = Inl e \<Longrightarrow> tls_enabled tls" "build_grpc_server_tls fs tls = Inl e \<Longrightarrow> tls_enabled tls" for e
    by (auto simp: load_http_tls_config_def build_grpc_server_tls_def split: if_splits)
  show "case load_http_tls_config ru fs tls of
      Inr (Some cfg) \<Rightarrow> tls_enabled tls \<and> ru_client_auth ru cfg = mtls_enabled tls
    | Inr None \<Rightarrow> \<not> tls_enabled tls \<and> \<not> mtls_enabled tls
    | Inl e \<Rightarrow> tls_enabled tls"
    using v none(1) err(1) http_client_auth [OF assms(1), of fs tls] by (auto split: sum.splits option.splits)
  show "case build_grpc_server_tls fs tls of
      Inr (Some cfg) \<Rightarrow> tls_enabled tls \<and> (ts_client_ca_root cfg \<noteq> None) = mtls_enabled tls
    | Inr None \<Rightarrow> \<not> tls_enabled tls \<and> \<not> mtls_enabled tls
    | Inl e \<Rightarrow> tls_enabled tls"
    using v none(2) err(2) grpc_client_auth [of fs tls] by (auto split: sum.splits option.splits)
qed

text \<open>
  Neither builder validates the settings. With mutual TLS enabled and no certificate authority, the
  builder for gRPC stops with an error; the one for HTTP builds a server that accepts every client.
\<close>

theorem http_accepts_any_client:
  assumes "rustls_laws ru" and "mtls_enabled tls" and "ca_cert_path tls = None"
    and "load_http_tls_config ru fs tls = Inr (Some cfg)"
  shows "\<not> ru_client_auth ru cfg \<and> (\<nexists>g. build_grpc_server_tls fs tls = Inr (Some g))"
proof
  show "\<not> ru_client_auth ru cfg" using http_client_auth [OF assms(1,4)] assms(3) by simp
  show "\<nexists>g. build_grpc_server_tls fs tls = Inr (Some g)"
    using assms(2,3) by (auto simp: build_grpc_server_tls_def Let_def and_then_Inr split: if_splits)
qed

text \<open>An instance: certificates and keys are texts, and every parser accepts what is not empty.\<close>

definition plain_rustls :: "(string, string, string list, string list, string list option) rustls" where
  "plain_rustls = \<lparr>ru_certs = (\<lambda>s. if s = [] then Inl ''empty'' else Inr [s]),
     ru_private_key = (\<lambda>s. Inr (if s = [] then None else Some s)), ru_empty_roots = [],
     ru_add_root = (\<lambda>r c. Inr (r @ [c])), ru_verifier = (\<lambda>r. if r = [] then Inl ''no roots'' else Inr r),
     ru_single_cert = (\<lambda>v cs k. Inr v), ru_client_auth = (\<lambda>c. c \<noteq> None)\<rparr>"

definition mutual_tls :: tls_config where
  "mutual_tls = \<lparr>tls_enabled = True, cert_path = Some ''c.pem'', key_path = Some ''k.pem'', ca_cert_path = Some ''ca.pem'', mtls_enabled = True\<rparr>"

lemma plain_rustls_laws: "rustls_laws plain_rustls"
  by (auto simp: rustls_laws_def plain_rustls_def)

theorem validated_tls_checks_clients_witness:
  "load_http_tls_config plain_rustls Inr mutual_tls = Inr (Some (Some [''ca.pem''])) \<and>
   ru_client_auth plain_rustls (Some [''ca.pem'']) \<and> tls_validate mutual_tls = Inr ()"
proof -
  have v: "tls_validate mutual_tls = Inr ()" by (simp add: tls_validate_def mutual_tls_def)
  have h: "load_http_tls_config plain_rustls Inr mutual_tls = Inr (Some (Some [''ca.pem'']))" by code_simp
  then show ?thesis using validated_tls_checks_clients [OF plain_rustls_laws v, of Inr] v by (simp add: mutual_tls_def)
qed

end
