(* ===== verification/Access_Tokens.thy ===== *)
theory Access_Tokens
  imports Middleware Raft_Log Transport_Tls
begin

text \<open>
  Signed tokens, audit records and the security settings, the rest of
  \<^verbatim>\<open>crates/core/src/security.rs\<close>. Signing and checking a token is done by the library
  \<^verbatim>\<open>jsonwebtoken\<close>, the parameter \<open>jwt_lib\<close>: a token it made for some claims is decoded to them
  with the same secret until 60 seconds (its default tolerance) after they expire. The current
  time is an argument. The writer of the audit file is a task that consumes the entries in the order
  in which they were sent; serialising an entry, opening the file and writing to it are parameters.
\<close>

section \<open>Tokens\<close>

record jwt_lib =
  jl_encode :: "string \<Rightarrow> jwt_claims \<Rightarrow> string + string"
  jl_decode :: "string \<Rightarrow> u64 \<Rightarrow> string \<Rightarrow> string + jwt_claims"

definition jwt_laws :: "jwt_lib \<Rightarrow> bool" where
  "jwt_laws jl \<longleftrightarrow> (\<forall>s c t now. jl_encode jl s c = Inr t \<longrightarrow>
     (if unat (exp c) + 60 < unat now then \<exists>e. jl_decode jl s now t = Inl e else jl_decode jl s now t = Inr c))"

record jwt_manager =
  jm_secret :: string
  jm_ttl :: u64

definition jwt_manager_new :: "string \<Rightarrow> u64 \<Rightarrow> jwt_manager" where
  "jwt_manager_new secret ttl = \<lparr>jm_secret = secret, jm_ttl = ttl\<rparr>"

definition jwt_issue :: "jwt_lib \<Rightarrow> u64 \<Rightarrow> jwt_manager \<Rightarrow> string \<Rightarrow> role \<Rightarrow> string db_result" where
  "jwt_issue jl now jm subject r =
     (let claims = \<lparr>sub = subject, claim_role = role_display r, exp = now + jm_ttl jm, iat = now\<rparr>
      in or_invalid_input ''JWT encode error: '' (jl_encode jl (jm_secret jm) claims))"

definition jwt_verify :: "jwt_lib \<Rightarrow> u64 \<Rightarrow> jwt_manager \<Rightarrow> string \<Rightarrow> jwt_claims db_result" where
  "jwt_verify jl now jm token = or_invalid_input ''JWT verify error: '' (jl_decode jl (jm_secret jm) now token)"

section \<open>Audit records\<close>

record audit_entry =
  ae_timestamp :: string
  ae_user :: string
  ae_operation :: string
  ae_collection :: string
  ae_document_id :: "string option"
  ae_request_path :: string
  ae_request_id :: string
  ae_outcome :: string

text \<open>The time since the epoch, in seconds and milliseconds.\<close>

definition audit_entry_now :: "u64 \<times> u32 \<Rightarrow> string \<Rightarrow> string \<Rightarrow> string \<Rightarrow> audit_entry" where
  "audit_entry_now now user operation collection =
     \<lparr>ae_timestamp = dec (unat (fst now)) @ ''.'' @ zero_pad 3 (dec (unat (snd now))) @ ''Z'',
      ae_user = user, ae_operation = operation, ae_collection = collection, ae_document_id = None,
      ae_request_path = [], ae_request_id = [], ae_outcome = ''success''\<rparr>"

definition with_document_id :: "string \<Rightarrow> audit_entry \<Rightarrow> audit_entry" where
  "with_document_id i e = e\<lparr>ae_document_id := Some i\<rparr>"

definition with_request_path :: "string \<Rightarrow> audit_entry \<Rightarrow> audit_entry" where
  "with_request_path p e = e\<lparr>ae_request_path := p\<rparr>"

definition with_request_id :: "string \<Rightarrow> audit_entry \<Rightarrow> audit_entry" where
  "with_request_id i e = e\<lparr>ae_request_id := i\<rparr>"

definition with_outcome :: "string \<Rightarrow> audit_entry \<Rightarrow> audit_entry" where
  "with_outcome x e = e\<lparr>ae_outcome := x\<rparr>"

text \<open>
  The channel of a logger: the entries that were sent and not yet received, while its receiver
  exists. \<open>al_path\<close> is the file of its writer.
\<close>

record audit_logger =
  al_queue :: "audit_entry list"
  al_receiver :: bool
  al_path :: "string option"

definition audit_noop :: audit_logger where
  "audit_noop = \<lparr>al_queue = [], al_receiver = False, al_path = None\<rparr>"

text \<open>\<open>mkdir\<close> is the error of creating the parent directory of the path, if any.\<close>

definition audit_logger_new :: "(string \<Rightarrow> string option) \<Rightarrow> string \<Rightarrow> audit_logger db_result" where
  "audit_logger_new mkdir path =
     (case mkdir path of
        Some e \<Rightarrow> Inl (StorageError e)
      | None \<Rightarrow> Inr \<lparr>al_queue = [], al_receiver = True, al_path = Some path\<rparr>)"

definition audit_log :: "audit_entry \<Rightarrow> audit_logger \<Rightarrow> audit_logger" where
  "audit_log e al = (if al_receiver al then al\<lparr>al_queue := al_queue al @ [e]\<rparr> else al)"

record audit_io =
  ai_open :: "string option \<Rightarrow> string + string"
  ai_to_json :: "audit_entry \<Rightarrow> string + string"
  ai_append :: "string \<Rightarrow> string \<Rightarrow> string \<times> string option"

text \<open>The loop of the writer: the contents of the file after the entries.\<close>

fun audit_writer :: "audit_io \<Rightarrow> audit_entry list \<Rightarrow> string \<Rightarrow> string" where
  "audit_writer ai [] file = file"
| "audit_writer ai (e # es) file =
     (case ai_to_json ai e of
        Inr line \<Rightarrow> audit_writer ai es (fst (ai_append ai file (line @ [CHR 0x0A])))
      | Inl err \<Rightarrow> audit_writer ai es file)"

text \<open>
  The task as far as it has received: it opens the file first (\<open>old\<close> is its contents before, if it
  exists), and ends, which drops the receiver, when that fails.
\<close>

definition audit_task :: "audit_io \<Rightarrow> string option \<Rightarrow> audit_logger \<Rightarrow> audit_logger \<times> string option" where
  "audit_task ai old al =
     (if \<not> al_receiver al then (al, old)
      else case ai_open ai old of
        Inl e \<Rightarrow> (al\<lparr>al_queue := [], al_receiver := False\<rparr>, old)
      | Inr file \<Rightarrow> (al\<lparr>al_queue := []\<rparr>, Some (audit_writer ai (al_queue al) file)))"

section \<open>Settings\<close>

record resource_limits =
  rl_max_connections :: nat
  rl_disk_warning_threshold_pct :: u8
  rl_memory_limit_mb :: nat

definition resource_limits_default :: resource_limits where
  "resource_limits_default = \<lparr>rl_max_connections = 1000, rl_disk_warning_threshold_pct = 80, rl_memory_limit_mb = 0\<rparr>"

definition tls_config_default :: tls_config where
  "tls_config_default = \<lparr>tls_enabled = False, cert_path = None, key_path = None, ca_cert_path = None, mtls_enabled = False\<rparr>"

text \<open>The rate of the refill (a floating-point number) is left out.\<close>

record security_config =
  se_tls :: tls_config
  se_validation :: validation_config
  se_resource_limits :: resource_limits
  se_max_document_size_bytes :: nat
  se_jwt_secret :: string
  se_jwt_ttl_secs :: u64
  se_rate_limit_capacity :: u64
  se_audit_enabled :: bool
  se_audit_log_path :: string

definition security_config_default :: security_config where
  "security_config_default =
     \<lparr>se_tls = tls_config_default, se_validation = validation_config_default, se_resource_limits = resource_limits_default,
      se_max_document_size_bytes = 10 * 1024 * 1024, se_jwt_secret = [], se_jwt_ttl_secs = 3600,
      se_rate_limit_capacity = 100, se_audit_enabled = False, se_audit_log_path = ''data/audit.log''\<rparr>"

definition rate_limiter_new :: "u64 \<Rightarrow> rate_limiter" where
  "rate_limiter_new cap = \<lparr>buckets = fmempty, default_capacity = cap\<rparr>"

definition counter_active :: "connection_counter \<Rightarrow> u64" where
  "counter_active c = cc_current c"

section \<open>Lemmas\<close>

lemma role_from_display [simp]: "role_from_str (role_display r) = Inr r"
  by (cases r) (simp_all add: role_from_str_def, code_simp+)

lemma jwt_issue_verify:
  assumes "jwt_laws jl" and "jwt_issue jl now jm subject r = Inr t"
  shows "(unat (now + jm_ttl jm) + 60 < unat now' \<and> (\<exists>e. jwt_verify jl now' jm t = Inl e)) \<or>
    (unat now' \<le> unat (now + jm_ttl jm) + 60 \<and>
     jwt_verify jl now' jm t = Inr \<lparr>sub = subject, claim_role = role_display r, exp = now + jm_ttl jm, iat = now\<rparr>)"
proof -
  let ?c = "\<lparr>sub = subject, claim_role = role_display r, exp = now + jm_ttl jm, iat = now\<rparr>"
  have "jl_encode jl (jm_secret jm) ?c = Inr t"
    using assms(2) by (cases "jl_encode jl (jm_secret jm) ?c") (simp_all add: jwt_issue_def Let_def)
  then have "if unat (exp ?c) + 60 < unat now' then \<exists>e. jl_decode jl (jm_secret jm) now' t = Inl e
      else jl_decode jl (jm_secret jm) now' t = Inr ?c"
    using assms(1) unfolding jwt_laws_def by blast
  then show ?thesis by (auto simp: jwt_verify_def not_less split: if_splits)
qed

lemma audit_writer_appends:
  assumes "\<And>file line. ai_append ai file line = (file @ line, None)"
  shows "audit_writer ai es old = old @ concat (map (\<lambda>e. case ai_to_json ai e of Inr line \<Rightarrow> line @ [CHR 0x0A] | Inl _ \<Rightarrow> []) es)"
  by (induction es arbitrary: old) (auto simp: assms split: sum.splits)

lemma fold_audit_log: "al_receiver al \<Longrightarrow> fold audit_log es al = al\<lparr>al_queue := al_queue al @ es\<rparr>"
  by (induction es arbitrary: al) (simp_all add: audit_log_def)

lemma split_lines: "\<forall>l \<in> set ls. CHR 0x0A \<notin> set l \<Longrightarrow> split_on (CHR 0x0A) (concat (map (\<lambda>l. l @ [CHR 0x0A]) ls)) = ls @ [[]]"
proof (induction ls)
  case (Cons l ls)
  then have l: "CHR 0x0A \<notin> set l" by simp
  have "split_on (CHR 0x0A) (l @ CHR 0x0A # r) = l # split_on (CHR 0x0A) r" for r
    using l by (induction l) auto
  then show ?case using Cons by simp
qed simp

section \<open>Properties\<close>

text \<open>
  C27. An issued token gives its role, for its time: a request that presents a token issued for a
  role, and no registered key, is let through exactly when the role suffices for it, until 60
  seconds after the time to live has passed; then it is answered with 401. With an insufficient
  role it is answered with 403.
\<close>

theorem issued_token_authorises:
  assumes "jwt_laws jl" and "jwt_issue jl now jm subject r = Inr t"
    and "as_has_jwt st" and "authorization rq = Some (''Bearer '' @ t)" and "x_api_key rq = None"
  shows "auth_middleware (jwt_verify jl now' jm) st rq =
    (if unat (now + jm_ttl jm) + 60 < unat now' then Respond UNAUTHORIZED ''unauthorized'' ''invalid or expired JWT token''
     else if required_role (rq_method rq) (rq_path rq) \<le> r then Next
     else Respond FORBIDDEN ''forbidden'' ''insufficient permissions'')"
proof -
  have bearer: "strip_prefix ''Bearer '' (''Bearer '' @ t) = Some t" by (simp add: strip_prefix_eq_Some)
  consider (expired) e where "unat (now + jm_ttl jm) + 60 < unat now'" "jwt_verify jl now' jm t = Inl e"
    | (valid) "\<not> unat (now + jm_ttl jm) + 60 < unat now'"
        "jwt_verify jl now' jm t = Inr \<lparr>sub = subject, claim_role = role_display r, exp = now + jm_ttl jm, iat = now\<rparr>"
    using jwt_issue_verify [OF assms(1,2), of now'] by (auto simp: not_less)
  then show ?thesis
    by cases (use assms(3-5) bearer in \<open>simp_all add: auth_middleware_def Let_def less_eq_role_def\<close>)
qed

text \<open>
  The audit file is append-only: the entries of a logger on a new file are its lines, in the order in
  which they were logged; a logger whose file cannot be opened loses its entries silently.
\<close>

theorem audit_lines_exact:
  assumes "\<And>file line. ai_append ai file line = (file @ line, None)" and "\<And>e. ai_to_json ai e = Inr (j e)"
    and "\<And>e. CHR 0x0A \<notin> set (j e)" and "audit_logger_new mkdir path = Inr al"
  shows "ai_open ai None = Inr [] \<Longrightarrow>
      \<exists>file. snd (audit_task ai None (fold audit_log es al)) = Some file \<and> split_on (CHR 0x0A) file = map j es @ [[]]"
    and "ai_open ai old = Inl err \<Longrightarrow> snd (audit_task ai old (fold audit_log es al)) = old"
proof -
  have al: "al_receiver al" "al_queue al = []" using assms(4) by (auto simp: audit_logger_new_def split: option.splits)
  then have log: "fold audit_log es al = al\<lparr>al_queue := es\<rparr>" using fold_audit_log [of al es] by simp
  show "ai_open ai old = Inl err \<Longrightarrow> snd (audit_task ai old (fold audit_log es al)) = old"
    by (simp add: log audit_task_def al)
  assume "ai_open ai None = Inr []"
  moreover have "concat (map (\<lambda>e. j e @ [CHR 0x0A]) es) = concat (map (\<lambda>l. l @ [CHR 0x0A]) (map j es))" by (simp add: comp_def)
  moreover have "split_on (CHR 0x0A) (concat (map (\<lambda>l. l @ [CHR 0x0A]) (map j es))) = map j es @ [[]]"
    using assms(3) by (intro split_lines) auto
  ultimately show "\<exists>file. snd (audit_task ai None (fold audit_log es al)) = Some file \<and> split_on (CHR 0x0A) file = map j es @ [[]]"
    by (simp add: log audit_task_def al audit_writer_appends [OF assms(1)] assms(2))
qed

text \<open>An instance: a token is the secret, the subject, the first letter of the role and the times in unary.\<close>

definition unary_jwt :: jwt_lib where
  "unary_jwt =
     \<lparr>jl_encode = (\<lambda>s c. if exp c < 16 \<and> iat c = 0 \<and> sub c = ''u'' \<and> claim_role c = ''writer''
                       then Inr (replicate (unat (exp c)) (CHR ''x'')) else Inl ''unsupported''),
      jl_decode = (\<lambda>s now t. if length t + 60 < unat now then Inl ''ExpiredSignature''
                       else Inr \<lparr>sub = ''u'', claim_role = ''writer'', exp = of_nat (length t), iat = 0\<rparr>)\<rparr>"

lemma unary_jwt_laws: "jwt_laws unary_jwt"
  by (auto simp: jwt_laws_def unary_jwt_def split: if_splits)

definition token_request :: "http_method \<Rightarrow> string \<Rightarrow> string \<Rightarrow> request" where
  "token_request m p t = \<lparr>rq_method = m, rq_path = p, x_api_key = None, authorization = Some (''Bearer '' @ t)\<rparr>"

theorem issued_token_authorises_witness:
  "(let jm = jwt_manager_new ''s'' 3; st = \<lparr>as_registry = fmempty, as_has_jwt = True, as_api_key = None\<rparr> in
    jwt_issue unary_jwt 0 jm ''u'' Writer = Inr ''xxx'' \<and>
    auth_middleware (jwt_verify unary_jwt 63 jm) st (token_request POST ''/collections/c/docs'' ''xxx'') = Next \<and>
    auth_middleware (jwt_verify unary_jwt 64 jm) st (token_request POST ''/collections/c/docs'' ''xxx'') =
      Respond UNAUTHORIZED ''unauthorized'' ''invalid or expired JWT token'' \<and>
    auth_middleware (jwt_verify unary_jwt 63 jm) st (token_request DELETE ''/collections/c'' ''xxx'') =
      Respond FORBIDDEN ''forbidden'' ''insufficient permissions'')"
proof -
  let ?jm = "jwt_manager_new ''s'' 3" and ?st = "\<lparr>as_registry = fmempty, as_has_jwt = True, as_api_key = None\<rparr> :: auth_state"
  have i: "jwt_issue unary_jwt 0 ?jm ''u'' Writer = Inr ''xxx''" by code_simp
  have roles: "required_role POST ''/collections/c/docs'' = Writer" "required_role DELETE ''/collections/c'' = Admin" by code_simp+
  note auth = issued_token_authorises [OF unary_jwt_laws i, of ?st "token_request m p ''xxx''" for m p]
  show ?thesis
    unfolding Let_def
    by (intro conjI; (rule i | subst auth)) (simp_all add: token_request_def jwt_manager_new_def roles less_eq_role_def)
qed

end
