(* ===== verification/Raft_Startup.thy ===== *)
theory Raft_Startup
  imports State_Machine Config Transport_Tls Cluster_Admin
begin

text \<open>
  How a node becomes a member of a Raft cluster: the constructors of
  \<^verbatim>\<open>crates/consensus/src/raft_node.rs\<close> with the log store they choose, and the two in-process
  networks of \<^verbatim>\<open>crates/consensus/src/network.rs\<close>. The consensus library
  (\<^verbatim>\<open>openraft\<close>) is the parameter \<open>raft_lib\<close>, the calls of a running instance are the
  parameter \<open>raft_handle\<close>.
\<close>

section \<open>In-process networks\<close>

datatype rpc_error = Unreachable string | NetworkFailure string

text \<open>\<open>'w\<close> is the state of all instances; a call that is answered may have changed it.\<close>

record ('w, 'a, 'ar, 's, 'sr, 'v, 'vr) raft_handle =
  rh_append_entries :: "'a \<Rightarrow> 'w \<Rightarrow> 'w \<times> (string + 'ar)"
  rh_install_snapshot :: "'s \<Rightarrow> 'w \<Rightarrow> 'w \<times> (string + 'sr)"
  rh_vote :: "'v \<Rightarrow> 'w \<Rightarrow> 'w \<times> (string + 'vr)"

definition stub_call :: "'a \<Rightarrow> 'w \<Rightarrow> 'w \<times> (rpc_error + 'r)" where
  "stub_call rpc w = (w, Inl (Unreachable ''stub network: gRPC not yet implemented''))"

definition get_target ::
    "(u64, ('w, 'a, 'ar, 's, 'sr, 'v, 'vr) raft_handle) fmap \<Rightarrow> u64 \<Rightarrow> rpc_error + ('w, 'a, 'ar, 's, 'sr, 'v, 'vr) raft_handle" where
  "get_target routers target =
     (case fmlookup routers target of
        Some h \<Rightarrow> Inr h
      | None \<Rightarrow> Inl (Unreachable (''node '' @ dec (unat target) @ '' not found in router map'')))"

fun network_error :: "'w \<times> (string + 'r) \<Rightarrow> 'w \<times> (rpc_error + 'r)" where
  "network_error (w, Inl e) = (w, Inl (NetworkFailure e))"
| "network_error (w, Inr r) = (w, Inr r)"

definition channel_append_entries ::
    "(u64, ('w, 'a, 'ar, 's, 'sr, 'v, 'vr) raft_handle) fmap \<Rightarrow> u64 \<Rightarrow> 'a \<Rightarrow> 'w \<Rightarrow> 'w \<times> (rpc_error + 'ar)" where
  "channel_append_entries routers target rpc w =
     (case get_target routers target of Inl e \<Rightarrow> (w, Inl e) | Inr raft \<Rightarrow> network_error (rh_append_entries raft rpc w))"

text \<open>\<open>show\<close> is the text of an error.\<close>

definition channel_install_snapshot ::
    "(rpc_error \<Rightarrow> string) \<Rightarrow> (u64, ('w, 'a, 'ar, 's, 'sr, 'v, 'vr) raft_handle) fmap \<Rightarrow> u64 \<Rightarrow> 's \<Rightarrow> 'w \<Rightarrow> 'w \<times> (rpc_error + 'sr)" where
  "channel_install_snapshot show_error routers target rpc w =
     (case get_target routers target of
        Inl e \<Rightarrow> (w, Inl (NetworkFailure (show_error e)))
      | Inr raft \<Rightarrow> network_error (rh_install_snapshot raft rpc w))"

definition channel_vote ::
    "(u64, ('w, 'a, 'ar, 's, 'sr, 'v, 'vr) raft_handle) fmap \<Rightarrow> u64 \<Rightarrow> 'v \<Rightarrow> 'w \<Rightarrow> 'w \<times> (rpc_error + 'vr)" where
  "channel_vote routers target rpc w =
     (case get_target routers target of Inl e \<Rightarrow> (w, Inl e) | Inr raft \<Rightarrow> network_error (rh_vote raft rpc w))"

section \<open>Constructing a node\<close>

record raft_config =
  heartbeat_interval :: u64
  election_timeout_min :: u64
  election_timeout_max :: u64

datatype ('ldb, 'l, 'p, 'v) log_store = MemLog "('l, 'p, 'v) log_inner" | DurableLog 'ldb

record ('net, 'ls, 'sm, 'raft) raft_lib =
  rf_validate :: "raft_config \<Rightarrow> string option"
  rf_new :: "u64 \<Rightarrow> raft_config \<Rightarrow> 'net \<Rightarrow> 'ls \<Rightarrow> 'sm \<Rightarrow> string + 'raft"
  rf_initialize :: "(u64, string) fmap \<Rightarrow> 'raft \<Rightarrow> 'raft \<times> string option"

record 'raft raft_node =
  rn_raft :: 'raft
  rn_node_id :: u64

definition node_raft_config :: raft_config where
  "node_raft_config = \<lparr>heartbeat_interval = 500, election_timeout_min = 1500, election_timeout_max = 3000\<rparr>"

definition test_raft_config :: raft_config where
  "test_raft_config = \<lparr>heartbeat_interval = 200, election_timeout_min = 500, election_timeout_max = 1000\<rparr>"

definition validated :: "('net, 'ls, 'sm, 'raft) raft_lib \<Rightarrow> raft_config \<Rightarrow> raft_config db_result" where
  "validated rf c = (case rf_validate rf c of Some e \<Rightarrow> Inl (ConsensusError (''invalid raft config: '' @ e)) | None \<Rightarrow> Inr c)"

definition raft_create ::
    "('net, 'ls, 'sm, 'raft) raft_lib \<Rightarrow> u64 \<Rightarrow> raft_config \<Rightarrow> 'net \<Rightarrow> 'ls \<Rightarrow> 'sm \<Rightarrow> 'raft raft_node db_result" where
  "raft_create rf node_id c network ls sm =
     (case rf_new rf node_id c network ls sm of
        Inl e \<Rightarrow> Inl (ConsensusError (''failed to create raft node: '' @ e))
      | Inr raft \<Rightarrow> Inr \<lparr>rn_raft = raft, rn_node_id = node_id\<rparr>)"

definition raft_node_new ::
    "('net, ('ldb, 'l, 'p, 'v) log_store, ('s, 'i, 'l, 'm) state_machine, 'raft) raft_lib \<Rightarrow> 'net \<Rightarrow> 'm \<Rightarrow> node_config \<Rightarrow> 's \<Rightarrow> 'i \<Rightarrow>
     'raft raft_node db_result" where
  "raft_node_new rf stub m0 config storage index =
     and_then (validated rf node_raft_config) (\<lambda>c.
       raft_create rf (as_u64 (nc_node_id config)) c stub (MemLog log_inner_new) (sm_new m0 storage index))"

text \<open>\<open>mkdir\<close> is the error of creating a directory, if any; \<open>open_log\<close> opens the database of the log in it.\<close>

definition new_with_network ::
    "('net, ('ldb, 'l, 'p, 'v) log_store, ('s, 'i, 'l, 'm) state_machine, 'raft) raft_lib \<Rightarrow> (string \<Rightarrow> string option) \<Rightarrow> (string \<Rightarrow> string + 'ldb) \<Rightarrow>
     'm \<Rightarrow> node_config \<Rightarrow> 's \<Rightarrow> 'i \<Rightarrow> 'net \<Rightarrow> 'raft raft_node db_result" where
  "new_with_network rf mkdir open_log m0 config storage index network =
     and_then (validated rf node_raft_config) (\<lambda>c.
       let sm = sm_new m0 storage index;
           node_id = as_u64 (nc_node_id config);
           raft_log_dir = nc_data_dir config @ ''/raft-log'' in
       case mkdir raft_log_dir of
         Some e \<Rightarrow> raft_create rf node_id c network (MemLog log_inner_new) sm
       | None \<Rightarrow> (case open_log raft_log_dir of
             Inr db \<Rightarrow> raft_create rf node_id c network (DurableLog db) sm
           | Inl e \<Rightarrow> raft_create rf node_id c network (MemLog log_inner_new) sm))"

text \<open>\<^verbatim>\<open>new_with_backends\<close> and \<^verbatim>\<open>new_with_any_network\<close> differ in the type of the network only.\<close>

definition new_with_any_network ::
    "('net, ('ldb, 'l, 'p, 'v) log_store, ('s, 'i, 'l, 'm) state_machine, 'raft) raft_lib \<Rightarrow> 'm \<Rightarrow> u64 \<Rightarrow> 'net \<Rightarrow> 's \<Rightarrow> 'i \<Rightarrow> ('raft raft_node \<times> 'raft) db_result" where
  "new_with_any_network rf m0 node_id network storage index =
     and_then (validated rf test_raft_config) (\<lambda>c.
     and_then (raft_create rf node_id c network (MemLog log_inner_new) (sm_new m0 storage index)) (\<lambda>rn.
       Inr (rn, rn_raft rn)))"

definition new_with_channel_network ::
    "('net, ('ldb, 'l, 'p, 'v) log_store, (in_memory_storage, unit, 'l, 'm) state_machine, 'raft) raft_lib \<Rightarrow> 'm \<Rightarrow> u64 \<Rightarrow> 'net \<Rightarrow> ('raft raft_node \<times> 'raft) db_result" where
  "new_with_channel_network rf m0 node_id network = new_with_any_network rf m0 node_id network im_new ()"

definition raft_initialize ::
    "('net, 'ls, 'sm, 'raft) raft_lib \<Rightarrow> (u64, string) fmap \<Rightarrow> 'raft raft_node \<Rightarrow> 'raft raft_node \<times> unit db_result" where
  "raft_initialize rf members rn =
     (case rf_initialize rf members (rn_raft rn) of
        (raft, Some e) \<Rightarrow> (rn\<lparr>rn_raft := raft\<rparr>, Inl (ConsensusError (''initialize failed: '' @ e)))
      | (raft, None) \<Rightarrow> (rn\<lparr>rn_raft := raft\<rparr>, Inr ()))"

section \<open>Restarting\<close>

text \<open>What an instance reads from its log store when it starts.\<close>

fun store_read_vote :: "'ldb raft_db \<Rightarrow> ('l, 'p, 'v) log_codec \<Rightarrow> ('ldb, 'l, 'p, 'v) log_store \<Rightarrow> string + 'v option" where
  "store_read_vote rd jc (MemLog s) = Inr (mem_read_vote s)"
| "store_read_vote rd jc (DurableLog db) = rl_read_vote rd jc db"

fun store_log_state ::
    "'ldb raft_db \<Rightarrow> ('l, 'p, 'v) log_codec \<Rightarrow> ('ldb, 'l, 'p, 'v) log_store \<Rightarrow> string + 'l log_state" where
  "store_log_state rd jc (MemLog s) = Inr (mem_get_log_state s)"
| "store_log_state rd jc (DurableLog db) = rl_get_log_state rd jc db"

lemma raft_created:
  assumes "\<And>c ls sm. \<exists>raft. rf_new rf node_id c network ls sm = Inr raft \<and> log_of raft = ls"
  shows "\<exists>rn. raft_create rf node_id c network ls sm = Inr rn \<and> rn_node_id rn = node_id \<and> log_of (rn_raft rn) = ls"
  using assms [of c ls sm] by (auto simp: raft_create_def)

section \<open>Properties\<close>

text \<open>
  C33. A restarted node may forget its vote. A node whose log store was driven by any sequence of calls
  starts again with the vote and the log these calls left when its directory and database can be
  opened. When either cannot, the node starts just as well, with an empty log and no vote, whatever
  it has voted for and promised to keep before.
\<close>

theorem restarted_node_log:
  assumes "raft_db_laws rd" and "log_codec_laws jc" and "db_view rd db0 = fmempty" and "rl_run rd jc ops db0 = Inr db"
    and "rf_validate rf node_raft_config = None"
    and "\<And>c ls sm. \<exists>raft. rf_new rf (as_u64 (nc_node_id config)) c network ls sm = Inr raft \<and> log_of raft = ls"
  shows "(mkdir (nc_data_dir config @ ''/raft-log'') = None \<and> open_log (nc_data_dir config @ ''/raft-log'') = Inr db \<longrightarrow>
      (\<exists>rn. new_with_network rf mkdir open_log m0 config s i network = Inr rn \<and>
         store_read_vote rd jc (log_of (rn_raft rn)) = Inr (mem_read_vote (fold mem_step ops log_inner_new)) \<and>
         store_log_state rd jc (log_of (rn_raft rn)) = Inr (mem_get_log_state (fold mem_step ops log_inner_new)))) \<and>
    (mkdir (nc_data_dir config @ ''/raft-log'') \<noteq> None \<or> open_log (nc_data_dir config @ ''/raft-log'') = Inl e \<longrightarrow>
      (\<exists>rn. new_with_network rf mkdir open_log m0 config s i network = Inr rn \<and>
         store_read_vote rd jc (log_of (rn_raft rn)) = Inr None \<and> store_log_state rd jc (log_of (rn_raft rn)) = Inr \<lparr>last_purged_log_id = None, last_log_id = None\<rparr>))"
proof -
  have rel: "log_rel rd jc db (fold mem_step ops log_inner_new)"
    using rl_run_sim [OF assms(1,2) log_rel_empty [OF assms(3)], of ops] assms(4) by auto
  have fresh: "mem_read_vote log_inner_new = None" "mem_get_log_state log_inner_new = \<lparr>last_purged_log_id = None, last_log_id = None\<rparr>"
    by (simp_all add: mem_read_vote_def mem_get_log_state_def log_inner_new_def btree_iter_def sorted_list_of_fset.rep_eq)
  note created = raft_created [OF assms(6), of node_raft_config]
  show ?thesis
    using created [of "DurableLog db" "sm_new m0 s i"] created [of "MemLog log_inner_new" "sm_new m0 s i"]
      reads_sim(1) [OF assms(1,2) rel] get_log_state_sim [OF assms(1,2) rel] fresh
    by (auto simp: new_with_network_def validated_def assms(5) Let_def split: option.splits sum.splits)
qed

text \<open>An instance that only keeps its log store.\<close>

definition keeping_raft :: "(unit, ((bytes, bytes) fmap, bool, string, string) log_store, (unit, unit, bool, unit) state_machine, ((bytes, bytes) fmap, bool, string, string) log_store) raft_lib" where
  "keeping_raft = \<lparr>rf_validate = (\<lambda>c. if heartbeat_interval c < election_timeout_min c then None else Some ''timeouts''),
     rf_new = (\<lambda>i c n ls sm. Inr ls), rf_initialize = (\<lambda>ms r. (r, None))\<rparr>"

theorem restarted_node_log_witness:
  "(\<exists>rn. new_with_network keeping_raft (\<lambda>_. None) (\<lambda>_. Inr (fmupd VOTE_KEY ''v'' fmempty)) () node_config_default () () () = Inr rn \<and>
     store_read_vote map_db id_codec (rn_raft rn) = Inr (Some ''v'')) \<and>
   (\<exists>rn. new_with_network keeping_raft (\<lambda>_. None) (\<lambda>_. Inl ''lock held'') () node_config_default () () () = Inr rn \<and>
     store_read_vote map_db id_codec (rn_raft rn) = Inr None)"
proof -
  have run: "rl_run map_db id_codec [LSaveVote ''v''] fmempty = Inr (fmupd VOTE_KEY ''v'' fmempty)"
    by (simp add: rl_save_vote_def map_db_def id_codec_def)
  have empty: "db_view map_db fmempty = fmempty" by (simp add: map_db_def)
  have valid: "rf_validate keeping_raft node_raft_config = None" by (simp add: keeping_raft_def node_raft_config_def)
  have new: "\<exists>raft. rf_new keeping_raft i c () ls sm = Inr raft \<and> id raft = ls" for i c ls sm by (simp add: keeping_raft_def)
  have vote: "mem_read_vote (fold mem_step [LSaveVote ''v''] log_inner_new) = Some ''v''"
    by (simp add: mem_read_vote_def mem_save_vote_def)
  note restart = restarted_node_log [where config = node_config_default and mkdir = "\<lambda>_. None" and s = "()" and i = "()",
      OF map_db_laws id_codec_laws empty run valid new]
  show ?thesis
    using restart [where open_log = "\<lambda>_. Inr (fmupd VOTE_KEY ''v'' fmempty)" and e = "[]"]
      restart [where open_log = "\<lambda>_. Inl ''lock held''" and e = "''lock held''"] vote
    by auto
qed

text \<open>
  A call over the channel network reaches exactly the registered instance, whose answer is
  returned; without one the state of the cluster is unchanged and the error is one of the transport.
\<close>

theorem channel_calls_exact:
  "channel_append_entries routers target a w =
     (case fmlookup routers target of
        None \<Rightarrow> (w, Inl (Unreachable (''node '' @ dec (unat target) @ '' not found in router map'')))
      | Some h \<Rightarrow> (case rh_append_entries h a w of (w', Inr r) \<Rightarrow> (w', Inr r) | (w', Inl e) \<Rightarrow> (w', Inl (NetworkFailure e))))"
  "channel_vote routers target v w =
     (case fmlookup routers target of
        None \<Rightarrow> (w, Inl (Unreachable (''node '' @ dec (unat target) @ '' not found in router map'')))
      | Some h \<Rightarrow> (case rh_vote h v w of (w', Inr r) \<Rightarrow> (w', Inr r) | (w', Inl e) \<Rightarrow> (w', Inl (NetworkFailure e))))"
  by (auto simp: channel_append_entries_def channel_vote_def get_target_def split: option.splits sum.splits prod.splits)

end
