(* ===== verification/Startup.thy ===== *)
theory Startup
  imports Raft_Startup Access_Tokens Request_Pipeline Tantivy_Index Write_Batcher Snapshots
begin

text \<open>
  The start of a node, \<^verbatim>\<open>crates/node/src/main.rs\<close>: after the configuration (theory
  \<open>Config\<close>), the steps that open the stores and build the state of the handlers, composed of the
  constructors of the other theories in the order of the source. A failing step that ends the
  process is a value of \<open>startup_exit\<close>. What the environment answers (directories, databases,
  sockets) are arguments. The metrics, the log records and the background tasks are left out, and so is
  what joining a cluster does (\<open>Cluster_Admin\<close>): the peer to join is a component of the result.
\<close>

section \<open>Security components\<close>

definition startup_registry :: "node_config \<Rightarrow> api_key_registry" where
  "startup_registry config =
     (case nc_api_key config of
        Some key \<Rightarrow> fmupd key ((api_key_new key Admin)\<lparr>ak_description := ''legacy config key''\<rparr>) fmempty
      | None \<Rightarrow> fmempty)"

definition startup_jwt :: "security_config \<Rightarrow> jwt_manager option" where
  "startup_jwt sc = (if se_jwt_secret sc \<noteq> [] then Some (jwt_manager_new (se_jwt_secret sc) (se_jwt_ttl_secs sc)) else None)"

definition startup_audit :: "(string \<Rightarrow> string option) \<Rightarrow> security_config \<Rightarrow> audit_logger" where
  "startup_audit mkdir sc =
     (if se_audit_enabled sc then (case audit_logger_new mkdir (se_audit_log_path sc) of Inr al \<Rightarrow> al | Inl e \<Rightarrow> audit_noop)
      else audit_noop)"

section \<open>The steps\<close>

datatype startup_exit =
    BadConfig db_error | NoDirectory string | NoStorage db_error | NoIndex db_error | NoRaft db_error
  | BadGrpcAddress string | NoGrpcListener string | NoHttpListener string

record ('db, 'ldb, 'x, 'd) environment =
  ev_mkdir :: "string \<Rightarrow> string option"
  ev_rocks :: "'db rocks"
  ev_disk :: 'db
  ev_index :: "('x, 'd) index_env"
  ev_index_dirs :: "(string, 'd) fmap"
  ev_open_log :: "string \<Rightarrow> string + 'ldb"
  ev_parse_addr :: "string \<Rightarrow> string option"
  ev_bind :: "string \<Rightarrow> string option"
  ev_now :: nat

record ('db, 'x, 'd, 'raft, 'ch, 'c) started_node =
  sd_app :: "('db rocksdb_storage \<times> ('x, 'd) tantivy_index \<times> 'raft raft_node, 'ch, 'c) app_state"
  sd_manager :: "'ch cluster_manager"
  sd_batcher :: write_batcher
  sd_snapshots :: snapshot_config
  sd_layers :: "unit node_state"
  sd_jwt :: "jwt_manager option"
  sd_validation :: validation_config
  sd_audit :: audit_logger
  sd_security :: security_config
  sd_join :: "node_address option"

text \<open>The first directory that cannot be created ends the process.\<close>

fun create_dirs :: "(string \<Rightarrow> string option) \<Rightarrow> string list \<Rightarrow> startup_exit + unit" where
  "create_dirs mkdir [] = Inr ()"
| "create_dirs mkdir (d # ds) = (case mkdir d of Some e \<Rightarrow> Inl (NoDirectory d) | None \<Rightarrow> create_dirs mkdir ds)"

fun or_exit :: "(db_error \<Rightarrow> startup_exit) \<Rightarrow> 'a db_result \<Rightarrow> startup_exit + 'a" where
  "or_exit x (Inl e) = Inl (x e)"
| "or_exit x (Inr a) = Inr a"

fun exit_on :: "(string \<Rightarrow> startup_exit) \<Rightarrow> string option \<Rightarrow> startup_exit + unit" where
  "exit_on x (Some e) = Inl (x e)"
| "exit_on x None = Inr ()"

fun step_bind :: "startup_exit + 'a \<Rightarrow> ('a \<Rightarrow> startup_exit + 'b) \<Rightarrow> startup_exit + 'b" where
  "step_bind (Inl e) f = Inl e"
| "step_bind (Inr a) f = f a"

text \<open>\<^verbatim>\<open>--bootstrap\<close>: a cluster of this node alone; an error is only logged.\<close>

definition bootstrap ::
    "('net, 'ls, 'sm, 'raft) raft_lib \<Rightarrow> cli \<Rightarrow> node_config \<Rightarrow> 'raft raft_node \<Rightarrow> 'raft raft_node" where
  "bootstrap rf a config rn =
     (if cli_bootstrap a then
        fst (raft_initialize rf (fmupd (as_u64 (nc_node_id config))
          (nc_grpc_host config @ '':'' @ dec (unat (nc_grpc_port config))) fmempty) rn)
      else rn)"

text \<open>The state of the handlers and the layers, once the stores are open.\<close>

definition assemble ::
    "(string \<Rightarrow> u8 list) \<Rightarrow> (cache_config \<Rightarrow> 'c) \<Rightarrow> (string \<Rightarrow> string option) \<Rightarrow> nat \<Rightarrow> cli \<Rightarrow> node_config \<Rightarrow>
     'db rocksdb_storage \<Rightarrow> ('x, 'd) tantivy_index \<Rightarrow> 'raft raft_node \<Rightarrow> ('db, 'x, 'd, 'raft, 'ch, 'c) started_node" where
  "assemble h build mkdir now a config storage index rn =
     (let node = local_node config;
          router = router_new h [node] (nc_replication_factor config);
          sc = security_config_default in
      \<lparr>sd_app = \<lparr>ap_node = as_u64 (nc_node_id config), ap_collections = fmempty, ap_aliases = fmempty, ap_cache = with_defaults build,
         ap_sessions = session_manager_new, ap_coordinator = \<lparr>rc_replication_factor = nc_replication_factor config\<rparr>,
         ap_pool = pool_new, ap_world = (storage, index, rn)\<rparr>,
       sd_manager = manager_new now node router pool_new,
       sd_batcher = batcher_new, sd_snapshots = snapshot_config_default,
       sd_layers = \<lparr>nd_auth = \<lparr>as_registry = startup_registry config, as_has_jwt = startup_jwt sc \<noteq> None, as_api_key = nc_api_key config\<rparr>,
         nd_limiter = rate_limiter_new (se_rate_limit_capacity sc),
         nd_counter = counter_new (of_nat (rl_max_connections (se_resource_limits sc))), nd_requests = [], nd_world = ()\<rparr>,
       sd_jwt = startup_jwt sc, sd_validation = se_validation sc, sd_audit = startup_audit mkdir sc, sd_security = sc,
       sd_join = join_peer a config\<rparr>)"

definition start_node ::
    "('net, ('ldb, 'l, 'p, 'v) log_store, ('db rocksdb_storage, ('x, 'd) tantivy_index, 'l, 'm) state_machine, 'raft) raft_lib \<Rightarrow> 'net \<Rightarrow> 'm \<Rightarrow>
     (string \<Rightarrow> u8 list) \<Rightarrow> (cache_config \<Rightarrow> 'c) \<Rightarrow> ('db, 'ldb, 'x, 'd) environment \<Rightarrow> cli \<Rightarrow> node_config \<Rightarrow>
     startup_exit + ('db, 'x, 'd, 'raft, 'ch, 'c) started_node" where
  "start_node rf grpc m0 h build ev a config =
     (let dir = nc_data_dir config; storage_dir = dir @ ''/storage''; index_dir = dir @ ''/index'';
          grpc_addr = nc_grpc_host config @ '':'' @ dec (unat (nc_grpc_port config));
          http_addr = nc_http_host config @ '':'' @ dec (unat (nc_http_port config)) in
      step_bind (create_dirs (ev_mkdir ev) [dir, storage_dir, index_dir, dir @ ''/logs'']) (\<lambda>_.
      step_bind (or_exit NoStorage (rs_new (ev_rocks ev) (ev_disk ev))) (\<lambda>storage.
      step_bind (or_exit NoIndex (ti_new (ev_index ev) index_dir
          (sc_with_field (fc_new ''_body'' FieldText) schema_config_new) (ev_index_dirs ev))) (\<lambda>index.
      step_bind (or_exit NoRaft (new_with_network rf (ev_mkdir ev) (ev_open_log ev) m0 config storage index grpc)) (\<lambda>rn.
      step_bind (exit_on BadGrpcAddress (ev_parse_addr ev grpc_addr)) (\<lambda>_.
      step_bind (exit_on NoGrpcListener (ev_bind ev grpc_addr)) (\<lambda>_.
      step_bind (exit_on NoHttpListener (ev_bind ev http_addr)) (\<lambda>_.
      Inr (assemble h build (ev_mkdir ev) (ev_now ev) a config storage index (bootstrap rf a config rn))))))))))"

definition main_node ::
    "'v2 toml_ops \<Rightarrow> (string \<Rightarrow> string + string) \<Rightarrow>
     ('net, ('ldb, 'l, 'p, 'v) log_store, ('db rocksdb_storage, ('x, 'd) tantivy_index, 'l, 'm) state_machine, 'raft) raft_lib \<Rightarrow> 'net \<Rightarrow> 'm \<Rightarrow>
     (string \<Rightarrow> u8 list) \<Rightarrow> (cache_config \<Rightarrow> 'c) \<Rightarrow> ('db, 'ldb, 'x, 'd) environment \<Rightarrow> cli \<Rightarrow>
     startup_exit + ('db, 'x, 'd, 'raft, 'ch, 'c) started_node" where
  "main_node tm read_file rf grpc m0 h build ev a =
     step_bind (or_exit BadConfig (startup_config tm read_file a)) (start_node rf grpc m0 h build ev a)"

section \<open>Lemmas\<close>

lemma step_bind_Inr: "step_bind r f = Inr b \<longleftrightarrow> (\<exists>a. r = Inr a \<and> f a = Inr b)"
  by (cases r) auto

lemma or_exit_Inr [simp]: "or_exit x r = Inr a \<longleftrightarrow> r = Inr a"
  by (cases r) auto

text \<open>What a node that started was built from.\<close>

lemma main_nodeD:
  assumes "main_node tm read_file rf grpc m0 h build ev a = Inr sd"
  obtains config storage index rn where "startup_config tm read_file a = Inr config"
    and "rs_new (ev_rocks ev) (ev_disk ev) = Inr storage"
    and "sd = assemble h build (ev_mkdir ev) (ev_now ev) a config storage index rn"
  using assms by (auto simp: main_node_def start_node_def Let_def step_bind_Inr)

lemma assemble_sel [simp]:
  "fst (ap_world (sd_app (assemble h build mkdir now a config storage index rn))) = storage"
  "nd_auth (sd_layers (assemble h build mkdir now a config storage index rn)) =
     \<lparr>as_registry = startup_registry config, as_has_jwt = False, as_api_key = nc_api_key config\<rparr>"
  "sd_jwt (assemble h build mkdir now a config storage index rn) = None"
  "sd_audit (assemble h build mkdir now a config storage index rn) = audit_noop"
  by (simp_all add: assemble_def Let_def startup_jwt_def startup_audit_def security_config_default_def)

lemma startup_auth:
  "auth_middleware verify \<lparr>as_registry = startup_registry config, as_has_jwt = False, as_api_key = nc_api_key config\<rparr> rq = Next \<longleftrightarrow>
   nc_api_key config = None \<or> x_api_key rq = nc_api_key config"
proof (cases "nc_api_key config")
  case None
  then show ?thesis by (simp add: auth_middleware_def Let_def startup_registry_def registry_is_empty_def)
next
  case (Some k)
  have role: "role_level Admin \<ge> role_level r" for r by (cases r) simp_all
  have "fmupd k e fmempty \<noteq> fmempty" for e :: api_key_entry by (metis fmempty_lookup fmupd_lookup option.distinct(1))
  then show ?thesis using Some role
    by (auto simp: auth_middleware_def Let_def startup_registry_def registry_is_empty_def registry_get_def has_permission_def api_key_new_def
        split: option.splits)
qed

section \<open>Properties\<close>

text \<open>
  C7. Who may use a started node: on a node that has started, from whatever configuration file and
  command line, a request passes the authentication exactly when no key is configured or it
  presents the configured key, and then with every role. Tokens are never accepted and nothing is
  ever audited, whatever the configuration says: the security settings are always the default ones.
\<close>

theorem started_node_access:
  assumes "main_node tm read_file rf grpc m0 h build ev a = Inr sd"
  shows "\<exists>config. startup_config tm read_file a = Inr config \<and>
    (auth_middleware verify (nd_auth (sd_layers sd)) rq = Next \<longleftrightarrow> nc_api_key config = None \<or> x_api_key rq = nc_api_key config) \<and>
    sd_jwt sd = None \<and> sd_audit sd = audit_noop"
proof -
  obtain config storage index rn where c: "startup_config tm read_file a = Inr config"
    and sd: "sd = assemble h build (ev_mkdir ev) (ev_now ev) a config storage index rn"
    using main_nodeD [OF assms] by metis
  show ?thesis unfolding sd assemble_sel by (intro exI [of _ config] conjI c startup_auth refl)
qed

text \<open>
  C8. A node with a collection does not start again. A node is started on an empty disk, and its storage
  is driven by any sequence of operations. If a node then starts on that disk, with whatever
  configuration, no collection exists, and its storage has exactly the documents that were left:
  in other words, once a collection exists every later start fails.
\<close>

theorem restart_needs_no_collections:
  fixes ev ev' :: "('db, 'ldb, 'x, 'd) environment"
  assumes "rocks_laws (ev_rocks ev)" and "codec_laws cd" and "cf_view (ev_rocks ev) (ev_disk ev) = (\<lambda>_. None)"
    and "main_node tm read_file rf grpc m0 h build ev a = Inr sd"
    and "rs_run (ev_rocks ev) cd ops (fst (ap_world (sd_app sd))) = (s, rs)"
    and "ev_rocks ev' = ev_rocks ev" and "ev_disk ev' = rs_db s"
    and "main_node tm' read_file' rf grpc m0 h build ev' a' = Inr sd'"
  shows "fst (spec_run ops fresh_store) (Some c) = None \<and>
    (sb_get (ev_rocks ev) cd i (fst (ap_world (sd_app sd'))) = Inr d \<longleftrightarrow> spec_read (fst (spec_run ops fresh_store)) None i = Some d)"
proof -
  obtain s0 where s0: "rs_new (ev_rocks ev) (ev_disk ev) = Inr s0" "fst (ap_world (sd_app sd)) = s0"
    using main_nodeD [OF assms(4)] by (metis assemble_sel(1))
  obtain s' where s': "rs_new (ev_rocks ev) (rs_db s) = Inr s'" "fst (ap_world (sd_app sd')) = s'"
    using main_nodeD [OF assms(8)] assms(6,7) by (metis assemble_sel(1))
  obtain s00 where "rs_new (ev_rocks ev) (ev_disk ev) = Inr s00" "rs_inv (ev_rocks ev) cd s00" "rs_abs (ev_rocks ev) cd s00 = fresh_store"
    by (rule rs_new_fresh [OF assms(1,3)])
  then have fresh: "rs_inv (ev_rocks ev) cd s0" "rs_abs (ev_rocks ev) cd s0 = fresh_store" using s0(1) by simp_all
  have s: "rs_inv (ev_rocks ev) cd s" "rs_abs (ev_rocks ev) cd s = fst (spec_run ops fresh_store)"
    using rs_run_refines [OF assms(1,2) fresh(1), of ops] assms(5) by (auto simp: s0(2) fresh(2) prod_eq_iff)
  have none: "rs_abs (ev_rocks ev) cd s (Some c) = None" for c
    using rs_new_reopen_fails [OF assms(1), of cd s c] s'(1) by fastforce
  then obtain s'' where s'': "rs_new (ev_rocks ev) (rs_db s) = Inr s''" "rs_inv (ev_rocks ev) cd s''"
      "rs_abs (ev_rocks ev) cd s'' = rs_abs (ev_rocks ev) cd s"
    using rs_new_reopen [OF assms(1) s(1)] by blast
  then have s''_eq: "s'' = s'" using s'(1) by simp
  have "sb_get (ev_rocks ev) cd i s' = Inr d \<longleftrightarrow> spec_read (fst (spec_run ops fresh_store)) None i = Some d"
    using rs_read_exact [OF assms(1) s''(2), of None] unfolding s''_eq s''(3) [unfolded s''_eq] s(2) by (simp add: rs_read_def)
  then show ?thesis using none [of c] by (simp add: s'(2) s(2))
qed

text \<open>A machine on which every step succeeds, with an in-memory engine and index.\<close>

definition demo_environment :: "(string, (blob, blob) fmap) fmap \<Rightarrow> ((string, (blob, blob) fmap) fmap, unit, list_index, tv_schema \<times> tv_document list) environment" where
  "demo_environment disk = \<lparr>ev_mkdir = (\<lambda>_. None), ev_rocks = mem_engine, ev_disk = disk, ev_index = list_env, ev_index_dirs = fmempty,
     ev_open_log = (\<lambda>_. Inr ()), ev_parse_addr = (\<lambda>_. None), ev_bind = (\<lambda>_. None), ev_now = 0\<rparr>"

definition demo_raft :: "(unit, (unit, unit, unit, unit) log_store, ('s, 'i, unit, unit) state_machine, unit) raft_lib" where
  "demo_raft = \<lparr>rf_validate = (\<lambda>_. None), rf_new = (\<lambda>i c n ls sm. Inr ()), rf_initialize = (\<lambda>ms r. (r, None))\<rparr>"

definition demo_toml :: "unit toml_ops" where
  "demo_toml = \<lparr>tm_parse = (\<lambda>_. Inl []), tm_print = (\<lambda>_. Inl []), tm_node = (\<lambda>_. Inl []), tm_network = (\<lambda>_. Inl []), tm_storage = (\<lambda>_. Inl []),
     tm_index = (\<lambda>_. Inl []), tm_cluster = (\<lambda>_. Inl []), tm_auth = (\<lambda>_. Inl []), tm_observability = (\<lambda>_. Inl []), tm_flat = (\<lambda>_. fmempty)\<rparr>"

definition demo_cli :: cli where
  "demo_cli = \<lparr>cli_config = None, cli_node_id = None, cli_data_dir = None, cli_http_port = None, cli_grpc_port = None, cli_peers = None,
     cli_bootstrap = True, cli_log_level = None\<rparr>"

definition demo_main ::
    "(string, (blob, blob) fmap) fmap \<Rightarrow>
     startup_exit + ((string, (blob, blob) fmap) fmap, list_index, tv_schema \<times> tv_document list, unit, unit, unit) started_node" where
  "demo_main disk = main_node demo_toml (\<lambda>_. Inl []) demo_raft () () (\<lambda>_. replicate 16 0) (\<lambda>_. ()) (demo_environment disk) demo_cli"

lemma demo_config: "startup_config demo_toml (\<lambda>_. Inl []) demo_cli = Inr node_config_default"
  by (simp add: startup_config_def demo_cli_def apply_cli_def validate_def node_config_default_def Let_def)

lemma demo_starts: "rs_new mem_engine disk = Inr s \<Longrightarrow> \<exists>sd. demo_main disk = Inr sd \<and> fst (ap_world (sd_app sd)) = s"
  by (simp add: demo_main_def main_node_def demo_config start_node_def demo_environment_def demo_raft_def new_with_network_def validated_def
      raft_create_def ti_new_def ti_opened_def list_env_def list_tantivy_def Let_def)

theorem started_node_access_witness:
  "\<exists>sd config. demo_main fmempty = Inr sd \<and> startup_config demo_toml (\<lambda>_. Inl []) demo_cli = Inr config \<and> nc_api_key config = None \<and>
     auth_middleware (\<lambda>_. Inl (InvalidInput [])) (nd_auth (sd_layers sd)) (token_request DELETE ''/collections/c'' ''x'') = Next"
proof -
  obtain s0 where "rs_new mem_engine fmempty = Inr s0" by (rule rs_new_fresh [OF mem_engine_laws mem_engine_empty])
  then obtain sd where sd: "demo_main fmempty = Inr sd" using demo_starts by blast
  have "nc_api_key node_config_default = None" by (simp add: node_config_default_def)
  then show ?thesis
    using started_node_access [OF sd [unfolded demo_main_def], of "\<lambda>_. Inl (InvalidInput [])" "token_request DELETE ''/collections/c'' ''x''"]
      sd demo_config by auto
qed

theorem restart_needs_no_collections_witness:
  "\<exists>sd s rs sd'. demo_main fmempty = Inr sd \<and> rs_run mem_engine unary_codec [OpPut None sample_doc] (fst (ap_world (sd_app sd))) = (s, rs) \<and>
     demo_main (rs_db s) = Inr sd' \<and> sb_get mem_engine unary_codec (DocumentId ''1'') (fst (ap_world (sd_app sd'))) = Inr sample_doc"
proof -
  let ?ops = "[OpPut None sample_doc]"
  have ev: "ev_rocks (demo_environment d) = mem_engine" "ev_disk (demo_environment d) = d" for d by (simp_all add: demo_environment_def)
  obtain s0 where s0: "rs_new mem_engine fmempty = Inr s0" "rs_inv mem_engine unary_codec s0" "rs_abs mem_engine unary_codec s0 = fresh_store"
    by (rule rs_new_fresh [OF mem_engine_laws mem_engine_empty])
  obtain sd where sd: "demo_main fmempty = Inr sd" "fst (ap_world (sd_app sd)) = s0" using demo_starts [OF s0(1)] by blast
  obtain s rs where s: "rs_run mem_engine unary_codec ?ops s0 = (s, rs)" "rs_inv mem_engine unary_codec s"
      "rs_abs mem_engine unary_codec s = fst (spec_run ?ops fresh_store)"
    using rs_run_refines [OF mem_engine_laws unary_codec_laws s0(2), of ?ops] by (auto simp: s0(3) prod_eq_iff)
  have spec: "fst (spec_run ?ops fresh_store) = [None \<mapsto> [''1'' \<mapsto> sample_doc]]" by (simp add: fresh_store_def)
  then have "\<not> (\<exists>c. rs_abs mem_engine unary_codec s (Some c) \<noteq> None)" by (simp add: s(3))
  then obtain s' where s': "rs_new mem_engine (rs_db s) = Inr s'" using rs_new_reopen [OF mem_engine_laws s(2)] by blast
  obtain sd' where sd': "demo_main (rs_db s) = Inr sd'" using demo_starts [OF s'] by blast
  have "spec_read (fst (spec_run ?ops fresh_store)) None (DocumentId ''1'') = Some sample_doc" unfolding spec by (simp add: spec_read_def)
  then have "sb_get mem_engine unary_codec (DocumentId ''1'') (fst (ap_world (sd_app sd'))) = Inr sample_doc"
    using restart_needs_no_collections [of "demo_environment fmempty" unary_codec, unfolded ev, OF mem_engine_laws unary_codec_laws mem_engine_empty
        sd(1) [unfolded demo_main_def] s(1) [folded sd(2)] _ _ sd' [unfolded demo_main_def]]
    by (simp add: ev)
  then show ?thesis using sd s(1) sd' by auto
qed

text \<open>The timeouts of the configuration do not reach the consensus library.\<close>

theorem configured_timeouts_unused:
  "new_with_network rf mkdir open_log m0 (config\<lparr>nc_election_timeout_ms := x, nc_heartbeat_interval_ms := y\<rparr>) s i network =
   new_with_network rf mkdir open_log m0 config s i network"
  by (simp add: new_with_network_def)

end
