(* ===== verification/Metrics.thy ===== *)
theory Metrics
  imports Middleware
begin

text \<open>
  The metrics of a node, \<^verbatim>\<open>crates/node/src/metrics.rs\<close>. Creating a metric and adding it
  to the registry are calls of the Prometheus library, the parameter \<open>prometheus\<close>; both can fail,
  which the source turns into a panic (None). Bounds of histograms are in ten-thousandths of a
  second.
\<close>

datatype metric_kind = IntCounterVec | GaugeVec | HistogramVec | IntGauge

record metric_desc =
  md_kind :: metric_kind
  md_name :: string
  md_help :: string
  md_labels :: "string list"
  md_buckets :: "nat list"

definition documents_total :: metric_desc where
  "documents_total = \<lparr>md_kind = IntCounterVec, md_name = ''msearchdb_documents_total'',
     md_help = ''Total documents indexed per collection'', md_labels = [''collection''], md_buckets = []\<rparr>"

definition index_operations_total :: metric_desc where
  "index_operations_total = \<lparr>md_kind = IntCounterVec, md_name = ''msearchdb_index_operations_total'',
     md_help = ''Index operations per type and collection'', md_labels = [''operation'', ''collection''], md_buckets = []\<rparr>"

definition search_duration_seconds :: metric_desc where
  "search_duration_seconds = \<lparr>md_kind = HistogramVec, md_name = ''msearchdb_search_duration_seconds'',
     md_help = ''Search latency distribution'', md_labels = [''collection''], md_buckets = [10, 50, 100, 250, 500, 1000, 2500, 5000, 10000, 25000, 50000, 100000]\<rparr>"

definition storage_bytes_used :: metric_desc where
  "storage_bytes_used = \<lparr>md_kind = IntGauge, md_name = ''msearchdb_storage_bytes_used'',
     md_help = ''Approximate storage bytes used'', md_labels = [], md_buckets = []\<rparr>"

definition raft_commit_index :: metric_desc where
  "raft_commit_index = \<lparr>md_kind = IntGauge, md_name = ''msearchdb_raft_commit_index'',
     md_help = ''Latest committed Raft log index'', md_labels = [], md_buckets = []\<rparr>"

definition raft_leader_id :: metric_desc where
  "raft_leader_id = \<lparr>md_kind = IntGauge, md_name = ''msearchdb_raft_leader_id'',
     md_help = ''Node ID of the current Raft leader'', md_labels = [], md_buckets = []\<rparr>"

definition raft_commit_latency_seconds :: metric_desc where
  "raft_commit_latency_seconds = \<lparr>md_kind = HistogramVec, md_name = ''msearchdb_raft_commit_latency_seconds'',
     md_help = ''Raft commit latency in seconds'', md_labels = [], md_buckets = [5, 10, 50, 100, 250, 500, 1000, 2500, 5000, 10000]\<rparr>"

definition replication_lag :: metric_desc where
  "replication_lag = \<lparr>md_kind = GaugeVec, md_name = ''msearchdb_replication_lag'',
     md_help = ''Replication lag per node in committed log entries'', md_labels = [''node_id''], md_buckets = []\<rparr>"

definition node_health_metric :: metric_desc where
  "node_health_metric = \<lparr>md_kind = GaugeVec, md_name = ''msearchdb_node_health'',
     md_help = ''Node health (1=up, 0=down)'', md_labels = [''node_id''], md_buckets = []\<rparr>"

definition http_requests_total :: metric_desc where
  "http_requests_total = \<lparr>md_kind = IntCounterVec, md_name = ''msearchdb_http_requests_total'',
     md_help = ''HTTP requests by method, path, and status'', md_labels = [''method'', ''path'', ''status''], md_buckets = []\<rparr>"

definition http_request_duration_seconds :: metric_desc where
  "http_request_duration_seconds = \<lparr>md_kind = HistogramVec, md_name = ''msearchdb_http_request_duration_seconds'',
     md_help = ''HTTP request latency distribution'', md_labels = [''method'', ''path''], md_buckets = [10, 50, 100, 250, 500, 1000, 2500, 5000, 10000, 25000, 50000, 100000]\<rparr>"

definition cache_hits_total :: metric_desc where
  "cache_hits_total = \<lparr>md_kind = IntCounterVec, md_name = ''msearchdb_cache_hits_total'',
     md_help = ''Total cache hits by type'', md_labels = [''cache_type''], md_buckets = []\<rparr>"

definition cache_misses_total :: metric_desc where
  "cache_misses_total = \<lparr>md_kind = IntCounterVec, md_name = ''msearchdb_cache_misses_total'',
     md_help = ''Total cache misses by type'', md_labels = [''cache_type''], md_buckets = []\<rparr>"

definition active_connections :: metric_desc where
  "active_connections = \<lparr>md_kind = IntGauge, md_name = ''msearchdb_active_connections'',
     md_help = ''Number of active HTTP connections'', md_labels = [], md_buckets = []\<rparr>"

definition collections_total :: metric_desc where
  "collections_total = \<lparr>md_kind = IntGauge, md_name = ''msearchdb_collections_total'',
     md_help = ''Total number of collections'', md_labels = [], md_buckets = []\<rparr>"

text \<open>In the order in which they are registered.\<close>

definition metric_descs :: "metric_desc list" where
  "metric_descs =
     [documents_total, index_operations_total, search_duration_seconds, storage_bytes_used, raft_commit_index,
      raft_leader_id, raft_commit_latency_seconds, replication_lag, node_health_metric, http_requests_total,
      http_request_duration_seconds, cache_hits_total, cache_misses_total, active_connections, collections_total]"

section \<open>Registration\<close>

record ('m, 'r) prometheus =
  pr_new :: "metric_desc \<Rightarrow> 'm option"
  pr_empty :: 'r
  pr_register :: "'m \<Rightarrow> 'r \<Rightarrow> 'r option"
  pr_desc :: "'m \<Rightarrow> metric_desc"
  pr_registered :: "'r \<Rightarrow> metric_desc list"

text \<open>
  Names are letters, digits and underscores and do not begin with a digit (the library also allows
  colons).
\<close>

definition name_start :: "char \<Rightarrow> bool" where
  "name_start c \<longleftrightarrow> List.member ''abcdefghijklmnopqrstuvwxyzABCDEFGHIJKLMNOPQRSTUVWXYZ_'' c"

definition valid_name :: "string \<Rightarrow> bool" where
  "valid_name s \<longleftrightarrow> s \<noteq> [] \<and> name_start (hd s) \<and> list_all (\<lambda>c. name_start c \<or> List.member ''0123456789'' c) s"

definition valid_desc :: "metric_desc \<Rightarrow> bool" where
  "valid_desc d \<longleftrightarrow> valid_name (md_name d) \<and> md_help d \<noteq> [] \<and> list_all valid_name (md_labels d) \<and> distinct (md_labels d) \<and>
     sorted_wrt (<) (md_buckets d) \<and> (md_kind d = HistogramVec \<longrightarrow> list_all (\<lambda>l. l \<noteq> ''le'') (md_labels d))"

text \<open>The documented conditions: a valid description makes a metric, a new name can be registered.\<close>

definition prometheus_laws :: "('m, 'r) prometheus \<Rightarrow> bool" where
  "prometheus_laws pr \<longleftrightarrow>
     (\<forall>d. valid_desc d \<longrightarrow> (\<exists>m. pr_new pr d = Some m \<and> pr_desc pr m = d)) \<and>
     pr_registered pr (pr_empty pr) = [] \<and>
     (\<forall>m r. md_name (pr_desc pr m) \<notin> md_name ` set (pr_registered pr r) \<longrightarrow>
        (\<exists>r'. pr_register pr m r = Some r' \<and> pr_registered pr r' = pr_registered pr r @ [pr_desc pr m]))"

fun new_metrics :: "('m, 'r) prometheus \<Rightarrow> metric_desc list \<Rightarrow> 'm list option" where
  "new_metrics pr [] = Some []"
| "new_metrics pr (d # ds) =
     (case pr_new pr d of None \<Rightarrow> None | Some m \<Rightarrow> (case new_metrics pr ds of None \<Rightarrow> None | Some ms \<Rightarrow> Some (m # ms)))"

fun register_all :: "('m, 'r) prometheus \<Rightarrow> 'm list \<Rightarrow> 'r \<Rightarrow> 'r option" where
  "register_all pr [] r = Some r"
| "register_all pr (m # ms) r = (case pr_register pr m r of None \<Rightarrow> None | Some r' \<Rightarrow> register_all pr ms r')"

record ('m, 'r) metrics =
  mt_registry :: 'r
  mt_metrics :: "'m list"

definition metrics_new :: "('m, 'r) prometheus \<Rightarrow> ('m, 'r) metrics option" where
  "metrics_new pr =
     (case new_metrics pr metric_descs of
        None \<Rightarrow> None
      | Some ms \<Rightarrow> (case register_all pr ms (pr_empty pr) of
            None \<Rightarrow> None
          | Some r \<Rightarrow> Some \<lparr>mt_registry = r, mt_metrics = ms\<rparr>))"

text \<open>
  The uses of labelled metrics in the handlers, the middleware and the start of the node, with the
  label values each gives. A wrong number of values is a panic.
\<close>

definition metric_uses :: "(metric_desc \<times> string list) list" where
  "metric_uses =
     [(search_duration_seconds, [''collection'']), (documents_total, [''collection'']),
      (index_operations_total, [''operation'', ''collection'']), (cache_hits_total, [''document'']),
      (cache_misses_total, [''document'']), (node_health_metric, [''node_id'']),
      (http_requests_total, [''method'', ''path'', ''status'']), (http_request_duration_seconds, [''method'', ''path''])]"

section \<open>Lemmas\<close>

lemmas metric_defs = documents_total_def index_operations_total_def search_duration_seconds_def storage_bytes_used_def raft_commit_index_def raft_leader_id_def raft_commit_latency_seconds_def replication_lag_def node_health_metric_def http_requests_total_def http_request_duration_seconds_def cache_hits_total_def cache_misses_total_def active_connections_def collections_total_def

lemma metric_names: "map md_name metric_descs =
  [''msearchdb_documents_total'', ''msearchdb_index_operations_total'', ''msearchdb_search_duration_seconds'', ''msearchdb_storage_bytes_used'', ''msearchdb_raft_commit_index'', ''msearchdb_raft_leader_id'', ''msearchdb_raft_commit_latency_seconds'', ''msearchdb_replication_lag'', ''msearchdb_node_health'', ''msearchdb_http_requests_total'', ''msearchdb_http_request_duration_seconds'', ''msearchdb_cache_hits_total'', ''msearchdb_cache_misses_total'', ''msearchdb_active_connections'', ''msearchdb_collections_total'']"
  unfolding metric_descs_def metric_defs by (simp only: list.map metric_desc.simps)

lemma metric_descs_valid: "list_all valid_desc metric_descs"
  unfolding metric_descs_def list.pred_inject(2) metric_defs
  by (intro conjI list.pred_inject(1); simp add: valid_desc_def valid_name_def name_start_def)

lemma metric_names_distinct: "distinct (map md_name metric_descs)"
  unfolding metric_names by simp

lemma metric_uses_fit: "list_all (\<lambda>(d, vs). list_ex ((=) (md_name d)) (map md_name metric_descs) \<and> length vs = length (md_labels d)) metric_uses"
  unfolding metric_names metric_uses_def metric_defs by simp

lemma new_metrics_valid:
  "prometheus_laws pr \<Longrightarrow> list_all valid_desc ds \<Longrightarrow> \<exists>ms. new_metrics pr ds = Some ms \<and> map (pr_desc pr) ms = ds"
proof (induction ds)
  case (Cons d ds)
  then obtain ms where "new_metrics pr ds = Some ms" "map (pr_desc pr) ms = ds" by auto
  moreover obtain m where "pr_new pr d = Some m" "pr_desc pr m = d"
    using Cons.prems unfolding prometheus_laws_def list.pred_inject by blast
  ultimately show ?case by simp
qed simp

lemma register_all_distinct:
  assumes "prometheus_laws pr"
  shows "distinct (map md_name (pr_registered pr r @ map (pr_desc pr) ms)) \<Longrightarrow>
    \<exists>r'. register_all pr ms r = Some r' \<and> pr_registered pr r' = pr_registered pr r @ map (pr_desc pr) ms"
proof (induction ms arbitrary: r)
  case (Cons m ms)
  have "md_name (pr_desc pr m) \<notin> md_name ` set (pr_registered pr r)" using Cons.prems by auto
  then obtain r1 where r1: "pr_register pr m r = Some r1" "pr_registered pr r1 = pr_registered pr r @ [pr_desc pr m]"
    using assms unfolding prometheus_laws_def by blast
  then show ?case using Cons.IH [of r1] Cons.prems by simp
qed simp

section \<open>Properties\<close>

text \<open>
  The metrics are set up without a panic: the descriptions are valid and their names distinct, so
  every metric is created and registered, in the order of the source, and every use in the code
  is of a registered metric with as many label values as it has labels.
\<close>

theorem metrics_new_no_panic:
  assumes "prometheus_laws pr"
  shows "(\<exists>mt. metrics_new pr = Some mt \<and> pr_registered pr (mt_registry mt) = metric_descs) \<and>
    list_all (\<lambda>(d, vs). list_ex ((=) (md_name d)) (map md_name metric_descs) \<and> length vs = length (md_labels d)) metric_uses"
proof
  obtain ms where ms: "new_metrics pr metric_descs = Some ms" "map (pr_desc pr) ms = metric_descs"
    using new_metrics_valid [OF assms metric_descs_valid] by blast
  have e: "pr_registered pr (pr_empty pr) = []" using assms by (simp add: prometheus_laws_def)
  then have "distinct (map md_name (pr_registered pr (pr_empty pr) @ map (pr_desc pr) ms))"
    using metric_names_distinct by (simp only: ms(2) e append_Nil)
  then obtain r where "register_all pr ms (pr_empty pr) = Some r" "pr_registered pr r = metric_descs"
    using register_all_distinct [OF assms, of "pr_empty pr" ms] e ms(2) by (metis append_Nil)
  then show "\<exists>mt. metrics_new pr = Some mt \<and> pr_registered pr (mt_registry mt) = metric_descs"
    by (simp add: metrics_new_def ms(1))
qed (rule metric_uses_fit)

text \<open>A registry that is a list.\<close>

definition list_prometheus :: "(metric_desc, metric_desc list) prometheus" where
  "list_prometheus = \<lparr>pr_new = (\<lambda>d. if valid_desc d then Some d else None), pr_empty = [],
     pr_register = (\<lambda>m r. if md_name m \<in> md_name ` set r then None else Some (r @ [m])), pr_desc = id, pr_registered = id\<rparr>"

lemma list_prometheus_laws: "prometheus_laws list_prometheus"
  by (auto simp: prometheus_laws_def list_prometheus_def)

theorem metrics_new_no_panic_witness:
  "\<exists>mt. metrics_new list_prometheus = Some mt \<and> length (mt_registry mt) = 15"
proof -
  obtain mt where mt: "metrics_new list_prometheus = Some mt" "pr_registered list_prometheus (mt_registry mt) = metric_descs"
    using metrics_new_no_panic [OF list_prometheus_laws] by blast
  have "length metric_descs = 15" by (simp add: metric_descs_def)
  with mt show ?thesis by (auto simp: list_prometheus_def)
qed

end
