(* ===== verification/Admin_Tui.thy ===== *)
theory Admin_Tui
  imports Bulk Index_Query Metrics Raft_Log
begin

text \<open>
  The terminal dashboard, \<^verbatim>\<open>crates/node/src/admin_tui.rs\<close>: what it asks a node, how it
  reads the answers, its state and the texts it shows. Drawing (borders, layout, terminal modes) is
  done by libraries; a panel is here the list of its lines, each a list of coloured texts. The
  connection (\<open>connect\<close>), the JSON decoder and the arithmetic and the printing of floating-point
  numbers are parameters.
\<close>

section \<open>Data\<close>

record tui_collection =
  ci_docs :: u64
  ci_size_bytes :: u64

record cluster_health_data =
  hd_status :: string
  hd_cluster_name :: string
  hd_number_of_nodes :: u64
  hd_active_nodes :: u64
  hd_leader_node :: "u64 option"
  hd_raft_commit_index :: int
  hd_replication_lag :: "(string, int) fmap"
  hd_collections :: "(string, tui_collection) fmap"

definition health_default :: cluster_health_data where
  "health_default = \<lparr>hd_status = [], hd_cluster_name = [], hd_number_of_nodes = 0, hd_active_nodes = 0, hd_leader_node = None,
     hd_raft_commit_index = 0, hd_replication_lag = fmempty, hd_collections = fmempty\<rparr>"

text \<open>Times are in milliseconds.\<close>

record 'f tui_app =
  tu_endpoint :: string
  tu_health :: cluster_health_data
  tu_metrics_text :: string
  tu_ops_log :: "string list"
  tu_last_refresh :: int
  tu_should_quit :: bool
  tu_http_rps :: 'f
  tu_search_p99_ms :: 'f
  tu_raft_latency_p99_ms :: 'f

record 'f floats =
  fl_zero :: 'f
  fl_parse :: "string \<Rightarrow> 'f option"
  fl_times_1000 :: "'f \<Rightarrow> 'f"
  fl_show :: "nat \<Rightarrow> 'f \<Rightarrow> string"
  fl_ratio :: "u64 \<Rightarrow> u64 \<Rightarrow> 'f"

definition tui_new :: "'f floats \<Rightarrow> int \<Rightarrow> string \<Rightarrow> 'f tui_app" where
  "tui_new fl now endpoint = \<lparr>tu_endpoint = endpoint, tu_health = health_default, tu_metrics_text = [], tu_ops_log = [],
     tu_last_refresh = now - 10000, tu_should_quit = False, tu_http_rps = fl_zero fl, tu_search_p99_ms = fl_zero fl,
     tu_raft_latency_p99_ms = fl_zero fl\<rparr>"

section \<open>Asking a node\<close>

definition str_find :: "string \<Rightarrow> string \<Rightarrow> nat option" where
  "str_find p s = find (\<lambda>i. prefix p (drop i s)) [0..<Suc (length s)]"

definition CRLF :: string where
  "CRLF = [CHR 0x0D, CHR 0x0A]"

definition http_request_text :: "string \<Rightarrow> string \<Rightarrow> string" where
  "http_request_text path host_port =
     ''GET '' @ path @ '' HTTP/1.1'' @ CRLF @ ''Host: '' @ host_port @ CRLF @ ''Connection: close'' @ CRLF @ CRLF"

definition http_get :: "(string \<Rightarrow> string \<Rightarrow> string + string) \<Rightarrow> string \<Rightarrow> string + string" where
  "http_get connect url =
     (let u = (case strip_prefix ''http://'' url of Some r \<Rightarrow> r | None \<Rightarrow> url);
          (host_port, path) = (case str_find ''/'' u of Some i \<Rightarrow> (take i u, drop i u) | None \<Rightarrow> (u, ''/'')) in
      case connect host_port (http_request_text path host_port) of
        Inl e \<Rightarrow> Inl e
      | Inr response \<Rightarrow> (case str_find (CRLF @ CRLF) response of Some i \<Rightarrow> Inr (drop (i + 4) response) | None \<Rightarrow> Inr response))"

definition fetch_health :: "(string \<Rightarrow> string \<Rightarrow> string + string) \<Rightarrow> (string \<Rightarrow> cluster_health_data option) \<Rightarrow> string \<Rightarrow> cluster_health_data" where
  "fetch_health connect from_json endpoint =
     (case http_get connect (endpoint @ ''/_cluster/health'') of
        Inr body \<Rightarrow> (case from_json body of Some h \<Rightarrow> h | None \<Rightarrow> health_default\<lparr>hd_status := ''unknown''\<rparr>)
      | Inl e \<Rightarrow> health_default\<lparr>hd_status := ''unreachable''\<rparr>)"

definition fetch_metrics :: "(string \<Rightarrow> string \<Rightarrow> string + string) \<Rightarrow> string \<Rightarrow> string" where
  "fetch_metrics connect endpoint = (case http_get connect (endpoint @ ''/metrics'') of Inr body \<Rightarrow> body | Inl e \<Rightarrow> [])"

section \<open>Reading metrics\<close>

function trim_start :: "string \<Rightarrow> string" where
  "trim_start s = (if 0 < ws_len s \<and> s \<noteq> [] then trim_start (drop (ws_len s) s) else s)"
  by pat_completeness auto
termination
  by (relation "measure length") auto

declare trim_start.simps [simp del]

fun trim_end :: "string \<Rightarrow> string" where
  "trim_end [] = []"
| "trim_end (c # s) = (if is_blank (c # s) then [] else c # trim_end s)"

definition str_trim :: "string \<Rightarrow> string" where
  "str_trim s = trim_end (trim_start s)"

definition after_last_space :: "string \<Rightarrow> string option" where
  "after_last_space l = (if CHR '' '' \<in> set l then Some (rev (takeWhile (\<lambda>c. c \<noteq> CHR '' '') (rev l))) else None)"

definition names_metric :: "string \<Rightarrow> string \<Rightarrow> bool" where
  "names_metric name l \<longleftrightarrow>
     prefix name l \<and> (case drop (length name) l of c # _ \<Rightarrow> c = CHR '' '' \<or> c = CHR ''{'' | [] \<Rightarrow> False)"

fun metric_loop :: "(string \<Rightarrow> 'f option) \<Rightarrow> string \<Rightarrow> string list \<Rightarrow> 'f option" where
  "metric_loop parse name [] = None"
| "metric_loop parse name (l # ls) =
     (let t = str_trim l in
      if prefix ''#'' t \<or> t = [] then metric_loop parse name ls
      else if names_metric name t then
        (case after_last_space t of Some v \<Rightarrow> parse v | None \<Rightarrow> metric_loop parse name ls)
      else metric_loop parse name ls)"

definition parse_metric_value :: "(string \<Rightarrow> 'f option) \<Rightarrow> string \<Rightarrow> string \<Rightarrow> 'f option" where
  "parse_metric_value parse metrics name = metric_loop parse name (str_lines metrics)"

section \<open>Refreshing\<close>

definition pad2 :: "u64 \<Rightarrow> string" where
  "pad2 n = zero_pad 2 (dec (unat n))"

definition chrono_now :: "u64 \<Rightarrow> string" where
  "chrono_now secs = pad2 ((secs mod 86400) div 3600) @ '':'' @ pad2 ((secs mod 3600) div 60) @ '':'' @ pad2 (secs mod 60)"

definition refresh_entry :: "u64 \<Rightarrow> string \<Rightarrow> string" where
  "refresh_entry secs status = ''['' @ chrono_now secs @ ''] Refreshed '' @ [CHR 0xE2, CHR 0x80, CHR 0x94] @ '' status='' @ status"

definition push_ops :: "string \<Rightarrow> string list \<Rightarrow> string list" where
  "push_ops e ops = (let ops = ops @ [e] in if length ops > 100 then drop (length ops - 100) ops else ops)"

fun or_zero :: "'f floats \<Rightarrow> 'f option \<Rightarrow> 'f" where
  "or_zero fl None = fl_zero fl"
| "or_zero fl (Some x) = x"

text \<open>\<open>secs\<close> is the time of the entry, \<open>now\<close> that of the end of the refresh.\<close>

definition tui_refresh ::
    "'f floats \<Rightarrow> (string \<Rightarrow> string \<Rightarrow> string + string) \<Rightarrow> (string \<Rightarrow> cluster_health_data option) \<Rightarrow> u64 \<Rightarrow> int \<Rightarrow> 'f tui_app \<Rightarrow> 'f tui_app" where
  "tui_refresh fl connect from_json secs now app =
     (let health = fetch_health connect from_json (tu_endpoint app);
          metrics = fetch_metrics connect (tu_endpoint app) in
      app\<lparr>tu_http_rps := or_zero fl (parse_metric_value (fl_parse fl) metrics ''msearchdb_http_requests_total''),
          tu_search_p99_ms := or_zero fl (map_option (fl_times_1000 fl)
            (parse_metric_value (fl_parse fl) metrics ''msearchdb_search_duration_seconds_sum'')),
          tu_raft_latency_p99_ms := or_zero fl (map_option (fl_times_1000 fl)
            (parse_metric_value (fl_parse fl) metrics ''msearchdb_raft_commit_latency_seconds_sum'')),
          tu_ops_log := push_ops (refresh_entry secs (hd_status health)) (tu_ops_log app),
          tu_health := health, tu_metrics_text := metrics, tu_last_refresh := now\<rparr>)"

section \<open>Panels\<close>

datatype color = Green | Yellow | Red | DarkGray | Cyan | White | NoColor

definition status_color :: "string \<Rightarrow> color" where
  "status_color s = (if s = ''green'' then Green else if s = ''yellow'' then Yellow else if s = ''red'' then Red else DarkGray)"

type_synonym line = "(string \<times> color) list"

definition format_bytes :: "'f floats \<Rightarrow> u64 \<Rightarrow> string" where
  "format_bytes fl bytes =
     (if bytes \<ge> 1024 * 1024 * 1024 then fl_show fl 1 (fl_ratio fl bytes (1024 * 1024 * 1024)) @ '' GB''
      else if bytes \<ge> 1024 * 1024 then fl_show fl 1 (fl_ratio fl bytes (1024 * 1024)) @ '' MB''
      else if bytes \<ge> 1024 then fl_show fl 1 (fl_ratio fl bytes 1024) @ '' KB''
      else dec (unat bytes) @ '' B'')"

text \<open>\<open>upper\<close> is \<^verbatim>\<open>str::to_uppercase\<close>.\<close>

definition header_line :: "(string \<Rightarrow> string) \<Rightarrow> 'f tui_app \<Rightarrow> string \<times> color" where
  "header_line upper app =
     (''MSearchDB Admin '' @ [CHR 0xE2, CHR 0x80, CHR 0x94] @ '' '' @
        (if hd_cluster_name (tu_health app) = [] then ''msearchdb'' else hd_cluster_name (tu_health app)) @
        ''  ['' @ upper (hd_status (tu_health app)) @ '']'',
      status_color (hd_status (tu_health app)))"

definition int_text :: "int \<Rightarrow> string" where
  "int_text i = (if i < 0 then ''-'' @ dec (nat (- i)) else dec (nat i))"

definition lag_line :: "string \<times> int \<Rightarrow> line" where
  "lag_line e =
     [(''  Node '' @ fst e @ '': '', NoColor),
      (int_text (snd e) @ '' entries'', if snd e = 0 then Green else if snd e < 10 then Yellow else Red)]"

definition topology_panel :: "(string \<Rightarrow> string) \<Rightarrow> 'f tui_app \<Rightarrow> line list" where
  "topology_panel upper app =
     (let h = tu_health app in
      [case hd_leader_node h of
         Some i \<Rightarrow> [(''Leader: Node '', NoColor), (dec (unat i), Green)]
       | None \<Rightarrow> [(''Leader: NONE'', Red)],
       [(''Nodes: '' @ dec (unat (hd_active_nodes h)) @ ''/'' @ dec (unat (hd_number_of_nodes h)), NoColor)],
       [(''Status: '', NoColor), (upper (hd_status h), status_color (hd_status h))], []] @
      (if hd_replication_lag h = fmempty then []
       else [(''Replication Lag:'', NoColor)] # map lag_line (btree_iter (hd_replication_lag h))))"

definition metrics_panel :: "'f floats \<Rightarrow> 'f tui_app \<Rightarrow> line list" where
  "metrics_panel fl app =
     [[(''Raft Commit Index: '', NoColor), (int_text (hd_raft_commit_index (tu_health app)), Cyan)], [],
      [(''HTTP Ops/sec:      '', NoColor), (fl_show fl 1 (tu_http_rps app), White)],
      [(''Search P99:        '', NoColor), (fl_show fl 2 (tu_search_p99_ms app) @ '' ms'', White)],
      [(''Raft Commit P99:   '', NoColor), (fl_show fl 2 (tu_raft_latency_p99_ms app) @ '' ms'', White)]]"

definition collections_panel :: "'f floats \<Rightarrow> 'f tui_app \<Rightarrow> string list list" where
  "collections_panel fl app =
     map (\<lambda>(name, info). [name, dec (unat (ci_docs info)), format_bytes fl (ci_size_bytes info)]) (btree_iter (hd_collections (tu_health app)))"

definition entry_color :: "string \<Rightarrow> color" where
  "entry_color e =
     (if str_contains e ''unreachable'' \<or> str_contains e ''unknown'' then Red
      else if str_contains e ''yellow'' then Yellow else DarkGray)"

definition ops_log_panel :: "'f tui_app \<Rightarrow> (string \<times> color) list" where
  "ops_log_panel app = map (\<lambda>e. (e, entry_color e)) (rev (take 20 (rev (tu_ops_log app))))"

section \<open>The loop\<close>

text \<open>
  A turn of the loop: the key that was pressed while polling, the time afterwards, and what a
  refresh meets. The result is the application when the loop ends, or None while it goes on after the
  given turns.
\<close>

record tui_turn =
  tt_quit_key :: bool
  tt_now :: int
  tt_secs :: u64
  tt_connect :: "string \<Rightarrow> string \<Rightarrow> string + string"
  tt_done :: int

definition tui_tick :: "'f floats \<Rightarrow> (string \<Rightarrow> cluster_health_data option) \<Rightarrow> tui_turn \<Rightarrow> 'f tui_app \<Rightarrow> 'f tui_app" where
  "tui_tick fl from_json t app0 =
     (let app = (if tt_quit_key t then app0\<lparr>tu_should_quit := True\<rparr> else app0) in
      if tu_should_quit app then app
      else if tt_now t - tu_last_refresh app \<ge> 2000 then tui_refresh fl (tt_connect t) from_json (tt_secs t) (tt_done t) app
      else app)"

fun tui_loop :: "'f floats \<Rightarrow> (string \<Rightarrow> cluster_health_data option) \<Rightarrow> tui_turn list \<Rightarrow> 'f tui_app \<Rightarrow> 'f tui_app" where
  "tui_loop fl from_json [] app = app"
| "tui_loop fl from_json (t # ts) app =
     (let app = tui_tick fl from_json t app in if tu_should_quit app then app else tui_loop fl from_json ts app)"

definition run_tui :: "'f floats \<Rightarrow> (string \<Rightarrow> cluster_health_data option) \<Rightarrow> int \<Rightarrow> string \<Rightarrow> tui_turn list \<Rightarrow> 'f tui_app" where
  "run_tui fl from_json now endpoint ts = tui_loop fl from_json ts (tui_new fl now endpoint)"

section \<open>Lemmas\<close>

lemma push_ops_last: "push_ops e (drop (length es - 100) es) = drop (length (es @ [e]) - 100) (es @ [e])"
proof -
  have "Suc (length es - 100) = length es - 99" if "99 < length es - (length es - 100)" using that by arith
  then show ?thesis by (simp add: push_ops_def Let_def)
qed

text \<open>The log of a dashboard is the end of what it ever logged.\<close>

definition log_of :: "'f tui_app \<Rightarrow> string list \<Rightarrow> bool" where
  "log_of app es \<longleftrightarrow> tu_ops_log app = drop (length es - 100) es"

lemma tui_tick_log:
  assumes "log_of app es"
  shows "\<exists>new. log_of (tui_tick fl from_json t app) (es @ new) \<and>
    (new = [] \<or> (\<exists>s. new = [refresh_entry (tt_secs t) s] \<and> tt_now t - tu_last_refresh app \<ge> 2000))"
proof (cases "tu_should_quit app \<or> tt_quit_key t \<or> tt_now t - tu_last_refresh app < 2000")
  case True
  then have "log_of (tui_tick fl from_json t app) (es @ [])" using assms by (auto simp: log_of_def tui_tick_def Let_def)
  then show ?thesis by blast
next
  case False
  then have "log_of (tui_tick fl from_json t app)
      (es @ [refresh_entry (tt_secs t) (hd_status (fetch_health (tt_connect t) from_json (tu_endpoint app)))])"
    using assms push_ops_last [of _ es] by (simp add: log_of_def tui_tick_def tui_refresh_def Let_def)
  then show ?thesis using False by (metis not_less)
qed

text \<open>Each logged entry is that of one turn of the loop, in order.\<close>

definition entries_of :: "u64 list \<Rightarrow> string list \<Rightarrow> bool" where
  "entries_of secs es \<longleftrightarrow> list_all2 (\<lambda>s e. \<exists>status. e = refresh_entry s status) secs es"

lemma tui_loop_log:
  "log_of app es \<Longrightarrow> \<exists>secs new. log_of (tui_loop fl from_json ts app) (es @ new) \<and> entries_of secs new \<and> subseq secs (map tt_secs ts)"
proof (induction ts arbitrary: app es)
  case Nil
  then show ?case by (intro exI [of _ "[]"]) (simp add: entries_of_def)
next
  case (Cons t ts)
  let ?app = "tui_tick fl from_json t app"
  obtain secs0 new0 where n0: "log_of ?app (es @ new0)" "entries_of secs0 new0" "subseq secs0 [tt_secs t]"
  proof -
    obtain new where "log_of ?app (es @ new)" "new = [] \<or> (\<exists>s. new = [refresh_entry (tt_secs t) s])"
      using tui_tick_log [OF Cons.prems] by blast
    then show thesis using that [of new "[]"] that [of new "[tt_secs t]"] by (auto simp: entries_of_def)
  qed
  show ?case
  proof (cases "tu_should_quit ?app")
    case True
    have "subseq secs0 (map tt_secs (t # ts))" using n0(3) list_emb_append2 [of "(=)" "[]" "[]"] subseq_order.order_trans [OF n0(3), of "map tt_secs (t # ts)"] by simp
    then show ?thesis using True n0 by (auto simp: Let_def)
  next
    case False
    obtain secs1 new1 where n1: "log_of (tui_loop fl from_json ts ?app) ((es @ new0) @ new1)" "entries_of secs1 new1" "subseq secs1 (map tt_secs ts)"
      using Cons.IH [OF n0(1)] by blast
    have "entries_of (secs0 @ secs1) (new0 @ new1)" using n0(2) n1(2) by (simp add: entries_of_def list_all2_appendI)
    moreover have "subseq (secs0 @ secs1) (map tt_secs (t # ts))" using list_emb_append_mono [OF n0(3) n1(3)] by simp
    ultimately show ?thesis using n1(1) False by (auto simp: Let_def intro!: exI [of _ "secs0 @ secs1"] exI [of _ "new0 @ new1"])
  qed
qed

text \<open>The text format of the metrics: comments and samples, one per line.\<close>

datatype metric_line = MetricComment string | MetricSample string string string

definition visible :: "char \<Rightarrow> bool" where
  "visible c \<longleftrightarrow> 33 \<le> (of_char c :: nat) \<and> (of_char c :: nat) \<le> 126"

fun metric_line_text :: "metric_line \<Rightarrow> string" where
  "metric_line_text (MetricComment s) = CHR ''#'' # s"
| "metric_line_text (MetricSample name labels v) = name @ labels @ '' '' @ v"

fun metric_line_ok :: "metric_line \<Rightarrow> bool" where
  "metric_line_ok (MetricComment s) \<longleftrightarrow> CHR 0x0A \<notin> set s"
| "metric_line_ok (MetricSample name labels v) \<longleftrightarrow> valid_name name \<and> (labels = [] \<or> hd labels = CHR ''{'') \<and> CHR 0x0A \<notin> set labels \<and>
     v \<noteq> [] \<and> list_all visible v"

definition metrics_text :: "metric_line list \<Rightarrow> string" where
  "metrics_text ls = concat (map (\<lambda>l. metric_line_text l @ [CHR 0x0A]) ls)"

lemma str_lines_Cons:
  "CHR 0x0A \<notin> set l \<Longrightarrow> str_lines (l @ CHR 0x0A # r) = strip_cr l # str_lines r"
  by (subst str_lines.simps) (simp add: dropWhile_append takeWhile_append split: list.splits)

lemma str_lines_metrics:
  "\<forall>l \<in> set ls. CHR 0x0A \<notin> set (metric_line_text l) \<Longrightarrow> str_lines (metrics_text ls) = map (strip_cr \<circ> metric_line_text) ls"
  by (induction ls) (simp_all add: metrics_text_def str_lines_Cons, simp add: str_lines.simps)

lemma space_not_visible: "is_space1 c \<Longrightarrow> \<not> visible c"
  by (auto simp: is_space1_def visible_def)

lemma space3_not_visible: "is_space3 a b c \<Longrightarrow> \<not> visible c"
  by (auto simp: is_space3_def visible_def)

lemma is_blank_last: "is_blank s \<Longrightarrow> s \<noteq> [] \<Longrightarrow> \<not> visible (last s)"
proof (induction s rule: is_blank.induct)
  case (2 a s)
  show ?case
  proof (cases "is_space1 a")
    case True
    then show ?thesis using 2 space_not_visible by (cases s) auto
  next
    case False
    then obtain b t where s: "s = b # t" using 2(4) by (cases s) auto
    show ?thesis
    proof (cases "a = CHR 0xC2 \<and> (b = CHR 0x85 \<or> b = CHR 0xA0)")
      case True
      then show ?thesis using 2(2) [OF False s True] 2(4) False by (cases t) (auto simp: s visible_def)
    next
      case nb: False
      then obtain c u where t: "t = c # u" "is_space3 a b c" "is_blank u"
        using 2(4) False by (cases t) (auto simp: s split: if_splits)
      then show ?thesis using 2(3) [OF False s nb t(1,2,3)] space3_not_visible by (cases u) (auto simp: s)
    qed
  qed
qed simp

lemma trim_end_visible: "l \<noteq> [] \<Longrightarrow> visible (last l) \<Longrightarrow> trim_end l = l"
proof (induction l)
  case (Cons c l)
  then have "\<not> is_blank (c # l)" using is_blank_last by blast
  then show ?case using Cons by (cases l) auto
qed simp

lemma ws_len_visible: "visible c \<Longrightarrow> ws_len (c # s) = 0"
  by (auto simp: ws_len_def visible_def split: list.splits)

lemma str_trim_visible: "visible (hd l) \<Longrightarrow> visible (last l) \<Longrightarrow> l \<noteq> [] \<Longrightarrow> str_trim l = l"
  using ws_len_visible [of "hd l" "tl l"] by (simp add: str_trim_def trim_start.simps trim_end_visible)

lemma valid_name_chars: "valid_name n \<Longrightarrow> CHR '' '' \<notin> set n \<and> CHR ''{'' \<notin> set n \<and> CHR 0x0A \<notin> set n \<and> n \<noteq> [] \<and> visible (hd n) \<and> hd n \<noteq> CHR ''#''"
proof -
  assume n: "valid_name n"
  have "name_start c \<Longrightarrow> visible c \<and> c \<noteq> CHR ''{'' \<and> c \<noteq> CHR ''#''" for c by (auto simp: name_start_def visible_def)
  moreover have "List.member ''0123456789'' c \<Longrightarrow> visible c \<and> c \<noteq> CHR ''{''" for c by (auto simp: visible_def)
  ultimately have "\<forall>c \<in> set n. visible c \<and> c \<noteq> CHR ''{''" "visible (hd n)" "hd n \<noteq> CHR ''#''" "n \<noteq> []"
    using n unfolding valid_name_def list_all_iff by blast+
  moreover have "\<not> visible (CHR '' '')" "\<not> visible (CHR 0x0A)" by (simp_all add: visible_def)
  ultimately show ?thesis by blast
qed

lemma names_metric_exact:
  assumes "valid_name n" and "valid_name name" and "rest \<noteq> []" and "hd rest = CHR '' '' \<or> hd rest = CHR ''{''"
  shows "names_metric n (name @ rest) \<longleftrightarrow> name = n"
proof
  assume m: "names_metric n (name @ rest)"
  then have p: "prefix n (name @ rest)" by (simp add: names_metric_def)
  then consider (inside) x where "name = n @ x" | (beyond) y where "n = name @ y" "prefix y rest"
    by (auto simp: prefix_append)  (metis prefixE)
  then show "name = n"
  proof cases
    case inside
    then show ?thesis using m valid_name_chars [OF assms(2)] by (cases x) (auto simp: names_metric_def)
  next
    case beyond
    then show ?thesis using valid_name_chars [OF assms(1)] assms(3,4) by (cases y; cases rest) auto
  qed
qed (use assms(3,4) in \<open>auto simp: names_metric_def neq_Nil_conv\<close>)

lemma after_last_space_value: "CHR '' '' \<notin> set v \<Longrightarrow> after_last_space (a @ '' '' @ v) = Some v"
  by (simp add: after_last_space_def takeWhile_append)

lemma metric_loop_comment: "metric_loop parse n (strip_cr (metric_line_text (MetricComment s)) # ls) = metric_loop parse n ls"
proof -
  define r where "r = tl (strip_cr (CHR ''#'' # s))"
  have r: "strip_cr (CHR ''#'' # s) = CHR ''#'' # r" by (cases s rule: rev_cases) (simp_all add: strip_cr_def r_def butlast_append)
  have v: "visible (CHR ''#'')" by (simp add: visible_def)
  have "\<not> is_blank (CHR ''#'' # r)" by (auto simp: is_space1_def is_space3_def split: list.splits)
  then have "prefix ''#'' (str_trim (CHR ''#'' # r))"
    using ws_len_visible [OF v, of r] by (simp add: str_trim_def trim_start.simps)
  then show ?thesis by (simp add: r Let_def)
qed

lemma metric_loop_sample:
  assumes "valid_name n" and "metric_line_ok (MetricSample name labels v)"
  shows "metric_loop parse n (strip_cr (metric_line_text (MetricSample name labels v)) # ls) =
    (if name = n then parse v else metric_loop parse n ls)"
proof -
  let ?l = "name @ labels @ '' '' @ v"
  have ok: "valid_name name" "labels = [] \<or> hd labels = CHR ''{''" "v \<noteq> []" "list_all visible v" using assms(2) by simp_all
  then have last: "visible (last ?l)" by (simp add: list_all_iff)
  have sp: "CHR '' '' \<notin> set v" "\<not> visible (CHR 0x0D)" using ok(4) by (auto simp: list_all_iff visible_def)
  have strip: "strip_cr ?l = ?l" using last sp(2) by (auto simp: strip_cr_def)
  have hd: "visible (hd ?l)" "hd ?l \<noteq> CHR ''#''" using valid_name_chars [OF ok(1)] by auto
  have trim: "str_trim ?l = ?l" using hd(1) last by (intro str_trim_visible) auto
  have hash: "\<not> prefix ''#'' ?l" using hd(2) by (cases ?l) auto
  have "names_metric n ?l \<longleftrightarrow> name = n"
    by (rule names_metric_exact [OF assms(1) ok(1)]) (use ok(2) in \<open>cases labels; auto\<close>)+
  moreover have "after_last_space ?l = Some v" using after_last_space_value [OF sp(1), of "name @ labels"] by simp
  ultimately show ?thesis by (simp only: metric_line_text.simps strip metric_loop.simps Let_def trim hash) simp
qed

section \<open>Properties\<close>

text \<open>
  A metric is read back from the text format: of a text with any comments and samples, the value
  that is parsed is that of the first sample with exactly this name, whatever its labels, and none if
  there is no such sample. Names that begin with the wanted one are not confused with it.
\<close>

theorem parse_metric_value_exact:
  assumes "valid_name n" and "list_all metric_line_ok ls"
  shows "parse_metric_value parse (metrics_text ls) n =
    (case find (\<lambda>l. case l of MetricSample name _ _ \<Rightarrow> name = n | MetricComment _ \<Rightarrow> False) ls of
       Some (MetricSample _ _ v) \<Rightarrow> parse v
     | _ \<Rightarrow> None)"
proof -
  have lf: "metric_line_ok l \<Longrightarrow> CHR 0x0A \<notin> set (metric_line_text l)" for l
    using valid_name_chars by (cases l) (auto simp: list_all_iff visible_def)
  then have "str_lines (metrics_text ls) = map (strip_cr \<circ> metric_line_text) ls"
    using assms(2) by (intro str_lines_metrics) (simp add: list_all_iff)
  moreover have "metric_loop parse n (map (strip_cr \<circ> metric_line_text) ls) =
    (case find (\<lambda>l. case l of MetricSample name _ _ \<Rightarrow> name = n | MetricComment _ \<Rightarrow> False) ls of
       Some (MetricSample _ _ v) \<Rightarrow> parse v | _ \<Rightarrow> None)"
    using assms(2)
  proof (induction ls)
    case (Cons l ls)
    then show ?case
      by (cases l) (simp_all only: list.map comp_apply metric_loop_comment metric_loop_sample [OF assms(1)] list.pred_inject find.simps metric_line.case if_False if_True split: if_splits, simp_all)
  qed simp
  ultimately show ?thesis by (simp add: parse_metric_value_def)
qed

theorem parse_metric_value_exact_witness:
  "parse_metric_value Some (metrics_text [MetricComment '' HELP a_total'', MetricSample ''a_total'' ''{m=1}'' ''3'',
     MetricSample ''a_total'' ''{m=2}'' ''40'']) ''a_total'' = Some ''3'' \<and>
   parse_metric_value Some (metrics_text [MetricSample ''a_total'' [] ''3'']) ''a'' = None"
proof
  have ok: "valid_name ''a_total''" "valid_name ''a''" by (simp_all add: valid_name_def name_start_def)
  have v: "visible (CHR ''3'')" "visible (CHR ''4'')" "visible (CHR ''0'')" by (simp_all add: visible_def)
  show "parse_metric_value Some (metrics_text [MetricComment '' HELP a_total'', MetricSample ''a_total'' ''{m=1}'' ''3'',
     MetricSample ''a_total'' ''{m=2}'' ''40'']) ''a_total'' = Some ''3''"
    by (subst parse_metric_value_exact [OF ok(1)]) (simp_all add: ok v)
  show "parse_metric_value Some (metrics_text [MetricSample ''a_total'' [] ''3'']) ''a'' = None"
    by (subst parse_metric_value_exact [OF ok(2)]) (simp_all add: ok v)
qed

text \<open>
  The log of the dashboard is bounded and current: whatever happens, it is the last hundred of
  the entries of the refreshes, each of a turn of the loop and in their order, and the panel shows the
  last twenty of them.
\<close>

theorem dashboard_log_bounded:
  "\<exists>secs es. entries_of secs es \<and> subseq secs (map tt_secs ts) \<and>
     tu_ops_log (run_tui fl from_json now endpoint ts) = drop (length es - 100) es \<and>
     map fst (ops_log_panel (run_tui fl from_json now endpoint ts)) = drop (length es - 20) es"
proof -
  let ?app = "run_tui fl from_json now endpoint ts"
  have "log_of (tui_new fl now endpoint) []" by (simp add: log_of_def tui_new_def)
  then obtain secs es where es: "log_of ?app es" "entries_of secs es" "subseq secs (map tt_secs ts)"
    using tui_loop_log [of "tui_new fl now endpoint" "[]" fl from_json ts] unfolding run_tui_def append_Nil by blast
  have "map fst (ops_log_panel ?app) = rev (take 20 (rev (tu_ops_log ?app)))" by (simp add: ops_log_panel_def comp_def)
  also have "\<dots> = drop (length es - (length es - 100 + 20) + (length es - 100)) es" using es(1) by (simp add: log_of_def take_rev)
  also have "length es - (length es - 100 + 20) + (length es - 100) = length es - 20" by arith
  finally show ?thesis using es by (auto simp: log_of_def)
qed

end
