(* ===== verification/Failure_Detector.thy ===== *)
theory Failure_Detector
  imports Cluster_Manager
begin

text \<open>
  The suspicion value of the failure detector, \<^verbatim>\<open>crates/node/src/cluster_manager.rs\<close>. It is
  computed in floating point: the operations and the literals are the parameter \<open>float_ops\<close>, of
  which only the order of the two thresholds is used. The history of heartbeats is that of
  \<open>Cluster_Manager\<close>; times are in milliseconds.
\<close>

record 'f float_ops =
  fo_lit :: "string \<Rightarrow> 'f"
  fo_of_nat :: "nat \<Rightarrow> 'f"
  fo_add :: "'f \<Rightarrow> 'f \<Rightarrow> 'f"
  fo_sub :: "'f \<Rightarrow> 'f \<Rightarrow> 'f"
  fo_mul :: "'f \<Rightarrow> 'f \<Rightarrow> 'f"
  fo_div :: "'f \<Rightarrow> 'f \<Rightarrow> 'f"
  fo_neg :: "'f \<Rightarrow> 'f"
  fo_abs :: "'f \<Rightarrow> 'f"
  fo_sqrt :: "'f \<Rightarrow> 'f"
  fo_exp :: "'f \<Rightarrow> 'f"
  fo_log10 :: "'f \<Rightarrow> 'f"
  fo_less :: "'f \<Rightarrow> 'f \<Rightarrow> bool"
  fo_le :: "'f \<Rightarrow> 'f \<Rightarrow> bool"
  fo_max_value :: 'f

definition PHI_SUSPECT_THRESHOLD :: "'f float_ops \<Rightarrow> 'f" where
  "PHI_SUSPECT_THRESHOLD fo = fo_lit fo ''8.0''"

definition PHI_DEAD_THRESHOLD :: "'f float_ops \<Rightarrow> 'f" where
  "PHI_DEAD_THRESHOLD fo = fo_lit fo ''16.0''"

definition normal_cdf :: "'f float_ops \<Rightarrow> 'f \<Rightarrow> 'f" where
  "normal_cdf fo x0 =
     (let a1 = fo_lit fo ''0.254829592''; a2 = fo_lit fo ''-0.284496736''; a3 = fo_lit fo ''1.421413741'';
          a4 = fo_lit fo ''-1.453152027''; a5 = fo_lit fo ''1.061405429''; p = fo_lit fo ''0.3275911'';
          one = fo_lit fo ''1.0'';
          sign = (if fo_less fo x0 (fo_lit fo ''0.0'') then fo_lit fo ''-1.0'' else one);
          x = fo_div fo (fo_abs fo x0) (fo_lit fo ''SQRT_2'');
          t = fo_div fo one (fo_add fo one (fo_mul fo p x));
          poly = fo_add fo (fo_mul fo (fo_add fo (fo_mul fo (fo_add fo (fo_mul fo (fo_add fo (fo_mul fo a5 t) a4) t) a3) t) a2) t) a1;
          y = fo_sub fo one (fo_mul fo (fo_mul fo poly t) (fo_exp fo (fo_mul fo (fo_neg fo x) x))) in
      fo_mul fo (fo_lit fo ''0.5'') (fo_add fo one (fo_mul fo sign y)))"

definition float_sum :: "'f float_ops \<Rightarrow> 'f list \<Rightarrow> 'f" where
  "float_sum fo xs = fold (\<lambda>x s. fo_add fo s x) xs (fo_lit fo ''0.0'')"

definition phi_at :: "'f float_ops \<Rightarrow> failure_detector \<Rightarrow> node_id \<Rightarrow> nat \<Rightarrow> 'f option" where
  "phi_at fo d n at =
     (case fmlookup d n of
        None \<Rightarrow> None
      | Some history \<Rightarrow>
          if length (intervals history) < 2 then None
          else
            let xs = map (fo_of_nat fo) (intervals history);
                elapsed = fo_of_nat fo (at - last_heartbeat history);
                k = fo_of_nat fo (length xs);
                mean = fo_div fo (float_sum fo xs) k;
                variance = fo_div fo (float_sum fo (map (\<lambda>x. fo_mul fo (fo_sub fo x mean) (fo_sub fo x mean)) xs)) k;
                stddev0 = fo_sqrt fo variance;
                stddev = (if fo_less fo stddev0 (fo_lit fo ''1.0'') then fo_lit fo ''1.0'' else stddev0);
                y = fo_div fo (fo_sub fo elapsed mean) stddev;
                p_later = fo_sub fo (fo_lit fo ''1.0'') (normal_cdf fo y) in
            if fo_le fo p_later (fo_lit fo ''0.0'') then Some (fo_max_value fo) else Some (fo_neg fo (fo_log10 fo p_later)))"

text \<open>\<^verbatim>\<open>phi\<close> is \<^verbatim>\<open>phi_at\<close> at the current time.\<close>

definition phi :: "'f float_ops \<Rightarrow> nat \<Rightarrow> failure_detector \<Rightarrow> node_id \<Rightarrow> 'f option" where
  "phi fo now d n = phi_at fo d n now"

definition is_suspect :: "'f float_ops \<Rightarrow> nat \<Rightarrow> failure_detector \<Rightarrow> node_id \<Rightarrow> bool" where
  "is_suspect fo now d n = (case phi fo now d n of Some p \<Rightarrow> fo_less fo (PHI_SUSPECT_THRESHOLD fo) p | None \<Rightarrow> False)"

definition is_dead :: "'f float_ops \<Rightarrow> nat \<Rightarrow> failure_detector \<Rightarrow> node_id \<Rightarrow> bool" where
  "is_dead fo now d n = (case phi fo now d n of Some p \<Rightarrow> fo_less fo (PHI_DEAD_THRESHOLD fo) p | None \<Rightarrow> False)"

section \<open>Lemmas\<close>

lemma report_heartbeat_intervals:
  "length (intervals (the (fmlookup (report_heartbeat_at d n at) n))) \<le>
     (case fmlookup d n of None \<Rightarrow> 0 | Some hist \<Rightarrow> Suc (length (intervals hist)))"
  "n' \<noteq> n \<Longrightarrow> fmlookup (report_heartbeat_at d n at) n' = fmlookup d n'"
  "fmlookup (report_heartbeat_at d n at) n \<noteq> None"
  by (auto simp: report_heartbeat_at_def Let_def fm_get_or_def split: option.splits)

lemma reported_intervals:
  "fmlookup (fold (\<lambda>(n, t) d. report_heartbeat_at d n t) hs fmempty) n = Some hist \<Longrightarrow>
   length (intervals hist) < length (filter (\<lambda>(m, t). m = n) hs)"
proof (induction hs arbitrary: hist rule: rev_induct)
  case (snoc h hs)
  obtain m t where h: "h = (m, t)" by fastforce
  let ?d = "fold (\<lambda>(n, t) d. report_heartbeat_at d n t) hs fmempty"
  have l: "fmlookup (report_heartbeat_at ?d m t) n = Some hist" using snoc.prems by (simp add: h)
  show ?case
  proof (cases "m = n")
    case True
    then have "length (intervals hist) \<le> (case fmlookup ?d n of None \<Rightarrow> 0 | Some hist \<Rightarrow> Suc (length (intervals hist)))"
      using report_heartbeat_intervals(1) [of ?d n t] l by simp
    then show ?thesis using snoc.IH True by (auto simp: h split: option.splits)
  next
    case False
    then show ?thesis using l snoc.IH report_heartbeat_intervals(2) [of n m ?d t] by (simp add: h)
  qed
qed simp

section \<open>Properties\<close>

text \<open>
  Levels of suspicion: a node that is considered dead is also suspected, and a node that was heard
  of at most twice is never suspected, however long it has been silent since.
\<close>

theorem suspicion_levels:
  assumes "\<And>p. fo_less fo (fo_lit fo ''16.0'') p \<Longrightarrow> fo_less fo (fo_lit fo ''8.0'') p"
  shows "(is_dead fo now d n \<longrightarrow> is_suspect fo now d n) \<and>
    (length (filter (\<lambda>(m, t). m = n) hs) \<le> 2 \<longrightarrow>
       \<not> is_suspect fo now (fold (\<lambda>(n, t) d. report_heartbeat_at d n t) hs fmempty) n)"
proof
  show "is_dead fo now d n \<longrightarrow> is_suspect fo now d n"
    using assms by (auto simp: is_dead_def is_suspect_def PHI_DEAD_THRESHOLD_def PHI_SUSPECT_THRESHOLD_def split: option.splits)
  show "length (filter (\<lambda>(m, t). m = n) hs) \<le> 2 \<longrightarrow>
       \<not> is_suspect fo now (fold (\<lambda>(n, t) d. report_heartbeat_at d n t) hs fmempty) n"
    using reported_intervals [of hs n] by (auto simp: is_suspect_def phi_def phi_at_def Let_def split: option.splits if_splits)
qed

end
