(* ===== verification/Health_Rounds.thy ===== *)
theory Health_Rounds
  imports Cluster_Manager
begin

text \<open>
  The rounds of health checks of the cluster manager (\<^verbatim>\<open>run_health_checks\<close> in
  \<^verbatim>\<open>crates/node/src/cluster_manager.rs\<close>): every second all tracked nodes but the local one
  are checked, one after the other, in the order of the map. What connections and calls answer in a
  round is an argument.
\<close>

record 'c check_round =
  hr_connect :: "node_address \<Rightarrow> 'c db_result"
  hr_rpc :: "'c \<Rightarrow> unit db_result"
  hr_now :: "node_id \<Rightarrow> nat"
  hr_latency :: "node_id \<Rightarrow> u64"

definition checked_nodes :: "((node_id, node_health) fmap \<Rightarrow> (node_id \<times> node_health) list) \<Rightarrow> 'c cluster_manager \<Rightarrow> node_id list" where
  "checked_nodes it m = filter (\<lambda>i. i \<noteq> ni_id (cm_local_node m)) (map fst (it (cm_health_state m)))"

definition round_check :: "'c check_round \<Rightarrow> node_id \<Rightarrow> 'c health_check" where
  "round_check r n = \<lparr>hc_connect = hr_connect r, hc_rpc = hr_rpc r, hc_now = hr_now r n, hc_latency = hr_latency r n, hc_node = n\<rparr>"

definition health_round ::
    "(string \<Rightarrow> u8 list) \<Rightarrow> ((node_id, node_health) fmap \<Rightarrow> (node_id \<times> node_health) list) \<Rightarrow> 'c check_round \<Rightarrow> 'c cluster_manager \<Rightarrow> 'c cluster_manager" where
  "health_round h it r m = fold (run_check h) (map (round_check r) (checked_nodes it m)) m"

definition run_health_checks ::
    "(string \<Rightarrow> u8 list) \<Rightarrow> ((node_id, node_health) fmap \<Rightarrow> (node_id \<times> node_health) list) \<Rightarrow> 'c check_round list \<Rightarrow> 'c cluster_manager \<Rightarrow> 'c cluster_manager" where
  "run_health_checks h it rs m = fold (health_round h it) rs m"

section \<open>Lemmas\<close>

text \<open>
  A node that does not answer in a round: \<open>a\<close> is its address and \<open>C\<close> the set of the channels that
  lead to it. Connecting to the address fails or gives a channel to the node, and no call on such a
  channel succeeds. Nothing is said of other addresses and channels.
\<close>

definition silent :: "node_address \<Rightarrow> 'c set \<Rightarrow> 'c check_round \<Rightarrow> bool" where
  "silent a C r \<longleftrightarrow> (\<forall>c. hr_connect r a = Inr c \<longrightarrow> c \<in> C) \<and> (\<forall>c \<in> C. \<exists>e. hr_rpc r c = Inl e)"

text \<open>The manager knows the node under that address, and a pooled channel of the node leads to it.\<close>

definition known_at :: "node_id \<Rightarrow> node_address \<Rightarrow> 'c set \<Rightarrow> 'c cluster_manager \<Rightarrow> bool" where
  "known_at n a C m \<longleftrightarrow>
     (\<forall>info. router_get_node (cm_router m) n = Some info \<longrightarrow> ni_address info = a) \<and>
     (\<forall>e. fmlookup (entries (cm_pool m)) (as_u64 n) = Some e \<longrightarrow> pe_client e \<in> C)"

definition pooled :: "node_id \<Rightarrow> 'c set \<Rightarrow> 'c connection_pool \<Rightarrow> bool" where
  "pooled n C p \<longleftrightarrow> (\<forall>e. fmlookup (entries p) (as_u64 n) = Some e \<longrightarrow> pe_client e \<in> C)"

lemma pooled_get:
  assumes "silent a C r" and "pooled n C p"
  shows "pooled n C (fst (pool_get (hr_connect r) p now n a))"
    and "snd (pool_get (hr_connect r) p now n a) = Inr c \<Longrightarrow> c \<in> C"
  using assms
  by (cases "fmlookup (entries p) (as_u64 n)"; cases "hr_connect r a"; auto simp: silent_def pooled_def pool_get_def Let_def split: if_splits)+

lemma pooled_record:
  assumes "pooled n C p"
  shows "pooled n C (pool_record_success p n)" and "pooled n C (pool_record_failure p now n)"
  using assms by (auto simp: pooled_def pool_record_success_def pool_record_failure_def split: option.splits)

lemma silent_ping:
  assumes "silent a C r" and "known_at n a C m"
  shows "\<exists>e. snd (ping_node (hr_connect r) (hr_rpc r) now n m) = Inl e" (is ?fails)
    and "pooled n C (cm_pool (fst (ping_node (hr_connect r) (hr_rpc r) now n m)))" (is ?pooled)
proof -
  have p: "pooled n C (cm_pool m)" using assms(2) by (simp add: known_at_def pooled_def)
  have "?fails \<and> ?pooled"
  proof (cases "router_get_node (cm_router m) n")
    case (Some info)
    then have info: "ni_address info = a" using assms(2) by (simp add: known_at_def)
    obtain p' x where g: "pool_get (hr_connect r) (cm_pool m) now n a = (p', x)" by fastforce
    have p': "pooled n C p'" using pooled_get(1) [OF assms(1) p, of now] by (simp add: g)
    show ?thesis
    proof (cases x)
      case (Inr c)
      then have "c \<in> C" using pooled_get(2) [OF assms(1) p, of now c] by (simp add: g)
      then obtain e where "hr_rpc r c = Inl e" using assms(1) by (auto simp: silent_def)
      with Some info g Inr show ?thesis by (simp add: ping_node_def pooled_record [OF p'])
    qed (use Some info g p' in \<open>simp add: ping_node_def\<close>)
  qed (use p in \<open>simp add: ping_node_def\<close>)
  then show ?fails ?pooled by blast+
qed

lemma health_check_pool:
  "cm_pool (health_check_node h connect rpc now lat n m) = cm_pool (fst (ping_node connect rpc now n m))"
  by (cases "ping_node connect rpc now n m")
    (auto simp: health_check_node_def Let_def split: option.splits sum.splits prod.splits)

text \<open>A check of another node leaves the channel of this one alone.\<close>

lemma pool_other:
  assumes "n' \<noteq> n"
  shows "fmlookup (entries (fst (pool_get connect p now n' a))) (as_u64 n) = fmlookup (entries p) (as_u64 n)"
    and "fmlookup (entries (pool_record_success p n')) (as_u64 n) = fmlookup (entries p) (as_u64 n)"
    and "fmlookup (entries (pool_record_failure p now n')) (as_u64 n) = fmlookup (entries p) (as_u64 n)"
proof -
  have ne: "as_u64 n' \<noteq> as_u64 n" using assms by (auto intro: node_id.expand)
  then show "fmlookup (entries (fst (pool_get connect p now n' a))) (as_u64 n) = fmlookup (entries p) (as_u64 n)"
    by (cases "fmlookup (entries p) (as_u64 n')"; cases "connect a") (simp_all add: pool_get_def Let_def)
  show "fmlookup (entries (pool_record_success p n')) (as_u64 n) = fmlookup (entries p) (as_u64 n)"
    "fmlookup (entries (pool_record_failure p now n')) (as_u64 n) = fmlookup (entries p) (as_u64 n)"
    using ne by (cases "fmlookup (entries p) (as_u64 n')"; simp add: pool_record_success_def pool_record_failure_def)+
qed

lemma ping_pool_other:
  assumes "n' \<noteq> n"
  shows "fmlookup (entries (cm_pool (fst (ping_node connect rpc now n' m)))) (as_u64 n) = fmlookup (entries (cm_pool m)) (as_u64 n)"
proof (cases "router_get_node (cm_router m) n'")
  case (Some info)
  obtain p x where g: "pool_get connect (cm_pool m) now n' (ni_address info) = (p, x)" by fastforce
  then have "fmlookup (entries p) (as_u64 n) = fmlookup (entries (cm_pool m)) (as_u64 n)"
    using pool_other(1) [OF assms, of connect "cm_pool m" now "ni_address info"] by simp
  with Some g show ?thesis by (cases x; cases "rpc (projr x)") (simp_all add: ping_node_def pool_other [OF assms])
qed (simp add: ping_node_def)

lemma removed_address:
  assumes "\<forall>info. router_get_node r n = Some info \<longrightarrow> ni_address info = a"
  shows "\<forall>info. router_get_node (router_remove_node h n' r) n = Some info \<longrightarrow> ni_address info = a"
  using assms by (auto simp: router_get_node_def router_remove_node_def split: option.splits)

lemma known_at_check:
  assumes "known_at n a C m" and "silent a C r"
  shows "known_at n a C (run_check h (round_check r n') m)"
proof -
  let ?m = "run_check h (round_check r n') m"
  have addr: "\<forall>info. router_get_node (cm_router m) n = Some info \<longrightarrow> ni_address info = a" using assms(1) by (simp add: known_at_def)
  have "cm_router ?m = cm_router m \<or> cm_router ?m = router_remove_node h n' (cm_router m)"
    using health_check_router [of h "hr_connect r" "hr_rpc r" "hr_now r n'" "hr_latency r n'" n' m] by (simp add: run_check_def round_check_def)
  then have "\<forall>info. router_get_node (cm_router ?m) n = Some info \<longrightarrow> ni_address info = a"
    using addr removed_address [OF addr] by metis
  moreover have "\<forall>e. fmlookup (entries (cm_pool ?m)) (as_u64 n) = Some e \<longrightarrow> pe_client e \<in> C"
    using silent_ping(2) [OF assms(2,1)] ping_pool_other [of n' n "hr_connect r" "hr_rpc r" "hr_now r n'" m] assms(1)
    by (cases "n' = n") (auto simp: run_check_def round_check_def health_check_pool known_at_def pooled_def)
  ultimately show ?thesis by (simp add: known_at_def)
qed

lemma known_at_checks:
  "known_at n a C m \<Longrightarrow> silent a C r \<Longrightarrow> known_at n a C (fold (run_check h) (map (round_check r) ns) m)"
  by (induction ns arbitrary: m) (simp_all add: known_at_check)

lemma ping_local [simp]: "cm_local_node (fst (ping_node connect rpc now n m)) = cm_local_node m"
  by (auto simp: ping_node_def split: option.splits prod.splits sum.splits)

lemma run_check_local [simp]: "cm_local_node (run_check h c m) = cm_local_node m"
  using ping_local [of "hc_connect c" "hc_rpc c" "hc_now c" "hc_node c" m]
  by (cases "ping_node (hc_connect c) (hc_rpc c) (hc_now c) (hc_node c) m")
    (auto simp: run_check_def health_check_node_def Let_def split: option.splits sum.splits prod.splits)

lemma run_check_other:
  assumes "hc_node c \<noteq> n"
  shows "fmlookup (cm_health_state (run_check h c m)) n = fmlookup (cm_health_state m) n"
  using assms ping_node_keeps [of "hc_connect c" "hc_rpc c" "hc_now c" "hc_node c" m]
  by (cases "ping_node (hc_connect c) (hc_rpc c) (hc_now c) (hc_node c) m")
    (auto simp: run_check_def health_check_node_def Let_def split: option.splits sum.splits prod.splits)

lemma failed_check_health:
  assumes "snd (ping_node connect rpc now n m) = Inl e" "fmlookup (cm_health_state m) n = Some hl"
  shows "fmlookup (cm_health_state (health_check_node h connect rpc now lat n m)) n = Some (fst (health_record_failure hl))"
  using assms ping_node_keeps [of connect rpc now n m]
  by (cases "ping_node connect rpc now n m") (auto simp: health_check_node_def Let_def case_prod_beta)

text \<open>A node with \<open>k\<close> failures in a row, off the ring from the third on.\<close>

definition failed_times :: "node_id \<Rightarrow> nat \<Rightarrow> 'c cluster_manager \<Rightarrow> bool" where
  "failed_times n k m \<longleftrightarrow> (\<exists>hl. fmlookup (cm_health_state m) n = Some hl \<and> health_matches k hl) \<and>
     (3 \<le> k \<longrightarrow> fmlookup (ring_nodes (cr_ring (cm_router m))) (id_str n) = None)"

lemma failed_times_other:
  assumes "failed_times n k m" and "\<forall>c \<in> set cs. hc_node c \<noteq> n"
  shows "failed_times n k (fold (run_check h) cs m)"
proof -
  have "fmlookup (cm_health_state (fold (run_check h) cs m)) n = fmlookup (cm_health_state m) n"
    using assms(2) by (induction cs arbitrary: m) (simp_all add: run_check_other)
  then show ?thesis using assms(1) run_checks_ring [of m "id_str n" h cs] by (auto simp: failed_times_def)
qed

lemma failed_times_check:
  assumes "failed_times n k m" and "silent a C r" and "known_at n a C m"
  shows "failed_times n (Suc k) (run_check h (round_check r n) m)"
proof -
  obtain hl where hl: "fmlookup (cm_health_state m) n = Some hl" "health_matches k hl" using assms(1) by (auto simp: failed_times_def)
  obtain e where e: "snd (ping_node (hr_connect r) (hr_rpc r) (hr_now r n) n m) = Inl e" using silent_ping(1) [OF assms(2,3)] by blast
  let ?m = "run_check h (round_check r n) m"
  have "fmlookup (cm_health_state ?m) n = Some (fst (health_record_failure hl))"
    using failed_check_health [OF e hl(1), of h "hr_latency r n"] by (simp add: run_check_def round_check_def)
  moreover have "cm_router ?m = (if k = 2 then router_remove_node h n (cm_router m) else cm_router m)"
    using failed_check [OF e hl(1), of h "hr_latency r n"] health_matches_failure [OF hl(2)] by (simp add: run_check_def round_check_def)
  moreover have "fmlookup (ring_nodes (cr_ring (router_remove_node h n (cm_router m)))) (id_str n) = None"
    by (simp add: router_remove_node_def ring_lookups)
  ultimately show ?thesis
    using health_matches_failure [OF hl(2)] assms(1) by (auto simp: failed_times_def le_Suc_eq numeral_3_eq_3)
qed

lemma failed_times_round:
  assumes "hash_iter it" and "n \<noteq> ni_id (cm_local_node m)" and "failed_times n k m" and "silent a C r" and "known_at n a C m"
  shows "failed_times n (Suc k) (health_round h it r m)"
proof -
  have "n \<in> set (checked_nodes it m)"
    using assms(2,3) hash_iter_set [OF assms(1), of "cm_health_state m"] by (force simp: checked_nodes_def failed_times_def)
  then obtain xs ys where s: "checked_nodes it m = xs @ n # ys" by (meson split_list)
  moreover have "distinct (checked_nodes it m)" using hash_iterD(1) [OF assms(1)] by (simp add: checked_nodes_def)
  ultimately have d: "n \<notin> set xs" "n \<notin> set ys" by auto
  let ?m1 = "fold (run_check h) (map (round_check r) xs) m"
  have "failed_times n k ?m1" using d by (intro failed_times_other [OF assms(3)]) (auto simp: round_check_def)
  then have "failed_times n (Suc k) (run_check h (round_check r n) ?m1)" by (rule failed_times_check [OF _ assms(4) known_at_checks [OF assms(5,4)]])
  then have "failed_times n (Suc k) (fold (run_check h) (map (round_check r) ys) (run_check h (round_check r n) ?m1))"
    using d by (intro failed_times_other) (auto simp: round_check_def)
  then show ?thesis by (simp add: health_round_def s)
qed

lemma run_checks_local: "cm_local_node (fold (run_check h) cs m) = cm_local_node m"
  by (induction cs arbitrary: m) simp_all

lemma run_rounds:
  assumes "hash_iter it"
  shows "n \<noteq> ni_id (cm_local_node m) \<Longrightarrow> failed_times n k m \<Longrightarrow> \<forall>r \<in> set rs. silent a C r \<Longrightarrow> known_at n a C m \<Longrightarrow>
    router_reachable h S (cm_router m) \<Longrightarrow>
    failed_times n (k + length rs) (run_health_checks h it rs m) \<and> router_reachable h S (cm_router (run_health_checks h it rs m))"
proof (induction rs arbitrary: m k)
  case (Cons r rs)
  let ?m = "health_round h it r m"
  have "failed_times n (Suc k) ?m" using failed_times_round [OF assms Cons.prems(1,2) _ Cons.prems(4)] Cons.prems(3) by simp
  moreover have "cm_local_node ?m = cm_local_node m" by (simp add: health_round_def run_checks_local)
  moreover have "router_reachable h S (cm_router ?m)" using run_checks_inv [OF Cons.prems(5)] by (simp add: health_round_def)
  moreover have "known_at n a C ?m" using known_at_checks [OF Cons.prems(4)] Cons.prems(3) by (simp add: health_round_def)
  ultimately show ?case using Cons.IH [of ?m "Suc k"] Cons.prems(1,3) by (simp add: run_health_checks_def)
qed (simp add: run_health_checks_def)

section \<open>Properties\<close>

text \<open>
  C25. A silent node leaves the ring: when a registered node answers no call of three rounds of
  health checks or more (connecting to its address fails, or the channels to it do not answer), it is
  offline afterwards and no document is routed to it any more, whatever the other nodes answer and
  in whatever order the nodes are checked.
\<close>

theorem silent_node_leaves_ring:
  assumes "hash_iter it" and "n \<noteq> ni_id (cm_local_node m)" and "fmlookup (cm_health_state m) n = Some (health_new t n)"
    and "known_at n a C m" and "\<forall>r \<in> set rs. silent a C r" and "3 \<le> length rs"
    and "router_reachable h S (cm_router m)" and "collision_free h (id_str ` S)"
  shows "(\<exists>hl. fmlookup (cm_health_state (run_health_checks h it rs m)) n = Some hl \<and> nh_status hl = Offline) \<and>
    n \<notin> set (route_document h (cm_router (run_health_checks h it rs m)) d)"
proof -
  have "failed_times n 0 m" using assms(3) health_matches_new by (auto simp: failed_times_def)
  then have f: "failed_times n (length rs) (run_health_checks h it rs m)" "router_reachable h S (cm_router (run_health_checks h it rs m))"
    using run_rounds [OF assms(1,2) _ assms(5,4,7)] by force+
  then show ?thesis
    using assms(6) unrouted [OF f(2) assms(8)] by (auto simp: failed_times_def health_matches_def)
qed

text \<open>Node 3 answers every call, node 2 cannot be connected to.\<close>

definition half_round :: "nat check_round" where
  "half_round = \<lparr>hr_connect = (\<lambda>a. if a = ni_address (sample_node 2) then Inl (NetworkError ''down'') else Inr 7),
     hr_rpc = (\<lambda>c. Inr ()), hr_now = (\<lambda>n. 5), hr_latency = (\<lambda>n. 1)\<rparr>"

definition other_node :: node_info where
  "other_node = \<lparr>ni_id = NodeId 3, ni_address = \<lparr>host = ''localhost'', port = 9301\<rparr>, ni_status = Follower\<rparr>"

definition half_manager :: "nat cluster_manager" where
  "half_manager = sample_manager\<lparr>cm_router := router_add_node sample_hash other_node sample_router, cm_health_state :=
     fmupd (NodeId 3) (health_new 0 (NodeId 3)) (fmupd (NodeId 2) (health_new 0 (NodeId 2)) fmempty)\<rparr>"

theorem silent_node_leaves_ring_witness:
  "NodeId 2 \<notin> set (route_document sample_hash
     (cm_router (run_health_checks sample_hash btree_iter [half_round, half_round, half_round] half_manager)) (DocumentId ''doc''))"
proof -
  have "silent (ni_address (sample_node 2)) {} half_round" by (simp add: silent_def half_round_def)
  moreover have "known_at (NodeId 2) (ni_address (sample_node 2)) {} half_manager"
    using sample_router_node2
    by (simp add: known_at_def half_manager_def sample_manager_pool pool_new_def pool_with_config_def router_get_node_def router_add_node_def other_node_def)
  moreover have "NodeId 2 \<noteq> ni_id (cm_local_node half_manager)"
    by (simp add: half_manager_def sample_manager_def manager_new_def Let_def sample_node_def)
  moreover have "fmlookup (cm_health_state half_manager) (NodeId 2) = Some (health_new 0 (NodeId 2))" by (simp add: half_manager_def)
  moreover have "router_reachable sample_hash {NodeId 1, NodeId 2, NodeId 3} (cm_router half_manager)"
    using router_reachable.add [OF sample_router_facts(1), of other_node] by (simp add: half_manager_def other_node_def)
  ultimately show ?thesis
    using silent_node_leaves_ring [OF hash_iter_btree_iter, of "NodeId 2" half_manager 0 _ "{}" "[half_round, half_round, half_round]" sample_hash]
      sample_router_facts(2) by simp
qed

end
