(* ===== verification/Analyzers.thy ===== *)
theory Analyzers
  imports Prelude
begin

text \<open>
  Text analysis, \<^verbatim>\<open>crates/index/src/analyzer.rs\<close>: the five analyzers, and the tokenizer
  for Chinese, Japanese and Korean around the library \<^verbatim>\<open>jieba\<close>. The tokenizers and filters of
  Tantivy are the parameter \<open>token_lib\<close> with their documented laws, the segmentation of a text by jieba
  the parameter \<open>tokenize\<close>. Texts are UTF-8; jieba counts characters and Tantivy counts bytes.
\<close>

section \<open>Stop words\<close>

definition ENGLISH_STOP_WORDS :: "string list" where
  "ENGLISH_STOP_WORDS =
     [''a'', ''an'', ''and'', ''are'', ''as'', ''at'', ''be'', ''but'', ''by'', ''for'', ''if'', ''in'', ''into'', ''is'',
      ''it'', ''no'', ''not'', ''of'', ''on'', ''or'', ''such'', ''that'', ''the'', ''their'', ''then'', ''there'',
      ''these'', ''they'', ''this'', ''to'', ''was'', ''will'', ''with'']"

definition PORTUGUESE_STOP_WORDS :: "string list" where
  "PORTUGUESE_STOP_WORDS =
     [''a'', ''ao'', ''aos'', ''aquela'', ''aquelas'', ''aquele'', ''aqueles'', ''aquilo'', ''as'',
      ''at'' @ [CHR 0xC3, CHR 0xA9], ''com'', ''como'', ''da'', ''das'', ''de'', ''dela'', ''delas'', ''dele'', ''deles'',
      ''depois'', ''do'', ''dos'', ''e'', ''ela'', ''elas'', ''ele'', ''eles'', ''em'', ''entre'', ''era'', ''essa'',
      ''essas'', ''esse'', ''esses'', ''esta'', ''estas'', ''este'', ''estes'', ''eu'', ''foi'', ''fomos'', ''for'',
      ''foram'', ''h'' @ [CHR 0xC3, CHR 0xA1], ''isso'', ''isto'', ''j'' @ [CHR 0xC3, CHR 0xA1], ''lhe'', ''lhes'',
      ''mais'', ''mas'', ''me'', ''mesmo'', ''meu'', ''meus'', ''minha'', ''minhas'', ''muito'', ''na'', ''nas'', ''no'',
      ''nos'', ''n'' @ [CHR 0xC3, CHR 0xB3] @ ''s'', ''nossa'', ''nossas'', ''nosso'', ''nossos'', ''num'', ''numa'',
      ''n'' @ [CHR 0xC3, CHR 0xA3] @ ''o'', ''o'', ''os'', ''ou'', ''para'', ''pela'', ''pelas'', ''pelo'', ''pelos'',
      ''por'', ''qual'', ''quando'', ''que'', ''quem'', ''se'', ''sem'', ''seu'', ''seus'', ''sua'', ''suas'',
      ''s'' @ [CHR 0xC3, CHR 0xA3] @ ''o'', ''s'' @ [CHR 0xC3, CHR 0xB3], ''tamb'' @ [CHR 0xC3, CHR 0xA9] @ ''m'', ''te'',
      ''tem'', ''tendo'', ''teu'', ''teus'', ''tu'', ''tua'', ''tuas'', ''um'', ''uma'', ''umas'', ''uns'',
      ''voc'' @ [CHR 0xC3, CHR 0xAA], ''voc'' @ [CHR 0xC3, CHR 0xAA] @ ''s'', ''vos'']"

section \<open>Analyzers\<close>

record token =
  offset_from :: nat
  offset_to :: nat
  position :: nat
  tok_text :: string

type_synonym token_filter = "token list \<Rightarrow> token list"

record token_lib =
  tl_simple :: "string \<Rightarrow> token list"
  tl_raw :: "string \<Rightarrow> token list"
  tl_ngram :: "nat \<Rightarrow> nat \<Rightarrow> (string \<Rightarrow> token list) option"
  tl_remove_long :: "nat \<Rightarrow> token_filter"
  tl_lower_caser :: token_filter
  tl_stop_words :: "string list \<Rightarrow> token_filter"
  tl_lower :: "string \<Rightarrow> string"

definition token_laws :: "token_lib \<Rightarrow> bool" where
  "token_laws lib \<longleftrightarrow>
     (\<forall>n ts. tl_remove_long lib n ts = filter (\<lambda>t. length (tok_text t) < n) ts) \<and>
     (\<forall>ts. tl_lower_caser lib ts = map (\<lambda>t. t\<lparr>tok_text := tl_lower lib (tok_text t)\<rparr>) ts) \<and>
     (\<forall>ws ts. tl_stop_words lib ws ts = filter (\<lambda>t. tok_text t \<notin> set ws) ts) \<and>
     (\<forall>s. tl_raw lib s = [\<lparr>offset_from = 0, offset_to = length s, position = 0, tok_text = s\<rparr>]) \<and>
     (\<forall>a b. 0 < a \<and> a \<le> b \<longrightarrow> tl_ngram lib a b \<noteq> None)"

type_synonym analyzer = "string \<Rightarrow> token list"

text \<open>A tokenizer, and filters in the order in which they are added.\<close>

definition text_analyzer :: "(string \<Rightarrow> token list) \<Rightarrow> token_filter list \<Rightarrow> analyzer" where
  "text_analyzer tokenizer filters s = fold (\<lambda>f ts. f ts) filters (tokenizer s)"

definition standard_analyzer :: "token_lib \<Rightarrow> analyzer" where
  "standard_analyzer lib = text_analyzer (tl_simple lib) [tl_remove_long lib 100, tl_lower_caser lib, tl_stop_words lib ENGLISH_STOP_WORDS]"

definition keyword_analyzer :: "token_lib \<Rightarrow> analyzer" where
  "keyword_analyzer lib = text_analyzer (tl_raw lib) [tl_remove_long lib 256]"

definition ngram_analyzer :: "token_lib \<Rightarrow> analyzer option" where
  "ngram_analyzer lib = map_option (\<lambda>tk. text_analyzer tk [tl_lower_caser lib]) (tl_ngram lib 2 3)"

definition portuguese_analyzer :: "token_lib \<Rightarrow> analyzer" where
  "portuguese_analyzer lib = text_analyzer (tl_simple lib) [tl_remove_long lib 100, tl_lower_caser lib, tl_stop_words lib PORTUGUESE_STOP_WORDS]"

section \<open>Characters and bytes\<close>

definition is_cont :: "char \<Rightarrow> bool" where
  "is_cont c \<longleftrightarrow> 0x80 \<le> (of_char c :: nat) \<and> (of_char c :: nat) \<le> 0xBF"

text \<open>\<^verbatim>\<open>char_indices\<close>: the offsets at which a character begins.\<close>

fun char_offsets :: "nat \<Rightarrow> string \<Rightarrow> nat list" where
  "char_offsets i [] = []"
| "char_offsets i (c # s) = (if is_cont c then char_offsets (i + 1) s else i # char_offsets (i + 1) s)"

section \<open>The tokenizer around jieba\<close>

record jieba_token =
  jt_word :: string
  jt_start :: nat
  jt_end :: nat

record jieba_stream =
  js_tokens :: "(string \<times> nat \<times> nat) list"
  js_index :: nat
  js_token :: token

definition offset_at :: "string \<Rightarrow> nat \<Rightarrow> nat" where
  "offset_at s i = (let os = char_offsets 0 s in if i < length os then os ! i else length s)"

definition token_stream :: "(string \<Rightarrow> jieba_token list) \<Rightarrow> string \<Rightarrow> jieba_stream" where
  "token_stream tokenize s =
     \<lparr>js_tokens = map (\<lambda>t. (jt_word t, offset_at s (jt_start t), offset_at s (jt_end t))) (tokenize s), js_index = 0,
      js_token = \<lparr>offset_from = 0, offset_to = 0, position = 0, tok_text = []\<rparr>\<rparr>"

definition advance :: "jieba_stream \<Rightarrow> jieba_stream \<times> bool" where
  "advance st =
     (if js_index st < length (js_tokens st) then
        (let (word, start, stop) = js_tokens st ! js_index st in
         (st\<lparr>js_token := \<lparr>offset_from = start, offset_to = stop, position = js_index st, tok_text = word\<rparr>,
             js_index := js_index st + 1\<rparr>, True))
      else (st, False))"

text \<open>A consumer advances until it is told to stop, and looks at the token after each step.\<close>

function consume :: "jieba_stream \<Rightarrow> token list" where
  "consume st = (case advance st of (st', True) \<Rightarrow> js_token st' # consume st' | (st', False) \<Rightarrow> [])"
  by pat_completeness auto
termination
  by (relation "measure (\<lambda>st. length (js_tokens st) - js_index st)") (auto simp: advance_def Let_def split: if_splits prod.splits)

declare consume.simps [simp del]

definition cjk_analyzer :: "token_lib \<Rightarrow> (string \<Rightarrow> jieba_token list) \<Rightarrow> analyzer" where
  "cjk_analyzer lib tokenize = text_analyzer (\<lambda>s. consume (token_stream tokenize s)) [tl_lower_caser lib]"

text \<open>The names under which they are registered; None is the panic on an invalid range of n-grams.\<close>

definition register_analyzers :: "token_lib \<Rightarrow> (string \<Rightarrow> jieba_token list) \<Rightarrow> (string \<times> analyzer) list option" where
  "register_analyzers lib tokenize =
     (case ngram_analyzer lib of
        None \<Rightarrow> None
      | Some ngram \<Rightarrow> Some [(''standard'', standard_analyzer lib), (''keyword'', keyword_analyzer lib), (''ngram'', ngram),
          (''portuguese'', portuguese_analyzer lib), (''cjk'', cjk_analyzer lib tokenize)])"

section \<open>Lemmas\<close>

text \<open>A text as its characters.\<close>

function utf8_chars :: "string \<Rightarrow> string list" where
  "utf8_chars [] = []"
| "utf8_chars (c # s) = (c # takeWhile is_cont s) # utf8_chars (dropWhile is_cont s)"
  by pat_completeness auto
termination
  by (relation "measure length") (auto simp: less_Suc_eq_le length_dropWhile_le)

definition starts_char :: "string \<Rightarrow> bool" where
  "starts_char s \<longleftrightarrow> s = [] \<or> \<not> is_cont (hd s)"

lemma concat_utf8_chars [simp]: "concat (utf8_chars s) = s"
  by (induction s rule: utf8_chars.induct) simp_all

lemma char_offsets_conts: "list_all is_cont cs \<Longrightarrow> char_offsets i (cs @ s) = char_offsets (i + length cs) s"
  by (induction cs arbitrary: i) simp_all

lemma starts_char_dropWhile: "starts_char (dropWhile is_cont s)"
  using hd_dropWhile [of is_cont s] by (auto simp: starts_char_def)

lemma char_offsets_exact:
  "starts_char s \<Longrightarrow> char_offsets i s = map (\<lambda>k. i + length (concat (take k (utf8_chars s)))) [0..<length (utf8_chars s)]"
proof (induction s arbitrary: i rule: utf8_chars.induct)
  case (2 c s)
  let ?r = "dropWhile is_cont s" and ?t = "takeWhile is_cont s"
  have "char_offsets (i + 1) s = char_offsets (i + 1) (?t @ ?r)" by simp
  also have "\<dots> = char_offsets (i + 1 + length ?t) ?r" by (rule char_offsets_conts) (auto simp: list_all_iff dest: set_takeWhileD)
  also have "\<dots> = map (\<lambda>k. i + 1 + length ?t + length (concat (take k (utf8_chars ?r)))) [0..<length (utf8_chars ?r)]"
    by (rule 2(1) [OF starts_char_dropWhile])
  finally have rest: "char_offsets (i + 1) s = map (\<lambda>k. i + 1 + length ?t + length (concat (take k (utf8_chars ?r)))) [0..<length (utf8_chars ?r)]" .
  have "\<not> is_cont c" using 2(2) by (simp add: starts_char_def)
  then show ?case using rest by (simp add: upt_conv_Cons map_Suc_upt [symmetric] comp_def del: upt_Suc)
qed simp

lemma offset_at_exact:
  assumes "starts_char s" and "i \<le> length (utf8_chars s)"
  shows "offset_at s i = length (concat (take i (utf8_chars s)))"
  using assms(2) by (auto simp: offset_at_def Let_def char_offsets_exact [OF assms(1)] le_less)

lemma concat_take_split:
  assumes "i \<le> j"
  shows "concat (take j cs) = concat (take i cs) @ concat (take (j - i) (drop i cs))"
  using assms by (metis concat_append le_add_diff_inverse take_add)

lemma consume_from:
  "i \<le> length (js_tokens st) \<Longrightarrow> consume (st\<lparr>js_index := i\<rparr>) =
   map (\<lambda>k. \<lparr>offset_from = fst (snd (js_tokens st ! k)), offset_to = snd (snd (js_tokens st ! k)), position = k, tok_text = fst (js_tokens st ! k)\<rparr>)
     [i..<length (js_tokens st)]"
proof (induction "length (js_tokens st) - i" arbitrary: i st)
  case 0
  then show ?case by (subst consume.simps) (simp add: advance_def)
next
  case (Suc n)
  let ?t = "js_tokens st ! i"
  let ?tok = "\<lparr>offset_from = fst (snd ?t), offset_to = snd (snd ?t), position = i, tok_text = fst ?t\<rparr>"
  have i: "i < length (js_tokens st)" using Suc(2) by simp
  have "advance (st\<lparr>js_index := i\<rparr>) = ((st\<lparr>js_token := ?tok\<rparr>)\<lparr>js_index := i + 1\<rparr>, True)"
    using i by (simp add: advance_def split: prod.splits)
  moreover have "consume ((st\<lparr>js_token := ?tok\<rparr>)\<lparr>js_index := i + 1\<rparr>) =
      map (\<lambda>k. \<lparr>offset_from = fst (snd (js_tokens st ! k)), offset_to = snd (snd (js_tokens st ! k)), position = k, tok_text = fst (js_tokens st ! k)\<rparr>)
        [i + 1..<length (js_tokens st)]"
    using Suc(1) [of "st\<lparr>js_token := ?tok\<rparr>" "i + 1"] Suc(2) i by simp
  ultimately show ?case using i by (subst consume.simps) (simp add: upt_conv_Cons)
qed

section \<open>Properties\<close>

text \<open>
  C39. Offsets of Chinese, Japanese and Korean tokens: when the segmentation gives words of the text
  by the positions of their characters, the tokenizer ends and yields these words in order, with
  consecutive positions and with byte offsets that delimit exactly the word in the UTF-8 text,
  however many bytes its characters have.
\<close>

theorem cjk_token_offsets:
  assumes "starts_char s"
    and "\<And>t. t \<in> set (tokenize s) \<Longrightarrow> jt_start t \<le> jt_end t \<and> jt_end t \<le> length (utf8_chars s) \<and>
      jt_word t = concat (take (jt_end t - jt_start t) (drop (jt_start t) (utf8_chars s)))"
  shows "map tok_text (consume (token_stream tokenize s)) = map jt_word (tokenize s) \<and>
    map position (consume (token_stream tokenize s)) = [0..<length (tokenize s)] \<and>
    (\<forall>t \<in> set (consume (token_stream tokenize s)). offset_from t \<le> offset_to t \<and> offset_to t \<le> length s \<and>
       take (offset_to t - offset_from t) (drop (offset_from t) s) = tok_text t)"
proof -
  let ?st = "token_stream tokenize s" and ?cs = "utf8_chars s"
  have c: "consume ?st = map (\<lambda>k. \<lparr>offset_from = offset_at s (jt_start (tokenize s ! k)), offset_to = offset_at s (jt_end (tokenize s ! k)),
      position = k, tok_text = jt_word (tokenize s ! k)\<rparr>) [0..<length (tokenize s)]"
    using consume_from [of 0 ?st] by (simp add: token_stream_def)
  have word: "offset_at s (jt_start t) \<le> offset_at s (jt_end t) \<and> offset_at s (jt_end t) \<le> length s \<and>
      take (offset_at s (jt_end t) - offset_at s (jt_start t)) (drop (offset_at s (jt_start t)) s) = jt_word t"
    if "t \<in> set (tokenize s)" for t
  proof -
    let ?i = "jt_start t" and ?j = "jt_end t"
    let ?a = "concat (take ?i ?cs)" and ?w = "concat (take (?j - ?i) (drop ?i ?cs))" and ?z = "concat (drop ?j ?cs)"
    note t = assms(2) [OF that]
    have o: "offset_at s ?i = length ?a" "offset_at s ?j = length (?a @ ?w)"
      using offset_at_exact [OF assms(1), of ?i] offset_at_exact [OF assms(1), of ?j] concat_take_split [of ?i ?j ?cs] t by auto
    have "s = concat (take ?j ?cs) @ ?z" by (metis append_take_drop_id concat_append concat_utf8_chars)
    then have "s = ?a @ ?w @ ?z" using concat_take_split [of ?i ?j ?cs] t by simp
    then have "length s = length (?a @ ?w @ ?z)" "take (length ?w) (drop (length ?a) s) = ?w" by (metis, metis append_eq_conv_conj)
    then show ?thesis unfolding o using t by simp
  qed
  have "map jt_word (tokenize s) = map (\<lambda>k. jt_word (tokenize s ! k)) [0..<length (tokenize s)]" by (rule nth_equalityI) simp_all
  moreover have "tokenize s ! k \<in> set (tokenize s)" if "k < length (tokenize s)" for k using that by simp
  ultimately show ?thesis using word by (simp add: c comp_def)
qed

theorem cjk_token_offsets_witness:
  "(let w = [CHR 0xE4, CHR 0xB8, CHR 0xAD, CHR 0xE6, CHR 0x96, CHR 0x87]; s = w @ ''a'';
        tk = (\<lambda>_. [\<lparr>jt_word = w, jt_start = 0, jt_end = 2\<rparr>, \<lparr>jt_word = ''a'', jt_start = 2, jt_end = 3\<rparr>]) in
    map (\<lambda>t. take (offset_to t - offset_from t) (drop (offset_from t) s)) (consume (token_stream tk s)) = [w, ''a''])"
proof -
  let ?w = "[CHR 0xE4, CHR 0xB8, CHR 0xAD, CHR 0xE6, CHR 0x96, CHR 0x87]"
  let ?s = "?w @ ''a''" and ?tk = "\<lambda>_ :: string. [\<lparr>jt_word = ?w, jt_start = 0, jt_end = 2\<rparr>, \<lparr>jt_word = ''a'', jt_start = 2, jt_end = 3\<rparr>]"
  have cs: "utf8_chars ?s = [[CHR 0xE4, CHR 0xB8, CHR 0xAD], [CHR 0xE6, CHR 0x96, CHR 0x87], ''a'']" by (simp add: is_cont_def)
  have start: "starts_char ?s" by (simp add: starts_char_def is_cont_def)
  have tk: "jt_start t \<le> jt_end t \<and> jt_end t \<le> length (utf8_chars ?s) \<and>
      jt_word t = concat (take (jt_end t - jt_start t) (drop (jt_start t) (utf8_chars ?s)))" if "t \<in> set (?tk ?s)" for t
    using that unfolding cs by auto
  have r: "map tok_text (consume (token_stream ?tk ?s)) = map jt_word (?tk ?s)"
    "\<forall>t \<in> set (consume (token_stream ?tk ?s)). take (offset_to t - offset_from t) (drop (offset_from t) ?s) = tok_text t"
    using cjk_token_offsets [OF start, of ?tk, OF tk] by blast+
  have "map (\<lambda>t. take (offset_to t - offset_from t) (drop (offset_from t) ?s)) (consume (token_stream ?tk ?s)) =
      map tok_text (consume (token_stream ?tk ?s))" using r(2) by (intro map_cong refl) blast
  then show ?thesis unfolding Let_def r(1) by simp
qed

text \<open>
  The registration never panics, and the standard and the Portuguese analyzer yield, in order, the
  lower-case forms of the short words of a text that are not stop words, in whatever case the
  text has them.
\<close>

theorem stop_words_removed:
  assumes "token_laws lib"
  shows "register_analyzers lib tokenize \<noteq> None"
    and "map tok_text (standard_analyzer lib s) =
      filter (\<lambda>w. w \<notin> set ENGLISH_STOP_WORDS) (map (tl_lower lib) (filter (\<lambda>w. length w < 100) (map tok_text (tl_simple lib s))))"
    and "map tok_text (portuguese_analyzer lib s) =
      filter (\<lambda>w. w \<notin> set PORTUGUESE_STOP_WORDS) (map (tl_lower lib) (filter (\<lambda>w. length w < 100) (map tok_text (tl_simple lib s))))"
proof -
  have "\<forall>a b. 0 < a \<and> a \<le> b \<longrightarrow> tl_ngram lib a b \<noteq> None" using assms unfolding token_laws_def by (elim conjE)
  then have "tl_ngram lib 2 3 \<noteq> None" by simp
  then show "register_analyzers lib tokenize \<noteq> None" by (auto simp: register_analyzers_def ngram_analyzer_def)
  have stop: "tl_stop_words lib ws ts = filter (\<lambda>t. tok_text t \<notin> set ws) ts" "tl_remove_long lib k ts = filter (\<lambda>t. length (tok_text t) < k) ts"
    "tl_lower_caser lib ts = map (\<lambda>t. t\<lparr>tok_text := tl_lower lib (tok_text t)\<rparr>) ts" for ws k ts
    using assms by (simp_all add: token_laws_def)
  have "map tok_text (text_analyzer (tl_simple lib) [tl_remove_long lib 100, tl_lower_caser lib, tl_stop_words lib ws] s) =
      filter (\<lambda>w. w \<notin> set ws) (map (tl_lower lib) (filter (\<lambda>w. length w < 100) (map tok_text (tl_simple lib s))))" for ws
    by (simp add: text_analyzer_def stop filter_map comp_def)
  then show "map tok_text (standard_analyzer lib s) =
      filter (\<lambda>w. w \<notin> set ENGLISH_STOP_WORDS) (map (tl_lower lib) (filter (\<lambda>w. length w < 100) (map tok_text (tl_simple lib s))))"
    "map tok_text (portuguese_analyzer lib s) =
      filter (\<lambda>w. w \<notin> set PORTUGUESE_STOP_WORDS) (map (tl_lower lib) (filter (\<lambda>w. length w < 100) (map tok_text (tl_simple lib s))))"
    unfolding standard_analyzer_def portuguese_analyzer_def by blast+
qed

end
