(* ===== verification/Ring_Reports.thy ===== *)
theory Ring_Reports
  imports Cluster_Router
begin

text \<open>
  Two functions that only report: the balance of the hash ring
  (\<^verbatim>\<open>crates/core/src/consistent_hash.rs\<close>) and the execution of a rebalance plan
  (\<^verbatim>\<open>crates/core/src/rebalancer.rs\<close>). \<open>percent\<close> is the percentage of two counts, computed in
  floating point.
\<close>

definition vnodes_on_ring :: "(string \<Rightarrow> u8 list) \<Rightarrow> 'a hash_ring \<Rightarrow> string \<Rightarrow> nat" where
  "vnodes_on_ring h r i =
     length (filter (\<lambda>k. fmlookup (ring r) (hash_to_position h (vnode_key i k)) \<noteq> None) [0..<VIRTUAL_NODES])"

definition ring_balance :: "(nat \<Rightarrow> nat \<Rightarrow> 'f) \<Rightarrow> (string \<Rightarrow> u8 list) \<Rightarrow> 'a hash_ring \<Rightarrow> (string, 'f) fmap" where
  "ring_balance percent h r =
     (if ring r = fmempty then fmempty
      else fmmap_keys (\<lambda>i _. percent (vnodes_on_ring h r i) (fm_len (ring r))) (ring_nodes r))"

text \<open>The moves are logged, the first component, and not made.\<close>

definition execute_plan :: "rebalance_plan \<Rightarrow> data_move list \<times> rebalance_status" where
  "execute_plan plan = (if plan_is_empty plan then ([], Completed) else (moves plan, Completed))"

text \<open>
  The reported balance never shows an imbalance: every node of the ring is reported with the same
  share, whatever parts of the key space lie before its virtual nodes.
\<close>

theorem ring_balance_uniform:
  assumes "ring_good h r" and "fmlookup (ring_nodes r) i = Some v"
  shows "fmlookup (ring_balance percent h r) i = Some (percent VIRTUAL_NODES (fm_len (ring r)))"
proof -
  have on: "fmlookup (ring r) (hash_to_position h (vnode_key i k)) \<noteq> None" if "k < VIRTUAL_NODES" for k
    using assms that by (auto simp: ring_good_def ring_full_def positions_def)
  then have "vnodes_on_ring h r i = VIRTUAL_NODES"
    by (simp add: vnodes_on_ring_def filter_True)
  moreover have "ring r \<noteq> fmempty" using on [of 0] by (auto simp: VIRTUAL_NODES_def)
  ultimately show ?thesis using assms(2) by (simp add: ring_balance_def)
qed

end
