(* ===== verification/Spec2Isabelle.thy ===== *)
theory Spec2Isabelle
  imports Prelude Errors Cluster Vector_Clock Consistency Documents Read_Coordinator Hash_Ring Query Cluster_Router
    Collections Session Connection_Pool Gossip Cluster_Manager Security Middleware Wal Storage Memtable Raft_Log
    State_Machine Query_Engine Dto Cache Forwarding Handlers Node_Consistency Bulk
    Rpc Scatter_Search Write_Batcher Config Snapshots Cluster_Admin Tantivy Collection_Index Index_Query Tantivy_Index Request_Pipeline
    Transport_Tls Access_Tokens Raft_Startup Startup Metrics Admin_Tui Failure_Detector Health_Rounds Analyzers Ring_Reports
begin

text \<open>
  A verification of MSearchDB, a distributed document store with full-text search. All paths below
  are under \<^verbatim>\<open>src/crates/\<close>.

  \<^bold>\<open>The program.\<close> A node serves a REST interface (\<^verbatim>\<open>node/src/handlers\<close>, bodies in
  \<^verbatim>\<open>dto.rs\<close>) behind authentication and limits (\<^verbatim>\<open>middleware.rs\<close>). A write becomes
  a Raft command; a node that does not lead forwards it to the leader over gRPC
  (\<^verbatim>\<open>handlers/mod.rs\<close>, \<^verbatim>\<open>network\<close>), single documents through a batcher. Committed
  entries are applied by the state machine (\<^verbatim>\<open>consensus\<close>) to RocksDB
  (\<^verbatim>\<open>storage\<close>) and to the Tantivy index (\<^verbatim>\<open>index\<close>). Reads are answered from
  a cache, the local storage or, for searches, the index. \<^verbatim>\<open>core\<close> has the types and the
  pure algorithms: query processing, the hash ring, routing, conflict resolution by vector clocks.

  \<^bold>\<open>Conventions\<close> (\<open>Prelude\<close>). Strings are their UTF-8 bytes, hash maps finite maps whose traversal
  is a parameter with the law \<open>hash_iter\<close>, machine integers words that wrap, floats bit patterns,
  results sums. State behind locks is a record passed and returned; what depends on time,
  randomness or scheduling is an argument (clocks, orders of arrival, outcomes of calls).

  \<^bold>\<open>Theories.\<close> Each models one part and proves its properties:
  \<^item> \<open>Errors\<close>, \<open>Cluster\<close>, \<open>Documents\<close>, \<open>Collections\<close>, \<open>Query\<close>, \<open>Consistency\<close>, \<open>Vector_Clock\<close>,
    \<open>Config\<close>: \<^verbatim>\<open>core/src/error.rs, cluster.rs, document.rs, collection.rs, query.rs, consistency.rs, vector_clock.rs, config.rs\<close>,
    \<^verbatim>\<open>consensus/src/quorum.rs\<close>. Mapping updates are exact, clocks form a causal order, quorums
    meet, a node starts with exactly the well-formed configurations.
  \<^item> \<open>Read_Coordinator\<close>, \<open>Hash_Ring\<close>, \<open>Cluster_Router\<close>: \<^verbatim>\<open>core/src/read_coordinator.rs,
    consistent_hash.rs, cluster_router.rs, rebalancer.rs\<close>. The winner of a read is undominated and
    stale replicas are exactly reported; adding a node moves only keys to that node.
  \<^item> \<open>Query_Engine\<close>: sorting, cursors, collapsing and aggregations of \<^verbatim>\<open>core/src/query.rs\<close>. Sorting
    is a stable sort for a total order where the values are comparable; cursors page exactly.
  \<^item> \<open>Wal\<close>, \<open>Memtable\<close>, \<open>Storage\<close>: \<^verbatim>\<open>storage/src\<close>. The log reads back what was appended, replay
    restores the state, and the RocksDB backend refines a map from collections to documents.
  \<^item> \<open>Raft_Log\<close>, \<open>State_Machine\<close>: \<^verbatim>\<open>consensus/src\<close>. The durable log store refines the in-memory
    one and stays contiguous; applying a command refines the specification, replicas agree.
  \<^item> \<open>Tantivy\<close>, \<open>Collection_Index\<close>, \<open>Index_Query\<close>, \<open>Tantivy_Index\<close>: \<^verbatim>\<open>index/src\<close>. The interface of
    the library and its laws; the index of a collection refines pending and published lists of
    documents; queries select the documents they
    describe; the index behind the state machine.
  \<^item> \<open>Rpc\<close>, \<open>Forwarding\<close>, \<open>Connection_Pool\<close>, \<open>Scatter_Search\<close>: \<^verbatim>\<open>network/src\<close>,
    \<^verbatim>\<open>node/src/handlers/search.rs\<close>. Calls are transparent, snapshot streams reassemble, a scattered
    search is the exact merge of the answers in time, circuit breakers follow their automaton.
  \<^item> \<open>Gossip\<close>, \<open>Cluster_Manager\<close>, \<open>Cluster_Admin\<close>: \<^verbatim>\<open>node/src/cluster_manager.rs\<close>,
    \<^verbatim>\<open>handlers/cluster.rs, admin.rs\<close>. Gossip exchanges converge, health follows the failures seen,
    read repair
    returns the newest version and writes it locally.
  \<^item> \<open>Failure_Detector\<close>, \<open>Health_Rounds\<close>, \<open>Ring_Reports\<close>: the phi-accrual detector and the rounds of health checks of
    \<^verbatim>\<open>cluster_manager.rs\<close>, the reports of \<^verbatim>\<open>core/src/consistent_hash.rs, rebalancer.rs\<close>. A node that
    no round reaches leaves the ring; the reported balance is always uniform.
  \<^item> \<open>Security\<close>, \<open>Middleware\<close>, \<open>Access_Tokens\<close>, \<open>Transport_Tls\<close>: \<^verbatim>\<open>core/src/security.rs\<close>,
    \<^verbatim>\<open>node/src/middleware.rs\<close>, \<^verbatim>\<open>network/src/tls.rs\<close>. Buckets bound rates, counters connections, issued tokens authorise until they expire, validated TLS settings check
    clients.
  \<^item> \<open>Request_Pipeline\<close>: \<^verbatim>\<open>node/src/lib.rs\<close>, the routing table and the stack of layers around the
    handlers. Handlers run only with the role of their route.
  \<^item> \<open>Dto\<close>, \<open>Cache\<close>, \<open>Session\<close>, \<open>Write_Batcher\<close>, \<open>Handlers\<close>, \<open>Bulk\<close>, \<open>Node_Consistency\<close>, \<open>Snapshots\<close>:
    the data transfer objects and handlers of \<^verbatim>\<open>node/src\<close> and \<^verbatim>\<open>core/src/snapshot.rs\<close>. Reads of
    a leading node are current, a batcher answers every entry once, a restored snapshot is the
    state at its creation.
  \<^item> \<open>Raft_Startup\<close>, \<open>Startup\<close>: \<^verbatim>\<open>consensus/src/raft_node.rs, network.rs\<close>, \<^verbatim>\<open>node/src/main.rs\<close>. The steps from
    the command line to the state of the handlers; who may use a started node, what a restarted
    one has.
  \<^item> \<open>Metrics\<close>, \<open>Admin_Tui\<close>, \<open>Analyzers\<close>: \<^verbatim>\<open>node/src/metrics.rs, admin_tui.rs\<close>, \<^verbatim>\<open>index/src/analyzer.rs\<close>.
    Registering the metrics cannot fail, the dashboard reads metrics exactly and its log is bounded,
    tokens have the byte offsets of their words.

  \<^bold>\<open>Interfaces.\<close> Contracts between parts are locales, interpreted on the model: \<open>scored_order\<close>
  (reads), \<open>placement\<close> (ring, used by the router), \<open>total_cmp\<close> (sorting), the document store
  (RocksDB and in memory), the log store (both), \<open>simulation\<close> (collection index), gossip views and
  quorums.

  \<^bold>\<open>Parameters.\<close> Libraries are records of functions with the laws their documentation gives, each
  with an instance that satisfies them: RocksDB (\<open>rocks_laws\<close>), the document codec
  (\<open>codec_laws\<close>), the cache moka (\<open>moka_laws\<close>), JSON (\<open>json_laws\<close>), openraft (\<open>commits_locally\<close>,
  \<open>leader_reachable\<close>, \<open>set_nodes_documented\<close>), Tantivy (\<open>tantivy_laws\<close>, \<open>leaf_laws\<close>), gRPC (\<open>carries\<close>), archives
  of snapshots, TOML, rustls, tokens (\<open>jwt_laws\<close>), the router of axum (\<open>dispatches\<close>), Prometheus, SHA-256 and
  checksums, float arithmetic and formatting.

  \<^bold>\<open>Loops.\<close> Most loops are structural recursions. The sender of snapshot chunks (\<open>chunk_loop\<close>) and
  the wait for an applied index (\<open>wait_for_index\<close>) may not end and are partial functions into
  options; that they end is proved, for positive chunk sizes and for clocks that pass the deadline.
  No fuel is used.

  \<^bold>\<open>What modelling showed.\<close> Where the code does not do what it means to, the property states what it
  does: a document with a new field cannot be indexed on disk while its collection is open, a
  replicated batch in memory leaves one searchable document, a dropped collection is still served
  from the cache, membership changes erase addresses, gossip does not spread, streamed snapshots
  are ignored, sorted searches of an alias are not merged, IPv6 addresses lose their port. Requests
  cancelled by the deadline keep their connection slots, names in a path lower the role it needs,
  rejected requests are not traced, the security settings of a started node are always the default
  ones, a node with a collection does not start again, and one whose log cannot be opened
  starts without its vote.

  \<^bold>\<open>Not modelled.\<close> The set-up of tracing (\<^verbatim>\<open>node/src/observability.rs\<close>) and log records, which no other
  part reads; crate roots and re-exports; starting the gRPC server and spawning the background tasks
  (calls of libraries only; what the tasks do is modelled); the shutdown; layout and terminal modes of
  the dashboard; tuning options of RocksDB; texts of \<^verbatim>\<open>Display\<close> and \<^verbatim>\<open>Debug\<close> that no operation returns;
  panics, and locks they poison.
\<close>

end
